(* ===== verification/Prelude.thy ===== *)
theory Prelude
  imports Main "HOL-Library.Product_Lexorder" "HOL-Library.List_Lexorder"
begin

section \<open>Prelude: the Rust standard library as the model needs it\<close>

text \<open>
  What every component of the development shares: the fixed-width integer operations of
  Rust (\<open>saturating_add\<close>, \<open>checked_pow\<close>, \<dots>) written out on \<open>nat\<close> with
  their bounds, byte strings (a Rust \<open>String\<close> is its UTF-8 bytes, so \<open>string\<close>
  here is a list of bytes), the ordered set \<open>BTreeSet\<close> as a key-ascending list,
  and the generic facts about lists that the component proofs use.  Two locales at the
  end state contracts several components share: an ordered set seen as a set of keys
  (\<open>key_set\<close>) and a deterministic machine with an invariant (\<open>machine\<close>).

  Ids (\<open>MessageId\<close>, \<open>MailboxId\<close>, \<dots>, \<open>crates/postio-model/src/ids.rs\<close>) are
  newtypes over \<open>i64\<close> that the modelled code only compares; they are \<open>int\<close>
  here, one synonym per newtype.
\<close>

named_theorems machine_ints \<open>saturating and checked integer operations, unfolded\<close>

type_synonym message_id = int
type_synonym thread_id = int
type_synonym mailbox_id = int
type_synonym draft_id = int
type_synonym account_id = int
type_synonym operation_id = int
type_synonym saga_id = int
type_synonym remote_id = string
type_synonym blob_id = string

text \<open>\<open>is_assigned\<close>: \<open>0\<close> means not yet written to the database.\<close>

definition is_assigned :: "int \<Rightarrow> bool" where
  "is_assigned i \<longleftrightarrow> 0 < i"


subsection \<open>Unsigned machine integers\<close>

definition u32_max :: nat where "u32_max = 4294967295"

definition u64_max :: nat where "u64_max = 18446744073709551615"

definition sat_add32 :: "nat \<Rightarrow> nat \<Rightarrow> nat" where
  "sat_add32 a b = min (a + b) u32_max"

definition checked_pow32 :: "nat \<Rightarrow> nat \<Rightarrow> nat option" where
  "checked_pow32 a n = (if a ^ n \<le> u32_max then Some (a ^ n) else None)"

declare sat_add32_def [machine_ints] checked_pow32_def [machine_ints]

lemma sat_add32_le: "sat_add32 a b \<le> u32_max"
  by (simp add: sat_add32_def)

lemma sat_add32_mono: "a \<le> a' \<Longrightarrow> b \<le> b' \<Longrightarrow> sat_add32 a b \<le> sat_add32 a' b'"
  by (auto simp: sat_add32_def)

lemma sat_add32_exact: "a + b \<le> u32_max \<Longrightarrow> sat_add32 a b = a + b"
  by (simp add: sat_add32_def)


subsection \<open>Byte strings\<close>

definition byte :: "char \<Rightarrow> nat" where
  "byte c = of_char c"

definition bytes :: "string \<Rightarrow> nat list" where
  "bytes s = map byte s"

text \<open>\<open>to_ascii_lowercase\<close>: only the bytes A to Z change.\<close>

definition ascii_lower :: "nat \<Rightarrow> nat" where
  "ascii_lower b = (if 65 \<le> b \<and> b \<le> 90 then b + 32 else b)"

definition lower_bytes :: "string \<Rightarrow> nat list" where
  "lower_bytes s = map ascii_lower (bytes s)"

lemma ascii_lower_idem [simp]: "ascii_lower (ascii_lower b) = ascii_lower b"
  by (simp add: ascii_lower_def)

lemma bytes_inject [simp]: "bytes s = bytes t \<longleftrightarrow> s = t"
proof
  assume "bytes s = bytes t"
  then show "s = t"
    unfolding bytes_def byte_def
    by (rule map_injective) (rule injI, simp)
qed simp

text \<open>An unsigned integer's \<open>to_string\<close>: decimal digits.\<close>

fun dec :: "nat \<Rightarrow> string" where
  "dec n = (if n < 10 then [char_of (48 + n)] else dec (n div 10) @ [char_of (48 + n mod 10)])"

declare dec.simps [simp del]

definition dec_int :: "int \<Rightarrow> string" where
  "dec_int i = (if i < 0 then ''-'' @ dec (nat (- i)) else dec (nat i))"

text \<open>
  \<open>str::trim\<close> strips Unicode white space.  On UTF-8 bytes that is one of a fixed set
  of byte sequences; \<open>ws_len\<close> is the length of the one a string starts with, 0 for none.
\<close>

fun ws_len :: "nat list \<Rightarrow> nat" where
  "ws_len [] = 0"
| "ws_len (a # r) =
     (if (9 \<le> a \<and> a \<le> 13) \<or> a = 32 then 1
      else (case r of
        [] \<Rightarrow> 0
      | b # r' \<Rightarrow>
          if a = 0xC2 \<and> (b = 0x85 \<or> b = 0xA0) then 2
          else (case r' of
            [] \<Rightarrow> 0
          | c # _ \<Rightarrow>
              if (a = 0xE1 \<and> b = 0x9A \<and> c = 0x80)
                \<or> (a = 0xE2 \<and> b = 0x80 \<and> ((0x80 \<le> c \<and> c \<le> 0x8A) \<or> c = 0xA8 \<or> c = 0xA9 \<or> c = 0xAF))
                \<or> (a = 0xE2 \<and> b = 0x81 \<and> c = 0x9F)
                \<or> (a = 0xE3 \<and> b = 0x80 \<and> c = 0x80)
              then 3 else 0)))"

lemma ws_len_le: "ws_len bs \<le> length bs"
  by (cases bs) (auto split: list.splits)

text \<open>The same set, read from the end: the byte sequence reversed.\<close>

fun ws_len_rev :: "nat list \<Rightarrow> nat" where
  "ws_len_rev [] = 0"
| "ws_len_rev (c # r) =
     (if ws_len [c] = 1 then 1
      else (case r of
        [] \<Rightarrow> 0
      | b # r' \<Rightarrow>
          if ws_len [b, c] = 2 then 2
          else (case r' of [] \<Rightarrow> 0 | a # _ \<Rightarrow> if ws_len [a, b, c] = 3 then 3 else 0)))"

function trim_start :: "string \<Rightarrow> string" where
  "trim_start s =
     (let n = ws_len (bytes s) in if n = 0 then s else trim_start (drop n s))"
  by pat_completeness auto
termination
proof (relation "measure length")
  fix s and n
  assume "n = ws_len (bytes s)" and "n \<noteq> 0"
  moreover from this have "s \<noteq> []" by (auto simp: bytes_def)
  ultimately show "(drop n s, s) \<in> measure length" by simp
qed simp

function trim_end_rev :: "string \<Rightarrow> string" where
  "trim_end_rev s =
     (let n = ws_len_rev (bytes s) in if n = 0 then s else trim_end_rev (drop n s))"
  by pat_completeness auto
termination
proof (relation "measure length")
  fix s and n
  assume "n = ws_len_rev (bytes s)" and "n \<noteq> 0"
  moreover from this have "s \<noteq> []" by (auto simp: bytes_def)
  ultimately show "(drop n s, s) \<in> measure length" by simp
qed simp

declare trim_start.simps [simp del] trim_end_rev.simps [simp del]

definition trim :: "string \<Rightarrow> string" where
  "trim s = rev (trim_end_rev (rev (trim_start s)))"

lemma trim_start_id: "ws_len (bytes s) = 0 \<Longrightarrow> trim_start s = s"
  by (subst trim_start.simps) simp

lemma trim_end_rev_id: "ws_len_rev (bytes s) = 0 \<Longrightarrow> trim_end_rev s = s"
  by (subst trim_end_rev.simps) simp


subsection \<open>\<open>BTreeSet\<close>: an ordered set by key\<close>

text \<open>
  A \<open>BTreeSet\<close> is the list its iterator yields: ascending and without two elements
  of one key.  \<open>insert\<close> leaves an element of the same key in place (Rust does not
  update it), while collecting from an iterator sorts stably and keeps the \<^emph>\<open>last\<close>
  element of a run of equal keys, as the standard library's bulk build does.
\<close>

fun bt_insert :: "('a \<Rightarrow> 'k::linorder) \<Rightarrow> 'a \<Rightarrow> 'a list \<Rightarrow> 'a list" where
  "bt_insert k x [] = [x]"
| "bt_insert k x (y # ys) =
     (if k x < k y then x # y # ys
      else if k x = k y then y # ys
      else y # bt_insert k x ys)"

definition bt_remove :: "('a \<Rightarrow> 'k) \<Rightarrow> 'a \<Rightarrow> 'a list \<Rightarrow> 'a list" where
  "bt_remove k x ys = filter (\<lambda>y. k y \<noteq> k x) ys"

definition bt_mem :: "('a \<Rightarrow> 'k) \<Rightarrow> 'a \<Rightarrow> 'a list \<Rightarrow> bool" where
  "bt_mem k x ys \<longleftrightarrow> k x \<in> k ` set ys"

fun dedup_last :: "('a \<Rightarrow> 'k) \<Rightarrow> 'a list \<Rightarrow> 'a list" where
  "dedup_last k [] = []"
| "dedup_last k [x] = [x]"
| "dedup_last k (x # y # ys) =
     (if k x = k y then dedup_last k (y # ys) else x # dedup_last k (y # ys))"

definition bt_collect :: "('a \<Rightarrow> 'k::linorder) \<Rightarrow> 'a list \<Rightarrow> 'a list" where
  "bt_collect k xs = dedup_last k (sort_key k xs)"

definition ascending :: "('a \<Rightarrow> 'k::linorder) \<Rightarrow> 'a list \<Rightarrow> bool" where
  "ascending k xs \<longleftrightarrow> sorted_wrt (<) (map k xs)"

lemma ascending_Nil [simp]: "ascending k []"
  by (simp add: ascending_def)

lemma ascending_Cons [simp]:
  "ascending k (x # xs) \<longleftrightarrow> (\<forall>y\<in>set xs. k x < k y) \<and> ascending k xs"
  by (simp add: ascending_def)

lemma keys_bt_insert [simp]: "k ` set (bt_insert k x ys) = insert (k x) (k ` set ys)"
  by (induction ys) auto

lemma ascending_bt_insert: "ascending k ys \<Longrightarrow> ascending k (bt_insert k x ys)"
proof (induction ys)
  case (Cons y ys)
  have "\<forall>z\<in>set (bt_insert k x ys). k z = k x \<or> k z \<in> k ` set ys"
    using keys_bt_insert [of k x ys] by blast
  with Cons show ?case by fastforce
qed simp

lemma keys_bt_remove [simp]: "k ` set (bt_remove k x ys) = k ` set ys - {k x}"
  by (auto simp: bt_remove_def)

lemma ascending_filter: "ascending k ys \<Longrightarrow> ascending k (filter P ys)"
  by (induction ys) auto

lemma set_dedup_last: "set (dedup_last k xs) \<subseteq> set xs"
  by (induction k xs rule: dedup_last.induct) auto

lemma keys_dedup_last [simp]: "k ` set (dedup_last k xs) = k ` set xs"
  by (induction k xs rule: dedup_last.induct) auto

lemma ascending_dedup_last: "sorted (map k xs) \<Longrightarrow> ascending k (dedup_last k xs)"
proof (induction k xs rule: dedup_last.induct)
  case (3 k x y ys)
  have sub: "set (dedup_last k (y # ys)) \<subseteq> set (y # ys)" by (rule set_dedup_last)
  show ?case
  proof (cases "k x = k y")
    case True
    with 3 show ?thesis by simp
  next
    case False
    with 3 have "\<forall>z\<in>set (y # ys). k x < k z" by fastforce
    with False 3 sub show ?thesis by auto
  qed
qed simp_all

lemma keys_bt_collect [simp]: "k ` set (bt_collect k xs) = k ` set xs"
  by (simp add: bt_collect_def)

lemma ascending_bt_collect: "ascending k (bt_collect k xs)"
  by (simp add: bt_collect_def ascending_dedup_last)

lemma ascending_distinct_keys: "ascending k xs \<Longrightarrow> distinct (map k xs)"
  by (induction xs) auto

lemma ascending_keys_unique:
  assumes "ascending k xs" "ascending k ys" "k ` set xs = k ` set ys"
  shows "map k xs = map k ys"
proof (rule sorted_distinct_set_unique)
  show "sorted (map k xs)" "distinct (map k xs)" "sorted (map k ys)" "distinct (map k ys)"
    using assms(1,2) by (simp_all add: ascending_def strict_sorted_iff)
  show "set (map k xs) = set (map k ys)" using assms(3) by simp
qed


subsection \<open>\<open>HashMap\<close>: an association list\<close>

text \<open>
  A \<open>HashMap\<close> the code iterates over is the list of its entries in whatever order the
  iterator yields them, with distinct keys; \<open>get_mut\<close> followed by a write is
  \<open>al_modify\<close>, \<open>insert\<close> is \<open>al_put\<close>.
\<close>

definition al_modify :: "'k \<Rightarrow> ('v \<Rightarrow> 'v) \<Rightarrow> ('k \<times> 'v) list \<Rightarrow> ('k \<times> 'v) list" where
  "al_modify k f xs = map (\<lambda>(k', v). (k', if k' = k then f v else v)) xs"

definition al_remove :: "'k \<Rightarrow> ('k \<times> 'v) list \<Rightarrow> ('k \<times> 'v) list" where
  "al_remove k xs = filter (\<lambda>(k', v). k' \<noteq> k) xs"

definition al_put :: "'k \<Rightarrow> 'v \<Rightarrow> ('k \<times> 'v) list \<Rightarrow> ('k \<times> 'v) list" where
  "al_put k v xs = (if k \<in> fst ` set xs then al_modify k (\<lambda>_. v) xs else xs @ [(k, v)])"

definition al_map :: "('v \<Rightarrow> 'v) \<Rightarrow> ('k \<times> 'v) list \<Rightarrow> ('k \<times> 'v) list" where
  "al_map f xs = map (\<lambda>(k, v). (k, f v)) xs"

lemma al_keys [simp]:
  "map fst (al_modify k f xs) = map fst xs" "map fst (al_map g xs) = map fst xs"
  "fst ` set (al_remove k xs) = fst ` set xs - {k}"
  by (auto simp: al_modify_def al_map_def al_remove_def case_prod_unfold)

lemma al_modify_get [simp]: "map_of (al_modify k f xs) j = (if j = k then map_option f (map_of xs k) else map_of xs j)"
  by (induction xs) (auto simp: al_modify_def)

lemma al_remove_get [simp]: "map_of (al_remove k xs) j = (if j = k then None else map_of xs j)"
  by (induction xs) (auto simp: al_remove_def)

lemma al_map_get [simp]: "map_of (al_map f xs) j = map_option f (map_of xs j)"
  by (induction xs) (auto simp: al_map_def)

lemma al_put_get [simp]: "map_of (al_put k v xs) j = (if j = k then Some v else map_of xs j)"
proof (cases "k \<in> fst ` set xs")
  case True
  then obtain w where "map_of xs k = Some w" by (metis map_of_eq_None_iff not_None_eq)
  with True show ?thesis by (simp add: al_put_def)
next
  case False
  then have "map_of xs k = None" by (simp add: map_of_eq_None_iff)
  with False show ?thesis by (auto simp: al_put_def map_add_def split: option.splits)
qed

lemma al_distinct [simp]:
  "distinct (map fst (al_modify k f xs)) \<longleftrightarrow> distinct (map fst xs)"
  "distinct (map fst (al_map g xs)) \<longleftrightarrow> distinct (map fst xs)"
  by simp_all

lemma al_distinct_remove: "distinct (map fst xs) \<Longrightarrow> distinct (map fst (al_remove k xs))"
  by (induction xs) (auto simp: al_remove_def)

lemma al_distinct_put: "distinct (map fst xs) \<Longrightarrow> distinct (map fst (al_put k v xs))"
  by (auto simp: al_put_def)


text \<open>Lookups are read through \<open>map_of\<close>, never as membership of the list.\<close>

declare map_of_eq_Some_iff [simp del] Some_eq_map_of_iff [simp del]


subsection \<open>Generic list lemmas\<close>

lemma map_of_update_same:
  "map f (filter P (map g xs)) = map f (map g (filter (\<lambda>x. P (g x)) xs))"
  by (simp add: filter_map comp_def)

lemma set_map_filter_iff: "x \<in> set (List.map_filter f xs) \<longleftrightarrow> (\<exists>y\<in>set xs. f y = Some x)"
  by (auto simp: List.map_filter_def image_iff)

lemma sort_key_stable_sorted: "sorted (map k xs) \<Longrightarrow> sort_key k xs = xs"
  by (rule sort_key_id_if_sorted)

lemma image_key_filter: "k ` {x \<in> A. k x \<noteq> c} = k ` A - {c}"
  by auto

lemma last_nth_pop: "xs \<noteq> [] \<Longrightarrow> butlast xs @ [last xs] = xs"
  by simp


subsection \<open>The contract of an ordered set\<close>

text \<open>
  What the code relies on from its set types, stated once: each operation is the set
  operation on the keys.  \<open>Flags\<close> interprets it on \<open>FlagSet\<close>.
\<close>

locale key_set =
  fixes keys :: "'s \<Rightarrow> 'k set"
    and inv :: "'s \<Rightarrow> bool"
    and key :: "'e \<Rightarrow> 'k"
    and items :: "'s \<Rightarrow> 'e list"
    and collect :: "'e list \<Rightarrow> 's"
    and member :: "'s \<Rightarrow> 'e \<Rightarrow> bool"
  assumes keys_items: "key ` set (items s) = keys s"
    and keys_collect: "keys (collect xs) = key ` set xs"
    and inv_collect: "inv (collect xs)"
    and member_keys: "member s x \<longleftrightarrow> key x \<in> keys s"
begin

lemma keys_union: "keys (collect (items s @ items t)) = keys s \<union> keys t"
  by (simp add: keys_collect image_Un keys_items)

lemma keys_difference:
  "keys (collect (filter (\<lambda>x. \<not> member t x) (items s))) = keys s - keys t"
  using keys_items [of s] by (auto simp: keys_collect member_keys)

lemma items_empty: "items s = [] \<longleftrightarrow> keys s = {}"
  using keys_items [of s] by auto

end


subsection \<open>The contract of a deterministic machine\<close>

text \<open>
  Most of the engine is written as state machines the caller drives: an operation takes
  the state and returns the next one.  A step that keeps an invariant keeps it along
  every run; each such component interprets this locale with its own step and invariant.
\<close>

locale machine =
  fixes step :: "'s \<Rightarrow> 'e \<Rightarrow> 's"
    and inv :: "'s \<Rightarrow> bool"
  assumes step_inv: "inv s \<Longrightarrow> inv (step s e)"
begin

lemma run_inv: "inv s \<Longrightarrow> inv (foldl step s es)"
  by (induction es arbitrary: s) (auto intro: step_inv)

lemma run_prefix_inv:
  assumes "inv s"
  shows "inv (foldl step s (take n es))"
  using assms by (rule run_inv)

lemma run_measure_bound:
  assumes "inv s" and "\<And>t. inv t \<Longrightarrow> m t \<le> (b::nat)"
  shows "m (foldl step s es) \<le> b"
  using assms by (blast intro: run_inv)

end

text \<open>An id longer than every id in use, for the demonstration servers.\<close>

lemma concat_longer: "x \<in> set xs \<Longrightarrow> length x \<le> length (concat xs)"
  by (induction xs) auto

lemma concat_fresh: "concat (map fst ms) @ [c] \<notin> fst ` set ms"
proof
  assume "concat (map fst ms) @ [c] \<in> fst ` set ms"
  then have "length (concat (map fst ms) @ [c]) \<le> length (concat (map fst ms))"
    using concat_longer [of "concat (map fst ms) @ [c]" "map fst ms"] by simp
  then show False by simp
qed

end
