(* ===== verification/Rust_Time.thy ===== *)
theory Rust_Time
  imports Prelude
begin

section \<open>Durations, instants and backoff schedules\<close>

text \<open>
  \<open>std::time::Duration\<close> is a whole number of nanoseconds up to \<open>dur_max\<close>
  (\<open>u64::MAX\<close> seconds and 999,999,999 nanoseconds).  \<open>chrono\<close>'s \<open>DateTime<Utc>\<close> and
  \<open>TimeDelta\<close> are whole numbers of nanoseconds too; \<open>chrono\<close> is not part of this
  repository, so the ends of its ranges are a parameter of type \<open>chrono\<close>, and what the
  code relies on is that documentation's: adding a \<open>TimeDelta\<close> to a \<open>DateTime\<close>
  panics outside the range (\<open>None\<close> here), and \<open>TimeDelta::from_std\<close> fails above the
  largest \<open>TimeDelta\<close>.

  The locale \<open>backoff_schedule\<close> is the contract the queue's retries and the
  connection's reconnects share.
\<close>

subsection \<open>\<open>Duration\<close>\<close>

definition nanos_per_sec :: nat where "nanos_per_sec = 1000000000"

definition secs :: "nat \<Rightarrow> nat" where "secs n = n * nanos_per_sec"

definition dur_max :: nat where "dur_max = secs u64_max + 999999999"

definition dur_checked_mul :: "nat \<Rightarrow> nat \<Rightarrow> nat option" where
  "dur_checked_mul d k = (if d * k \<le> dur_max then Some (d * k) else None)"

lemma secs_mono: "m \<le> n \<Longrightarrow> secs m \<le> secs n"
  by (simp add: secs_def)


subsection \<open>\<open>chrono\<close>\<close>

record chrono =
  min_utc :: int  \<comment> \<open>\<open>DateTime::<Utc>::MIN_UTC\<close>\<close>
  max_utc :: int  \<comment> \<open>\<open>DateTime::<Utc>::MAX_UTC\<close>\<close>
  delta_max :: int  \<comment> \<open>\<open>TimeDelta::MAX\<close>\<close>

definition chrono_ok :: "chrono \<Rightarrow> bool" where
  "chrono_ok L \<longleftrightarrow> min_utc L < max_utc L \<and> max_utc L - min_utc L < delta_max L"

definition in_range :: "chrono \<Rightarrow> int \<Rightarrow> bool" where
  "in_range L t \<longleftrightarrow> min_utc L \<le> t \<and> t \<le> max_utc L"

text \<open>\<open>DateTime + TimeDelta\<close>; \<open>None\<close> is the panic.\<close>

definition dt_add :: "chrono \<Rightarrow> int \<Rightarrow> int \<Rightarrow> int option" where
  "dt_add L t d = (if in_range L (t + d) then Some (t + d) else None)"

definition delta_from_std :: "chrono \<Rightarrow> nat \<Rightarrow> int option" where
  "delta_from_std L d = (if int d \<le> delta_max L then Some (int d) else None)"

definition delta_or_max :: "chrono \<Rightarrow> nat \<Rightarrow> int" where
  "delta_or_max L d = (case delta_from_std L d of Some t \<Rightarrow> t | None \<Rightarrow> delta_max L)"

text \<open>The ranges of chrono 0.4, in nanoseconds, as an instance to evaluate with.\<close>

definition chrono_0_4 :: chrono where
  "chrono_0_4 = \<lparr>min_utc = -8334601228800 * 1000000000,
     max_utc = 8210266876799 * 1000000000 + 999999999,
     delta_max = 9223372036854775807 * 1000000\<rparr>"

lemma chrono_0_4_ok: "chrono_ok chrono_0_4"
  by (simp add: chrono_ok_def chrono_0_4_def)

lemma dt_add_ge: "dt_add L t d = Some u \<Longrightarrow> u = t + d \<and> in_range L u"
  by (auto simp: dt_add_def split: if_splits)

lemma delta_or_max_le: "chrono_ok L \<Longrightarrow> delta_or_max L d = min (int d) (delta_max L)"
  by (auto simp: delta_or_max_def delta_from_std_def)

text \<open>Saturating at the largest \<open>TimeDelta\<close> never helps: no instant can be moved that far.\<close>

lemma dt_add_saturated:
  assumes "chrono_ok L" "in_range L t" "delta_max L \<le> int d"
  shows "dt_add L t (delta_or_max L d) = None"
  using assms by (auto simp: dt_add_def delta_or_max_le chrono_ok_def in_range_def)

lemma dt_add_fits:
  assumes "chrono_ok L" "in_range L t" "t + int d \<le> max_utc L"
  shows "dt_add L t (delta_or_max L d) = Some (t + int d)"
  using assms by (auto simp: dt_add_def delta_or_max_le chrono_ok_def in_range_def min_def)


subsection \<open>A backoff schedule\<close>

locale backoff_schedule =
  fixes wait :: "'p \<Rightarrow> nat \<Rightarrow> nat"
    and base factor ceiling :: "'p \<Rightarrow> nat"
    and ok :: "'p \<Rightarrow> bool"
  assumes wait_law: "ok p \<Longrightarrow> wait p a = min (base p * min (factor p ^ (a - 1)) u32_max) (ceiling p)"
begin

lemma wait_le_ceiling: "ok p \<Longrightarrow> wait p a \<le> ceiling p"
  by (simp add: wait_law)

lemma wait_first: "ok p \<Longrightarrow> a \<le> 1 \<Longrightarrow> wait p a = min (base p) (ceiling p)"
  by (simp add: wait_law u32_max_def)

lemma wait_mono:
  assumes "ok p" "1 \<le> factor p" "a \<le> b"
  shows "wait p a \<le> wait p b"
proof -
  have "factor p ^ (a - 1) \<le> factor p ^ (b - 1)"
    using assms(2,3) by (intro power_increasing) auto
  then show ?thesis
    using assms(1) by (simp add: wait_law min.coboundedI1 mult_le_mono min_le_iff_disj)
qed

lemma wait_doubles:
  assumes "ok p" "factor p = 2" "base p * 2 ^ n \<le> ceiling p" "n < 32"
  shows "wait p (Suc n) = base p * 2 ^ n"
proof -
  have "(2::nat) ^ n \<le> 2 ^ 31" using assms(4) by (intro power_increasing) auto
  then have "min ((2::nat) ^ n) u32_max = 2 ^ n" by (simp add: u32_max_def)
  with assms show ?thesis by (simp add: wait_law)
qed

lemma wait_saturates:
  assumes "ok p" "factor p = 2" "ceiling p \<le> base p * 2 ^ n" "n < 32" "n < a"
  shows "wait p a = ceiling p"
proof -
  have "(2::nat) ^ n \<le> 2 ^ 31" using assms(4) by (intro power_increasing) auto
  then have "(2::nat) ^ n \<le> u32_max" by (simp add: u32_max_def)
  moreover have "(2::nat) ^ n \<le> 2 ^ (a - 1)" using assms(5) by (intro power_increasing) auto
  ultimately have "2 ^ n \<le> min ((2::nat) ^ (a - 1)) u32_max" by simp
  then have "base p * 2 ^ n \<le> base p * min (2 ^ (a - 1)) u32_max" by (rule mult_le_mono2)
  with assms(3) have "ceiling p \<le> base p * min (2 ^ (a - 1)) u32_max" by (rule order_trans)
  then show ?thesis by (simp only: wait_law [OF assms(1)] assms(2) min_absorb2)
qed

end

end
