(* ===== verification/Backend.thy ===== *)
theory Backend
  imports Prelude
begin

section \<open>What a backend can do and how it can fail\<close>

text \<open>
  \<open>crates/postio-account/src/backend/capability.rs\<close> (the advertised extensions) and
  \<open>crates/postio-account/src/backend/error.rs\<close> (every failure of a \<open>MailBackend\<close>, with
  the predicates the sync engine branches on), with \<open>SecretError\<close> of
  \<open>crates/postio-account/src/secret.rs\<close>.  The texts of the errors (\<open>Display\<close>) are
  never inspected by the engine; where one is stored the model takes the rendering as a
  parameter.
\<close>

datatype capability =
    Imap4Rev1 | Enable | CondStore | QResync | Idle | UidPlus | MoveCap | SpecialUse
  | ListExtended | Namespace | Unselect | Binary | Compress | Sort | ThreadCap | ESearch
  | Id | LiteralPlus

definition cap_all :: "capability list" where
  "cap_all = [Imap4Rev1, Enable, CondStore, QResync, Idle, UidPlus, MoveCap, SpecialUse,
     ListExtended, Namespace, Unselect, Binary, Compress, Sort, ThreadCap, ESearch,
     Id, LiteralPlus]"

fun cap_as_str :: "capability \<Rightarrow> string" where
  "cap_as_str Imap4Rev1 = ''IMAP4REV1''"
| "cap_as_str Enable = ''ENABLE''"
| "cap_as_str CondStore = ''CONDSTORE''"
| "cap_as_str QResync = ''QRESYNC''"
| "cap_as_str Idle = ''IDLE''"
| "cap_as_str UidPlus = ''UIDPLUS''"
| "cap_as_str MoveCap = ''MOVE''"
| "cap_as_str SpecialUse = ''SPECIAL-USE''"
| "cap_as_str ListExtended = ''LIST-EXTENDED''"
| "cap_as_str Namespace = ''NAMESPACE''"
| "cap_as_str Unselect = ''UNSELECT''"
| "cap_as_str Binary = ''BINARY''"
| "cap_as_str Compress = ''COMPRESS=DEFLATE''"
| "cap_as_str Sort = ''SORT''"
| "cap_as_str ThreadCap = ''THREAD''"
| "cap_as_str ESearch = ''ESEARCH''"
| "cap_as_str Id = ''ID''"
| "cap_as_str LiteralPlus = ''LITERAL+''"

text \<open>The derived order: the order of declaration.\<close>

fun cap_rank :: "capability \<Rightarrow> nat" where
  "cap_rank Imap4Rev1 = 0"
| "cap_rank Enable = 1"
| "cap_rank CondStore = 2"
| "cap_rank QResync = 3"
| "cap_rank Idle = 4"
| "cap_rank UidPlus = 5"
| "cap_rank MoveCap = 6"
| "cap_rank SpecialUse = 7"
| "cap_rank ListExtended = 8"
| "cap_rank Namespace = 9"
| "cap_rank Unselect = 10"
| "cap_rank Binary = 11"
| "cap_rank Compress = 12"
| "cap_rank Sort = 13"
| "cap_rank ThreadCap = 14"
| "cap_rank ESearch = 15"
| "cap_rank Id = 16"
| "cap_rank LiteralPlus = 17"

lemma cap_rank_inject: "cap_rank a = cap_rank b \<longleftrightarrow> a = b"
proof
  have all: "cap_all ! cap_rank c = c" for c by (cases c) (simp_all add: cap_all_def)
  assume "cap_rank a = cap_rank b"
  then have "cap_all ! cap_rank a = cap_all ! cap_rank b" by (simp only:)
  then show "a = b" unfolding all .
qed simp

instantiation capability :: linorder
begin

definition less_eq_capability :: "capability \<Rightarrow> capability \<Rightarrow> bool" where
  "less_eq_capability a b \<longleftrightarrow> cap_rank a \<le> cap_rank b"

definition less_capability :: "capability \<Rightarrow> capability \<Rightarrow> bool" where
  "less_capability a b \<longleftrightarrow> cap_rank a < cap_rank b"

instance
  by standard (auto simp: less_eq_capability_def less_capability_def cap_rank_inject)

end

definition eq_ignore_case :: "string \<Rightarrow> string \<Rightarrow> bool" where
  "eq_ignore_case a b \<longleftrightarrow> lower_bytes a = lower_bytes b"

definition cap_from_name :: "string \<Rightarrow> capability option" where
  "cap_from_name name = find (\<lambda>c. eq_ignore_case (cap_as_str c) (trim name)) cap_all"

record capabilities =
  cap_known :: "capability list"
  cap_unknown :: "string list"

definition caps_new :: capabilities where
  "caps_new = \<lparr>cap_known = [], cap_unknown = []\<rparr>"

definition caps_insert :: "capabilities \<Rightarrow> string \<Rightarrow> capabilities" where
  "caps_insert cs n =
     (let name = trim n in
      if name = [] then cs
      else case cap_from_name name of
          Some c \<Rightarrow> cs\<lparr>cap_known := bt_insert id c (cap_known cs)\<rparr>
        | None \<Rightarrow> cs\<lparr>cap_unknown := bt_insert bytes name (cap_unknown cs)\<rparr>)"

definition caps_from_names :: "string list \<Rightarrow> capabilities" where
  "caps_from_names names = foldl caps_insert caps_new names"

definition caps_contains :: "capabilities \<Rightarrow> capability \<Rightarrow> bool" where
  "caps_contains cs c \<longleftrightarrow> c \<in> set (cap_known cs)"

definition caps_has_name :: "capabilities \<Rightarrow> string \<Rightarrow> bool" where
  "caps_has_name cs name \<longleftrightarrow>
     (case cap_from_name name of
        Some c \<Rightarrow> caps_contains cs c
      | None \<Rightarrow> list_ex (\<lambda>k. eq_ignore_case k (trim name)) (cap_unknown cs))"

definition caps_is_empty :: "capabilities \<Rightarrow> bool" where
  "caps_is_empty cs \<longleftrightarrow> cap_known cs = [] \<and> cap_unknown cs = []"

definition caps_names :: "capabilities \<Rightarrow> string list" where
  "caps_names cs = sort_key bytes (map cap_as_str (cap_known cs) @ cap_unknown cs)"

definition supports_incremental_sync :: "capabilities \<Rightarrow> bool" where
  "supports_incremental_sync cs \<longleftrightarrow> caps_contains cs CondStore \<and> caps_contains cs QResync"


subsection \<open>Errors\<close>

datatype secret_error =
    SecretLocked string string
  | SecretGrantExpired string
  | SecretNotFound string
  | SecretCommand string string
  | SecretBackend string string
  | SecretTimeout string nat

datatype backend_error =
    NotConnected string
  | Disconnected string string
  | TimedOut string nat
  | Auth string string
  | Tls string string
  | EmptyCapabilities string
  | Unsupported capability
  | NoSuchMailbox string
  | NoSuchMessage string nat
  | UidValidityChanged string nat nat
  | ResyncIntegrityLost string nat
  | Rejected string string
  | RateLimited "nat option" string
  | Protocol string
  | Io string string
  | Secret secret_error
  | CancelledError

definition is_transient_error :: "backend_error \<Rightarrow> bool" where
  "is_transient_error e \<longleftrightarrow>
     (case e of
        NotConnected _ \<Rightarrow> True
      | Disconnected _ _ \<Rightarrow> True
      | TimedOut _ _ \<Rightarrow> True
      | RateLimited _ _ \<Rightarrow> True
      | Io _ _ \<Rightarrow> True
      | _ \<Rightarrow> False)"

definition is_authentication_failure :: "backend_error \<Rightarrow> bool" where
  "is_authentication_failure e \<longleftrightarrow>
     (case e of
        Auth _ _ \<Rightarrow> True
      | Secret s \<Rightarrow> (case s of SecretGrantExpired _ \<Rightarrow> True | _ \<Rightarrow> False)
      | _ \<Rightarrow> False)"

definition needs_a_password :: "backend_error \<Rightarrow> bool" where
  "needs_a_password e \<longleftrightarrow>
     is_authentication_failure e
     \<or> (case e of Secret s \<Rightarrow> (case s of SecretNotFound _ \<Rightarrow> True | _ \<Rightarrow> False) | _ \<Rightarrow> False)"

definition requires_full_resync :: "backend_error \<Rightarrow> bool" where
  "requires_full_resync e \<longleftrightarrow>
     (case e of UidValidityChanged _ _ _ \<Rightarrow> True | ResyncIntegrityLost _ _ \<Rightarrow> True | _ \<Rightarrow> False)"

definition retry_after :: "backend_error \<Rightarrow> nat option" where
  "retry_after e = (case e of RateLimited r _ \<Rightarrow> r | _ \<Rightarrow> None)"

definition caps_require :: "capabilities \<Rightarrow> capability \<Rightarrow> backend_error + unit" where
  "caps_require cs c = (if caps_contains cs c then Inr () else Inl (Unsupported c))"

lemmas error_predicates =
  is_transient_error_def is_authentication_failure_def needs_a_password_def
  requires_full_resync_def retry_after_def

lemma needs_a_password_stable: "needs_a_password e \<Longrightarrow> \<not> is_transient_error e"
  by (cases e) (auto simp: error_predicates)

lemma full_resync_stable: "requires_full_resync e \<Longrightarrow> \<not> is_transient_error e"
  by (cases e) (auto simp: error_predicates)

lemma retry_after_transient: "retry_after e = Some d \<Longrightarrow> is_transient_error e"
  by (cases e) (auto simp: error_predicates)


subsection \<open>Properties\<close>

lemma set_bt_insert_id: "set (bt_insert id c cs) = insert c (set cs)"
  using keys_bt_insert [of id c cs] by simp

text \<open>
  The error predicates keep the engine's four answers apart: no error is both worth
  retrying and in need of a password or a full resync, only a retryable one carries a
  server-named wait, and an authentication failure always needs a password.
\<close>

lemma error_predicates_disjoint:
  "\<not> (is_transient_error e \<and> (needs_a_password e \<or> requires_full_resync e))
   \<and> \<not> (needs_a_password e \<and> requires_full_resync e)
   \<and> (retry_after e \<noteq> None \<longrightarrow> is_transient_error e)
   \<and> (is_authentication_failure e \<longrightarrow> needs_a_password e)"
  by (cases e) (auto simp: error_predicates split: secret_error.splits)


end
