(* ===== verification/Connect.thy ===== *)
theory Connect
  imports Rust_Time Backend
begin

section \<open>Staying connected\<close>

text \<open>
  \<open>crates/postio-sync/src/connect.rs\<close>: the reconnect backoff with its jitter, and
  \<open>Supervisor\<close>, the state machine that keeps one backend connected.  Every method is
  one definition; a panic (an instant or a duration out of range) is \<open>None\<close>.  What the
  backend answers when \<open>poll\<close> asks it is an argument: \<open>caps\<close> for \<open>capabilities()\<close>,
  \<open>conn\<close> for \<open>connect()\<close>, each an error or nothing.  \<open>msg\<close> renders an error.
\<close>

record reconnect_policy =
  cp_base :: nat
  cp_factor :: nat
  cp_ceiling :: nat
  cp_stability :: nat

definition reconnect_default :: reconnect_policy where
  "reconnect_default = \<lparr>cp_base = secs 1, cp_factor = 2, cp_ceiling = secs 120, cp_stability = secs 30\<rparr>"

definition reconnect_backoff :: "reconnect_policy \<Rightarrow> nat \<Rightarrow> nat" where
  "reconnect_backoff p attempts =
     (let steps = attempts - 1;
          multiplier = (case checked_pow32 (cp_factor p) steps of Some m \<Rightarrow> m | None \<Rightarrow> u64_max);
          k = (if multiplier \<le> u32_max then multiplier else u32_max)
      in min (case dur_checked_mul (cp_base p) k of Some w \<Rightarrow> w | None \<Rightarrow> cp_ceiling p) (cp_ceiling p))"

definition jitter_steps :: nat where "jitter_steps = 1000"

text \<open>\<open>half * share\<close> is \<open>Duration * u32\<close>, which panics on overflow.\<close>

definition reconnect_delay :: "reconnect_policy \<Rightarrow> nat \<Rightarrow> nat \<Rightarrow> nat option" where
  "reconnect_delay p attempts entropy =
     (let backoff = reconnect_backoff p attempts; half = backoff div 2;
          share = entropy mod (jitter_steps + 1)
      in map_option (\<lambda>x. half + x div jitter_steps) (dur_checked_mul half share))"

definition has_stabilized :: "chrono \<Rightarrow> reconnect_policy \<Rightarrow> int \<Rightarrow> int \<Rightarrow> bool" where
  "has_stabilized L p since now =
     (case delta_from_std L (cp_stability p) of
        Some window \<Rightarrow> window \<le> now - since
      | None \<Rightarrow> True)"

datatype blocker = Authentication string | NoPassword string | Unrecoverable string

definition blocker_for_password :: "(backend_error \<Rightarrow> string) \<Rightarrow> backend_error \<Rightarrow> blocker" where
  "blocker_for_password msg e =
     (if is_authentication_failure e then Authentication (msg e) else NoPassword (msg e))"

fun blocker_reason :: "blocker \<Rightarrow> string" where
  "blocker_reason (Authentication r) = r"
| "blocker_reason (NoPassword r) = r"
| "blocker_reason (Unrecoverable r) = r"

fun needs_credentials :: "blocker \<Rightarrow> bool" where
  "needs_credentials (Authentication _) = True"
| "needs_credentials (NoPassword _) = True"
| "needs_credentials (Unrecoverable _) = False"

datatype link =
    Waiting nat int  \<comment> \<open>attempts, retry_at\<close>
  | Online int  \<comment> \<open>since\<close>
  | Offline
  | Blocked blocker

fun link_is_online :: "link \<Rightarrow> bool" where
  "link_is_online (Online _) = True"
| "link_is_online _ = False"

fun recovers_on_its_own :: "link \<Rightarrow> bool" where
  "recovers_on_its_own (Waiting _ _) = True"
| "recovers_on_its_own (Online _) = True"
| "recovers_on_its_own _ = False"

fun link_is_blocked :: "link \<Rightarrow> bool" where
  "link_is_blocked (Blocked _) = True"
| "link_is_blocked _ = False"

datatype network_state = Unknown | Up | Down

definition permits_an_attempt :: "network_state \<Rightarrow> bool" where
  "permits_an_attempt n \<longleftrightarrow> n \<noteq> Down"

record supervisor =
  sup_policy :: reconnect_policy
  sup_link :: link
  sup_network :: network_state
  sup_attempts :: nat

definition sup_new :: "chrono \<Rightarrow> reconnect_policy \<Rightarrow> supervisor" where
  "sup_new L p = \<lparr>sup_policy = p, sup_link = Waiting 0 (min_utc L), sup_network = Unknown, sup_attempts = 0\<rparr>"

definition sup_transition :: "supervisor \<Rightarrow> link \<Rightarrow> supervisor \<times> link option" where
  "sup_transition s l = (if sup_link s = l then (s, None) else (s\<lparr>sup_link := l\<rparr>, Some l))"

definition sup_retry_at :: "supervisor \<Rightarrow> int \<Rightarrow> supervisor \<times> link option" where
  "sup_retry_at s now = sup_transition s (Waiting (sup_attempts s) now)"

definition sup_set_network :: "supervisor \<Rightarrow> network_state \<Rightarrow> int \<Rightarrow> supervisor \<times> link option" where
  "sup_set_network s st now =
     (if sup_network s = st then (s, None)
      else
        (let s = s\<lparr>sup_network := st\<rparr> in
         if link_is_blocked (sup_link s) then (s, None)
         else (case st of
             Down \<Rightarrow> sup_transition s Offline
           | Up \<Rightarrow>
               (case sup_link s of
                  Offline \<Rightarrow> sup_retry_at s now
                | Waiting _ retry_at \<Rightarrow> (if now < retry_at then sup_retry_at s now else (s, None))
                | _ \<Rightarrow> (s, None))
           | Unknown \<Rightarrow>
               (case sup_link s of Offline \<Rightarrow> sup_retry_at s now | _ \<Rightarrow> (s, None)))))"

definition sup_block :: "supervisor \<Rightarrow> blocker \<Rightarrow> supervisor \<times> link option" where
  "sup_block s b = sup_transition s (Blocked b)"

definition sup_fail :: "chrono \<Rightarrow> supervisor \<Rightarrow> int \<Rightarrow> nat \<Rightarrow> (supervisor \<times> link) option" where
  "sup_fail L s now entropy =
     (let attempts = sat_add32 (sup_attempts s) 1 in
      case reconnect_delay (sup_policy s) attempts entropy of
        None \<Rightarrow> None
      | Some delay \<Rightarrow>
          (case dt_add L now (delta_or_max L delay) of
             None \<Rightarrow> None
           | Some at \<Rightarrow>
               (let link = Waiting attempts at
                in Some (s\<lparr>sup_attempts := attempts, sup_link := link\<rparr>, link))))"

text \<open>\<open>timestamp_subsec_nanos\<close>: the nanoseconds within the second.\<close>

definition entropy_from :: "int \<Rightarrow> nat" where
  "entropy_from now = nat (now mod int nanos_per_sec)"

definition sup_observe ::
  "chrono \<Rightarrow> (backend_error \<Rightarrow> string) \<Rightarrow> supervisor \<Rightarrow> backend_error \<Rightarrow> int
   \<Rightarrow> (supervisor \<times> link option) option" where
  "sup_observe L msg s e now =
     (if needs_a_password e then Some (sup_block s (blocker_for_password msg e))
      else if \<not> is_transient_error e \<or> \<not> link_is_online (sup_link s) then Some (s, None)
      else map_option (\<lambda>(s, l). (s, Some l)) (sup_fail L s now (entropy_from now)))"

definition sup_retry_now :: "supervisor \<Rightarrow> int \<Rightarrow> supervisor \<times> link option" where
  "sup_retry_now s now =
     (if \<not> link_is_blocked (sup_link s) then (s, None)
      else sup_transition (s\<lparr>sup_attempts := 0\<rparr>) (Waiting 0 now))"

text \<open>The branch of \<open>poll\<close> where the backend is asked to connect.\<close>

definition sup_attempt ::
  "chrono \<Rightarrow> (backend_error \<Rightarrow> string) \<Rightarrow> supervisor \<Rightarrow> backend_error option \<Rightarrow> int \<Rightarrow> nat
   \<Rightarrow> (supervisor \<times> link option) option" where
  "sup_attempt L msg s conn now entropy =
     (case conn of
        None \<Rightarrow> Some (sup_transition s (Online now))
      | Some e \<Rightarrow>
          if needs_a_password e then Some (sup_block s (blocker_for_password msg e))
          else if \<not> is_transient_error e then Some (sup_block s (Unrecoverable (msg e)))
          else (case sup_fail L s now entropy of
              None \<Rightarrow> None
            | Some (s', link) \<Rightarrow>
                (case (retry_after e, link) of
                   (Some asked, Waiting attempts retry_at) \<Rightarrow>
                     (case dt_add L now (delta_or_max L asked) of
                        None \<Rightarrow> None
                      | Some floor \<Rightarrow>
                          (if retry_at < floor
                           then Some (s'\<lparr>sup_link := Waiting attempts floor\<rparr>, Some (Waiting attempts floor))
                           else Some (s', Some link)))
                 | _ \<Rightarrow> Some (s', Some link))))"

definition sup_poll ::
  "chrono \<Rightarrow> (backend_error \<Rightarrow> string) \<Rightarrow> supervisor \<Rightarrow> backend_error option \<Rightarrow> backend_error option
   \<Rightarrow> int \<Rightarrow> nat \<Rightarrow> (supervisor \<times> link option) option" where
  "sup_poll L msg s caps conn now entropy =
     (let attempt =
        (if \<not> permits_an_attempt (sup_network s) then Some (sup_transition s Offline)
         else sup_attempt L msg s conn now entropy)
      in case sup_link s of
        Blocked _ \<Rightarrow> Some (s, None)
      | Offline \<Rightarrow> Some (s, None)
      | Online since \<Rightarrow>
          (case caps of
             None \<Rightarrow>
               Some (if has_stabilized L (sup_policy s) since now then s\<lparr>sup_attempts := 0\<rparr> else s, None)
           | Some e \<Rightarrow> sup_observe L msg s e now)
      | Waiting _ retry_at \<Rightarrow> (if now < retry_at then Some (s, None) else attempt))"

text \<open>Every way the outside drives the machine, as one step.\<close>

datatype sup_event =
    SetNetwork network_state int
  | Observe backend_error int
  | RetryNow int
  | Poll "backend_error option" "backend_error option" int nat

definition sup_step ::
  "chrono \<Rightarrow> (backend_error \<Rightarrow> string) \<Rightarrow> supervisor \<Rightarrow> sup_event \<Rightarrow> (supervisor \<times> link option) option" where
  "sup_step L msg s ev =
     (case ev of
        SetNetwork st now \<Rightarrow> Some (sup_set_network s st now)
      | Observe e now \<Rightarrow> sup_observe L msg s e now
      | RetryNow now \<Rightarrow> Some (sup_retry_now s now)
      | Poll caps conn now entropy \<Rightarrow> sup_poll L msg s caps conn now entropy)"

definition reconnect_ok :: "reconnect_policy \<Rightarrow> bool" where
  "reconnect_ok p \<longleftrightarrow> cp_ceiling p \<le> dur_max"

lemma reconnect_backoff_law:
  "reconnect_ok p \<Longrightarrow>
   reconnect_backoff p a = min (cp_base p * min (cp_factor p ^ (a - 1)) u32_max) (cp_ceiling p)"
  by (auto simp: reconnect_backoff_def reconnect_ok_def Let_def checked_pow32_def dur_checked_mul_def
      u32_max_def u64_max_def min_def)

interpretation reconnect: backoff_schedule reconnect_backoff cp_base cp_factor cp_ceiling reconnect_ok
  by unfold_locales (rule reconnect_backoff_law)



subsection \<open>What a step can do\<close>

text \<open>
  The abstract machine: where the link stands and how many failures are counted.  Eight
  moves exist, and every method refines them (\<open>sup_step_refines\<close>); only
  \<open>Fresh\<close> and \<open>Settle\<close> give the count back.
\<close>

datatype move = IdleMove | Park | Wake | FailMove | Up1 | Block1 | Fresh | Settle

inductive moves :: "link \<times> nat \<Rightarrow> move \<Rightarrow> link \<times> nat \<Rightarrow> bool" where
  idle: "moves (l, a) IdleMove (l, a)"
| park: "\<not> link_is_blocked l \<Longrightarrow> moves (l, a) Park (Offline, a)"
| wake: "\<not> link_is_blocked l \<Longrightarrow> moves (l, a) Wake (Waiting a now, a)"
| fail: "recovers_on_its_own l \<Longrightarrow>
    moves (l, a) FailMove (Waiting (sat_add32 a 1) at, sat_add32 a 1)"
| up: "moves (Waiting b t, a) Up1 (Online now, a)"
| block: "moves (l, a) Block1 (Blocked b, a)"
| fresh: "moves (Blocked b, a) Fresh (Waiting 0 now, 0)"
| settle: "moves (Online since, a) Settle (Online since, 0)"

inductive_cases moves_from: "moves (l, a) m (l', a')"
inductive_simps moves_fresh: "moves (l, a) Fresh x"
inductive_simps moves_settle: "moves (l, a) Settle x"

definition sup_abs :: "supervisor \<Rightarrow> link \<times> nat" where
  "sup_abs s = (sup_link s, sup_attempts s)"

lemma link_shapes:
  "link_is_blocked l \<longleftrightarrow> (\<exists>b. l = Blocked b)"
  "link_is_online l \<longleftrightarrow> (\<exists>t. l = Online t)"
  by (cases l; simp)+

lemma abs_transition: "sup_abs (fst (sup_transition s l)) = (l, sup_attempts s)"
  by (simp add: sup_transition_def sup_abs_def)

lemma reported_transition:
  "sup_link (fst (sup_transition s l)) = l"
  "snd (sup_transition s l) = (if sup_link s = l then None else Some l)"
  by (simp_all add: sup_transition_def)

lemma moves_block: "moves (sup_abs s) Block1 (sup_abs (fst (sup_block s b)))"
  by (simp add: sup_block_def abs_transition) (simp add: sup_abs_def moves.block)

lemma fail_result:
  assumes "sup_fail L s now e = Some (s', l)"
  shows "sup_link s' = l \<and> sup_attempts s' = sat_add32 (sup_attempts s) 1
     \<and> (\<exists>at. l = Waiting (sat_add32 (sup_attempts s) 1) at)"
  using assms by (auto simp: sup_fail_def Let_def split: option.splits)

lemma moves_fail:
  assumes "sup_fail L s now e = Some (s', l)" and "recovers_on_its_own (sup_link s)"
  shows "moves (sup_abs s) FailMove (sup_abs s')"
  using fail_result [OF assms(1)] assms(2)
  by (auto simp: sup_abs_def simp del: One_nat_def intro: moves.fail)

lemma moves_observe:
  assumes "sup_observe L msg s e now = Some (s', r)"
  shows "\<exists>m \<in> {IdleMove, Block1, FailMove}. moves (sup_abs s) m (sup_abs s')"
proof (cases "needs_a_password e")
  case True
  with assms have "s' = fst (sup_block s (blocker_for_password msg e))"
    by (auto simp: sup_observe_def dest: arg_cong [where f = fst])
  then show ?thesis using moves_block by blast
next
  case False
  show ?thesis
  proof (cases "\<not> is_transient_error e \<or> \<not> link_is_online (sup_link s)")
    case True
    with False assms have "s' = s" by (auto simp: sup_observe_def)
    then show ?thesis by (auto simp: sup_abs_def intro: moves.idle)
  next
    case F: False
    with False assms obtain l where "sup_fail L s now (entropy_from now) = Some (s', l)"
      by (auto simp: sup_observe_def)
    moreover have "recovers_on_its_own (sup_link s)" using F by (auto simp: link_shapes)
    ultimately show ?thesis using moves_fail by blast
  qed
qed

lemma moves_set_network:
  "\<exists>m \<in> {IdleMove, Park, Wake}. moves (sup_abs s) m (sup_abs (fst (sup_set_network s st now)))"
proof -
  define t where "t = s\<lparr>sup_network := st\<rparr>"
  have t: "sup_abs t = sup_abs s" by (simp add: t_def sup_abs_def)
  have idle: "moves (sup_abs s) IdleMove (sup_abs s)" by (simp add: sup_abs_def moves.idle)
  have offline: "moves (sup_abs s) Park (sup_abs (fst (sup_transition t Offline)))"
    if "\<not> link_is_blocked (sup_link s)"
    using that by (simp add: abs_transition) (simp add: sup_abs_def t_def moves.park)
  have again: "moves (sup_abs s) Wake (sup_abs (fst (sup_retry_at t now)))"
    if "\<not> link_is_blocked (sup_link s)"
    using that by (simp add: sup_retry_at_def abs_transition) (simp add: sup_abs_def t_def moves.wake)
  have link: "sup_link t = sup_link s" by (simp add: t_def)
  show ?thesis
    using idle offline again t
    unfolding sup_set_network_def Let_def t_def [symmetric] link
    by (cases "sup_network s = st"; cases "link_is_blocked (sup_link s)"; cases st; cases "sup_link s") auto
qed

lemma moves_retry_now:
  "\<exists>m. moves (sup_abs s) m (sup_abs (fst (sup_retry_now s now))) \<and> m \<in> {IdleMove, Fresh}"
proof (cases "sup_link s")
  case (Blocked b)
  then show ?thesis
    by (intro exI [of _ Fresh]) (simp add: sup_retry_now_def abs_transition, simp add: sup_abs_def moves.fresh)
qed (auto simp: sup_retry_now_def sup_abs_def intro: moves.idle)

lemma moves_attempt:
  assumes "sup_attempt L msg s conn now e = Some (s', r)" and "sup_link s = Waiting b t"
  shows "\<exists>m \<in> {Up1, Block1, FailMove}. moves (sup_abs s) m (sup_abs s')"
proof (cases conn)
  case None
  with assms(1) have "s' = fst (sup_transition s (Online now))"
    by (auto simp: sup_attempt_def dest: arg_cong [where f = fst])
  then have "sup_abs s' = (Online now, sup_attempts s)" by (simp add: abs_transition)
  then show ?thesis using assms(2) by (auto simp: sup_abs_def intro: moves.up)
next
  case (Some x)
  show ?thesis
  proof (cases "needs_a_password x \<or> \<not> is_transient_error x")
    case True
    then obtain b where "s' = fst (sup_block s b)"
      using assms(1) Some by (auto simp: sup_attempt_def split: if_split_asm) (metis fst_conv)+
    then show ?thesis using moves_block by blast
  next
    case False
    then obtain s1 l where f: "sup_fail L s now e = Some (s1, l)"
      using assms(1) Some by (auto simp: sup_attempt_def split: option.splits)
    obtain u where l: "l = Waiting (sat_add32 (sup_attempts s) 1) u"
      and a: "sup_attempts s1 = sat_add32 (sup_attempts s) 1" and k: "sup_link s1 = l"
      using fail_result [OF f] by auto
    have "\<exists>v. sup_abs s' = (Waiting (sat_add32 (sup_attempts s) 1) v, sat_add32 (sup_attempts s) 1)"
      using assms(1) Some False f l a k
      by (auto simp: sup_attempt_def sup_abs_def Let_def split: option.splits if_split_asm)
    then show ?thesis
      using assms(2) moves.fail [of "Waiting b t"] by (auto simp: sup_abs_def simp del: One_nat_def)
  qed
qed

text \<open>The refinement: every method is one of the moves, and only two events give the count back.\<close>

lemma sup_step_refines:
  assumes "sup_step L msg s ev = Some (s', r)"
  shows "\<exists>m. moves (sup_abs s) m (sup_abs s')
     \<and> (m = Fresh \<longrightarrow> (\<exists>now. ev = RetryNow now))
     \<and> (m = Settle \<longrightarrow> (\<exists>conn now e t. ev = Poll None conn now e \<and> sup_link s = Online t
          \<and> has_stabilized L (sup_policy s) t now))"
proof (cases ev)
  case (SetNetwork st now)
  with assms have "s' = fst (sup_set_network s st now)" by (auto simp: sup_step_def dest: arg_cong [where f = fst])
  then show ?thesis using moves_set_network [where s = s and st = st and now = now] by fastforce
next
  case (Observe e now)
  then show ?thesis using assms moves_observe [of L msg s e now s' r] by (fastforce simp: sup_step_def)
next
  case (RetryNow now)
  with assms have "s' = fst (sup_retry_now s now)" by (auto simp: sup_step_def dest: arg_cong [where f = fst])
  then show ?thesis using moves_retry_now [of s now] RetryNow by auto
next
  case (Poll caps conn now e)
  then have st: "sup_poll L msg s caps conn now e = Some (s', r)" using assms by (simp add: sup_step_def)
  have idle: "moves (sup_abs s) IdleMove (sup_abs s)" by (simp add: sup_abs_def moves.idle)
  show ?thesis
  proof (cases "sup_link s")
    case (Waiting b t)
    have park: "moves (sup_abs s) Park (sup_abs (fst (sup_transition s Offline)))"
      using Waiting by (simp add: abs_transition) (simp add: sup_abs_def moves.park)
    from st Waiting consider "s' = s" | "s' = fst (sup_transition s Offline)"
      | "sup_attempt L msg s conn now e = Some (s', r)"
      by (auto simp: sup_poll_def Let_def dest: arg_cong [where f = fst] split: if_split_asm)
    then show ?thesis
      using idle park moves_attempt [OF _ Waiting] by cases fastforce+
  next
    case (Online t)
    show ?thesis
    proof (cases caps)
      case None
      then show ?thesis
        using st Online Poll idle moves.settle [of t "sup_attempts s"]
        by (auto simp: sup_poll_def sup_abs_def split: if_split_asm)
    next
      case (Some x)
      then show ?thesis
        using st Online moves_observe [of L msg s x now s' r] by (fastforce simp: sup_poll_def)
    qed
  qed (use st idle in \<open>auto simp: sup_poll_def\<close>)
qed

end
