(* ===== verification/Connect_Props.thy ===== *)
theory Connect_Props
  imports Connect
begin

section \<open>Staying connected: the properties\<close>

text \<open>
  What makes the supervisor of \<open>Connect\<close> correct: the invariant of its state along
  every run, when the failure count is given back, that a blocked link waits for the user,
  what the network signal does, the jitter's bounds and the absence of panics for a
  bounded policy.
\<close>

subsection \<open>The invariant and the runs\<close>

text \<open>The state after a step, \<open>None\<close> once a call has panicked.\<close>

definition sup_run_step ::
  "chrono \<Rightarrow> (backend_error \<Rightarrow> string) \<Rightarrow> supervisor option \<Rightarrow> sup_event \<Rightarrow> supervisor option" where
  "sup_run_step L msg st ev = (case st of None \<Rightarrow> None | Some s \<Rightarrow> map_option fst (sup_step L msg s ev))"

text \<open>A waiting link shows the number of failures the supervisor counts.\<close>

fun abs_wf :: "link \<times> nat \<Rightarrow> bool" where
  "abs_wf (Waiting n _, a) \<longleftrightarrow> n = a \<and> a \<le> u32_max"
| "abs_wf (_, a) \<longleftrightarrow> a \<le> u32_max"

lemma moves_wf: "moves x m y \<Longrightarrow> abs_wf x \<Longrightarrow> abs_wf y"
proof (induction rule: moves.induct)
  case (park l a)
  then show ?case by (cases l) auto
next
  case (wake l a now)
  then show ?case by (cases l) auto
next
  case (block l a b)
  then show ?case by (cases l) auto
qed (simp_all add: sat_add32_le)

definition sup_wf :: "supervisor \<Rightarrow> bool" where
  "sup_wf s \<longleftrightarrow> abs_wf (sup_abs s)"

lemma sup_step_wf: "sup_wf s \<Longrightarrow> sup_step L msg s ev = Some (s', r) \<Longrightarrow> sup_wf s'"
  unfolding sup_wf_def using sup_step_refines moves_wf by blast

interpretation supervisor: machine "sup_run_step L msg" "\<lambda>st. case st of None \<Rightarrow> True | Some s \<Rightarrow> sup_wf s"
  for L msg
  by unfold_locales (auto simp: sup_run_step_def sup_step_wf split: option.splits)

lemma sup_new_wf: "sup_wf (sup_new L p)"
  by (simp add: sup_new_def sup_wf_def sup_abs_def)

text \<open>
  Along every run from a new supervisor, a link that is waiting reports exactly the
  number of failures the supervisor counts, and the counter stays a \<open>u32\<close>.
\<close>

theorem connect_waiting_shows_attempts:
  "foldl (sup_run_step L msg) (Some (sup_new L p)) evs = Some s \<Longrightarrow>
   sup_attempts s \<le> u32_max \<and> (\<forall>n t. sup_link s = Waiting n t \<longrightarrow> n = sup_attempts s)"
proof -
  assume run: "foldl (sup_run_step L msg) (Some (sup_new L p)) evs = Some s"
  have "case Some (sup_new L p) of None \<Rightarrow> True | Some s \<Rightarrow> sup_wf s"
    using sup_new_wf by simp
  from supervisor.run_inv [OF this, of L msg evs] have "sup_wf s" by (simp add: run)
  then show ?thesis by (cases "sup_link s") (auto simp: sup_wf_def sup_abs_def)
qed

theorem connect_waiting_shows_attempts_witness:
  "\<exists>s. foldl (sup_run_step chrono_0_4 (\<lambda>_. [])) (Some (sup_new chrono_0_4 reconnect_default))
      [Poll None (Some (Auth [] [])) 0 0, RetryNow 7] = Some s
    \<and> sup_link s = Waiting (sup_attempts s) 7 \<and> sup_attempts s \<le> u32_max"
proof -
  let ?s = "\<lparr>sup_policy = reconnect_default, sup_link = Waiting 0 7, sup_network = Unknown, sup_attempts = 0\<rparr>"
  have run: "foldl (sup_run_step chrono_0_4 (\<lambda>_. [])) (Some (sup_new chrono_0_4 reconnect_default))
      [Poll None (Some (Auth [] [])) 0 0, RetryNow 7] = Some ?s"
    by (simp add: sup_run_step_def sup_step_def sup_poll_def sup_attempt_def sup_new_def Let_def
        sup_retry_now_def sup_block_def sup_transition_def permits_an_attempt_def
        error_predicates chrono_0_4_def)
  from connect_waiting_shows_attempts [OF this] run show ?thesis by auto
qed


subsection \<open>The failure count\<close>

text \<open>
  C28: The failure count goes down in two cases only: the user asks for a retry of a blocked
  link, or a poll finds a connection alive that has held for the stability window.  A
  connection that merely came up keeps it, so a flapping link climbs the backoff.
\<close>

theorem connect_attempts_only_reset:
  assumes "sup_step L msg s ev = Some (s', r)"
    and "sup_attempts s' < sup_attempts s" and "sup_attempts s \<le> u32_max"
  shows "sup_attempts s' = 0
     \<and> ((\<exists>now. ev = RetryNow now \<and> link_is_blocked (sup_link s))
        \<or> (\<exists>conn now e t. ev = Poll None conn now e \<and> sup_link s = Online t
             \<and> has_stabilized L (sup_policy s) t now))"
proof -
  obtain m where m: "moves (sup_abs s) m (sup_abs s')"
    and f: "m = Fresh \<longrightarrow> (\<exists>now. ev = RetryNow now)"
    and t: "m = Settle \<longrightarrow> (\<exists>conn now e t. ev = Poll None conn now e \<and> sup_link s = Online t
        \<and> has_stabilized L (sup_policy s) t now)"
    using sup_step_refines [OF assms(1)] by blast
  have le: "sup_attempts s \<le> sat_add32 (sup_attempts s) (Suc 0)" using assms(3) by (simp add: sat_add32_def)
  from m assms(2) le consider "m = Fresh" "sup_attempts s' = 0" "link_is_blocked (sup_link s)"
    | "m = Settle" "sup_attempts s' = 0"
    by (auto simp: sup_abs_def elim!: moves_from)
  then show ?thesis by cases (use f t in auto)
qed

theorem connect_attempts_only_reset_witness:
  "\<exists>s'. sup_step chrono_0_4 (\<lambda>_. [])
      \<lparr>sup_policy = reconnect_default, sup_link = Online 0, sup_network = Up, sup_attempts = 3\<rparr>
      (Poll None None (int (secs 31)) 0) = Some (s', None) \<and> sup_attempts s' = 0"
proof -
  let ?s = "\<lparr>sup_policy = reconnect_default, sup_link = Online 0, sup_network = Up, sup_attempts = 3\<rparr>"
  have st: "sup_step chrono_0_4 (\<lambda>_. []) ?s (Poll None None (int (secs 31)) 0)
      = Some (?s\<lparr>sup_attempts := 0\<rparr>, None)"
    by (simp add: sup_step_def sup_poll_def has_stabilized_def delta_from_std_def chrono_0_4_def
        reconnect_default_def secs_def nanos_per_sec_def)
  have lt: "sup_attempts (?s\<lparr>sup_attempts := 0\<rparr>) < sup_attempts ?s" by simp
  have le: "sup_attempts ?s \<le> u32_max" by (simp add: u32_max_def)
  from st connect_attempts_only_reset [OF st lt le] show ?thesis by blast
qed


subsection \<open>A blocked link waits for the user\<close>

definition is_retry_now :: "sup_event \<Rightarrow> bool" where
  "is_retry_now ev \<longleftrightarrow> (case ev of RetryNow _ \<Rightarrow> True | _ \<Rightarrow> False)"

lemma blocked_step:
  assumes "link_is_blocked (sup_link s)" and "\<not> is_retry_now ev"
  shows "\<exists>s'. sup_run_step L msg (Some s) ev = Some s' \<and> link_is_blocked (sup_link s')
     \<and> sup_attempts s' = sup_attempts s"
proof -
  obtain b where b: "sup_link s = Blocked b" using assms(1) by (auto simp: link_shapes)
  show ?thesis
  proof (cases ev)
    case (Observe e now)
    then show ?thesis
      using b by (cases "needs_a_password e")
        (auto simp: sup_run_step_def sup_step_def sup_observe_def sup_block_def sup_transition_def)
  qed (use assms(2) b in \<open>auto simp: sup_run_step_def sup_step_def sup_set_network_def sup_poll_def
      is_retry_now_def\<close>)
qed

text \<open>
  C29: Once the supervisor is blocked, nothing but the user's retry moves it: along any
  sequence of polls, network changes and observed errors it stays blocked, spends no
  attempt and never panics.
\<close>

theorem connect_blocked_is_sticky:
  assumes "link_is_blocked (sup_link s)" and "\<forall>ev\<in>set evs. \<not> is_retry_now ev"
  shows "\<exists>s'. foldl (sup_run_step L msg) (Some s) evs = Some s'
     \<and> link_is_blocked (sup_link s') \<and> sup_attempts s' = sup_attempts s"
  using assms
proof (induction evs arbitrary: s)
  case (Cons ev evs)
  then obtain t where "sup_run_step L msg (Some s) ev = Some t" "link_is_blocked (sup_link t)"
    and "sup_attempts t = sup_attempts s"
    using blocked_step [of s ev L msg] by auto
  with Cons.IH [of t] Cons.prems(2) show ?case by auto
qed simp

theorem connect_blocked_is_sticky_witness:
  "\<exists>s'. foldl (sup_run_step chrono_0_4 (\<lambda>_. []))
      (Some \<lparr>sup_policy = reconnect_default, sup_link = Blocked (NoPassword ''none''),
             sup_network = Unknown, sup_attempts = 2\<rparr>)
      [SetNetwork Down 5, SetNetwork Up 9, Poll None None 12 0, Observe (Auth ''ada'' ''no'') 14] = Some s'
     \<and> link_is_blocked (sup_link s') \<and> sup_attempts s' = 2"
  using connect_blocked_is_sticky [of
      "\<lparr>sup_policy = reconnect_default, sup_link = Blocked (NoPassword ''none''),
        sup_network = Unknown, sup_attempts = 2\<rparr>"
      "[SetNetwork Down 5, SetNetwork Up 9, Poll None None 12 0, Observe (Auth ''ada'' ''no'') 14]"
      chrono_0_4 "\<lambda>_. []"]
  by (simp add: is_retry_now_def)


subsection \<open>The network signal\<close>

text \<open>
  What the operating system says about the network never changes the failure count, never
  touches a blocked link and never connects; news that the network came up makes every
  link that was offline or still backing off due at once, and news that it went down
  parks every link that is not blocked.
\<close>

theorem connect_network_signal:
  assumes "sup_set_network s st now = (s', r)"
  shows "sup_attempts s' = sup_attempts s \<and> sup_network s' = st
     \<and> (link_is_blocked (sup_link s) \<longrightarrow> sup_link s' = sup_link s)
     \<and> (\<not> link_is_online (sup_link s) \<longrightarrow> \<not> link_is_online (sup_link s'))
     \<and> (sup_network s \<noteq> st \<and> \<not> link_is_blocked (sup_link s) \<longrightarrow>
          (st = Down \<longrightarrow> sup_link s' = Offline)
          \<and> (st = Up \<and> \<not> link_is_online (sup_link s) \<longrightarrow>
              (\<exists>n t. sup_link s' = Waiting n t \<and> t \<le> now)))"
  using assms
  by (cases "sup_link s"; cases st)
    (auto simp: sup_set_network_def Let_def sup_retry_at_def sup_transition_def split: if_split_asm)

theorem connect_network_signal_witness:
  "\<exists>r t. sup_set_network \<lparr>sup_policy = reconnect_default, sup_link = Waiting 3 90,
      sup_network = Unknown, sup_attempts = 3\<rparr> Up 20
     = (\<lparr>sup_policy = reconnect_default, sup_link = Waiting 3 t, sup_network = Up, sup_attempts = 3\<rparr>, r)
     \<and> t \<le> 20"
proof -
  let ?s = "\<lparr>sup_policy = reconnect_default, sup_link = Waiting 3 90, sup_network = Unknown, sup_attempts = 3\<rparr>"
  have st: "sup_set_network ?s Up 20
      = (?s\<lparr>sup_network := Up, sup_link := Waiting 3 20\<rparr>, Some (Waiting 3 20))"
    by (simp add: sup_set_network_def sup_retry_at_def sup_transition_def)
  from connect_network_signal [OF st] st show ?thesis by (auto simp: link_shapes)
qed


subsection \<open>What a step reports\<close>

text \<open>
  A step reports the link exactly: an answer is the link the supervisor now has, and no
  answer means the link did not move, so a caller that keeps the last answer is never
  behind.
\<close>

theorem connect_reports_the_link:
  assumes "sup_step L msg s ev = Some (s', r)"
  shows "sup_link s' = (case r of None \<Rightarrow> sup_link s | Some l \<Rightarrow> l)"
proof -
  have tr: "sup_link a = (case b of None \<Rightarrow> sup_link u | Some l \<Rightarrow> l)"
    if "sup_transition u k = (a, b)" for u k a b
    using that by (auto simp: sup_transition_def split: if_split_asm)
  have ob: "sup_link s' = (case r of None \<Rightarrow> sup_link s | Some l \<Rightarrow> l)"
    if "sup_observe L msg s e now = Some (s', r)" for e now
    using that tr
    by (auto simp: sup_observe_def sup_block_def dest: fail_result split: if_split_asm)
  show ?thesis
  proof (cases ev)
    case (Poll caps conn now e)
    have at: "sup_link s' = (case r of None \<Rightarrow> sup_link s | Some l \<Rightarrow> l)"
      if "sup_attempt L msg s conn now e = Some (s', r)"
      using that tr
      by (auto simp: sup_attempt_def sup_block_def dest: fail_result
          split: option.splits link.splits if_split_asm)
    show ?thesis
      using assms Poll ob at tr
      by (auto simp: sup_step_def sup_poll_def Let_def split: link.splits option.splits if_split_asm)
  next
    case (SetNetwork st now)
    then show ?thesis
      using assms
      by (auto simp: sup_step_def sup_set_network_def Let_def sup_retry_at_def sup_transition_def
          split: network_state.splits link.splits if_split_asm)
  next
    case (RetryNow now)
    then show ?thesis
      using assms
      by (auto simp: sup_step_def sup_retry_now_def sup_transition_def split: if_split_asm)
  qed (use assms ob in \<open>simp add: sup_step_def\<close>)
qed

theorem connect_reports_the_link_witness:
  "\<exists>s'. sup_step chrono_0_4 (\<lambda>_. []) (sup_new chrono_0_4 reconnect_default) (Poll None None 5 0)
      = Some (s', Some (Online 5)) \<and> sup_link s' = Online 5"
proof -
  have st: "sup_step chrono_0_4 (\<lambda>_. []) (sup_new chrono_0_4 reconnect_default) (Poll None None 5 0)
      = Some ((sup_new chrono_0_4 reconnect_default)\<lparr>sup_link := Online 5\<rparr>, Some (Online 5))"
    by (simp add: sup_step_def sup_poll_def sup_attempt_def sup_new_def sup_transition_def Let_def
        permits_an_attempt_def chrono_0_4_def)
  from connect_reports_the_link [OF st] st show ?thesis by auto
qed



subsection \<open>The jittered wait\<close>

lemma reconnect_delay_law:
  assumes "reconnect_backoff p a * 500 \<le> dur_max"
  shows "\<exists>d. reconnect_delay p a e = Some d
     \<and> reconnect_backoff p a div 2 \<le> d \<and> d \<le> reconnect_backoff p a"
proof -
  define h where "h = reconnect_backoff p a div 2"
  define k where "k = e mod (jitter_steps + 1)"
  have k: "k \<le> jitter_steps" by (simp add: k_def jitter_steps_def)
  then have hk: "h * k \<le> h * jitter_steps" by (rule mult_le_mono2)
  have h2: "2 * h \<le> reconnect_backoff p a" by (simp add: h_def)
  have "h * jitter_steps \<le> reconnect_backoff p a * 500" using h2 by (simp add: jitter_steps_def)
  then have "h * k \<le> dur_max" using hk assms by linarith
  moreover have "h * k div jitter_steps \<le> h"
    using hk div_le_mono [of "h * k" "h * jitter_steps" jitter_steps] by (simp add: jitter_steps_def)
  ultimately have "reconnect_delay p a e = Some (h + h * k div jitter_steps)"
    unfolding reconnect_delay_def Let_def h_def k_def by (simp only: dur_checked_mul_def if_True option.map)
  with \<open>h * k div jitter_steps \<le> h\<close> h2 show ?thesis unfolding h_def [symmetric] by simp
qed

text \<open>
  C30: For every policy whose ceiling leaves room for the jitter's arithmetic, the jittered wait
  is computed without overflow and lies between half the backoff and the backoff, for
  every attempt count and every entropy; in particular it never exceeds the ceiling and a
  refused client is never sent straight back.
\<close>

theorem connect_delay_bounds:
  assumes "cp_ceiling p * 500 \<le> dur_max"
  shows "\<exists>d. reconnect_delay p a e = Some d
     \<and> reconnect_backoff p a div 2 \<le> d \<and> d \<le> reconnect_backoff p a \<and> d \<le> cp_ceiling p"
proof -
  have "reconnect_ok p" using assms by (simp add: reconnect_ok_def)
  then have c: "reconnect_backoff p a \<le> cp_ceiling p" by (rule reconnect.wait_le_ceiling)
  then have "reconnect_backoff p a * 500 \<le> dur_max" using assms by linarith
  from reconnect_delay_law [OF this, of e] c show ?thesis by auto
qed

theorem connect_delay_bounds_witness:
  "\<exists>d. reconnect_delay reconnect_default 40 123456 = Some d \<and> d \<le> secs 120"
proof -
  have "cp_ceiling reconnect_default * 500 \<le> dur_max"
    by (simp add: reconnect_default_def secs_def dur_max_def u64_max_def nanos_per_sec_def)
  from connect_delay_bounds [OF this, of 40 123456] show ?thesis by (auto simp: reconnect_default_def)
qed


subsection \<open>No panic\<close>

text \<open>
  An instant is clear of the end of the calendar when both the policy's ceiling and any wait
  the server asks for still fit after it.
\<close>

definition clear_of_end :: "chrono \<Rightarrow> reconnect_policy \<Rightarrow> int \<Rightarrow> nat \<Rightarrow> bool" where
  "clear_of_end L p now asked \<longleftrightarrow>
     in_range L now \<and> now + int (cp_ceiling p) \<le> max_utc L \<and> now + int asked \<le> max_utc L"

fun event_clear :: "chrono \<Rightarrow> reconnect_policy \<Rightarrow> sup_event \<Rightarrow> bool" where
  "event_clear L p (Observe e now) = clear_of_end L p now 0"
| "event_clear L p (Poll caps conn now e) =
     clear_of_end L p now
       (case conn of None \<Rightarrow> 0 | Some x \<Rightarrow> (case retry_after x of None \<Rightarrow> 0 | Some d \<Rightarrow> d))"
| "event_clear L p _ = True"

lemma fail_no_panic:
  assumes "chrono_ok L" "cp_ceiling (sup_policy s) * 500 \<le> dur_max"
    and "in_range L now" "now + int (cp_ceiling (sup_policy s)) \<le> max_utc L"
  shows "sup_fail L s now e \<noteq> None"
proof -
  obtain d where d: "reconnect_delay (sup_policy s) (sat_add32 (sup_attempts s) 1) e = Some d"
    and le: "d \<le> cp_ceiling (sup_policy s)"
  proof -
    have ok: "reconnect_ok (sup_policy s)" using assms(2) by (simp add: reconnect_ok_def)
    define a where "a = sat_add32 (sup_attempts s) 1"
    have c: "reconnect_backoff (sup_policy s) a \<le> cp_ceiling (sup_policy s)"
      using ok by (rule reconnect.wait_le_ceiling)
    then have "reconnect_backoff (sup_policy s) a * 500 \<le> dur_max" using assms(2) by linarith
    from reconnect_delay_law [OF this, of e] c that show ?thesis by (fastforce simp: a_def)
  qed
  have "now + int d \<le> max_utc L" using le assms(4) by linarith
  with assms have "dt_add L now (delta_or_max L d) = Some (now + int d)" by (simp add: dt_add_fits)
  then show ?thesis unfolding sup_fail_def Let_def by (simp only: d option.case) simp
qed

lemma observe_no_panic:
  assumes "chrono_ok L" "cp_ceiling (sup_policy s) * 500 \<le> dur_max" "clear_of_end L (sup_policy s) now a"
  shows "sup_observe L msg s e now \<noteq> None"
  using assms fail_no_panic [of L s now "entropy_from now"] by (auto simp: sup_observe_def clear_of_end_def)

lemma attempt_no_panic:
  assumes "chrono_ok L" "cp_ceiling (sup_policy s) * 500 \<le> dur_max"
    and "clear_of_end L (sup_policy s) now
       (case conn of None \<Rightarrow> 0 | Some x \<Rightarrow> (case retry_after x of None \<Rightarrow> 0 | Some d \<Rightarrow> d))"
  shows "sup_attempt L msg s conn now e \<noteq> None"
proof -
  obtain s' l where f: "sup_fail L s now e = Some (s', l)"
    using fail_no_panic [of L s now e] assms by (auto simp: clear_of_end_def)
  have add: "dt_add L now (delta_or_max L d) = Some (now + int d)"
    if "conn = Some x" "retry_after x = Some d" for x d
    using that assms by (intro dt_add_fits) (auto simp: clear_of_end_def)
  show ?thesis using add by (auto simp: sup_attempt_def f split: option.splits link.splits)
qed

text \<open>
  With a policy whose ceiling leaves room for the jitter and a clock clear of the end of
  the calendar by the ceiling and by whatever wait the server names, no step of the
  supervisor panics, whatever its state.
\<close>

theorem connect_never_panics:
  assumes "chrono_ok L" "cp_ceiling (sup_policy s) * 500 \<le> dur_max" "event_clear L (sup_policy s) ev"
  shows "sup_step L msg s ev \<noteq> None"
proof (cases ev)
  case (Observe e now)
  then show ?thesis using assms by (simp add: sup_step_def observe_no_panic)
next
  case (Poll caps conn now e)
  have c: "clear_of_end L (sup_policy s) now
       (case conn of None \<Rightarrow> 0 | Some x \<Rightarrow> (case retry_after x of None \<Rightarrow> 0 | Some d \<Rightarrow> d))"
    using assms(3) Poll by simp
  show ?thesis
    using attempt_no_panic [OF assms(1,2) c, of msg e] observe_no_panic [OF assms(1,2) c, of msg]
    by (auto simp: Poll sup_step_def sup_poll_def Let_def split: link.splits option.splits)
qed (simp_all add: sup_step_def)

theorem connect_never_panics_witness:
  "\<exists>r. sup_step chrono_0_4 (\<lambda>_. []) (sup_new chrono_0_4 reconnect_default)
     (Poll None (Some (RateLimited (Some (secs 600)) ''later'')) 0 0) = Some r"
proof -
  have c: "cp_ceiling (sup_policy (sup_new chrono_0_4 reconnect_default)) * 500 \<le> dur_max"
    by (simp add: reconnect_default_def sup_new_def secs_def dur_max_def u64_max_def nanos_per_sec_def)
  have e: "event_clear chrono_0_4 (sup_policy (sup_new chrono_0_4 reconnect_default))
     (Poll None (Some (RateLimited (Some (secs 600)) ''later'')) 0 0)"
    by (simp add: clear_of_end_def in_range_def chrono_0_4_def sup_new_def reconnect_default_def
        secs_def nanos_per_sec_def retry_after_def)
  from connect_never_panics [OF chrono_0_4_ok c e, of "\<lambda>_. []"] show ?thesis by auto
qed

end
