(* ===== verification/Flags.thy ===== *)
theory Flags
  imports Prelude
begin

section \<open>Message flags\<close>

text \<open>
  \<open>crates/postio-model/src/flag.rs\<close>: the flag vocabulary with its case-insensitive
  equality and order, and \<open>FlagSet\<close>, a \<open>BTreeSet\<close> of flags.  A set is the
  list its iterator yields; \<open>fs_wf\<close> is the invariant of the tree (ascending by
  \<open>flag_key\<close>, so never two spellings of one keyword), kept by every operation.
\<close>

datatype flag =
    Seen | Answered | Flagged | Deleted | Draft | Recent | Forwarded | Junk | NotJunk
  | Keyword string

fun rank :: "flag \<Rightarrow> nat" where
  "rank Seen = 0"
| "rank Answered = 1"
| "rank Flagged = 2"
| "rank Deleted = 3"
| "rank Draft = 4"
| "rank Recent = 5"
| "rank Forwarded = 6"
| "rank Junk = 7"
| "rank NotJunk = 8"
| "rank (Keyword _) = 9"

fun flag_as_str :: "flag \<Rightarrow> string" where
  "flag_as_str Seen = [CHR 92] @ ''Seen''"
| "flag_as_str Answered = [CHR 92] @ ''Answered''"
| "flag_as_str Flagged = [CHR 92] @ ''Flagged''"
| "flag_as_str Deleted = [CHR 92] @ ''Deleted''"
| "flag_as_str Draft = [CHR 92] @ ''Draft''"
| "flag_as_str Recent = [CHR 92] @ ''Recent''"
| "flag_as_str Forwarded = ''$Forwarded''"
| "flag_as_str Junk = ''$Junk''"
| "flag_as_str NotJunk = ''$NotJunk''"
| "flag_as_str (Keyword k) = k"

definition flag_parse :: "string \<Rightarrow> flag" where
  "flag_parse s =
     (let raw = trim s; l = lower_bytes raw in
      if l = lower_bytes ([CHR 92] @ ''seen'') then Seen
      else if l = lower_bytes ([CHR 92] @ ''answered'') then Answered
      else if l = lower_bytes ([CHR 92] @ ''flagged'') then Flagged
      else if l = lower_bytes ([CHR 92] @ ''deleted'') then Deleted
      else if l = lower_bytes ([CHR 92] @ ''draft'') then Draft
      else if l = lower_bytes ([CHR 92] @ ''recent'') then Recent
      else if l = lower_bytes ''$forwarded'' then Forwarded
      else if l = lower_bytes ''$junk'' then Junk
      else if l = lower_bytes ''$notjunk'' then NotJunk
      else Keyword raw)"

definition is_transient :: "flag \<Rightarrow> bool" where
  "is_transient f \<longleftrightarrow> f = Recent"

text \<open>\<open>PartialEq\<close> and \<open>Ord\<close>: keywords compare by their lower-cased bytes.\<close>

fun flag_eq :: "flag \<Rightarrow> flag \<Rightarrow> bool" where
  "flag_eq (Keyword a) (Keyword b) = (lower_bytes a = lower_bytes b)"
| "flag_eq a b = (rank a = rank b)"

fun flag_less :: "flag \<Rightarrow> flag \<Rightarrow> bool" where
  "flag_less (Keyword a) (Keyword b) = (lower_bytes a < lower_bytes b)"
| "flag_less a b = (rank a < rank b)"

text \<open>Both are read off one key: the rank, then the lower-cased keyword.\<close>

fun flag_key :: "flag \<Rightarrow> nat \<times> nat list" where
  "flag_key (Keyword k) = (9, lower_bytes k)"
| "flag_key f = (rank f, [])"

lemma flag_eq_key: "flag_eq a b \<longleftrightarrow> flag_key a = flag_key b"
  by (cases a; cases b) auto

lemma flag_less_key: "flag_less a b \<longleftrightarrow> flag_key a < flag_key b"
  by (cases a; cases b) auto


subsection \<open>\<open>FlagSet\<close>\<close>

type_synonym flag_set = "flag list"

definition fs_new :: flag_set where "fs_new = []"

definition fs_contains :: "flag_set \<Rightarrow> flag \<Rightarrow> bool" where
  "fs_contains s f \<longleftrightarrow> list_ex (flag_eq f) s"

definition fs_insert :: "flag_set \<Rightarrow> flag \<Rightarrow> flag_set \<times> bool" where
  "fs_insert s f = (bt_insert flag_key f s, \<not> fs_contains s f)"

definition fs_remove :: "flag_set \<Rightarrow> flag \<Rightarrow> flag_set \<times> bool" where
  "fs_remove s f = (bt_remove flag_key f s, fs_contains s f)"

definition fs_iter :: "flag_set \<Rightarrow> flag list" where "fs_iter s = s"

definition fs_len :: "flag_set \<Rightarrow> nat" where "fs_len s = length s"

definition fs_is_empty :: "flag_set \<Rightarrow> bool" where "fs_is_empty s \<longleftrightarrow> s = []"

definition fs_from_iter :: "flag list \<Rightarrow> flag_set" where
  "fs_from_iter xs = bt_collect flag_key xs"

definition fs_persistable :: "flag_set \<Rightarrow> flag_set" where
  "fs_persistable s = fs_from_iter (filter (\<lambda>f. \<not> is_transient f) (fs_iter s))"

definition fs_extend :: "flag_set \<Rightarrow> flag list \<Rightarrow> flag_set" where
  "fs_extend s fs = foldl (\<lambda>s f. fst (fs_insert s f)) s fs"

definition fs_is_seen :: "flag_set \<Rightarrow> bool" where "fs_is_seen s = fs_contains s Seen"
definition fs_is_unread :: "flag_set \<Rightarrow> bool" where "fs_is_unread s \<longleftrightarrow> \<not> fs_is_seen s"
definition fs_is_flagged :: "flag_set \<Rightarrow> bool" where "fs_is_flagged s = fs_contains s Flagged"
definition fs_is_answered :: "flag_set \<Rightarrow> bool" where "fs_is_answered s = fs_contains s Answered"
definition fs_is_draft :: "flag_set \<Rightarrow> bool" where "fs_is_draft s = fs_contains s Draft"
definition fs_is_deleted :: "flag_set \<Rightarrow> bool" where "fs_is_deleted s = fs_contains s Deleted"

text \<open>What a set means: its keys.\<close>

definition fs_keys :: "flag_set \<Rightarrow> (nat \<times> nat list) set" where
  "fs_keys s = flag_key ` set s"

definition fs_wf :: "flag_set \<Rightarrow> bool" where
  "fs_wf s = ascending flag_key s"

text \<open>\<open>PartialEq\<close> of two sets: the same flags in the same order.\<close>

definition fs_eq :: "flag_set \<Rightarrow> flag_set \<Rightarrow> bool" where
  "fs_eq s t \<longleftrightarrow> list_all2 flag_eq s t"

lemma fs_contains_keys: "fs_contains s f \<longleftrightarrow> flag_key f \<in> fs_keys s"
  by (auto simp: fs_contains_def fs_keys_def list_ex_iff flag_eq_key)

interpretation fs: key_set fs_keys fs_wf flag_key fs_iter fs_from_iter fs_contains
  by unfold_locales
    (simp_all add: fs_keys_def fs_wf_def fs_iter_def fs_from_iter_def ascending_bt_collect
      fs_contains_keys)

lemma fs_keys_insert: "fs_keys (fst (fs_insert s f)) = insert (flag_key f) (fs_keys s)"
  by (simp add: fs_keys_def fs_insert_def)

lemma fs_wf_insert: "fs_wf s \<Longrightarrow> fs_wf (fst (fs_insert s f))"
  by (simp add: fs_wf_def fs_insert_def ascending_bt_insert)

lemma fs_keys_remove: "fs_keys (fst (fs_remove s f)) = fs_keys s - {flag_key f}"
  by (simp add: fs_keys_def fs_remove_def)

lemma fs_wf_remove: "fs_wf s \<Longrightarrow> fs_wf (fst (fs_remove s f))"
  by (simp add: fs_wf_def fs_remove_def bt_remove_def ascending_filter)

lemma fs_eq_keys:
  assumes "fs_wf s" "fs_wf t"
  shows "fs_eq s t \<longleftrightarrow> fs_keys s = fs_keys t"
proof
  assume "fs_eq s t"
  then have "map flag_key s = map flag_key t"
    unfolding fs_eq_def by (induction rule: list_all2_induct) (auto simp: flag_eq_key)
  then have "set (map flag_key s) = set (map flag_key t)" by simp
  then show "fs_keys s = fs_keys t" by (simp add: fs_keys_def)
next
  assume "fs_keys s = fs_keys t"
  with assms have "map flag_key s = map flag_key t"
    by (intro ascending_keys_unique) (simp_all add: fs_wf_def fs_keys_def)
  then have "list_all2 (=) (map flag_key s) (map flag_key t)" by (simp add: list.rel_eq)
  then have "list_all2 (\<lambda>a b. flag_key a = flag_key b) s t" by (simp add: list.rel_map)
  then show "fs_eq s t" by (simp add: fs_eq_def flag_eq_key [abs_def])
qed

lemma fs_keys_persistable: "fs_keys (fs_persistable s) = fs_keys s - {flag_key Recent}"
proof -
  have "is_transient f \<longleftrightarrow> flag_key f = flag_key Recent" for f
    by (cases f) (auto simp: is_transient_def)
  then have "fs_keys (fs_persistable s) = flag_key ` {f \<in> set s. flag_key f \<noteq> flag_key Recent}"
    by (simp add: fs_persistable_def fs.keys_collect fs_iter_def)
  also have "\<dots> = fs_keys s - {flag_key Recent}"
    unfolding fs_keys_def by (rule image_key_filter)
  finally show ?thesis .
qed


subsection \<open>Properties\<close>

lemma fs_extend_spec: "fs_wf s \<Longrightarrow> fs_wf (fs_extend s xs) \<and> fs_keys (fs_extend s xs) = fs_keys s \<union> flag_key ` set xs"
proof (induction xs arbitrary: s)
  case (Cons x xs)
  from Cons.IH [OF fs_wf_insert [OF Cons.prems, of x]] show ?case
    by (simp add: fs_extend_def fs_keys_insert)
qed (simp add: fs_extend_def)

lemma list_ex_flag_eq: "list_ex (flag_eq f) xs \<longleftrightarrow> flag_key f \<in> flag_key ` set xs"
  by (auto simp: list_ex_iff flag_eq_key)

lemma same_keys: "flag_key ` set xs = flag_key ` set ys \<longleftrightarrow> (\<forall>f. list_ex (flag_eq f) xs \<longleftrightarrow> list_ex (flag_eq f) ys)"
  unfolding list_ex_flag_eq by blast

text \<open>
  A flag set is a set.  Collected at once from one list or inserted one by one from
  another, the results are equal exactly when the lists name the same flags, keywords
  compared without case, whatever the order and the repetitions; and what is written to the
  store is the same set without \<open>Recent\<close>.
\<close>

theorem flag_sets_are_sets:
  "(fs_eq (fs_from_iter xs) (fs_extend fs_new ys) \<longleftrightarrow>
      (\<forall>f. list_ex (flag_eq f) xs \<longleftrightarrow> list_ex (flag_eq f) ys))
   \<and> (fs_contains (fs_persistable (fs_from_iter xs)) f \<longleftrightarrow> list_ex (flag_eq f) xs \<and> \<not> flag_eq f Recent)"
proof
  have new: "fs_wf fs_new" "fs_keys fs_new = {}" by (simp_all add: fs_wf_def fs_new_def fs_keys_def)
  have "fs_eq (fs_from_iter xs) (fs_extend fs_new ys) \<longleftrightarrow> flag_key ` set xs = flag_key ` set ys"
    using fs_extend_spec [OF new(1), of ys] new(2) by (simp add: fs_eq_keys fs.inv_collect fs.keys_collect)
  then show "fs_eq (fs_from_iter xs) (fs_extend fs_new ys) \<longleftrightarrow>
      (\<forall>f. list_ex (flag_eq f) xs \<longleftrightarrow> list_ex (flag_eq f) ys)"
    by (simp only: same_keys)
  show "fs_contains (fs_persistable (fs_from_iter xs)) f \<longleftrightarrow> list_ex (flag_eq f) xs \<and> \<not> flag_eq f Recent"
    by (auto simp: fs_contains_keys fs_keys_persistable fs.keys_collect list_ex_flag_eq flag_eq_key)
qed

text \<open>
  Which spelling of a keyword a set keeps depends on how it was built: the first one when
  inserted, the last one when collected.  So two equal sets can serialize differently.
\<close>

theorem flag_set_spelling:
  "fs_eq (fs_from_iter [Keyword ''Work'', Keyword ''work'']) (fs_extend fs_new [Keyword ''Work'', Keyword ''work''])
   \<and> map flag_as_str (fs_from_iter [Keyword ''Work'', Keyword ''work'']) = [''work'']
   \<and> map flag_as_str (fs_extend fs_new [Keyword ''Work'', Keyword ''work'']) = [''Work'']"
  by (simp add: fs_from_iter_def bt_collect_def fs_extend_def fs_insert_def fs_new_def fs_eq_def
      lower_bytes_def bytes_def byte_def ascii_lower_def insort_key_def)

end
