(* ===== verification/Watch.thy ===== *)
theory Watch
  imports Rust_Time Backend Flags
begin

section \<open>Noticing that mail arrived\<close>

text \<open>
  \<open>crates/postio-sync/src/watch.rs\<close>: which mailbox the dedicated connection idles on,
  which one the shared connection polls, and what a report means.  The \<open>HashMap\<close> of
  targets is an association list.  A \<open>CancelToken\<close> is shared between the watcher and
  the caller, so it is a number: \<open>w_next_token\<close> is the next fresh one and
  \<open>w_cancelled\<close> the tokens cancelled so far.  \<open>now + delta(interval)\<close> panics out of
  \<open>chrono\<close>'s range, which is \<open>None\<close>.
\<close>

definition rfc2177_max_idle :: nat where "rfc2177_max_idle = secs (29 * 60)"

record watch_policy =
  wp_idle :: bool
  wp_idle_refresh :: nat
  wp_poll_interval :: nat
  wp_manual :: bool

definition watch_default :: watch_policy where
  "watch_default = \<lparr>wp_idle = True, wp_idle_refresh = secs (9 * 60), wp_poll_interval = secs 300,
     wp_manual = False\<rparr>"

definition idle_timeout :: "watch_policy \<Rightarrow> nat" where
  "idle_timeout p = min (wp_idle_refresh p) rfc2177_max_idle"

datatype attention = Push | Poll

datatype watch =
    WatchIdle mailbox_id string nat nat  \<comment> \<open>mailbox, path, timeout, cancel\<close>
  | WatchPoll mailbox_id string
  | WatchWait "int option"

datatype wake = Changed | Quiet

fun needs_resync :: "wake \<Rightarrow> bool" where
  "needs_resync Changed = True"
| "needs_resync Quiet = False"

text \<open>\<open>MailboxStatus\<close> and \<open>MailboxEvent\<close> of \<open>postio-account/src/backend/message.rs\<close>.\<close>

record server_status =
  st_path :: string
  st_generation :: nat
  st_uid_next :: nat
  st_exists :: nat
  st_unseen :: "nat option"
  st_highest_mod_seq :: "nat option"
  st_permanent_flags :: flag_set
  st_can_create_keywords :: bool
  st_read_only :: bool

datatype mailbox_event =
    Exists nat | Expunged nat | Vanished "nat list" | FlagsChanged "nat option" flag_set

record signature =
  sig_generation :: nat
  sig_uid_next :: nat
  sig_exists :: nat
  sig_unseen :: "nat option"
  sig_highest_mod_seq :: "nat option"

definition signature_of :: "server_status \<Rightarrow> signature" where
  "signature_of st = \<lparr>sig_generation = st_generation st, sig_uid_next = st_uid_next st,
     sig_exists = st_exists st, sig_unseen = st_unseen st, sig_highest_mod_seq = st_highest_mod_seq st\<rparr>"

record target =
  t_path :: string
  t_attention :: attention
  t_due_at :: int
  t_verified_at :: "int option"
  t_signature :: "signature option"
  t_in_flight :: "nat option"

definition wants_verifying :: "chrono \<Rightarrow> target \<Rightarrow> int \<Rightarrow> nat \<Rightarrow> bool" where
  "wants_verifying L t now interval =
     (case t_verified_at t of None \<Rightarrow> True | Some at \<Rightarrow> delta_or_max L interval \<le> now - at)"

record watcher =
  w_policy :: watch_policy
  w_can_idle :: bool
  w_targets :: "(mailbox_id \<times> target) list"
  w_pushed :: "mailbox_id option"
  w_suspended :: bool
  w_next_token :: nat
  w_cancelled :: "nat list"

definition watcher_new :: "watch_policy \<Rightarrow> capabilities \<Rightarrow> watcher" where
  "watcher_new p cs = \<lparr>w_policy = p, w_can_idle = (wp_idle p \<and> caps_contains cs Idle), w_targets = [],
     w_pushed = None, w_suspended = False, w_next_token = 0, w_cancelled = []\<rparr>"

definition set_capabilities :: "watcher \<Rightarrow> capabilities \<Rightarrow> watcher" where
  "set_capabilities w cs = w\<lparr>w_can_idle := wp_idle (w_policy w) \<and> caps_contains cs Idle\<rparr>"

definition w_watch :: "chrono \<Rightarrow> watcher \<Rightarrow> mailbox_id \<Rightarrow> string \<Rightarrow> attention \<Rightarrow> watcher" where
  "w_watch L w mailbox path a =
     (let w =
        (if a = Push then
           (let previous = w_pushed w; w = w\<lparr>w_pushed := Some mailbox\<rparr> in
            case previous of
              Some pr \<Rightarrow>
                (if pr \<noteq> mailbox
                 then w\<lparr>w_targets := al_modify pr (\<lambda>t. t\<lparr>t_attention := Poll\<rparr>) (w_targets w)\<rparr>
                 else w)
            | None \<Rightarrow> w)
         else if w_pushed w = Some mailbox then w\<lparr>w_pushed := None\<rparr>
         else w);
          t = (case map_of (w_targets w) mailbox of
                 Some t \<Rightarrow> t
               | None \<Rightarrow> \<lparr>t_path = path, t_attention = a, t_due_at = min_utc L, t_verified_at = None,
                    t_signature = None, t_in_flight = None\<rparr>)
      in w\<lparr>w_targets := al_put mailbox (t\<lparr>t_path := path, t_attention := a\<rparr>) (w_targets w)\<rparr>)"

definition cancel_token :: "watcher \<Rightarrow> nat \<Rightarrow> watcher" where
  "cancel_token w k = w\<lparr>w_cancelled := k # w_cancelled w\<rparr>"

definition w_forget :: "watcher \<Rightarrow> mailbox_id \<Rightarrow> watcher" where
  "w_forget w mailbox =
     (let w = (case map_of (w_targets w) mailbox of
                 None \<Rightarrow> w
               | Some t \<Rightarrow>
                   (let w = w\<lparr>w_targets := al_remove mailbox (w_targets w)\<rparr> in
                    case t_in_flight t of Some k \<Rightarrow> cancel_token w k | None \<Rightarrow> w))
      in if w_pushed w = Some mailbox then w\<lparr>w_pushed := None\<rparr> else w)"

text \<open>\<open>step\<close>: hand out what a mailbox is due and mark it outstanding.\<close>

definition w_step :: "chrono \<Rightarrow> watcher \<Rightarrow> mailbox_id \<Rightarrow> int \<Rightarrow> watcher \<times> watch" where
  "w_step L w mailbox now =
     (if w_suspended w \<or> wp_manual (w_policy w) then (w, WatchWait None)
      else (case map_of (w_targets w) mailbox of
          None \<Rightarrow> (w, WatchWait None)
        | Some t \<Rightarrow>
            if t_in_flight t \<noteq> None then (w, WatchWait None)
            else if now < t_due_at t then (w, WatchWait (Some (t_due_at t)))
            else
              (let cancel = w_next_token w;
                   w' = w\<lparr>w_next_token := cancel + 1,
                          w_targets := al_modify mailbox (\<lambda>t. t\<lparr>t_in_flight := Some cancel\<rparr>) (w_targets w)\<rparr>
               in if w_can_idle w \<and> w_pushed w = Some mailbox
                     \<and> \<not> wants_verifying L t now (wp_poll_interval (w_policy w))
                  then (w', WatchIdle mailbox (t_path t) (idle_timeout (w_policy w)) cancel)
                  else (w', WatchPoll mailbox (t_path t)))))"

definition next_push :: "chrono \<Rightarrow> watcher \<Rightarrow> int \<Rightarrow> watcher \<times> watch" where
  "next_push L w now =
     (case w_pushed w of None \<Rightarrow> (w, WatchWait None) | Some mailbox \<Rightarrow> w_step L w mailbox now)"

text \<open>One iteration of the loop of \<open>next_poll\<close>: \<open>due\<close> and \<open>next\<close> so far.\<close>

definition poll_scan ::
  "watcher \<Rightarrow> int \<Rightarrow> mailbox_id option \<times> int option \<Rightarrow> mailbox_id \<times> target \<Rightarrow> mailbox_id option \<times> int option"
where
  "poll_scan w now acc entry =
     (let (due, nxt) = acc; (i, t) = entry in
      if w_pushed w = Some i then acc
      else if t_in_flight t \<noteq> None then acc
      else if t_due_at t \<le> now then
        (if (case due of
               None \<Rightarrow> True
             | Some current \<Rightarrow>
                 (t_due_at t, i) < (t_due_at (the (map_of (w_targets w) current)), current))
         then (Some i, nxt) else acc)
      else if (case nxt of None \<Rightarrow> True | Some at \<Rightarrow> t_due_at t < at) then (due, Some (t_due_at t))
      else acc)"

definition next_poll :: "chrono \<Rightarrow> watcher \<Rightarrow> int \<Rightarrow> watcher \<times> watch" where
  "next_poll L w now =
     (if w_suspended w \<or> wp_manual (w_policy w) then (w, WatchWait None)
      else
        (case foldl (poll_scan w now) (None, None) (w_targets w) of
           (Some mailbox, _) \<Rightarrow> w_step L w mailbox now
         | (None, nxt) \<Rightarrow> (w, WatchWait nxt)))"

definition w_woke :: "watcher \<Rightarrow> mailbox_id \<Rightarrow> mailbox_event list \<Rightarrow> int \<Rightarrow> watcher \<times> wake" where
  "w_woke w mailbox events now =
     (case map_of (w_targets w) mailbox of
        None \<Rightarrow> (w, Quiet)
      | Some t \<Rightarrow>
          (let t = t\<lparr>t_in_flight := None, t_due_at := now\<rparr> in
           if events = [] then (w\<lparr>w_targets := al_put mailbox t (w_targets w)\<rparr>, Quiet)
           else (w\<lparr>w_targets := al_put mailbox (t\<lparr>t_verified_at := Some now, t_signature := None\<rparr>) (w_targets w)\<rparr>,
                 Changed)))"

definition w_observed ::
  "chrono \<Rightarrow> watcher \<Rightarrow> mailbox_id \<Rightarrow> server_status \<Rightarrow> int \<Rightarrow> (watcher \<times> wake) option" where
  "w_observed L w mailbox status now =
     (let idled = (w_can_idle w \<and> w_pushed w = Some mailbox);
          interval = wp_poll_interval (w_policy w)
      in case map_of (w_targets w) mailbox of
        None \<Rightarrow> Some (w, Quiet)
      | Some t \<Rightarrow>
          (let changed = (t_signature t \<noteq> Some (signature_of status)) in
           case (if idled then Some now else dt_add L now (delta_or_max L interval)) of
             None \<Rightarrow> None
           | Some due \<Rightarrow>
               Some (w\<lparr>w_targets := al_put mailbox
                   (t\<lparr>t_in_flight := None, t_verified_at := Some now,
                      t_signature := Some (signature_of status), t_due_at := due\<rparr>) (w_targets w)\<rparr>,
                 if changed then Changed else Quiet)))"

definition w_failed :: "chrono \<Rightarrow> watcher \<Rightarrow> mailbox_id \<Rightarrow> int \<Rightarrow> watcher option" where
  "w_failed L w mailbox now =
     (case map_of (w_targets w) mailbox of
        None \<Rightarrow> Some w
      | Some t \<Rightarrow>
          (case dt_add L now (delta_or_max L (wp_poll_interval (w_policy w))) of
             None \<Rightarrow> None
           | Some due \<Rightarrow>
               Some (w\<lparr>w_targets := al_put mailbox (t\<lparr>t_in_flight := None, t_due_at := due\<rparr>) (w_targets w)\<rparr>)))"

definition outstanding :: "watcher \<Rightarrow> nat list" where
  "outstanding w = List.map_filter (\<lambda>(i, t). t_in_flight t) (w_targets w)"

definition w_interrupted :: "watcher \<Rightarrow> int \<Rightarrow> watcher" where
  "w_interrupted w now =
     w\<lparr>w_cancelled := outstanding w @ w_cancelled w,
       w_targets := al_map (\<lambda>t. if t_in_flight t \<noteq> None
         then t\<lparr>t_in_flight := None, t_due_at := now, t_verified_at := None\<rparr> else t) (w_targets w)\<rparr>"

definition w_unverified :: "watcher \<Rightarrow> watcher" where
  "w_unverified w = w\<lparr>w_targets := al_map (\<lambda>t. t\<lparr>t_verified_at := None\<rparr>) (w_targets w)\<rparr>"

definition w_suspend :: "watcher \<Rightarrow> watcher" where
  "w_suspend w = w\<lparr>w_suspended := True, w_cancelled := outstanding w @ w_cancelled w\<rparr>"

definition w_resume :: "watcher \<Rightarrow> int \<Rightarrow> watcher" where
  "w_resume w now =
     w\<lparr>w_suspended := False,
       w_targets := al_map (\<lambda>t. t\<lparr>t_due_at := now, t_verified_at := None\<rparr>) (w_targets w)\<rparr>"

text \<open>Every call, as one step; what it hands out, if anything.\<close>

datatype watch_event =
    Register mailbox_id string attention
  | Forget mailbox_id
  | SetCaps capabilities
  | NextPush int
  | NextPoll int
  | Woke mailbox_id "mailbox_event list" int
  | ObservedStatus mailbox_id server_status int
  | FailedStep mailbox_id int
  | Interrupted int
  | Unverified
  | Suspend
  | Resume int

definition watch_step :: "chrono \<Rightarrow> watcher \<Rightarrow> watch_event \<Rightarrow> (watcher \<times> watch option) option" where
  "watch_step L w ev =
     (case ev of
        Register m p a \<Rightarrow> Some (w_watch L w m p a, None)
      | Forget m \<Rightarrow> Some (w_forget w m, None)
      | SetCaps cs \<Rightarrow> Some (set_capabilities w cs, None)
      | NextPush now \<Rightarrow> (let (w, s) = next_push L w now in Some (w, Some s))
      | NextPoll now \<Rightarrow> (let (w, s) = next_poll L w now in Some (w, Some s))
      | Woke m es now \<Rightarrow> Some (fst (w_woke w m es now), None)
      | ObservedStatus m st now \<Rightarrow> map_option (\<lambda>(w, _). (w, None)) (w_observed L w m st now)
      | FailedStep m now \<Rightarrow> map_option (\<lambda>w. (w, None)) (w_failed L w m now)
      | Interrupted now \<Rightarrow> Some (w_interrupted w now, None)
      | Unverified \<Rightarrow> Some (w_unverified w, None)
      | Suspend \<Rightarrow> Some (w_suspend w, None)
      | Resume now \<Rightarrow> Some (w_resume w now, None))"

end
