(* ===== verification/Watch_Props.thy ===== *)
theory Watch_Props
  imports Watch
begin

section \<open>Noticing that mail arrived: the properties\<close>

text \<open>
  The watcher's invariant, the guarantee that a mailbox never has two commands outstanding,
  the two lanes, the deterministic rotation, suspension, and how long a deaf connection can
  hide mail.
\<close>

definition tgt :: "watcher \<Rightarrow> mailbox_id \<Rightarrow> target option" where
  "tgt w m = map_of (w_targets w) m"

definition flying :: "watcher \<Rightarrow> mailbox_id \<Rightarrow> nat option" where
  "flying w m = (case tgt w m of None \<Rightarrow> None | Some t \<Rightarrow> t_in_flight t)"

definition watch_wf :: "watcher \<Rightarrow> bool" where
  "watch_wf w \<longleftrightarrow> distinct (map fst (w_targets w))
     \<and> (\<forall>m t. tgt w m = Some t \<longrightarrow> (t_attention t = Push \<longleftrightarrow> w_pushed w = Some m))
     \<and> (\<forall>m. w_pushed w = Some m \<longrightarrow> tgt w m \<noteq> None)
     \<and> (\<forall>m k. flying w m = Some k \<longrightarrow> k < w_next_token w)
     \<and> (\<forall>m m' k. flying w m = Some k \<longrightarrow> flying w m' = Some k \<longrightarrow> m = m')
     \<and> (w_suspended w \<longrightarrow> (\<forall>m k. flying w m = Some k \<longrightarrow> k \<in> set (w_cancelled w)))"

lemma outstanding_flying:
  "distinct (map fst (w_targets w)) \<Longrightarrow> k \<in> set (outstanding w) \<longleftrightarrow> (\<exists>m. flying w m = Some k)"
proof
  assume d: "distinct (map fst (w_targets w))"
  show "k \<in> set (outstanding w)" if "\<exists>m. flying w m = Some k"
    using that unfolding outstanding_def set_map_filter_iff flying_def tgt_def
    by (force split: option.splits dest!: map_of_SomeD)
  show "\<exists>m. flying w m = Some k" if "k \<in> set (outstanding w)"
  proof -
    from that obtain m t where t: "(m, t) \<in> set (w_targets w)" "t_in_flight t = Some k"
      unfolding outstanding_def set_map_filter_iff by auto
    then have "map_of (w_targets w) m = Some t" using d by simp
    with t(2) show ?thesis by (auto simp: flying_def tgt_def intro: exI [of _ m])
  qed
qed

lemmas watch_state = tgt_def flying_def cancel_token_def

text \<open>A new state is well-formed when its targets and tokens come from the old one's.\<close>

lemma watch_wfI:
  assumes "watch_wf w" "distinct (map fst (w_targets v))" "w_next_token v = w_next_token w"
    and "\<And>m t. tgt v m = Some t \<Longrightarrow> t_attention t = Push \<longleftrightarrow> w_pushed v = Some m"
    and "\<And>m. w_pushed v = Some m \<Longrightarrow> tgt v m \<noteq> None"
    and fly: "\<And>m k. flying v m = Some k \<Longrightarrow> flying w m = Some k"
    and "w_suspended v \<Longrightarrow> w_suspended w \<and> set (w_cancelled w) \<subseteq> set (w_cancelled v)"
  shows "watch_wf v"
proof -
  have "m = m'" if "flying v m = Some k" "flying v m' = Some k" for m m' k
    using assms(1) fly [OF that(1)] fly [OF that(2)] unfolding watch_wf_def by metis
  moreover have "k < w_next_token v" if "flying v m = Some k" for m k
    using assms(1,3) fly [OF that] by (simp add: watch_wf_def)
  moreover have "k \<in> set (w_cancelled v)" if "w_suspended v" "flying v m = Some k" for m k
    using assms(1) assms(7) [OF that(1)] fly [OF that(2)] by (auto simp: watch_wf_def)
  ultimately show ?thesis
    unfolding watch_wf_def using assms(2,4,5) by (intro conjI allI impI) simp_all
qed

lemma wf_update:
  assumes "watch_wf w" "tgt w m = Some t" "t_attention t' = t_attention t"
    and "t_in_flight t' = None"
  shows "watch_wf (w\<lparr>w_targets := al_put m t' (w_targets w)\<rparr>)"
  using assms(1)
  by (rule watch_wfI) (use assms in \<open>auto simp: watch_wf_def tgt_def flying_def al_distinct_put split: if_splits\<close>)

definition registered :: "chrono \<Rightarrow> watcher \<Rightarrow> mailbox_id \<Rightarrow> string \<Rightarrow> attention \<Rightarrow> target" where
  "registered L w m p a = (case tgt w m of Some t \<Rightarrow> t
      | None \<Rightarrow> \<lparr>t_path = p, t_attention = a, t_due_at = min_utc L, t_verified_at = None,
          t_signature = None, t_in_flight = None\<rparr>)\<lparr>t_path := p, t_attention := a\<rparr>"

lemma tgt_watch: "tgt (w_watch L w m p a) j =
      (if j = m then Some (registered L w m p a)
       else if a = Push \<and> w_pushed w = Some j then map_option (\<lambda>t. t\<lparr>t_attention := Poll\<rparr>) (tgt w j)
       else tgt w j)"
  by (cases "w_pushed w"; cases a) (auto simp: w_watch_def tgt_def registered_def Let_def split: option.splits)

lemma flying_watch: "flying (w_watch L w m p a) j = flying w j"
  unfolding flying_def tgt_watch by (auto simp: registered_def split: option.splits)

lemma watch_fields:
  "w_pushed (w_watch L w m p a) = (if a = Push then Some m else if w_pushed w = Some m then None else w_pushed w)"
  "w_next_token (w_watch L w m p a) = w_next_token w" "w_suspended (w_watch L w m p a) = w_suspended w"
  "w_cancelled (w_watch L w m p a) = w_cancelled w"
  by (auto simp: w_watch_def Let_def split: option.splits)

lemma wf_watch: "watch_wf w \<Longrightarrow> watch_wf (w_watch L w m p a)"
proof -
  assume wf: "watch_wf w"
  have di: "distinct (map fst (w_targets (w_watch L w m p a)))"
    using wf by (auto simp: w_watch_def Let_def watch_wf_def al_distinct_put split: option.splits)
  have at: "t_attention u = Push \<longleftrightarrow> w_pushed w = Some j" if "tgt w j = Some u" for j u
    using wf that by (simp add: watch_wf_def)
  have ta: "t_attention (registered L w m p a) = a" by (simp add: registered_def)
  show ?thesis
    using wf
  proof (rule watch_wfI)
    fix j u assume u: "tgt (w_watch L w m p a) j = Some u"
    show "t_attention u = Push \<longleftrightarrow> w_pushed (w_watch L w m p a) = Some j"
      using u at ta unfolding tgt_watch watch_fields by (cases a) (auto split: if_splits)
  next
    fix j assume "w_pushed (w_watch L w m p a) = Some j"
    then show "tgt (w_watch L w m p a) j \<noteq> None"
      using wf unfolding tgt_watch watch_fields by (auto simp: watch_wf_def split: if_splits)
  qed (use di flying_watch watch_fields in simp_all)
qed

lemma tgt_forget: "tgt (w_forget w m) j = (if j = m then None else tgt w j)"
  by (auto simp: w_forget_def tgt_def Let_def cancel_token_def split: option.splits)

lemma wf_forget: "watch_wf w \<Longrightarrow> watch_wf (w_forget w m)"
proof -
  assume wf: "watch_wf w"
  have pu: "w_pushed (w_forget w m) = (if w_pushed w = Some m then None else w_pushed w)"
    "w_next_token (w_forget w m) = w_next_token w" "w_suspended (w_forget w m) = w_suspended w"
    "set (w_cancelled w) \<subseteq> set (w_cancelled (w_forget w m))"
    by (auto simp: w_forget_def Let_def cancel_token_def split: option.splits)
  have di: "distinct (map fst (w_targets (w_forget w m)))"
    using wf by (auto simp: w_forget_def Let_def watch_wf_def cancel_token_def al_distinct_remove split: option.splits)
  show ?thesis
    using wf by (rule watch_wfI) (use wf di in \<open>auto simp: watch_wf_def flying_def tgt_forget pu(1-3) dest: pu(4) [THEN subsetD] split: if_splits\<close>)
qed

lemma wf_map:
  assumes "watch_wf w" and f: "\<And>t. t_attention (f t) = t_attention t"
    and "\<And>t. t_in_flight (f t) = t_in_flight t"
  shows "watch_wf (w\<lparr>w_targets := al_map f (w_targets w)\<rparr>)"
proof -
  let ?w = "w\<lparr>w_targets := al_map f (w_targets w)\<rparr>"
  have "flying ?w m = flying w m" for m
    using assms(3) by (auto simp: flying_def tgt_def split: option.splits)
  then show ?thesis
    using assms(1) by - (rule watch_wfI, use assms(1) f in \<open>auto simp: watch_wf_def tgt_def\<close>)
qed

text \<open>What \<open>step\<close> does when it hands something out.\<close>

definition handed :: "watcher \<Rightarrow> mailbox_id \<Rightarrow> watcher" where
  "handed w m = w\<lparr>w_next_token := w_next_token w + 1,
     w_targets := al_modify m (\<lambda>t. t\<lparr>t_in_flight := Some (w_next_token w)\<rparr>) (w_targets w)\<rparr>"

definition handed_step :: "chrono \<Rightarrow> watcher \<Rightarrow> mailbox_id \<Rightarrow> target \<Rightarrow> int \<Rightarrow> watch" where
  "handed_step L w m t now =
     (if w_can_idle w \<and> w_pushed w = Some m \<and> \<not> wants_verifying L t now (wp_poll_interval (w_policy w))
      then WatchIdle m (t_path t) (idle_timeout (w_policy w)) (w_next_token w)
      else WatchPoll m (t_path t))"

lemma step_cases:
  assumes "w_step L w m now = (w', s)"
  obtains (wait) u where "w' = w" "s = WatchWait u"
    | (hand) t where "tgt w m = Some t" "t_in_flight t = None" "t_due_at t \<le> now" "\<not> w_suspended w"
        "\<not> wp_manual (w_policy w)" "w' = handed w m" "s = handed_step L w m t now"
proof (cases "w_suspended w \<or> wp_manual (w_policy w)")
  case True
  with assms wait show ?thesis by (auto simp: w_step_def)
next
  case False
  show ?thesis
  proof (cases "tgt w m")
    case None
    with False assms wait show ?thesis by (auto simp: w_step_def tgt_def)
  next
    case (Some t)
    show ?thesis
    proof (cases "t_in_flight t \<noteq> None \<or> now < t_due_at t")
      case True
      with False Some assms wait show ?thesis by (auto simp: w_step_def tgt_def split: if_split_asm)
    next
      case F: False
      then have "w' = handed w m \<and> s = handed_step L w m t now"
        using False Some assms
        by (simp add: w_step_def tgt_def handed_def handed_step_def Let_def split: if_split_asm) auto
      with F False Some hand show ?thesis by auto
    qed
  qed
qed

lemma flying_handed: "flying (handed w m) j = (if j = m \<and> tgt w m \<noteq> None then Some (w_next_token w) else flying w j)"
  by (auto simp: handed_def flying_def tgt_def split: option.splits)

lemma step_mailbox_handed: "s = handed_step L w m t now \<Longrightarrow> (\<exists>p q k. s = WatchIdle m p q k) \<or> (\<exists>p. s = WatchPoll m p)"
  by (simp add: handed_step_def)

lemma wf_handed:
  assumes "watch_wf w" "tgt w m = Some t" "\<not> w_suspended w"
  shows "watch_wf (handed w m)"
proof -
  have fly: "flying (handed w m) j = (if j = m then Some (w_next_token w) else flying w j)" for j
    using assms(2) by (simp add: flying_handed)
  have lt: "k < w_next_token w" if "flying w j = Some k" for j k
    using assms(1) that by (simp add: watch_wf_def)
  have same: "j = j'" if "flying w j = Some k" "flying w j' = Some k" for j j' k
    using assms(1) that unfolding watch_wf_def by metis
  have one: "j = j'" if "flying (handed w m) j = Some k" "flying (handed w m) j' = Some k" for j j' k
  proof (cases "j = m \<or> j' = m")
    case True
    then show ?thesis using that lt unfolding fly by (auto split: if_splits)
  next
    case False
    then show ?thesis using that same unfolding fly by (auto split: if_splits)
  qed
  have att: "t_attention u = Push \<longleftrightarrow> w_pushed w = Some j" if "tgt (handed w m) j = Some u" for j u
    using that assms(1) by (auto simp: watch_wf_def tgt_def handed_def split: if_splits)
  have less: "k < w_next_token (handed w m)" if "flying (handed w m) j = Some k" for j k
    using that lt [of j k] unfolding fly by (auto simp: handed_def split: if_splits)
  have rest: "w_pushed (handed w m) = w_pushed w" "w_suspended (handed w m) = w_suspended w"
    "distinct (map fst (w_targets (handed w m)))" "\<And>j. tgt (handed w m) j = None \<longleftrightarrow> tgt w j = None"
    using assms(1) by (auto simp: handed_def watch_wf_def tgt_def)
  have "tgt w j \<noteq> None" if "w_pushed w = Some j" for j using assms(1) that by (simp add: watch_wf_def)
  then show ?thesis
    unfolding watch_wf_def rest using assms(3) one att less rest(3) by (intro conjI allI impI) simp_all
qed

lemma wf_step: "watch_wf w \<Longrightarrow> w_step L w m now = (w', s) \<Longrightarrow> watch_wf w'"
  by (erule step_cases) (auto intro: wf_handed)

lemma wf_next_push: "watch_wf w \<Longrightarrow> next_push L w now = (w', s) \<Longrightarrow> watch_wf w'"
  by (auto simp: next_push_def wf_step split: option.splits)

lemma wf_next_poll: "watch_wf w \<Longrightarrow> next_poll L w now = (w', s) \<Longrightarrow> watch_wf w'"
  by (auto simp: next_poll_def wf_step split: option.splits prod.splits if_split_asm)

lemma wf_woke: "watch_wf w \<Longrightarrow> watch_wf (fst (w_woke w m es now))"
proof (cases "map_of (w_targets w) m")
  case (Some t)
  assume "watch_wf w"
  then show ?thesis
    using Some wf_update [of w m t] by (auto simp: w_woke_def Let_def tgt_def)
qed (simp add: w_woke_def)

lemma wf_observed: "watch_wf w \<Longrightarrow> w_observed L w m st now = Some (w', k) \<Longrightarrow> watch_wf w'"
  using wf_update [of w m]
  by (auto simp: w_observed_def Let_def tgt_def split: option.splits if_split_asm)

lemma wf_failed: "watch_wf w \<Longrightarrow> w_failed L w m now = Some w' \<Longrightarrow> watch_wf w'"
  using wf_update [of w m] by (auto simp: w_failed_def tgt_def split: option.splits)

lemma wf_interrupted: "watch_wf w \<Longrightarrow> watch_wf (w_interrupted w now)"
proof -
  assume wf: "watch_wf w"
  have "flying (w_interrupted w now) m = None" for m
    by (auto simp: w_interrupted_def flying_def tgt_def split: option.splits)
  with wf show ?thesis
    by - (rule watch_wfI, auto simp: watch_wf_def w_interrupted_def tgt_def split: if_splits)
qed

lemma wf_suspend: "watch_wf w \<Longrightarrow> watch_wf (w_suspend w)"
proof -
  assume wf: "watch_wf w"
  then have "k \<in> set (outstanding w)" if "flying w m = Some k" for m k
    using that outstanding_flying by (auto simp: watch_wf_def)
  moreover have "flying (w_suspend w) = flying w" "tgt (w_suspend w) = tgt w"
    by (auto simp: w_suspend_def watch_state fun_eq_iff)
  ultimately show ?thesis
    using wf unfolding watch_wf_def by (auto simp: w_suspend_def)
qed

lemma wf_resume: "watch_wf w \<Longrightarrow> watch_wf (w_resume w now)"
proof -
  assume "watch_wf w"
  then have "watch_wf (w\<lparr>w_suspended := False\<rparr>)"
    by (simp add: watch_wf_def watch_state)
  from wf_map [OF this, of "\<lambda>t. t\<lparr>t_due_at := now, t_verified_at := None\<rparr>"]
  show ?thesis by (simp add: w_resume_def)
qed

lemma watch_step_wf: "watch_wf w \<Longrightarrow> watch_step L w ev = Some (w', r) \<Longrightarrow> watch_wf w'"
proof (cases ev)
  case (SetCaps cs)
  assume "watch_wf w" "watch_step L w ev = Some (w', r)"
  then show ?thesis by (auto simp: watch_step_def SetCaps set_capabilities_def watch_wf_def watch_state)
qed (auto simp: watch_step_def wf_watch wf_forget wf_woke wf_interrupted w_unverified_def wf_map
    wf_suspend wf_resume split: prod.splits intro: wf_next_push wf_next_poll wf_observed wf_failed)



subsection \<open>Runs\<close>

fun watch_run :: "chrono \<Rightarrow> watcher \<Rightarrow> watch_event list \<Rightarrow> (watcher \<times> watch list) option" where
  "watch_run L w [] = Some (w, [])"
| "watch_run L w (ev # evs) =
     (case watch_step L w ev of
        None \<Rightarrow> None
      | Some (w', r) \<Rightarrow>
          (case watch_run L w' evs of
             None \<Rightarrow> None
           | Some (w'', out) \<Rightarrow> Some (w'', (case r of None \<Rightarrow> out | Some s \<Rightarrow> s # out))))"

text \<open>\<open>step_mailbox\<close> of \<open>postio-runtime\<close>: the mailbox a step is about.\<close>

fun step_mailbox :: "watch \<Rightarrow> mailbox_id option" where
  "step_mailbox (WatchIdle m _ _ _) = Some m"
| "step_mailbox (WatchPoll m _) = Some m"
| "step_mailbox (WatchWait _) = None"

text \<open>The calls that report, or drop, an outstanding step of \<open>m\<close>.\<close>

fun releases :: "mailbox_id \<Rightarrow> watch_event \<Rightarrow> bool" where
  "releases m (Woke j _ _) = (j = m)"
| "releases m (ObservedStatus j _ _) = (j = m)"
| "releases m (FailedStep j _) = (j = m)"
| "releases m (Forget j) = (j = m)"
| "releases m (Interrupted _) = True"
| "releases m _ = False"

definition watch_run_step :: "chrono \<Rightarrow> watcher option \<Rightarrow> watch_event \<Rightarrow> watcher option" where
  "watch_run_step L st ev = (case st of None \<Rightarrow> None | Some w \<Rightarrow> map_option fst (watch_step L w ev))"

interpretation watcher: machine "watch_run_step L" "\<lambda>st. case st of None \<Rightarrow> True | Some w \<Rightarrow> watch_wf w" for L
  by unfold_locales (auto simp: watch_run_step_def watch_step_wf split: option.splits)

lemma watch_run_state: "watch_run L w evs = Some (w', out) \<Longrightarrow> foldl (watch_run_step L) (Some w) evs = Some w'"
proof (induction evs arbitrary: w out)
  case (Cons ev evs)
  then show ?case
    by (auto simp: watch_run_step_def split: option.splits prod.splits)
qed simp

lemma watcher_new_wf: "watch_wf (watcher_new p cs)"
  by (simp add: watch_wf_def watcher_new_def tgt_def flying_def)

lemma step_hands_out:
  assumes "w_step L w m now = (w', s)" "step_mailbox s = Some j"
  shows "j = m \<and> flying w m = None \<and> flying w' m \<noteq> None \<and> \<not> w_suspended w"
  using assms(1)
proof (cases rule: step_cases)
  case (hand t)
  with assms(2) step_mailbox_handed [OF hand(7)] show ?thesis
    by (auto simp: flying_handed) (auto simp: flying_def)
qed (use assms(2) in simp)

lemma event_is_step:
  assumes "watch_step L w ev = Some (w', Some s)"
  shows "(\<exists>j now. w_step L w j now = (w', s)) \<or> (w' = w \<and> step_mailbox s = None)"
proof (cases ev)
  case (NextPush now)
  then show ?thesis
    using assms by (auto simp: watch_step_def next_push_def Let_def split: option.splits prod.splits)
next
  case (NextPoll now)
  then show ?thesis
    using assms
    by (auto simp: watch_step_def next_poll_def Let_def split: option.splits prod.splits if_split_asm)
qed (use assms in \<open>auto simp: watch_step_def\<close>)

lemma hands_out_free:
  assumes "watch_step L w ev = Some (w', Some s)" "step_mailbox s = Some m"
  shows "flying w m = None \<and> flying w' m \<noteq> None \<and> \<not> w_suspended w"
  using event_is_step [OF assms(1)] step_hands_out assms(2) by fastforce

lemma step_keeps_flying:
  assumes "w_step L w j now = (w', s)" "flying w m = Some k"
  shows "flying w' m = Some k"
  using assms(1)
proof (cases rule: step_cases)
  case (hand t)
  then have "flying w j = None" by (simp add: flying_def)
  with hand(6) assms(2) show ?thesis by (auto simp: flying_handed)
qed (use assms(2) in simp)

lemma flying_put: "flying (w\<lparr>w_targets := al_put j t (w_targets w)\<rparr>) m
    = (if m = j then t_in_flight t else flying w m)"
  by (simp add: flying_def tgt_def)

lemma keeps_flying:
  assumes "watch_step L w ev = Some (w', r)" "flying w m = Some k" "\<not> releases m ev"
  shows "flying w' m = Some k"
proof (cases ev)
  case (Register j p a)
  with assms have "w' = w_watch L w j p a" by (simp add: watch_step_def)
  then show ?thesis using assms(2) by (simp add: flying_watch)
next
  case (Forget j)
  with assms have "w' = w_forget w j" "m \<noteq> j" by (auto simp: watch_step_def)
  then show ?thesis using assms(2) by (simp add: flying_def tgt_forget)
next
  case (NextPush now)
  then show ?thesis
    using assms step_keeps_flying by (auto simp: watch_step_def next_push_def split: option.splits prod.splits)
next
  case (NextPoll now)
  then show ?thesis
    using assms step_keeps_flying
    by (auto simp: watch_step_def next_poll_def split: option.splits prod.splits if_split_asm)
next
  case (Woke j es now)
  then show ?thesis
    using assms by (auto simp: watch_step_def w_woke_def flying_put Let_def split: option.splits)
next
  case (ObservedStatus j st now)
  then show ?thesis
    using assms by (auto simp: watch_step_def w_observed_def flying_put Let_def split: option.splits)
next
  case (FailedStep j now)
  then show ?thesis
    using assms by (auto simp: watch_step_def w_failed_def flying_put split: option.splits)
qed (use assms in \<open>auto simp: watch_step_def flying_def tgt_def set_capabilities_def w_unverified_def
    w_suspend_def w_resume_def split: option.splits\<close>)

lemma flying_never_handed_out:
  assumes "flying w m = Some k" "\<forall>ev\<in>set evs. \<not> releases m ev" "watch_run L w evs = Some (w', out)"
  shows "\<forall>s\<in>set out. step_mailbox s \<noteq> Some m"
  using assms
proof (induction evs arbitrary: w out)
  case (Cons ev evs)
  then obtain v r out' where v: "watch_step L w ev = Some (v, r)" "watch_run L v evs = Some (w', out')"
    and o: "out = (case r of None \<Rightarrow> out' | Some s \<Rightarrow> s # out')"
    by (auto split: option.splits prod.splits)
  have "flying v m = Some k" using keeps_flying [OF v(1) Cons.prems(1)] Cons.prems(2) by simp
  from Cons.IH [OF this _ v(2)] Cons.prems(2) have "\<forall>s\<in>set out'. step_mailbox s \<noteq> Some m" by simp
  moreover have "step_mailbox s \<noteq> Some m" if "r = Some s" for s
    using hands_out_free [of L w ev v s m] v(1) that Cons.prems(1) by auto
  ultimately show ?case using o by (auto split: option.splits)
qed simp


subsection \<open>Properties\<close>

text \<open>
  C10: The duplicate-connection guarantee: once a command for a mailbox has been handed out, no
  sequence of calls hands out another for it until the first is reported (woke, observed,
  failed), reclaimed (interrupted) or the mailbox is forgotten, however often either lane
  asks and whatever is suspended, resumed or registered meanwhile.
\<close>

theorem watch_one_command_per_mailbox:
  assumes "watch_step L w ev = Some (w1, Some s)" "step_mailbox s = Some m"
    and "\<forall>ev\<in>set evs. \<not> releases m ev" "watch_run L w1 evs = Some (w2, out)"
  shows "\<forall>s\<in>set out. step_mailbox s \<noteq> Some m"
proof -
  obtain k where "flying w1 m = Some k" using hands_out_free [OF assms(1,2)] by auto
  from flying_never_handed_out [OF this assms(3,4)] show ?thesis .
qed

theorem watch_one_command_per_mailbox_witness:
  "\<exists>w1 w2 out.
     watch_step chrono_0_4 (w_watch chrono_0_4 (watcher_new watch_default caps_new) 1 ''INBOX'' Push) (NextPush 0)
       = Some (w1, Some (WatchPoll 1 ''INBOX''))
   \<and> watch_run chrono_0_4 w1 [NextPush 1, Suspend, Resume 2, NextPush 3] = Some (w2, out)
   \<and> (\<forall>s\<in>set out. step_mailbox s \<noteq> Some 1)"
proof -
  let ?t = "\<lparr>t_path = ''INBOX'', t_attention = Push, t_due_at = min_utc chrono_0_4, t_verified_at = None,
     t_signature = None, t_in_flight = Some 0\<rparr>"
  let ?w = "\<lparr>w_policy = watch_default, w_can_idle = False, w_targets = [(1, ?t)], w_pushed = Some 1,
     w_suspended = False, w_next_token = 1, w_cancelled = []\<rparr>"
  have st: "watch_step chrono_0_4 (w_watch chrono_0_4 (watcher_new watch_default caps_new) 1 ''INBOX'' Push) (NextPush 0)
       = Some (?w, Some (WatchPoll 1 ''INBOX''))"
    by (simp add: watch_step_def next_push_def w_step_def w_watch_def watcher_new_def al_put_def al_modify_def
        caps_contains_def caps_new_def watch_default_def Let_def chrono_0_4_def)
  obtain w2 out where r: "watch_run chrono_0_4 ?w [NextPush 1, Suspend, Resume 2, NextPush 3] = Some (w2, out)"
    by (simp add: watch_step_def next_push_def w_step_def w_suspend_def w_resume_def al_map_def
        watch_default_def Let_def chrono_0_4_def)
  have "\<forall>s\<in>set out. step_mailbox s \<noteq> Some 1"
    by (rule watch_one_command_per_mailbox [OF st _ _ r]) simp_all
  with st r show ?thesis by blast
qed



subsection \<open>The rotation\<close>

definition eligible :: "watcher \<Rightarrow> mailbox_id \<times> target \<Rightarrow> bool" where
  "eligible w e \<longleftrightarrow> w_pushed w \<noteq> Some (fst e) \<and> t_in_flight (snd e) = None"

definition rank_of :: "mailbox_id \<times> target \<Rightarrow> int \<times> mailbox_id" where
  "rank_of e = (t_due_at (snd e), fst e)"

text \<open>What the scan of a prefix has found: the least entry that is due, the soonest that is not.\<close>

definition due_scanned :: "watcher \<Rightarrow> int \<Rightarrow> (mailbox_id \<times> target) list \<Rightarrow> mailbox_id option \<Rightarrow> bool" where
  "due_scanned w now xs d \<longleftrightarrow>
     (case d of
        None \<Rightarrow> \<forall>e\<in>set xs. eligible w e \<longrightarrow> now < t_due_at (snd e)
      | Some i \<Rightarrow> \<exists>t. (i, t) \<in> set xs \<and> eligible w (i, t) \<and> t_due_at t \<le> now
          \<and> (\<forall>e\<in>set xs. eligible w e \<longrightarrow> rank_of (i, t) \<le> rank_of e))"

definition next_scanned :: "watcher \<Rightarrow> int \<Rightarrow> (mailbox_id \<times> target) list \<Rightarrow> int option \<Rightarrow> bool" where
  "next_scanned w now xs n \<longleftrightarrow>
     (case n of
        None \<Rightarrow> \<forall>e\<in>set xs. eligible w e \<longrightarrow> t_due_at (snd e) \<le> now
      | Some at \<Rightarrow> now < at \<and> (\<exists>e\<in>set xs. eligible w e \<and> t_due_at (snd e) = at)
          \<and> (\<forall>e\<in>set xs. eligible w e \<and> now < t_due_at (snd e) \<longrightarrow> at \<le> t_due_at (snd e)))"

definition scanned :: "watcher \<Rightarrow> int \<Rightarrow> (mailbox_id \<times> target) list \<Rightarrow> mailbox_id option \<times> int option \<Rightarrow> bool" where
  "scanned w now xs r \<longleftrightarrow> due_scanned w now xs (fst r) \<and> next_scanned w now xs (snd r)"

lemma scanned_step:
  assumes d: "distinct (map fst (w_targets w))" and sub: "set xs \<subseteq> set (w_targets w)"
    and r: "scanned w now xs r"
  shows "scanned w now (xs @ [e]) (poll_scan w now r e)"
proof -
  obtain i t where e: "e = (i, t)" by (cases e)
  obtain due nxt where rr: "r = (due, nxt)" by (cases r)
  have du: "due_scanned w now xs due" and nx: "next_scanned w now xs nxt"
    using r by (simp_all add: scanned_def rr)
  show ?thesis
  proof (cases "eligible w e")
    case False
    then have ps: "poll_scan w now r e = r" by (auto simp: poll_scan_def eligible_def e rr)
    have "due_scanned w now (xs @ [e]) due"
      using du False by (cases due) (auto simp: due_scanned_def)
    moreover have "next_scanned w now (xs @ [e]) nxt"
      using nx False by (cases nxt) (auto simp: next_scanned_def)
    ultimately show ?thesis unfolding ps by (simp add: scanned_def rr)
  next
    case el: True
    show ?thesis
    proof (cases "t_due_at t \<le> now")
      case ready: True
      have nx': "next_scanned w now (xs @ [e]) nxt"
        using nx ready by (cases nxt) (auto simp: next_scanned_def e)
      show ?thesis
      proof (cases due)
        case None
        then have ps: "poll_scan w now r e = (Some i, nxt)"
          using el ready by (simp add: poll_scan_def eligible_def e rr)
        have "rank_of (i, t) \<le> rank_of x" if "x \<in> set xs" "eligible w x" for x
          using du that ready by (fastforce simp: due_scanned_def None rank_of_def less_eq_prod_def)
        then have "due_scanned w now (xs @ [e]) (Some i)"
          using el ready by (auto simp: due_scanned_def e)
        with nx' show ?thesis unfolding ps by (simp add: scanned_def)
      next
        case (Some j)
        then obtain u where u: "(j, u) \<in> set xs" "eligible w (j, u)" "t_due_at u \<le> now"
          "\<forall>x\<in>set xs. eligible w x \<longrightarrow> rank_of (j, u) \<le> rank_of x"
          using du by (auto simp: due_scanned_def)
        have "map_of (w_targets w) j = Some u" using d sub u(1) by (auto intro: map_of_is_SomeI)
        then have ps: "poll_scan w now r e = (if rank_of (i, t) < rank_of (j, u) then Some i else Some j, nxt)"
          using el ready by (simp add: poll_scan_def eligible_def e rr Some rank_of_def)
        have "due_scanned w now (xs @ [e]) (if rank_of (i, t) < rank_of (j, u) then Some i else Some j)"
        proof (cases "rank_of (i, t) < rank_of (j, u)")
          case True
          then have "\<forall>x\<in>set xs. eligible w x \<longrightarrow> rank_of (i, t) \<le> rank_of x"
            using u(4) by (meson less_imp_le order_trans)
          then show ?thesis using True el ready by (auto simp: due_scanned_def e)
        next
          case False
          then have "rank_of (j, u) \<le> rank_of (i, t)" by simp
          then show ?thesis using False u by (auto simp: due_scanned_def e)
        qed
        with nx' show ?thesis unfolding ps by (simp add: scanned_def)
      qed
    next
      case late: False
      have ps: "poll_scan w now r e =
          (due, (case nxt of None \<Rightarrow> Some (t_due_at t)
             | Some at \<Rightarrow> if t_due_at t < at then Some (t_due_at t) else Some at))"
        using el late by (auto simp: poll_scan_def eligible_def e rr split: option.splits)
      have "rank_of (j, u) \<le> rank_of e" if "t_due_at u \<le> now" for j u
        using late that by (simp add: rank_of_def e less_eq_prod_def)
      then have du': "due_scanned w now (xs @ [e]) due"
        using du late by (cases due) (auto simp: due_scanned_def e)
      have nx': "next_scanned w now (xs @ [e]) (Some (t_due_at t))" if "nxt = None"
        using nx late el that by (force simp: next_scanned_def e)
      have nx'': "next_scanned w now (xs @ [e]) (if t_due_at t < at then Some (t_due_at t) else Some at)"
        if "nxt = Some at" for at
        using nx late el that by (auto simp: next_scanned_def e)
      show ?thesis
        unfolding ps using du' nx' nx'' by (cases nxt) (simp_all add: scanned_def)
    qed
  qed
qed

lemma scanned_all:
  assumes "distinct (map fst (w_targets w))"
  shows "scanned w now (w_targets w) (foldl (poll_scan w now) (None, None) (w_targets w))"
proof -
  have "set xs \<subseteq> set (w_targets w) \<Longrightarrow> scanned w now xs (foldl (poll_scan w now) (None, None) xs)" for xs
  proof (induction xs rule: rev_induct)
    case (snoc e xs)
    then show ?case using scanned_step [OF assms, of xs now _ e] by simp
  qed (simp add: scanned_def due_scanned_def next_scanned_def)
  then show ?thesis by simp
qed


lemma due_unique:
  assumes "due_scanned w now xs d" "due_scanned w now ys d'" "set xs = set ys"
  shows "d = d'"
proof (cases d)
  case None
  then show ?thesis
    using assms by (cases d') (fastforce simp: due_scanned_def)+
next
  case (Some i)
  then obtain t where t: "(i, t) \<in> set xs" "eligible w (i, t)" "t_due_at t \<le> now"
      "\<forall>e\<in>set xs. eligible w e \<longrightarrow> rank_of (i, t) \<le> rank_of e"
    using assms(1) by (auto simp: due_scanned_def)
  then obtain j where "d' = Some j" using assms(2,3) by (cases d') (fastforce simp: due_scanned_def)+
  then obtain u where u: "(j, u) \<in> set xs" "eligible w (j, u)"
      "\<forall>e\<in>set xs. eligible w e \<longrightarrow> rank_of (j, u) \<le> rank_of e"
    using assms(2,3) by (auto simp: due_scanned_def)
  have "rank_of (i, t) = rank_of (j, u)" using t u by (simp add: antisym)
  then show ?thesis using Some \<open>d' = Some j\<close> by (simp add: rank_of_def)
qed

lemma next_unique:
  assumes "next_scanned w now xs n" "next_scanned w now ys n'" "set xs = set ys"
  shows "n = n'"
proof (cases n)
  case None
  show ?thesis
  proof (cases n')
    case (Some b)
    then obtain e where "e \<in> set ys" "eligible w e" "now < t_due_at (snd e)"
      using assms(2) unfolding Some next_scanned_def option.case by auto
    then show ?thesis using None assms(1,3) by (auto simp: next_scanned_def)
  qed (simp add: None)
next
  case (Some a)
  obtain b where "n' = Some b"
  proof (cases n')
    case None
    obtain e where "e \<in> set xs" "eligible w e" "now < t_due_at (snd e)"
      using assms(1) unfolding Some next_scanned_def option.case by auto
    then show ?thesis using None assms(2,3) by (auto simp: next_scanned_def)
  qed
  have le: "y \<le> x" if n: "next_scanned w now as (Some x)" "next_scanned w now bs (Some y)" "set as = set bs"
    for x y as bs
  proof -
    obtain e where "e \<in> set as" "eligible w e" "t_due_at (snd e) = x" "now < x"
      using n(1) unfolding next_scanned_def option.case by blast
    then show ?thesis using n(2,3) by (auto simp: next_scanned_def)
  qed
  have "a = b"
    using le [of xs a ys b] le [of ys b xs a] assms Some \<open>n' = Some b\<close> by (simp add: antisym)
  then show ?thesis using Some \<open>n' = Some b\<close> by simp
qed

lemma same_scan:
  assumes "distinct (map fst (w_targets w))" "distinct (map fst xs)" "set xs = set (w_targets w)"
  shows "foldl (poll_scan (w\<lparr>w_targets := xs\<rparr>) now) (None, None) xs
       = foldl (poll_scan w now) (None, None) (w_targets w)"
proof -
  let ?v = "w\<lparr>w_targets := xs\<rparr>"
  have el: "eligible ?v = eligible w" by (simp add: eligible_def fun_eq_iff)
  have "scanned ?v now xs (foldl (poll_scan ?v now) (None, None) xs)"
    using scanned_all [of ?v now] assms(2) by simp
  then have "scanned w now xs (foldl (poll_scan ?v now) (None, None) xs)"
    unfolding scanned_def due_scanned_def next_scanned_def el .
  with scanned_all [OF assms(1), of now] assms(3) show ?thesis
    by (intro prod_eqI) (auto simp: scanned_def intro: due_unique next_unique)
qed


subsection \<open>Properties of the lanes\<close>

lemma poll_order_irrelevant:
  assumes "distinct (map fst (w_targets w))" "distinct (map fst xs)" "set xs = set (w_targets w)"
  shows "snd (next_poll L (w\<lparr>w_targets := xs\<rparr>) now) = snd (next_poll L w now)"
proof -
  have m: "map_of xs = map_of (w_targets w)" using assms by (metis map_of_inject_set)
  have "snd (w_step L (w\<lparr>w_targets := xs\<rparr>) j now) = snd (w_step L w j now)" for j
    by (auto simp: w_step_def m Let_def split: option.splits)
  then show ?thesis
    using same_scan [OF assms(1), of xs now] assms(2,3) by (auto simp: next_poll_def split: option.splits prod.splits)
qed

text \<open>What the shared connection may check: a mailbox that is not the pushed one and is not being checked.\<close>

definition may_poll :: "watcher \<Rightarrow> mailbox_id \<Rightarrow> target \<Rightarrow> bool" where
  "may_poll w j u \<longleftrightarrow> tgt w j = Some u \<and> w_pushed w \<noteq> Some j \<and> t_in_flight u = None"

text \<open>
  C31: The shared connection's rotation is fair and deterministic.  While the watcher is
  suspended or the policy is manual \<open>next_poll\<close> hands out nothing and names no instant.
  Otherwise it never idles and never offers the pushed mailbox or one being checked; it
  hands out, of the mailboxes it may check, the one that has been due longest (ties by id),
  if one is due.  When none is, it answers \<open>Wait\<close> with exactly the soonest instant one of
  them will be, which lies in the future, or with none if there is no such mailbox, and the
  watcher is as it was.  The answer does not depend on the hash order of the targets.
\<close>

theorem watch_poll_rotation:
  assumes "watch_wf w"
  shows "(if w_suspended w \<or> wp_manual (w_policy w) then next_poll L w now = (w, WatchWait None)
     else case snd (next_poll L w now) of
       WatchIdle _ _ _ _ \<Rightarrow> False
     | WatchPoll m p \<Rightarrow> (\<exists>t. may_poll w m t \<and> t_path t = p \<and> t_due_at t \<le> now
          \<and> (\<forall>j u. may_poll w j u \<longrightarrow> (t_due_at t, m) \<le> (t_due_at u, j)))
     | WatchWait n \<Rightarrow> fst (next_poll L w now) = w
          \<and> (case n of
               None \<Rightarrow> \<forall>j u. \<not> may_poll w j u
             | Some soonest \<Rightarrow> now < soonest \<and> (\<exists>j u. may_poll w j u \<and> t_due_at u = soonest)
                 \<and> (\<forall>j u. may_poll w j u \<longrightarrow> soonest \<le> t_due_at u)))
   \<and> (distinct (map fst xs) \<and> set xs = set (w_targets w) \<longrightarrow>
        snd (next_poll L (w\<lparr>w_targets := xs\<rparr>) now) = snd (next_poll L w now))"
proof (rule conjI)
  have d: "distinct (map fst (w_targets w))" using assms by (simp add: watch_wf_def)
  have mem: "(j, u) \<in> set (w_targets w) \<and> eligible w (j, u) \<longleftrightarrow> may_poll w j u" for j u
    using d by (auto simp: tgt_def eligible_def may_poll_def dest: map_of_SomeD)
  show "if w_suspended w \<or> wp_manual (w_policy w) then next_poll L w now = (w, WatchWait None)
     else case snd (next_poll L w now) of
       WatchIdle _ _ _ _ \<Rightarrow> False
     | WatchPoll m p \<Rightarrow> (\<exists>t. may_poll w m t \<and> t_path t = p \<and> t_due_at t \<le> now
          \<and> (\<forall>j u. may_poll w j u \<longrightarrow> (t_due_at t, m) \<le> (t_due_at u, j)))
     | WatchWait n \<Rightarrow> fst (next_poll L w now) = w
          \<and> (case n of
               None \<Rightarrow> \<forall>j u. \<not> may_poll w j u
             | Some soonest \<Rightarrow> now < soonest \<and> (\<exists>j u. may_poll w j u \<and> t_due_at u = soonest)
                 \<and> (\<forall>j u. may_poll w j u \<longrightarrow> soonest \<le> t_due_at u))"
  proof (cases "w_suspended w \<or> wp_manual (w_policy w)")
    case False
    obtain due nxt where f: "foldl (poll_scan w now) (None, None) (w_targets w) = (due, nxt)" by force
    have du: "due_scanned w now (w_targets w) due" and nx: "next_scanned w now (w_targets w) nxt"
      using scanned_all [OF d, of now] f by (simp_all add: scanned_def)
    have np: "next_poll L w now = (case due of Some m \<Rightarrow> w_step L w m now | None \<Rightarrow> (w, WatchWait nxt))"
      using False f by (simp add: next_poll_def split: option.splits)
    show ?thesis
    proof (cases due)
      case None
      have late: "now < t_due_at u" if "may_poll w j u" for j u
        using du that mem [of j u] by (fastforce simp: due_scanned_def None)
      have "case nxt of
               None \<Rightarrow> \<forall>j u. \<not> may_poll w j u
             | Some soonest \<Rightarrow> now < soonest \<and> (\<exists>j u. may_poll w j u \<and> t_due_at u = soonest)
                 \<and> (\<forall>j u. may_poll w j u \<longrightarrow> soonest \<le> t_due_at u)"
      proof (cases nxt)
        case none: None
        have "\<not> may_poll w j u" for j u
          using nx late [of j u] mem [of j u] by (fastforce simp: next_scanned_def none)
        with none show ?thesis by simp
      next
        case (Some soonest)
        with nx obtain e where e: "now < soonest" "e \<in> set (w_targets w)" "eligible w e" "t_due_at (snd e) = soonest"
          "\<And>e'. e' \<in> set (w_targets w) \<Longrightarrow> eligible w e' \<Longrightarrow> now < t_due_at (snd e') \<Longrightarrow> soonest \<le> t_due_at (snd e')"
          by (auto simp: next_scanned_def)
        have "may_poll w (fst e) (snd e)" using e(2,3) mem [of "fst e" "snd e"] by simp
        moreover have "soonest \<le> t_due_at u" if "may_poll w j u" for j u
          using e(5) [of "(j, u)"] late [OF that] that mem [of j u] by simp
        ultimately show ?thesis using Some e(1,4) by auto
      qed
      with False show ?thesis by (simp add: np None)
    next
      case (Some m)
      then obtain t where t: "(m, t) \<in> set (w_targets w)" "eligible w (m, t)" "t_due_at t \<le> now"
          "\<forall>e\<in>set (w_targets w). eligible w e \<longrightarrow> rank_of (m, t) \<le> rank_of e"
        using du by (auto simp: due_scanned_def)
      have mp: "may_poll w m t" using t(1,2) mem [of m t] by simp
      have le: "(t_due_at t, m) \<le> (t_due_at u, j)" if "may_poll w j u" for j u
        using t(4) that mem [of j u] by (fastforce simp: rank_of_def)
      have "snd (next_poll L w now) = WatchPoll m (t_path t)"
        using t(3) mp False by (simp add: np Some w_step_def tgt_def may_poll_def Let_def)
      then show ?thesis using False t(3) mp le by auto
    qed
  qed (simp add: next_poll_def)
  show "distinct (map fst xs) \<and> set xs = set (w_targets w) \<longrightarrow>
        snd (next_poll L (w\<lparr>w_targets := xs\<rparr>) now) = snd (next_poll L w now)"
    using poll_order_irrelevant [OF d] by blast
qed

theorem watch_poll_rotation_witness:
  "snd (next_poll chrono_0_4 (w_watch chrono_0_4 (watcher_new watch_default caps_new) 4 ''Lists'' Poll) 0)
     = WatchPoll 4 ''Lists''
   \<and> w_pushed (w_watch chrono_0_4 (watcher_new watch_default caps_new) 4 ''Lists'' Poll) \<noteq> Some 4"
proof -
  let ?w = "w_watch chrono_0_4 (watcher_new watch_default caps_new) 4 ''Lists'' Poll"
  have "watch_wf ?w" by (rule wf_watch [OF watcher_new_wf])
  moreover have "\<not> w_suspended ?w" "\<not> wp_manual (w_policy ?w)"
    by (simp_all add: w_watch_def watcher_new_def watch_default_def Let_def)
  moreover have "snd (next_poll chrono_0_4 ?w 0) = WatchPoll 4 ''Lists''"
    by (simp add: next_poll_def w_watch_def watcher_new_def watch_default_def Let_def al_put_def
        poll_scan_def w_step_def chrono_0_4_def)
  ultimately show ?thesis using watch_poll_rotation [where w = ?w and L = chrono_0_4 and now = 0]
    by (auto simp: may_poll_def)
qed

end
