(* ===== verification/Watch_Reports.thy ===== *)
theory Watch_Reports
  imports Watch_Props
begin

section \<open>Noticing that mail arrived: reports, suspension and the deaf connection\<close>

text \<open>
  What a report means (\<open>observed\<close>, \<open>woke\<close>), what suspending guarantees, how long a
  connection that has gone deaf can hide mail, and the intervals that make the watcher
  panic.
\<close>

subsection \<open>Suspension\<close>

fun is_resume :: "watch_event \<Rightarrow> bool" where
  "is_resume (Resume _) = True"
| "is_resume _ = False"

lemma keeps_suspended:
  assumes "watch_step L w ev = Some (w', r)" "w_suspended w" "\<not> is_resume ev"
  shows "w_suspended w'"
proof (cases "\<exists>s. r = Some s")
  case True
  then obtain s where "r = Some s" ..
  with event_is_step [of L w ev w' s] assms(1)
  consider j now where "w_step L w j now = (w', s)" | "w' = w" by auto
  then show ?thesis
  proof cases
    case 1
    then show ?thesis using assms(2) by (simp add: w_step_def)
  qed (use assms(2) in simp)
next
  case False
  with assms show ?thesis
    by (cases ev) (auto simp: watch_step_def watch_fields w_forget_def cancel_token_def set_capabilities_def
        w_woke_def w_observed_def w_failed_def w_interrupted_def w_unverified_def w_suspend_def Let_def
        split: option.splits prod.splits)
qed

lemma suspended_hands_out_nothing:
  assumes "w_suspended w" "\<forall>ev\<in>set evs. \<not> is_resume ev" "watch_run L w evs = Some (w', out)"
  shows "\<forall>s\<in>set out. step_mailbox s = None"
  using assms
proof (induction evs arbitrary: w out)
  case (Cons ev evs)
  then obtain v r out' where v: "watch_step L w ev = Some (v, r)" "watch_run L v evs = Some (w', out')"
    and o: "out = (case r of None \<Rightarrow> out' | Some s \<Rightarrow> s # out')"
    by (auto split: option.splits prod.splits)
  have "w_suspended v" using keeps_suspended [OF v(1) Cons.prems(1)] Cons.prems(2) by simp
  from Cons.IH [OF this _ v(2)] Cons.prems(2) have "\<forall>s\<in>set out'. step_mailbox s = None" by simp
  moreover have "step_mailbox s = None" if "r = Some s" for s
    using hands_out_free [of L w ev v s] v(1) that Cons.prems(1) by (cases "step_mailbox s") auto
  ultimately show ?case using o by (auto split: option.splits)
qed simp

text \<open>
  Suspending cancels every outstanding command, and from then on nothing is handed out,
  whatever is registered, reported or asked for, until the watcher is resumed; resuming
  makes every mailbox due at once and unverified, so the first step for each is a
  \<open>STATUS\<close> rather than another \<open>IDLE\<close>.
\<close>

theorem watch_suspension:
  assumes "watch_wf w" "\<forall>ev\<in>set evs. \<not> is_resume ev" "watch_run L (w_suspend w) evs = Some (w', out)"
  shows "(\<forall>m k. flying w m = Some k \<longrightarrow> k \<in> set (w_cancelled (w_suspend w)))
     \<and> (\<forall>s\<in>set out. step_mailbox s = None)
     \<and> (\<forall>m t. tgt (w_resume w' now) m = Some t \<longrightarrow> t_due_at t = now \<and> wants_verifying L t now i)"
proof -
  have "k \<in> set (w_cancelled (w_suspend w))" if "flying w m = Some k" for m k
    using assms(1) that outstanding_flying [of w k] by (auto simp: watch_wf_def w_suspend_def)
  moreover have "\<forall>s\<in>set out. step_mailbox s = None"
    using suspended_hands_out_nothing [OF _ assms(2,3)] by (simp add: w_suspend_def)
  ultimately show ?thesis
    by (auto simp: w_resume_def tgt_def wants_verifying_def)
qed

theorem watch_suspension_witness:
  "\<exists>w' out. watch_run chrono_0_4 (w_suspend (watcher_new watch_default caps_new))
       [Register 1 ''INBOX'' Push, NextPush 5, NextPoll 6] = Some (w', out)
     \<and> (\<forall>s\<in>set out. step_mailbox s = None)"
proof -
  obtain w' out where r: "watch_run chrono_0_4 (w_suspend (watcher_new watch_default caps_new))
       [Register 1 ''INBOX'' Push, NextPush 5, NextPoll 6] = Some (w', out)"
    by (simp add: watch_step_def w_watch_def w_suspend_def watcher_new_def next_push_def next_poll_def
        w_step_def Let_def outstanding_def)
  show ?thesis using watch_suspension [OF watcher_new_wf _ r] r by auto
qed


subsection \<open>What a report means\<close>

text \<open>
  A \<open>STATUS\<close> answer means change exactly when the mailbox's own counters differ from the
  last answer: session fields (read-only, permanent flags) never matter, the first answer
  and the first after an event is always a change, any pushed event is a change and a
  quiet expiry is not; and every report releases the mailbox.
\<close>

theorem watch_report_means_change:
  assumes "w_observed L w m st now = Some (w1, k1)" "tgt w m \<noteq> None"
  shows "(k1 = Changed \<longleftrightarrow> (\<forall>t. tgt w m = Some t \<longrightarrow> t_signature t \<noteq> Some (signature_of st)))
     \<and> flying w1 m = None
     \<and> (\<forall>st' now' w2 k2. w_observed L w1 m st' now' = Some (w2, k2) \<longrightarrow>
          (k2 = Changed \<longleftrightarrow> signature_of st \<noteq> signature_of st'))
     \<and> (\<forall>es now'. snd (w_woke w1 m es now') = (if es = [] then Quiet else Changed)
          \<and> (\<forall>st' now'' w2 k2. es \<noteq> [] \<and> w_observed L (fst (w_woke w1 m es now')) m st' now'' = Some (w2, k2)
               \<longrightarrow> k2 = Changed))"
proof -
  obtain t where t: "map_of (w_targets w) m = Some t" using assms(2) by (auto simp: tgt_def)
  obtain due where w1: "w1 = w\<lparr>w_targets := al_put m
       (t\<lparr>t_in_flight := None, t_verified_at := Some now, t_signature := Some (signature_of st),
          t_due_at := due\<rparr>) (w_targets w)\<rparr>"
    and k1: "k1 = (if t_signature t \<noteq> Some (signature_of st) then Changed else Quiet)"
    using assms(1) t by (auto simp: w_observed_def Let_def split: option.splits)
  have m1: "map_of (w_targets w1) m = Some (t\<lparr>t_in_flight := None, t_verified_at := Some now,
      t_signature := Some (signature_of st), t_due_at := due\<rparr>)"
    by (simp add: w1)
  show ?thesis
    using k1 t m1
    by (auto simp: w_observed_def w_woke_def tgt_def flying_def Let_def split: option.splits if_splits)
qed

definition demo_status :: "nat \<Rightarrow> bool \<Rightarrow> server_status" where
  "demo_status n ro = \<lparr>st_path = ''INBOX'', st_generation = 7, st_uid_next = n, st_exists = n, st_unseen = None,
     st_highest_mod_seq = None, st_permanent_flags = [], st_can_create_keywords = True, st_read_only = ro\<rparr>"

theorem watch_report_means_change_witness:
  "\<exists>w1 w2. w_observed chrono_0_4 (w_watch chrono_0_4 (watcher_new watch_default caps_new) 1 ''INBOX'' Push) 1
       (demo_status 4 False) 0 = Some (w1, Changed)
     \<and> w_observed chrono_0_4 w1 1 (demo_status 4 True) 9 = Some (w2, Quiet)"
proof -
  let ?w = "w_watch chrono_0_4 (watcher_new watch_default caps_new) 1 ''INBOX'' Push"
  have t: "tgt ?w 1 \<noteq> None" by (simp add: tgt_watch)
  obtain w1 k1 where o: "w_observed chrono_0_4 ?w 1 (demo_status 4 False) 0 = Some (w1, k1)"
    by (simp add: w_observed_def w_watch_def watcher_new_def al_put_def Let_def watch_default_def dt_add_def
        delta_or_max_def delta_from_std_def in_range_def chrono_0_4_def secs_def nanos_per_sec_def
        caps_contains_def caps_new_def)
  have "t_signature u = None" if "tgt ?w 1 = Some u" for u
    using that unfolding tgt_watch by (auto simp: registered_def tgt_def watcher_new_def)
  then have k1: "k1 = Changed"
    using watch_report_means_change [OF o t] by fastforce
  have p: "w_targets w1 = [(1, (the (map_of (w_targets w1) 1)))]" "w_can_idle w1 = False" "w_policy w1 = watch_default"
    using o by (auto simp: w_observed_def w_watch_def watcher_new_def al_put_def al_modify_def Let_def
        caps_contains_def caps_new_def split: option.splits)
  obtain w2 k2 where o2: "w_observed chrono_0_4 w1 1 (demo_status 4 True) 9 = Some (w2, k2)"
    using p by (cases "map_of (w_targets w1) 1") (auto simp: w_observed_def Let_def watch_default_def dt_add_def
        delta_or_max_def delta_from_std_def in_range_def chrono_0_4_def secs_def nanos_per_sec_def)
  have "signature_of (demo_status 4 False) = signature_of (demo_status 4 True)"
    by (simp add: signature_of_def demo_status_def)
  then have "k2 \<noteq> Changed" using watch_report_means_change [OF o t] o2 by blast
  then show ?thesis using o o2 k1 by (cases k2) auto
qed



subsection \<open>The deaf connection\<close>

text \<open>
  The floor under a deaf connection: a quiet expiry of \<open>IDLE\<close> is not evidence.  It
  re-arms the mailbox at once, and as soon as the last real answer is a poll interval old
  the next step on the dedicated connection is a \<open>STATUS\<close>, not another \<open>IDLE\<close>; an
  \<open>IDLE\<close> is only ever handed out on a verification younger than that.
\<close>

theorem watch_deaf_floor:
  assumes "chrono_ok L" "int (wp_poll_interval (w_policy w)) \<le> delta_max L"
    and "tgt w m = Some t" "w_pushed w = Some m" "\<not> w_suspended w" "\<not> wp_manual (w_policy w)"
  shows "snd (next_push L (fst (w_woke w m [] now)) now) =
     (if w_can_idle w \<and> (\<exists>v. t_verified_at t = Some v \<and> now - v < int (wp_poll_interval (w_policy w)))
      then WatchIdle m (t_path t) (idle_timeout (w_policy w)) (w_next_token w)
      else WatchPoll m (t_path t))"
proof -
  have d: "delta_or_max L (wp_poll_interval (w_policy w)) = int (wp_poll_interval (w_policy w))"
    using assms(1,2) by (simp add: delta_or_max_le)
  show ?thesis
    using assms(3-6)
    by (auto simp: w_woke_def tgt_def next_push_def w_step_def wants_verifying_def d Let_def split: option.splits)
qed

definition idling_watcher :: "int \<Rightarrow> watcher" where
  "idling_watcher v = \<lparr>w_policy = watch_default, w_can_idle = True,
     w_targets = [(1, \<lparr>t_path = ''INBOX'', t_attention = Push, t_due_at = v, t_verified_at = Some v,
                       t_signature = None, t_in_flight = Some 0\<rparr>)],
     w_pushed = Some 1, w_suspended = False, w_next_token = 1, w_cancelled = []\<rparr>"

lemma idling_watcher_ok:
  "int (wp_poll_interval (w_policy (idling_watcher v))) \<le> delta_max chrono_0_4"
  "tgt (idling_watcher v) 1 = Some \<lparr>t_path = ''INBOX'', t_attention = Push, t_due_at = v,
     t_verified_at = Some v, t_signature = None, t_in_flight = Some 0\<rparr>"
  "w_pushed (idling_watcher v) = Some 1" "\<not> w_suspended (idling_watcher v)"
  "\<not> wp_manual (w_policy (idling_watcher v))"
  by (simp_all add: idling_watcher_def tgt_def watch_default_def chrono_0_4_def secs_def nanos_per_sec_def)

theorem watch_deaf_floor_witness:
  "snd (next_push chrono_0_4 (fst (w_woke (idling_watcher 0) 1 [] (int (secs 540)))) (int (secs 540)))
     = WatchPoll 1 ''INBOX''"
  using watch_deaf_floor [OF chrono_0_4_ok idling_watcher_ok, of 0 "int (secs 540)"]
  by (simp add: idling_watcher_def watch_default_def secs_def nanos_per_sec_def)

text \<open>
  With the shipped policy that floor is not one poll interval: an \<open>IDLE\<close> handed out
  while the last answer is still fresh is held for \<open>idle_refresh\<close>, nine minutes, so on a
  deaf connection the next \<open>STATUS\<close> can come up to \<open>poll_interval + idle_refresh\<close> (not
  \<open>poll_interval\<close>) after the last one, and no step is due in between.
\<close>

theorem watch_deaf_window_exceeds_interval:
  "\<exists>k. snd (next_push chrono_0_4 (fst (w_woke (idling_watcher v) 1 [] (v + int (secs 299)))) (v + int (secs 299)))
        = WatchIdle 1 ''INBOX'' (secs 540) k
     \<and> wp_poll_interval watch_default = secs 300
     \<and> (\<forall>u. snd (next_push chrono_0_4
          (fst (next_push chrono_0_4 (fst (w_woke (idling_watcher v) 1 [] (v + int (secs 299)))) (v + int (secs 299)))) u)
          = WatchWait None)"
  by (simp add: idling_watcher_def w_woke_def next_push_def w_step_def wants_verifying_def delta_or_max_def
      delta_from_std_def watch_default_def idle_timeout_def rfc2177_max_idle_def chrono_0_4_def
      al_put_def al_modify_def secs_def nanos_per_sec_def Let_def)


subsection \<open>Intervals nobody could mean\<close>

text \<open>
  The conversion of the poll interval saturates, but the addition it feeds does not: once
  \<open>now + poll_interval\<close> is past the end of the calendar, reporting a \<open>STATUS\<close> of a
  polled mailbox, or any failure, panics; below that neither ever does.
\<close>

theorem watch_interval_panics:
  assumes "chrono_ok L" "in_range L now" "tgt w m \<noteq> None" "\<not> (w_can_idle w \<and> w_pushed w = Some m)"
  shows "(w_observed L w m st now = None \<longleftrightarrow> max_utc L < now + int (wp_poll_interval (w_policy w)))
     \<and> (w_failed L w m now = None \<longleftrightarrow> max_utc L < now + int (wp_poll_interval (w_policy w)))"
proof -
  have a: "dt_add L now (delta_or_max L (wp_poll_interval (w_policy w))) = None
      \<longleftrightarrow> max_utc L < now + int (wp_poll_interval (w_policy w))"
    using assms(1,2)
    by (auto simp: dt_add_def delta_or_max_le in_range_def chrono_ok_def min_def)
  show ?thesis
    using assms(3,4) a by (auto simp: w_observed_def w_failed_def tgt_def Let_def split: option.splits)
qed

theorem watch_interval_panics_witness:
  "w_failed chrono_0_4
     ((w_watch chrono_0_4 (watcher_new watch_default caps_new) 4 ''Lists'' Poll)
        \<lparr>w_policy := watch_default\<lparr>wp_poll_interval := secs (10 ^ 15)\<rparr>\<rparr>) 4 0 = None"
proof -
  let ?w = "(w_watch chrono_0_4 (watcher_new watch_default caps_new) 4 ''Lists'' Poll)
        \<lparr>w_policy := watch_default\<lparr>wp_poll_interval := secs (10 ^ 15)\<rparr>\<rparr>"
  have r: "in_range chrono_0_4 0" by (simp add: in_range_def chrono_0_4_def)
  have t: "tgt ?w 4 \<noteq> None" using tgt_watch [of chrono_0_4 "watcher_new watch_default caps_new" 4 "''Lists''" Poll 4]
    by (simp add: tgt_def)
  have i: "\<not> (w_can_idle ?w \<and> w_pushed ?w = Some 4)" by (simp add: watch_fields watcher_new_def)
  have "max_utc chrono_0_4 < 0 + int (wp_poll_interval (w_policy ?w))"
    by (simp add: chrono_0_4_def secs_def nanos_per_sec_def)
  with watch_interval_panics [OF chrono_0_4_ok r t i] show ?thesis by blast
qed

end
