(* ===== verification/Uid_Set.thy ===== *)
theory Uid_Set
  imports Prelude
begin

section \<open>Sets of UIDs\<close>

text \<open>
  \<open>crates/postio-account/src/backend/uid_set.rs\<close>: a set of message UIDs kept as
  sorted, coalesced ranges, and its split into fetch-sized chunks.  A UID is a
  \<open>u32\<close>, a natural number up to \<open>STAR\<close> here; the \<open>u64\<close> arithmetic of
  \<open>chunks\<close> stays far below its width.  The inner loop of \<open>chunks\<close> would not end with
  no room left, so it is a \<open>partial_function\<close>, and that it always returns is proved.
\<close>

type_synonym uid = nat
type_synonym ranges = "(nat \<times> nat) list"

definition STAR :: uid where "STAR = u32_max"

definition norm_push :: "ranges \<Rightarrow> nat \<times> nat \<Rightarrow> ranges" where
  "norm_push merged r =
     (if merged = [] then [r]
      else (let (a, b) = last merged in
            if fst r \<le> sat_add32 b 1 then butlast merged @ [(a, max b (snd r))]
            else merged @ [r]))"

definition normalize :: "ranges \<Rightarrow> ranges" where
  "normalize rs = foldl norm_push [] (sort rs)"

definition uset_new :: ranges where "uset_new = []"

definition uset_insert_range :: "ranges \<Rightarrow> uid \<Rightarrow> uid \<Rightarrow> ranges" where
  "uset_insert_range rs a b =
     (let (low, high) = (if a \<le> b then (a, b) else (b, a));
          low = max low 1
      in if high < 1 then rs else normalize (rs @ [(low, high)]))"

definition uset_insert :: "ranges \<Rightarrow> uid \<Rightarrow> ranges" where
  "uset_insert rs u = uset_insert_range rs u u"

definition uset_single :: "uid \<Rightarrow> ranges" where
  "uset_single u = uset_insert uset_new u"

definition uset_range :: "uid \<Rightarrow> uid \<Rightarrow> ranges" where
  "uset_range a b = uset_insert_range uset_new a b"

definition uset_from_uid_onwards :: "uid \<Rightarrow> ranges" where
  "uset_from_uid_onwards u = uset_range u STAR"

definition uset_all :: ranges where
  "uset_all = uset_from_uid_onwards 1"

definition uset_is_open_ended :: "ranges \<Rightarrow> bool" where
  "uset_is_open_ended rs \<longleftrightarrow> rs \<noteq> [] \<and> snd (last rs) = STAR"

definition uset_contains :: "ranges \<Rightarrow> uid \<Rightarrow> bool" where
  "uset_contains rs u \<longleftrightarrow> 1 \<le> u \<and> list_ex (\<lambda>(low, high). low \<le> u \<and> u \<le> high) rs"

definition uset_len :: "ranges \<Rightarrow> nat option" where
  "uset_len rs =
     (if uset_is_open_ended rs then None else Some (\<Sum>(low, high)\<leftarrow>rs. high - low + 1))"

definition uset_uids :: "ranges \<Rightarrow> uid list" where
  "uset_uids rs = concat (map (\<lambda>(low, high). [low..<Suc high]) (filter (\<lambda>r. snd r \<noteq> STAR) rs))"

definition uset_from_iter :: "uid list \<Rightarrow> ranges" where
  "uset_from_iter us = normalize (map (\<lambda>u. (u, u)) (filter (\<lambda>u. 1 \<le> u) us))"

definition uset_extend :: "ranges \<Rightarrow> uid list \<Rightarrow> ranges" where
  "uset_extend rs us = foldl uset_insert rs us"

definition render_range :: "nat \<times> nat \<Rightarrow> string" where
  "render_range r =
     (let (low, high) = r in
      if low = high then dec low
      else if high = STAR then dec low @ '':*''
      else dec low @ '':'' @ dec high)"

fun to_sequence_set :: "ranges \<Rightarrow> string" where
  "to_sequence_set [] = []"
| "to_sequence_set [r] = render_range r"
| "to_sequence_set (r # s # rs) = render_range r @ '','' @ to_sequence_set (s # rs)"


subsection \<open>Chunks\<close>

text \<open>The inner loop, over one range: \<open>mx\<close> and \<open>stop\<close> are fixed, the rest is its state.\<close>

partial_function (option) chunk_while ::
  "nat \<Rightarrow> nat \<Rightarrow> nat \<Rightarrow> ranges list \<Rightarrow> ranges \<Rightarrow> nat \<Rightarrow> (ranges list \<times> ranges \<times> nat) option"
where
  "chunk_while mx stop cursor chunks current room =
     (if cursor \<le> stop then
        (let taken = min room (stop - cursor + 1);
             final = cursor + taken - 1;
             current = current @ [(cursor mod 2 ^ 32, if final \<le> u32_max then final else STAR)];
             room = room - taken
         in if room = 0 then chunk_while mx stop (final + 1) (chunks @ [current]) [] mx
            else chunk_while mx stop (final + 1) chunks current room)
      else Some (chunks, current, room))"

fun chunk_ranges ::
  "nat \<Rightarrow> ranges \<Rightarrow> ranges list \<Rightarrow> ranges \<Rightarrow> nat \<Rightarrow> (ranges list \<times> ranges) option" where
  "chunk_ranges mx [] chunks current room = Some (chunks, current)"
| "chunk_ranges mx ((low, high) # rs) chunks current room =
     (case chunk_while mx high low chunks current room of
        None \<Rightarrow> None
      | Some (chunks, current, room) \<Rightarrow> chunk_ranges mx rs chunks current room)"

definition uset_chunks :: "ranges \<Rightarrow> nat \<Rightarrow> ranges list option" where
  "uset_chunks rs max_len =
     (if rs = [] then Some []
      else if uset_is_open_ended rs then Some [rs]
      else
        (let mx = (if max max_len 1 \<le> u32_max then max max_len 1 else u32_max)
         in map_option (\<lambda>(chunks, current). if current \<noteq> [] then chunks @ [current] else chunks)
              (chunk_ranges mx rs [] uset_new mx)))"


subsection \<open>The invariant and what a set holds\<close>

definition gap :: "nat \<times> nat \<Rightarrow> nat \<times> nat \<Rightarrow> bool" where
  "gap r s \<longleftrightarrow> snd r + 1 < fst s"

definition valid_range :: "nat \<times> nat \<Rightarrow> bool" where
  "valid_range r \<longleftrightarrow> 1 \<le> fst r \<and> fst r \<le> snd r \<and> snd r \<le> STAR"

definition uset_wf :: "ranges \<Rightarrow> bool" where
  "uset_wf rs \<longleftrightarrow> (\<forall>r\<in>set rs. valid_range r) \<and> sorted_wrt gap rs"

definition members :: "ranges \<Rightarrow> nat set" where
  "members rs = (\<Union>r\<in>set rs. {fst r..snd r})"

lemma members_simps [simp]:
  "members [] = {}" "members (r # rs) = {fst r..snd r} \<union> members rs"
  "members (rs @ ss) = members rs \<union> members ss"
  by (auto simp: members_def)

lemma uset_wf_Nil [simp]: "uset_wf []" by (simp add: uset_wf_def)

lemma uset_wf_snoc:
  "uset_wf (rs @ [r]) \<longleftrightarrow> uset_wf rs \<and> valid_range r \<and> (\<forall>s\<in>set rs. gap s r)"
  by (auto simp: uset_wf_def sorted_wrt_append)

lemma gap_trans: "gap r s \<Longrightarrow> valid_range s \<Longrightarrow> gap s t \<Longrightarrow> gap r t"
  by (auto simp: gap_def valid_range_def)

lemma uset_wf_gap_last:
  assumes "uset_wf rs" "rs \<noteq> []" "gap (last rs) r"
  shows "\<forall>s\<in>set rs. gap s r"
proof
  fix s assume s: "s \<in> set rs"
  obtain us t where rs: "rs = us @ [t]" using assms(2) by (cases rs rule: rev_exhaust) auto
  show "gap s r"
  proof (cases "s = t")
    case False
    then have "gap s t" "valid_range t" using assms(1) s by (auto simp: rs uset_wf_snoc)
    then show ?thesis using assms(3) by (auto simp: rs intro: gap_trans)
  qed (use assms(3) in \<open>simp add: rs\<close>)
qed

text \<open>Pushing a range that starts no earlier than the last one did keeps all of it.\<close>

lemma norm_push_spec:
  assumes "uset_wf rs" "valid_range r" "rs \<noteq> [] \<Longrightarrow> fst (last rs) \<le> fst r"
  shows "uset_wf (norm_push rs r) \<and> members (norm_push rs r) = members rs \<union> {fst r..snd r}
    \<and> norm_push rs r \<noteq> [] \<and> fst (last (norm_push rs r)) \<le> fst r"
proof (cases rs rule: rev_exhaust)
  case Nil
  then show ?thesis using assms by (simp add: norm_push_def uset_wf_def)
next
  case (snoc us s)
  obtain a b where s: "s = (a, b)" by (cases s)
  have wf: "uset_wf us" "valid_range s" "\<forall>t\<in>set us. gap t s" and le: "a \<le> fst r"
    using assms by (auto simp: snoc uset_wf_snoc s)
  show ?thesis
  proof (cases "fst r \<le> sat_add32 b 1")
    case True
    have "uset_wf (us @ [(a, max b (snd r))])"
      using wf assms(2) by (auto simp: uset_wf_snoc s valid_range_def gap_def)
    moreover have "{a..max b (snd r)} = {a..b} \<union> {fst r..snd r}"
      using True le wf(2) assms(2) by (auto simp: sat_add32_def s valid_range_def)
    ultimately show ?thesis
      using True le by (auto simp: norm_push_def snoc s)
  next
    case False
    have "b \<le> STAR" "fst r \<le> STAR" using wf(2) assms(2) by (auto simp: s valid_range_def)
    then have g: "gap s r" using False by (auto simp: s gap_def sat_add32_def STAR_def min_def split: if_splits)
    have "uset_wf ((us @ [s]) @ [r])"
      using assms(1,2) uset_wf_gap_last [OF assms(1), of r] g
      by (subst uset_wf_snoc) (simp add: snoc)
    then show ?thesis using False by (auto simp: norm_push_def snoc s)
  qed
qed

lemma norm_fold_spec:
  assumes "uset_wf rs" "\<forall>r\<in>set ss. valid_range r" "sorted (map fst ss)"
    and "\<forall>r\<in>set ss. rs \<noteq> [] \<longrightarrow> fst (last rs) \<le> fst r"
  shows "uset_wf (foldl norm_push rs ss) \<and> members (foldl norm_push rs ss) = members rs \<union> members ss"
  using assms
proof (induction ss arbitrary: rs)
  case (Cons r ss)
  have sp: "uset_wf (norm_push rs r) \<and> members (norm_push rs r) = members rs \<union> {fst r..snd r}
    \<and> norm_push rs r \<noteq> [] \<and> fst (last (norm_push rs r)) \<le> fst r"
    using Cons.prems by (intro norm_push_spec) auto
  then have "\<forall>t\<in>set ss. norm_push rs r \<noteq> [] \<longrightarrow> fst (last (norm_push rs r)) \<le> fst t"
    using Cons.prems(3) by fastforce
  with Cons.IH [of "norm_push rs r"] Cons.prems sp show ?case by (simp add: Un_assoc)
qed simp

lemma sorted_fst: "sorted (rs :: ranges) \<Longrightarrow> sorted (map fst rs)"
  by (induction rs) (auto simp: less_eq_prod_def)

lemma normalize_spec:
  assumes "\<forall>r\<in>set rs. valid_range r"
  shows "uset_wf (normalize rs) \<and> members (normalize rs) = members rs"
proof -
  have "uset_wf (normalize rs) \<and> members (normalize rs) = members (sort rs)"
    unfolding normalize_def using assms norm_fold_spec [of "[]" "sort rs"] by (simp add: sorted_fst)
  then show ?thesis by (simp add: members_def)
qed

lemma uset_insert_range_spec:
  assumes "uset_wf rs" "a \<le> STAR" "b \<le> STAR"
  shows "uset_wf (uset_insert_range rs a b)
    \<and> members (uset_insert_range rs a b) = members rs \<union> ({min a b..max a b} - {0})"
proof -
  define l h where "l = min a b" and "h = max a b"
  have eq: "uset_insert_range rs a b = (if h < 1 then rs else normalize (rs @ [(max l 1, h)]))"
    by (cases "a \<le> b") (simp_all add: uset_insert_range_def l_def h_def)
  have lh: "l \<le> h" "h \<le> STAR" using assms(2,3) by (auto simp: l_def h_def)
  show ?thesis
  proof (cases "h < 1")
    case True
    then have "{l..h} - {0} = {}" by auto
    with True assms(1) show ?thesis
      unfolding eq l_def [symmetric] h_def [symmetric] by (simp only: if_True Un_empty_right)
  next
    case False
    have "\<forall>r\<in>set (rs @ [(max l 1, h)]). valid_range r"
      using assms(1) lh False by (auto simp: uset_wf_def valid_range_def)
    from normalize_spec [OF this]
    have "uset_wf (normalize (rs @ [(max l 1, h)]))"
      "members (normalize (rs @ [(max l 1, h)])) = members rs \<union> {max l 1..h}" by auto
    moreover have "{max l 1..h} = {l..h} - {0}" by auto
    ultimately show ?thesis using False by (simp add: eq l_def [symmetric] h_def [symmetric])
  qed
qed

lemma members_valid: "uset_wf rs \<Longrightarrow> u \<in> members rs \<Longrightarrow> 1 \<le> u \<and> u \<le> STAR"
  by (auto simp: uset_wf_def members_def valid_range_def)

lemma uset_contains_members: "uset_wf rs \<Longrightarrow> uset_contains rs u \<longleftrightarrow> u \<in> members rs"
proof -
  assume "uset_wf rs"
  then have "1 \<le> u" if "u \<in> members rs" using members_valid that by blast
  moreover have "u \<in> members rs \<longleftrightarrow> (\<exists>(low, high)\<in>set rs. low \<le> u \<and> u \<le> high)"
    by (auto simp: members_def split: prod.splits) force+
  ultimately show ?thesis by (auto simp: uset_contains_def list_ex_iff)
qed

lemma uset_from_iter_spec:
  assumes "\<forall>u\<in>set us. u \<le> STAR"
  shows "uset_wf (uset_from_iter us) \<and> members (uset_from_iter us) = set us - {0}"
proof -
  have "\<forall>r\<in>set (map (\<lambda>u. (u, u)) (filter (\<lambda>u. 1 \<le> u) us)). valid_range r"
    using assms by (auto simp: valid_range_def)
  from normalize_spec [OF this] show ?thesis
    by (auto simp: uset_from_iter_def members_def)
qed

lemma uset_insert_spec:
  "uset_wf rs \<Longrightarrow> u \<le> STAR \<Longrightarrow>
   uset_wf (uset_insert rs u) \<and> members (uset_insert rs u) = members rs \<union> ({u} - {0})"
  using uset_insert_range_spec [of rs u u] by (simp add: uset_insert_def)

lemma uset_extend_spec:
  assumes "uset_wf rs" "\<forall>u\<in>set us. u \<le> STAR"
  shows "uset_wf (uset_extend rs us) \<and> members (uset_extend rs us) = members rs \<union> (set us - {0})"
  using assms unfolding uset_extend_def
proof (induction us arbitrary: rs)
  case (Cons u us)
  have i: "uset_wf (uset_insert rs u)" "members (uset_insert rs u) = members rs \<union> ({u} - {0})"
    using uset_insert_spec [of rs u] Cons.prems by auto
  with Cons.IH [of "uset_insert rs u"] Cons.prems show ?case by auto
qed simp


subsection \<open>One representation per set\<close>

lemma uset_wf_Cons:
  "uset_wf (r # rs) \<longleftrightarrow> valid_range r \<and> uset_wf rs \<and> (\<forall>s\<in>set rs. gap r s)"
  by (auto simp: uset_wf_def)

lemma members_above: "\<forall>s\<in>set rs. gap r s \<Longrightarrow> u \<in> members rs \<Longrightarrow> snd r + 1 < u"
  by (fastforce simp: members_def gap_def)

lemma first_range:
  assumes "uset_wf (r # rs)"
  shows "Min (members (r # rs)) = fst r" and "\<And>u. u \<in> members (r # rs) \<Longrightarrow> fst r \<le> u"
    and "Suc (snd r) \<notin> members (r # rs)"
    and "members rs = {u \<in> members (r # rs). snd r < u}"
proof -
  have v: "valid_range r" and g: "\<And>u. u \<in> members rs \<Longrightarrow> snd r + 1 < u"
    using assms members_above [of rs r] by (auto simp: uset_wf_Cons)
  show le: "\<And>u. u \<in> members (r # rs) \<Longrightarrow> fst r \<le> u"
  proof -
    fix u assume "u \<in> members (r # rs)"
    then consider "fst r \<le> u" | "u \<in> members rs" by auto
    then show "fst r \<le> u"
      by cases (use v g [of u] in \<open>simp_all add: valid_range_def\<close>)
  qed
  have fin: "finite (members (r # rs))" by (auto simp: members_def)
  show "Min (members (r # rs)) = fst r"
    by (rule Min_eqI [OF fin le]) (use v in \<open>simp_all add: valid_range_def\<close>)
  show "Suc (snd r) \<notin> members (r # rs)" using g [of "Suc (snd r)"] by auto
  show "members rs = {u \<in> members (r # rs). snd r < u}" proof -
    have "snd r < u" if "u \<in> members rs" for u using g [OF that] by simp
    then show ?thesis by auto
  qed
qed

text \<open>Two well-formed sets with the same members are the same list of ranges.\<close>

lemma uset_canonical: "uset_wf rs \<Longrightarrow> uset_wf ss \<Longrightarrow> members rs = members ss \<Longrightarrow> rs = ss"
proof (induction rs arbitrary: ss)
  case Nil
  then show ?case by (cases ss) (auto simp: uset_wf_Cons valid_range_def)
next
  case (Cons r rs)
  have v: "valid_range r" using Cons.prems(1) by (simp add: uset_wf_Cons)
  then have "members (r # rs) \<noteq> {}" by (auto simp: valid_range_def)
  with Cons.prems(3) obtain t ts where ss: "ss = t # ts" by (cases ss) auto
  have w: "valid_range t" using Cons.prems(2) by (simp add: ss uset_wf_Cons)
  have f: "fst r = fst t"
    using first_range(1) [OF Cons.prems(1)] first_range(1) [of t ts] Cons.prems(2,3) ss by simp
  have bound: "snd b \<le> snd a"
    if a: "uset_wf (a # as)" and b: "uset_wf (b # bs)" and eq: "members (a # as) = members (b # bs)"
      and fs: "fst a = fst b" for a as b bs
  proof (rule ccontr)
    assume "\<not> snd b \<le> snd a"
    moreover have "valid_range a" using a by (simp add: uset_wf_Cons)
    ultimately have "Suc (snd a) \<in> {fst b..snd b}" using fs by (auto simp: valid_range_def)
    then have "Suc (snd a) \<in> members (b # bs)" by simp
    with first_range(3) [OF a, unfolded eq] show False by (rule notE)
  qed
  have wt: "uset_wf (t # ts)" and mt: "members (r # rs) = members (t # ts)"
    using Cons.prems(2,3) ss by simp_all
  have s: "snd r = snd t"
    using bound [OF Cons.prems(1) wt mt f] bound [OF wt Cons.prems(1) mt [symmetric] f [symmetric]] by simp
  then have "members rs = members ts"
    by (simp only: first_range(4) [OF Cons.prems(1)] first_range(4) [OF wt] mt s)
  with Cons.IH [of ts] Cons.prems(1) wt have "rs = ts" by (simp add: uset_wf_Cons)
  with f s show ?case by (simp add: ss prod_eq_iff)
qed

end
