(* ===== verification/Uid_Chunks.thy ===== *)
theory Uid_Chunks
  imports Uid_Set
begin

section \<open>Sets of UIDs: chunking, and the properties\<close>

text \<open>
  The loops of \<open>UidSet::chunks\<close> return, lose nothing, keep the order and respect the
  limit; a set has one representation, whatever the order it was built in.
\<close>

subsection \<open>The UIDs of a closed set\<close>

definition closed :: "ranges \<Rightarrow> bool" where
  "closed rs \<longleftrightarrow> (\<forall>r\<in>set rs. snd r < STAR)"

definition runs :: "ranges \<Rightarrow> uid list" where
  "runs rs = concat (map (\<lambda>(low, high). [low..<Suc high]) rs)"

lemma runs_simps [simp]: "runs [] = []" "runs (rs @ ss) = runs rs @ runs ss"
  "runs [(a, b)] = [a..<Suc b]" "runs ((a, b) # rs) = [a..<Suc b] @ runs rs"
  by (simp_all add: runs_def)

lemma not_open_closed: "uset_wf rs \<Longrightarrow> \<not> uset_is_open_ended rs \<Longrightarrow> closed rs"
proof (cases rs rule: rev_exhaust)
  case (snoc us s)
  assume wf: "uset_wf rs" and op: "\<not> uset_is_open_ended rs"
  have "valid_range s" and g: "\<forall>r\<in>set us. gap r s" using wf by (auto simp: snoc uset_wf_snoc)
  moreover have "snd s \<noteq> STAR" using op by (simp add: uset_is_open_ended_def snoc)
  ultimately have "snd s < STAR" "fst s \<le> STAR" by (auto simp: valid_range_def)
  with g show ?thesis by (auto simp: closed_def snoc gap_def)
qed (simp add: closed_def)

lemma uids_runs: "closed rs \<Longrightarrow> uset_uids rs = runs rs"
  unfolding uset_uids_def runs_def closed_def
  by (subst filter_True) auto

lemma set_runs: "set (runs rs) = members rs"
proof (induction rs)
  case (Cons r rs)
  then show ?case by (cases r) (simp add: atLeastLessThanSuc_atLeastAtMost del: upt_Suc)
qed simp

lemma runs_sorted: "uset_wf rs \<Longrightarrow> sorted_wrt (<) (runs rs)"
proof (induction rs)
  case (Cons r rs)
  have "snd r + 1 < u" if "u \<in> members rs" for u
    using members_above [OF _ that, of r] Cons.prems by (simp add: uset_wf_Cons)
  then have "\<forall>x\<in>{fst r..snd r}. \<forall>y\<in>members rs. x < y" by force
  with Cons show ?case
    by (cases r) (auto simp: sorted_wrt_append set_runs uset_wf_Cons sorted_wrt_upt
        simp del: upt_Suc)
qed simp

lemma length_runs: "uset_wf rs \<Longrightarrow> length (runs rs) = (\<Sum>(low, high)\<leftarrow>rs. high - low + 1)"
  by (induction rs) (auto simp: uset_wf_Cons valid_range_def Suc_diff_le simp del: upt_Suc)

lemma runs_nonempty: "uset_wf rs \<Longrightarrow> rs \<noteq> [] \<Longrightarrow> runs rs \<noteq> []"
  by (cases rs) (auto simp: uset_wf_Cons valid_range_def simp del: upt_Suc)


subsection \<open>The loops\<close>

text \<open>
  What holds between two iterations: every chunk done is full, the current one has the
  space \<open>room\<close> left, both are well-formed, and the next UID leaves a gap after it.
\<close>

definition chunk_inv :: "nat \<Rightarrow> ranges list \<Rightarrow> ranges \<Rightarrow> nat \<Rightarrow> bool" where
  "chunk_inv mx chunks current room \<longleftrightarrow>
     0 < room \<and> length (runs current) + room = mx \<and> uset_wf current \<and> closed current
     \<and> (\<forall>c\<in>set chunks. length (runs c) = mx \<and> uset_wf c \<and> closed c)"

lemma chunk_while_spec:
  assumes "chunk_inv mx chunks current room" "0 < cursor" "stop < STAR"
    and "current \<noteq> [] \<Longrightarrow> snd (last current) + 1 < cursor" "cursor \<le> Suc stop"
  shows "\<exists>ch cur rm. chunk_while mx stop cursor chunks current room = Some (ch, cur, rm)
    \<and> chunk_inv mx ch cur rm \<and> (cur \<noteq> [] \<longrightarrow> snd (last cur) \<le> stop)
    \<and> runs (concat ch) @ runs cur = runs (concat chunks) @ runs current @ [cursor..<Suc stop]"
  using assms
proof (induction "Suc stop - cursor" arbitrary: cursor chunks current room rule: less_induct)
  case less
  show ?case
  proof (cases "cursor \<le> stop")
    case False
    then have "[cursor..<Suc stop] = []" by simp
    with False less.prems show ?thesis
      by (subst chunk_while.simps) auto
  next
    case True
    define t where "t = min room (stop - cursor + 1)"
    define fin where "fin = cursor + t - 1"
    have t: "0 < t" "t \<le> room" "t \<le> stop - cursor + 1"
      using less.prems(1) by (auto simp: t_def chunk_inv_def)
    have fin: "cursor \<le> fin" "fin \<le> stop" "fin < STAR" using t True less.prems(3) by (auto simp: fin_def)
    then have mod: "cursor mod 2 ^ 32 = cursor" "fin \<le> u32_max"
      by (auto simp: STAR_def u32_max_def)
    define cur where "cur = current @ [(cursor, fin)]"
    have len: "length (runs cur) + (room - t) = mx"
      using less.prems(1) t fin
      by (auto simp: cur_def chunk_inv_def fin_def simp del: upt_Suc)
    have wf: "uset_wf cur"
    proof -
      have "uset_wf current" using less.prems(1) by (simp add: chunk_inv_def)
      moreover have "\<forall>s\<in>set current. gap s (cursor, fin)"
        using uset_wf_gap_last [OF calculation, of "(cursor, fin)"] less.prems(4)
        by (cases "current = []") (simp_all add: gap_def)
      ultimately show ?thesis
        using fin less.prems(2) by (simp add: cur_def uset_wf_snoc valid_range_def)
    qed
    have cl: "closed cur" using less.prems(1) fin by (auto simp: cur_def chunk_inv_def closed_def)
    have upt: "[cursor..<Suc stop] = [cursor..<Suc fin] @ [Suc fin..<Suc stop]"
      using fin upt_add_eq_append [of cursor "Suc fin" "stop - fin"] by (simp del: upt_Suc)
    have step: "chunk_while mx stop cursor chunks current room =
        (if room - t = 0 then chunk_while mx stop (fin + 1) (chunks @ [cur]) [] mx
         else chunk_while mx stop (fin + 1) chunks cur (room - t))"
      by (subst chunk_while.simps)
        (simp only: True if_True Let_def t_def [symmetric] fin_def [symmetric] mod cur_def [symmetric])
    have m: "Suc stop - (fin + 1) < Suc stop - cursor" using fin by simp
    show ?thesis
    proof (cases "room - t = 0")
      case R: True
      have inv: "chunk_inv mx (chunks @ [cur]) [] mx"
        using less.prems(1) len wf cl R by (auto simp: chunk_inv_def closed_def)
      show ?thesis
        using less.hyps [OF m inv] fin less.prems(3)
        unfolding step upt by (simp add: R cur_def del: upt_Suc)
    next
      case R: False
      have inv: "chunk_inv mx chunks cur (room - t)"
        using less.prems(1) len wf cl R by (auto simp: chunk_inv_def)
      have "fin = stop" using R t_def fin_def True by (auto simp: min_def split: if_splits)
      then have "chunk_while mx stop (fin + 1) chunks cur (room - t) = Some (chunks, cur, room - t)"
        by (subst chunk_while.simps) simp
      with inv R \<open>fin = stop\<close> show ?thesis unfolding step by (simp add: cur_def del: upt_Suc)
    qed
  qed
qed

lemma chunk_ranges_spec:
  assumes "uset_wf rs" "closed rs" "chunk_inv mx chunks current room"
    and "current \<noteq> [] \<Longrightarrow> \<forall>r\<in>set rs. snd (last current) + 1 < fst r"
  shows "\<exists>ch cur rm. chunk_ranges mx rs chunks current room = Some (ch, cur) \<and> chunk_inv mx ch cur rm
    \<and> runs (concat ch) @ runs cur = runs (concat chunks) @ runs current @ runs rs"
  using assms
proof (induction rs arbitrary: chunks current room)
  case (Cons r rs)
  obtain low high where r: "r = (low, high)" by (cases r)
  have v: "0 < low" "low \<le> high" "high < STAR" and g: "\<forall>s\<in>set rs. high + 1 < fst s"
    using Cons.prems(1,2) by (auto simp: r uset_wf_Cons valid_range_def closed_def gap_def)
  obtain ch cur rm where c: "chunk_while mx high low chunks current room = Some (ch, cur, rm)"
      "chunk_inv mx ch cur rm" "cur \<noteq> [] \<longrightarrow> snd (last cur) \<le> high"
      "runs (concat ch) @ runs cur = runs (concat chunks) @ runs current @ [low..<Suc high]"
    using chunk_while_spec [OF Cons.prems(3), of low high] v Cons.prems(4) by (auto simp: r)
  have "\<forall>s\<in>set rs. snd (last cur) + 1 < fst s" if "cur \<noteq> []"
    using g c(3) that by fastforce
  with Cons.IH [OF _ _ c(2)] Cons.prems(1,2) obtain ch' cur' rm' where
      "chunk_ranges mx rs ch cur rm = Some (ch', cur')" "chunk_inv mx ch' cur' rm'"
      "runs (concat ch') @ runs cur' = runs (concat ch) @ runs cur @ runs rs"
    by (auto simp: uset_wf_Cons closed_def)
  with c show ?case
    by (auto simp: r simp del: upt_Suc)
qed auto

lemma uset_chunks_spec:
  fixes k :: nat
  assumes "uset_wf rs" "\<not> uset_is_open_ended rs"
  defines "mx \<equiv> min (max k 1) u32_max"
  shows "\<exists>cs. uset_chunks rs k = Some cs \<and> concat (map runs cs) = runs rs
     \<and> (\<forall>c\<in>set cs. uset_wf c \<and> closed c \<and> c \<noteq> [])
     \<and> (\<forall>c\<in>set cs. length (runs c) \<le> mx) \<and> (\<forall>c\<in>set (butlast cs). length (runs c) = mx)"
proof (cases "rs = []")
  case False
  have mx: "0 < mx" "(if max k 1 \<le> u32_max then max k 1 else u32_max) = mx"
    by (auto simp: mx_def u32_max_def)
  have inv: "chunk_inv mx [] [] mx" using mx(1) by (simp add: chunk_inv_def closed_def)
  obtain ch cur rm where c: "chunk_ranges mx rs [] uset_new mx = Some (ch, cur)" "chunk_inv mx ch cur rm"
      "runs (concat ch) @ runs cur = runs rs"
    using chunk_ranges_spec [OF assms(1) not_open_closed [OF assms(1,2)] inv]
    by (auto simp: uset_new_def)
  have conc: "runs (concat ch) = concat (map runs ch)" by (induction ch) simp_all
  have ne: "c \<noteq> []" if "c \<in> set ch" for c using that c(2) mx(1) by (auto simp: chunk_inv_def)
  let ?cs = "if cur \<noteq> [] then ch @ [cur] else ch"
  have res: "uset_chunks rs k = Some ?cs"
    using False assms(2) c(1) unfolding uset_chunks_def mx(2) Let_def by simp
  have "\<forall>c\<in>set ?cs. uset_wf c \<and> closed c \<and> c \<noteq> [] \<and> length (runs c) \<le> mx"
    using c(2) ne by (auto simp: chunk_inv_def)
  moreover have "\<forall>c\<in>set (butlast ?cs). length (runs c) = mx"
    using c(2) by (auto simp: chunk_inv_def dest: in_set_butlastD)
  moreover have "concat (map runs ?cs) = runs rs" using c(3) conc by auto
  ultimately show ?thesis unfolding res by blast
qed (simp add: uset_chunks_def)


subsection \<open>Properties\<close>

text \<open>
  C26: \<open>UidSet\<close> is a canonical set: every operation keeps the ranges sorted, disjoint and
  non-adjacent; what it holds is the mathematical union (zeroes dropped, bounds
  normalised); and the representation depends on the members alone, so two sets built in
  any order, by \<open>insert\<close>, \<open>extend\<close> or \<open>from_iter\<close>, are equal when they hold the same UIDs.
\<close>

theorem uid_set_canonical:
  assumes "uset_wf rs" and "\<forall>u\<in>set us \<union> set vs \<union> {a, b}. u \<le> STAR"
  shows "uset_wf (uset_insert_range rs a b) \<and> uset_wf (uset_extend rs us)
     \<and> (\<forall>u. uset_contains (uset_insert_range rs a b) u
            \<longleftrightarrow> uset_contains rs u \<or> (1 \<le> u \<and> min a b \<le> u \<and> u \<le> max a b))
     \<and> (\<forall>u. uset_contains (uset_extend rs us) u \<longleftrightarrow> uset_contains rs u \<or> (u \<in> set us \<and> u \<noteq> 0))
     \<and> (set us - {0} = set vs - {0} \<longrightarrow>
          uset_from_iter us = uset_from_iter vs \<and> uset_extend uset_new us = uset_from_iter vs
          \<and> uset_extend rs us = uset_extend rs vs)"
proof -
  have i: "uset_wf (uset_insert_range rs a b)"
      "members (uset_insert_range rs a b) = members rs \<union> ({min a b..max a b} - {0})"
    using uset_insert_range_spec [OF assms(1), of a b] assms(2) by auto
  have e: "uset_wf (uset_extend r ws)" "members (uset_extend r ws) = members r \<union> (set ws - {0})"
    if "uset_wf r" "ws \<in> {us, vs}" for r ws
    using uset_extend_spec [OF that(1), of ws] that(2) assms(2) by auto
  have f: "uset_wf (uset_from_iter ws)" "members (uset_from_iter ws) = set ws - {0}"
    if "ws \<in> {us, vs}" for ws
    using uset_from_iter_spec [of ws] that assms(2) by auto
  have n: "uset_wf uset_new" "members uset_new = {}" by (simp_all add: uset_new_def)
  have c1: "\<forall>u. uset_contains (uset_insert_range rs a b) u
            \<longleftrightarrow> uset_contains rs u \<or> (1 \<le> u \<and> min a b \<le> u \<and> u \<le> max a b)"
    using i assms(1) by (auto simp: uset_contains_members)
  have c2: "\<forall>u. uset_contains (uset_extend rs us) u \<longleftrightarrow> uset_contains rs u \<or> (u \<in> set us \<and> u \<noteq> 0)"
    using e [OF assms(1), of us] assms(1) by (auto simp: uset_contains_members)
  have c3: "uset_from_iter us = uset_from_iter vs \<and> uset_extend uset_new us = uset_from_iter vs
          \<and> uset_extend rs us = uset_extend rs vs" if "set us - {0} = set vs - {0}"
  proof (intro conjI uset_canonical)
    show "uset_wf (uset_from_iter us)" "uset_wf (uset_from_iter vs)" "uset_wf (uset_from_iter vs)"
      "uset_wf (uset_extend uset_new us)" "uset_wf (uset_extend rs us)" "uset_wf (uset_extend rs vs)"
      using f e n assms(1) by simp_all
    show "members (uset_from_iter us) = members (uset_from_iter vs)" using f that by simp
    show "members (uset_extend uset_new us) = members (uset_from_iter vs)" using f e n that by simp
    show "members (uset_extend rs us) = members (uset_extend rs vs)" using e assms(1) that by simp
  qed
  show ?thesis using i(1) e(1) [OF assms(1), of us] c1 c2 c3 by blast
qed

theorem uid_set_canonical_witness:
  "uset_from_iter [3, 1, 2, 7] = uset_from_iter [7, 2, 1, 3, 0, 2]
   \<and> uset_wf (uset_insert_range [(1, 3)] 9 4)"
  using uid_set_canonical [of "[(1, 3)]" "[3, 1, 2, 7]" "[7, 2, 1, 3, 0, 2]" 9 4]
  by (auto simp: uset_wf_def valid_range_def STAR_def u32_max_def)

text \<open>
  Splitting a closed set into chunks returns, loses and reorders nothing (the chunks'
  UIDs in order are the set's), every chunk is a well-formed non-empty set of at most the
  limit (a limit of zero counting as one), and all but the last are full.
\<close>

theorem uid_set_chunks_partition:
  assumes "uset_wf rs" "\<not> uset_is_open_ended rs"
  shows "\<exists>cs. uset_chunks rs k = Some cs \<and> concat (map uset_uids cs) = uset_uids rs
     \<and> (\<forall>c\<in>set cs. uset_wf c \<and> c \<noteq> [] \<and> length (uset_uids c) \<le> min (max k 1) u32_max)
     \<and> (\<forall>c\<in>set (butlast cs). length (uset_uids c) = min (max k 1) u32_max)"
proof -
  obtain cs where c: "uset_chunks rs k = Some cs" "concat (map runs cs) = runs rs"
      "\<forall>c\<in>set cs. uset_wf c \<and> closed c \<and> c \<noteq> []" "\<forall>c\<in>set cs. length (runs c) \<le> min (max k 1) u32_max"
      "\<forall>c\<in>set (butlast cs). length (runs c) = min (max k 1) u32_max"
    using uset_chunks_spec [OF assms, of k] by blast
  have u: "uset_uids c = runs c" if "c \<in> set cs" for c using c(3) that by (simp add: uids_runs)
  then have m: "map uset_uids cs = map runs cs" by (simp cong: map_cong)
  have r: "uset_uids rs = runs rs" using assms by (simp add: uids_runs not_open_closed)
  have b: "\<forall>c\<in>set (butlast cs). length (uset_uids c) = min (max k 1) u32_max"
    using c(5) u by (metis in_set_butlastD)
  show ?thesis
    by (rule exI [of _ cs]) (use c(1-4) u b in \<open>simp add: m r\<close>)
qed

theorem uid_set_chunks_partition_witness:
  "\<exists>cs. uset_chunks [(1, 10), (20, 21)] 4 = Some cs
     \<and> concat (map uset_uids cs) = uset_uids [(1, 10), (20, 21)]"
proof -
  have "uset_wf [(1, 10), (20, 21)]" "\<not> uset_is_open_ended [(1, 10), (20, 21)]"
    by (simp_all add: uset_wf_def valid_range_def gap_def uset_is_open_ended_def STAR_def u32_max_def)
  from uid_set_chunks_partition [OF this, of 4] show ?thesis by blast
qed

text \<open>
  The UIDs a closed set lists are exactly its members in strictly ascending order, and
  \<open>len\<close> counts them without listing them; an open-ended set has no length.
\<close>

theorem uid_set_lists_its_members:
  assumes "uset_wf rs"
  shows "(\<not> uset_is_open_ended rs \<longrightarrow>
       sorted_wrt (<) (uset_uids rs) \<and> uset_len rs = Some (length (uset_uids rs))
       \<and> (\<forall>u. u \<in> set (uset_uids rs) \<longleftrightarrow> uset_contains rs u))
     \<and> (uset_is_open_ended rs \<longrightarrow> uset_len rs = None \<and> uset_contains rs STAR)"
proof (cases "uset_is_open_ended rs")
  case True
  then obtain us s where rs: "rs = us @ [s]" "snd s = STAR"
    by (cases rs rule: rev_exhaust) (auto simp: uset_is_open_ended_def)
  then have "STAR \<in> members rs" using assms by (auto simp: uset_wf_snoc valid_range_def)
  with True assms show ?thesis by (simp add: uset_len_def uset_contains_members)
next
  case False
  then have "uset_uids rs = runs rs" using assms by (simp add: uids_runs not_open_closed)
  with False assms show ?thesis
    by (simp add: runs_sorted uset_len_def length_runs set_runs uset_contains_members)
qed

theorem uid_set_lists_its_members_witness:
  "uset_len [(1, 3), (7, 7)] = Some (length (uset_uids [(1, 3), (7, 7)]))
   \<and> uset_contains uset_all STAR"
proof -
  have a: "uset_all = [(1, STAR)]"
    by (simp add: uset_all_def uset_from_uid_onwards_def uset_range_def uset_insert_range_def
        uset_new_def normalize_def norm_push_def STAR_def u32_max_def)
  have w: "uset_wf [(1, 3), (7, 7)]" "uset_wf [(1, STAR)]"
    "\<not> uset_is_open_ended [(1, 3), (7, 7)]" "uset_is_open_ended [(1, STAR)]"
    by (simp_all add: uset_wf_def valid_range_def gap_def uset_is_open_ended_def STAR_def u32_max_def)
  show ?thesis
    using uid_set_lists_its_members [OF w(1)] uid_set_lists_its_members [OF w(2)] w(3,4)
    unfolding a by blast
qed


end
