(* ===== verification/Sync_State.thy ===== *)
theory Sync_State
  imports Flags
begin

section \<open>What is known of a mailbox, and when to distrust the server\<close>

text \<open>
  \<open>crates/postio-model/src/sync.rs\<close> (\<open>SyncState\<close>, its updates and the decision
  \<open>plan\<close>), \<open>crates/postio-model/src/sweep.rs\<close> (when to read every flag) and the pure
  comparison of \<open>crates/postio-sync/src/flag_sweep.rs\<close>.  Generations, UIDs and
  modification sequences are the natural numbers their newtypes wrap; instants are
  integers (nanoseconds).  The loop of \<open>sweep\<close> over a
  mailbox's rows is in \<open>Resync\<close>.
\<close>

subsection \<open>\<open>SyncState\<close>\<close>

record sync_state =
  ss_mailbox_id :: mailbox_id
  ss_account_id :: account_id
  ss_generation :: "nat option"
  ss_uid_next :: "nat option"
  ss_highest_mod_seq :: "nat option"
  ss_last_full_sync_at :: "int option"
  ss_last_seen_at :: "int option"
  ss_passes_since_flag_sweep :: nat

record mailbox_status =
  ms_generation :: nat
  ms_uid_next :: "nat option"
  ms_highest_mod_seq :: "nat option"

definition status_new :: "nat \<Rightarrow> mailbox_status" where
  "status_new g = \<lparr>ms_generation = g, ms_uid_next = None, ms_highest_mod_seq = None\<rparr>"

definition with_uid_next :: "mailbox_status \<Rightarrow> nat \<Rightarrow> mailbox_status" where
  "with_uid_next st u = st\<lparr>ms_uid_next := Some u\<rparr>"

definition with_highest_mod_seq :: "mailbox_status \<Rightarrow> nat \<Rightarrow> mailbox_status" where
  "with_highest_mod_seq st m = st\<lparr>ms_highest_mod_seq := Some m\<rparr>"

datatype full_resync_reason =
  NeverSynced | GenerationChanged | NoModSeq | ModSeqWentBackwards | ShortOfExists

datatype resync_plan = Full full_resync_reason | Incremental nat | UpToDate

fun plan_is_full :: "resync_plan \<Rightarrow> bool" where
  "plan_is_full (Full _) = True"
| "plan_is_full _ = False"

definition never_synced :: "mailbox_id \<Rightarrow> account_id \<Rightarrow> sync_state" where
  "never_synced m a = \<lparr>ss_mailbox_id = m, ss_account_id = a, ss_generation = None, ss_uid_next = None,
     ss_highest_mod_seq = None, ss_last_full_sync_at = None, ss_last_seen_at = None,
     ss_passes_since_flag_sweep = 0\<rparr>"

definition has_synced :: "sync_state \<Rightarrow> bool" where
  "has_synced s \<longleftrightarrow> ss_generation s \<noteq> None \<and> ss_last_full_sync_at s \<noteq> None"

definition generation_changed :: "sync_state \<Rightarrow> nat \<Rightarrow> bool" where
  "generation_changed s observed \<longleftrightarrow>
     (case ss_generation s of Some known \<Rightarrow> known \<noteq> observed | None \<Rightarrow> False)"

definition sync_plan :: "sync_state \<Rightarrow> mailbox_status \<Rightarrow> resync_plan" where
  "sync_plan s st =
     (if generation_changed s (ms_generation st) then Full GenerationChanged
      else if \<not> has_synced s then Full NeverSynced
      else (case (ss_highest_mod_seq s, ms_highest_mod_seq st) of
          (Some known, Some reported) \<Rightarrow>
            (if known < reported then Incremental known
             else if reported < known then Full ModSeqWentBackwards
             else UpToDate)
        | _ \<Rightarrow> Full NoModSeq))"

definition sync_observe :: "sync_state \<Rightarrow> mailbox_status \<Rightarrow> int \<Rightarrow> sync_state" where
  "sync_observe s st at =
     (let s = (if generation_changed s (ms_generation st)
               then s\<lparr>ss_highest_mod_seq := None, ss_uid_next := None, ss_last_full_sync_at := None,
                      ss_passes_since_flag_sweep := 0\<rparr>
               else s);
          s = s\<lparr>ss_generation := Some (ms_generation st)\<rparr>;
          s = (case ms_uid_next st of Some u \<Rightarrow> s\<lparr>ss_uid_next := Some u\<rparr> | None \<Rightarrow> s);
          s = (case ms_highest_mod_seq st of Some m \<Rightarrow> s\<lparr>ss_highest_mod_seq := Some m\<rparr> | None \<Rightarrow> s)
      in s\<lparr>ss_last_seen_at := Some at\<rparr>)"

definition complete_full_sync :: "sync_state \<Rightarrow> int \<Rightarrow> sync_state" where
  "complete_full_sync s at =
     s\<lparr>ss_last_full_sync_at := Some at, ss_last_seen_at := Some at, ss_passes_since_flag_sweep := 0\<rparr>"

definition record_flag_pass :: "sync_state \<Rightarrow> bool \<Rightarrow> sync_state" where
  "record_flag_pass s swept =
     s\<lparr>ss_passes_since_flag_sweep :=
        (if swept then 0 else sat_add32 (ss_passes_since_flag_sweep s) 1)\<rparr>"


subsection \<open>When to sweep\<close>

datatype change_feed = Reliable | Unreliable

datatype flag_pass = Trust | Sweep

record sweep_policy =
  sw_every_pass_up_to :: nat
  sw_larger_every :: nat

definition sweep_default :: sweep_policy where
  "sweep_default = \<lparr>sw_every_pass_up_to = 2000, sw_larger_every = 10\<rparr>"

definition sweep_decide :: "sweep_policy \<Rightarrow> nat \<Rightarrow> nat \<Rightarrow> change_feed \<Rightarrow> flag_pass" where
  "sweep_decide p exists passes_since_sweep feed =
     (case feed of
        Reliable \<Rightarrow> Trust
      | Unreliable \<Rightarrow>
          if exists \<le> sw_every_pass_up_to p then Sweep
          else if sw_larger_every p \<le> sat_add32 passes_since_sweep 1 then Sweep
          else Trust)"


subsection \<open>What a sweep corrects\<close>

text \<open>\<open>by_uid\<close>: collecting into a \<open>BTreeMap\<close> keeps the last entry of a UID.\<close>

definition by_uid :: "(message_id \<times> nat \<times> flag_set) list \<Rightarrow> nat \<Rightarrow> (message_id \<times> flag_set) option" where
  "by_uid stored = map_of (rev (map (\<lambda>(i, uid, flags). (uid, (i, flags))) stored))"

definition disagreements ::
  "(message_id \<times> nat \<times> flag_set) list \<Rightarrow> (nat \<times> flag_set) list \<Rightarrow> (message_id \<times> flag_set) list" where
  "disagreements stored server =
     List.map_filter
       (\<lambda>(uid, flags).
          case by_uid stored uid of
            None \<Rightarrow> None
          | Some (i, held) \<Rightarrow>
              (if \<not> fs_eq (fs_persistable held) (fs_persistable flags) then Some (i, flags) else None))
       server"


subsection \<open>Runs\<close>

datatype sync_event = Observed mailbox_status int | FullSync int | FlagPass bool

fun sync_step :: "sync_state \<Rightarrow> sync_event \<Rightarrow> sync_state" where
  "sync_step s (Observed st at) = sync_observe s st at"
| "sync_step s (FullSync at) = complete_full_sync s at"
| "sync_step s (FlagPass swept) = record_flag_pass s swept"

definition sync_run :: "sync_state \<Rightarrow> sync_event list \<Rightarrow> sync_state" where
  "sync_run s evs = foldl sync_step s evs"

text \<open>Every report in a stretch of events names generation \<open>g\<close>.\<close>

definition under :: "nat \<Rightarrow> sync_event list \<Rightarrow> bool" where
  "under g evs \<longleftrightarrow> (\<forall>st at. Observed st at \<in> set evs \<longrightarrow> ms_generation st = g)"

lemma under_snoc: "under g (evs @ [e]) \<longleftrightarrow> under g evs \<and> (\<forall>st at. e = Observed st at \<longrightarrow> ms_generation st = g)"
  by (auto simp: under_def)

lemma observe_fields:
  "ss_generation (sync_observe s st at) = Some (ms_generation st)"
  "ss_highest_mod_seq (sync_observe s st at) =
     (case ms_highest_mod_seq st of Some m \<Rightarrow> Some m
      | None \<Rightarrow> if generation_changed s (ms_generation st) then None else ss_highest_mod_seq s)"
  "ss_last_full_sync_at (sync_observe s st at) =
     (if generation_changed s (ms_generation st) then None else ss_last_full_sync_at s)"
  by (auto simp: sync_observe_def Let_def split: option.splits)

lemma run_snoc: "sync_run s (evs @ [e]) = sync_step (sync_run s evs) e"
  by (simp add: sync_run_def)

lemma under_Nil [simp]: "under g []" by (simp add: under_def)

definition wrote_mod_seq :: "nat \<Rightarrow> nat \<Rightarrow> sync_event list \<Rightarrow> bool" where
  "wrote_mod_seq g q evs \<longleftrightarrow>
     (\<exists>pre st at post. evs = pre @ Observed st at # post \<and> ms_generation st = g
        \<and> ms_highest_mod_seq st = Some q \<and> under g post)"

definition wrote_full_sync :: "nat \<Rightarrow> sync_event list \<Rightarrow> bool" where
  "wrote_full_sync g evs \<longleftrightarrow> (\<exists>pre at post. evs = pre @ FullSync at # post \<and> under g post)"

lemma wrote_mod_seq_snoc:
  "wrote_mod_seq g q evs \<Longrightarrow> (\<And>st at. e = Observed st at \<Longrightarrow> ms_generation st = g) \<Longrightarrow>
   wrote_mod_seq g q (evs @ [e])"
  unfolding wrote_mod_seq_def by (metis append.assoc append_Cons under_snoc)

lemma wrote_full_sync_snoc:
  "wrote_full_sync g evs \<Longrightarrow> (\<And>st at. e = Observed st at \<Longrightarrow> ms_generation st = g) \<Longrightarrow>
   wrote_full_sync g (evs @ [e])"
  unfolding wrote_full_sync_def by (metis append.assoc append_Cons under_snoc)

text \<open>
  The stored sequence and the stored full sync both belong to the current generation: the
  event that wrote them is followed by reports of that generation only.
\<close>

definition sync_hist :: "sync_state \<Rightarrow> sync_event list \<Rightarrow> bool" where
  "sync_hist s evs \<longleftrightarrow>
     (case ss_generation s of
        None \<Rightarrow> ss_highest_mod_seq s = None
          \<and> (ss_last_full_sync_at s \<noteq> None \<longrightarrow> (\<exists>pre at post. evs = pre @ FullSync at # post))
          \<and> (\<forall>g. under g evs)
      | Some g \<Rightarrow>
          (\<forall>q. ss_highest_mod_seq s = Some q \<longrightarrow> wrote_mod_seq g q evs)
          \<and> (ss_last_full_sync_at s \<noteq> None \<longrightarrow> wrote_full_sync g evs))"

lemma sync_hist_step:
  assumes "sync_hist s evs"
  shows "sync_hist (sync_step s e) (evs @ [e])"
proof (cases e)
  case (Observed st at)
  let ?g = "ms_generation st"
  have new: "wrote_mod_seq ?g q (evs @ [e])" if "ms_highest_mod_seq st = Some q" for q
    unfolding wrote_mod_seq_def Observed using that under_Nil by blast
  show ?thesis
  proof (cases "ss_generation s")
    case None
    then have h: "ss_highest_mod_seq s = None" "under ?g evs"
      "ss_last_full_sync_at s \<noteq> None \<longrightarrow> (\<exists>pre at post. evs = pre @ FullSync at # post)"
      using assms by (auto simp: sync_hist_def)
    have "under ?g post" if "evs = pre @ x # post" for pre x post
      using h(2) that by (simp add: under_def)
    then have "wrote_full_sync ?g evs" if "ss_last_full_sync_at s \<noteq> None"
      using h(3) that unfolding wrote_full_sync_def by blast
    then have "ss_last_full_sync_at s \<noteq> None \<longrightarrow> wrote_full_sync ?g (evs @ [e])"
      by (auto intro!: wrote_full_sync_snoc simp: Observed)
    with None h new show ?thesis
      by (auto simp: sync_hist_def Observed observe_fields generation_changed_def split: option.splits)
  next
    case (Some g)
    show ?thesis
    proof (cases "g = ?g")
      case True
      then have "ss_last_full_sync_at s \<noteq> None \<longrightarrow> wrote_full_sync ?g (evs @ [e])"
        and "\<forall>q. ss_highest_mod_seq s = Some q \<longrightarrow> wrote_mod_seq ?g q (evs @ [e])"
        using assms Some
        by (auto simp: sync_hist_def Observed intro!: wrote_full_sync_snoc wrote_mod_seq_snoc)
      with Some True new show ?thesis
        by (auto simp: sync_hist_def Observed observe_fields generation_changed_def split: option.splits)
    next
      case False
      with Some new show ?thesis
        by (auto simp: sync_hist_def Observed observe_fields generation_changed_def split: option.splits)
    qed
  qed
next
  case (FullSync at)
  have new: "wrote_full_sync g (evs @ [e])" for g
    unfolding wrote_full_sync_def FullSync using under_Nil by blast
  show ?thesis
    using assms new wrote_mod_seq_snoc [where e = e and evs = evs]
    by (auto simp: sync_hist_def FullSync complete_full_sync_def under_snoc split: option.splits)
next
  case (FlagPass b)
  have "\<exists>pre at post. evs @ [e] = pre @ FullSync at # post" if "evs = pre @ FullSync at # post" for pre at post
    using that by auto
  then show ?thesis
    using assms wrote_mod_seq_snoc [where e = e and evs = evs] wrote_full_sync_snoc [where e = e and evs = evs]
    by (auto simp: sync_hist_def FlagPass record_flag_pass_def under_snoc split: option.splits)
qed

lemma sync_hist_run: "sync_hist (sync_run (never_synced m a) evs) evs"
  by (induction evs rule: rev_induct)
    (auto simp: run_snoc sync_hist_step, simp add: sync_hist_def sync_run_def never_synced_def under_def)



text \<open>The sweep schedule: the counter after \<open>n\<close> passes over one folder.\<close>

definition sweep_pass :: "sweep_policy \<Rightarrow> nat \<Rightarrow> sync_state \<Rightarrow> sync_state \<times> flag_pass" where
  "sweep_pass p exists s =
     (let d = sweep_decide p exists (ss_passes_since_flag_sweep s) Unreliable
      in (record_flag_pass s (d = Sweep), d))"

definition after_passes :: "sweep_policy \<Rightarrow> nat \<Rightarrow> nat \<Rightarrow> sync_state \<Rightarrow> sync_state" where
  "after_passes p exists n s = ((\<lambda>s. fst (sweep_pass p exists s)) ^^ n) s"

lemma sweep_counter:
  assumes "sw_every_pass_up_to p < exists" "1 \<le> sw_larger_every p" "sw_larger_every p \<le> u32_max"
    and "ss_passes_since_flag_sweep s = 0"
  shows "ss_passes_since_flag_sweep (after_passes p exists n s) = n mod sw_larger_every p"
proof (induction n)
  case 0
  then show ?case using assms(4) by (simp add: after_passes_def)
next
  case (Suc n)
  let ?k = "n mod sw_larger_every p"
  have k: "?k < sw_larger_every p" using assms(2) by simp
  then have "sat_add32 ?k 1 = Suc ?k" using assms(3) by (simp add: sat_add32_exact)
  then show ?case
    using Suc k assms(1)
    by (simp add: after_passes_def sweep_pass_def sweep_decide_def record_flag_pass_def Let_def mod_Suc)
qed


subsection \<open>Properties\<close>

text \<open>
  C15: Along every history of reports, completed full syncs and flag passes from a mailbox never
  synced, the engine trusts the server's change feed only when it may: a plan that is not a
  full resync means the reported generation is the stored one, a full sync completed and
  every report after it named that generation, and the sequence it asks from was itself
  reported under that generation and is no larger than the server's.
\<close>

theorem sync_plan_never_trusts_stale_state:
  assumes "\<not> plan_is_full (sync_plan (sync_run (never_synced m a) evs) st)"
  defines "g \<equiv> ms_generation st"
  shows "\<exists>q r. ss_generation (sync_run (never_synced m a) evs) = Some g
     \<and> ms_highest_mod_seq st = Some r \<and> q \<le> r
     \<and> (sync_plan (sync_run (never_synced m a) evs) st = (if q < r then Incremental q else UpToDate))
     \<and> (\<exists>pre st' at post. evs = pre @ Observed st' at # post \<and> ms_generation st' = g
          \<and> ms_highest_mod_seq st' = Some q
          \<and> (\<forall>st'' at''. Observed st'' at'' \<in> set post \<longrightarrow> ms_generation st'' = g))
     \<and> (\<exists>pre at post. evs = pre @ FullSync at # post
          \<and> (\<forall>st'' at''. Observed st'' at'' \<in> set post \<longrightarrow> ms_generation st'' = g))"
proof -
  let ?s = "sync_run (never_synced m a) evs"
  obtain q r where s: "ss_generation ?s = Some g" "ss_last_full_sync_at ?s \<noteq> None"
      "ss_highest_mod_seq ?s = Some q" "ms_highest_mod_seq st = Some r" "q \<le> r"
      "sync_plan ?s st = (if q < r then Incremental q else UpToDate)"
    using assms(1) unfolding g_def sync_plan_def has_synced_def
    by (auto simp: generation_changed_def split: option.splits if_split_asm)
  have "wrote_mod_seq g q evs" "wrote_full_sync g evs"
    using sync_hist_run [of m a evs] s(1-3) by (auto simp: sync_hist_def)
  then show ?thesis
    using s unfolding wrote_mod_seq_def wrote_full_sync_def under_def by blast
qed

theorem sync_plan_never_trusts_stale_state_witness:
  "\<exists>q r. ms_highest_mod_seq \<lparr>ms_generation = 7, ms_uid_next = None, ms_highest_mod_seq = Some 12\<rparr> = Some r
     \<and> q \<le> r
     \<and> sync_plan (sync_run (never_synced 1 1)
         [Observed \<lparr>ms_generation = 7, ms_uid_next = Some 3, ms_highest_mod_seq = Some 9\<rparr> 0, FullSync 1])
        \<lparr>ms_generation = 7, ms_uid_next = None, ms_highest_mod_seq = Some 12\<rparr>
       = (if q < r then Incremental q else UpToDate)"
proof -
  have "\<not> plan_is_full (sync_plan (sync_run (never_synced 1 1)
         [Observed \<lparr>ms_generation = 7, ms_uid_next = Some 3, ms_highest_mod_seq = Some 9\<rparr> 0, FullSync 1])
        \<lparr>ms_generation = 7, ms_uid_next = None, ms_highest_mod_seq = Some 12\<rparr>)"
    by (simp add: sync_run_def never_synced_def sync_observe_def complete_full_sync_def
        generation_changed_def sync_plan_def has_synced_def)
  from sync_plan_never_trusts_stale_state [OF this] show ?thesis by blast
qed

text \<open>
  A first synchronisation cut short is never taken for a finished one: until a full sync
  completes, every report is answered with a full resync; and a report of a new
  generation always is, whatever was stored.
\<close>

theorem sync_interrupted_first_sync_is_full:
  assumes "\<forall>at. FullSync at \<notin> set evs"
  shows "plan_is_full (sync_plan (sync_run (never_synced m a) evs) st)
     \<and> (\<forall>s. generation_changed s (ms_generation st) \<longrightarrow> sync_plan s st = Full GenerationChanged)"
proof -
  have "ss_last_full_sync_at (sync_run (never_synced m a) evs) = None"
    using assms
  proof (induction evs rule: rev_induct)
    case (snoc e evs)
    then show ?case
      by (cases e) (auto simp: run_snoc observe_fields record_flag_pass_def)
  qed (simp add: sync_run_def never_synced_def)
  then show ?thesis by (simp add: sync_plan_def has_synced_def)
qed

theorem sync_interrupted_first_sync_is_full_witness:
  "plan_is_full (sync_plan (sync_run (never_synced 1 1)
      [Observed (with_highest_mod_seq (status_new 7) 9) 0, FlagPass True]) (status_new 7))"
  using sync_interrupted_first_sync_is_full [of "[Observed (with_highest_mod_seq (status_new 7) 9) 0, FlagPass True]"]
  by simp

text \<open>
  The sweep schedule: with an unreliable feed a folder over the threshold is swept on
  every \<open>larger_every\<close>-th pass exactly (nine passes trust the feed, the tenth sweeps), a
  folder up to the threshold on every pass, and a reliable feed is never swept.
\<close>

theorem sweep_schedule:
  assumes "1 \<le> sw_larger_every p" "sw_larger_every p \<le> u32_max"
    and "ss_passes_since_flag_sweep s = 0"
  shows "snd (sweep_pass p exists (after_passes p exists n s)) =
     (if exists \<le> sw_every_pass_up_to p \<or> Suc n mod sw_larger_every p = 0 then Sweep else Trust)
   \<and> sweep_decide p exists k Reliable = Trust"
proof (cases "exists \<le> sw_every_pass_up_to p")
  case False
  let ?k = "n mod sw_larger_every p"
  have "?k < sw_larger_every p" using assms(1) by simp
  then have "sat_add32 ?k 1 = Suc ?k" using assms(2) by (simp add: sat_add32_exact)
  then show ?thesis
    using False sweep_counter [of p exists s n] assms \<open>?k < _\<close>
    by (auto simp: sweep_pass_def sweep_decide_def Let_def mod_Suc)
qed (simp add: sweep_pass_def sweep_decide_def Let_def)

theorem sweep_schedule_witness:
  "snd (sweep_pass sweep_default 60000 (after_passes sweep_default 60000 9 (never_synced 1 1))) = Sweep
   \<and> snd (sweep_pass sweep_default 60000 (after_passes sweep_default 60000 8 (never_synced 1 1))) = Trust"
  using sweep_schedule [of sweep_default "never_synced 1 1" 60000 9]
    sweep_schedule [of sweep_default "never_synced 1 1" 60000 8]
  by (simp add: sweep_default_def never_synced_def u32_max_def)


subsection \<open>The comparison\<close>

text \<open>The store with a list of corrections written.\<close>

definition corrected ::
  "(message_id \<times> flag_set) list \<Rightarrow> (message_id \<times> nat \<times> flag_set) list \<Rightarrow> (message_id \<times> nat \<times> flag_set) list" where
  "corrected fixes stored =
     map (\<lambda>(i, uid, held). (i, uid, case map_of fixes i of None \<Rightarrow> held | Some flags \<Rightarrow> flags)) stored"

lemma by_uid_distinct:
  assumes "distinct (map (\<lambda>(_, uid, _). uid) stored)"
  shows "by_uid stored uid = Some (i, held) \<longleftrightarrow> (i, uid, held) \<in> set stored"
proof -
  have "distinct (map fst (rev (map (\<lambda>(i, uid, flags). (uid, (i, flags))) stored)))"
    using assms by (simp add: rev_map [symmetric] case_prod_unfold comp_def)
  then show ?thesis
    unfolding by_uid_def by (subst map_of_eq_Some_iff) (auto simp: image_iff intro: bexI [rotated])
qed

lemma disagreements_mem:
  assumes "distinct (map (\<lambda>(_, uid, _). uid) stored)"
  shows "(i, flags) \<in> set (disagreements stored server) \<longleftrightarrow>
     (\<exists>uid held. (i, uid, held) \<in> set stored \<and> (uid, flags) \<in> set server
        \<and> \<not> fs_eq (fs_persistable held) (fs_persistable flags))"
  unfolding disagreements_def set_map_filter_iff
proof
  assume "\<exists>y\<in>set server. (case y of (uid, flags) \<Rightarrow>
      case by_uid stored uid of None \<Rightarrow> None
      | Some (i, held) \<Rightarrow> if \<not> fs_eq (fs_persistable held) (fs_persistable flags) then Some (i, flags) else None)
      = Some (i, flags)"
  then show "\<exists>uid held. (i, uid, held) \<in> set stored \<and> (uid, flags) \<in> set server
        \<and> \<not> fs_eq (fs_persistable held) (fs_persistable flags)"
    by (auto simp: by_uid_distinct [OF assms] split: option.splits if_split_asm) blast
next
  assume "\<exists>uid held. (i, uid, held) \<in> set stored \<and> (uid, flags) \<in> set server
        \<and> \<not> fs_eq (fs_persistable held) (fs_persistable flags)"
  then obtain uid held where h: "by_uid stored uid = Some (i, held)" "(uid, flags) \<in> set server"
      "\<not> fs_eq (fs_persistable held) (fs_persistable flags)"
    by (auto simp: by_uid_distinct [OF assms])
  show "\<exists>y\<in>set server. (case y of (uid, flags) \<Rightarrow>
      case by_uid stored uid of None \<Rightarrow> None
      | Some (i, held) \<Rightarrow> if \<not> fs_eq (fs_persistable held) (fs_persistable flags) then Some (i, flags) else None)
      = Some (i, flags)"
    by (rule bexI [OF _ h(2)]) (simp add: h(1,3))
qed

text \<open>
  A sweep names exactly the stored messages whose flags, \<open>\Recent\<close> aside, differ from
  what the server lists, with the server's flags: no arrival and no deletion.  Writing
  those corrections leaves nothing for the next sweep to find.
\<close>

theorem sweep_corrects_exactly_the_differences:
  assumes "distinct (map (\<lambda>(i, _, _). i) stored)" "distinct (map (\<lambda>(_, uid, _). uid) stored)"
    and "distinct (map fst server)"
  shows "(\<forall>i flags. (i, flags) \<in> set (disagreements stored server) \<longleftrightarrow>
       (\<exists>uid held. (i, uid, held) \<in> set stored \<and> (uid, flags) \<in> set server
          \<and> fs_keys held - {flag_key Recent} \<noteq> fs_keys flags - {flag_key Recent}))
     \<and> disagreements (corrected (disagreements stored server) stored) server = []"
proof -
  let ?fixes = "disagreements stored server"
  have eq: "fs_eq (fs_persistable s) (fs_persistable t)
      \<longleftrightarrow> fs_keys s - {flag_key Recent} = fs_keys t - {flag_key Recent}" for s t
    by (subst fs_eq_keys) (simp_all add: fs_keys_persistable, simp_all add: fs_persistable_def fs.inv_collect)
  have same_id: "uid = uid' \<and> h = h'" if "(i, uid, h) \<in> set stored" "(i, uid', h') \<in> set stored" for i uid uid' h h'
    using assms(1) that by (force simp: distinct_map inj_on_def)
  have same_uid: "f = f'" if "(uid, f) \<in> set server" "(uid, f') \<in> set server" for uid f f'
    using assms(3) that by (metis eq_key_imp_eq_value)
  have d2: "distinct (map (\<lambda>(_, uid, _). uid) (corrected ?fixes stored))"
    using assms(2) by (simp add: corrected_def comp_def case_prod_unfold)
  have none: "x \<notin> set (disagreements (corrected ?fixes stored) server)" for x
  proof
    obtain i f where x: "x = (i, f)" by (cases x)
    assume "x \<in> set (disagreements (corrected ?fixes stored) server)"
    then obtain uid held where st: "(i, uid, held) \<in> set stored" and sv: "(uid, f) \<in> set server"
      and ne: "\<not> fs_eq (fs_persistable (case map_of ?fixes i of None \<Rightarrow> held | Some g \<Rightarrow> g)) (fs_persistable f)"
      unfolding x disagreements_mem [OF d2] by (auto simp: corrected_def)
    show False
    proof (cases "map_of ?fixes i")
      case None
      then have "(i, f) \<notin> set ?fixes" by (force simp: map_of_eq_None_iff image_iff)
      with st sv ne None show False unfolding disagreements_mem [OF assms(2)] by auto
    next
      case (Some g)
      then have "(i, g) \<in> set ?fixes" by (rule map_of_SomeD)
      then obtain uid' held' where "(i, uid', held') \<in> set stored" "(uid', g) \<in> set server"
        unfolding disagreements_mem [OF assms(2)] by blast
      with same_id [OF st] same_uid [OF sv] have "g = f" by blast
      with ne Some show False by (simp add: eq)
    qed
  qed
  then have "disagreements (corrected ?fixes stored) server = []"
    by (metis list.set_intros(1) neq_Nil_conv)
  then show ?thesis unfolding disagreements_mem [OF assms(2)] eq by blast
qed

theorem sweep_corrects_exactly_the_differences_witness:
  "(10, [Flagged]) \<in> set (disagreements [(10, 1, []), (11, 2, [Seen])] [(1, [Flagged]), (2, [Seen, Recent]), (9, [Seen])])"
  using sweep_corrects_exactly_the_differences
    [of "[(10, 1, []), (11, 2, [Seen])]" "[(1, [Flagged]), (2, [Seen, Recent]), (9, [Seen])]"]
  by (auto simp: fs_keys_def)

end
