(* ===== verification/Operations.thy ===== *)
theory Operations
  imports Flags
begin

section \<open>The mutation vocabulary\<close>

text \<open>
  \<open>crates/postio-model/src/operation.rs\<close>: what a local-first action asks the server to
  do, what undoes it, and the life cycle of a queue row; and \<open>QueuedOperation\<close>, the
  row as \<open>crates/postio-storage/src/repository/operations.rs\<close> holds it.  Constructors
  carry the fields of the Rust variants in their order.
\<close>

datatype operation_target =
    Message message_id
  | Thread thread_id
  | Mailbox mailbox_id
  | Draft_target draft_id
  | Account account_id

fun target_kind :: "operation_target \<Rightarrow> string" where
  "target_kind (Message _) = ''message''"
| "target_kind (Thread _) = ''thread''"
| "target_kind (Mailbox _) = ''mailbox''"
| "target_kind (Draft_target _) = ''draft''"
| "target_kind (Account _) = ''account''"

fun target_id :: "operation_target \<Rightarrow> int" where
  "target_id (Message i) = i"
| "target_id (Thread i) = i"
| "target_id (Mailbox i) = i"
| "target_id (Draft_target i) = i"
| "target_id (Account i) = i"

definition target_from_parts :: "string \<Rightarrow> int \<Rightarrow> operation_target option" where
  "target_from_parts kind i =
     (if kind = ''message'' then Some (Message i)
      else if kind = ''thread'' then Some (Thread i)
      else if kind = ''mailbox'' then Some (Mailbox i)
      else if kind = ''draft'' then Some (Draft_target i)
      else if kind = ''account'' then Some (Account i)
      else None)"

record operation_range =
  range_first :: operation_id
  range_last :: operation_id

definition range_is_empty :: "operation_range \<Rightarrow> bool" where
  "range_is_empty r \<longleftrightarrow> range_last r < range_first r"

datatype operation_state = Pending | InFlight | Done | Failed

fun state_as_str :: "operation_state \<Rightarrow> string" where
  "state_as_str Pending = ''pending''"
| "state_as_str InFlight = ''in_flight''"
| "state_as_str Done = ''done''"
| "state_as_str Failed = ''failed''"

definition state_from_name :: "string \<Rightarrow> operation_state option" where
  "state_from_name s =
     (if s = ''pending'' then Some Pending
      else if s = ''in_flight'' then Some InFlight
      else if s = ''done'' then Some Done
      else if s = ''failed'' then Some Failed
      else None)"

fun is_settled :: "operation_state \<Rightarrow> bool" where
  "is_settled s = (s = Done \<or> s = Failed)"

datatype operation =
    SetFlags flag_set
  | ClearFlags flag_set
  | Move mailbox_id mailbox_id  \<comment> \<open>from, to\<close>
  | Delete mailbox_id mailbox_id  \<comment> \<open>from, trash\<close>
  | Expunge mailbox_id
  | Purge mailbox_id
  | Append mailbox_id blob_id flag_set
  | Send draft_id
  | SaveDraft mailbox_id
  | DiscardDraft mailbox_id remote_id
  | CrossAccountCopy saga_id
  | CrossAccountRemove saga_id

fun op_type :: "operation \<Rightarrow> string" where
  "op_type (SetFlags _) = ''set_flags''"
| "op_type (ClearFlags _) = ''clear_flags''"
| "op_type (Move _ _) = ''move''"
| "op_type (Delete _ _) = ''delete''"
| "op_type (Expunge _) = ''expunge''"
| "op_type (Purge _) = ''purge''"
| "op_type (Append _ _ _) = ''append''"
| "op_type (Send _) = ''send''"
| "op_type (SaveDraft _) = ''save_draft''"
| "op_type (DiscardDraft _ _) = ''discard_draft''"
| "op_type (CrossAccountCopy _) = ''cross_account_copy''"
| "op_type (CrossAccountRemove _) = ''cross_account_remove''"

fun inverse :: "operation \<Rightarrow> operation option" where
  "inverse (SetFlags fs) = Some (ClearFlags fs)"
| "inverse (ClearFlags fs) = Some (SetFlags fs)"
| "inverse (Move from to) = Some (Move to from)"
| "inverse (Delete from trash) = Some (Move trash from)"
| "inverse _ = None"

definition is_reversible :: "operation \<Rightarrow> bool" where
  "is_reversible op \<longleftrightarrow> inverse op \<noteq> None"

fun op_mailbox :: "operation \<Rightarrow> mailbox_id option" where
  "op_mailbox (Move from _) = Some from"
| "op_mailbox (Delete from _) = Some from"
| "op_mailbox (Expunge m) = Some m"
| "op_mailbox (Purge m) = Some m"
| "op_mailbox (Append m _ _) = Some m"
| "op_mailbox (SaveDraft m) = Some m"
| "op_mailbox (DiscardDraft m _) = Some m"
| "op_mailbox _ = None"

text \<open>One row of the mutation queue, with the columns of the table (times in milliseconds).\<close>

record queued_operation =
  q_id :: operation_id
  q_account :: account_id
  q_target :: operation_target
  q_operation :: operation
  q_inverse :: "operation option"
  q_mailbox :: "mailbox_id option"
  q_state :: operation_state
  q_attempts :: nat
  q_last_error :: "string option"
  q_next_attempt :: "int option"
  q_created :: int
  q_updated :: int
  q_source_remote :: "remote_id option"

lemma target_from_parts_kind: "target_from_parts (target_kind t) (target_id t) = Some t"
  by (cases t) (simp_all add: target_from_parts_def)

lemma target_from_parts_Some:
  assumes "target_from_parts k i = Some t"
  shows "target_kind t = k \<and> target_id t = i"
  using assms unfolding target_from_parts_def by (simp split: if_split_asm) (drule sym, simp)+

lemma target_eq_parts: "t = u \<longleftrightarrow> target_kind t = target_kind u \<and> target_id t = target_id u"
  by (cases t; cases u) auto

lemma state_from_name_as_str: "state_from_name (state_as_str st) = Some st"
  by (cases st) (simp_all add: state_from_name_def)

lemma state_from_name_Some:
  assumes "state_from_name s = Some st"
  shows "state_as_str st = s"
  using assms unfolding state_from_name_def by (simp split: if_split_asm)


subsection \<open>What an operation does to the server's copy of its target\<close>

text \<open>
  The abstract specification the coalescer is held to.  One target as the server sees it:
  the mailbox its message is in, the flags on it, whether the Drafts mailbox holds a copy
  of the draft, and the operations that are events rather than states (a send, an append,
  an expunge, \<dots>), in the order they happened.  A move names where the message must be;
  from anywhere else it is refused (\<open>None\<close>).
\<close>

record served =
  sv_loc :: mailbox_id
  sv_flags :: "(nat \<times> nat list) set"
  sv_copy :: bool
  sv_log :: "operation list"

fun serve :: "served \<Rightarrow> operation \<Rightarrow> served option" where
  "serve s (SetFlags fs) = Some (s\<lparr>sv_flags := sv_flags s \<union> fs_keys fs\<rparr>)"
| "serve s (ClearFlags fs) = Some (s\<lparr>sv_flags := sv_flags s - fs_keys fs\<rparr>)"
| "serve s (Move from to) = (if sv_loc s = from then Some (s\<lparr>sv_loc := to\<rparr>) else None)"
| "serve s (Delete from trash) = (if sv_loc s = from then Some (s\<lparr>sv_loc := trash\<rparr>) else None)"
| "serve s (SaveDraft _) = Some (s\<lparr>sv_copy := True\<rparr>)"
| "serve s (DiscardDraft _ _) = Some (s\<lparr>sv_copy := False\<rparr>)"
| "serve s op = Some (s\<lparr>sv_log := sv_log s @ [op]\<rparr>)"

fun serve_all :: "served \<Rightarrow> operation list \<Rightarrow> served option" where
  "serve_all s [] = Some s"
| "serve_all s (op # ops) =
     (case serve s op of None \<Rightarrow> None | Some s' \<Rightarrow> serve_all s' ops)"

text \<open>
  The condition the enqueueing code establishes: a flag change names flags that really
  change (\<open>set_flag_rows\<close> and \<open>set_flag_set\<close> of \<open>crates/postio-session/src/actions.rs\<close>
  queue only the rows that disagree), and a move starts where the message is.
\<close>

fun effective :: "served \<Rightarrow> operation \<Rightarrow> bool" where
  "effective s (SetFlags fs) \<longleftrightarrow> sv_flags s \<inter> fs_keys fs = {}"
| "effective s (ClearFlags fs) \<longleftrightarrow> fs_keys fs \<subseteq> sv_flags s"
| "effective s (Move from _) \<longleftrightarrow> sv_loc s = from"
| "effective s (Delete from _) \<longleftrightarrow> sv_loc s = from"
| "effective s _ \<longleftrightarrow> True"

fun effective_run :: "served \<Rightarrow> operation list \<Rightarrow> bool" where
  "effective_run s [] = True"
| "effective_run s (op # ops) \<longleftrightarrow>
     effective s op \<and> (\<exists>s'. serve s op = Some s' \<and> effective_run s' ops)"

lemma effective_serves: "effective s op \<Longrightarrow> \<exists>s'. serve s op = Some s'"
  by (cases op) auto

lemma serve_all_append:
  "serve_all s (xs @ ys) = Option.bind (serve_all s xs) (\<lambda>t. serve_all t ys)"
  by (induction xs arbitrary: s) (auto split: option.splits)

lemma effective_run_append:
  "effective_run s (xs @ ys) \<longleftrightarrow>
     effective_run s xs \<and> (\<exists>t. serve_all s xs = Some t \<and> effective_run t ys)"
  by (induction xs arbitrary: s) auto

lemma effective_run_serves: "effective_run s ops \<Longrightarrow> \<exists>t. serve_all s ops = Some t"
  by (induction ops arbitrary: s) auto

lemma inverse_undoes:
  assumes "inverse op = Some un" and "effective s op" and "serve s op = Some t"
  shows "serve t un = Some s"
  using assms by (cases op) (auto simp: Diff_triv Un_Diff Un_absorb1 Un_absorb2)


subsection \<open>Undo\<close>

lemma inverse_effective:
  assumes "inverse op = Some un" and "effective s op" and "serve s op = Some t"
  shows "effective t un"
  using assms by (cases op) auto

text \<open>
  Undo restores the server.  After any run of reversible operations, each taking effect,
  the inverses in reverse order all take effect and bring the target back to exactly where
  it was: mailbox, flags, server draft copy and history.
\<close>

theorem operation_undo_restores:
  assumes "effective_run s ops" and "\<forall>op\<in>set ops. is_reversible op" and "serve_all s ops = Some t"
  shows "serve_all t (rev (map (\<lambda>x. the (inverse x)) ops)) = Some s
     \<and> effective_run t (rev (map (\<lambda>x. the (inverse x)) ops))"
  using assms
proof (induction ops arbitrary: s)
  case (Cons op ops)
  obtain s1 where s1: "serve s op = Some s1" "effective_run s1 ops" "effective s op"
    using Cons.prems(1) by auto
  obtain un where un: "inverse op = Some un" using Cons.prems(2) by (auto simp: is_reversible_def)
  have rest: "serve_all t (rev (map (\<lambda>x. the (inverse x)) ops)) = Some s1"
    "effective_run t (rev (map (\<lambda>x. the (inverse x)) ops))"
    using Cons.IH [OF s1(2)] Cons.prems s1(1) by simp_all
  then show ?case
    using un inverse_undoes [OF un s1(3,1)] inverse_effective [OF un s1(3,1)]
    by (simp add: serve_all_append effective_run_append)
qed simp

theorem operation_undo_restores_witness:
  "serve_all \<lparr>sv_loc = 2, sv_flags = {(0, [])}, sv_copy = False, sv_log = []\<rparr> [Move 2 1, ClearFlags [Seen]]
   = Some \<lparr>sv_loc = 1, sv_flags = {}, sv_copy = False, sv_log = []\<rparr>"
proof -
  let ?s = "\<lparr>sv_loc = 1, sv_flags = {}, sv_copy = False, sv_log = []\<rparr>"
  let ?t = "\<lparr>sv_loc = 2, sv_flags = {(0, [])}, sv_copy = False, sv_log = []\<rparr>"
  have "effective_run ?s [SetFlags [Seen], Move 1 2]" "serve_all ?s [SetFlags [Seen], Move 1 2] = Some ?t"
    by (simp_all add: fs_keys_def)
  from operation_undo_restores [OF this(1) _ this(2)] show ?thesis by (simp add: is_reversible_def)
qed

end
