(* ===== verification/Op_Queue.thy ===== *)
theory Op_Queue
  imports Operations
begin

section \<open>The mutation queue\<close>

text \<open>
  \<open>crates/postio-storage/src/repository/operations.rs\<close>: every statement of
  \<open>OperationQueueRepository\<close> over the two tables it touches.  A table is the list of
  its rows in id order; \<open>o_next\<close> is the \<open>AUTOINCREMENT\<close> counter.  Of a row of
  \<open>messages\<close> only the columns the queue reads or writes are kept.  Instants are the
  milliseconds the table stores; the JSON payload is the operation itself.  A
  \<open>MessageSet\<close> is given by the rows its predicate selects.  Failures of the database
  engine are not modelled, the repository's own errors are.
\<close>

record message_row =
  m_id :: message_id
  m_mailbox :: mailbox_id
  m_thread :: "thread_id option"
  m_uid :: "nat option"
  m_remote :: "remote_id option"
  m_has_pending :: bool

record op_store =
  o_queue :: "queued_operation list"
  o_next :: operation_id
  o_messages :: "message_row list"

datatype storage_error = NotPersisted string | NotFound string int | ForbiddenTransition string string

definition require_persisted :: "int \<Rightarrow> string \<Rightarrow> storage_error + int" where
  "require_persisted i entity = (if 0 < i then Inr i else Inl (NotPersisted entity))"

definition unsettled :: "queued_operation \<Rightarrow> bool" where
  "unsettled r \<longleftrightarrow> q_state r = Pending \<or> q_state r = InFlight"

definition on_target :: "operation_target \<Rightarrow> queued_operation \<Rightarrow> bool" where
  "on_target t r \<longleftrightarrow> target_kind (q_target r) = target_kind t \<and> target_id (q_target r) = target_id t"

text \<open>\<open>UPDATE operation_queue SET \<dots> WHERE \<dots>\<close>.\<close>

definition update_rows ::
  "(queued_operation \<Rightarrow> bool) \<Rightarrow> (queued_operation \<Rightarrow> queued_operation) \<Rightarrow> op_store \<Rightarrow> op_store" where
  "update_rows P f s = s\<lparr>o_queue := map (\<lambda>r. if P r then f r else r) (o_queue s)\<rparr>"

definition refresh_pending_flag :: "op_store \<Rightarrow> operation_target \<Rightarrow> op_store" where
  "refresh_pending_flag s t =
     (let flag = list_ex (\<lambda>r. on_target t r \<and> unsettled r) (o_queue s) in
      case t of
        Message i \<Rightarrow>
          s\<lparr>o_messages := map (\<lambda>m. if m_id m = i then m\<lparr>m_has_pending := flag\<rparr> else m) (o_messages s)\<rparr>
      | Thread i \<Rightarrow>
          s\<lparr>o_messages := map (\<lambda>m. if m_thread m = Some i then m\<lparr>m_has_pending := flag\<rparr> else m) (o_messages s)\<rparr>
      | _ \<Rightarrow> s)"

definition fresh_row ::
  "operation_id \<Rightarrow> account_id \<Rightarrow> operation_target \<Rightarrow> operation \<Rightarrow> int \<Rightarrow> int option \<Rightarrow> remote_id option
   \<Rightarrow> queued_operation" where
  "fresh_row i account t op at next_attempt_at remote =
     \<lparr>q_id = i, q_account = account, q_target = t, q_operation = op, q_inverse = inverse op,
      q_mailbox = (case op_mailbox op of Some m \<Rightarrow> if is_assigned m then Some m else None | None \<Rightarrow> None),
      q_state = Pending, q_attempts = 0, q_last_error = None, q_next_attempt = next_attempt_at,
      q_created = at, q_updated = at, q_source_remote = remote\<rparr>"

definition insert_row ::
  "op_store \<Rightarrow> account_id \<Rightarrow> operation_target \<Rightarrow> operation \<Rightarrow> int \<Rightarrow> int option \<Rightarrow> remote_id option
   \<Rightarrow> op_store \<times> queued_operation" where
  "insert_row s account t op at next_attempt_at remote =
     (let r = fresh_row (o_next s) account t op at next_attempt_at remote
      in (s\<lparr>o_queue := o_queue s @ [r], o_next := o_next s + 1\<rparr>, r))"

lemma fresh_row_fields [simp]:
  "q_id (fresh_row i a t op at n rem) = i" "q_account (fresh_row i a t op at n rem) = a"
  "q_target (fresh_row i a t op at n rem) = t" "q_operation (fresh_row i a t op at n rem) = op"
  "q_state (fresh_row i a t op at n rem) = Pending" "q_attempts (fresh_row i a t op at n rem) = 0"
  "q_next_attempt (fresh_row i a t op at n rem) = n" "q_source_remote (fresh_row i a t op at n rem) = rem"
  "q_last_error (fresh_row i a t op at n rem) = None" "q_inverse (fresh_row i a t op at n rem) = inverse op"
  by (simp_all add: fresh_row_def)

text \<open>The snapshot of where a message sits, read before the caller's local write.\<close>

definition source_remote_id :: "op_store \<Rightarrow> operation_target \<Rightarrow> remote_id option" where
  "source_remote_id s t =
     (case t of
        Message i \<Rightarrow> (case find (\<lambda>m. m_id m = i) (o_messages s) of Some m \<Rightarrow> m_remote m | None \<Rightarrow> None)
      | _ \<Rightarrow> None)"

definition enqueue_inner ::
  "op_store \<Rightarrow> account_id \<Rightarrow> operation_target \<Rightarrow> operation \<Rightarrow> int \<Rightarrow> int option
   \<Rightarrow> storage_error + (op_store \<times> queued_operation)" where
  "enqueue_inner s account t op at next_attempt_at =
     (case require_persisted account ''account'' of
        Inl e \<Rightarrow> Inl e
      | Inr account \<Rightarrow>
          (let (s', r) = insert_row s account t op at next_attempt_at (source_remote_id s t)
           in Inr (refresh_pending_flag s' t, r)))"

definition enqueue ::
  "op_store \<Rightarrow> account_id \<Rightarrow> operation_target \<Rightarrow> operation \<Rightarrow> int
   \<Rightarrow> storage_error + (op_store \<times> queued_operation)" where
  "enqueue s account t op at = enqueue_inner s account t op at None"

definition enqueue_not_before ::
  "op_store \<Rightarrow> account_id \<Rightarrow> operation_target \<Rightarrow> operation \<Rightarrow> int \<Rightarrow> int
   \<Rightarrow> storage_error + (op_store \<times> queued_operation)" where
  "enqueue_not_before s account t op at not_before = enqueue_inner s account t op at (Some not_before)"

text \<open>\<open>INSERT \<dots> SELECT\<close>: one row per message, in id order.\<close>

definition insert_messages ::
  "op_store \<Rightarrow> account_id \<Rightarrow> operation \<Rightarrow> int \<Rightarrow> message_row list \<Rightarrow> op_store" where
  "insert_messages s account op at ms =
     foldl (\<lambda>s m. fst (insert_row s account (Message (m_id m)) op at None (m_remote m))) s ms"

definition flag_messages :: "(message_row \<Rightarrow> bool) \<Rightarrow> op_store \<Rightarrow> op_store" where
  "flag_messages P s =
     s\<lparr>o_messages := map (\<lambda>m. if P m then m\<lparr>m_has_pending := True\<rparr> else m) (o_messages s)\<rparr>"

definition enqueue_set ::
  "op_store \<Rightarrow> account_id \<Rightarrow> (message_row \<Rightarrow> bool) \<Rightarrow> operation \<Rightarrow> int
   \<Rightarrow> storage_error + (op_store \<times> operation_range option)" where
  "enqueue_set s account P op at =
     (case require_persisted account ''account'' of
        Inl e \<Rightarrow> Inl e
      | Inr account \<Rightarrow>
          (let highest = foldr max (map q_id (o_queue s)) 0;
               ms = filter P (sort_key m_id (o_messages s));
               s' = insert_messages s account op at ms
           in if ms = [] then Inr (s', None)
              else Inr (flag_messages P s',
                        Some \<lparr>range_first = highest + 1, range_last = o_next s' - 1\<rparr>)))"

definition enqueue_many ::
  "op_store \<Rightarrow> account_id \<Rightarrow> message_id list \<Rightarrow> operation \<Rightarrow> int \<Rightarrow> storage_error + op_store" where
  "enqueue_many s account ids op at =
     (if ids = [] then Inr s
      else (case require_persisted account ''account'' of
          Inl e \<Rightarrow> Inl e
        | Inr account \<Rightarrow>
            (let named = (\<lambda>m. m_id m \<in> set ids);
                 s' = insert_messages s account op at (filter named (sort_key m_id (o_messages s)))
             in Inr (flag_messages named s'))))"

definition leaving_after ::
  "op_store \<Rightarrow> message_id \<Rightarrow> operation_id \<Rightarrow> (mailbox_id \<times> remote_id) option" where
  "leaving_after s message after =
     (case find (\<lambda>r. on_target (Message message) r \<and> after < q_id r
             \<and> (op_type (q_operation r) = ''move'' \<or> op_type (q_operation r) = ''delete'')
             \<and> unsettled r \<and> q_mailbox r \<noteq> None \<and> q_source_remote r \<noteq> None) (o_queue s) of
        Some r \<Rightarrow> Some (the (q_mailbox r), the (q_source_remote r))
      | None \<Rightarrow> None)"

definition get_row :: "op_store \<Rightarrow> operation_id \<Rightarrow> queued_operation option" where
  "get_row s i = find (\<lambda>r. q_id r = i) (o_queue s)"

definition is_due :: "account_id \<Rightarrow> int \<Rightarrow> queued_operation \<Rightarrow> bool" where
  "is_due account now r \<longleftrightarrow>
     q_account r = account \<and> q_state r = Pending
     \<and> (case q_next_attempt r of None \<Rightarrow> True | Some at \<Rightarrow> at \<le> now)"

definition pending :: "op_store \<Rightarrow> account_id \<Rightarrow> int \<Rightarrow> queued_operation list" where
  "pending s account now = filter (is_due account now) (o_queue s)"

definition pending_for :: "op_store \<Rightarrow> operation_target \<Rightarrow> queued_operation option" where
  "pending_for s t = find (\<lambda>r. on_target t r \<and> unsettled r) (o_queue s)"

definition last_failure_for :: "op_store \<Rightarrow> operation_target \<Rightarrow> string option" where
  "last_failure_for s t =
     (case find (\<lambda>r. on_target t r \<and> q_state r = Failed) (rev (o_queue s)) of
        Some r \<Rightarrow> q_last_error r
      | None \<Rightarrow> None)"

definition has_pending :: "op_store \<Rightarrow> operation_target \<Rightarrow> bool" where
  "has_pending s t \<longleftrightarrow> 0 < length (filter (\<lambda>r. on_target t r \<and> unsettled r) (o_queue s))"

definition has_unsettled_in :: "op_store \<Rightarrow> mailbox_id \<Rightarrow> bool" where
  "has_unsettled_in s m \<longleftrightarrow>
     0 < length (filter (\<lambda>r. q_mailbox r = Some m \<and> (unsettled r \<or> q_state r = Failed)) (o_queue s))"

definition row_exists :: "op_store \<Rightarrow> operation_id \<Rightarrow> bool" where
  "row_exists s i \<longleftrightarrow> list_ex (\<lambda>r. q_id r = i) (o_queue s)"

definition note_row :: "op_store \<Rightarrow> operation_id \<Rightarrow> string \<Rightarrow> storage_error + op_store" where
  "note_row s i n =
     (if row_exists s i
      then Inr (update_rows (\<lambda>r. q_id r = i) (\<lambda>r. r\<lparr>q_last_error := Some n\<rparr>) s)
      else Inl (NotFound ''operation'' i))"

definition set_state ::
  "op_store \<Rightarrow> operation_id \<Rightarrow> operation_state \<Rightarrow> int \<Rightarrow> string option \<Rightarrow> bool \<Rightarrow> storage_error + op_store" where
  "set_state s i st at error count_attempt =
     (case get_row s i of
        None \<Rightarrow> Inl (NotFound ''operation'' i)
      | Some queued \<Rightarrow>
          Inr (refresh_pending_flag
            (update_rows (\<lambda>r. q_id r = i)
              (\<lambda>r. r\<lparr>q_state := st,
                     q_attempts := q_attempts r + (if count_attempt then 1 else 0),
                     q_last_error := (case error of Some e \<Rightarrow> Some e | None \<Rightarrow> q_last_error r),
                     q_updated := at\<rparr>) s)
            (q_target queued)))"

definition mark_in_flight :: "op_store \<Rightarrow> operation_id \<Rightarrow> int \<Rightarrow> storage_error + op_store" where
  "mark_in_flight s i at = set_state s i InFlight at None False"

definition mark_done :: "op_store \<Rightarrow> operation_id \<Rightarrow> int \<Rightarrow> storage_error + op_store" where
  "mark_done s i at = set_state s i Done at None False"

definition mark_failed :: "op_store \<Rightarrow> operation_id \<Rightarrow> int \<Rightarrow> string \<Rightarrow> storage_error + op_store" where
  "mark_failed s i at error = set_state s i Failed at (Some error) True"

definition defer_row :: "op_store \<Rightarrow> operation_id \<Rightarrow> int \<Rightarrow> string \<Rightarrow> storage_error + op_store" where
  "defer_row s i retry_at error =
     (if row_exists s i
      then Inr (update_rows (\<lambda>r. q_id r = i)
        (\<lambda>r. r\<lparr>q_state := Pending, q_attempts := q_attempts r + 1, q_last_error := Some error,
               q_next_attempt := Some retry_at, q_updated := retry_at\<rparr>) s)
      else Inl (NotFound ''operation'' i))"

definition requeue_in_flight :: "op_store \<Rightarrow> account_id \<Rightarrow> int \<Rightarrow> op_store \<times> nat" where
  "requeue_in_flight s account at =
     (let P = (\<lambda>r. q_account r = account \<and> q_state r = InFlight) in
      (update_rows P (\<lambda>r. r\<lparr>q_state := Pending, q_next_attempt := None, q_updated := at\<rparr>) s,
       length (filter P (o_queue s))))"

definition delete_row :: "op_store \<Rightarrow> operation_id \<Rightarrow> op_store \<times> bool" where
  "delete_row s i =
     (let t = map_option q_target (get_row s i);
          s' = s\<lparr>o_queue := filter (\<lambda>r. q_id r \<noteq> i) (o_queue s)\<rparr>;
          s'' = (case t of Some t \<Rightarrow> refresh_pending_flag s' t | None \<Rightarrow> s')
      in (s'', row_exists s i))"

definition prune_settled :: "op_store \<Rightarrow> account_id \<Rightarrow> int \<Rightarrow> op_store \<times> nat" where
  "prune_settled s account before =
     (let P = (\<lambda>r. q_account r = account \<and> (q_state r = Done \<or> q_state r = Failed) \<and> q_updated r < before) in
      (s\<lparr>o_queue := filter (\<lambda>r. \<not> P r) (o_queue s)\<rparr>, length (filter P (o_queue s))))"


subsection \<open>The invariant\<close>

text \<open>
  Rows are in id order below the counter, messages have distinct ids, no row is about a
  whole thread (the code enqueues none), and a message's flag says whether an unsettled row
  is about it.
\<close>

definition queue_wf :: "op_store \<Rightarrow> bool" where
  "queue_wf s \<longleftrightarrow>
     sorted_wrt (<) (map q_id (o_queue s)) \<and> (\<forall>r\<in>set (o_queue s). 0 < q_id r \<and> q_id r < o_next s) \<and> 0 < o_next s
     \<and> distinct (map m_id (o_messages s))
     \<and> (\<forall>r\<in>set (o_queue s). \<forall>i. q_target r \<noteq> Thread i)"

definition flags_true :: "op_store \<Rightarrow> bool" where
  "flags_true s \<longleftrightarrow>
     (\<forall>m\<in>set (o_messages s). m_has_pending m \<longleftrightarrow>
        (\<exists>r\<in>set (o_queue s). q_target r = Message (m_id m) \<and> unsettled r))"

lemma on_target_iff: "on_target t r \<longleftrightarrow> q_target r = t"
  by (auto simp: on_target_def target_eq_parts)

lemma row_exists_get: "row_exists s i \<longleftrightarrow> get_row s i \<noteq> None"
  by (auto simp: row_exists_def get_row_def list_ex_iff find_None_iff)

lemma get_row_mem:
  "queue_wf s \<Longrightarrow> get_row s i = Some r \<longleftrightarrow> r \<in> set (o_queue s) \<and> q_id r = i"
proof -
  assume wf: "queue_wf s"
  have uni: "r = r'" if "r \<in> set (o_queue s)" "r' \<in> set (o_queue s)" "q_id r = q_id r'" for r r'
    using wf that by (auto simp: queue_wf_def strict_sorted_iff distinct_map inj_on_def)
  show ?thesis
  proof
    assume "get_row s i = Some r"
    then show "r \<in> set (o_queue s) \<and> q_id r = i"
      by (auto simp: get_row_def find_Some_iff)
  next
    assume r: "r \<in> set (o_queue s) \<and> q_id r = i"
    then obtain r' where "get_row s i = Some r'"
      using row_exists_get by (auto simp: row_exists_def list_ex_iff)
    moreover from this have "r' \<in> set (o_queue s)" "q_id r' = i" by (auto simp: get_row_def find_Some_iff)
    ultimately show "get_row s i = Some r" using uni r by auto
  qed
qed



subsection \<open>The effect of each write\<close>

text \<open>\<open>get\<close> after a write, and the invariant after it.\<close>

lemma find_map_update:
  "find (\<lambda>r. q_id r = j) (map (\<lambda>r. if q_id r = i then f r else r) rs) =
   (if j = i then map_option f (find (\<lambda>r. q_id r = i) rs) else find (\<lambda>r. q_id r = j) rs)"
  if "\<And>r. q_id (f r) = q_id r" for rs :: "queued_operation list"
  using that by (induction rs) auto

lemma refresh_queue [simp]:
  "o_queue (refresh_pending_flag s t) = o_queue s" "o_next (refresh_pending_flag s t) = o_next s"
  "map m_id (o_messages (refresh_pending_flag s t)) = map m_id (o_messages s)"
  by (auto simp: refresh_pending_flag_def Let_def split: operation_target.splits)

lemma get_refresh [simp]: "get_row (refresh_pending_flag s t) i = get_row s i"
  by (simp add: get_row_def)

lemma update_fields [simp]:
  "o_next (update_rows P f s) = o_next s" "o_messages (update_rows P f s) = o_messages s"
  "o_queue (update_rows P f s) = map (\<lambda>r. if P r then f r else r) (o_queue s)"
  by (simp_all add: update_rows_def)

lemma get_update:
  "(\<And>r. q_id (f r) = q_id r) \<Longrightarrow>
   get_row (update_rows (\<lambda>r. q_id r = i) f s) j = (if j = i then map_option f (get_row s i) else get_row s j)"
  by (simp add: get_row_def find_map_update)

lemma map_id_update:
  "(\<And>r. q_id (f r) = q_id r) \<Longrightarrow> map q_id (map (\<lambda>r. if P r then f r else r) rs) = map q_id rs"
  by simp

lemma queue_wf_messages:
  "queue_wf s \<Longrightarrow> map m_id ms = map m_id (o_messages s) \<Longrightarrow> queue_wf (s\<lparr>o_messages := ms\<rparr>)"
  by (simp add: queue_wf_def)

lemma queue_wf_same:
  assumes "queue_wf s" "o_queue s' = o_queue s" "o_next s' = o_next s"
    and "map m_id (o_messages s') = map m_id (o_messages s)"
  shows "queue_wf s'"
  using assms by (simp add: queue_wf_def)

lemma queue_wf_refresh: "queue_wf s \<Longrightarrow> queue_wf (refresh_pending_flag s t)"
  by (rule queue_wf_same) simp_all

lemma queue_wf_update:
  assumes "queue_wf s" and f: "\<And>r. q_id (f r) = q_id r" "\<And>r. q_target (f r) = q_target r"
  shows "queue_wf (update_rows P f s)"
  using assms unfolding queue_wf_def update_fields map_id_update [of f P, OF f(1)]
  by auto

lemma queue_wf_filter: "queue_wf s \<Longrightarrow> queue_wf (s\<lparr>o_queue := filter P (o_queue s)\<rparr>)"
  by (auto simp: queue_wf_def sorted_wrt_map intro: sorted_wrt_filter)

lemma queue_wf_insert:
  assumes "queue_wf s" "\<And>i. t \<noteq> Thread i"
  shows "queue_wf (fst (insert_row s a t op at n rem))"
  using assms by (auto simp: queue_wf_def insert_row_def Let_def sorted_wrt_append)

text \<open>A \<open>for\<close> loop whose body may fail: the first error ends it.\<close>

fun each :: "('s \<Rightarrow> 'i \<Rightarrow> 'e + 's) \<Rightarrow> 's \<Rightarrow> 'i list \<Rightarrow> 'e + 's" where
  "each f s [] = Inr s"
| "each f s (i # js) = (case f s i of Inl e \<Rightarrow> Inl e | Inr s' \<Rightarrow> each f s' js)"

text \<open>
  The contract the drainer relies on: writing one row changes that row as said and no other,
  and it succeeds on every row there is.
\<close>

locale row_writer =
  fixes lookup :: "'s \<Rightarrow> 'i \<Rightarrow> 'r option"
    and wf :: "'s \<Rightarrow> bool"
    and wr :: "'s \<Rightarrow> 'i \<Rightarrow> 'e + 's"
    and eff :: "'r \<Rightarrow> 'r"
  assumes write_ok: "wf s \<Longrightarrow> lookup s i = Some r \<Longrightarrow>
      \<exists>s'. wr s i = Inr s' \<and> wf s' \<and> lookup s' = (lookup s)(i \<mapsto> eff r)"
begin

lemma each_ok:
  assumes "wf s" "distinct js" "\<And>i. i \<in> set js \<Longrightarrow> lookup s i \<noteq> None"
  shows "\<exists>s'. each wr s js = Inr s' \<and> wf s'
    \<and> lookup s' = (\<lambda>j. if j \<in> set js then map_option eff (lookup s j) else lookup s j)"
  using assms
proof (induction js arbitrary: s)
  case (Cons i js)
  then obtain r where r: "lookup s i = Some r" by force
  then obtain s' where s': "wr s i = Inr s'" "wf s'" "lookup s' = (lookup s)(i \<mapsto> eff r)"
    using write_ok Cons.prems(1) by blast
  have "\<And>j. j \<in> set js \<Longrightarrow> lookup s' j \<noteq> None" using Cons.prems(3) by (simp add: s'(3))
  with Cons.IH [OF s'(2)] Cons.prems(2) obtain s'' where "each wr s' js = Inr s''" "wf s''"
      "lookup s'' = (\<lambda>j. if j \<in> set js then map_option eff (lookup s' j) else lookup s' j)"
    by auto
  then show ?case
    using s' r Cons.prems(2) by (intro exI [of _ s'']) (auto simp: fun_eq_iff)
qed (simp add: fun_eq_iff)

end

definition done_row :: "int \<Rightarrow> queued_operation \<Rightarrow> queued_operation" where
  "done_row at r = r\<lparr>q_state := Done, q_updated := at\<rparr>"

definition failed_row :: "int \<Rightarrow> string \<Rightarrow> queued_operation \<Rightarrow> queued_operation" where
  "failed_row at e r = r\<lparr>q_state := Failed, q_attempts := q_attempts r + 1, q_last_error := Some e, q_updated := at\<rparr>"

definition deferred_row :: "int \<Rightarrow> string \<Rightarrow> queued_operation \<Rightarrow> queued_operation" where
  "deferred_row at e r = r\<lparr>q_state := Pending, q_attempts := q_attempts r + 1, q_last_error := Some e,
     q_next_attempt := Some at, q_updated := at\<rparr>"

definition noted_row :: "string \<Rightarrow> queued_operation \<Rightarrow> queued_operation" where
  "noted_row n r = r\<lparr>q_last_error := Some n\<rparr>"

lemma set_state_ok:
  assumes "queue_wf s" "get_row s i = Some r"
  shows "\<exists>s'. set_state s i st at err c = Inr s' \<and> queue_wf s'
    \<and> get_row s' = (get_row s)(i \<mapsto> r\<lparr>q_state := st, q_attempts := q_attempts r + (if c then 1 else 0),
         q_last_error := (case err of Some e \<Rightarrow> Some e | None \<Rightarrow> q_last_error r), q_updated := at\<rparr>)"
  using assms
  by (auto simp: set_state_def get_update fun_eq_iff intro!: queue_wf_refresh queue_wf_update)

interpretation mark_done: row_writer get_row queue_wf "\<lambda>s i. mark_done s i at" "done_row at" for at
  by unfold_locales (auto dest: set_state_ok [where st = Done and err = None and c = False and at = at]
      simp: mark_done_def done_row_def)

interpretation mark_failed: row_writer get_row queue_wf "\<lambda>s i. mark_failed s i at e" "failed_row at e" for at e
  by unfold_locales (auto dest: set_state_ok [where st = Failed and err = "Some e" and c = True and at = at]
      simp: mark_failed_def failed_row_def)

interpretation defer_row: row_writer get_row queue_wf "\<lambda>s i. defer_row s i at e" "deferred_row at e" for at e
  by unfold_locales (auto simp: defer_row_def row_exists_get get_update deferred_row_def fun_eq_iff
      intro!: queue_wf_update)

lemma note_ok:
  assumes "queue_wf s" "get_row s i = Some r"
  shows "\<exists>s'. note_row s i n = Inr s' \<and> queue_wf s' \<and> get_row s' = (get_row s)(i \<mapsto> noted_row n r)"
  using assms by (auto simp: note_row_def row_exists_get get_update noted_row_def fun_eq_iff
      intro!: queue_wf_update)

definition mark_done_noted :: "op_store \<Rightarrow> operation_id \<Rightarrow> int \<Rightarrow> string \<Rightarrow> storage_error + op_store" where
  "mark_done_noted s i at n =
     (case mark_done s i at of Inl e \<Rightarrow> Inl e | Inr s' \<Rightarrow> note_row s' i n)"

interpretation mark_done_noted: row_writer get_row queue_wf "\<lambda>s i. mark_done_noted s i at n"
  "noted_row n \<circ> done_row at" for at n
proof unfold_locales
  fix s i r assume wf: "queue_wf s" and r: "get_row s i = Some r"
  obtain s' where s': "mark_done s i at = Inr s'" "queue_wf s'" "get_row s' = (get_row s)(i \<mapsto> done_row at r)"
    using mark_done.write_ok [OF wf r] by blast
  have g: "get_row s' i = Some (done_row at r)" by (simp add: s'(3))
  obtain s'' where "note_row s' i n = Inr s''" "queue_wf s''"
      "get_row s'' = (get_row s')(i \<mapsto> noted_row n (done_row at r))"
    using note_ok [OF s'(2) g] by blast
  then show "\<exists>s''. mark_done_noted s i at n = Inr s'' \<and> queue_wf s''
      \<and> get_row s'' = (get_row s)(i \<mapsto> (noted_row n \<circ> done_row at) r)"
    by (simp add: mark_done_noted_def s')
qed

end
