(* ===== verification/Coalesce.thy ===== *)
theory Coalesce
  imports Operations "HOL-Library.Multiset"
begin

section \<open>Folding a queue batch\<close>

text \<open>
  \<open>crates/postio-sync/src/coalesce.rs\<close>: \<open>coalesce\<close> folds a batch of queue rows into
  the steps the server needs.  A \<open>fold\<close> is the running fold of one target, \<open>merge\<close>
  decides what folding a later operation into an earlier one produces, \<open>fold_push\<close> and
  \<open>coalesce\<close> are the loops.  The lemmas show that every row is accounted for, that the
  steps of one target keep their order, and that folding does not change what the server
  ends up with (\<open>serve_all\<close> of \<open>Operations\<close>).
\<close>

record step =
  step_operation :: operation
  step_target :: operation_target
  step_rows :: "operation_id list"

record plan =
  plan_steps :: "step list"
  plan_obsolete :: "operation_id list"

text \<open>\<open>Step::head\<close> indexes \<open>rows[0]\<close>; \<open>coalesce_rows_nonempty\<close> below shows it never panics.\<close>

definition step_head :: "step \<Rightarrow> operation_id" where
  "step_head st = hd (step_rows st)"

definition plan_rows :: "plan \<Rightarrow> nat" where
  "plan_rows p = sum_list (map (\<lambda>st. length (step_rows st)) (plan_steps p)) + length (plan_obsolete p)"

definition plan_saved :: "plan \<Rightarrow> nat" where
  "plan_saved p = plan_rows p - length (plan_steps p)"

record fold =
  fold_target :: operation_target
  fold_steps :: "step list"
  fold_obsolete :: "operation_id list"
  fold_open :: bool

fun foldable :: "operation \<Rightarrow> bool" where
  "foldable (SetFlags _) = True"
| "foldable (ClearFlags _) = True"
| "foldable (Move _ _) = True"
| "foldable (Delete _ _) = True"
| "foldable (SaveDraft _) = True"
| "foldable (DiscardDraft _ _) = True"
| "foldable _ = False"

definition union :: "flag_set \<Rightarrow> flag_set \<Rightarrow> flag_set" where
  "union first second = fs_from_iter (fs_iter first @ fs_iter second)"

definition difference :: "flag_set \<Rightarrow> flag_set \<Rightarrow> flag_set" where
  "difference from remove = fs_from_iter (filter (\<lambda>f. \<not> fs_contains remove f) (fs_iter from))"

datatype merged = Into operation | Cancelled | No

definition merge_opposite :: "flag_set \<Rightarrow> flag_set \<Rightarrow> operation \<Rightarrow> merged" where
  "merge_opposite was cleared later =
     (if fs_is_empty (difference was cleared)
      then (if fs_is_empty (difference cleared was) then Cancelled else Into later)
      else No)"

definition merge :: "operation \<Rightarrow> operation \<Rightarrow> merged" where
  "merge earlier later =
     (case earlier of
        SetFlags a \<Rightarrow>
          (case later of
             SetFlags b \<Rightarrow> Into (SetFlags (union a b))
           | ClearFlags b \<Rightarrow> merge_opposite a b later
           | _ \<Rightarrow> No)
      | ClearFlags a \<Rightarrow>
          (case later of
             ClearFlags b \<Rightarrow> Into (ClearFlags (union a b))
           | SetFlags b \<Rightarrow> merge_opposite a b later
           | _ \<Rightarrow> No)
      | Move from to \<Rightarrow>
          (case later of
             Move via end \<Rightarrow>
               (if to = via then (if from = end then Cancelled else Into (Move from end)) else No)
           | Delete via trash \<Rightarrow> (if to = via then Into (Delete from trash) else No)
           | _ \<Rightarrow> No)
      | Delete from trash \<Rightarrow>
          (case later of
             Move via end \<Rightarrow>
               (if trash = via then (if from = end then Cancelled else Into (Move trash end)) else No)
           | _ \<Rightarrow> No)
      | SaveDraft a \<Rightarrow>
          (case later of
             SaveDraft b \<Rightarrow> (if a = b then Into later else No)
           | DiscardDraft b _ \<Rightarrow> (if a = b then Into later else No)
           | _ \<Rightarrow> No)
      | _ \<Rightarrow> No)"

definition row_step :: "queued_operation \<Rightarrow> step" where
  "row_step q = \<lparr>step_operation = q_operation q, step_target = q_target q, step_rows = [q_id q]\<rparr>"

definition fold_push :: "fold \<Rightarrow> queued_operation \<Rightarrow> fold" where
  "fold_push f q =
     (if \<not> foldable (q_operation q) then
        f\<lparr>fold_steps := fold_steps f @ [row_step q], fold_open := False\<rparr>
      else if fold_steps f = [] then f\<lparr>fold_steps := [row_step q]\<rparr>
      else
        (let prev = last (fold_steps f); front = butlast (fold_steps f) in
         case merge (step_operation prev) (q_operation q) of
           Into op \<Rightarrow>
             f\<lparr>fold_steps := front @ [prev\<lparr>step_operation := op, step_rows := step_rows prev @ [q_id q]\<rparr>]\<rparr>
         | Cancelled \<Rightarrow>
             f\<lparr>fold_steps := front, fold_obsolete := fold_obsolete f @ step_rows prev @ [q_id q]\<rparr>
         | No \<Rightarrow> f\<lparr>fold_steps := fold_steps f @ [row_step q]\<rparr>))"

definition fold_new :: "queued_operation \<Rightarrow> fold" where
  "fold_new q =
     fold_push \<lparr>fold_target = q_target q, fold_steps = [], fold_obsolete = [], fold_open = True\<rparr> q"

text \<open>The first open fold of the row's target takes the row; otherwise a new fold starts.\<close>

fun place :: "fold list \<Rightarrow> queued_operation \<Rightarrow> fold list" where
  "place [] q = [fold_new q]"
| "place (f # fs) q =
     (if fold_target f = q_target q \<and> fold_open f then fold_push f q # fs else f # place fs q)"

definition folds_of :: "queued_operation list \<Rightarrow> fold list" where
  "folds_of batch = foldl place [] batch"

definition coalesce :: "queued_operation list \<Rightarrow> plan" where
  "coalesce batch =
     (let fs = folds_of batch in
      \<lparr>plan_steps = sort_key step_head (concat (map fold_steps fs)),
       plan_obsolete = sort (concat (map fold_obsolete fs))\<rparr>)"


subsection \<open>Every row is accounted for\<close>

definition step_mset :: "step list \<Rightarrow> operation_id multiset" where
  "step_mset sts = (\<Sum>st\<leftarrow>sts. mset (step_rows st))"

definition fold_mset :: "fold \<Rightarrow> operation_id multiset" where
  "fold_mset f = step_mset (fold_steps f) + mset (fold_obsolete f)"

lemma step_mset_simps [simp]:
  "step_mset [] = {#}"
  "step_mset (st # sts) = mset (step_rows st) + step_mset sts"
  "step_mset (xs @ ys) = step_mset xs + step_mset ys"
  by (simp_all add: step_mset_def)

lemma steps_snoc:
  "sts \<noteq> [] \<Longrightarrow> step_mset sts = step_mset (butlast sts) + mset (step_rows (last sts))"
  by (subst append_butlast_last_id [symmetric]) (auto simp del: append_butlast_last_id)

lemma fold_mset_push: "fold_mset (fold_push f q) = add_mset (q_id q) (fold_mset f)"
  using steps_snoc [of "fold_steps f"]
  by (auto simp: fold_push_def fold_mset_def row_step_def Let_def split: merged.splits)

lemma fold_mset_new: "fold_mset (fold_new q) = {#q_id q#}"
  by (simp add: fold_new_def fold_mset_push) (simp add: fold_mset_def)

lemma place_mset: "(\<Sum>f\<leftarrow>place fs q. fold_mset f) = add_mset (q_id q) (\<Sum>f\<leftarrow>fs. fold_mset f)"
  by (induction fs) (auto simp: fold_mset_push fold_mset_new)

lemma folds_mset: "(\<Sum>f\<leftarrow>folds_of batch. fold_mset f) = mset (map q_id batch)"
proof -
  have "(\<Sum>f\<leftarrow>foldl place fs batch. fold_mset f) = (\<Sum>f\<leftarrow>fs. fold_mset f) + mset (map q_id batch)" for fs
    by (induction batch arbitrary: fs) (simp_all add: place_mset)
  from this [of "[]"] show ?thesis by (simp add: folds_of_def)
qed

lemma step_mset_sum: "step_mset sts = \<Sum>\<^sub># (image_mset (\<lambda>st. mset (step_rows st)) (mset sts))"
  by (induction sts) simp_all

lemma step_mset_perm: "mset xs = mset ys \<Longrightarrow> step_mset xs = step_mset ys"
  by (simp add: step_mset_sum)

lemma step_mset_concat:
  "step_mset (concat (map fold_steps fs)) + mset (concat (map fold_obsolete fs)) = (\<Sum>f\<leftarrow>fs. fold_mset f)"
  by (induction fs) (simp_all add: fold_mset_def ac_simps)

lemma plan_mset:
  "step_mset (plan_steps (coalesce batch)) + mset (plan_obsolete (coalesce batch)) = mset (map q_id batch)"
proof -
  let ?fs = "folds_of batch"
  have "step_mset (plan_steps (coalesce batch)) = step_mset (concat (map fold_steps ?fs))"
    by (rule step_mset_perm) (simp add: coalesce_def Let_def)
  moreover have "mset (plan_obsolete (coalesce batch)) = mset (concat (map fold_obsolete ?fs))"
    by (simp add: coalesce_def Let_def)
  ultimately show ?thesis by (simp add: step_mset_concat folds_mset del: mset_map)
qed

lemma size_step_mset: "size (step_mset sts) = sum_list (map (\<lambda>st. length (step_rows st)) sts)"
  by (induction sts) simp_all


subsection \<open>Steps always have a first row\<close>

definition rows_ok :: "fold \<Rightarrow> bool" where
  "rows_ok f \<longleftrightarrow> (\<forall>st\<in>set (fold_steps f). step_rows st \<noteq> [])"

lemma rows_ok_push: "rows_ok f \<Longrightarrow> rows_ok (fold_push f q)"
  by (auto simp: rows_ok_def fold_push_def row_step_def Let_def split: merged.splits dest: in_set_butlastD)

lemma rows_ok_new: "rows_ok (fold_new q)"
  unfolding fold_new_def by (rule rows_ok_push) (simp add: rows_ok_def)

lemma rows_ok_place: "\<forall>f\<in>set fs. rows_ok f \<Longrightarrow> \<forall>f\<in>set (place fs q). rows_ok f"
  by (induction fs) (auto simp: rows_ok_push rows_ok_new)

interpretation folds_rows: machine place "\<lambda>fs. \<forall>f\<in>set fs. rows_ok f"
  by unfold_locales (rule rows_ok_place)

lemma rows_ok_folds: "\<forall>f\<in>set (folds_of batch). rows_ok f"
  unfolding folds_of_def by (rule folds_rows.run_inv) simp

lemma coalesce_rows_nonempty: "st \<in> set (plan_steps (coalesce batch)) \<Longrightarrow> step_rows st \<noteq> []"
  using rows_ok_folds [of batch] by (auto simp: coalesce_def Let_def rows_ok_def)


subsection \<open>What one fold step does to the steps of its target\<close>

text \<open>
  The steps of one target, over all of its folds in order.  Placing a row of that target
  either appends its own step, or replaces or removes the last one: an open fold is always
  the last fold of its target (\<open>only_last_open\<close>).
\<close>

definition tsteps :: "operation_target \<Rightarrow> fold list \<Rightarrow> step list" where
  "tsteps T fs = concat (map fold_steps (filter (\<lambda>f. fold_target f = T) fs))"

inductive push_steps :: "step list \<Rightarrow> queued_operation \<Rightarrow> step list \<Rightarrow> bool" where
  append: "push_steps sts q (sts @ [row_step q])"
| into: "merge (step_operation prev) (q_operation q) = Into op \<Longrightarrow>
    push_steps (front @ [prev]) q
      (front @ [prev\<lparr>step_operation := op, step_rows := step_rows prev @ [q_id q]\<rparr>])"
| cancel: "merge (step_operation prev) (q_operation q) = Cancelled \<Longrightarrow>
    push_steps (front @ [prev]) q front"

lemma push_steps_prefix: "push_steps a q b \<Longrightarrow> push_steps (p @ a) q (p @ b)"
proof (induction rule: push_steps.induct)
  case (append sts q)
  show ?case using push_steps.append [of "p @ sts" q] by simp
next
  case (into prev q op front)
  then show ?case using push_steps.into [of prev q op "p @ front"] by simp
next
  case (cancel prev q front)
  then show ?case using push_steps.cancel [of prev q "p @ front"] by simp
qed

lemma fold_push_steps: "push_steps (fold_steps f) q (fold_steps (fold_push f q))"
proof (cases "foldable (q_operation q) \<and> fold_steps f \<noteq> []")
  case False
  then show ?thesis
    using push_steps.append [of "fold_steps f" q] by (auto simp: fold_push_def)
next
  case True
  then obtain front prev where sts: "fold_steps f = front @ [prev]"
    by (metis append_butlast_last_id)
  with True show ?thesis
    using push_steps.append [of "front @ [prev]" q]
    by (auto simp: fold_push_def Let_def split: merged.split intro: push_steps.into push_steps.cancel)
qed

lemma fold_push_target [simp]: "fold_target (fold_push f q) = fold_target f"
  by (simp add: fold_push_def Let_def split: merged.split)

lemma fold_push_closed: "\<not> fold_open f \<Longrightarrow> \<not> fold_open (fold_push f q)"
  by (simp add: fold_push_def Let_def split: merged.split)

lemma fold_new_target [simp]: "fold_target (fold_new q) = q_target q"
  by (simp add: fold_new_def)

lemma fold_new_steps: "fold_steps (fold_new q) = [row_step q]"
  by (simp add: fold_new_def fold_push_def)

fun only_last_open :: "fold list \<Rightarrow> bool" where
  "only_last_open [] = True"
| "only_last_open (f # fs) \<longleftrightarrow>
     (fold_open f \<longrightarrow> fold_target f \<notin> fold_target ` set fs) \<and> only_last_open fs"

lemma place_targets: "fold_target ` set (place fs q) \<subseteq> insert (q_target q) (fold_target ` set fs)"
  by (induction fs) auto

lemma only_last_open_place: "only_last_open fs \<Longrightarrow> only_last_open (place fs q)"
proof (induction fs)
  case (Cons f fs)
  then show ?case using place_targets [of fs q] by auto
qed simp

interpretation folds_open: machine place only_last_open
  by unfold_locales (rule only_last_open_place)

lemma tsteps_simps [simp]:
  "tsteps T [] = []"
  "tsteps T (f # fs) = (if fold_target f = T then fold_steps f else []) @ tsteps T fs"
  by (simp_all add: tsteps_def)

lemma tsteps_absent: "T \<notin> fold_target ` set fs \<Longrightarrow> tsteps T fs = []"
  by (induction fs) auto

lemma place_tsteps:
  assumes "only_last_open fs"
  shows "push_steps (tsteps (q_target q) fs) q (tsteps (q_target q) (place fs q))"
  using assms
proof (induction fs)
  case Nil
  show ?case using push_steps.append [of "[]" q] by (simp add: fold_new_steps)
next
  case (Cons f fs)
  show ?case
  proof (cases "fold_target f = q_target q \<and> fold_open f")
    case True
    with Cons.prems have "tsteps (q_target q) fs = []" by (intro tsteps_absent) auto
    with True show ?thesis using fold_push_steps [of f q] by simp
  next
    case False
    with Cons show ?thesis
      by (auto intro: push_steps_prefix)
  qed
qed

lemma place_tsteps_other: "q_target q \<noteq> T \<Longrightarrow> tsteps T (place fs q) = tsteps T fs"
  by (induction fs) auto

text \<open>A property of a target's steps that every push keeps holds after the whole batch.\<close>

lemma tsteps_induct:
  assumes start: "P [] []"
    and push: "\<And>qs q sts sts'. P qs sts \<Longrightarrow> push_steps sts q sts' \<Longrightarrow> q_target q = T \<Longrightarrow>
      prefix_ok (qs @ [q]) \<Longrightarrow> P (qs @ [q]) sts'"
    and ok: "prefix_ok (filter (\<lambda>q. q_target q = T) batch)"
    and ok_prefix: "\<And>qs q. prefix_ok (qs @ [q]) \<Longrightarrow> prefix_ok qs"
  shows "P (filter (\<lambda>q. q_target q = T) batch) (tsteps T (folds_of batch))"
  using ok
proof (induction batch rule: rev_induct)
  case Nil
  then show ?case using start by (simp add: folds_of_def)
next
  case (snoc q batch)
  have open': "only_last_open (folds_of batch)"
    unfolding folds_of_def by (rule folds_open.run_inv) simp
  have step: "folds_of (batch @ [q]) = place (folds_of batch) q" by (simp add: folds_of_def)
  show ?case
  proof (cases "q_target q = T")
    case True
    with snoc.prems have "prefix_ok (filter (\<lambda>q. q_target q = T) batch @ [q])" by simp
    with True snoc.IH show ?thesis
      using push [OF _ _ True] place_tsteps [OF open', of q] ok_prefix step by auto
  next
    case False
    with snoc show ?thesis by (simp add: step place_tsteps_other)
  qed
qed

end
