(* ===== verification/Retry.thy ===== *)
theory Retry
  imports Rust_Time
begin

section \<open>When to try again, and in which order to sync\<close>

text \<open>
  \<open>crates/postio-sync/src/retry.rs\<close>: the backoff of the operation queue; and
  \<open>crates/postio-sync/src/order.rs\<close>: the rank that orders the sync queue.
\<close>

record retry_policy =
  rp_base :: nat
  rp_factor :: nat
  rp_ceiling :: nat
  rp_max_attempts :: nat

definition retry_default :: retry_policy where
  "retry_default = \<lparr>rp_base = secs 2, rp_factor = 2, rp_ceiling = secs 300, rp_max_attempts = 8\<rparr>"

definition retry_backoff :: "retry_policy \<Rightarrow> nat \<Rightarrow> nat" where
  "retry_backoff p attempts =
     (let steps = attempts - 1;
          multiplier = (case checked_pow32 (rp_factor p) steps of Some m \<Rightarrow> m | None \<Rightarrow> u64_max);
          k = (if multiplier \<le> u32_max then multiplier else u32_max)
      in min (case dur_checked_mul (rp_base p) k of Some w \<Rightarrow> w | None \<Rightarrow> rp_ceiling p) (rp_ceiling p))"

definition retry_is_exhausted :: "retry_policy \<Rightarrow> nat \<Rightarrow> bool" where
  "retry_is_exhausted p attempts \<longleftrightarrow> rp_max_attempts p \<le> attempts"

definition next_attempt_at :: "chrono \<Rightarrow> retry_policy \<Rightarrow> int \<Rightarrow> nat \<Rightarrow> nat option \<Rightarrow> int option" where
  "next_attempt_at L p now attempts server_asked_for =
     (let wait = max (case server_asked_for of Some d \<Rightarrow> d | None \<Rightarrow> 0) (retry_backoff p attempts)
      in dt_add L now (delta_or_max L wait))"

text \<open>A policy whose ceiling is a \<open>Duration\<close>.\<close>

definition retry_ok :: "retry_policy \<Rightarrow> bool" where
  "retry_ok p \<longleftrightarrow> rp_ceiling p \<le> dur_max"

lemma backoff_law:
  assumes "c \<le> dur_max"
  shows "(let multiplier = (case checked_pow32 f n of Some m \<Rightarrow> m | None \<Rightarrow> u64_max);
              k = (if multiplier \<le> u32_max then multiplier else u32_max)
          in min (case dur_checked_mul b k of Some w \<Rightarrow> w | None \<Rightarrow> c) c)
       = min (b * min (f ^ n) u32_max) c"
  using assms by (auto simp: Let_def checked_pow32_def dur_checked_mul_def u32_max_def u64_max_def min_def)

interpretation retry: backoff_schedule retry_backoff rp_base rp_factor rp_ceiling retry_ok
  by unfold_locales (unfold retry_backoff_def retry_ok_def, subst Let_def, rule backoff_law)

lemma retry_default_ok: "retry_ok retry_default"
  by (simp add: retry_ok_def retry_default_def dur_max_def secs_mono secs_def u64_max_def nanos_per_sec_def)


subsection \<open>The order mailboxes sync in\<close>

datatype mailbox_role =
    Inbox | Archive | Sent | Drafts | Trash | JunkRole | FlaggedRole | Regular | Snoozed | Outbox

fun sync_priority :: "mailbox_role \<Rightarrow> nat" where
  "sync_priority Inbox = 0"
| "sync_priority FlaggedRole = 1"
| "sync_priority Drafts = 2"
| "sync_priority Sent = 3"
| "sync_priority Archive = 4"
| "sync_priority JunkRole = 5"
| "sync_priority Trash = 6"
| "sync_priority Regular = 7"
| "sync_priority Snoozed = 7"
| "sync_priority Outbox = 7"


subsection \<open>Properties\<close>

text \<open>
  The default retry schedule: after \<open>a\<close> failures (counting from one) the wait is
  \<open>2 ^ a\<close> seconds up to the eighth, five minutes after that, never longer and never
  shorter than the wait before it, however many attempts failed.
\<close>

theorem retry_default_schedule:
  "(1 \<le> a \<and> a \<le> 8 \<longrightarrow> retry_backoff retry_default a = secs (2 ^ a))
   \<and> (8 < a \<longrightarrow> retry_backoff retry_default a = secs 300)
   \<and> (a \<le> b \<longrightarrow> retry_backoff retry_default a \<le> retry_backoff retry_default b)"
proof (intro conjI impI)
  assume a: "1 \<le> a \<and> a \<le> 8"
  then obtain n where n: "a = Suc n" "n < 8" by (cases a) auto
  have "(2::nat) ^ n \<le> 2 ^ 7" using n by (intro power_increasing) auto
  then have "2 * 2 ^ n \<le> (300::nat)" by simp
  then have "2 * 2 ^ n * nanos_per_sec \<le> 300 * nanos_per_sec" by (rule mult_le_mono1)
  moreover have "rp_base retry_default * 2 ^ n = 2 * 2 ^ n * nanos_per_sec"
    by (simp only: retry_default_def secs_def retry_policy.select_convs mult_ac)
  moreover have "rp_ceiling retry_default = 300 * nanos_per_sec"
    by (simp only: retry_default_def secs_def retry_policy.select_convs)
  ultimately have "rp_base retry_default * 2 ^ n \<le> rp_ceiling retry_default" by (simp only:)
  then have "retry_backoff retry_default a = rp_base retry_default * 2 ^ n"
    using n retry.wait_doubles [OF retry_default_ok, of n] by (simp add: retry_default_def)
  then show "retry_backoff retry_default a = secs (2 ^ a)"
    using n by (simp add: retry_default_def secs_def)
next
  assume a: "8 < a"
  have "rp_ceiling retry_default \<le> rp_base retry_default * 2 ^ 8"
    by (simp add: retry_default_def secs_def)
  then have "retry_backoff retry_default a = rp_ceiling retry_default"
    using a retry.wait_saturates [OF retry_default_ok, of 8 a] by (simp add: retry_default_def)
  then show "retry_backoff retry_default a = secs 300" by (simp add: retry_default_def)
next
  assume "a \<le> b"
  then show "retry_backoff retry_default a \<le> retry_backoff retry_default b"
    using retry.wait_mono [OF retry_default_ok, of a b] by (simp add: retry_default_def)
qed

theorem retry_default_schedule_witness:
  "retry_backoff retry_default 3 = secs (2 ^ 3) \<and> retry_backoff retry_default 100 = secs 300
   \<and> retry_backoff retry_default 3 \<le> retry_backoff retry_default 5"
  using retry_default_schedule [of 3 5] retry_default_schedule [of 100 0] by simp

text \<open>
  A retry is scheduled no earlier than the backoff and no earlier than the server asked
  for, and exactly at the later of the two; the computation panics exactly when that
  instant is outside what \<open>chrono\<close> can hold (the \<open>TimeDelta::MAX\<close> fallback included).
\<close>

theorem next_attempt_honours_both:
  assumes "chrono_ok L" and "in_range L now"
  shows "next_attempt_at L p now attempts asked =
     (let wait = max (case asked of Some d \<Rightarrow> d | None \<Rightarrow> 0) (retry_backoff p attempts) in
      if now + int wait \<le> max_utc L then Some (now + int wait) else None)"
proof -
  define w where "w = max (case asked of Some d \<Rightarrow> d | None \<Rightarrow> 0) (retry_backoff p attempts)"
  have "dt_add L now (delta_or_max L w) = (if now + int w \<le> max_utc L then Some (now + int w) else None)"
  proof (cases "now + int w \<le> max_utc L")
    case True
    with assms show ?thesis by (simp add: dt_add_fits)
  next
    case False
    with assms show ?thesis
      by (auto simp: dt_add_def delta_or_max_le in_range_def chrono_ok_def min_def)
  qed
  then show ?thesis by (simp add: next_attempt_at_def w_def Let_def)
qed

theorem next_attempt_honours_both_witness:
  "next_attempt_at chrono_0_4 retry_default 0 1 (Some (secs 600)) = Some (int (secs 600))
   \<and> next_attempt_at chrono_0_4 retry_default 0 1 (Some (secs u64_max)) = None"
proof -
  have w: "retry_backoff retry_default 1 = 2000000000"
    by (simp add: retry.wait_first [OF retry_default_ok]) (simp add: retry_default_def secs_def nanos_per_sec_def)
  have r: "in_range chrono_0_4 0" by (simp add: in_range_def chrono_0_4_def)
  show ?thesis
    using next_attempt_honours_both [OF chrono_0_4_ok r, of retry_default 1 "Some (secs 600)"]
      next_attempt_honours_both [OF chrono_0_4_ok r, of retry_default 1 "Some (secs u64_max)"]
    unfolding w by (simp add: chrono_0_4_def secs_def nanos_per_sec_def u64_max_def Let_def)
qed

text \<open>
  INBOX outranks every other role in the sync queue, the folders a person reads
  (Flagged, Drafts, Sent) outrank Archive, Junk and Trash, and ordinary folders come last.
\<close>

lemma sync_priority_order:
  "(r \<noteq> Inbox \<longrightarrow> sync_priority Inbox < sync_priority r)
   \<and> (r \<in> {FlaggedRole, Drafts, Sent} \<and> r' \<in> {Archive, JunkRole, Trash} \<longrightarrow> sync_priority r < sync_priority r')
   \<and> sync_priority r \<le> sync_priority Regular"
  by (cases r; cases r') simp_all


end
