(* ===== verification/Drain.thy ===== *)
theory Drain
  imports Op_Queue Coalesce Retry Backend
begin

section \<open>Draining the queue\<close>

text \<open>
  \<open>crates/postio-sync/src/drain.rs\<close>: one pass over an account's due rows.  The state is
  the queue's tables (\<open>op_store\<close>) and the rest of the world; what a pass calls outside
  this file is the record \<open>drain_env\<close>: the mail backend, the mailbox table, and the send,
  draft, attachment and cross-account modules, each a function of the state.  A backend
  answer is an error or a value.  \<open>None\<close> is a panic; an error that ends the pass is
  \<open>Inl\<close> with the state it left.  Times are nanoseconds, the queue's columns milliseconds.
\<close>

datatype sync_error = StorageError storage_error | BackendError backend_error

datatype outcome =
    Applied
  | Obsolete string
  | Retry string "nat option"  \<comment> \<open>reason, after\<close>
  | FailedOutcome string
  | Uncertain string

record failed_operation =
  fo_rows :: "operation_id list"
  fo_target :: operation_target
  fo_op_type :: string
  fo_reason :: string

text \<open>\<open>said\<close>: what did not happen, an em dash, and why.\<close>

definition em_dash :: string where
  "em_dash = '' '' @ [char_of (0xE2::nat), char_of (0x80::nat), char_of (0x94::nat)] @ '' ''"

definition said :: "failed_operation \<Rightarrow> string" where
  "said f =
     (let op = fo_op_type f;
          what = (if op = ''send'' then Some ''Not sent''
            else if op = ''move'' then Some ''Not moved''
            else if op = ''delete'' then Some ''Not deleted''
            else if op = ''expunge'' then Some ''Not expunged''
            else if op = ''purge'' then Some ''Not deleted for good''
            else if op = ''append'' then Some ''Not uploaded''
            else if op = ''set_flags'' \<or> op = ''clear_flags'' then Some ''Flags not changed''
            else if op = ''save_draft'' then Some ''Draft not saved''
            else if op = ''discard_draft'' then Some ''Draft not discarded''
            else if op = ''cross_account_copy'' \<or> op = ''cross_account_remove''
              then Some ''Not moved across accounts''
            else None)
      in (case what of Some w \<Rightarrow> w | None \<Rightarrow> op @ '' failed'') @ em_dash @ fo_reason f)"

record drain_report =
  dr_applied :: nat
  dr_coalesced :: nat
  dr_obsolete :: nat
  dr_deferred :: nat
  dr_failed :: "failed_operation list"
  dr_uncertain :: "failed_operation list"
  dr_needs_resync :: "mailbox_id list"

definition report_default :: drain_report where
  "report_default = \<lparr>dr_applied = 0, dr_coalesced = 0, dr_obsolete = 0, dr_deferred = 0,
     dr_failed = [], dr_uncertain = [], dr_needs_resync = []\<rparr>"

definition report_settled :: "drain_report \<Rightarrow> nat" where
  "report_settled r = dr_applied r + dr_coalesced r + dr_obsolete r
     + sum_list (map (\<lambda>f. length (fo_rows f)) (dr_failed r))"

definition report_is_idle :: "drain_report \<Rightarrow> bool" where
  "report_is_idle r \<longleftrightarrow> report_settled r = 0 \<and> dr_deferred r = 0"

definition outcome_from_error :: "(backend_error \<Rightarrow> string) \<Rightarrow> backend_error \<Rightarrow> outcome" where
  "outcome_from_error msg e =
     (if requires_full_resync e then FailedOutcome (msg e)
      else if is_transient_error e then Retry (msg e) (retry_after e)
      else FailedOutcome (msg e))"

definition vanished_if_untouched :: "bool \<Rightarrow> outcome" where
  "vanished_if_untouched untouched =
     (if untouched then Obsolete ''the message is no longer in that mailbox on the server'' else Applied)"


subsection \<open>What a pass calls\<close>

record 'w drain_state =
  ds_store :: op_store
  ds_world :: 'w

datatype flag_change = AddFlags flag_set | RemoveFlags flag_set | ReplaceFlags flag_set

record uid_mapping =
  um_source :: nat
  um_destination :: nat
  um_uid_validity :: nat
  um_destination_remote_id :: remote_id

datatype carried = CarriedReady | CarriedLater string | CarriedImpossible string

datatype 'j looked_up = JobReady 'j | JobObsolete string | JobLater string | JobImpossible string | JobUncertain string

record ('w, 'j) drain_env =
  de_msg :: "backend_error \<Rightarrow> string"
  de_capabilities :: "'w \<Rightarrow> backend_error + capabilities"
  de_store_flags :: "'w \<Rightarrow> string \<Rightarrow> remote_id list \<Rightarrow> flag_change \<Rightarrow> 'w \<times> (backend_error + nat)"
    \<comment> \<open>how many messages the server updated\<close>
  de_move_messages :: "'w \<Rightarrow> string \<Rightarrow> remote_id list \<Rightarrow> string \<Rightarrow> 'w \<times> (backend_error + uid_mapping list)"
  de_expunge :: "'w \<Rightarrow> string \<Rightarrow> remote_id list option \<Rightarrow> 'w \<times> (backend_error + unit)"
  de_mailbox_path :: "'w \<Rightarrow> mailbox_id \<Rightarrow> string option"
  de_has_blobs :: bool
  de_fetch_missing :: "'w drain_state \<Rightarrow> draft_id \<Rightarrow> 'w drain_state \<times> (sync_error + carried)"
  de_resolve_send :: "'w drain_state \<Rightarrow> draft_id \<Rightarrow> sync_error + 'j looked_up"
  de_resolve_save :: "'w drain_state \<Rightarrow> draft_id \<Rightarrow> mailbox_id \<Rightarrow> sync_error + 'j looked_up"
  de_resolve_discard :: "'w drain_state \<Rightarrow> mailbox_id \<Rightarrow> remote_id \<Rightarrow> sync_error + 'j looked_up"
  de_send :: "'w drain_state \<Rightarrow> 'j \<Rightarrow> 'w drain_state \<times> mailbox_id list \<times> outcome"
    \<comment> \<open>with the mailboxes to resync\<close>
  de_run_draft :: "'w drain_state \<Rightarrow> 'j \<Rightarrow> 'w drain_state \<times> mailbox_id list \<times> outcome"
  de_copy :: "'w drain_state \<Rightarrow> saga_id \<Rightarrow> 'w drain_state \<times> outcome"
  de_remove :: "'w drain_state \<Rightarrow> saga_id \<Rightarrow> remote_id list \<Rightarrow> 'w drain_state \<times> outcome"
  de_mark_draft_failed :: "'w \<Rightarrow> draft_id \<Rightarrow> 'w"
  de_fail_orphaned_sends :: "'w \<Rightarrow> account_id \<Rightarrow> 'w"


subsection \<open>Looking a step up\<close>

record 'j drain_context =
  cx_operation :: operation
  cx_path :: string
  cx_destination :: "string option"
  cx_ids :: "remote_id list"
  cx_mailbox :: mailbox_id
  cx_message :: "message_id option"
  cx_job :: "'j option"  \<comment> \<open>the send or draft job\<close>

datatype 'j resolved =
    Ready "'j drain_context"
  | ResObsolete string "mailbox_id option"
  | Later string
  | Impossible string
  | ResUncertain string

definition bare_context :: "operation \<Rightarrow> remote_id list \<Rightarrow> 'j option \<Rightarrow> 'j drain_context" where
  "bare_context op ids job = \<lparr>cx_operation = op, cx_path = [], cx_destination = None, cx_ids = ids,
     cx_mailbox = 0, cx_message = None, cx_job = job\<rparr>"

definition resolved_job :: "operation \<Rightarrow> 'j looked_up \<Rightarrow> 'j resolved" where
  "resolved_job op j =
     (case j of
        JobReady job \<Rightarrow> Ready (bare_context op [] (Some job))
      | JobObsolete r \<Rightarrow> ResObsolete r None
      | JobLater r \<Rightarrow> Later r
      | JobImpossible r \<Rightarrow> Impossible r
      | JobUncertain r \<Rightarrow> ResUncertain r)"

text \<open>\<open>resolve_draft\<close>: the two operations that keep the Drafts mailbox in step.\<close>

definition resolve_draft ::
  "('w, 'j) drain_env \<Rightarrow> 'w drain_state \<Rightarrow> step \<Rightarrow> (sync_error + 'j resolved) option" where
  "resolve_draft E s st =
     (case step_operation st of
        SaveDraft m \<Rightarrow>
          (case step_target st of
             Draft_target d \<Rightarrow> Some (map_sum id (resolved_job (step_operation st)) (de_resolve_save E s d m))
           | _ \<Rightarrow> Some (Inr (Impossible ''a draft operation that does not name a draft'')))
      | DiscardDraft m rid \<Rightarrow>
          Some (map_sum id (resolved_job (step_operation st)) (de_resolve_discard E s m rid))
      | _ \<Rightarrow> None)"

definition head_snapshot :: "op_store \<Rightarrow> step \<Rightarrow> remote_id option" where
  "head_snapshot s st = (case get_row s (step_head st) of None \<Rightarrow> None | Some r \<Rightarrow> q_source_remote r)"

definition get_message :: "op_store \<Rightarrow> message_id \<Rightarrow> message_row option" where
  "get_message s i = find (\<lambda>m. m_id m = i) (o_messages s)"

fun is_flag_change :: "operation \<Rightarrow> bool" where
  "is_flag_change (SetFlags _) = True"
| "is_flag_change (ClearFlags _) = True"
| "is_flag_change _ = False"

fun is_move :: "operation \<Rightarrow> bool" where
  "is_move (Move _ _) = True"
| "is_move (Delete _ _) = True"
| "is_move _ = False"

definition gone_locally :: "'j resolved" where
  "gone_locally = ResObsolete ''the message is no longer in the local store'' None"

text \<open>The last part of \<open>resolve\<close>: the operations that act on messages or on a mailbox.\<close>

definition resolve_mailbox ::
  "('w, 'j) drain_env \<Rightarrow> 'w drain_state \<Rightarrow> step \<Rightarrow> 'j resolved" where
  "resolve_mailbox E s st =
     (let op = step_operation st;
          store = ds_store s;
          message = (case step_target st of Message i \<Rightarrow> get_message store i | _ \<Rightarrow> None);
          left = (case step_target st of
              Message i \<Rightarrow>
                (case message of
                   Some m \<Rightarrow> (if is_flag_change op \<and> m_remote m = None
                              then leaving_after store i (step_head st) else None)
                 | None \<Rightarrow> None)
            | _ \<Rightarrow> None);
          place = (case op of
              Move from to \<Rightarrow> Some (from, Some to)
            | Delete from trash \<Rightarrow> Some (from, Some trash)
            | Expunge m \<Rightarrow> Some (m, None)
            | Purge m \<Rightarrow> Some (m, None)
            | _ \<Rightarrow> (case message of
                  None \<Rightarrow> None
                | Some m \<Rightarrow> Some (case left of Some (from, _) \<Rightarrow> from | None \<Rightarrow> m_mailbox m, None)))
      in case place of
        None \<Rightarrow> gone_locally
      | Some (mailbox, destination) \<Rightarrow>
          (let ids = (case step_target st of
                Message i \<Rightarrow>
                  (case message of
                     None \<Rightarrow> Inl gone_locally
                   | Some m \<Rightarrow>
                       (let snapshot = (if is_move op then head_snapshot store st else map_option snd left)
                        in case (case snapshot of Some r \<Rightarrow> Some r | None \<Rightarrow> m_remote m) of
                          Some rid \<Rightarrow> Inr [rid]
                        | None \<Rightarrow> Inl (ResObsolete
                            ''the message has never been uploaded, so the server has nothing to change'' None)))
              | _ \<Rightarrow> Inr [])
           in case ids of
             Inl r \<Rightarrow> r
           | Inr ids \<Rightarrow>
               (case de_mailbox_path E (ds_world s) mailbox of
                  None \<Rightarrow> Impossible (''mailbox '' @ dec_int mailbox @ '' is no longer in the local store'')
                | Some path \<Rightarrow>
                    (let ready = (\<lambda>dest. Ready \<lparr>cx_operation = op, cx_path = path, cx_destination = dest,
                           cx_ids = ids, cx_mailbox = mailbox,
                           cx_message = (case step_target st of Message i \<Rightarrow> Some i | _ \<Rightarrow> None), cx_job = None\<rparr>)
                     in case destination of
                       None \<Rightarrow> ready None
                     | Some d \<Rightarrow>
                         (case de_mailbox_path E (ds_world s) d of
                            Some p \<Rightarrow> ready (Some p)
                          | None \<Rightarrow> Impossible (''the destination mailbox '' @ dec_int d @ '' is no longer in the local store''))))))"

definition resolve ::
  "('w, 'j) drain_env \<Rightarrow> 'w drain_state \<Rightarrow> step \<Rightarrow> sync_error + 'j resolved" where
  "resolve E s st =
     (let op = step_operation st in
      case op of
        Send d \<Rightarrow> map_sum id (resolved_job op) (de_resolve_send E s d)
      | CrossAccountCopy _ \<Rightarrow> Inr (Ready (bare_context op [] None))
      | CrossAccountRemove _ \<Rightarrow>
          Inr (Ready (bare_context op (case head_snapshot (ds_store s) st of Some r \<Rightarrow> [r] | None \<Rightarrow> []) None))
      | Append _ _ _ \<Rightarrow> Inr (Ready (bare_context op [] None))
      | _ \<Rightarrow>
          (case resolve_draft E s st of
             Some r \<Rightarrow> r
           | None \<Rightarrow> Inr (resolve_mailbox E s st)))"



text \<open>\<open>carry\<close>: the attachments a forward still has to fetch.\<close>

definition carry ::
  "('w, 'j) drain_env \<Rightarrow> 'w drain_state \<Rightarrow> step \<Rightarrow> 'w drain_state \<times> (sync_error + outcome option)" where
  "carry E s st =
     (let draft = (case step_operation st of
            Send d \<Rightarrow> Some d
          | SaveDraft _ \<Rightarrow> (case step_target st of Draft_target d \<Rightarrow> Some d | _ \<Rightarrow> None)
          | _ \<Rightarrow> None)
      in case draft of
        None \<Rightarrow> (s, Inr None)
      | Some d \<Rightarrow>
          (if \<not> de_has_blobs E then (s, Inr None)
           else (case de_fetch_missing E s d of
               (s, Inl e) \<Rightarrow> (s, Inl e)
             | (s, Inr CarriedReady) \<Rightarrow> (s, Inr None)
             | (s, Inr (CarriedLater r)) \<Rightarrow> (s, Inr (Some (Retry r None)))
             | (s, Inr (CarriedImpossible r)) \<Rightarrow>
                 (s, Inr (Some (case step_operation st of
                     SaveDraft _ \<Rightarrow> Retry r None
                   | _ \<Rightarrow> FailedOutcome r))))))"


subsection \<open>Sending a step\<close>

definition adopt_moved_identity ::
  "op_store \<Rightarrow> message_id \<Rightarrow> mailbox_id \<Rightarrow> uid_mapping \<Rightarrow> op_store" where
  "adopt_moved_identity s i mailbox landing =
     s\<lparr>o_messages := map (\<lambda>m. if m_id m = i \<and> m_mailbox m = mailbox \<and> m_uid m = None \<and> m_remote m = None
        then m\<lparr>m_uid := Some (um_destination landing), m_remote := Some (um_destination_remote_id landing)\<rparr>
        else m) (o_messages s)\<rparr>"

fun landed_in :: "operation \<Rightarrow> mailbox_id option" where
  "landed_in (Move _ to) = Some to"
| "landed_in (Delete _ trash) = Some trash"
| "landed_in _ = None"

definition move_and_adopt ::
  "('w, 'j) drain_env \<Rightarrow> 'w drain_state \<Rightarrow> 'j drain_context \<Rightarrow> string
   \<Rightarrow> 'w drain_state \<times> (backend_error + uid_mapping list)" where
  "move_and_adopt E s cx destination =
     (case de_move_messages E (ds_world s) (cx_path cx) (cx_ids cx) destination of
        (w, Inl e) \<Rightarrow> (s\<lparr>ds_world := w\<rparr>, Inl e)
      | (w, Inr mapping) \<Rightarrow>
          (let s = s\<lparr>ds_world := w\<rparr> in
           case (cx_message cx, landed_in (cx_operation cx), mapping) of
             (Some m, Some landed, [landing]) \<Rightarrow>
               (s\<lparr>ds_store := adopt_moved_identity (ds_store s) m landed landing\<rparr>, Inr mapping)
           | _ \<Rightarrow> (s, Inr mapping)))"

definition store_flags ::
  "('w, 'j) drain_env \<Rightarrow> 'w drain_state \<Rightarrow> 'j drain_context \<Rightarrow> flag_change
   \<Rightarrow> 'w drain_state \<times> (backend_error + bool)" where
  "store_flags E s cx change =
     (case de_store_flags E (ds_world s) (cx_path cx) (cx_ids cx) change of
        (w, Inl e) \<Rightarrow> (s\<lparr>ds_world := w\<rparr>, Inl e)
      | (w, Inr updates) \<Rightarrow> (s\<lparr>ds_world := w\<rparr>, Inr (updates = 0)))"

definition resync_insert :: "mailbox_id \<Rightarrow> mailbox_id list \<Rightarrow> mailbox_id list" where
  "resync_insert m resync = bt_insert id m resync"

text \<open>
  The result of the backend call, before it becomes an outcome; \<open>Inr\<close> in the middle of
  \<open>sent\<close> is an outcome the module already decided.
\<close>

definition send_call ::
  "('w, 'j) drain_env \<Rightarrow> 'w drain_state \<Rightarrow> 'j drain_context \<Rightarrow> mailbox_id list
   \<Rightarrow> ('w drain_state \<times> mailbox_id list \<times> ((backend_error + outcome) + outcome)) option" where
  "send_call E s cx resync =
     (case cx_operation cx of
        CrossAccountCopy saga \<Rightarrow> (let (s, out) = de_copy E s saga in Some (s, resync, Inr out))
      | CrossAccountRemove saga \<Rightarrow> (let (s, out) = de_remove E s saga (cx_ids cx) in Some (s, resync, Inr out))
      | SetFlags fs \<Rightarrow>
          (let (s, r) = store_flags E s cx (AddFlags fs)
           in Some (s, resync, Inl (map_sum id vanished_if_untouched r)))
      | ClearFlags fs \<Rightarrow>
          (let (s, r) = store_flags E s cx (RemoveFlags fs)
           in Some (s, resync, Inl (map_sum id vanished_if_untouched r)))
      | Expunge _ \<Rightarrow>
          (let (w, r) = de_expunge E (ds_world s) (cx_path cx) None
           in Some (s\<lparr>ds_world := w\<rparr>, resync, Inl (map_sum id (\<lambda>_. Applied) r)))
      | Purge _ \<Rightarrow>
          (case store_flags E s cx (AddFlags (fs_from_iter [Deleted])) of
             (s, Inl e) \<Rightarrow> Some (s, resync, Inl (Inl e))
           | (s, Inr _) \<Rightarrow>
               (let (w, r) = de_expunge E (ds_world s) (cx_path cx) (Some (cx_ids cx))
                in Some (s\<lparr>ds_world := w\<rparr>, resync, Inl (map_sum id (\<lambda>_. Applied) r))))
      | Append _ _ _ \<Rightarrow>
          Some (s, resync, Inr (FailedOutcome
            (''`'' @ op_type (cx_operation cx) @ ''` needs the blob store, which the drainer does not have yet'')))
      | SaveDraft _ \<Rightarrow>
          (case cx_job cx of None \<Rightarrow> None
           | Some j \<Rightarrow> (let (s, ms, out) = de_run_draft E s j in Some (s, foldl (\<lambda>r m. resync_insert m r) resync ms, Inr out)))
      | DiscardDraft _ _ \<Rightarrow>
          (case cx_job cx of None \<Rightarrow> None
           | Some j \<Rightarrow> (let (s, ms, out) = de_run_draft E s j in Some (s, foldl (\<lambda>r m. resync_insert m r) resync ms, Inr out)))
      | Send _ \<Rightarrow>
          (case cx_job cx of None \<Rightarrow> None
           | Some j \<Rightarrow> (let (s, ms, out) = de_send E s j in Some (s, foldl (\<lambda>r m. resync_insert m r) resync ms, Inr out)))
      | _ \<Rightarrow>
          (case cx_destination cx of
             None \<Rightarrow> None
           | Some destination \<Rightarrow>
               (case move_and_adopt E s cx destination of
                  (s, Inl e) \<Rightarrow> Some (s, resync, Inl (Inl e))
                | (s, Inr _) \<Rightarrow>
                    Some (s, (case landed_in (cx_operation cx) of
                        Some m \<Rightarrow> resync_insert m resync | None \<Rightarrow> resync), Inl (Inr Applied)))))"

definition send_step ::
  "('w, 'j) drain_env \<Rightarrow> 'w drain_state \<Rightarrow> 'j drain_context \<Rightarrow> mailbox_id list
   \<Rightarrow> ('w drain_state \<times> mailbox_id list \<times> outcome) option" where
  "send_step E s cx resync =
     (case send_call E s cx resync of
        None \<Rightarrow> None
      | Some (s, resync, Inr out) \<Rightarrow> Some (s, resync, out)
      | Some (s, resync, Inl (Inr out)) \<Rightarrow>
          Some (s, (case out of Obsolete _ \<Rightarrow> resync_insert (cx_mailbox cx) resync | _ \<Rightarrow> resync), out)
      | Some (s, resync, Inl (Inl e)) \<Rightarrow>
          Some (s, (if requires_full_resync e then resync_insert (cx_mailbox cx) resync else resync),
                outcome_from_error (de_msg E) e))"

text \<open>\<open>run\<close> followed by \<open>send\<close>: what becomes of one step.\<close>

definition run_step ::
  "('w, 'j) drain_env \<Rightarrow> 'w drain_state \<Rightarrow> step \<Rightarrow> mailbox_id list
   \<Rightarrow> ('w drain_state \<times> mailbox_id list \<times> (sync_error + outcome)) option" where
  "run_step E s st resync =
     (case carry E s st of
        (s, Inl e) \<Rightarrow> Some (s, resync, Inl e)
      | (s, Inr (Some out)) \<Rightarrow> Some (s, resync, Inr out)
      | (s, Inr None) \<Rightarrow>
          (case resolve E s st of
             Inl e \<Rightarrow> Some (s, resync, Inl e)
           | Inr r \<Rightarrow>
               (case r of
                  Ready cx \<Rightarrow> map_option (\<lambda>(s, resync, out). (s, resync, Inr out)) (send_step E s cx resync)
                | ResObsolete reason mailbox \<Rightarrow>
                    Some (s, (case mailbox of Some m \<Rightarrow> resync_insert m resync | None \<Rightarrow> resync), Inr (Obsolete reason))
                | Later reason \<Rightarrow> Some (s, resync, Inr (Retry reason None))
                | Impossible reason \<Rightarrow> Some (s, resync, Inr (FailedOutcome reason))
                | ResUncertain reason \<Rightarrow> Some (s, resync, Inr (Uncertain reason)))))"


subsection \<open>Settling\<close>

definition to_millis :: "int \<Rightarrow> int" where "to_millis t = t div 1000000"

definition row_attempts :: "op_store \<Rightarrow> step \<Rightarrow> nat" where
  "row_attempts s st =
     foldl (\<lambda>a i. case get_row s i of Some r \<Rightarrow> max a (q_attempts r) | None \<Rightarrow> a) 0 (step_rows st)"

definition failed_op :: "step \<Rightarrow> string \<Rightarrow> failed_operation" where
  "failed_op st reason = \<lparr>fo_rows = step_rows st, fo_target = step_target st,
     fo_op_type = op_type (step_operation st), fo_reason = reason\<rparr>"

definition fail_step ::
  "('w, 'j) drain_env \<Rightarrow> 'w drain_state \<Rightarrow> step \<Rightarrow> string \<Rightarrow> int \<Rightarrow> drain_report
   \<Rightarrow> 'w drain_state \<times> (sync_error + drain_report)" where
  "fail_step E s st reason now report =
     (case each (\<lambda>q i. mark_failed q i (to_millis now) reason) (ds_store s) (step_rows st) of
        Inl e \<Rightarrow> (s, Inl (StorageError e))
      | Inr q \<Rightarrow>
          (let w = (case step_operation st of
                 Send d \<Rightarrow> de_mark_draft_failed E (ds_world s) d
               | _ \<Rightarrow> ds_world s)
           in (s\<lparr>ds_store := q, ds_world := w\<rparr>,
               Inr (report\<lparr>dr_failed := dr_failed report @ [failed_op st reason]\<rparr>))))"

definition settle ::
  "chrono \<Rightarrow> retry_policy \<Rightarrow> ('w, 'j) drain_env \<Rightarrow> 'w drain_state \<Rightarrow> step \<Rightarrow> outcome \<Rightarrow> int \<Rightarrow> drain_report
   \<Rightarrow> ('w drain_state \<times> (sync_error + drain_report)) option" where
  "settle L policy E s st out now report =
     (let rows = length (step_rows st);
          stored = (\<lambda>r report. case r of
              Inl e \<Rightarrow> (s, Inl (StorageError e))
            | Inr q \<Rightarrow> (s\<lparr>ds_store := q\<rparr>, Inr report))
      in case out of
        Applied \<Rightarrow>
          Some (stored (each (\<lambda>q i. mark_done q i (to_millis now)) (ds_store s) (step_rows st))
            (report\<lparr>dr_applied := dr_applied report + rows\<rparr>))
      | Obsolete reason \<Rightarrow>
          Some (stored (each (\<lambda>q i. mark_done_noted q i (to_millis now) reason) (ds_store s) (step_rows st))
            (report\<lparr>dr_obsolete := dr_obsolete report + rows\<rparr>))
      | Retry reason after \<Rightarrow>
          (let attempts = row_attempts (ds_store s) st + 1 in
           if retry_is_exhausted policy attempts
           then Some (fail_step E s st (reason @ '' (gave up after '' @ dec attempts @ '' attempts)'') now report)
           else (case next_attempt_at L policy now attempts after of
               None \<Rightarrow> None
             | Some retry_at \<Rightarrow>
                 Some (stored (each (\<lambda>q i. defer_row q i (to_millis retry_at) reason) (ds_store s) (step_rows st))
                   (report\<lparr>dr_deferred := dr_deferred report + rows\<rparr>))))
      | FailedOutcome reason \<Rightarrow> Some (fail_step E s st reason now report)
      | Uncertain reason \<Rightarrow>
          Some (stored (each (\<lambda>q i. mark_done_noted q i (to_millis now) reason) (ds_store s) (step_rows st))
            (report\<lparr>dr_uncertain := dr_uncertain report @ [failed_op st reason]\<rparr>)))"


subsection \<open>One pass\<close>

fun drain_steps ::
  "chrono \<Rightarrow> retry_policy \<Rightarrow> ('w, 'j) drain_env \<Rightarrow> int \<Rightarrow> step list \<Rightarrow> 'w drain_state \<Rightarrow> mailbox_id list \<Rightarrow> drain_report
   \<Rightarrow> ('w drain_state \<times> (sync_error + drain_report)) option" where
  "drain_steps L policy E now [] s resync report = Some (s, Inr (report\<lparr>dr_needs_resync := resync\<rparr>))"
| "drain_steps L policy E now (st # sts) s resync report =
     (case run_step E s st resync of
        None \<Rightarrow> None
      | Some (s, _, Inl e) \<Rightarrow> Some (s, Inl e)
      | Some (s, resync, Inr out) \<Rightarrow>
          (case settle L policy E s st out now report of
             None \<Rightarrow> None
           | Some (s, Inl e) \<Rightarrow> Some (s, Inl e)
           | Some (s, Inr report) \<Rightarrow> drain_steps L policy E now sts s resync report))"

definition drain ::
  "chrono \<Rightarrow> retry_policy \<Rightarrow> ('w, 'j) drain_env \<Rightarrow> 'w drain_state \<Rightarrow> account_id \<Rightarrow> int
   \<Rightarrow> ('w drain_state \<times> (sync_error + drain_report)) option" where
  "drain L policy E s account now =
     (let s = s\<lparr>ds_world := de_fail_orphaned_sends E (ds_world s) account\<rparr>;
          batch = pending (ds_store s) account (to_millis now)
      in if batch = [] then Some (s, Inr report_default)
      else
        (let plan = coalesce batch;
             report = report_default\<lparr>dr_coalesced := length (plan_obsolete plan)\<rparr>
         in case each (\<lambda>q i. mark_done_noted q i (to_millis now) ''folded into an operation that undid it'')
                   (ds_store s) (plan_obsolete plan) of
           Inl e \<Rightarrow> Some (s, Inl (StorageError e))
         | Inr q \<Rightarrow>
             (let s = s\<lparr>ds_store := q\<rparr> in
              case de_capabilities E (ds_world s) of
                Inl e \<Rightarrow> Some (s, Inl (BackendError e))
              | Inr _ \<Rightarrow> drain_steps L policy E now (plan_steps plan) s [] report)))"

end
