(* ===== verification/Coalesce_Exact.thy ===== *)
theory Coalesce_Exact
  imports Coalesce "HOL-Library.Sublist"
begin

section \<open>Folding does not change what the server ends up with\<close>

text \<open>
  The properties of \<open>coalesce\<close> (\<open>crates/postio-sync/src/coalesce.rs\<close>): the accounting
  and ordering guarantees hold for every batch; the refinement to \<open>serve_all\<close> holds for
  batches the enqueueing code can write, and fails for one shape the fold gets wrong.
\<close>

subsection \<open>Heads ascend\<close>

definition steps_sorted :: "queued_operation list \<Rightarrow> step list \<Rightarrow> bool" where
  "steps_sorted qs sts \<longleftrightarrow>
     sorted (map step_head sts)
     \<and> (\<forall>st\<in>set sts. step_rows st \<noteq> [] \<and> (\<exists>q\<in>set qs. step_head st \<le> q_id q))"

definition targets_are :: "operation_target \<Rightarrow> step list \<Rightarrow> bool" where
  "targets_are T sts \<longleftrightarrow> (\<forall>st\<in>set sts. step_target st = T)"

lemma row_step_simps [simp]:
  "step_operation (row_step q) = q_operation q"
  "step_target (row_step q) = q_target q"
  "step_rows (row_step q) = [q_id q]"
  "step_head (row_step q) = q_id q"
  by (simp_all add: row_step_def step_head_def)

lemma steps_sorted_push:
  assumes "push_steps sts q sts'" and "steps_sorted qs sts" and "\<forall>p\<in>set qs. q_id p \<le> q_id q"
  shows "steps_sorted (qs @ [q]) sts'"
  using assms
proof (induction rule: push_steps.induct)
  case (append sts q)
  then show ?case
    by (force simp: steps_sorted_def sorted_append intro: order_trans)
next
  case (into prev q op front)
  then show ?case
    by (auto simp: steps_sorted_def sorted_append step_head_def)
next
  case (cancel prev q front)
  then show ?case
    by (auto simp: steps_sorted_def sorted_append)
qed

lemma targets_are_push:
  assumes "push_steps sts q sts'" and "targets_are (q_target q) sts"
  shows "targets_are (q_target q) sts'"
  using assms by (induction rule: push_steps.induct) (auto simp: targets_are_def)

lemma tsteps_sorted:
  assumes "sorted (map q_id batch)"
  shows "steps_sorted (filter (\<lambda>q. q_target q = T) batch) (tsteps T (folds_of batch))"
proof (rule tsteps_induct [where prefix_ok = "\<lambda>qs. sorted (map q_id qs)"])
  show "sorted (map q_id (filter (\<lambda>q. q_target q = T) batch))"
    using assms by (rule sorted_filter)
next
  fix qs q sts sts'
  assume "steps_sorted qs sts" "push_steps sts q sts'" "sorted (map q_id (qs @ [q]))"
  then show "steps_sorted (qs @ [q]) sts'"
    by (intro steps_sorted_push) (auto simp: sorted_append)
qed (simp_all add: steps_sorted_def sorted_append)

lemma tsteps_targets: "targets_are T (tsteps T (folds_of batch))"
  using tsteps_induct [where P = "\<lambda>_ sts. targets_are T sts" and prefix_ok = "\<lambda>_. True"
      and T = T and batch = batch]
  by (auto simp: targets_are_def dest: targets_are_push [unfolded targets_are_def])

lemma fold_steps_targets:
  assumes "f \<in> set (folds_of batch)" and "st \<in> set (fold_steps f)"
  shows "step_target st = fold_target f"
proof -
  have "st \<in> set (tsteps (fold_target f) (folds_of batch))"
    using assms by (auto simp: tsteps_def)
  then show ?thesis using tsteps_targets by (auto simp: targets_are_def)
qed

lemma filter_steps_of_target:
  assumes "\<And>f st. f \<in> set fs \<Longrightarrow> st \<in> set (fold_steps f) \<Longrightarrow> step_target st = fold_target f"
  shows "filter (\<lambda>st. step_target st = T) (concat (map fold_steps fs)) = tsteps T fs"
  using assms
proof (induction fs)
  case (Cons f fs)
  have "filter (\<lambda>st. step_target st = T) (fold_steps f) = (if fold_target f = T then fold_steps f else [])"
    using Cons.prems [of f] by (auto simp: filter_id_conv filter_empty_conv)
  with Cons show ?case by simp
qed simp

text \<open>The plan's steps of one target are exactly that target's folded steps, in order.\<close>

lemma plan_tsteps:
  assumes "sorted (map q_id batch)"
  shows "filter (\<lambda>st. step_target st = T) (plan_steps (coalesce batch)) = tsteps T (folds_of batch)"
proof -
  have "sorted (map step_head (tsteps T (folds_of batch)))"
    using tsteps_sorted [OF assms] by (simp add: steps_sorted_def)
  moreover have "filter (\<lambda>st. step_target st = T) (concat (map fold_steps (folds_of batch))) =
      tsteps T (folds_of batch)"
    by (rule filter_steps_of_target) (rule fold_steps_targets)
  ultimately show ?thesis
    by (simp add: coalesce_def Let_def filter_sort sort_key_stable_sorted)
qed


subsection \<open>Merging two operations\<close>

definition single_flag :: "operation \<Rightarrow> bool" where
  "single_flag op \<longleftrightarrow>
     (case op of SetFlags fs \<Rightarrow> length fs = 1 | ClearFlags fs \<Rightarrow> length fs = 1 | _ \<Rightarrow> True)"

definition redirect :: "operation \<Rightarrow> operation \<Rightarrow> bool" where
  "redirect e l \<longleftrightarrow> (\<exists>a t b. e = Delete a t \<and> l = Move t b)"

lemma union_keys: "fs_keys (union a b) = fs_keys a \<union> fs_keys b"
  by (simp add: union_def fs.keys_union)

lemma difference_empty: "fs_is_empty (difference a b) \<longleftrightarrow> fs_keys a \<subseteq> fs_keys b"
proof -
  have "fs_is_empty (difference a b) \<longleftrightarrow> fs_keys (difference a b) = {}"
    by (simp add: fs_is_empty_def fs_keys_def)
  also have "\<dots> \<longleftrightarrow> fs_keys a - fs_keys b = {}"
    by (simp add: difference_def fs.keys_difference)
  finally show ?thesis by blast
qed

lemma merge_opposite_cases:
  "merge_opposite a b l = Cancelled \<longleftrightarrow> fs_keys a = fs_keys b"
  "merge_opposite a b l = Into m \<longleftrightarrow> m = l \<and> fs_keys a \<subset> fs_keys b"
  by (auto simp: merge_opposite_def difference_empty)

lemma single_flag_keys: "length fs = 1 \<Longrightarrow> \<exists>k. fs_keys fs = {k}"
  by (cases fs) (auto simp: fs_keys_def)

lemma served_eqI:
  "sv_loc s = sv_loc t \<Longrightarrow> sv_flags s = sv_flags t \<Longrightarrow> sv_copy s = sv_copy t \<Longrightarrow>
   sv_log s = sv_log t \<Longrightarrow> s = (t :: served)"
  by simp

text \<open>A cancelled pair leaves the server where it was.\<close>

lemma merge_cancelled_exact:
  assumes "merge e l = Cancelled" and "effective s e" and "serve s e = Some s1"
    and "effective s1 l" and "serve s1 l = Some s2"
  shows "s2 = s"
  using assms
  by (cases e; cases l)
    (auto simp: merge_def merge_opposite_cases split: if_splits intro!: served_eqI)

text \<open>
  One operation replaces both, and is itself effective where the first one was, unless a
  delete is followed by a move out of the trash to somewhere else.
\<close>

lemma merge_into_exact:
  assumes "merge e l = Into m" and "effective s e" and "serve s e = Some s1"
    and "effective s1 l" and "serve s1 l = Some s2"
    and "single_flag l" and "\<not> redirect e l"
  shows "effective s m \<and> serve s m = Some s2"
proof (cases "\<exists>a b. (e = SetFlags a \<and> l = ClearFlags b) \<or> (e = ClearFlags a \<and> l = SetFlags b)")
  case True
  then obtain a b where ab: "(e = SetFlags a \<and> l = ClearFlags b) \<or> (e = ClearFlags a \<and> l = SetFlags b)"
    by blast
  with assms(1) have m: "m = l" "fs_keys a \<subset> fs_keys b"
    by (auto simp: merge_def merge_opposite_cases)
  moreover from ab assms(6) obtain k where "fs_keys b = {k}"
    using single_flag_keys [of b] by (auto simp: single_flag_def)
  ultimately have "fs_keys a = {}" by auto
  with ab have "s1 = s" using assms(3) by auto
  with m assms(4,5) show ?thesis by simp
next
  case False
  with assms show ?thesis
    by (cases e; cases l)
      (auto simp: merge_def union_keys redirect_def split: if_splits intro!: served_eqI)
qed


subsection \<open>A target's folded steps act as its operations did\<close>

abbreviation ops_of :: "step list \<Rightarrow> operation list" where
  "ops_of sts \<equiv> map step_operation sts"

definition no_redirect :: "operation list \<Rightarrow> bool" where
  "no_redirect ops \<longleftrightarrow> (\<forall>a t b. Delete a t \<in> set ops \<longrightarrow> Move t b \<notin> set ops)"

definition folds_exactly :: "served \<Rightarrow> operation list \<Rightarrow> step list \<Rightarrow> bool" where
  "folds_exactly s ops sts \<longleftrightarrow>
     effective_run s (ops_of sts)
     \<and> serve_all s (ops_of sts) = serve_all s ops
     \<and> (\<forall>a t. Delete a t \<in> set (ops_of sts) \<longrightarrow> (\<exists>a'. Delete a' t \<in> set ops))"

lemma merge_delete:
  "merge e l = Into (Delete a t) \<Longrightarrow> \<exists>a'. l = Delete a' t"
  by (cases e; cases l) (auto simp: merge_def merge_opposite_def split: if_splits)

lemma folds_exactly_push:
  assumes "push_steps sts q sts'" and "folds_exactly s ops sts"
    and run: "effective_run s (ops @ [q_operation q])"
    and "single_flag (q_operation q)" and "no_redirect (ops @ [q_operation q])"
  shows "folds_exactly s (ops @ [q_operation q]) sts'"
  using assms
proof (induction rule: push_steps.induct)
  case (append sts q)
  then show ?case
    by (auto simp: folds_exactly_def effective_run_append serve_all_append)
next
  case (into prev q m front)
  let ?e = "step_operation prev" and ?l = "q_operation q"
  from into.prems obtain s0 s1 s2 where
    s0: "effective_run s (ops_of front)" "serve_all s (ops_of front) = Some s0" and
    s1: "effective s0 ?e" "serve s0 ?e = Some s1" "serve_all s ops = Some s1" and
    s2: "effective s1 ?l" "serve s1 ?l = Some s2"
    by (auto simp: folds_exactly_def effective_run_append serve_all_append)
  have "\<not> redirect ?e ?l"
    using into.prems by (fastforce simp: redirect_def no_redirect_def folds_exactly_def)
  with into.hyps into.prems s1 s2 have m: "effective s0 m" "serve s0 m = Some s2"
    using merge_into_exact by blast+
  have "\<exists>a'. Delete a' t \<in> set (ops @ [?l])" if "m = Delete a t" for a t
    using merge_delete into.hyps that by fastforce
  moreover have "\<exists>a'. Delete a' t \<in> set ops" if "Delete a t \<in> set (ops_of front)" for a t
    using into.prems that unfolding folds_exactly_def by (metis UnCI list.map_comp map_append set_append)
  ultimately have "\<forall>a t. Delete a t \<in> set (ops_of front @ [m]) \<longrightarrow> (\<exists>a'. Delete a' t \<in> set (ops @ [?l]))"
    by (metis UnCI UnE empty_iff list.set(1) set_ConsD set_append list.set(2) insert_iff)
  with s0 s1 s2 m show ?case
    by (simp add: folds_exactly_def effective_run_append serve_all_append)
next
  case (cancel prev q front)
  let ?e = "step_operation prev" and ?l = "q_operation q"
  from cancel.prems obtain s0 s1 s2 where
    s0: "effective_run s (ops_of front)" "serve_all s (ops_of front) = Some s0" and
    s1: "effective s0 ?e" "serve s0 ?e = Some s1" "serve_all s ops = Some s1" and
    s2: "effective s1 ?l" "serve s1 ?l = Some s2"
    by (auto simp: folds_exactly_def effective_run_append serve_all_append)
  with cancel.hyps have "s2 = s0" using merge_cancelled_exact by blast
  with cancel.prems s0 s1 s2 show ?case
    by (auto simp: folds_exactly_def serve_all_append)
qed

lemma tsteps_exact:
  assumes "effective_run s (map q_operation (filter (\<lambda>q. q_target q = T) batch))"
    and "\<forall>op\<in>set (map q_operation (filter (\<lambda>q. q_target q = T) batch)). single_flag op"
    and "no_redirect (map q_operation (filter (\<lambda>q. q_target q = T) batch))"
  shows "folds_exactly s (map q_operation (filter (\<lambda>q. q_target q = T) batch)) (tsteps T (folds_of batch))"
proof (rule tsteps_induct [where P = "\<lambda>qs. folds_exactly s (map q_operation qs)" and
      prefix_ok = "\<lambda>qs. effective_run s (map q_operation qs)
        \<and> (\<forall>op\<in>set (map q_operation qs). single_flag op) \<and> no_redirect (map q_operation qs)"])
  fix qs q sts sts'
  assume "folds_exactly s (map q_operation qs) sts" "push_steps sts q sts'"
    "effective_run s (map q_operation (qs @ [q])) \<and>
     (\<forall>op\<in>set (map q_operation (qs @ [q])). single_flag op) \<and> no_redirect (map q_operation (qs @ [q]))"
  then show "folds_exactly s (map q_operation (qs @ [q])) sts'"
    using folds_exactly_push [of sts q sts' s "map q_operation qs"] by simp
qed (use assms in \<open>auto simp: folds_exactly_def effective_run_append no_redirect_def\<close>)


subsection \<open>Events are never folded\<close>

lemma merge_foldable: "merge e l = Into m \<Longrightarrow> foldable l \<Longrightarrow> foldable m"
  by (cases e; cases l) (auto simp: merge_def merge_opposite_def split: if_splits)

lemma merge_foldable_left: "merge e l \<noteq> No \<Longrightarrow> foldable e"
  by (cases e) (auto simp: merge_def)

definition event_steps :: "step list \<Rightarrow> step multiset" where
  "event_steps sts = filter_mset (\<lambda>st. \<not> foldable (step_operation st)) (mset sts)"

definition event_rows :: "queued_operation list \<Rightarrow> step multiset" where
  "event_rows qs = mset (map row_step (filter (\<lambda>q. \<not> foldable (q_operation q)) qs))"

lemma event_steps_simps [simp]:
  "event_steps [] = {#}"
  "event_steps (xs @ ys) = event_steps xs + event_steps ys"
  "event_steps [st] = (if foldable (step_operation st) then {#} else {#st#})"
  by (simp_all add: event_steps_def)

lemma event_steps_push: "push_steps sts q sts' \<Longrightarrow> event_steps sts' = event_steps sts + event_rows [q]"
proof (induction rule: push_steps.induct)
  case (append sts q)
  then show ?case by (simp add: event_rows_def)
next
  case (into prev q op front)
  have "foldable (q_operation q)"
    using into by (cases "step_operation prev"; cases "q_operation q") (auto simp: merge_def)
  with into show ?case
    using merge_foldable merge_foldable_left [of "step_operation prev" "q_operation q"]
    by (auto simp: event_rows_def)
next
  case (cancel prev q front)
  have "foldable (q_operation q)"
    using cancel by (cases "step_operation prev"; cases "q_operation q") (auto simp: merge_def)
  with cancel show ?case
    using merge_foldable_left [of "step_operation prev" "q_operation q"]
    by (auto simp: event_rows_def)
qed

lemma event_steps_place:
  "event_steps (concat (map fold_steps (place fs q))) =
   event_steps (concat (map fold_steps fs)) + event_rows [q]"
proof (induction fs)
  case Nil
  then show ?case by (simp add: fold_new_steps event_rows_def)
next
  case (Cons f fs)
  then show ?case using event_steps_push [OF fold_push_steps, of f q] by simp
qed

lemma event_rows_snoc: "event_rows (qs @ [q]) = event_rows qs + event_rows [q]"
  by (simp add: event_rows_def)

lemma event_steps_folds: "event_steps (concat (map fold_steps (folds_of batch))) = event_rows batch"
  by (induction batch rule: rev_induct)
    (simp_all add: folds_of_def event_steps_place event_rows_snoc, simp add: event_rows_def)

lemma tsteps_subseq:
  "subseq (concat (map step_rows (tsteps T (folds_of batch)))) (map q_id (filter (\<lambda>q. q_target q = T) batch))"
proof (rule tsteps_induct [where prefix_ok = "\<lambda>_. True"
      and P = "\<lambda>(qs :: queued_operation list) sts. subseq (concat (map step_rows sts)) (map q_id qs)"])
  fix qs :: "queued_operation list" and q sts sts'
  assume "push_steps sts q sts'" "subseq (concat (map step_rows sts)) (map q_id qs)"
  then show "subseq (concat (map step_rows sts')) (map q_id (qs @ [q]))"
  proof (induction rule: push_steps.induct)
    case (append sts q)
    then show ?case by (simp add: list_emb_append_mono)
  next
    case (into prev q op front)
    then show ?case
      using list_emb_append_mono [of "(=)" "concat (map step_rows (front @ [prev]))" "map q_id qs" "[q_id q]" "[q_id q]"]
      by simp
  next
    case (cancel prev q front)
    then have "subseq (concat (map step_rows front) @ step_rows prev) (map q_id qs)" by simp
    moreover have "subseq (concat (map step_rows front)) (concat (map step_rows front) @ step_rows prev)"
      by (rule subseq_rev_drop_many) simp
    ultimately have "subseq (concat (map step_rows front)) (map q_id qs)"
      by (rule subseq_order.order_trans [rotated])
    then show ?case by (simp add: subseq_rev_drop_many)
  qed
qed simp_all


subsection \<open>Properties\<close>

text \<open>A queue row as the enqueueing code writes it, for concrete batches.\<close>

definition demo_row :: "operation_id \<Rightarrow> operation_target \<Rightarrow> operation \<Rightarrow> queued_operation" where
  "demo_row i t op =
     \<lparr>q_id = i, q_account = 1, q_target = t, q_operation = op, q_inverse = inverse op,
      q_mailbox = None, q_state = Pending, q_attempts = 0, q_last_error = None,
      q_next_attempt = None, q_created = 0, q_updated = 0, q_source_remote = None\<rparr>"

text \<open>
  C1: Folding is a refinement.  For any batch in queue order and any target, if that
  target's operations are effective one after another (a flag change changes its one flag,
  a move starts where the message is) and nothing is moved out of a trash it was deleted
  into within the batch, then performing the plan's steps for that target leaves the server
  exactly where performing every queued operation would have.
\<close>

theorem coalesce_refines_queue:
  assumes "sorted (map q_id batch)"
    and "effective_run s (map q_operation (filter (\<lambda>q. q_target q = T) batch))"
    and "\<forall>op\<in>set (map q_operation (filter (\<lambda>q. q_target q = T) batch)). single_flag op"
    and "no_redirect (map q_operation (filter (\<lambda>q. q_target q = T) batch))"
  shows "serve_all s (map step_operation (filter (\<lambda>st. step_target st = T) (plan_steps (coalesce batch))))
       = serve_all s (map q_operation (filter (\<lambda>q. q_target q = T) batch))"
  using tsteps_exact [OF assms(2-4)] by (simp add: plan_tsteps [OF assms(1)] folds_exactly_def)

theorem coalesce_refines_queue_witness:
  "serve_all \<lparr>sv_loc = 1, sv_flags = {}, sv_copy = False, sv_log = []\<rparr>
     (map step_operation (filter (\<lambda>st. step_target st = Message 7)
       (plan_steps (coalesce [demo_row 1 (Message 7) (SetFlags [Seen]),
                              demo_row 2 (Message 8) (Move 1 2),
                              demo_row 3 (Message 7) (Move 1 2),
                              demo_row 4 (Message 7) (Delete 2 3)]))))
   = serve_all \<lparr>sv_loc = 1, sv_flags = {}, sv_copy = False, sv_log = []\<rparr>
       [SetFlags [Seen], Move 1 2, Delete 2 3]"
  using coalesce_refines_queue
    [of "[demo_row 1 (Message 7) (SetFlags [Seen]), demo_row 2 (Message 8) (Move 1 2),
          demo_row 3 (Message 7) (Move 1 2), demo_row 4 (Message 7) (Delete 2 3)]"
        "\<lparr>sv_loc = 1, sv_flags = {}, sv_copy = False, sv_log = []\<rparr>" "Message 7"]
  by (simp add: demo_row_def single_flag_def no_redirect_def)

text \<open>
  C25: Every queue row is accounted for, whatever the batch: the rows behind the plan's
  steps together with the obsolete rows are exactly the rows of the batch (each once), so
  \<open>Plan::rows\<close> is the batch's length, and \<open>Plan::saved\<close> never underflows.
\<close>

theorem coalesce_accounts_for_every_row:
  "mset (concat (map step_rows (plan_steps (coalesce batch))) @ plan_obsolete (coalesce batch))
     = mset (map q_id batch)
   \<and> plan_rows (coalesce batch) = length batch
   \<and> length (plan_steps (coalesce batch)) \<le> plan_rows (coalesce batch)"
proof -
  let ?p = "coalesce batch"
  have "size (step_mset (plan_steps ?p) + mset (plan_obsolete ?p)) = length batch"
    by (simp add: plan_mset del: mset_map)
  then have rows: "plan_rows ?p = length batch"
    by (simp add: plan_rows_def size_step_mset)
  have "\<forall>st\<in>set sts. step_rows st \<noteq> [] \<Longrightarrow> length sts \<le> sum_list (map (\<lambda>st. length (step_rows st)) sts)" for sts
    by (induction sts) (auto simp flip: length_greater_0_conv)
  then have "length (plan_steps ?p) \<le> plan_rows ?p"
    using coalesce_rows_nonempty [of _ batch] by (fastforce simp: plan_rows_def intro: trans_le_add1)
  moreover have "step_mset sts = mset (concat (map step_rows sts))" for sts
    by (induction sts) simp_all
  ultimately show ?thesis using rows plan_mset [of batch] by simp
qed

text \<open>
  A send, an append, an expunge, a purge and a cross-account phase are never folded:
  the plan holds exactly one step for each such row, unchanged and alone, and no others.
\<close>

theorem coalesce_never_folds_events:
  "filter_mset (\<lambda>st. \<not> foldable (step_operation st)) (mset (plan_steps (coalesce batch)))
   = mset (map row_step (filter (\<lambda>q. \<not> foldable (q_operation q)) batch))"
  using event_steps_folds [of batch]
  by (simp add: event_steps_def event_rows_def coalesce_def Let_def)

text \<open>
  The plan keeps the user's order: in a batch in queue order the steps come out by
  ascending first row, and the rows behind one target's steps, read in plan order, are a
  subsequence of that target's rows in the queue.
\<close>

theorem coalesce_keeps_order:
  assumes "sorted (map q_id batch)"
  shows "sorted (map step_head (plan_steps (coalesce batch)))
    \<and> subseq (concat (map step_rows (filter (\<lambda>st. step_target st = T) (plan_steps (coalesce batch)))))
        (map q_id (filter (\<lambda>q. q_target q = T) batch))"
  using tsteps_subseq [of T batch] by (simp add: plan_tsteps [OF assms]) (simp add: coalesce_def Let_def)

theorem coalesce_keeps_order_witness:
  "sorted (map step_head (plan_steps (coalesce
     [demo_row 1 (Message 7) (SetFlags [Seen]), demo_row 2 (Message 8) (Move 1 2),
      demo_row 3 (Message 7) (SetFlags [Flagged])])))"
  using coalesce_keeps_order
    [of "[demo_row 1 (Message 7) (SetFlags [Seen]), demo_row 2 (Message 8) (Move 1 2),
          demo_row 3 (Message 7) (SetFlags [Flagged])]" "Message 7"]
  by (simp add: demo_row_def)

text \<open>
  C35: The fold is wrong for a delete followed by a move out of the trash to another
  mailbox (deleting an archived message and taking that back, before the queue drains):
  the queued operations take the message from \<open>a\<close> to \<open>b\<close>, but the plan is the single
  move from the trash, where the message never was, which the server refuses.
\<close>

theorem coalesce_delete_then_move_lost:
  assumes "sv_loc s = a" and "a \<noteq> t" and "a \<noteq> b"
  shows "plan_steps (coalesce [demo_row 1 (Message m) (Delete a t), demo_row 2 (Message m) (Move t b)])
       = [\<lparr>step_operation = Move t b, step_target = Message m, step_rows = [1, 2]\<rparr>]
    \<and> serve_all s [Delete a t, Move t b] = Some (s\<lparr>sv_loc := b\<rparr>)
    \<and> serve_all s [Move t b] = None"
  using assms
  by (simp add: coalesce_def folds_of_def fold_new_def fold_push_def merge_def demo_row_def
      row_step_def Let_def)

theorem coalesce_delete_then_move_lost_witness:
  "serve_all \<lparr>sv_loc = 1, sv_flags = {}, sv_copy = False, sv_log = []\<rparr> [Move 3 2] = None
   \<and> plan_steps (coalesce [demo_row 1 (Message 7) (Delete 1 3), demo_row 2 (Message 7) (Move 3 2)])
       = [\<lparr>step_operation = Move 3 2, step_target = Message 7, step_rows = [1, 2]\<rparr>]"
  using coalesce_delete_then_move_lost
    [of "\<lparr>sv_loc = 1, sv_flags = {}, sv_copy = False, sv_log = []\<rparr>" 1 3 2 7]
  by simp

end
