(* ===== verification/Drain_Props.thy ===== *)
theory Drain_Props
  imports Drain Coalesce_Exact
begin

section \<open>Draining the queue: the properties\<close>

text \<open>
  A pass settles every row it took, and only those; what each outcome does to its rows;
  that nothing is retried for ever; how a step finds the server's copy of a message; and
  two places where the pass does not do what it says.
\<close>

subsection \<open>What the rest of the engine keeps\<close>

text \<open>
  The modules a pass calls may add rows to the queue (a reply marks its parent answered),
  but they leave the rows there are alone.
\<close>

definition keeps :: "'w drain_state \<Rightarrow> 'w drain_state \<Rightarrow> bool" where
  "keeps s s' \<longleftrightarrow> (queue_wf (ds_store s) \<longrightarrow> queue_wf (ds_store s')
     \<and> (\<forall>i r. get_row (ds_store s) i = Some r \<longrightarrow> get_row (ds_store s') i = Some r))"

definition env_keeps :: "('w, 'j) drain_env \<Rightarrow> bool" where
  "env_keeps E \<longleftrightarrow>
     (\<forall>s d. keeps s (fst (de_fetch_missing E s d))) \<and> (\<forall>s j. keeps s (fst (de_send E s j)))
     \<and> (\<forall>s j. keeps s (fst (de_run_draft E s j))) \<and> (\<forall>s g. keeps s (fst (de_copy E s g)))
     \<and> (\<forall>s g ids. keeps s (fst (de_remove E s g ids)))"

lemma keeps_refl [simp]: "keeps s s" by (simp add: keeps_def)

lemma keeps_trans: "keeps s t \<Longrightarrow> keeps t u \<Longrightarrow> keeps s u"
  by (auto simp: keeps_def)

lemma keeps_world [simp]: "keeps s (s\<lparr>ds_world := w\<rparr>)" by (simp add: keeps_def)

lemma keeps_adopt: "keeps s (s\<lparr>ds_world := w, ds_store := adopt_moved_identity (ds_store s) m l k\<rparr>)"
proof -
  have "map m_id (o_messages (adopt_moved_identity (ds_store s) m l k)) = map m_id (o_messages (ds_store s))"
    by (simp add: adopt_moved_identity_def)
  then have "queue_wf (ds_store s) \<Longrightarrow> queue_wf (adopt_moved_identity (ds_store s) m l k)"
    by (rule queue_wf_same [rotated -1]) (simp_all add: adopt_moved_identity_def)
  then show ?thesis by (simp add: keeps_def get_row_def adopt_moved_identity_def)
qed

lemma keeps_move: "keeps s (fst (move_and_adopt E s cx d))"
  by (auto simp: move_and_adopt_def keeps_adopt Let_def split: prod.splits sum.splits option.splits list.splits)

lemma keeps_store_flags: "keeps s (fst (store_flags E s cx c))"
  by (auto simp: store_flags_def split: prod.splits sum.splits)

lemma keeps_fst: "keeps s (fst p) \<Longrightarrow> p = (s', x) \<Longrightarrow> keeps s s'"
  by simp

lemma send_call_keeps:
  assumes "env_keeps E" "send_call E s cx resync = Some (s', r, x)"
  shows "keeps s s'"
proof -
  note k = assms(1) [unfolded env_keeps_def]
  show ?thesis
  proof (cases "cx_operation cx")
    case (SetFlags fs)
    then show ?thesis using assms(2) keeps_store_flags [of s E cx "AddFlags fs"]
      by (auto simp: send_call_def split: prod.splits)
  next
    case (ClearFlags fs)
    then show ?thesis using assms(2) keeps_store_flags [of s E cx "RemoveFlags fs"]
      by (auto simp: send_call_def split: prod.splits)
  next
    case (Move a b)
    then show ?thesis using assms(2) keeps_move [of s E cx]
      by (auto simp: send_call_def split: option.splits prod.splits sum.splits) (metis fst_conv)+
  next
    case (Delete a b)
    then show ?thesis using assms(2) keeps_move [of s E cx]
      by (auto simp: send_call_def split: option.splits prod.splits sum.splits) (metis fst_conv)+
  next
    case (Purge m)
    then show ?thesis using assms(2) keeps_store_flags [of s E cx "AddFlags (fs_from_iter [Deleted])"]
      by (auto simp: send_call_def split: prod.splits sum.splits intro: keeps_trans)
  next
    case (Send d)
    then show ?thesis using assms(2) k
      by (auto simp: send_call_def split: option.splits prod.splits) (metis fst_conv)
  next
    case (SaveDraft d)
    then show ?thesis using assms(2) k
      by (auto simp: send_call_def split: option.splits prod.splits) (metis fst_conv)
  next
    case (DiscardDraft d i)
    then show ?thesis using assms(2) k
      by (auto simp: send_call_def split: option.splits prod.splits) (metis fst_conv)
  next
    case (CrossAccountCopy g)
    then show ?thesis using assms(2) k
      by (auto simp: send_call_def split: prod.splits) (metis fst_conv)
  next
    case (CrossAccountRemove g)
    then show ?thesis using assms(2) k
      by (auto simp: send_call_def split: prod.splits) (metis fst_conv)
  qed (use assms(2) in \<open>auto simp: send_call_def split: prod.splits\<close>)
qed

lemma send_step_keeps:
  assumes "env_keeps E" "send_step E s cx resync = Some (s', r, x)"
  shows "keeps s s'"
  using assms(2) send_call_keeps [OF assms(1), of s cx resync]
  by (auto simp: send_step_def split: option.splits sum.splits prod.splits)

lemma carry_keeps:
  assumes "env_keeps E" "carry E s st = (s', x)"
  shows "keeps s s'"
proof -
  have k: "keeps s (fst (de_fetch_missing E s d))" for d using assms(1) by (simp add: env_keeps_def)
  have "keeps s s''" if "de_fetch_missing E s d = (s'', y)" for d s'' y using k [of d] that by simp
  then show ?thesis
    using assms(2)
    by (auto simp: carry_def Let_def split: option.splits sum.splits prod.splits if_split_asm carried.splits)
qed

lemma run_step_keeps:
  assumes "env_keeps E" "run_step E s st resync = Some (s', r, x)"
  shows "keeps s s'"
proof -
  obtain t y where c: "carry E s st = (t, y)" by force
  have t: "keeps s t" using carry_keeps [OF assms(1) c] .
  show ?thesis
    using assms(2) c t send_step_keeps [OF assms(1), of t _ resync]
    by (auto simp: run_step_def split: sum.splits option.splits resolved.splits intro: keeps_trans)
qed


subsection \<open>Settling one step\<close>

definition settled_from :: "nat \<Rightarrow> queued_operation \<Rightarrow> queued_operation \<Rightarrow> bool" where
  "settled_from mx r r' \<longleftrightarrow> q_id r' = q_id r \<and> q_operation r' = q_operation r \<and> q_target r' = q_target r
     \<and> ((q_state r' = Done \<and> q_attempts r' = q_attempts r)
        \<or> (q_state r' = Failed \<and> q_attempts r' = q_attempts r + 1)
        \<or> (q_state r' = Pending \<and> q_attempts r' = q_attempts r + 1
            \<and> q_attempts r' < mx \<and> q_next_attempt r' \<noteq> None))"

lemma settled_from_rows:
  "settled_from mx r (done_row t r)" "settled_from mx r (failed_row t e r)"
  "q_attempts r + 1 < mx \<Longrightarrow> settled_from mx r (deferred_row t e r)"
  "settled_from mx r ((noted_row n \<circ> done_row t) r)"
  by (simp_all add: settled_from_def done_row_def failed_row_def deferred_row_def noted_row_def)

definition rows_in :: "op_store \<Rightarrow> operation_id list \<Rightarrow> bool" where
  "rows_in s js \<longleftrightarrow> distinct js \<and> (\<forall>i\<in>set js. get_row s i \<noteq> None)"

text \<open>The rows \<open>js\<close> were each settled, and no other row changed.\<close>

definition settled_rows :: "nat \<Rightarrow> op_store \<Rightarrow> operation_id list \<Rightarrow> op_store \<Rightarrow> bool" where
  "settled_rows mx s js s' \<longleftrightarrow> queue_wf s'
     \<and> (\<forall>i r. get_row s i = Some r \<longrightarrow>
          (\<exists>r'. get_row s' i = Some r' \<and> (if i \<in> set js then settled_from mx r r' else r' = r)))"

definition report_rows :: "drain_report \<Rightarrow> nat" where
  "report_rows r = dr_applied r + dr_coalesced r + dr_obsolete r + dr_deferred r
     + sum_list (map (\<lambda>f. length (fo_rows f)) (dr_failed r))
     + sum_list (map (\<lambda>f. length (fo_rows f)) (dr_uncertain r))"

lemma settled_rows_I:
  assumes "queue_wf s'" "get_row s' = (\<lambda>j. if j \<in> set js then map_option eff (get_row s j) else get_row s j)"
    and "\<And>i r. i \<in> set js \<Longrightarrow> get_row s i = Some r \<Longrightarrow> settled_from mx r (eff r)"
  shows "settled_rows mx s js s'"
  using assms by (auto simp: settled_rows_def)

lemma each_mark_done:
  assumes "queue_wf s" "rows_in s js"
  shows "\<exists>s'. each (\<lambda>q i. mark_done q i t) s js = Inr s' \<and> settled_rows mx s js s'"
proof -
  from assms(2) have "distinct js" "\<And>i. i \<in> set js \<Longrightarrow> get_row s i \<noteq> None" by (auto simp: rows_in_def)
  from mark_done.each_ok [OF assms(1) this, of t] obtain s'
    where "each (\<lambda>q i. mark_done q i t) s js = Inr s'" and wf: "queue_wf s'"
      and get: "get_row s' = (\<lambda>j. if j \<in> set js then map_option (done_row t) (get_row s j) else get_row s j)"
    by blast
  then show ?thesis using settled_rows_I [OF wf get settled_from_rows(1)] by blast
qed

lemma each_mark_done_noted:
  assumes "queue_wf s" "rows_in s js"
  shows "\<exists>s'. each (\<lambda>q i. mark_done_noted q i t n) s js = Inr s' \<and> settled_rows mx s js s'"
proof -
  from assms(2) have "distinct js" "\<And>i. i \<in> set js \<Longrightarrow> get_row s i \<noteq> None" by (auto simp: rows_in_def)
  from mark_done_noted.each_ok [OF assms(1) this, of t n] obtain s'
    where "each (\<lambda>q i. mark_done_noted q i t n) s js = Inr s'" and wf: "queue_wf s'"
      and get: "get_row s' = (\<lambda>j. if j \<in> set js then map_option (noted_row n \<circ> done_row t) (get_row s j) else get_row s j)"
    by blast
  then show ?thesis using settled_rows_I [OF wf get settled_from_rows(4)] by blast
qed

lemma each_mark_failed:
  assumes "queue_wf s" "rows_in s js"
  shows "\<exists>s'. each (\<lambda>q i. mark_failed q i t e) s js = Inr s' \<and> settled_rows mx s js s'"
proof -
  from assms(2) have "distinct js" "\<And>i. i \<in> set js \<Longrightarrow> get_row s i \<noteq> None" by (auto simp: rows_in_def)
  from mark_failed.each_ok [OF assms(1) this, of t e] obtain s'
    where "each (\<lambda>q i. mark_failed q i t e) s js = Inr s'" and wf: "queue_wf s'"
      and get: "get_row s' = (\<lambda>j. if j \<in> set js then map_option (failed_row t e) (get_row s j) else get_row s j)"
    by blast
  then show ?thesis using settled_rows_I [OF wf get settled_from_rows(2)] by blast
qed

lemma each_defer_row:
  assumes "queue_wf s" "rows_in s js" "\<And>i r. i \<in> set js \<Longrightarrow> get_row s i = Some r \<Longrightarrow> q_attempts r + 1 < mx"
  shows "\<exists>s'. each (\<lambda>q i. defer_row q i t e) s js = Inr s' \<and> settled_rows mx s js s'"
proof -
  from assms(2) have "distinct js" "\<And>i. i \<in> set js \<Longrightarrow> get_row s i \<noteq> None" by (auto simp: rows_in_def)
  from defer_row.each_ok [OF assms(1) this, of t e] obtain s'
    where "each (\<lambda>q i. defer_row q i t e) s js = Inr s'" and wf: "queue_wf s'"
      and get: "get_row s' = (\<lambda>j. if j \<in> set js then map_option (deferred_row t e) (get_row s j) else get_row s j)"
    by blast
  then show ?thesis using settled_rows_I [OF wf get settled_from_rows(3)] assms(3) by blast
qed

text \<open>\<open>attempts\<close> is the largest count of the step's rows.\<close>

lemma row_attempts_ge:
  assumes "i \<in> set (step_rows st)" "get_row s i = Some r"
  shows "q_attempts r \<le> row_attempts s st"
proof -
  have mono: "a \<le> foldl (\<lambda>a i. case get_row s i of Some r \<Rightarrow> max a (q_attempts r) | None \<Rightarrow> a) a js" for a js
  proof (induction js arbitrary: a)
    case (Cons j js)
    show ?case by (cases "get_row s j") (auto intro: Cons.IH le_trans [OF _ Cons.IH])
  qed simp
  have "i \<in> set js \<Longrightarrow> q_attempts r \<le> foldl (\<lambda>a i. case get_row s i of Some r \<Rightarrow> max a (q_attempts r) | None \<Rightarrow> a) a js"
    for a js
  proof (induction js arbitrary: a)
    case (Cons j js)
    then show ?case using assms(2) le_trans [OF max.cobounded2 mono [of "max a (q_attempts r)" js]] by auto
  qed simp
  then show ?thesis using assms(1) by (simp add: row_attempts_def)
qed

lemma fail_step_spec:
  assumes "queue_wf (ds_store s)" "rows_in (ds_store s) (step_rows st)"
  shows "\<exists>s' report'. fail_step E s st reason now report = (s', Inr report')
     \<and> settled_rows mx (ds_store s) (step_rows st) (ds_store s')
     \<and> report_rows report' = report_rows report + length (step_rows st)"
proof -
  obtain q where "each (\<lambda>q i. mark_failed q i (to_millis now) reason) (ds_store s) (step_rows st) = Inr q"
      "settled_rows mx (ds_store s) (step_rows st) q"
    using each_mark_failed [OF assms] by blast
  then show ?thesis by (simp add: fail_step_def report_rows_def failed_op_def Let_def)
qed

text \<open>Settling never fails: the rows of a step are there.\<close>

lemma settle_spec:
  assumes "queue_wf (ds_store s)" "rows_in (ds_store s) (step_rows st)"
    and "settle L policy E s st out now report = Some (s', x)"
  shows "\<exists>report'. x = Inr report' \<and> settled_rows (rp_max_attempts policy) (ds_store s) (step_rows st) (ds_store s')
     \<and> report_rows report' = report_rows report + length (step_rows st)"
proof (cases out)
  case Applied
  then show ?thesis
    using assms(3) each_mark_done [where t = "to_millis now" and mx = "rp_max_attempts policy", OF assms(1,2)]
    by (auto simp: settle_def report_rows_def)
next
  case (Obsolete r)
  then show ?thesis
    using assms(3) each_mark_done_noted [where t = "to_millis now" and n = r and mx = "rp_max_attempts policy", OF assms(1,2)]
    by (auto simp: settle_def report_rows_def)
next
  case (Uncertain r)
  then show ?thesis
    using assms(3) each_mark_done_noted [where t = "to_millis now" and n = r and mx = "rp_max_attempts policy", OF assms(1,2)]
    by (auto simp: settle_def report_rows_def failed_op_def)
next
  case (FailedOutcome r)
  then show ?thesis
    using assms(3) fail_step_spec [where E = E and reason = r and now = now and report = report and mx = "rp_max_attempts policy", OF assms(1,2)]
    by (auto simp: settle_def)
next
  case (Retry r a)
  show ?thesis
  proof (cases "retry_is_exhausted policy (row_attempts (ds_store s) st + 1)")
    case True
    then show ?thesis
      using assms(3) Retry fail_step_spec [where E = E and now = now and report = report and mx = "rp_max_attempts policy" and reason =
          "r @ '' (gave up after '' @ dec (row_attempts (ds_store s) st + 1) @ '' attempts)''", OF assms(1,2)]
      by (auto simp: settle_def Let_def)
  next
    case False
    then obtain at where "next_attempt_at L policy now (row_attempts (ds_store s) st + 1) a = Some at"
      using assms(3) Retry by (auto simp: settle_def Let_def split: option.splits)
    moreover have "q_attempts q + 1 < rp_max_attempts policy"
      if "i \<in> set (step_rows st)" "get_row (ds_store s) i = Some q" for i q
      using row_attempts_ge [OF that] False by (simp add: retry_is_exhausted_def)
    ultimately show ?thesis
      using assms(3) Retry False each_defer_row [where t = "to_millis at" and e = r and mx = "rp_max_attempts policy", OF assms(1,2)]
      by (auto simp: settle_def Let_def report_rows_def)
  qed
qed

end
