(* ===== verification/Drain_Passes.thy ===== *)
theory Drain_Passes
  imports Drain_Props
begin

section \<open>Draining the queue: a whole pass\<close>

text \<open>
  The steps of a plan run one after another: every row taken is settled once and counted
  once, a pass an error stops leaves the rest of the batch as it was, and a step that keeps
  failing is given up on.
\<close>

lemma settled_rows_trans:
  assumes "settled_rows mx s js s'" "settled_rows mx s' ks s''" "set js \<inter> set ks = {}"
  shows "settled_rows mx s (js @ ks) s''"
  unfolding settled_rows_def
proof (intro conjI allI impI)
  show "queue_wf s''" using assms(2) by (simp add: settled_rows_def)
  fix i r assume "get_row s i = Some r"
  with assms(1) obtain r' where r': "get_row s' i = Some r'" "if i \<in> set js then settled_from mx r r' else r' = r"
    unfolding settled_rows_def by blast
  with assms(2) obtain r'' where "get_row s'' i = Some r''" "if i \<in> set ks then settled_from mx r' r'' else r'' = r'"
    unfolding settled_rows_def by blast
  with r' assms(3) show "\<exists>r'. get_row s'' i = Some r' \<and> (if i \<in> set (js @ ks) then settled_from mx r r' else r' = r)"
    by (auto split: if_splits)
qed

lemma keeps_settled:
  assumes "keeps s s'" "queue_wf (ds_store s)" "settled_rows mx (ds_store s') js q"
  shows "settled_rows mx (ds_store s) js q"
  using assms by (auto simp: keeps_def settled_rows_def)

lemma keeps_rows_in: "keeps s s' \<Longrightarrow> queue_wf (ds_store s) \<Longrightarrow> rows_in (ds_store s) js \<Longrightarrow> rows_in (ds_store s') js"
  by (fastforce simp: keeps_def rows_in_def)

lemma settled_rows_in: "settled_rows mx s js s' \<Longrightarrow> rows_in s ks \<Longrightarrow> rows_in s' ks"
  by (fastforce simp: settled_rows_def rows_in_def)

lemma settled_rows_none: "keeps s s' \<Longrightarrow> queue_wf (ds_store s) \<Longrightarrow> settled_rows mx (ds_store s) [] (ds_store s')"
  by (auto simp: keeps_def settled_rows_def)

lemma rows_in_append: "rows_in s (js @ ks) \<longleftrightarrow> rows_in s js \<and> rows_in s ks \<and> set js \<inter> set ks = {}"
  by (auto simp: rows_in_def)

text \<open>
  The steps already run settled the rows \<open>js\<close>, and a pass that returns its report has run
  them all.
\<close>

definition ran :: "nat \<Rightarrow> 'w drain_state \<Rightarrow> step list \<Rightarrow> drain_report \<Rightarrow> 'w drain_state \<Rightarrow> (sync_error + drain_report) \<Rightarrow> bool" where
  "ran mx s sts report s' x \<longleftrightarrow>
     (\<exists>did. prefix did sts \<and> settled_rows mx (ds_store s) (concat (map step_rows did)) (ds_store s')
        \<and> (case x of Inl e \<Rightarrow> True
           | Inr report' \<Rightarrow> did = sts
               \<and> report_rows report' = report_rows report + length (concat (map step_rows sts))))"

lemma ran_stopped: "keeps s s' \<Longrightarrow> queue_wf (ds_store s) \<Longrightarrow> ran mx s sts report s' (Inl e)"
  using settled_rows_none [of s s'] by (auto simp: ran_def intro: exI [of _ "[]"])

lemma ran_step:
  assumes "settled_rows mx (ds_store s) (step_rows st) (ds_store s1)" "ran mx s1 sts report1 s' x"
    and "report_rows report1 = report_rows report + length (step_rows st)"
    and "rows_in (ds_store s) (step_rows st @ concat (map step_rows sts))"
  shows "ran mx s (st # sts) report s' x"
proof -
  obtain did where d: "prefix did sts" "settled_rows mx (ds_store s1) (concat (map step_rows did)) (ds_store s')"
    "case x of Inl e \<Rightarrow> True | Inr report' \<Rightarrow> did = sts
       \<and> report_rows report' = report_rows report1 + length (concat (map step_rows sts))"
    using assms(2) unfolding ran_def by blast
  have "set (step_rows st) \<inter> set (concat (map step_rows did)) = {}"
    using assms(4) set_mono_prefix [OF d(1)] by (auto simp: rows_in_append)
  from settled_rows_trans [OF assms(1) d(2) this]
  have "settled_rows mx (ds_store s) (concat (map step_rows (st # did))) (ds_store s')" by simp
  with d(1,3) assms(3) show ?thesis
    unfolding ran_def by (intro exI [of _ "st # did"]) (auto split: sum.splits)
qed

lemma drain_steps_spec:
  assumes "env_keeps E" "queue_wf (ds_store s)" "rows_in (ds_store s) (concat (map step_rows sts))"
    and "drain_steps L policy E now sts s resync report = Some (s', x)"
  shows "ran (rp_max_attempts policy) s sts report s' x"
  using assms(2-)
proof (induction sts arbitrary: s resync report)
  case Nil
  then show ?case using settled_rows_none [of s s] by (auto simp: ran_def report_rows_def)
next
  case (Cons st sts)
  obtain s1 resync1 y where run: "run_step E s st resync = Some (s1, resync1, y)"
    using Cons.prems(3) by (auto split: option.splits)
  have k: "keeps s s1" by (rule run_step_keeps [OF assms(1) run])
  have wf: "queue_wf (ds_store s1)" using k Cons.prems(1) by (simp add: keeps_def)
  show ?case
  proof (cases y)
    case (Inl e)
    then show ?thesis using Cons.prems(3) run ran_stopped [OF k Cons.prems(1)] by auto
  next
    case (Inr out)
    then obtain s2 z where se: "settle L policy E s1 st out now report = Some (s2, z)"
      using Cons.prems(3) run by (auto split: option.splits)
    have rows: "rows_in (ds_store s1) (step_rows st)"
      using keeps_rows_in [OF k Cons.prems(1)] Cons.prems(2) by (simp add: rows_in_append)
    from settle_spec [OF wf rows se] obtain report1 where z: "z = Inr report1"
        "settled_rows (rp_max_attempts policy) (ds_store s1) (step_rows st) (ds_store s2)"
        "report_rows report1 = report_rows report + length (step_rows st)" by blast
    have s2: "settled_rows (rp_max_attempts policy) (ds_store s) (step_rows st) (ds_store s2)"
      by (rule keeps_settled [OF k Cons.prems(1) z(2)])
    have "drain_steps L policy E now sts s2 resync1 report1 = Some (s', x)"
      using Cons.prems(3) run Inr se z(1) by simp
    then have "ran (rp_max_attempts policy) s2 sts report1 s' x"
      using s2 settled_rows_in [OF s2] Cons.prems(2)
      by (intro Cons.IH) (simp_all add: settled_rows_def rows_in_append)
    from ran_step [OF s2 this z(3)] Cons.prems(2) show ?thesis by simp
  qed
qed


subsection \<open>The batch and its plan\<close>

lemma step_mset_concat_rows: "step_mset sts = mset (concat (map step_rows sts))"
  by (induction sts) simp_all

lemma plan_rows_in:
  fixes s :: op_store and a :: account_id and t :: int
  assumes "queue_wf s"
  defines "p \<equiv> coalesce (pending s a t)"
  shows "rows_in s (plan_obsolete p @ concat (map step_rows (plan_steps p)))"
    "set (plan_obsolete p @ concat (map step_rows (plan_steps p))) = q_id ` set (pending s a t)"
    "length (plan_obsolete p @ concat (map step_rows (plan_steps p))) = length (pending s a t)"
proof -
  let ?rows = "plan_obsolete p @ concat (map step_rows (plan_steps p))"
  have m: "mset ?rows = mset (map q_id (pending s a t))"
    using plan_mset [of "pending s a t"] by (simp add: p_def step_mset_concat_rows add.commute)
  then have set: "set ?rows = set (map q_id (pending s a t))" by (metis set_mset_mset)
  then show "set ?rows = q_id ` set (pending s a t)" by simp
  show "length ?rows = length (pending s a t)" using m by (metis length_map size_mset)
  have "sorted_wrt (<) (map q_id (pending s a t))"
    using assms(1) by (auto simp: pending_def queue_wf_def sorted_wrt_map intro: sorted_wrt_filter)
  then have "distinct (map q_id (pending s a t))" by (simp add: strict_sorted_iff)
  then have "distinct ?rows" using m by (metis mset_eq_imp_distinct_iff)
  moreover have "get_row s i \<noteq> None" if "i \<in> set ?rows" for i
  proof -
    from that have "i \<in> q_id ` set (pending s a t)" unfolding set by simp
    then obtain r where "r \<in> set (o_queue s)" "q_id r = i" by (auto simp: pending_def)
    then show ?thesis by (auto simp: get_row_def find_None_iff)
  qed
  ultimately show "rows_in s ?rows" by (auto simp: rows_in_def)
qed

definition passed :: "nat \<Rightarrow> op_store \<Rightarrow> queued_operation list \<Rightarrow> op_store \<Rightarrow> bool \<Rightarrow> bool" where
  "passed mx s batch s' complete \<longleftrightarrow> queue_wf s'
     \<and> (\<forall>i r. get_row s i = Some r \<longrightarrow> (\<exists>r'. get_row s' i = Some r'
          \<and> (if r \<in> set batch then settled_from mx r r' \<or> (\<not> complete \<and> r' = r) else r' = r)))"

lemma settled_rows_passed:
  assumes "queue_wf s" "settled_rows mx s js s'" "set js \<subseteq> q_id ` set batch" "\<forall>r\<in>set batch. get_row s (q_id r) = Some r"
    and "complete \<Longrightarrow> set js = q_id ` set batch"
  shows "passed mx s batch s' complete"
  unfolding passed_def
proof (intro conjI allI impI)
  show "queue_wf s'" using assms(2) by (simp add: settled_rows_def)
  fix i r assume r: "get_row s i = Some r"
  then have i: "q_id r = i" using get_row_mem [OF assms(1)] by blast
  have mem: "i \<in> q_id ` set batch \<longleftrightarrow> r \<in> set batch"
  proof
    assume "i \<in> q_id ` set batch"
    then obtain q where q: "q \<in> set batch" "i = q_id q" by blast
    with assms(4) have "get_row s i = Some q" by blast
    with r q(1) show "r \<in> set batch" by simp
  qed (use i in blast)
  from assms(2) r obtain r' where r': "get_row s' i = Some r'" "if i \<in> set js then settled_from mx r r' else r' = r"
    unfolding settled_rows_def by blast
  show "\<exists>r'. get_row s' i = Some r'
      \<and> (if r \<in> set batch then settled_from mx r r' \<or> (\<not> complete \<and> r' = r) else r' = r)"
    using r' assms(3,5) mem by (intro exI [of _ r']) (auto split: if_splits)
qed

lemma pending_get_row: "queue_wf s \<Longrightarrow> \<forall>r\<in>set (pending s a t). get_row s (q_id r) = Some r"
  using get_row_mem by (fastforce simp: pending_def)

lemma drain_ran:
  fixes s :: "'w drain_state" and a :: account_id and now :: int
  assumes "queue_wf (ds_store s)" "env_keeps E" "drain L policy E s a now = Some (s', x)"
  defines "batch \<equiv> pending (ds_store s) a (to_millis now)"
  assumes "batch \<noteq> []"
  shows "\<exists>ls. settled_rows (rp_max_attempts policy) (ds_store s) ls (ds_store s') \<and> set ls \<subseteq> q_id ` set batch
     \<and> (\<forall>report. x = Inr report \<longrightarrow> set ls = q_id ` set batch \<and> report_rows report = length batch)"
proof -
  let ?mx = "rp_max_attempts policy"
  let ?p = "coalesce batch"
  let ?js = "plan_obsolete ?p" and ?ks = "concat (map step_rows (plan_steps ?p))"
  let ?s = "s\<lparr>ds_world := de_fail_orphaned_sends E (ds_world s) a\<rparr>"
  have eq: "pending (ds_store ?s) a (to_millis now) = batch" by (simp add: batch_def)
  note rows = plan_rows_in [OF assms(1), of a "to_millis now", folded batch_def]
  have "rows_in (ds_store s) ?js" using rows(1) by (simp add: rows_in_append)
  then obtain q where q: "each (\<lambda>q i. mark_done_noted q i (to_millis now) ''folded into an operation that undid it'')
      (ds_store s) ?js = Inr q" "settled_rows ?mx (ds_store s) ?js q"
    using each_mark_done_noted [OF assms(1)] by blast
  let ?t = "?s\<lparr>ds_store := q\<rparr>"
  let ?r = "report_default\<lparr>dr_coalesced := length ?js\<rparr>"
  show ?thesis
  proof (cases "de_capabilities E (ds_world ?t)")
    case (Inl e)
    then have "s' = ?t" "x = Inl (BackendError e)"
      using assms(3,5) q(1) unfolding drain_def Let_def eq by auto
    then show ?thesis using q(2) rows(2) by (intro exI [of _ ?js]) auto
  next
    case (Inr c)
    then have run: "drain_steps L policy E now (plan_steps ?p) ?t [] ?r = Some (s', x)"
      using assms(3,5) q(1) unfolding drain_def Let_def eq by simp
    have "rows_in (ds_store ?t) ?ks" using settled_rows_in [OF q(2)] rows(1) by (simp add: rows_in_append)
    then have "ran ?mx ?t (plan_steps ?p) ?r s' x"
      using q(2) by (intro drain_steps_spec [OF assms(2) _ _ run]) (simp_all add: settled_rows_def)
    then obtain did where d: "prefix did (plan_steps ?p)"
        "settled_rows ?mx q (concat (map step_rows did)) (ds_store s')"
        "case x of Inl e \<Rightarrow> True | Inr report' \<Rightarrow> did = plan_steps ?p
           \<and> report_rows report' = report_rows ?r + length ?ks"
      unfolding ran_def by auto
    have sub: "set (concat (map step_rows did)) \<subseteq> set ?ks" using set_mono_prefix [OF d(1)] by auto
    with rows(1) have "set ?js \<inter> set (concat (map step_rows did)) = {}" by (auto simp: rows_in_append)
    from settled_rows_trans [OF q(2) d(2) this]
    have all: "settled_rows ?mx (ds_store s) (?js @ concat (map step_rows did)) (ds_store s')" .
    have "report_rows ?r = length ?js" by (simp add: report_rows_def report_default_def)
    then have "x = Inr report \<longrightarrow> set (?js @ concat (map step_rows did)) = q_id ` set batch
        \<and> report_rows report = length batch" for report
      using d(3) rows(3) unfolding rows(2) [symmetric] by auto
    moreover have "set (?js @ concat (map step_rows did)) \<subseteq> q_id ` set batch"
      using sub unfolding rows(2) [symmetric] by auto
    ultimately show ?thesis using all by blast
  qed
qed

text \<open>
  C6: A pass touches no row but those it took, and settles them as it goes.  When it returns
  its report every row of the batch is done, failed with one more attempt, or pending again
  with one more attempt, still fewer than the policy allows, and a time, and the report counts each exactly once; when an error
  stops it the rows it had not reached are as they were, to be taken by the next pass.
\<close>

theorem drain_settles_every_row:
  fixes s :: "'w drain_state"
  assumes "queue_wf (ds_store s)" "env_keeps E" "drain L policy E s a now = Some (s', x)"
  defines "batch \<equiv> pending (ds_store s) a (to_millis now)"
  shows "passed (rp_max_attempts policy) (ds_store s) batch (ds_store s') (\<not> isl x)
     \<and> (\<forall>report. x = Inr report \<longrightarrow> report_rows report = length batch)"
proof (cases "batch = []")
  case True
  then show ?thesis
    using assms(1,3) by (auto simp: drain_def Let_def batch_def passed_def report_rows_def report_default_def)
next
  case False
  obtain ls where ls: "settled_rows (rp_max_attempts policy) (ds_store s) ls (ds_store s')" "set ls \<subseteq> q_id ` set batch"
      "\<And>report. x = Inr report \<Longrightarrow> set ls = q_id ` set batch \<and> report_rows report = length batch"
    using drain_ran [OF assms(1-3) False [unfolded batch_def]] unfolding batch_def by blast
  have "\<not> isl x \<Longrightarrow> set ls = q_id ` set batch" using ls(3) by (cases x) auto
  from settled_rows_passed [OF assms(1) ls(1,2) _ this] pending_get_row [OF assms(1)]
  have "passed (rp_max_attempts policy) (ds_store s) batch (ds_store s') (\<not> isl x)" by (simp add: batch_def)
  then show ?thesis using ls(3) by blast
qed


subsection \<open>A server to run a pass against\<close>

text \<open>
  A server holding one message: the mailbox it is in and its id there.  A move from where it
  is takes it and answers with the new id; from anywhere else, or by another id, it finds
  nothing.
\<close>

record demo_world =
  dw_path :: string
  dw_id :: remote_id
  dw_flag_writes :: nat

definition demo_paths :: "mailbox_id \<Rightarrow> string option" where
  "demo_paths m = (if m = 1 then Some ''INBOX'' else if m = 2 then Some ''Archive'' else None)"

definition demo_env :: "(demo_world, unit) drain_env" where
  "demo_env = \<lparr>
     de_msg = (\<lambda>_. ''refused''),
     de_capabilities = (\<lambda>_. Inr caps_new),
     de_store_flags = (\<lambda>w path ids change.
       if dw_path w = path \<and> ids = [dw_id w] then (w\<lparr>dw_flag_writes := dw_flag_writes w + 1\<rparr>, Inr 1) else (w, Inr 0)),
     de_move_messages = (\<lambda>w path ids dest.
       if dw_path w = path \<and> ids = [dw_id w]
       then (w\<lparr>dw_path := dest, dw_id := ''moved''\<rparr>,
             Inr [\<lparr>um_source = 1, um_destination = 5, um_uid_validity = 7, um_destination_remote_id = ''moved''\<rparr>])
       else (w, Inr [])),
     de_expunge = (\<lambda>w _ _. (w, Inr ())),
     de_mailbox_path = (\<lambda>_. demo_paths),
     de_has_blobs = False,
     de_fetch_missing = (\<lambda>s _. (s, Inr CarriedReady)),
     de_resolve_send = (\<lambda>_ _. Inr (JobReady ())),
     de_resolve_save = (\<lambda>_ _ _. Inr (JobReady ())),
     de_resolve_discard = (\<lambda>_ _ _. Inr (JobReady ())),
     de_send = (\<lambda>s _. (s, [], Uncertain ''the server did not answer'')),
     de_run_draft = (\<lambda>s _. (s, [], Applied)),
     de_copy = (\<lambda>s _. (s, Applied)),
     de_remove = (\<lambda>s _ _. (s, Applied)),
     de_mark_draft_failed = (\<lambda>w _. w),
     de_fail_orphaned_sends = (\<lambda>w _. w)\<rparr>"

lemma demo_env_keeps: "env_keeps demo_env"
  by (simp add: env_keeps_def demo_env_def)

definition demo_state :: "queued_operation list \<Rightarrow> mailbox_id \<Rightarrow> remote_id option \<Rightarrow> demo_world drain_state" where
  "demo_state rows m rid = \<lparr>
     ds_store = \<lparr>o_queue = rows, o_next = 10,
       o_messages = [\<lparr>m_id = 9, m_mailbox = m, m_thread = None, m_uid = None, m_remote = rid, m_has_pending = True\<rparr>]\<rparr>,
     ds_world = \<lparr>dw_path = ''INBOX'', dw_id = ''7:3'', dw_flag_writes = 0\<rparr>\<rparr>"

text \<open>An archive (mailbox 1 to 2) whose row remembers the id the message had in mailbox 1.\<close>

definition demo_archive :: queued_operation where
  "demo_archive = (demo_row 1 (Message 9) (Move 1 2))\<lparr>q_source_remote := Some ''7:3''\<rparr>"

lemmas demo_defs = demo_env_def demo_state_def demo_archive_def demo_row_def demo_paths_def

lemmas drain_run_simps =
  pending_def is_due_def to_millis_def coalesce_def folds_of_def fold_new_def fold_push_def row_step_def
  step_head_def run_step_def carry_def resolve_def resolve_draft_def resolve_mailbox_def get_message_def
  head_snapshot_def get_row_def send_step_def send_call_def move_and_adopt_def store_flags_def
  vanished_if_untouched_def resync_insert_def settle_def mark_done_def mark_done_noted_def set_state_def
  note_row_def row_exists_def update_rows_def refresh_pending_flag_def on_target_iff unsettled_def
  report_default_def adopt_moved_identity_def Let_def

lemma demo_archive_pass:
  "\<exists>s'. drain chrono_0_4 retry_default demo_env (demo_state [demo_archive] 2 None) 1 0
     = Some (s', Inr (report_default\<lparr>dr_applied := 1, dr_needs_resync := [2]\<rparr>))
     \<and> dw_path (ds_world s') = ''Archive''"
  by (simp add: drain_def demo_defs drain_run_simps)

end
