(* ===== verification/Drain_Outcomes.thy ===== *)
theory Drain_Outcomes
  imports Drain_Passes
begin

section \<open>Draining the queue: outcomes\<close>

text \<open>
  What one step comes to: where it looks for the message, what the server's answer means,
  when it is given up on; and two places where a pass does not do what the code says.
\<close>

lemma demo_state_wf:
  "queue_wf (ds_store (demo_state [demo_archive] m rid))"
  by (simp add: demo_defs queue_wf_def)

theorem drain_settles_every_row_witness:
  "\<exists>s' x. drain chrono_0_4 retry_default demo_env (demo_state [demo_archive] 2 None) 1 0 = Some (s', x)
     \<and> (\<forall>report. x = Inr report \<longrightarrow> report_rows report = 1)"
proof -
  obtain s' where d: "drain chrono_0_4 retry_default demo_env (demo_state [demo_archive] 2 None) 1 0
     = Some (s', Inr (report_default\<lparr>dr_applied := 1, dr_needs_resync := [2]\<rparr>))"
    using demo_archive_pass by blast
  have "length (pending (ds_store (demo_state [demo_archive] 2 None)) 1 (to_millis 0)) = 1"
    by (simp add: demo_defs pending_def is_due_def)
  with drain_settles_every_row [OF demo_state_wf demo_env_keeps d] d show ?thesis by metis
qed


subsection \<open>Giving up\<close>

lemma each_keeps:
  assumes "\<And>q k q'. f q k = Inr q' \<Longrightarrow> P q' = P q" "each f q js = Inr q'"
  shows "P q' = P q"
  using assms(2)
proof (induction js arbitrary: q)
  case (Cons k js)
  then obtain u where "f q k = Inr u" "each f u js = Inr q'" by (auto split: sum.splits)
  then show ?case using Cons.IH assms(1) by metis
qed simp

lemma writes_keep_order:
  "mark_failed q k t e = Inr q' \<Longrightarrow> map q_id (o_queue q') = map q_id (o_queue q)"
  "defer_row q k t e = Inr q' \<Longrightarrow> map q_id (o_queue q') = map q_id (o_queue q)"
  by (auto simp: mark_failed_def set_state_def defer_row_def split: option.splits if_splits)

text \<open>The attempts a step has behind it: the most any of its rows has.\<close>

lemma row_attempts_is_Max:
  assumes "rows_in q (step_rows st)" "step_rows st \<noteq> []"
  shows "row_attempts q st = Max {q_attempts r |r. \<exists>j\<in>set (step_rows st). get_row q j = Some r}"
proof -
  let ?A = "{q_attempts r |r. \<exists>j\<in>set (step_rows st). get_row q j = Some r}"
  have A: "?A = (\<lambda>j. q_attempts (the (get_row q j))) ` set (step_rows st)"
    using assms(1) by (force simp: rows_in_def image_def)
  have got: "b \<in> insert a {q_attempts r |r. \<exists>j\<in>set js. get_row q j = Some r}"
    if "b = foldl (\<lambda>a j. case get_row q j of Some r \<Rightarrow> max a (q_attempts r) | None \<Rightarrow> a) a js" for a b js
    using that
  proof (induction js arbitrary: a)
    case (Cons j js)
    show ?case
    proof (cases "get_row q j")
      case None
      with Cons show ?thesis by fastforce
    next
      case (Some r)
      with Cons.IH [of "max a (q_attempts r)"] Cons.prems show ?thesis by (force simp: max_def split: if_splits)
    qed
  qed simp
  have ge: "a \<le> row_attempts q st" if "a \<in> ?A" for a
    using that row_attempts_ge by blast
  obtain a where "a \<in> ?A" using assms(2) unfolding A by (cases "step_rows st") auto
  with got [of "row_attempts q st" 0 "step_rows st"] ge [of a] have "row_attempts q st \<in> ?A"
    by (auto simp: row_attempts_def)
  with ge show ?thesis unfolding A by (intro Max_eqI [symmetric]) auto
qed

text \<open>
  C18: A step that cannot be sent yet is put back: each of its rows is pending again with one
  attempt more than it had, the reason, and the instant to try at, which is the later of the
  server's own wait and the backoff (the base doubled, or whatever the factor is, once for
  each attempt before, at most the ceiling).  A row so put back has still fewer attempts than
  the policy allows.  On the attempt that reaches the limit every row of the step fails for
  good with the reason and the count, and the report names the rows once.  Either way the
  rows keep their places in the queue and no other row changes: a row is retried fewer times
  than the policy allows, and never for ever.
\<close>

theorem drain_gives_up:
  assumes "queue_wf (ds_store s)" "rows_in (ds_store s) (step_rows st)"
    and "settle L policy E s st (Retry reason after) now report = Some (s', Inr report')"
    and "chrono_ok L" "in_range L now" "retry_ok policy"
    and "i \<in> set (step_rows st)" "get_row (ds_store s) i = Some r"
  defines "before \<equiv> Max {q_attempts q |q. \<exists>j\<in>set (step_rows st). get_row (ds_store s) j = Some q}"
  defines "at \<equiv> now + int (max (case after of Some d \<Rightarrow> d | None \<Rightarrow> 0)
      (min (rp_base policy * min (rp_factor policy ^ before) u32_max) (rp_ceiling policy)))"
  shows "(if rp_max_attempts policy \<le> before + 1
     then (\<exists>why. why = reason @ '' (gave up after '' @ dec (before + 1) @ '' attempts)''
        \<and> get_row (ds_store s') i = Some (r\<lparr>q_state := Failed, q_attempts := q_attempts r + 1,
             q_last_error := Some why, q_updated := to_millis now\<rparr>)
        \<and> dr_failed report' = dr_failed report @ [\<lparr>fo_rows = step_rows st, fo_target = step_target st,
             fo_op_type = op_type (step_operation st), fo_reason = why\<rparr>]
        \<and> dr_deferred report' = dr_deferred report)
     else get_row (ds_store s') i = Some (r\<lparr>q_state := Pending, q_attempts := q_attempts r + 1,
             q_last_error := Some reason, q_next_attempt := Some (to_millis at), q_updated := to_millis at\<rparr>)
        \<and> q_attempts r + 1 < rp_max_attempts policy
        \<and> dr_failed report' = dr_failed report \<and> dr_deferred report' = dr_deferred report + length (step_rows st))
     \<and> map q_id (o_queue (ds_store s')) = map q_id (o_queue (ds_store s))
     \<and> (\<forall>j. j \<notin> set (step_rows st) \<longrightarrow> get_row (ds_store s') j = get_row (ds_store s) j)"
proof -
  have rows: "distinct (step_rows st)" "\<And>i. i \<in> set (step_rows st) \<Longrightarrow> get_row (ds_store s) i \<noteq> None"
    using assms(2) by (auto simp: rows_in_def)
  have n: "row_attempts (ds_store s) st = before"
    unfolding before_def using assms(7) by (intro row_attempts_is_Max [OF assms(2)]) auto
  let ?why = "reason @ '' (gave up after '' @ dec (before + 1) @ '' attempts)''"
  show ?thesis
  proof (cases "rp_max_attempts policy \<le> before + 1")
    case True
    obtain t where t: "each (\<lambda>q i. mark_failed q i (to_millis now) ?why) (ds_store s) (step_rows st) = Inr t"
      "get_row t = (\<lambda>j. if j \<in> set (step_rows st)
         then map_option (failed_row (to_millis now) ?why) (get_row (ds_store s) j) else get_row (ds_store s) j)"
      using mark_failed.each_ok [OF assms(1) rows, of "to_millis now" ?why] by blast
    have "fail_step E s st ?why now report = (s', Inr report')"
      using assms(3) True by (simp add: settle_def Let_def retry_is_exhausted_def n)
    then have s': "ds_store s' = t" "report' = report\<lparr>dr_failed := dr_failed report @ [failed_op st ?why]\<rparr>"
      using t(1) by (auto simp: fail_step_def Let_def)
    have "map q_id (o_queue t) = map q_id (o_queue (ds_store s))"
      by (rule each_keeps [OF _ t(1)]) (rule writes_keep_order(1))
    with s' t(2) assms(7,8) True show ?thesis by (simp add: failed_row_def failed_op_def)
  next
    case False
    have "settle L policy E s st (Retry reason after) now report \<noteq> None" using assms(3) by simp
    then have at: "next_attempt_at L policy now (before + 1) after = Some at"
      using False next_attempt_honours_both [OF assms(4,5), of policy "before + 1" after]
      by (auto simp: settle_def Let_def retry_is_exhausted_def n at_def retry.wait_law [OF assms(6)] split: if_splits option.splits)
    obtain t where t: "each (\<lambda>q i. defer_row q i (to_millis at) reason) (ds_store s) (step_rows st) = Inr t"
      "get_row t = (\<lambda>j. if j \<in> set (step_rows st)
         then map_option (deferred_row (to_millis at) reason) (get_row (ds_store s) j) else get_row (ds_store s) j)"
      using defer_row.each_ok [OF assms(1) rows, of "to_millis at" reason] by blast
    have s': "s' = s\<lparr>ds_store := t\<rparr>" "report' = report\<lparr>dr_deferred := dr_deferred report + length (step_rows st)\<rparr>"
      using assms(3) False at t(1) by (auto simp: settle_def Let_def retry_is_exhausted_def n)
    have "map q_id (o_queue t) = map q_id (o_queue (ds_store s))"
      by (rule each_keeps [OF _ t(1)]) (rule writes_keep_order(2))
    moreover have "q_attempts r + 1 < rp_max_attempts policy"
      using False row_attempts_ge [OF assms(7,8)] n by simp
    ultimately show ?thesis using s' t(2) assms(7,8) False by (simp add: deferred_row_def)
  qed
qed

theorem drain_gives_up_witness:
  "(\<exists>s' report' r. settle chrono_0_4 (retry_default\<lparr>rp_max_attempts := 1\<rparr>) demo_env
       (demo_state [demo_archive] 2 None) (row_step demo_archive) (Retry ''offline'' None) 0 report_default
     = Some (s', Inr report') \<and> get_row (ds_store s') 1 = Some r \<and> q_state r = Failed \<and> q_attempts r = 1)
   \<and> (\<exists>s' report' r. settle chrono_0_4 retry_default demo_env
       (demo_state [demo_archive] 2 None) (row_step demo_archive) (Retry ''offline'' None) 0 report_default
     = Some (s', Inr report') \<and> get_row (ds_store s') 1 = Some r \<and> q_state r = Pending
     \<and> q_next_attempt r = Some 2000 \<and> q_attempts r = 1)"
proof -
  let ?s = "demo_state [demo_archive] 2 None" and ?st = "row_step demo_archive"
  let ?p = "retry_default\<lparr>rp_max_attempts := 1\<rparr>"
  have rows: "rows_in (ds_store ?s) (step_rows ?st)" "1 \<in> set (step_rows ?st)"
    by (simp_all add: rows_in_def demo_defs row_step_def get_row_def)
  have r: "get_row (ds_store ?s) 1 = Some demo_archive" "q_attempts demo_archive = 0"
    by (simp_all add: demo_defs get_row_def)
  have b: "Max {q_attempts q |q. \<exists>j\<in>set (step_rows ?st). get_row (ds_store ?s) j = Some q} = 0"
    using row_attempts_is_Max [OF rows(1)] rows(2)
    by (simp add: row_step_def demo_defs row_attempts_def get_row_def)
  have z: "in_range chrono_0_4 0" by (simp add: in_range_def chrono_0_4_def)
  have ok: "retry_ok ?p" "retry_ok retry_default" using retry_default_ok by (simp_all add: retry_ok_def)
  obtain s' report' where e: "settle chrono_0_4 ?p demo_env ?s ?st (Retry ''offline'' None) 0 report_default = Some (s', Inr report')"
    using fail_step_spec [OF demo_state_wf rows(1), of demo_env "''offline'' @ '' (gave up after '' @ dec (row_attempts (ds_store ?s) ?st + 1) @ '' attempts)''" 0 report_default]
    by (fastforce simp: settle_def Let_def retry_is_exhausted_def)
  have w: "retry_backoff retry_default 1 = 2000000000"
    by (simp add: retry.wait_first [OF ok(2)]) (simp add: retry_default_def secs_def nanos_per_sec_def)
  have c: "next_attempt_at chrono_0_4 retry_default 0 1 None = Some 2000000000"
    using next_attempt_honours_both [OF chrono_0_4_ok z, of retry_default 1 None] unfolding w
    by (simp add: Let_def chrono_0_4_def)
  have k: "row_attempts (ds_store ?s) ?st + 1 = 1" "\<not> retry_is_exhausted retry_default 1"
    by (simp_all add: row_attempts_def row_step_def demo_defs get_row_def retry_is_exhausted_def retry_default_def)
  have "distinct (step_rows ?st)" "\<And>i. i \<in> set (step_rows ?st) \<Longrightarrow> get_row (ds_store ?s) i \<noteq> None"
    using rows(1) by (auto simp: rows_in_def)
  from defer_row.each_ok [OF demo_state_wf this, of "to_millis 2000000000" "''offline''"]
  obtain q where q: "each (\<lambda>q i. defer_row q i (to_millis 2000000000) ''offline'') (ds_store ?s) (step_rows ?st) = Inr q"
    by blast
  obtain t report'' where f: "settle chrono_0_4 retry_default demo_env ?s ?st (Retry ''offline'' None) 0 report_default = Some (t, Inr report'')"
    unfolding settle_def Let_def k(1) outcome.case using k(2) c q by simp
  from drain_gives_up [OF demo_state_wf rows(1) e chrono_0_4_ok z ok(1) rows(2) r(1), unfolded b] e r(2)
    drain_gives_up [OF demo_state_wf rows(1) f chrono_0_4_ok z ok(2) rows(2) r(1), unfolded b] f
  show ?thesis
    by (simp add: retry_default_def secs_def nanos_per_sec_def u32_max_def to_millis_def)
qed


subsection \<open>What the server's answer means\<close>

definition on_server :: "operation \<Rightarrow> bool" where
  "on_server op \<longleftrightarrow> (case op of SetFlags _ \<Rightarrow> True | ClearFlags _ \<Rightarrow> True | Move _ _ \<Rightarrow> True
     | Delete _ _ \<Rightarrow> True | Purge _ \<Rightarrow> True | Expunge _ \<Rightarrow> True | _ \<Rightarrow> False)"

lemma in_resync_insert [simp]: "x \<in> set (resync_insert m rs) \<longleftrightarrow> x = m \<or> x \<in> set rs"
  using keys_bt_insert [of id m rs] by (auto simp: resync_insert_def)

text \<open>
  What the server says to what a step asks of it: an error, or whether it touched nothing.  A
  purge marks and then expunges, so it asks twice.
\<close>

fun server_says :: "('w, 'j) drain_env \<Rightarrow> 'w \<Rightarrow> 'j drain_context \<Rightarrow> operation \<Rightarrow> backend_error + bool" where
  "server_says E w cx (SetFlags fs) =
     map_sum id (\<lambda>n. n = 0) (snd (de_store_flags E w (cx_path cx) (cx_ids cx) (AddFlags fs)))"
| "server_says E w cx (ClearFlags fs) =
     map_sum id (\<lambda>n. n = 0) (snd (de_store_flags E w (cx_path cx) (cx_ids cx) (RemoveFlags fs)))"
| "server_says E w cx (Move _ _) =
     map_sum id (\<lambda>_. False) (snd (de_move_messages E w (cx_path cx) (cx_ids cx) (the (cx_destination cx))))"
| "server_says E w cx (Delete _ _) =
     map_sum id (\<lambda>_. False) (snd (de_move_messages E w (cx_path cx) (cx_ids cx) (the (cx_destination cx))))"
| "server_says E w cx (Expunge _) = map_sum id (\<lambda>_. False) (snd (de_expunge E w (cx_path cx) None))"
| "server_says E w cx (Purge _) =
     (case de_store_flags E w (cx_path cx) (cx_ids cx) (AddFlags (fs_from_iter [Deleted])) of
        (_, Inl e) \<Rightarrow> Inl e
      | (w', Inr _) \<Rightarrow> map_sum id (\<lambda>_. False) (snd (de_expunge E w' (cx_path cx) (Some (cx_ids cx)))))"
| "server_says E w cx _ = Inr False"

lemma send_call_says:
  assumes "on_server (cx_operation cx)" "send_call E s cx resync = Some (s', resync', r)"
  shows "case server_says E (ds_world s) cx (cx_operation cx) of
      Inl e \<Rightarrow> r = Inl (Inl e) \<and> resync' = resync
    | Inr True \<Rightarrow> (\<exists>why. r = Inl (Inr (Obsolete why))) \<and> resync' = resync
    | Inr False \<Rightarrow> r = Inl (Inr Applied) \<and> set resync' = set_option (landed_in (cx_operation cx)) \<union> set resync"
  using assms
  by (cases "cx_operation cx")
    (auto simp: send_call_def on_server_def store_flags_def move_and_adopt_def vanished_if_untouched_def Let_def map_sum_def
      split: prod.splits sum.splits option.splits if_splits bool.splits list.splits)

text \<open>The errors time can cure, and those that say the ids are stale.\<close>

definition passing_errors :: "backend_error set" where
  "passing_errors = range NotConnected \<union> {Disconnected h r |h r. True} \<union> {TimedOut w n |w n. True}
     \<union> {RateLimited d r |d r. True} \<union> {Io c r |c r. True}"

definition stale_errors :: "backend_error set" where
  "stale_errors = {UidValidityChanged p a b |p a b. True} \<union> {ResyncIntegrityLost p n |p n. True}"

lemma error_sets:
  "is_transient_error e \<longleftrightarrow> e \<in> passing_errors" "requires_full_resync e \<longleftrightarrow> e \<in> stale_errors"
  by (cases e; auto simp: error_predicates passing_errors_def stale_errors_def)+

text \<open>
  C17: What becomes of a change to flags, of a move, a deletion, an expunge or a purge the
  server was asked for.  A lost or missing connection, a timeout, a rate limit and other I/O
  are retried, after the wait the server named if it named one; every other error fails the
  step, and one that says the ids are stale also has the mailbox fetched afresh.  A flag
  change, setting or clearing, that touched no message counts as overtaken by the server, not
  as applied, and its mailbox is fetched afresh.  Anything else is applied, and after a move
  or a deletion the destination is synced, where the new copy is.  No other mailbox is added
  to those to fetch, and none is taken off.
\<close>

theorem drain_reads_the_answer:
  assumes "on_server (cx_operation cx)" "send_step E s cx resync = Some (s', resync', out)"
  shows "case server_says E (ds_world s) cx (cx_operation cx) of
      Inl e \<Rightarrow>
        out = (if e \<in> passing_errors then Retry (de_msg E e) (case e of RateLimited wait _ \<Rightarrow> wait | _ \<Rightarrow> None)
               else FailedOutcome (de_msg E e))
        \<and> set resync' = set resync \<union> (if e \<in> stale_errors then {cx_mailbox cx} else {})
    | Inr untouched \<Rightarrow>
        if untouched then (\<exists>why. out = Obsolete why) \<and> set resync' = set resync \<union> {cx_mailbox cx}
        else out = Applied
          \<and> set resync' = set resync \<union> {to. \<exists>from. cx_operation cx \<in> {Move from to, Delete from to}}"
proof -
  obtain t rs r where c: "send_call E s cx resync = Some (t, rs, r)"
    using assms(2) by (auto simp: send_step_def split: option.splits)
  note says = send_call_says [OF assms(1) c]
  have out: "out = (case r of Inr out \<Rightarrow> out | Inl (Inr out) \<Rightarrow> out | Inl (Inl e) \<Rightarrow> outcome_from_error (de_msg E) e)"
    "set resync' = set rs \<union> (case r of Inl (Inl e) \<Rightarrow> if requires_full_resync e then {cx_mailbox cx} else {}
       | Inl (Inr (Obsolete _)) \<Rightarrow> {cx_mailbox cx} | _ \<Rightarrow> {})"
    using assms(2) c by (auto simp: send_step_def split: sum.splits outcome.splits if_splits)
  have landed: "set_option (landed_in op) = {to. \<exists>from. op \<in> {Move from to, Delete from to}}" for op
    by (cases op) auto
  show ?thesis
  proof (cases "server_says E (ds_world s) cx (cx_operation cx)")
    case (Inl e)
    with says have r: "r = Inl (Inl e)" "rs = resync" by simp_all
    have "outcome_from_error (de_msg E) e
        = (if e \<in> passing_errors then Retry (de_msg E e) (case e of RateLimited wait _ \<Rightarrow> wait | _ \<Rightarrow> None)
           else FailedOutcome (de_msg E e))"
      using full_resync_stable [of e] by (auto simp: outcome_from_error_def error_sets retry_after_def)
    with Inl r out show ?thesis by (simp add: error_sets)
  next
    case (Inr b)
    show ?thesis
    proof (cases b)
      case True
      with says Inr obtain why where "r = Inl (Inr (Obsolete why))" "rs = resync" by auto
      with Inr True out show ?thesis by simp
    next
      case False
      with says Inr have "r = Inl (Inr Applied)" "set rs = set_option (landed_in (cx_operation cx)) \<union> set resync" by auto
      with Inr False out show ?thesis by (auto simp: landed)
    qed
  qed
qed

definition demo_context :: "operation \<Rightarrow> remote_id list \<Rightarrow> unit drain_context" where
  "demo_context op ids = \<lparr>cx_operation = op, cx_path = ''INBOX'', cx_destination = Some ''Archive'', cx_ids = ids,
     cx_mailbox = 1, cx_message = Some 9, cx_job = None\<rparr>"

theorem drain_reads_the_answer_witness:
  "\<exists>s' resync' why. send_step demo_env (demo_state [] 1 None) (demo_context (ClearFlags [Seen]) [''7:4'']) []
     = Some (s', resync', Obsolete why) \<and> set resync' = {1}"
proof -
  let ?s = "demo_state [] 1 None" and ?cx = "demo_context (ClearFlags [Seen]) [''7:4'']"
  have says: "server_says demo_env (ds_world ?s) ?cx (cx_operation ?cx) = Inr True"
    by (simp add: demo_defs demo_context_def)
  obtain s' resync' out where e: "send_step demo_env ?s ?cx [] = Some (s', resync', out)"
    by (simp add: send_step_def send_call_def demo_context_def store_flags_def Let_def demo_defs)
  have "on_server (cx_operation ?cx)" by (simp add: on_server_def demo_context_def)
  from drain_reads_the_answer [OF this e] e show ?thesis unfolding says by (auto simp: demo_context_def)
qed


subsection \<open>Where a step looks for the message\<close>

text \<open>A later row that will take the message away: an unsettled move or deletion that knows its source.\<close>

definition takes_away_later :: "op_store \<Rightarrow> message_id \<Rightarrow> operation_id \<Rightarrow> queued_operation \<Rightarrow> bool" where
  "takes_away_later q i after r \<longleftrightarrow> r \<in> set (o_queue q) \<and> q_target r = Message i \<and> after < q_id r
     \<and> (\<exists>from to. q_operation r \<in> {Move from to, Delete from to}) \<and> q_state r \<in> {Pending, InFlight}
     \<and> q_mailbox r \<noteq> None \<and> q_source_remote r \<noteq> None"

lemma leaving_after_first:
  assumes "queue_wf q"
  shows "case leaving_after q i after of
      None \<Rightarrow> \<forall>r. \<not> takes_away_later q i after r
    | Some (box, rid) \<Rightarrow> \<exists>r. takes_away_later q i after r \<and> q_mailbox r = Some box \<and> q_source_remote r = Some rid
        \<and> (\<forall>r'. takes_away_later q i after r' \<longrightarrow> q_id r \<le> q_id r')"
proof -
  define P where "P = (\<lambda>r. on_target (Message i) r \<and> after < q_id r
             \<and> (op_type (q_operation r) = ''move'' \<or> op_type (q_operation r) = ''delete'')
             \<and> unsettled r \<and> q_mailbox r \<noteq> None \<and> q_source_remote r \<noteq> None)"
  have ty: "op_type op = ''move'' \<or> op_type op = ''delete'' \<longleftrightarrow> (\<exists>from to. op \<in> {Move from to, Delete from to})" for op
    by (cases op) auto
  have P: "takes_away_later q i after r \<longleftrightarrow> r \<in> set (o_queue q) \<and> P r" for r
    unfolding takes_away_later_def P_def ty by (auto simp: on_target_iff unsettled_def)
  have la: "leaving_after q i after = (case find P (o_queue q) of
      Some r \<Rightarrow> Some (the (q_mailbox r), the (q_source_remote r)) | None \<Rightarrow> None)"
    by (simp add: leaving_after_def P_def)
  show ?thesis
  proof (cases "find P (o_queue q)")
    case None
    then have "\<forall>r. \<not> takes_away_later q i after r" by (simp add: P find_None_iff)
    then show ?thesis using None by (simp add: la)
  next
    case (Some r)
    then obtain k where k: "k < length (o_queue q)" "P r" "r = o_queue q ! k" "\<forall>j<k. \<not> P (o_queue q ! j)"
      by (auto simp: find_Some_iff)
    have "q_id r \<le> q_id r'" if r': "takes_away_later q i after r'" for r'
    proof -
      obtain l where l: "l < length (o_queue q)" "r' = o_queue q ! l" using r' by (auto simp: P in_set_conv_nth)
      with r' k(4) have "k \<le> l" by (meson P not_le)
      with assms l k(3) show ?thesis
        by (cases "k = l") (auto simp: queue_wf_def sorted_wrt_map sorted_wrt_iff_nth_less less_imp_le)
    qed
    moreover have "takes_away_later q i after r" using k by (auto simp: P)
    moreover have "q_mailbox r \<noteq> None" "q_source_remote r \<noteq> None" using k(2) by (simp_all add: P_def)
    ultimately show ?thesis using Some by (auto simp: la)
  qed
qed

text \<open>
  The step goes to one message, its id in a mailbox of the server, with a destination or
  without; or it cannot go anywhere, when a mailbox it names is no longer in the store.
\<close>

definition goes_to :: "('w, 'j) drain_env \<Rightarrow> 'w drain_state \<Rightarrow> step \<Rightarrow> mailbox_id \<Rightarrow> remote_id \<Rightarrow> mailbox_id option \<Rightarrow> bool" where
  "goes_to E s st box rid dest \<longleftrightarrow>
     (if de_mailbox_path E (ds_world s) box = None \<or> (\<exists>d. dest = Some d \<and> de_mailbox_path E (ds_world s) d = None)
      then \<exists>why. resolve E s st = Inr (Impossible why)
      else \<exists>cx. resolve E s st = Inr (Ready cx) \<and> cx_operation cx = step_operation st
        \<and> Some (cx_path cx) = de_mailbox_path E (ds_world s) box \<and> cx_mailbox cx = box \<and> cx_ids cx = [rid]
        \<and> cx_destination cx = Option.bind dest (de_mailbox_path E (ds_world s)))"

text \<open>
  C16: A step acts on the message where the server still has it.  A move or a deletion goes to
  the mailbox it left, under the id the message had there when the row was queued, or else
  the id the local copy has now, and to its destination's path.  A flag change goes to the
  local copy's mailbox and id; when the local copy has no id, to where the first later
  unsettled move or deletion of the message, by its place in the queue, took it from.  With
  no id to be had either way there is nothing on the server to change, and the step is over;
  and a step that names a mailbox the store no longer has fails.
\<close>

theorem drain_finds_the_server_copy:
  assumes "queue_wf (ds_store s)" "step_target st = Message i" "get_message (ds_store s) i = Some m"
    and "r \<in> set (o_queue (ds_store s))" "q_id r = step_head st"
  shows "(\<forall>src dst. step_operation st \<in> {Move src dst, Delete src dst} \<longrightarrow>
       (case (q_source_remote r, m_remote m) of
          (Some rid, _) \<Rightarrow> goes_to E s st src rid (Some dst)
        | (None, Some rid) \<Rightarrow> goes_to E s st src rid (Some dst)
        | (None, None) \<Rightarrow> \<exists>why. resolve E s st = Inr (ResObsolete why None)))
     \<and> (\<forall>fs. step_operation st \<in> {SetFlags fs, ClearFlags fs} \<longrightarrow>
       (case m_remote m of
          Some rid \<Rightarrow> goes_to E s st (m_mailbox m) rid None
        | None \<Rightarrow>
            (\<forall>r'. takes_away_later (ds_store s) i (step_head st) r'
                \<and> (\<forall>r''. takes_away_later (ds_store s) i (step_head st) r'' \<longrightarrow> q_id r' \<le> q_id r'')
                \<longrightarrow> goes_to E s st (the (q_mailbox r')) (the (q_source_remote r')) None)
            \<and> ((\<forall>r'. \<not> takes_away_later (ds_store s) i (step_head st) r')
                \<longrightarrow> (\<exists>why. resolve E s st = Inr (ResObsolete why None)))))"
proof (intro conjI allI impI)
  fix src dst assume op: "step_operation st \<in> {Move src dst, Delete src dst}"
  have h: "head_snapshot (ds_store s) st = q_source_remote r"
    using get_row_mem [OF assms(1), of "step_head st" r] assms(4,5) by (simp add: head_snapshot_def)
  from op consider "step_operation st = Move src dst" | "step_operation st = Delete src dst" by auto
  then show "case (q_source_remote r, m_remote m) of
          (Some rid, _) \<Rightarrow> goes_to E s st src rid (Some dst)
        | (None, Some rid) \<Rightarrow> goes_to E s st src rid (Some dst)
        | (None, None) \<Rightarrow> \<exists>why. resolve E s st = Inr (ResObsolete why None)"
    using assms(2,3)
    by cases (cases "q_source_remote r"; cases "m_remote m"; cases "de_mailbox_path E (ds_world s) src";
      cases "de_mailbox_path E (ds_world s) dst";
      simp add: goes_to_def resolve_def resolve_draft_def resolve_mailbox_def h Let_def)+
next
  fix fs assume "step_operation st \<in> {SetFlags fs, ClearFlags fs}"
  then have op: "is_flag_change (step_operation st)"
    and res: "resolve E s st = Inr (resolve_mailbox E s st)" "\<not> is_move (step_operation st)"
    and place: "\<And>A B C D F. (case step_operation st of Move a b \<Rightarrow> A a b | Delete a b \<Rightarrow> B a b | Expunge a \<Rightarrow> C a
        | Purge a \<Rightarrow> D a | _ \<Rightarrow> F) = F"
    by (auto simp: resolve_def resolve_draft_def)
  have here: "goes_to E s st (m_mailbox m) rid None" if "m_remote m = Some rid" for rid
    using that assms(2,3) op res(2)
    by (cases "de_mailbox_path E (ds_world s) (m_mailbox m)")
      (simp_all add: goes_to_def res(1) resolve_mailbox_def place Let_def)
  have left: "goes_to E s st box rid None"
    if "m_remote m = None" "leaving_after (ds_store s) i (step_head st) = Some (box, rid)" for box rid
    using that assms(2,3) op res(2)
    by (cases "de_mailbox_path E (ds_world s) box") (simp_all add: goes_to_def res(1) resolve_mailbox_def place Let_def)
  have none: "\<exists>why. resolve E s st = Inr (ResObsolete why None)"
    if "m_remote m = None" "leaving_after (ds_store s) i (step_head st) = None"
    using that assms(2,3) op res(2) by (simp add: res(1) resolve_mailbox_def place Let_def)
  note first = leaving_after_first [OF assms(1), of i "step_head st"]
  have uni: "a = b" if "a \<in> set (o_queue (ds_store s))" "b \<in> set (o_queue (ds_store s))" "q_id a = q_id b" for a b
    using get_row_mem [OF assms(1), of "q_id a" a] get_row_mem [OF assms(1), of "q_id b" b] that by simp
  show "case m_remote m of
          Some rid \<Rightarrow> goes_to E s st (m_mailbox m) rid None
        | None \<Rightarrow>
            (\<forall>r'. takes_away_later (ds_store s) i (step_head st) r'
                \<and> (\<forall>r''. takes_away_later (ds_store s) i (step_head st) r'' \<longrightarrow> q_id r' \<le> q_id r'')
                \<longrightarrow> goes_to E s st (the (q_mailbox r')) (the (q_source_remote r')) None)
            \<and> ((\<forall>r'. \<not> takes_away_later (ds_store s) i (step_head st) r')
                \<longrightarrow> (\<exists>why. resolve E s st = Inr (ResObsolete why None)))"
  proof (cases "m_remote m")
    case None
    show ?thesis
    proof (cases "leaving_after (ds_store s) i (step_head st)")
      case no: None
      with first none None show ?thesis by auto
    next
      case (Some lf)
      obtain box rid where lf: "lf = (box, rid)" by (cases lf)
      with first Some obtain r1 where r1: "takes_away_later (ds_store s) i (step_head st) r1"
          "q_mailbox r1 = Some box" "q_source_remote r1 = Some rid"
          "\<And>r'. takes_away_later (ds_store s) i (step_head st) r' \<Longrightarrow> q_id r1 \<le> q_id r'" by auto
      have "r' = r1" if "takes_away_later (ds_store s) i (step_head st) r'"
          "\<forall>r''. takes_away_later (ds_store s) i (step_head st) r'' \<longrightarrow> q_id r' \<le> q_id r''" for r'
      proof -
        have "q_id r' = q_id r1" by (rule antisym) (use that(2) r1(1) r1(4) [OF that(1)] in blast)+
        with uni that(1) r1(1) show ?thesis by (auto simp: takes_away_later_def)
      qed
      then show ?thesis using None left [OF None Some [unfolded lf]] r1(1-3) by (simp, metis option.sel)
    qed
  qed (simp add: here)
qed

text \<open>A flag change queued before an archive that already took the message away locally.\<close>

definition demo_flag_row :: queued_operation where
  "demo_flag_row = demo_row 1 (Message 9) (SetFlags [Seen])"

definition demo_later_archive :: queued_operation where
  "demo_later_archive = (demo_row 2 (Message 9) (Move 1 2))\<lparr>q_source_remote := Some ''7:3'', q_mailbox := Some 1\<rparr>"

theorem drain_finds_the_server_copy_witness:
  "\<exists>cx. resolve demo_env (demo_state [demo_flag_row, demo_later_archive] 2 None) (row_step demo_flag_row) = Inr (Ready cx)
     \<and> cx_path cx = ''INBOX'' \<and> cx_ids cx = [''7:3'']"
proof -
  let ?s = "demo_state [demo_flag_row, demo_later_archive] 2 None" and ?st = "row_step demo_flag_row"
  let ?m = "\<lparr>m_id = 9, m_mailbox = 2, m_thread = None, m_uid = None, m_remote = None, m_has_pending = True\<rparr>"
  note d = demo_defs demo_flag_row_def demo_later_archive_def
  have wf: "queue_wf (ds_store ?s)" by (simp add: d queue_wf_def)
  have t: "step_target ?st = Message 9" "get_message (ds_store ?s) 9 = Some ?m" "m_remote ?m = None"
    "demo_flag_row \<in> set (o_queue (ds_store ?s))" "q_id demo_flag_row = step_head ?st"
    "step_operation ?st \<in> {SetFlags [Seen], ClearFlags [Seen]}"
    by (simp_all add: d row_step_def get_message_def step_head_def)
  have later: "takes_away_later (ds_store ?s) 9 (step_head ?st) r \<longleftrightarrow> r = demo_later_archive" for r
    by (auto simp: takes_away_later_def d row_step_def step_head_def)
  have q: "the (q_mailbox demo_later_archive) = 1" "the (q_source_remote demo_later_archive) = ''7:3''"
    by (simp_all add: d)
  have "goes_to demo_env ?s ?st (the (q_mailbox demo_later_archive)) (the (q_source_remote demo_later_archive)) None"
    using conjunct2 [OF drain_finds_the_server_copy [OF wf t(1,2,4,5), of demo_env], rule_format, OF t(6)]
    unfolding t(3) option.case later by blast
  then show ?thesis unfolding q by (auto simp: goes_to_def demo_env_def demo_paths_def demo_state_def)
qed


subsection \<open>Where a pass falls short\<close>

text \<open>
  A pass that settled a row as uncertain can call itself idle: \<open>settled\<close> adds up every
  list of the report but that one, so the rows of a send with an unknown fate are counted
  nowhere although they left the queue.
\<close>

theorem drain_uncertain_counts_as_idle:
  assumes "step_rows st \<noteq> []" "queue_wf (ds_store s)" "rows_in (ds_store s) (step_rows st)"
  shows "\<exists>s' report. settle L policy E s st (Uncertain why) now report_default = Some (s', Inr report)
     \<and> report_is_idle report \<and> report_settled report < report_rows report
     \<and> (\<forall>i\<in>set (step_rows st). \<exists>r. get_row (ds_store s') i = Some r \<and> q_state r = Done)"
proof -
  have rows: "distinct (step_rows st)" "\<And>i. i \<in> set (step_rows st) \<Longrightarrow> get_row (ds_store s) i \<noteq> None"
    using assms(3) by (auto simp: rows_in_def)
  obtain t where t: "each (\<lambda>q i. mark_done_noted q i (to_millis now) why) (ds_store s) (step_rows st) = Inr t"
    "get_row t = (\<lambda>j. if j \<in> set (step_rows st)
       then map_option (noted_row why \<circ> done_row (to_millis now)) (get_row (ds_store s) j) else get_row (ds_store s) j)"
    using mark_done_noted.each_ok [OF assms(2) rows, of "to_millis now" why] by blast
  have "\<exists>r. get_row t i = Some r \<and> q_state r = Done" if "i \<in> set (step_rows st)" for i
    using rows(2) [OF that] that t(2) by (auto simp: noted_row_def done_row_def)
  then show ?thesis
    using t(1) assms(1)
    by (simp add: settle_def Let_def report_is_idle_def report_settled_def report_rows_def report_default_def failed_op_def)
qed

theorem drain_uncertain_counts_as_idle_witness:
  "\<exists>s' report. settle chrono_0_4 retry_default demo_env (demo_state [demo_archive] 2 None) (row_step demo_archive)
       (Uncertain ''no answer'') 0 report_default = Some (s', Inr report) \<and> report_is_idle report"
proof -
  have "step_rows (row_step demo_archive) \<noteq> []" "rows_in (ds_store (demo_state [demo_archive] 2 None)) (step_rows (row_step demo_archive))"
    by (simp_all add: rows_in_def demo_defs row_step_def get_row_def)
  from drain_uncertain_counts_as_idle [OF this(1) demo_state_wf this(2), of chrono_0_4 retry_default demo_env "''no answer''" 0]
  show ?thesis by blast
qed

text \<open>The undo of that archive: queued while the local copy has no server id, so with no snapshot.\<close>

definition demo_undo :: queued_operation where
  "demo_undo = (demo_row 2 (Message 9) (Move 2 1))\<lparr>q_source_remote := None\<rparr>"

definition demo_deferred :: queued_operation where
  "demo_deferred = deferred_row 1000 ''offline'' demo_archive"


end
