(* ===== verification/Op_Queue_Props.thy ===== *)
theory Op_Queue_Props
  imports Op_Queue "HOL-Library.Sublist"
begin

section \<open>The mutation queue: the properties\<close>

text \<open>
  The queue's invariants along every sequence of its operations, what \<open>pending\<close> hands to
  the drainer, what a bulk enqueue covers, and where the queue's order is not what the
  drainer sees.
\<close>

subsection \<open>The flag on the message\<close>

definition wants_flag :: "op_store \<Rightarrow> message_id \<Rightarrow> bool" where
  "wants_flag s i \<longleftrightarrow> (\<exists>r\<in>set (o_queue s). q_target r = Message i \<and> unsettled r)"

lemma flags_true_iff: "flags_true s \<longleftrightarrow> (\<forall>m\<in>set (o_messages s). m_has_pending m = wants_flag s (m_id m))"
  by (simp add: flags_true_def wants_flag_def)

lemma refresh_flags:
  assumes "\<forall>m\<in>set (o_messages s). Message (m_id m) \<noteq> t \<longrightarrow> m_has_pending m = wants_flag s (m_id m)"
    and "\<And>i. t \<noteq> Thread i"
  shows "flags_true (refresh_pending_flag s t)"
proof -
  have w: "wants_flag (refresh_pending_flag s t) i = wants_flag s i" for i
    by (simp add: wants_flag_def)
  have flag: "list_ex (\<lambda>r. on_target (Message i) r \<and> unsettled r) (o_queue s) = wants_flag s i" for i
    by (auto simp: wants_flag_def list_ex_iff on_target_iff)
  show ?thesis
    unfolding flags_true_iff w
    using assms by (cases t) (auto simp: refresh_pending_flag_def Let_def flag)
qed

lemma wants_update:
  assumes "\<And>r. q_target (f r) = q_target r"
    and "\<And>r. r \<in> set (o_queue s) \<Longrightarrow> P r \<Longrightarrow> q_target r = Message j \<Longrightarrow> unsettled (f r) = unsettled r"
  shows "wants_flag (update_rows P f s) j = wants_flag s j"
proof -
  have "wants_flag (update_rows P f s) j \<longleftrightarrow>
      (\<exists>r\<in>set (o_queue s). q_target (if P r then f r else r) = Message j \<and> unsettled (if P r then f r else r))"
    unfolding wants_flag_def update_fields set_map by blast
  also have "\<dots> \<longleftrightarrow> (\<exists>r\<in>set (o_queue s). q_target r = Message j \<and> unsettled r)"
    using assms by (intro bex_cong refl) auto
  finally show ?thesis by (simp add: wants_flag_def)
qed

text \<open>A write to the rows of one target leaves every other message's flag right.\<close>

lemma refresh_after_write:
  assumes "flags_true s" "o_messages s' = o_messages s" "\<And>i. t \<noteq> Thread i"
    and "\<And>i. Message i \<noteq> t \<Longrightarrow> wants_flag s' i = wants_flag s i"
  shows "flags_true (refresh_pending_flag s' t)"
  using assms by (intro refresh_flags) (auto simp: flags_true_iff)

lemma flags_insert:
  assumes "flags_true s" "\<And>i. t \<noteq> Thread i"
  shows "flags_true (refresh_pending_flag (fst (insert_row s a t op at n rem)) t)"
  using assms by (intro refresh_after_write) (auto simp: insert_row_def Let_def wants_flag_def)

lemma queue_wf_enqueue:
  assumes "queue_wf s" "flags_true s" "\<And>i. t \<noteq> Thread i" "enqueue_inner s a t op at n = Inr (s', r)"
  shows "queue_wf s' \<and> flags_true s'"
proof -
  obtain rem where "s' = refresh_pending_flag (fst (insert_row s a t op at n rem)) t"
    using assms(4) by (auto simp: enqueue_inner_def require_persisted_def Let_def split: if_split_asm prod.splits)
      (metis fst_conv)
  with assms(1-3) flags_insert queue_wf_insert queue_wf_refresh show ?thesis by metis
qed

lemma insert_messages_fields:
  "o_messages (insert_messages s a op at ms) = o_messages s"
  "o_next (insert_messages s a op at ms) = o_next s + int (length ms)"
  by (induction ms arbitrary: s) (auto simp: insert_messages_def insert_row_def Let_def)

lemma queue_wf_insert_messages: "queue_wf s \<Longrightarrow> queue_wf (insert_messages s a op at ms)"
  by (induction ms arbitrary: s) (auto simp: insert_messages_def intro: queue_wf_insert)

lemma insert_messages_wants:
  "wants_flag (insert_messages s a op at ms) i \<longleftrightarrow> wants_flag s i \<or> i \<in> m_id ` set ms"
proof (induction ms arbitrary: s)
  case (Cons m ms)
  have "wants_flag (fst (insert_row s a (Message (m_id m)) op at None (m_remote m))) i \<longleftrightarrow>
      wants_flag s i \<or> i = m_id m"
    by (auto simp: insert_row_def Let_def wants_flag_def unsettled_def)
  with Cons show ?case by (auto simp: insert_messages_def)
qed (simp add: insert_messages_def)

lemma flags_bulk:
  assumes "queue_wf s" "flags_true s" "set ms = {m \<in> set (o_messages s). P m}"
  shows "queue_wf (flag_messages P (insert_messages s a op at ms))
    \<and> flags_true (flag_messages P (insert_messages s a op at ms))"
proof -
  let ?s = "insert_messages s a op at ms"
  have w: "wants_flag (flag_messages P ?s) i = wants_flag ?s i" for i
    by (simp add: wants_flag_def flag_messages_def)
  have inj: "m = m'" if "m \<in> set (o_messages s)" "m' \<in> set (o_messages s)" "m_id m = m_id m'" for m m'
    using assms(1) that by (auto simp: queue_wf_def distinct_map inj_on_def)
  have "m_has_pending m' = wants_flag ?s (m_id m')"
    if "m \<in> set (o_messages s)" "m' = (if P m then m\<lparr>m_has_pending := True\<rparr> else m)" for m m'
  proof (cases "P m")
    case True
    then show ?thesis using that assms(3) by (auto simp: insert_messages_wants)
  next
    case False
    then have "m_id m \<notin> m_id ` set ms" using inj that(1) assms(3) by auto
    then show ?thesis using that False assms(2) by (auto simp: insert_messages_wants flags_true_iff)
  qed
  note each = this
  have "flags_true (flag_messages P ?s)"
    unfolding flags_true_iff w
  proof
    fix m' assume "m' \<in> set (o_messages (flag_messages P ?s))"
    then obtain m where "m \<in> set (o_messages s)" "m' = (if P m then m\<lparr>m_has_pending := True\<rparr> else m)"
      unfolding flag_messages_def insert_messages_fields by auto
    then show "m_has_pending m' = wants_flag ?s (m_id m')" by (rule each)
  qed
  moreover have "queue_wf (flag_messages P ?s)"
    using queue_wf_insert_messages [OF assms(1), of a op at ms]
    by (rule queue_wf_same) (auto simp: flag_messages_def insert_messages_fields)
  ultimately show ?thesis by blast
qed

lemma flags_set_state:
  assumes "queue_wf s" "flags_true s" "set_state s i st at err c = Inr s'"
  shows "queue_wf s' \<and> flags_true s'"
proof -
  obtain q where q: "get_row s i = Some q" using assms(3) by (auto simp: set_state_def split: option.splits)
  then have m: "q \<in> set (o_queue s)" "q_id q = i" using get_row_mem [OF assms(1)] by auto
  have uni: "r = q" if "r \<in> set (o_queue s)" "q_id r = i" for r
    using get_row_mem [OF assms(1), of i r] q that by simp
  define f :: "queued_operation \<Rightarrow> queued_operation" where
    "f = (\<lambda>r. r\<lparr>q_state := st, q_attempts := q_attempts r + (if c then 1 else 0),
        q_last_error := (case err of Some e \<Rightarrow> Some e | None \<Rightarrow> q_last_error r), q_updated := at\<rparr>)"
  have s': "s' = refresh_pending_flag (update_rows (\<lambda>r. q_id r = i) f s) (q_target q)"
    using assms(3) q by (simp add: set_state_def f_def)
  have "wants_flag (update_rows (\<lambda>r. q_id r = i) f s) j = wants_flag s j" if "Message j \<noteq> q_target q" for j
    using that uni by (intro wants_update) (auto simp: f_def)
  moreover have "q_target q \<noteq> Thread j" for j using assms(1) m by (auto simp: queue_wf_def)
  ultimately have "flags_true s'"
    unfolding s' using assms(2) by (intro refresh_after_write [of s]) simp_all
  moreover have "queue_wf s'"
    unfolding s' using assms(1) by (intro queue_wf_refresh queue_wf_update) (simp_all add: f_def)
  ultimately show ?thesis by blast
qed

lemma flags_same_wants:
  assumes "flags_true s" "o_messages s' = o_messages s" "\<And>i. wants_flag s' i = wants_flag s i"
  shows "flags_true s'"
  using assms by (simp add: flags_true_iff)

lemma flags_note:
  assumes "queue_wf s" "flags_true s" "note_row s i n = Inr s'"
  shows "queue_wf s' \<and> flags_true s'"
proof -
  let ?f = "\<lambda>r::queued_operation. r\<lparr>q_last_error := Some n\<rparr>"
  have s': "s' = update_rows (\<lambda>r. q_id r = i) ?f s" using assms(3) by (auto simp: note_row_def split: if_split_asm)
  have "wants_flag s' j = wants_flag s j" for j unfolding s' by (rule wants_update) (simp_all add: unsettled_def)
  then show ?thesis
    using assms(1,2) by (auto simp: s' intro!: flags_same_wants [OF assms(2)] queue_wf_update)
qed

lemma flags_defer:
  assumes "queue_wf s" "flags_true s" "defer_row s i at e = Inr s'" "get_row s i = Some q" "unsettled q"
  shows "queue_wf s' \<and> flags_true s'"
proof -
  let ?f = "deferred_row at e"
  have s': "s' = update_rows (\<lambda>r. q_id r = i) ?f s"
    using assms(3) by (auto simp: defer_row_def deferred_row_def [abs_def] split: if_split_asm)
  have uni: "r = q" if "r \<in> set (o_queue s)" "q_id r = i" for r
    using get_row_mem [OF assms(1), of i r] assms(4) that by simp
  have f: "q_target (?f r) = q_target r" "unsettled (?f r)" for r by (simp_all add: deferred_row_def unsettled_def)
  have "wants_flag s' j = wants_flag s j" for j
    unfolding s' using uni assms(5) f by (intro wants_update) auto
  moreover have "queue_wf s'"
    unfolding s' using assms(1) by (intro queue_wf_update) (simp_all add: deferred_row_def)
  ultimately show ?thesis using assms(2) by (auto simp: s' intro!: flags_same_wants [OF assms(2)])
qed

lemma flags_requeue:
  assumes "queue_wf s" "flags_true s"
  shows "queue_wf (fst (requeue_in_flight s a at)) \<and> flags_true (fst (requeue_in_flight s a at))"
proof -
  have "wants_flag (fst (requeue_in_flight s a at)) j = wants_flag s j" for j
    unfolding requeue_in_flight_def Let_def fst_conv by (rule wants_update) (auto simp: unsettled_def)
  then show ?thesis
    using assms by (auto simp: requeue_in_flight_def Let_def intro!: flags_same_wants [OF assms(2)] queue_wf_update)
qed

lemma flags_delete:
  assumes "queue_wf s" "flags_true s"
  shows "queue_wf (fst (delete_row s i)) \<and> flags_true (fst (delete_row s i))"
proof -
  let ?s = "s\<lparr>o_queue := filter (\<lambda>r. q_id r \<noteq> i) (o_queue s)\<rparr>"
  have wf: "queue_wf ?s" using assms(1) by (rule queue_wf_filter)
  show ?thesis
  proof (cases "get_row s i")
    case None
    have "wants_flag ?s j = wants_flag s j" for j
      using None by (auto simp: wants_flag_def get_row_def find_None_iff)
    with None wf assms(2) show ?thesis
      by (auto simp: delete_row_def Let_def intro!: flags_same_wants [OF assms(2)])
  next
    case (Some q)
    then have m: "q \<in> set (o_queue s)" using get_row_mem [OF assms(1)] by auto
    have uni: "r = q" if "r \<in> set (o_queue s)" "q_id r = i" for r
      using get_row_mem [OF assms(1), of i r] Some that by simp
    have "q_target q \<noteq> Thread j" for j using assms(1) m by (auto simp: queue_wf_def)
    moreover have "wants_flag ?s j = wants_flag s j" if "Message j \<noteq> q_target q" for j
      using that uni by (auto simp: wants_flag_def)
    ultimately have "flags_true (refresh_pending_flag ?s (q_target q))"
      using assms(2) by (intro refresh_after_write [of s]) simp_all
    then show ?thesis using wf Some by (simp add: delete_row_def Let_def queue_wf_refresh)
  qed
qed

lemma flags_prune:
  assumes "queue_wf s" "flags_true s"
  shows "queue_wf (fst (prune_settled s a b)) \<and> flags_true (fst (prune_settled s a b))"
proof -
  have "wants_flag (fst (prune_settled s a b)) j = wants_flag s j" for j
    by (auto simp: prune_settled_def Let_def wants_flag_def unsettled_def)
  then show ?thesis
    using assms by (auto simp: prune_settled_def Let_def intro!: flags_same_wants [OF assms(2)] queue_wf_filter)
qed



subsection \<open>Every sequence of writes\<close>

text \<open>
  One write to the store.  The drainer defers only rows that are still unsettled, and no
  caller enqueues an operation on a whole thread.
\<close>

inductive queue_write :: "op_store \<Rightarrow> op_store \<Rightarrow> bool" where
  w_enqueue: "(\<And>i. t \<noteq> Thread i) \<Longrightarrow> enqueue s a t op at = Inr (s', r) \<Longrightarrow> queue_write s s'"
| w_enqueue_not_before: "(\<And>i. t \<noteq> Thread i) \<Longrightarrow> enqueue_not_before s a t op at nb = Inr (s', r) \<Longrightarrow> queue_write s s'"
| w_enqueue_set: "enqueue_set s a P op at = Inr (s', rng) \<Longrightarrow> queue_write s s'"
| w_enqueue_many: "enqueue_many s a js op at = Inr s' \<Longrightarrow> queue_write s s'"
| w_note: "note_row s i n = Inr s' \<Longrightarrow> queue_write s s'"
| w_in_flight: "mark_in_flight s i at = Inr s' \<Longrightarrow> queue_write s s'"
| w_done: "mark_done s i at = Inr s' \<Longrightarrow> queue_write s s'"
| w_failed: "mark_failed s i at e = Inr s' \<Longrightarrow> queue_write s s'"
| w_defer: "get_row s i = Some q \<Longrightarrow> unsettled q \<Longrightarrow> defer_row s i at e = Inr s' \<Longrightarrow> queue_write s s'"
| w_requeue: "queue_write s (fst (requeue_in_flight s a at))"
| w_delete: "queue_write s (fst (delete_row s i))"
| w_prune: "queue_write s (fst (prune_settled s a b))"

lemma set_sort_filter: "set (filter P (sort_key m_id ms)) = {m \<in> set ms. P m}"
  by simp

lemma flags_enqueue_set:
  assumes "queue_wf s" "flags_true s" "enqueue_set s a P op at = Inr (s', rng)"
  shows "queue_wf s' \<and> flags_true s'"
proof -
  let ?ms = "filter P (sort_key m_id (o_messages s))"
  from assms(3) consider "s' = flag_messages P (insert_messages s a op at ?ms)"
    | "s' = insert_messages s a op at []"
    by (auto simp: enqueue_set_def require_persisted_def Let_def split: if_split_asm)
  then show ?thesis
  proof cases
    case 1
    then show ?thesis using flags_bulk [OF assms(1,2), of ?ms P a op at] by simp
  qed (use assms(1,2) in \<open>simp add: insert_messages_def\<close>)
qed

lemma flags_enqueue_many:
  assumes "queue_wf s" "flags_true s" "enqueue_many s a js op at = Inr s'"
  shows "queue_wf s' \<and> flags_true s'"
  using assms flags_bulk [OF assms(1,2), of "filter (\<lambda>m. m_id m \<in> set js) (sort_key m_id (o_messages s))"
      "\<lambda>m. m_id m \<in> set js" a op at]
  by (auto simp: enqueue_many_def require_persisted_def Let_def split: if_split_asm)

lemma queue_write_inv:
  assumes "queue_write s s'" "queue_wf s" "flags_true s"
  shows "queue_wf s' \<and> flags_true s'"
  using assms
proof cases
  case (w_enqueue t a op at r)
  from this(2) [unfolded enqueue_def] show ?thesis by (rule queue_wf_enqueue [OF assms(2,3) w_enqueue(1)])
next
  case (w_enqueue_not_before t a op at nb r)
  from this(2) [unfolded enqueue_not_before_def] show ?thesis by (rule queue_wf_enqueue [OF assms(2,3) w_enqueue_not_before(1)])
next
  case (w_in_flight i at)
  from this [unfolded mark_in_flight_def] show ?thesis by (rule flags_set_state [OF assms(2,3)])
next
  case (w_done i at)
  from this [unfolded mark_done_def] show ?thesis by (rule flags_set_state [OF assms(2,3)])
next
  case (w_failed i at e)
  from this [unfolded mark_failed_def] show ?thesis by (rule flags_set_state [OF assms(2,3)])
next
  case (w_enqueue_set a P op at rng)
  then show ?thesis by (rule flags_enqueue_set [OF assms(2,3)])
next
  case (w_enqueue_many a js op at)
  then show ?thesis by (rule flags_enqueue_many [OF assms(2,3)])
next
  case (w_note i n)
  then show ?thesis by (rule flags_note [OF assms(2,3)])
next
  case (w_defer i q at e)
  from flags_defer [OF assms(2,3) w_defer(3,1,2)] show ?thesis .
next
  case (w_requeue a at)
  then show ?thesis using flags_requeue [OF assms(2,3), of a at] by simp
next
  case (w_delete i)
  then show ?thesis using flags_delete [OF assms(2,3), of i] by simp
next
  case (w_prune a b)
  then show ?thesis using flags_prune [OF assms(2,3), of a b] by simp
qed


definition demo_store :: op_store where
  "demo_store = \<lparr>o_queue = [], o_next = 1,
     o_messages = [\<lparr>m_id = 9, m_mailbox = 1, m_thread = None, m_uid = Some 3, m_remote = Some ''7:3'', m_has_pending = False\<rparr>]\<rparr>"

lemma demo_store_ok: "queue_wf demo_store" "flags_true demo_store"
  by (simp_all add: demo_store_def queue_wf_def flags_true_def)



subsection \<open>What the drainer is handed\<close>

text \<open>
  \<open>pending\<close> hands the drainer exactly the account's rows that are pending and due, in
  enqueue order; a row waiting for its retry keeps its place, so with time rows are only
  ever added to the batch, never reordered.
\<close>

theorem queue_pending_in_order:
  assumes "queue_wf s"
  shows "sorted_wrt (<) (map q_id (pending s a now))
     \<and> (\<forall>r. r \<in> set (pending s a now) \<longleftrightarrow>
          get_row s (q_id r) = Some r \<and> q_account r = a \<and> q_state r = Pending
          \<and> (\<forall>at. q_next_attempt r = Some at \<longrightarrow> at \<le> now))
     \<and> (\<forall>now'. now \<le> now' \<longrightarrow> subseq (pending s a now) (pending s a now'))"
proof (intro conjI allI impI)
  show "sorted_wrt (<) (map q_id (pending s a now))"
    using assms by (auto simp: pending_def queue_wf_def sorted_wrt_map intro: sorted_wrt_filter)
  show "r \<in> set (pending s a now) \<longleftrightarrow>
          get_row s (q_id r) = Some r \<and> q_account r = a \<and> q_state r = Pending
          \<and> (\<forall>at. q_next_attempt r = Some at \<longrightarrow> at \<le> now)" for r
    using get_row_mem [OF assms, of "q_id r" r] by (auto simp: pending_def is_due_def split: option.splits)
  fix now' assume le: "now \<le> now'"
  have "pending s a now = filter (is_due a now) (pending s a now')"
    using le by (auto simp: pending_def is_due_def intro!: filter_cong split: option.splits)
  then show "subseq (pending s a now) (pending s a now')"
    by (metis subseq_filter_left)
qed

theorem queue_pending_in_order_witness:
  "sorted_wrt (<) (map q_id (pending demo_store 1 0))"
  using queue_pending_in_order [OF demo_store_ok(1)] by blast

text \<open>
  A scheduled operation is invisible to the drainer until its time and due from then on,
  and reads as fresh: no attempt counted and no error; an ordinary one is due at once, last
  in line, and both carry where the message sat on the server when they were enqueued.
\<close>

theorem queue_scheduling:
  assumes "queue_wf s" "0 < a"
  shows "(\<exists>s' r. enqueue_not_before s a t op at nb = Inr (s', r)
            \<and> q_attempts r = 0 \<and> q_last_error r = None \<and> q_inverse r = inverse op
            \<and> pending s' a now = pending s a now @ (if nb \<le> now then [r] else []))
     \<and> (\<exists>s' r. enqueue s a t op at = Inr (s', r)
            \<and> pending s' a now = pending s a now @ [r]
            \<and> (\<forall>i m. t = Message i \<and> m \<in> set (o_messages s) \<and> m_id m = i \<longrightarrow> q_source_remote r = m_remote m))"
proof -
  have e: "enqueue_inner s a t op at n =
      Inr (refresh_pending_flag (fst (insert_row s a t op at n (source_remote_id s t))) t,
           fresh_row (o_next s) a t op at n (source_remote_id s t))" for n
    using assms(2) by (simp add: enqueue_inner_def require_persisted_def insert_row_def Let_def)
  have p: "pending (refresh_pending_flag (fst (insert_row s a t op at n rem)) t) a now
      = pending s a now @ (if is_due a now (fresh_row (o_next s) a t op at n rem)
          then [fresh_row (o_next s) a t op at n rem] else [])" for n rem
    by (simp add: pending_def insert_row_def Let_def)
  have snap: "source_remote_id s (Message (m_id m)) = m_remote m" if m: "m \<in> set (o_messages s)" for m
  proof -
    obtain y where y: "find (\<lambda>x. m_id x = m_id m) (o_messages s) = Some y"
      using m by (cases "find (\<lambda>x. m_id x = m_id m) (o_messages s)") (auto simp: find_None_iff)
    then have "y \<in> set (o_messages s)" "m_id y = m_id m" by (auto simp: find_Some_iff)
    then have "y = m" using m assms(1) by (auto simp: queue_wf_def distinct_map inj_on_def)
    with y show ?thesis by (simp add: source_remote_id_def)
  qed
  have "\<exists>s' r. enqueue_not_before s a t op at nb = Inr (s', r)
            \<and> q_attempts r = 0 \<and> q_last_error r = None \<and> q_inverse r = inverse op
            \<and> pending s' a now = pending s a now @ (if nb \<le> now then [r] else [])"
    unfolding enqueue_not_before_def e by (simp add: p is_due_def)
  moreover have "\<exists>s' r. enqueue s a t op at = Inr (s', r) \<and> pending s' a now = pending s a now @ [r]
            \<and> (\<forall>i m. t = Message i \<and> m \<in> set (o_messages s) \<and> m_id m = i \<longrightarrow> q_source_remote r = m_remote m)"
    unfolding enqueue_def e using snap by (auto simp: p is_due_def)
  ultimately show ?thesis by blast
qed

theorem queue_scheduling_witness:
  "\<exists>s' r. enqueue_not_before demo_store 1 (Draft_target 4) (Send 4) 0 500 = Inr (s', r)
     \<and> pending s' 1 499 = pending demo_store 1 499 @ (if 500 \<le> (499::int) then [r] else [])"
  using queue_scheduling [OF demo_store_ok(1), of 1 "Draft_target 4" "Send 4" 0 500 499] by auto


subsection \<open>Bulk enqueues\<close>

text \<open>The rows an \<open>INSERT \<dots> SELECT\<close> writes, numbered from \<open>i\<close>.\<close>

fun bulk_rows :: "operation_id \<Rightarrow> account_id \<Rightarrow> operation \<Rightarrow> int \<Rightarrow> message_row list \<Rightarrow> queued_operation list" where
  "bulk_rows i a op at [] = []"
| "bulk_rows i a op at (m # ms) =
     fresh_row i a (Message (m_id m)) op at None (m_remote m) # bulk_rows (i + 1) a op at ms"

lemma insert_messages_queue: "o_queue (insert_messages s a op at ms) = o_queue s @ bulk_rows (o_next s) a op at ms"
proof (induction ms arbitrary: s)
  case (Cons m ms)
  show ?case
    using Cons.IH [of "fst (insert_row s a (Message (m_id m)) op at None (m_remote m))"]
    by (simp add: insert_messages_def insert_row_def Let_def)
qed (simp add: insert_messages_def)

lemma bulk_rows_ids: "map q_id (bulk_rows i a op at ms) = [i..i + int (length ms) - 1]"
proof (induction ms arbitrary: i)
  case (Cons m ms)
  then show ?case by (subst upto_rec1) (simp_all add: algebra_simps)
qed simp

lemma bulk_rows_fields:
  "map q_target (bulk_rows i a op at ms) = map (Message \<circ> m_id) ms"
  "map q_source_remote (bulk_rows i a op at ms) = map m_remote ms"
  "\<forall>r\<in>set (bulk_rows i a op at ms). q_operation r = op \<and> q_state r = Pending \<and> q_account r = a"
  by (induction ms arbitrary: i) auto

lemma highest_id:
  "\<forall>r\<in>set rs. q_id r \<le> foldr max (map q_id rs) (0::int)"
  "0 < n \<Longrightarrow> \<forall>r\<in>set rs. q_id r < n \<Longrightarrow> foldr max (map q_id rs) 0 < n"
  by (induction rs) auto

text \<open>
  C27: A bulk enqueue resolves its set at once: it appends exactly one row per message selected
  now, in message order, each with where that message sat on the server, leaves every other
  row alone, and the run of ids it returns names exactly the rows it wrote, so the undo that
  takes the run back can touch no other row.
\<close>

theorem queue_bulk_is_exact:
  fixes P :: "message_row \<Rightarrow> bool"
  assumes "queue_wf s" "0 < a"
  defines "ms \<equiv> filter P (sort_key m_id (o_messages s))"
  shows "\<exists>s' rng rows. enqueue_set s a P op at = Inr (s', rng)
     \<and> o_queue s' = o_queue s @ rows
     \<and> map q_target rows = map (Message \<circ> m_id) ms \<and> map q_source_remote rows = map m_remote ms
     \<and> (\<forall>r\<in>set rows. q_operation r = op \<and> q_state r = Pending)
     \<and> (case rng of None \<Rightarrow> ms = []
        | Some k \<Rightarrow> ms \<noteq> [] \<and> filter (\<lambda>r. range_first k \<le> q_id r \<and> q_id r \<le> range_last k) (o_queue s') = rows)"
proof -
  let ?rows = "bulk_rows (o_next s) a op at ms"
  let ?high = "foldr max (map q_id (o_queue s)) 0"
  have res: "enqueue_set s a P op at =
      (if ms = [] then Inr (insert_messages s a op at ms, None)
       else Inr (flag_messages P (insert_messages s a op at ms),
          Some \<lparr>range_first = ?high + 1, range_last = o_next s + int (length ms) - 1\<rparr>))"
    using assms(2) unfolding enqueue_set_def require_persisted_def
    by (simp add: ms_def [symmetric] insert_messages_fields Let_def)
  have old: "\<forall>r\<in>set (o_queue s). q_id r \<le> ?high" by (rule highest_id)
  have lt: "?high < o_next s" using assms(1) by (intro highest_id) (auto simp: queue_wf_def)
  have ids: "set (map q_id ?rows) = {o_next s..o_next s + int (length ms) - 1}"
    by (simp only: bulk_rows_ids set_upto)
  have new: "\<forall>r\<in>set ?rows. ?high + 1 \<le> q_id r \<and> q_id r \<le> o_next s + int (length ms) - 1"
  proof
    fix r assume "r \<in> set ?rows"
    then have "q_id r \<in> set (map q_id ?rows)" by simp
    with lt show "?high + 1 \<le> q_id r \<and> q_id r \<le> o_next s + int (length ms) - 1" unfolding ids by simp
  qed
  have f: "filter (\<lambda>r. ?high + 1 \<le> q_id r \<and> q_id r \<le> o_next s + int (length ms) - 1) (o_queue s @ ?rows) = ?rows"
    using old new by (fastforce simp: filter_id_conv filter_empty_conv)
  show ?thesis
  proof (cases "ms = []")
    case True
    then show ?thesis unfolding res by (auto simp: insert_messages_def)
  next
    case False
    have q: "o_queue (flag_messages P (insert_messages s a op at ms)) = o_queue s @ ?rows"
      by (simp add: insert_messages_queue flag_messages_def)
    show ?thesis
      unfolding res
      using False f bulk_rows_fields(3) [of "o_next s" a op at ms]
      by (intro exI [of _ "flag_messages P (insert_messages s a op at ms)"]
          exI [of _ "Some \<lparr>range_first = ?high + 1, range_last = o_next s + int (length ms) - 1\<rparr>"]
          exI [of _ ?rows]) (simp add: q bulk_rows_fields(1,2))
  qed
qed

theorem queue_bulk_is_exact_witness:
  "\<exists>s' rng. enqueue_set demo_store 1 (\<lambda>m. m_mailbox m = 1) (Move 1 2) 0 = Inr (s', rng)
     \<and> map q_target (o_queue s') = [Message 9]"
proof -
  have "filter (\<lambda>m. m_mailbox m = 1) (sort_key m_id (o_messages demo_store)) = o_messages demo_store"
    "o_queue demo_store = []" "map (Message \<circ> m_id) (o_messages demo_store) = [Message 9]"
    by (simp_all add: demo_store_def)
  with queue_bulk_is_exact [OF demo_store_ok(1), of 1 "\<lambda>m. m_mailbox m = 1" "Move 1 2" 0]
  show ?thesis by auto
qed

end
