(* ===== verification/Drafts.thy ===== *)
theory Drafts
  imports Op_Queue Retry
begin

section \<open>Drafts\<close>

text \<open>
  \<open>crates/postio-model/src/draft.rs\<close> (the draft and its state) and
  \<open>crates/postio-storage/src/repository/drafts.rs\<close> (every statement of
  \<open>DraftRepository\<close> that changes state), over the queue of \<open>Op_Queue\<close> and the
  rows of \<open>messages\<close> that stand for drafts and sent copies.  Of a draft only the columns
  the modelled code reads are kept apart; the rest of what the user wrote is
  \<open>d_content\<close>.  An address is its string.  A deleted message's id is cleared from the
  drafts that named it, as the schema's \<open>ON DELETE SET NULL\<close> does.
\<close>

subsection \<open>The draft\<close>

datatype draft_kind = DraftNew | DraftReply | DraftReplyAll | DraftForward

fun draft_kind_as_str :: "draft_kind \<Rightarrow> string" where
  "draft_kind_as_str DraftNew = ''new''"
| "draft_kind_as_str DraftReply = ''reply''"
| "draft_kind_as_str DraftReplyAll = ''reply_all''"
| "draft_kind_as_str DraftForward = ''forward''"

definition draft_kind_from_name :: "string \<Rightarrow> draft_kind option" where
  "draft_kind_from_name s =
     (if s = ''new'' then Some DraftNew
      else if s = ''reply'' then Some DraftReply
      else if s = ''reply_all'' then Some DraftReplyAll
      else if s = ''forward'' then Some DraftForward
      else None)"

datatype draft_state = Editing | Queued | Sending | DraftSent | DraftFailed | Unconfirmed

fun draft_state_as_str :: "draft_state \<Rightarrow> string" where
  "draft_state_as_str Editing = ''editing''"
| "draft_state_as_str Queued = ''queued''"
| "draft_state_as_str Sending = ''sending''"
| "draft_state_as_str DraftSent = ''sent''"
| "draft_state_as_str DraftFailed = ''failed''"
| "draft_state_as_str Unconfirmed = ''unconfirmed''"

definition draft_state_from_name :: "string \<Rightarrow> draft_state option" where
  "draft_state_from_name s =
     (if s = ''editing'' then Some Editing
      else if s = ''queued'' then Some Queued
      else if s = ''sending'' then Some Sending
      else if s = ''sent'' then Some DraftSent
      else if s = ''failed'' then Some DraftFailed
      else if s = ''unconfirmed'' then Some Unconfirmed
      else None)"

record draft =
  d_id :: draft_id
  d_account :: account_id
  d_identity :: "int option"
  d_kind :: draft_kind
  d_in_reply_to :: "message_id option"
  d_to :: "string list"
  d_cc :: "string list"
  d_bcc :: "string list"
  d_content :: string
  d_labels :: "int list"
  d_remind_at :: "int option"
  d_attachments :: "blob_id option list"
  d_state :: draft_state
  d_rfc :: "string option"
  d_remote :: "remote_id option"
  d_uid :: "nat option"
  d_uid_validity :: "nat option"
  d_updated :: int

definition has_recipients :: "draft \<Rightarrow> bool" where
  "has_recipients d \<longleftrightarrow> d_to d \<noteq> [] \<or> d_cc d \<noteq> [] \<or> d_bcc d \<noteq> []"

definition is_sendable :: "draft \<Rightarrow> bool" where
  "is_sendable d \<longleftrightarrow> has_recipients d \<and> (d_state d = Editing \<or> d_state d = DraftFailed)"

definition all_recipients :: "draft \<Rightarrow> string list" where
  "all_recipients d = d_to d @ d_cc d @ d_bcc d"


subsection \<open>The store\<close>

text \<open>A row of \<open>drafts\<close>: the draft and the message that lists it.\<close>

record draft_row =
  dr_draft :: draft
  dr_message :: "message_id option"

record mail_row =
  mr_id :: message_id
  mr_account :: account_id
  mr_mailbox :: mailbox_id
  mr_rfc :: "string option"
  mr_remote :: "remote_id option"
  mr_uid :: "nat option"
  mr_uid_validity :: "nat option"
  mr_send_state :: "draft_state option"
  mr_send_at :: "int option"

record mail_store =
  ms_ops :: op_store
  ms_drafts :: "draft_row list"
  ms_next_draft :: draft_id
  ms_mail :: "mail_row list"
  ms_next_mail :: message_id
  ms_boxes :: "account_id \<Rightarrow> mailbox_role \<Rightarrow> (mailbox_id \<times> string) option"

definition get_draft_row :: "mail_store \<Rightarrow> draft_id \<Rightarrow> draft_row option" where
  "get_draft_row s i = find (\<lambda>r. d_id (dr_draft r) = i) (ms_drafts s)"

definition get_draft :: "mail_store \<Rightarrow> draft_id \<Rightarrow> draft option" where
  "get_draft s i = map_option dr_draft (get_draft_row s i)"

definition update_drafts :: "(draft_row \<Rightarrow> bool) \<Rightarrow> (draft_row \<Rightarrow> draft_row) \<Rightarrow> mail_store \<Rightarrow> mail_store" where
  "update_drafts P f s = s\<lparr>ms_drafts := map (\<lambda>r. if P r then f r else r) (ms_drafts s)\<rparr>"

definition update_mail :: "(mail_row \<Rightarrow> bool) \<Rightarrow> (mail_row \<Rightarrow> mail_row) \<Rightarrow> mail_store \<Rightarrow> mail_store" where
  "update_mail P f s = s\<lparr>ms_mail := map (\<lambda>m. if P m then f m else m) (ms_mail s)\<rparr>"

definition delete_mail :: "(mail_row \<Rightarrow> bool) \<Rightarrow> mail_store \<Rightarrow> mail_store" where
  "delete_mail P s =
     (let gone = map mr_id (filter P (ms_mail s)) in
      s\<lparr>ms_mail := filter (\<lambda>m. \<not> P m) (ms_mail s),
        ms_drafts := map (\<lambda>r. case dr_message r of
             Some m \<Rightarrow> if m \<in> set gone then r\<lparr>dr_message := None\<rparr> else r
           | None \<Rightarrow> r) (ms_drafts s)\<rparr>)"

definition create_mail :: "(message_id \<Rightarrow> mail_row) \<Rightarrow> mail_store \<Rightarrow> mail_store \<times> message_id" where
  "create_mail f s =
     (s\<lparr>ms_mail := ms_mail s @ [f (ms_next_mail s)], ms_next_mail := ms_next_mail s + 1\<rparr>, ms_next_mail s)"

definition with_ops :: "(op_store \<Rightarrow> storage_error + (op_store \<times> 'a)) \<Rightarrow> mail_store
    \<Rightarrow> storage_error + (mail_store \<times> 'a)" where
  "with_ops f s =
     (case f (ms_ops s) of Inl e \<Rightarrow> Inl e | Inr (ops, x) \<Rightarrow> Inr (s\<lparr>ms_ops := ops\<rparr>, x))"

text \<open>\<open>drafts.state\<close> is written as its name; an \<open>Editing\<close> row never keeps a reservation.\<close>

definition reservation_for :: "draft \<Rightarrow> string option" where
  "reservation_for d = (if d_state d = Editing then None else d_rfc d)"

definition coalesce_option :: "'a option \<Rightarrow> 'a option \<Rightarrow> 'a option" where
  "coalesce_option a b = (case a of Some x \<Rightarrow> Some x | None \<Rightarrow> b)"

definition stored_draft :: "draft \<Rightarrow> draft \<Rightarrow> draft" where
  "stored_draft old d =
     d\<lparr>d_identity := (case d_identity d of Some i \<Rightarrow> if is_assigned i then Some i else None | None \<Rightarrow> None),
       d_in_reply_to := (case d_in_reply_to d of Some i \<Rightarrow> if is_assigned i then Some i else None | None \<Rightarrow> None),
       d_uid := coalesce_option (d_uid d) (d_uid old),
       d_uid_validity := coalesce_option (d_uid_validity d) (d_uid_validity old),
       d_remote := coalesce_option (d_remote d) (d_remote old),
       d_rfc := reservation_for d\<rparr>"

text \<open>
  The message row that lists the draft: rewritten from the draft alone, so without server
  identity and without a \<open>Message-ID\<close>; its \<open>send_at\<close> is not among the columns.
\<close>

definition list_row :: "mail_store \<Rightarrow> draft \<Rightarrow> storage_error + mail_store" where
  "list_row s d =
     (case ms_boxes s (d_account d) Drafts of
        None \<Rightarrow> Inr s
      | Some (box, _) \<Rightarrow>
          (case Option.bind (get_draft_row s (d_id d)) dr_message of
             Some i \<Rightarrow>
               if list_ex (\<lambda>m. mr_id m = i) (ms_mail s) then
                 Inr (update_mail (\<lambda>m. mr_id m = i)
                   (\<lambda>m. m\<lparr>mr_account := d_account d, mr_mailbox := box, mr_rfc := None,
                      mr_remote := None, mr_uid := None, mr_uid_validity := None,
                      mr_send_state := Some (d_state d)\<rparr>) s)
               else Inl (NotFound ''message'' i)
           | None \<Rightarrow>
               (let (s', i) = create_mail (\<lambda>i. \<lparr>mr_id = i, mr_account = d_account d,
                      mr_mailbox = box, mr_rfc = None, mr_remote = None, mr_uid = None,
                      mr_uid_validity = None, mr_send_state = Some (d_state d),
                      mr_send_at = None\<rparr>) s
                in Inr (update_drafts (\<lambda>r. d_id (dr_draft r) = d_id d)
                     (\<lambda>r. r\<lparr>dr_message := Some i\<rparr>) s'))))"

definition save_draft :: "mail_store \<Rightarrow> draft \<Rightarrow> storage_error + (mail_store \<times> draft)" where
  "save_draft s d =
     (if is_assigned (d_id d) then
        (case get_draft_row s (d_id d) of
           None \<Rightarrow> Inl (NotFound ''draft'' (d_id d))
         | Some _ \<Rightarrow>
             (let s' = update_drafts (\<lambda>r. d_id (dr_draft r) = d_id d)
                (\<lambda>r. r\<lparr>dr_draft := stored_draft (dr_draft r) d\<rparr>) s in
              case list_row s' d of Inl e \<Rightarrow> Inl e | Inr s'' \<Rightarrow> Inr (s'', d)))
      else
        (case require_persisted (d_account d) ''account'' of
           Inl e \<Rightarrow> Inl e
         | Inr _ \<Rightarrow>
             (let d' = d\<lparr>d_id := ms_next_draft s\<rparr>;
                  s' = s\<lparr>ms_drafts := ms_drafts s @ [\<lparr>dr_draft = stored_draft d' d', dr_message = None\<rparr>],
                         ms_next_draft := ms_next_draft s + 1\<rparr> in
              case list_row s' d' of Inl e \<Rightarrow> Inl e | Inr s'' \<Rightarrow> Inr (s'', d'))))"


subsection \<open>Writes that go with a queue row\<close>

definition save_and_sync :: "mail_store \<Rightarrow> draft \<Rightarrow> int
    \<Rightarrow> storage_error + (mail_store \<times> draft \<times> queued_operation option)" where
  "save_and_sync s d at =
     (case save_draft s d of
        Inl e \<Rightarrow> Inl e
      | Inr (s', d') \<Rightarrow>
          (case ms_boxes s' (d_account d') Drafts of
             None \<Rightarrow> Inr (s', d', None)
           | Some (box, _) \<Rightarrow>
               (case with_ops (\<lambda>q. enqueue q (d_account d') (Draft_target (d_id d')) (SaveDraft box) at) s' of
                  Inl e \<Rightarrow> Inl e
                | Inr (s'', r) \<Rightarrow> Inr (s'', d', Some r))))"

text \<open>\<open>fresh\<close> is the \<open>Message-ID\<close> \<open>reserve_message_id\<close> mints when there is none yet.\<close>

definition reserve_message_id :: "string \<Rightarrow> draft \<Rightarrow> draft" where
  "reserve_message_id fresh d = (if d_rfc d \<noteq> None then d else d\<lparr>d_rfc := Some fresh\<rparr>)"

definition queue_send_row :: "mail_store \<Rightarrow> string \<Rightarrow> draft \<Rightarrow> int \<Rightarrow> int option
    \<Rightarrow> storage_error + (mail_store \<times> draft \<times> queued_operation)" where
  "queue_send_row s fresh d at not_before =
     (case save_draft s ((reserve_message_id fresh d)\<lparr>d_state := Queued, d_updated := at\<rparr>) of
        Inl e \<Rightarrow> Inl e
      | Inr (s', d') \<Rightarrow>
          (case with_ops (\<lambda>q. case not_before of
                    None \<Rightarrow> enqueue q (d_account d') (Draft_target (d_id d')) (Send (d_id d')) at
                  | Some send_at \<Rightarrow>
                      enqueue_not_before q (d_account d') (Draft_target (d_id d')) (Send (d_id d')) at send_at) s' of
             Inl e \<Rightarrow> Inl e
           | Inr (s'', r) \<Rightarrow> Inr (s'', d', r)))"

definition queue_send :: "mail_store \<Rightarrow> string \<Rightarrow> draft \<Rightarrow> int
    \<Rightarrow> storage_error + (mail_store \<times> draft \<times> queued_operation)" where
  "queue_send s fresh d at = queue_send_row s fresh d at None"

text \<open>\<open>WHERE id IN (SELECT message_id FROM drafts WHERE id = ?)\<close>.\<close>

definition lists_draft :: "mail_store \<Rightarrow> draft_id \<Rightarrow> mail_row \<Rightarrow> bool" where
  "lists_draft s i m \<longleftrightarrow> list_ex (\<lambda>r. d_id (dr_draft r) = i \<and> dr_message r = Some (mr_id m)) (ms_drafts s)"

definition queue_send_at :: "mail_store \<Rightarrow> string \<Rightarrow> draft \<Rightarrow> int \<Rightarrow> int
    \<Rightarrow> storage_error + (mail_store \<times> draft \<times> queued_operation)" where
  "queue_send_at s fresh d at send_at =
     (case queue_send_row s fresh d at (Some send_at) of
        Inl e \<Rightarrow> Inl e
      | Inr (s', d', r) \<Rightarrow>
          Inr (update_mail (lists_draft s' (d_id d')) (\<lambda>m. m\<lparr>mr_send_at := Some send_at\<rparr>) s', d', r))"

text \<open>A send row the drainer may still pick up.\<close>

definition live_send :: "draft_id \<Rightarrow> queued_operation \<Rightarrow> bool" where
  "live_send i r \<longleftrightarrow> on_target (Draft_target i) r \<and> op_type (q_operation r) = ''send'' \<and> unsettled r"

definition orphaned_send :: "mail_store \<Rightarrow> account_id \<Rightarrow> draft_row \<Rightarrow> bool" where
  "orphaned_send s account r \<longleftrightarrow>
     d_account (dr_draft r) = account \<and> d_state (dr_draft r) = Queued
     \<and> \<not> list_ex (live_send (d_id (dr_draft r))) (o_queue (ms_ops s))"

definition fail_orphaned_sends :: "mail_store \<Rightarrow> account_id \<Rightarrow> mail_store \<times> nat" where
  "fail_orphaned_sends s account =
     (let orphans = length (filter (orphaned_send s account) (ms_drafts s)) in
      if orphans = 0 then (s, 0)
      else
        (let s' = update_drafts (orphaned_send s account)
               (\<lambda>r. r\<lparr>dr_draft := (dr_draft r)\<lparr>d_state := DraftFailed\<rparr>\<rparr>) s in
         (update_mail (\<lambda>m. mr_account m = account \<and> mr_send_state m = Some Queued
              \<and> list_ex (\<lambda>r. d_state (dr_draft r) = DraftFailed \<and> dr_message r = Some (mr_id m)) (ms_drafts s'))
            (\<lambda>m. m\<lparr>mr_send_state := Some DraftFailed\<rparr>) s', orphans)))"

datatype cancel_send_outcome = SendCancelled | NotQueued | AlreadyInFlight

definition cancel_send :: "mail_store \<Rightarrow> draft_id \<Rightarrow> int
    \<Rightarrow> storage_error + (mail_store \<times> cancel_send_outcome)" where
  "cancel_send s i at =
     (case get_draft s i of
        None \<Rightarrow> Inr (s, NotQueued)
      | Some d \<Rightarrow>
          if d_state d = Sending \<or> d_state d = DraftSent then Inr (s, AlreadyInFlight)
          else if d_state d \<noteq> Queued then Inr (s, NotQueued)
          else
            (case pending_for (ms_ops s) (Draft_target i) of
               None \<Rightarrow> Inr (s, AlreadyInFlight)
             | Some row \<Rightarrow>
                 if q_state row \<noteq> Pending then Inr (s, AlreadyInFlight)
                 else
                   (let s' = s\<lparr>ms_ops := fst (delete_row (ms_ops s) (q_id row))\<rparr> in
                    case save_draft s' (d\<lparr>d_state := Editing, d_updated := at\<rparr>) of
                      Inl e \<Rightarrow> Inl e
                    | Inr (s'', _) \<Rightarrow> Inr (s'', SendCancelled))))"

definition delete_draft :: "mail_store \<Rightarrow> draft_id \<Rightarrow> mail_store \<times> bool" where
  "delete_draft s i =
     (let s' = delete_mail (lists_draft s i) s in
      (s'\<lparr>ms_drafts := filter (\<lambda>r. d_id (dr_draft r) \<noteq> i) (ms_drafts s')\<rparr>,
       list_ex (\<lambda>r. d_id (dr_draft r) = i) (ms_drafts s')))"

definition discard :: "mail_store \<Rightarrow> draft_id \<Rightarrow> int
    \<Rightarrow> storage_error + (mail_store \<times> queued_operation option)" where
  "discard s i at =
     (case get_draft s i of
        None \<Rightarrow> Inr (s, None)
      | Some d \<Rightarrow>
          (case d_remote d of
             Some remote \<Rightarrow>
               (case ms_boxes s (d_account d) Drafts of
                  Some (box, _) \<Rightarrow>
                    (case with_ops (\<lambda>q. enqueue q (d_account d) (Draft_target i) (DiscardDraft box remote) at) s of
                       Inl e \<Rightarrow> Inl e
                     | Inr (s', r) \<Rightarrow> Inr (fst (delete_draft s' i), Some r))
                | None \<Rightarrow> Inr (fst (delete_draft s i), None))
           | None \<Rightarrow> Inr (fst (delete_draft s i), None)))"


subsection \<open>Single-column writes\<close>

definition draft_exists :: "mail_store \<Rightarrow> draft_id \<Rightarrow> bool" where
  "draft_exists s i \<longleftrightarrow> list_ex (\<lambda>r. d_id (dr_draft r) = i) (ms_drafts s)"

definition set_draft_state :: "mail_store \<Rightarrow> draft_id \<Rightarrow> draft_state \<Rightarrow> storage_error + mail_store" where
  "set_draft_state s i st =
     (if \<not> draft_exists s i then Inl (NotFound ''draft'' i)
      else
        (let s' = update_drafts (\<lambda>r. d_id (dr_draft r) = i)
               (\<lambda>r. r\<lparr>dr_draft := (dr_draft r)\<lparr>d_state := st,
                  d_rfc := (if st = Editing then None else d_rfc (dr_draft r))\<rparr>\<rparr>) s in
         Inr (update_mail (lists_draft s' i)
           (\<lambda>m. m\<lparr>mr_send_state := Some st,
                  mr_send_at := (if st = Queued then mr_send_at m else None)\<rparr>) s')))"

definition set_synced_message :: "mail_store \<Rightarrow> draft_id \<Rightarrow> message_id \<Rightarrow> storage_error + mail_store" where
  "set_synced_message s i m =
     (if \<not> draft_exists s i then Inl (NotFound ''draft'' i)
      else Inr (update_drafts (\<lambda>r. d_id (dr_draft r) = i) (\<lambda>r. r\<lparr>dr_message := Some m\<rparr>) s))"

record server_copy_location =
  sc_remote :: remote_id
  sc_uid :: nat
  sc_uid_validity :: nat

text \<open>
  The copy goes on the draft and on its list row; any other row of the account's Drafts
  mailboxes with that remote id is the sync's duplicate and goes.  \<open>boxes\<close> are the
  mailboxes of role Drafts of the draft's account.
\<close>

definition set_server_copy :: "mail_store \<Rightarrow> mailbox_id list \<Rightarrow> draft_id \<Rightarrow> server_copy_location option
    \<Rightarrow> storage_error + mail_store" where
  "set_server_copy s boxes i copy =
     (if \<not> draft_exists s i then Inl (NotFound ''draft'' i)
      else
        (let s1 = update_drafts (\<lambda>r. d_id (dr_draft r) = i)
               (\<lambda>r. r\<lparr>dr_draft := (dr_draft r)\<lparr>d_remote := map_option sc_remote copy,
                  d_uid := map_option sc_uid copy, d_uid_validity := map_option sc_uid_validity copy\<rparr>\<rparr>) s;
             s2 = (case copy of
                None \<Rightarrow> s1
              | Some c \<Rightarrow> delete_mail (\<lambda>m. mr_remote m = Some (sc_remote c) \<and> \<not> lists_draft s1 i m
                   \<and> mr_mailbox m \<in> set boxes) s1) in
         Inr (update_mail (lists_draft s2 i)
           (\<lambda>m. m\<lparr>mr_remote := map_option sc_remote copy, mr_uid := map_option sc_uid copy,
                  mr_uid_validity := map_option sc_uid_validity copy\<rparr>) s2)))"

definition by_state :: "mail_store \<Rightarrow> draft_state \<Rightarrow> draft list" where
  "by_state s st =
     sort_key (\<lambda>d. (d_updated d, d_id d)) (filter (\<lambda>d. d_state d = st) (map dr_draft (ms_drafts s)))"

end
