(* ===== verification/Rust_Str.thy ===== *)
theory Rust_Str
  imports Prelude
begin

section \<open>\<open>str\<close> and \<open>String\<close>\<close>

text \<open>
  The operations of the standard library's strings that more than one component uses.  A
  string is its UTF-8 bytes; the delimiters searched for are ASCII, which no other
  character's bytes contain.
\<close>

text \<open>\<open>split(d)\<close>, \<open>strip_prefix\<close> and \<open>join\<close>.\<close>

fun split_on :: "char \<Rightarrow> string \<Rightarrow> string list" where
  "split_on d [] = [[]]"
| "split_on d (c # cs) =
     (if c = d then [] # split_on d cs
      else (case split_on d cs of [] \<Rightarrow> [[c]] | w # ws \<Rightarrow> (c # w) # ws))"

definition strip_prefix :: "string \<Rightarrow> string \<Rightarrow> string option" where
  "strip_prefix p s = (if take (length p) s = p then Some (drop (length p) s) else None)"

fun intercalate :: "string \<Rightarrow> string list \<Rightarrow> string" where
  "intercalate s [] = []"
| "intercalate s [x] = x"
| "intercalate s (x # y # ys) = x @ s @ intercalate s (y # ys)"

definition strip_suffix :: "string \<Rightarrow> string \<Rightarrow> string option" where
  "strip_suffix p s = map_option rev (strip_prefix (rev p) (rev s))"

text \<open>\<open>split_once\<close>: before and after the first occurrence.\<close>

fun split_once :: "char \<Rightarrow> string \<Rightarrow> (string \<times> string) option" where
  "split_once d [] = None"
| "split_once d (c # cs) =
     (if c = d then Some ([], cs)
      else (case split_once d cs of None \<Rightarrow> None | Some (a, b) \<Rightarrow> Some (c # a, b)))"

definition is_digit :: "char \<Rightarrow> bool" where "is_digit c \<longleftrightarrow> 48 \<le> byte c \<and> byte c \<le> 57"

text \<open>The characters of a string: a lead byte and the continuation bytes after it.\<close>

definition is_continuation :: "char \<Rightarrow> bool" where
  "is_continuation c \<longleftrightarrow> 128 \<le> byte c \<and> byte c < 192"

function utf8_chars :: "string \<Rightarrow> string list" where
  "utf8_chars [] = []"
| "utf8_chars (c # cs) = (c # takeWhile is_continuation cs) # utf8_chars (dropWhile is_continuation cs)"
  by pat_completeness auto
termination
  by (relation "measure length") (auto simp: le_imp_less_Suc length_dropWhile_le)

text \<open>\<open>to_ascii_lowercase\<close> as a string.\<close>

definition lower_ascii :: "string \<Rightarrow> string" where
  "lower_ascii s = map (\<lambda>c. char_of (ascii_lower (byte c))) s"

text \<open>What \<open>trim_start\<close> leaves is the end of the string, and does not begin with white space.\<close>

lemma trim_start_drop: "\<exists>n\<le>length s. trim_start s = drop n s"
proof (induction s rule: trim_start.induct)
  case (1 s)
  show ?case
  proof (cases "ws_len (bytes s) = 0")
    case True
    then show ?thesis by (intro exI [of _ 0]) (simp add: trim_start_id)
  next
    case False
    from 1 [OF refl False] obtain n where n: "n \<le> length (drop (ws_len (bytes s)) s)"
      "trim_start (drop (ws_len (bytes s)) s) = drop n (drop (ws_len (bytes s)) s)" by blast
    have "ws_len (bytes s) \<le> length s" using ws_len_le [of "bytes s"] by (simp add: bytes_def)
    with n False show ?thesis
      by (intro exI [of _ "ws_len (bytes s) + n"]) (simp add: trim_start.simps [of s] Let_def add.commute)
  qed
qed

lemma trim_start_length: "length (trim_start s) \<le> length s"
  using trim_start_drop [of s] by auto

lemma trim_start_done: "ws_len (bytes (trim_start s)) = 0"
proof (induction s rule: trim_start.induct)
  case (1 s)
  show ?case
  proof (cases "ws_len (bytes s) = 0")
    case True
    then show ?thesis by (simp add: trim_start_id)
  next
    case False
    with 1 [OF refl False] show ?thesis by (simp add: trim_start.simps [of s] Let_def)
  qed
qed

text \<open>\<open>trim_matches('"')\<close>: every quote at either end.\<close>

definition trim_quotes :: "string \<Rightarrow> string" where
  "trim_quotes s = rev (dropWhile (\<lambda>c. c = CHR 0x22) (rev (dropWhile (\<lambda>c. c = CHR 0x22) s)))"

text \<open>\<open>char::is_whitespace\<close> and \<open>split_whitespace\<close>.\<close>

definition is_space :: "string \<Rightarrow> bool" where
  "is_space c \<longleftrightarrow> 0 < ws_len (bytes c)"

function split_whitespace :: "string \<Rightarrow> string list" where
  "split_whitespace s =
     (let t = trim_start s in
      if t = [] then []
      else (let w = concat (takeWhile (\<lambda>c. \<not> is_space c) (utf8_chars t)) in
            if w = [] then [t] else w # split_whitespace (drop (length w) t)))"
  by pat_completeness auto

termination
proof (relation "measure length")
  fix s t w
  assume t: "t = trim_start s" and "t \<noteq> []" and "w \<noteq> []"
  with trim_start_length [of s] show "(drop (length w) t, s) \<in> measure length"
    by (cases w; cases "trim_start s") auto
qed simp

declare split_whitespace.simps [simp del]

end
