(* ===== verification/Smtp.thy ===== *)
theory Smtp
  imports Rust_Str
begin

section \<open>Submission over SMTP\<close>

text \<open>
  \<open>crates/postio-smtp/src\<close>: the error vocabulary (\<open>error.rs\<close>), the scrubbing of
  \<open>Bcc\<close> fields (\<open>bcc.rs\<close>), the reply tap (\<open>reply.rs\<close>), the settings
  (\<open>settings.rs\<close>) and the session (\<open>session.rs\<close>), with the transport error of
  \<open>crates/postio-transport/src/lib.rs\<close>.

  The protocol coroutines are the third-party crate \<open>io-smtp\<close>: each is a parameter, a
  function of what it was resumed with so far.  A connection is the list of what each
  transport call on it returns (\<open>se_script\<close>; after its last entry the peer has closed)
  together with the log of the calls made (\<open>se_log\<close>), so every loop is recursive on the
  script.  \<open>idna\<close> and the texts only people read are parameters too.
\<close>

subsection \<open>Errors\<close>

datatype transport_error =
    TrConnect string nat string
  | TrTls string string
  | TrClosed
  | TrIo string string
  | TrTimedOut string nat
  | TrUnsupported string

datatype smtp_error =
    SmtpConfiguration string
  | SmtpDisconnected string string
  | SmtpTimedOut string nat
  | SmtpTls string string
  | SmtpAuth string nat string
  | SenderRejected string nat string
  | RecipientRejected string nat string
  | MessageRejected nat string
  | Transient nat string
  | SmtpProtocol string
  | SmtpIo string string
  | SmtpCancelled
  | Indeterminate smtp_error

fun beneath :: "smtp_error \<Rightarrow> smtp_error" where
  "beneath (Indeterminate e) = e"
| "beneath e = e"

definition smtp_is_transient :: "smtp_error \<Rightarrow> bool" where
  "smtp_is_transient e \<longleftrightarrow>
     (case beneath e of
        SmtpDisconnected _ _ \<Rightarrow> True
      | SmtpTimedOut _ _ \<Rightarrow> True
      | SmtpIo _ _ \<Rightarrow> True
      | Transient _ _ \<Rightarrow> True
      | _ \<Rightarrow> False)"

definition submission_is_indeterminate :: "smtp_error \<Rightarrow> bool" where
  "submission_is_indeterminate e \<longleftrightarrow> (case e of Indeterminate _ \<Rightarrow> True | _ \<Rightarrow> False)"

definition once_the_payload_was_on_the_wire :: "smtp_error \<Rightarrow> smtp_error" where
  "once_the_payload_was_on_the_wire e =
     (case e of
        SmtpDisconnected _ _ \<Rightarrow> Indeterminate e
      | SmtpTimedOut _ _ \<Rightarrow> Indeterminate e
      | SmtpIo _ _ \<Rightarrow> Indeterminate e
      | SmtpCancelled \<Rightarrow> Indeterminate e
      | _ \<Rightarrow> e)"

definition smtp_is_authentication_failure :: "smtp_error \<Rightarrow> bool" where
  "smtp_is_authentication_failure e \<longleftrightarrow>
     (case beneath e of SmtpAuth _ _ _ \<Rightarrow> True | _ \<Rightarrow> False)"

definition rejected_recipient :: "smtp_error \<Rightarrow> string option" where
  "rejected_recipient e = (case beneath e of RecipientRejected r _ _ \<Rightarrow> Some r | _ \<Rightarrow> None)"

text \<open>\<open>map_io\<close>: only the end of the stream is told from other I/O errors.\<close>

datatype io_kind = UnexpectedEof | OtherKind

definition map_io :: "string \<Rightarrow> io_kind \<Rightarrow> string \<Rightarrow> transport_error" where
  "map_io context kind text =
     (if kind = UnexpectedEof then TrClosed else TrIo context text)"

fun from_transport :: "transport_error \<Rightarrow> smtp_error" where
  "from_transport (TrTls h r) = SmtpTls h r"
| "from_transport TrClosed =
     SmtpDisconnected ''the SMTP session'' ''the server closed the connection''"
| "from_transport (TrConnect h p r) =
     SmtpIo (''connecting to '' @ h @ '':'' @ dec p) r"
| "from_transport (TrIo c r) = SmtpIo c r"
| "from_transport (TrTimedOut c d) = SmtpTimedOut c d"
| "from_transport (TrUnsupported r) = SmtpProtocol r"

lemmas smtp_predicates =
  smtp_is_transient_def submission_is_indeterminate_def once_the_payload_was_on_the_wire_def
  smtp_is_authentication_failure_def rejected_recipient_def


subsection \<open>\<open>bcc.rs\<close>: the header section without its \<open>Bcc\<close> fields\<close>

definition LF :: char where "LF = CHR 0x0A"
definition CR :: char where "CR = CHR 0x0D"

text \<open>The next line with its line ending, and what follows it.\<close>

fun next_line :: "string \<Rightarrow> string \<times> string" where
  "next_line [] = ([], [])"
| "next_line (c # cs) =
     (if c = LF then ([c], cs) else (let (l, r) = next_line cs in (c # l, r)))"

definition is_blank :: "string \<Rightarrow> bool" where
  "is_blank l \<longleftrightarrow> l = [CR, LF] \<or> l = [LF]"

definition starts_with_whitespace :: "string \<Rightarrow> bool" where
  "starts_with_whitespace l \<longleftrightarrow> (case l of [] \<Rightarrow> False | c # _ \<Rightarrow> byte c = 32 \<or> byte c = 9)"

definition is_ascii_ws :: "char \<Rightarrow> bool" where
  "is_ascii_ws c \<longleftrightarrow> byte c \<in> {9, 10, 12, 13, 32}"

definition trim_ascii_end :: "string \<Rightarrow> string" where
  "trim_ascii_end s = rev (dropWhile is_ascii_ws (rev s))"

definition is_bcc :: "string \<Rightarrow> bool" where
  "is_bcc l \<longleftrightarrow>
     \<not> starts_with_whitespace l
     \<and> CHR '':'' \<in> set l
     \<and> lower_bytes (trim_ascii_end (takeWhile (\<lambda>c. c \<noteq> CHR '':'') l)) = lower_bytes ''bcc''"

lemma next_line_shorter: "s \<noteq> [] \<Longrightarrow> length (snd (next_line s)) < length s"
  by (induction s) (auto simp: case_prod_unfold Let_def, fastforce)

lemma next_line_append: "fst (next_line s) @ snd (next_line s) = s"
  by (induction s) (auto simp: case_prod_unfold Let_def)

function header_lines :: "string \<Rightarrow> string list" where
  "header_lines raw =
     (if raw = [] then []
      else if is_blank (fst (next_line raw)) then []
      else fst (next_line raw) # header_lines (snd (next_line raw)))"
  by pat_completeness auto
termination by (relation "measure length") (auto intro: next_line_shorter)

text \<open>The loop of \<open>strip_bcc\<close>: what is kept, given whether a \<open>Bcc\<close> field is open.\<close>

function strip_loop :: "bool \<Rightarrow> string \<Rightarrow> string" where
  "strip_loop in_bcc raw =
     (if raw = [] then []
      else if is_blank (fst (next_line raw)) then fst (next_line raw) @ snd (next_line raw)
      else
        (let l = fst (next_line raw);
             b = (if starts_with_whitespace l then in_bcc else is_bcc l) in
         (if b then [] else l) @ strip_loop b (snd (next_line raw))))"
  by pat_completeness auto
termination by (relation "measure (length \<circ> snd)") (auto intro: next_line_shorter)

declare header_lines.simps [simp del] strip_loop.simps [simp del]

definition strip_bcc :: "string \<Rightarrow> string" where
  "strip_bcc raw = (if list_ex is_bcc (header_lines raw) then strip_loop False raw else raw)"


subsection \<open>\<open>reply.rs\<close>: a rejection's own words\<close>

record reply_tap =
  tap_pending :: string
  tap_last :: string

definition tap_new :: reply_tap where "tap_new = \<lparr>tap_pending = [], tap_last = []\<rparr>"

text \<open>The first word of a line: \<open>split_whitespace().next()\<close>.\<close>

fun until_ws :: "string \<Rightarrow> string" where
  "until_ws [] = []"
| "until_ws (c # cs) = (if ws_len (bytes (c # cs)) \<noteq> 0 then [] else c # until_ws cs)"

definition first_word :: "string \<Rightarrow> string option" where
  "first_word s = (let w = until_ws (trim_start s) in if w = [] then None else Some w)"

definition digits :: "string \<Rightarrow> bool" where
  "digits part \<longleftrightarrow> part \<noteq> [] \<and> list_all is_digit part"

definition enhanced_status :: "string \<Rightarrow> string option" where
  "enhanced_status line =
     (case first_word line of
        None \<Rightarrow> None
      | Some candidate \<Rightarrow>
          (case split_on (CHR ''.'') candidate of
             [class, subject, detail] \<Rightarrow>
               if class \<in> {''2'', ''4'', ''5''} \<and> digits subject \<and> digits detail
               then Some candidate else None
           | _ \<Rightarrow> None))"

fun join_parts :: "string option \<Rightarrow> bool \<Rightarrow> string list \<Rightarrow> string list" where
  "join_parts status first [] = []"
| "join_parts status first (line # ls) =
     (let text = trim line;
          text = (case status of
                    Some st \<Rightarrow>
                      if first then text
                      else (case strip_prefix st text of Some rest \<Rightarrow> trim_start rest | None \<Rightarrow> text)
                  | None \<Rightarrow> text) in
      (if text = [] then [] else [text]) @ join_parts status False ls)"

definition join_lines :: "string list \<Rightarrow> string" where
  "join_lines ls =
     intercalate ''; ''
       (join_parts (case ls of [] \<Rightarrow> None | l # _ \<Rightarrow> enhanced_status l) True ls)"


subsection \<open>What the session takes from other crates\<close>

text \<open>
  A coroutine of \<open>io-smtp\<close> is a function of what it was resumed with so far
  (\<open>None\<close> after a write, the bytes read after a read).  Its failures are the
  rejections the session looks at, the transport's and the rest.
\<close>

datatype client_error =
    ClientIo string
  | MailRejected nat string
  | RcptRejected nat string
  | CommandRejected nat string
  | BodyRejected nat string
  | ClientOther string

datatype co_step = WantsRead | WantsWrite string | Complete "client_error + unit"

type_synonym coroutine = "string option list \<Rightarrow> co_step"

datatype open_error =
    StartTlsOverTls string
  | StartTlsInjection string
  | AuthPlainRejected nat string
  | OpenOther string

datatype open_step =
    OpenTcp string nat
  | OpenTls string nat
  | OpenUnix string
  | OpenUpgrade
  | OpenRead
  | OpenWrite string
  | OpenDone "open_error + string list"

datatype auth_method = PasswordAuth | AppPassword | OAuth2 | XOAuth2

datatype transport_security = TlsSecurity | StartTls | NoSecurity

datatype session_transport = TlsTransport string nat | TcpTransport string nat

datatype sasl =
    Plain string string
  | Oauthbearer string string nat string
  | Xoauth2 string string

record smtp_lib =
  is_complete :: "string \<Rightarrow> bool"  \<comment> \<open>\<open>SmtpResponse::is_complete\<close>\<close>
  parse_response :: "string \<Rightarrow> (nat \<times> string list) option"  \<comment> \<open>\<open>SmtpResponse::parse\<close>\<close>
  domain_to_ascii :: "string \<Rightarrow> string option"  \<comment> \<open>\<open>idna\<close>\<close>
  parses_loopback :: "string \<Rightarrow> bool"  \<comment> \<open>an \<open>IpAddr\<close> that is loopback\<close>
  quoted :: "string \<Rightarrow> string"  \<comment> \<open>\<open>{:?}\<close> of a string\<close>
  transport_text :: "transport_error \<Rightarrow> string"  \<comment> \<open>\<open>Display\<close> of a transport error\<close>
  client_text :: "client_error \<Rightarrow> string"  \<comment> \<open>\<open>Display\<close> of a client error\<close>
  co_open :: "session_transport \<Rightarrow> sasl \<Rightarrow> bool \<Rightarrow> string option list \<Rightarrow> open_step"
  co_mail :: "string \<times> string \<Rightarrow> string list \<Rightarrow> coroutine"
  co_rcpt :: "string \<times> string \<Rightarrow> coroutine"
  co_data :: "string \<Rightarrow> coroutine"
  co_quit :: coroutine

definition tap_saw :: "smtp_lib \<Rightarrow> string \<Rightarrow> reply_tap \<Rightarrow> reply_tap" where
  "tap_saw L bs t =
     (let p = tap_pending t @ bs in
      if is_complete L p then t\<lparr>tap_pending := [], tap_last := p\<rparr> else t\<lparr>tap_pending := p\<rparr>)"

definition tap_reason :: "smtp_lib \<Rightarrow> reply_tap \<Rightarrow> nat \<Rightarrow> string option" where
  "tap_reason L t code =
     (case parse_response L (tap_last t) of
        None \<Rightarrow> None
      | Some (c, ls) \<Rightarrow>
          if c \<noteq> code then None else if 1 < length ls then Some (join_lines ls) else None)"


subsection \<open>\<open>settings.rs\<close>\<close>

record connection_settings =
  cs_host :: string
  cs_port :: nat
  cs_security :: transport_security
  cs_username :: string
  cs_auth :: auth_method

definition endpoint_of :: "connection_settings \<Rightarrow> string" where
  "endpoint_of c = cs_host c @ '':'' @ dec (cs_port c)"

definition is_loopback :: "smtp_lib \<Rightarrow> string \<Rightarrow> bool" where
  "is_loopback L host =
     (let h = dropWhile (\<lambda>c. c = CHR ''['') (trim host);
          h = rev (dropWhile (\<lambda>c. c = CHR '']'') (rev h)) in
      lower_bytes h = lower_bytes ''localhost'' \<or> parses_loopback L h)"

definition validate_settings :: "smtp_lib \<Rightarrow> connection_settings \<Rightarrow> smtp_error + unit" where
  "validate_settings L c =
     (if trim (cs_host c) = [] then
        Inl (SmtpConfiguration ''no submission host is configured for this account'')
      else if cs_security c = NoSecurity \<and> \<not> is_loopback L (cs_host c) then
        Inl (SmtpTls (cs_host c)
          ''refusing to send credentials over an unencrypted connection; use implicit TLS on 465 or STARTTLS on 587'')
      else Inr ())"


subsection \<open>The connection\<close>

datatype io_result = IoOk string | IoFails transport_error

datatype wire =
    Put string
  | PutFailed string
  | Got string
  | Connected bool  \<comment> \<open>a stream was opened, encrypted or not\<close>
  | Upgraded

record smtp_session =
  se_script :: "io_result list"
  se_log :: "wire list"
  se_encrypted :: bool
  se_replies :: reply_tap
  se_endpoint :: string
  se_account :: string
  se_caps :: "string list"

fun stream_read :: "smtp_session \<Rightarrow> (transport_error + string) \<times> smtp_session" where
  "stream_read s =
     (case se_script s of
        [] \<Rightarrow> (Inl TrClosed, s)
      | IoFails e # r \<Rightarrow> (Inl e, s\<lparr>se_script := r\<rparr>)
      | IoOk bs # r \<Rightarrow> (Inr bs, s\<lparr>se_script := r, se_log := se_log s @ [Got bs]\<rparr>))"

fun stream_write :: "string \<Rightarrow> smtp_session \<Rightarrow> (transport_error + unit) \<times> smtp_session" where
  "stream_write bs s =
     (case se_script s of
        [] \<Rightarrow> (Inl TrClosed, s\<lparr>se_log := se_log s @ [PutFailed bs]\<rparr>)
      | IoFails e # r \<Rightarrow> (Inl e, s\<lparr>se_script := r, se_log := se_log s @ [PutFailed bs]\<rparr>)
      | IoOk _ # r \<Rightarrow> (Inr (), s\<lparr>se_script := r, se_log := se_log s @ [Put bs]\<rparr>))"

definition saw :: "smtp_lib \<Rightarrow> string \<Rightarrow> smtp_session \<Rightarrow> smtp_session" where
  "saw L bs s = s\<lparr>se_replies := tap_saw L bs (se_replies s)\<rparr>"

lemma stream_shorter:
  "stream_read s = (Inr bs, s') \<Longrightarrow> length (se_script s') < length (se_script s)"
  "stream_write b s = (Inr u, s') \<Longrightarrow> length (se_script s') < length (se_script s)"
  by (auto split: list.splits io_result.splits)

lemma saw_script [simp]: "se_script (saw L bs s) = se_script s" "se_log (saw L bs s) = se_log s"
  by (simp_all add: saw_def)

declare stream_read.simps [simp del] stream_write.simps [simp del]
end
