(* ===== verification/Smtp_Session.thy ===== *)
theory Smtp_Session
  imports Smtp
begin

section \<open>The SMTP session\<close>

text \<open>
  \<open>crates/postio-smtp/src/session.rs\<close>: opening a session, one mail transaction and
  \<open>QUIT\<close>.  A session is the connection's script and log with what the session keeps;
  the coroutines and the transport are driven exactly as the code's loops do.
  \<open>payload_begun\<close> reads off the log what ADR 0021 asks: whether anything was written
  after the server's answer to \<open>DATA\<close>.
\<close>

subsection \<open>Driving a coroutine\<close>

text \<open>\<open>run\<close>: until the coroutine completes; a transport error becomes an I/O error.\<close>

function run_co :: "smtp_lib \<Rightarrow> coroutine \<Rightarrow> string option list \<Rightarrow> smtp_session
    \<Rightarrow> (client_error + unit) \<times> smtp_session" where
  "run_co L co h s =
     (case co h of
        Complete r \<Rightarrow> (r, s)
      | WantsRead \<Rightarrow>
          (case stream_read s of
             (Inl e, s') \<Rightarrow> (Inl (ClientIo (transport_text L e)), s')
           | (Inr bs, s') \<Rightarrow> run_co L co (h @ [Some bs]) (saw L bs s'))
      | WantsWrite b \<Rightarrow>
          (case stream_write b s of
             (Inl e, s') \<Rightarrow> (Inl (ClientIo (transport_text L e)), s')
           | (Inr _, s') \<Rightarrow> run_co L co (h @ [None]) s'))"
  by pat_completeness auto
termination
  by (relation "measure (\<lambda>(L, co, h, s). length (se_script s))")
    (auto dest: stream_shorter [OF sym] stream_shorter)

declare run_co.simps [simp del]

definition smtp_run :: "smtp_lib \<Rightarrow> coroutine \<Rightarrow> smtp_session \<Rightarrow> (client_error + unit) \<times> smtp_session" where
  "smtp_run L co s = run_co L co [None] s"


subsection \<open>Addresses\<close>

definition smtputf8 :: string where "smtputf8 = ''SMTPUTF8''"

definition local_part_needs_utf8 :: "string \<Rightarrow> bool" where
  "local_part_needs_utf8 address =
     (\<not> list_all (\<lambda>c. byte c < 128)
          (case split_once (CHR ''@'') address of Some (local, _) \<Rightarrow> local | None \<Rightarrow> address))"

text \<open>
  A control character is U+0000 to U+001F, U+007F or U+0080 to U+009F (two bytes in UTF-8);
  white space is what \<open>trim\<close> strips.
\<close>

definition is_control_at :: "string \<Rightarrow> bool" where
  "is_control_at s \<longleftrightarrow>
     (case bytes s of
        [] \<Rightarrow> False
      | a # r \<Rightarrow> a < 32 \<or> a = 127
          \<or> (a = 0xC2 \<and> (case r of [] \<Rightarrow> False | b # _ \<Rightarrow> 0x80 \<le> b \<and> b \<le> 0x9F)))"

fun is_safe_address_component :: "string \<Rightarrow> bool" where
  "is_safe_address_component [] = True"
| "is_safe_address_component (c # cs) =
     (\<not> is_control_at (c # cs) \<and> ws_len (bytes (c # cs)) = 0
      \<and> c \<noteq> CHR ''<'' \<and> c \<noteq> CHR ''>'' \<and> is_safe_address_component cs)"

definition parse_mailbox :: "smtp_lib \<Rightarrow> string \<Rightarrow> smtp_error + (string \<times> string)" where
  "parse_mailbox L address =
     (let invalid = SmtpConfiguration (quoted L address @ '' is not a usable email address'') in
      case split_once (CHR ''@'') address of
        None \<Rightarrow> Inl invalid
      | Some (local, domain) \<Rightarrow>
          if local = [] \<or> domain = [] then Inl invalid
          else if \<not> is_safe_address_component local \<or> \<not> is_safe_address_component domain
          then Inl invalid
          else (case domain_to_ascii L domain of
                  None \<Rightarrow> Inl invalid
                | Some d \<Rightarrow> Inr (local, d)))"


subsection \<open>Error mapping\<close>

definition classify :: "smtp_lib \<Rightarrow> reply_tap \<Rightarrow> nat \<Rightarrow> string \<Rightarrow> (nat \<Rightarrow> string \<Rightarrow> smtp_error) \<Rightarrow> smtp_error" where
  "classify L replies code message permanent =
     (let reason = (case tap_reason L replies code of Some r \<Rightarrow> r | None \<Rightarrow> message) in
      if code div 100 = 4 then Transient code reason else permanent code reason)"

definition map_transport_error :: "smtp_lib \<Rightarrow> string \<Rightarrow> client_error \<Rightarrow> smtp_error" where
  "map_transport_error L command e =
     (case e of
        ClientIo r \<Rightarrow> SmtpIo command r
      | other \<Rightarrow> SmtpProtocol (command @ '': '' @ client_text L other))"

definition map_mail_error :: "smtp_lib \<Rightarrow> string \<Rightarrow> reply_tap \<Rightarrow> client_error \<Rightarrow> smtp_error" where
  "map_mail_error L sender replies e =
     (case e of
        MailRejected code message \<Rightarrow> classify L replies code message (SenderRejected sender)
      | other \<Rightarrow> map_transport_error L ''MAIL FROM'' other)"

definition map_rcpt_error :: "smtp_lib \<Rightarrow> string \<Rightarrow> reply_tap \<Rightarrow> client_error \<Rightarrow> smtp_error" where
  "map_rcpt_error L recipient replies e =
     (case e of
        RcptRejected code message \<Rightarrow> classify L replies code message (RecipientRejected recipient)
      | other \<Rightarrow> map_transport_error L ''RCPT TO'' other)"

definition map_data_error :: "smtp_lib \<Rightarrow> reply_tap \<Rightarrow> client_error \<Rightarrow> smtp_error" where
  "map_data_error L replies e =
     (case e of
        CommandRejected code message \<Rightarrow> classify L replies code message MessageRejected
      | BodyRejected code message \<Rightarrow> classify L replies code message MessageRejected
      | other \<Rightarrow> map_transport_error L ''DATA'' other)"

definition map_open_error :: "smtp_lib \<Rightarrow> connection_settings \<Rightarrow> reply_tap \<Rightarrow> open_error \<Rightarrow> smtp_error" where
  "map_open_error L c replies e =
     (case e of
        StartTlsOverTls text \<Rightarrow> SmtpTls (cs_host c) text
      | StartTlsInjection text \<Rightarrow> SmtpTls (cs_host c) text
      | AuthPlainRejected code message \<Rightarrow>
          classify L replies code message (SmtpAuth (cs_username c))
      | OpenOther text \<Rightarrow> SmtpProtocol text)"


subsection \<open>Opening a session\<close>

text \<open>\<open>to_ascii_uppercase\<close>: only the bytes a to z change.\<close>

definition upper :: "string \<Rightarrow> string" where
  "upper s = map (\<lambda>c. if 97 \<le> byte c \<and> byte c \<le> 122 then char_of (byte c - 32) else c) s"

definition sasl_for :: "connection_settings \<Rightarrow> string \<Rightarrow> sasl" where
  "sasl_for c password =
     (case cs_auth c of
        PasswordAuth \<Rightarrow> Plain (cs_username c) password
      | AppPassword \<Rightarrow> Plain (cs_username c) password
      | OAuth2 \<Rightarrow> Oauthbearer (cs_username c) (cs_host c) (cs_port c) password
      | XOAuth2 \<Rightarrow> Xoauth2 (cs_username c) password)"

definition no_stream :: smtp_error where
  "no_stream = SmtpProtocol ''the SMTP session asked for I/O before it asked for a connection''"

text \<open>
  The connector's calls take the next entry of the script too.  \<open>have\<close> is whether a
  stream is held: reading, writing or upgrading without one is \<open>no_stream\<close>.
\<close>

fun connect_call :: "bool \<Rightarrow> smtp_session \<Rightarrow> (transport_error + unit) \<times> smtp_session" where
  "connect_call enc s =
     (case se_script s of
        [] \<Rightarrow> (Inl TrClosed, s)
      | IoFails e # r \<Rightarrow> (Inl e, s\<lparr>se_script := r\<rparr>)
      | IoOk _ # r \<Rightarrow>
          (Inr (), s\<lparr>se_script := r, se_encrypted := enc, se_log := se_log s @ [Connected enc]\<rparr>))"

fun upgrade_call :: "smtp_session \<Rightarrow> (transport_error + unit) \<times> smtp_session" where
  "upgrade_call s =
     (case se_script s of
        [] \<Rightarrow> (Inl TrClosed, s)
      | IoFails e # r \<Rightarrow> (Inl e, s\<lparr>se_script := r\<rparr>)
      | IoOk _ # r \<Rightarrow>
          (Inr (), s\<lparr>se_script := r, se_encrypted := True, se_log := se_log s @ [Upgraded]\<rparr>))"

lemma call_shorter:
  "connect_call enc s = (Inr u, s') \<Longrightarrow> length (se_script s') < length (se_script s)"
  "upgrade_call s = (Inr u, s') \<Longrightarrow> length (se_script s') < length (se_script s)"
  by (auto split: list.splits io_result.splits)

declare connect_call.simps [simp del] upgrade_call.simps [simp del]

function open_loop :: "smtp_lib \<Rightarrow> connection_settings \<Rightarrow> (string option list \<Rightarrow> open_step)
    \<Rightarrow> bool \<Rightarrow> string option list \<Rightarrow> smtp_session \<Rightarrow> (smtp_error + string list) \<times> smtp_session" where
  "open_loop L c co have_stream h s =
     (case co h of
        OpenDone (Inr caps) \<Rightarrow> (Inr (map upper caps), s)
      | OpenDone (Inl e) \<Rightarrow> (Inl (map_open_error L c (se_replies s) e), s)
      | OpenTcp _ _ \<Rightarrow>
          (case connect_call False s of
             (Inl e, s') \<Rightarrow> (Inl (from_transport e), s')
           | (Inr _, s') \<Rightarrow> open_loop L c co True (h @ [None]) s')
      | OpenTls _ _ \<Rightarrow>
          (case connect_call True s of
             (Inl e, s') \<Rightarrow> (Inl (from_transport e), s')
           | (Inr _, s') \<Rightarrow> open_loop L c co True (h @ [None]) s')
      | OpenUnix _ \<Rightarrow>
          (case connect_call False s of
             (Inl e, s') \<Rightarrow> (Inl (from_transport e), s')
           | (Inr _, s') \<Rightarrow> open_loop L c co True (h @ [None]) s')
      | OpenUpgrade \<Rightarrow>
          if \<not> have_stream then (Inl no_stream, s)
          else (case upgrade_call s of
             (Inl e, s') \<Rightarrow> (Inl (from_transport e), s')
           | (Inr _, s') \<Rightarrow> open_loop L c co True (h @ [None]) s')
      | OpenRead \<Rightarrow>
          if \<not> have_stream then (Inl no_stream, s)
          else (case stream_read s of
             (Inl e, s') \<Rightarrow> (Inl (from_transport e), s')
           | (Inr bs, s') \<Rightarrow> open_loop L c co True (h @ [Some bs]) (saw L bs s'))
      | OpenWrite b \<Rightarrow>
          if \<not> have_stream then (Inl no_stream, s)
          else (case stream_write b s of
             (Inl e, s') \<Rightarrow> (Inl (from_transport e), s')
           | (Inr _, s') \<Rightarrow> open_loop L c co True (h @ [None]) s'))"
  by pat_completeness auto
termination
  by (relation "measure (\<lambda>(L, c, co, b, h, s). length (se_script s))")
    (auto dest: stream_shorter [OF sym] call_shorter [OF sym] stream_shorter call_shorter)

declare open_loop.simps [simp del]

definition session_start :: "connection_settings \<Rightarrow> io_result list \<Rightarrow> smtp_session" where
  "session_start c script =
     \<lparr>se_script = script, se_log = [], se_encrypted = False, se_replies = tap_new,
      se_endpoint = endpoint_of c, se_account = cs_username c, se_caps = []\<rparr>"

definition session_transport_of :: "connection_settings \<Rightarrow> session_transport" where
  "session_transport_of c =
     (case cs_security c of
        TlsSecurity \<Rightarrow> TlsTransport (cs_host c) (cs_port c)
      | StartTls \<Rightarrow> TcpTransport (cs_host c) (cs_port c)
      | NoSecurity \<Rightarrow> TcpTransport (cs_host c) (cs_port c))"

definition open_session :: "smtp_lib \<Rightarrow> connection_settings \<Rightarrow> string \<Rightarrow> io_result list
    \<Rightarrow> (smtp_error + unit) \<times> smtp_session" where
  "open_session L c password script =
     (let s = session_start c script in
      case validate_settings L c of
        Inl e \<Rightarrow> (Inl e, s)
      | Inr _ \<Rightarrow>
          (case open_loop L c
                  (co_open L (session_transport_of c) (sasl_for c password) (cs_security c = StartTls))
                  False [None] s of
             (Inl e, s') \<Rightarrow> (Inl e, s')
           | (Inr caps, s') \<Rightarrow>
               if \<not> list_ex (\<lambda>w. case w of Connected _ \<Rightarrow> True | _ \<Rightarrow> False) (se_log s')
               then (Inl no_stream, s')
               else (Inr (), s'\<lparr>se_caps := caps\<rparr>)))"

definition supports :: "smtp_session \<Rightarrow> string \<Rightarrow> bool" where
  "supports s keyword = list_ex (\<lambda>a. first_word a = Some (upper keyword)) (se_caps s)"


subsection \<open>One mail transaction\<close>

definition tag_error :: "bool \<Rightarrow> smtp_error \<Rightarrow> smtp_error" where
  "tag_error payload_begun e =
     (if payload_begun then once_the_payload_was_on_the_wire e else e)"

function payload_loop :: "smtp_lib \<Rightarrow> coroutine \<Rightarrow> bool \<Rightarrow> bool \<Rightarrow> string option list \<Rightarrow> smtp_session
    \<Rightarrow> (smtp_error + unit) \<times> smtp_session" where
  "payload_loop L co answered begun h s =
     (case co h of
        Complete (Inr _) \<Rightarrow> (Inr (), s)
      | Complete (Inl e) \<Rightarrow> (Inl (tag_error begun (map_data_error L (se_replies s) e)), s)
      | WantsRead \<Rightarrow>
          (case stream_read s of
             (Inl e, s') \<Rightarrow> (Inl (tag_error begun (from_transport e)), s')
           | (Inr bs, s') \<Rightarrow> payload_loop L co True begun (h @ [Some bs]) (saw L bs s'))
      | WantsWrite b \<Rightarrow>
          (case stream_write b s of
             (Inl e, s') \<Rightarrow> (Inl (tag_error (begun \<or> answered) (from_transport e)), s')
           | (Inr _, s') \<Rightarrow> payload_loop L co answered (begun \<or> answered) (h @ [None]) s'))"
  by pat_completeness auto
termination
  by (relation "measure (\<lambda>(L, co, a, b, h, s). length (se_script s))")
    (auto dest: stream_shorter [OF sym] stream_shorter)

declare payload_loop.simps [simp del]

definition send_payload :: "smtp_lib \<Rightarrow> string \<Rightarrow> smtp_session \<Rightarrow> (smtp_error + unit) \<times> smtp_session" where
  "send_payload L raw s = payload_loop L (co_data L raw) False False [None] s"

text \<open>
  \<open>cancelled n\<close> is what \<open>is_cancelled\<close> answers the \<open>n\<close>-th time this call asks.
\<close>

fun send_rcpts :: "smtp_lib \<Rightarrow> (nat \<Rightarrow> bool) \<Rightarrow> nat \<Rightarrow> string list \<Rightarrow> smtp_session
    \<Rightarrow> (smtp_error + unit) \<times> smtp_session" where
  "send_rcpts L cancelled n [] s = (Inr (), s)"
| "send_rcpts L cancelled n (recipient # rest) s =
     (if cancelled n then (Inl SmtpCancelled, s)
      else (case parse_mailbox L recipient of
              Inl e \<Rightarrow> (Inl e, s)
            | Inr path \<Rightarrow>
                (case smtp_run L (co_rcpt L path) s of
                   (Inl e, s') \<Rightarrow> (Inl (map_rcpt_error L recipient (se_replies s') e), s')
                 | (Inr _, s') \<Rightarrow> send_rcpts L cancelled (Suc n) rest s')))"

text \<open>\<open>MAIL FROM\<close> with its parameters, then one \<open>RCPT TO\<close> for each recipient.\<close>

definition send_mail_rcpts :: "smtp_lib \<Rightarrow> (nat \<Rightarrow> bool) \<Rightarrow> string \<Rightarrow> string list \<Rightarrow> string list
    \<Rightarrow> smtp_session \<Rightarrow> (smtp_error + unit) \<times> smtp_session" where
  "send_mail_rcpts L cancelled sender to parameters s =
     (case parse_mailbox L sender of
        Inl e \<Rightarrow> (Inl e, s)
      | Inr path \<Rightarrow>
          (case smtp_run L (co_mail L path parameters) s of
             (Inl e, s') \<Rightarrow> (Inl (map_mail_error L sender (se_replies s') e), s')
           | (Inr _, s') \<Rightarrow> send_rcpts L cancelled 1 to s'))"

definition send_envelope :: "smtp_lib \<Rightarrow> (nat \<Rightarrow> bool) \<Rightarrow> string \<Rightarrow> string list \<Rightarrow> smtp_session
    \<Rightarrow> (smtp_error + unit) \<times> smtp_session" where
  "send_envelope L cancelled sender to s =
     (let needs_utf8 = find local_part_needs_utf8 (sender # to) in
      case needs_utf8 of
        Some address \<Rightarrow>
          if \<not> supports s smtputf8 then
            (Inl (SmtpConfiguration (address
              @ '' has a non-ASCII local part, and this server did not offer SMTPUTF8 - it cannot carry that address'')), s)
          else send_mail_rcpts L cancelled sender to [smtputf8] s
      | None \<Rightarrow> send_mail_rcpts L cancelled sender to [] s)"

definition send_message :: "smtp_lib \<Rightarrow> (nat \<Rightarrow> bool) \<Rightarrow> string \<Rightarrow> string list \<Rightarrow> string \<Rightarrow> smtp_session
    \<Rightarrow> (smtp_error + unit) \<times> smtp_session" where
  "send_message L cancelled sender to raw s =
     (if cancelled 0 then (Inl SmtpCancelled, s)
      else if to = [] then
        (Inl (SmtpConfiguration ''a message needs at least one recipient''), s)
      else (case send_envelope L cancelled sender to s of
              (Inl e, s') \<Rightarrow> (Inl e, s')
            | (Inr _, s') \<Rightarrow>
                if cancelled (Suc (length to)) then (Inl SmtpCancelled, s')
                else send_payload L (strip_bcc raw) s'))"

definition smtp_quit :: "smtp_lib \<Rightarrow> smtp_session \<Rightarrow> (smtp_error + unit) \<times> smtp_session" where
  "smtp_quit L s =
     (case smtp_run L (co_quit L) s of
        (Inl e, s') \<Rightarrow> (Inl (map_transport_error L ''QUIT'' e), s')
      | (Inr _, s') \<Rightarrow> (Inr (), s'))"

end
