(* ===== verification/Send.thy ===== *)
theory Send
  imports Drafts Drain Smtp_Session
begin

section \<open>Sending a draft\<close>

text \<open>
  \<open>crates/postio-sync/src/send.rs\<close>: what a \<open>Send\<close> row becomes
  (\<open>resolve_send\<close>), the submission with the writes around it, and the reconciliation of
  unconfirmed sends; \<open>with_credential\<close> of \<open>crates/postio-account/src/auth.rs\<close>.

  The worker's steps are apart (\<open>worker_step\<close>): between any two of them the rest of the
  program may write the store, and the program may end.  \<open>send_job_run\<close> runs them without
  interference, as the drainer does when nobody else writes.  Building the message
  (\<open>outgoing.rs\<close>), reading its \<open>Message-ID\<close> back (\<open>mime.rs\<close>) and the blob store
  are parameters; labels, reminders, contacts and the conversation of the sent copy are not
  modelled: they are best-effort writes to other tables.
\<close>

subsection \<open>What it reads\<close>

record identity =
  id_id :: int
  id_address :: string
  id_is_default :: bool

record account_info =
  ac_id :: account_id
  ac_address :: string
  ac_outgoing :: connection_settings
  ac_identities :: "identity list"

definition default_identity :: "account_info \<Rightarrow> identity option" where
  "default_identity a =
     (case find id_is_default (ac_identities a) of
        Some i \<Rightarrow> Some i
      | None \<Rightarrow> (case ac_identities a of [] \<Rightarrow> None | i # _ \<Rightarrow> Some i))"

definition sending_identity :: "account_info \<Rightarrow> draft \<Rightarrow> identity option" where
  "sending_identity a d =
     (case Option.bind (d_identity d) (\<lambda>i. find (\<lambda>x. id_id x = i) (ac_identities a)) of
        Some i \<Rightarrow> Some i
      | None \<Rightarrow> default_identity a)"

record send_lib =
  sl_smtp :: smtp_lib
  sl_smtp_text :: "smtp_error \<Rightarrow> string"
  sl_secret_text :: "secret_error \<Rightarrow> string"
  sl_storage_text :: "storage_error \<Rightarrow> string"
  sl_account :: "account_id \<Rightarrow> account_info option"
  sl_label :: "int \<Rightarrow> (account_id \<times> string) option"
  sl_blob :: "blob_id \<Rightarrow> sync_error + string"
  sl_describe :: "draft \<Rightarrow> string"  \<comment> \<open>the attachment a message names\<close>
  sl_build :: "draft \<Rightarrow> identity \<Rightarrow> string list \<Rightarrow> string"  \<comment> \<open>\<open>outgoing::build\<close>\<close>
  sl_message_id_of :: "string \<Rightarrow> string option"  \<comment> \<open>\<open>mime::parse\<close>\<close>

record send_job =
  sj_draft :: draft_id
  sj_account :: account_id
  sj_account_address :: string
  sj_outgoing :: connection_settings
  sj_from :: string
  sj_recipients :: "string list"
  sj_raw :: string
  sj_sent_mailbox :: mailbox_id
  sj_sent_path :: string
  sj_drafts_copy :: "(mailbox_id \<times> string \<times> remote_id) option"
  sj_labels :: "(int \<times> string) list"

definition indeterminate_text :: string where
  "indeterminate_text =
     ''this send was interrupted while it was being submitted, so it may or may not have arrived''
     @ em_dash @ ''Postio will not send it again on its own''"

text \<open>The attachments, all of them, in order; the first that fails ends it.\<close>

fun read_attachments :: "send_lib \<Rightarrow> draft \<Rightarrow> blob_id option list \<Rightarrow> sync_error + (string + string list)" where
  "read_attachments L d [] = Inr (Inr [])"
| "read_attachments L d (None # bs) =
     Inr (Inl (''the attachment '' @ sl_describe L d @ '' was never finished being written to this machine''))"
| "read_attachments L d (Some b # bs) =
     (case sl_blob L b of
        Inl e \<Rightarrow> Inl e
      | Inr c \<Rightarrow>
          (case read_attachments L d bs of
             Inl e \<Rightarrow> Inl e
           | Inr (Inl r) \<Rightarrow> Inr (Inl r)
           | Inr (Inr cs) \<Rightarrow> Inr (Inr (c # cs))))"

definition job_labels :: "send_lib \<Rightarrow> account_id \<Rightarrow> draft \<Rightarrow> (int \<times> string) list" where
  "job_labels L account d =
     List.map_filter
       (\<lambda>i. case sl_label L i of Some (a, n) \<Rightarrow> if a = account then Some (i, n) else None | None \<Rightarrow> None)
       (d_labels d)"

definition job_for :: "send_lib \<Rightarrow> mail_store \<Rightarrow> draft \<Rightarrow> account_info \<Rightarrow> identity \<Rightarrow> string list
    \<Rightarrow> (mailbox_id \<times> string) \<Rightarrow> send_job" where
  "job_for L s d a i contents sent =
     \<lparr>sj_draft = d_id d, sj_account = ac_id a, sj_account_address = ac_address a,
      sj_outgoing = ac_outgoing a, sj_from = id_address i, sj_recipients = all_recipients d,
      sj_raw = sl_build L d i contents, sj_sent_mailbox = fst sent, sj_sent_path = snd sent,
      sj_drafts_copy = (case d_remote d of
         Some copy \<Rightarrow> map_option (\<lambda>(box, path). (box, path, copy)) (ms_boxes s (ac_id a) Drafts)
       | None \<Rightarrow> None),
      sj_labels = job_labels L (ac_id a) d\<rparr>"

definition resolve_sendable :: "send_lib \<Rightarrow> mail_store \<Rightarrow> draft \<Rightarrow> sync_error + send_job looked_up" where
  "resolve_sendable L s d =
     (if \<not> has_recipients d then Inr (JobImpossible ''the draft has no recipients'')
      else (case sl_account L (d_account d) of
        None \<Rightarrow> Inr (JobImpossible ''the account is no longer in the local store'')
      | Some a \<Rightarrow>
          (case sending_identity a d of
             None \<Rightarrow> Inr (JobImpossible ''the account has no identity to send as'')
           | Some i \<Rightarrow>
               (case read_attachments L d (d_attachments d) of
                  Inl e \<Rightarrow> Inl e
                | Inr (Inl reason) \<Rightarrow> Inr (JobImpossible reason)
                | Inr (Inr contents) \<Rightarrow>
                    (case ms_boxes s (ac_id a) Sent of
                       None \<Rightarrow> Inr (JobImpossible ''this account has no Sent mailbox yet'')
                     | Some sent \<Rightarrow> Inr (JobReady (job_for L s d a i contents sent)))))))"

definition resolve_send :: "send_lib \<Rightarrow> bool \<Rightarrow> mail_store \<Rightarrow> draft_id
    \<Rightarrow> mail_store \<times> (sync_error + send_job looked_up)" where
  "resolve_send L has_smtp s i =
     (if \<not> has_smtp then (s, Inr (JobImpossible ''no SMTP transport is configured''))
      else (case get_draft s i of
        None \<Rightarrow> (s, Inr (JobObsolete ''the draft is no longer in the local store''))
      | Some d \<Rightarrow>
          if d_state d = DraftSent then
            (s, Inr (JobObsolete ''the submission server already accepted this message''))
          else if d_state d = Sending \<or> d_state d = Unconfirmed then
            (if d_state d = Sending then
               (case set_draft_state s (d_id d) Unconfirmed of
                  Inl e \<Rightarrow> (s, Inl (StorageError e))
                | Inr s' \<Rightarrow> (s', Inr (JobUncertain indeterminate_text)))
             else (s, Inr (JobUncertain indeterminate_text)))
          else (s, resolve_sendable L s d)))"


subsection \<open>The sent copy\<close>

definition filed_row :: "send_lib \<Rightarrow> send_job \<Rightarrow> uid_mapping option \<Rightarrow> message_id \<Rightarrow> mail_row" where
  "filed_row L job mapping i =
     \<lparr>mr_id = i, mr_account = sj_account job, mr_mailbox = sj_sent_mailbox job,
      mr_rfc = sl_message_id_of L (sj_raw job),
      mr_remote = map_option um_destination_remote_id mapping,
      mr_uid = map_option um_destination mapping,
      mr_uid_validity = map_option um_uid_validity mapping,
      mr_send_state = None, mr_send_at = None\<rparr>"

definition file_sent_locally :: "send_lib \<Rightarrow> mail_store \<Rightarrow> send_job \<Rightarrow> mail_store \<times> message_id" where
  "file_sent_locally L s job = create_mail (filed_row L job None) s"

definition unfile_sent_copy :: "mail_store \<Rightarrow> message_id \<Rightarrow> mail_store" where
  "unfile_sent_copy s i = delete_mail (\<lambda>m. mr_id m = i) s"

text \<open>What the rest of the world answers to one send.\<close>

record send_answers =
  sa_token :: "secret_error + string"
  sa_token2 :: "secret_error + string"  \<comment> \<open>after \<open>invalidate\<close>\<close>
  sa_script :: "io_result list"
  sa_script2 :: "io_result list"
  sa_append :: "backend_error + uid_mapping option"
  sa_capabilities :: "backend_error + capabilities"
  sa_store_flags :: "backend_error + nat"
  sa_expunge :: "backend_error + unit"

datatype removal = Removed | Marked | Gone

definition remove_copy :: "capabilities \<Rightarrow> send_answers \<Rightarrow> backend_error + removal" where
  "remove_copy caps A =
     (case sa_store_flags A of
        Inl e \<Rightarrow> Inl e
      | Inr updated \<Rightarrow>
          if updated = 0 then Inr Gone
          else if \<not> caps_contains caps UidPlus then Inr Marked
          else (case sa_expunge A of Inl e \<Rightarrow> Inl e | Inr _ \<Rightarrow> Inr Removed))"

definition remove_drafts_copy :: "send_answers \<Rightarrow> mailbox_id list \<Rightarrow> send_job \<Rightarrow> mailbox_id list" where
  "remove_drafts_copy A resync job =
     (case sj_drafts_copy job of
        None \<Rightarrow> resync
      | Some (box, path, copy) \<Rightarrow>
          (case sa_capabilities A of
             Inl _ \<Rightarrow> resync_insert box resync
           | Inr caps \<Rightarrow>
               (case remove_copy caps A of
                  Inr Removed \<Rightarrow> resync
                | Inr Gone \<Rightarrow> resync
                | _ \<Rightarrow> resync_insert box resync)))"

text \<open>The appended copy's coordinates go on the filed row; without one, the row is made now.\<close>

definition attach_or_file :: "send_lib \<Rightarrow> mail_store \<Rightarrow> mailbox_id list \<Rightarrow> send_job \<Rightarrow> uid_mapping option
    \<Rightarrow> message_id option \<Rightarrow> mail_store \<times> mailbox_id list" where
  "attach_or_file L s resync job mapping filed =
     (case filed of
        None \<Rightarrow> (fst (create_mail (filed_row L job mapping) s), resync)
      | Some i \<Rightarrow>
          if mapping = None then (s, resync)
          else if list_ex (\<lambda>r. mr_id r = i) (ms_mail s) then
            (update_mail (\<lambda>r. mr_id r = i)
               (\<lambda>r. (filed_row L job mapping i)\<lparr>mr_send_state := mr_send_state r,
                  mr_send_at := mr_send_at r\<rparr>) s, resync)
          else (s, resync_insert (sj_sent_mailbox job) resync))"

definition confirm_sent_copy :: "send_lib \<Rightarrow> send_answers \<Rightarrow> mail_store \<Rightarrow> mailbox_id list \<Rightarrow> send_job
    \<Rightarrow> message_id option \<Rightarrow> mail_store \<times> mailbox_id list" where
  "confirm_sent_copy L A s resync job filed =
     (let mapping = (case sa_append A of Inr m \<Rightarrow> m | Inl _ \<Rightarrow> None);
          resync = (if mapping = None then resync_insert (sj_sent_mailbox job) resync else resync);
          copied = attach_or_file L s resync job mapping filed
      in (fst (delete_draft (fst copied) (sj_draft job)), remove_drafts_copy A (snd copied) job))"


subsection \<open>Submitting\<close>

text \<open>
  \<open>with_credential\<close>: a refused credential is invalidated and asked for once more; a
  second, different one gets a second attempt.
\<close>

definition with_credential :: "(smtp_error \<Rightarrow> bool) \<Rightarrow> secret_error + string \<Rightarrow> secret_error + string
    \<Rightarrow> (string \<Rightarrow> smtp_error + 's) \<Rightarrow> (string \<Rightarrow> smtp_error + 's) \<Rightarrow> secret_error + (smtp_error + 's)" where
  "with_credential rejected token token2 attempt attempt2 =
     (case token of
        Inl e \<Rightarrow> Inl e
      | Inr credential \<Rightarrow>
          (case attempt credential of
             Inr v \<Rightarrow> Inr (Inr v)
           | Inl e \<Rightarrow>
               if \<not> rejected e then Inr (Inl e)
               else (case token2 of
                  Inl e2 \<Rightarrow> Inl e2
                | Inr refreshed \<Rightarrow>
                    if refreshed = credential then Inr (Inl e) else Inr (attempt2 refreshed))))"

definition outcome_from_smtp_error :: "send_lib \<Rightarrow> smtp_error \<Rightarrow> outcome" where
  "outcome_from_smtp_error L e =
     (if smtp_is_transient e then Retry (sl_smtp_text L e) None
      else FailedOutcome (sl_smtp_text L e))"

definition opened_session :: "(smtp_error + unit) \<times> smtp_session \<Rightarrow> smtp_error + smtp_session" where
  "opened_session r = (case r of (Inl e, _) \<Rightarrow> Inl e | (Inr _, s) \<Rightarrow> Inr s)"

definition open_for_job :: "send_lib \<Rightarrow> send_answers \<Rightarrow> send_job \<Rightarrow> outcome + smtp_session" where
  "open_for_job L A job =
     (case with_credential smtp_is_authentication_failure (sa_token A) (sa_token2 A)
        (\<lambda>c. opened_session (open_session (sl_smtp L) (sj_outgoing job) c (sa_script A)))
        (\<lambda>c. opened_session (open_session (sl_smtp L) (sj_outgoing job) c (sa_script2 A))) of
        Inr (Inr session) \<Rightarrow> Inr session
      | Inr (Inl e) \<Rightarrow> Inl (outcome_from_smtp_error L e)
      | Inl e \<Rightarrow> Inl (FailedOutcome (''could not read the credential for ''
            @ sj_account_address job @ '': '' @ sl_secret_text L e)))"

text \<open>
  The worker between two of its awaits: the job resolved, the message filed, the session
  open and the draft marked, the answer in, the acceptance recorded, the submission over,
  and the outcome on its way to the drainer.
\<close>

datatype worker =
    Idle
  | Resolved send_job
  | Filed send_job message_id
  | Submitting send_job message_id smtp_session
  | Answered send_job message_id "smtp_error + unit"
  | Accepted send_job message_id
  | Submitted send_job message_id outcome
  | Finished send_job outcome
  | Unresolved draft_id

text \<open>\<open>release\<close> and the marks after the answer ignore their failure.\<close>

definition mark_or_keep :: "mail_store \<Rightarrow> draft_id \<Rightarrow> draft_state \<Rightarrow> mail_store" where
  "mark_or_keep s i st = (case set_draft_state s i st of Inr s' \<Rightarrow> s' | Inl _ \<Rightarrow> s)"

definition is_failed :: "outcome \<Rightarrow> bool" where
  "is_failed out = (case out of FailedOutcome _ \<Rightarrow> True | _ \<Rightarrow> False)"

fun worker_step :: "send_lib \<Rightarrow> send_answers \<Rightarrow> mail_store \<Rightarrow> mailbox_id list \<Rightarrow> worker
    \<Rightarrow> mail_store \<times> mailbox_id list \<times> worker" where
  "worker_step L A s resync Idle = (s, resync, Idle)"
| "worker_step L A s resync (Resolved job) =
     (let (s', i) = file_sent_locally L s job in (s', resync, Filed job i))"
| "worker_step L A s resync (Filed job i) =
     (case open_for_job L A job of
        Inl out \<Rightarrow> (s, resync, Submitted job i out)
      | Inr session \<Rightarrow>
          (case set_draft_state s (sj_draft job) Sending of
             Inl e \<Rightarrow> (s, resync, Submitted job i
               (Retry (''could not record that the send had started: '' @ sl_storage_text L e) None))
           | Inr s' \<Rightarrow> (s', resync, Submitting job i session)))"
| "worker_step L A s resync (Submitting job i session) =
     (s, resync, Answered job i
        (fst (send_message (sl_smtp L) (\<lambda>_. False) (sj_from job) (sj_recipients job) (sj_raw job) session)))"
| "worker_step L A s resync (Answered job i (Inl e)) =
     (if submission_is_indeterminate e
      then (mark_or_keep s (sj_draft job) Unconfirmed, resync, Submitted job i (Uncertain indeterminate_text))
      else (mark_or_keep s (sj_draft job) Queued, resync, Submitted job i (outcome_from_smtp_error L e)))"
| "worker_step L A s resync (Answered job i (Inr _)) =
     (mark_or_keep s (sj_draft job) DraftSent, resync, Accepted job i)"
| "worker_step L A s resync (Accepted job i) =
     (let (s', resync') = confirm_sent_copy L A s resync job (Some i)
      in (s', resync', Submitted job i Applied))"
| "worker_step L A s resync (Submitted job i out) =
     (if is_failed out then unfile_sent_copy s i else s, resync, Finished job out)"
| "worker_step L A s resync (Finished job out) = (s, resync, Finished job out)"
| "worker_step L A s resync (Unresolved i) = (s, resync, Unresolved i)"

text \<open>\<open>send\<close>: at most seven steps to the outcome.\<close>

definition send_job_run :: "send_lib \<Rightarrow> send_answers \<Rightarrow> mail_store \<Rightarrow> mailbox_id list \<Rightarrow> send_job
    \<Rightarrow> mail_store \<times> mailbox_id list \<times> worker" where
  "send_job_run L A s resync job =
     ((\<lambda>(s, resync, w). worker_step L A s resync w) ^^ 7) (s, resync, Resolved job)"

text \<open>What the drainer's \<open>fail\<close> writes on the draft of a send that gave up.\<close>

definition mark_draft_failed :: "mail_store \<Rightarrow> draft_id \<Rightarrow> mail_store" where
  "mark_draft_failed s i = mark_or_keep s i DraftFailed"


subsection \<open>Reconciling unconfirmed sends\<close>

text \<open>
  \<open>ids_by_rfc_message_id\<close>: every message of the account with that \<open>Message-ID\<close>, without
  case, in id order.
\<close>

definition ids_by_rfc_message_id :: "mail_store \<Rightarrow> account_id \<Rightarrow> string \<Rightarrow> message_id list" where
  "ids_by_rfc_message_id s account rfc =
     sort (map mr_id (filter (\<lambda>m. mr_account m = account
        \<and> (case mr_rfc m of Some r \<Rightarrow> lower_bytes r = lower_bytes rfc | None \<Rightarrow> False)) (ms_mail s)))"

fun confirm_each :: "mail_store \<Rightarrow> account_id \<Rightarrow> draft list \<Rightarrow> (draft_id \<times> message_id) list
    \<Rightarrow> storage_error + (mail_store \<times> (draft_id \<times> message_id) list)" where
  "confirm_each s account [] resolved = Inr (s, resolved)"
| "confirm_each s account (d # ds) resolved =
     (if d_account d \<noteq> account then confirm_each s account ds resolved
      else (case d_rfc d of
        None \<Rightarrow> confirm_each s account ds resolved
      | Some reserved \<Rightarrow>
          (case ids_by_rfc_message_id s account reserved of
             [] \<Rightarrow> confirm_each s account ds resolved
           | message # _ \<Rightarrow>
               (case set_draft_state s (d_id d) DraftSent of
                  Inl e \<Rightarrow> Inl e
                | Inr s' \<Rightarrow>
                    (case set_synced_message s' (d_id d) message of
                       Inl e \<Rightarrow> Inl e
                     | Inr s'' \<Rightarrow> confirm_each s'' account ds (resolved @ [(d_id d, message)]))))))"

definition confirm_unconfirmed :: "mail_store \<Rightarrow> account_id
    \<Rightarrow> storage_error + (mail_store \<times> (draft_id \<times> message_id) list)" where
  "confirm_unconfirmed s account = confirm_each s account (by_state s Unconfirmed) []"

end
