(* ===== verification/Send_Once.thy ===== *)
theory Send_Once
  imports Send
begin

section \<open>A message is submitted at most once for each time it is queued\<close>

text \<open>
  ADR 0021 as a transition system.  The drainer's worker advances one await at a time; in
  between the user queues, cancels, saves, discards and marks as sent, a pass heals orphans
  and confirms unconfirmed sends, anything else may happen to the store as long as it leaves
  drafts and \<open>Send\<close> rows alone, and the program may end at any point, in the middle of
  a submission too.  A composer saves the draft it holds, whatever the store has by then.
  The world counts, per draft, how often it was queued, how often a save took back the mark
  of a submission, and how often a submission was accepted or may have been.
\<close>

record send_world =
  sw_store :: mail_store
  sw_resync :: "mailbox_id list"
  sw_worker :: worker
  sw_queued :: "draft_id \<Rightarrow> nat"
  sw_reopened :: "draft_id \<Rightarrow> nat"
  sw_delivered :: "draft_id \<Rightarrow> nat"

definition bump :: "draft_id \<Rightarrow> (draft_id \<Rightarrow> nat) \<Rightarrow> draft_id \<Rightarrow> nat" where
  "bump i f = f(i := Suc (f i))"

text \<open>The session reports an acceptance, or cannot tell.\<close>

definition may_be_delivered :: "smtp_error + unit \<Rightarrow> bool" where
  "may_be_delivered r = (case r of Inl e \<Rightarrow> submission_is_indeterminate e | Inr _ \<Rightarrow> True)"

definition count_delivery :: "worker \<Rightarrow> (draft_id \<Rightarrow> nat) \<Rightarrow> draft_id \<Rightarrow> nat" where
  "count_delivery w f =
     (case w of Answered job i r \<Rightarrow> if may_be_delivered r then bump (sj_draft job) f else f | _ \<Rightarrow> f)"

text \<open>\<open>Send\<close> rows by draft, whatever their state.\<close>

definition send_rows :: "mail_store \<Rightarrow> draft_id set" where
  "send_rows s = {i. \<exists>r\<in>set (o_queue (ms_ops s)). q_operation r = Send i}"

definition draft_state_of :: "mail_store \<Rightarrow> draft_id \<Rightarrow> draft_state option" where
  "draft_state_of s i = map_option d_state (get_draft s i)"

definition draft_keys :: "mail_store \<Rightarrow> (draft_id \<times> draft_state) list" where
  "draft_keys s = map (\<lambda>r. (d_id (dr_draft r), d_state (dr_draft r))) (ms_drafts s)"

text \<open>Writes elsewhere: drafts keep their states, no \<open>Send\<close> row appears.\<close>

definition elsewhere :: "mail_store \<Rightarrow> mail_store \<Rightarrow> bool" where
  "elsewhere s s' \<longleftrightarrow>
     draft_keys s' = draft_keys s
     \<and> ms_next_draft s' = ms_next_draft s
     \<and> send_rows s' \<subseteq> send_rows s"

text \<open>A draft that the drainer would submit, were there a row for it.\<close>

definition sendable :: "draft_state \<Rightarrow> bool" where
  "sendable x \<longleftrightarrow> x = Editing \<or> x = Queued \<or> x = DraftFailed"

definition sendable_in :: "mail_store \<Rightarrow> draft_id \<Rightarrow> bool" where
  "sendable_in s i \<longleftrightarrow> (\<exists>x. draft_state_of s i = Some x \<and> sendable x)"

text \<open>
  \<open>save\<close> writes the state of the draft it is given.  A composer that read the draft before
  it was marked \<open>Sending\<close>, \<open>Unconfirmed\<close> or \<open>Sent\<close> takes that mark back.
\<close>

definition reopens :: "mail_store \<Rightarrow> draft \<Rightarrow> bool" where
  "reopens s d \<longleftrightarrow> is_assigned (d_id d) \<and> sendable (d_state d) \<and> \<not> sendable_in s (d_id d)"

definition count_reopening :: "mail_store \<Rightarrow> draft \<Rightarrow> (draft_id \<Rightarrow> nat) \<Rightarrow> draft_id \<Rightarrow> nat" where
  "count_reopening s d f = (if reopens s d then bump (d_id d) f else f)"

text \<open>\<open>Command::MarkSent\<close> of \<open>actions.rs\<close>: only of a send nobody could confirm.\<close>

definition mark_sent :: "mail_store \<Rightarrow> draft_id \<Rightarrow> mail_store" where
  "mark_sent s i = (if draft_state_of s i = Some Unconfirmed then mark_or_keep s i DraftSent else s)"

inductive sends :: "send_lib \<Rightarrow> send_world \<Rightarrow> send_world \<Rightarrow> bool" for L where
  user_queues: "queue_send_row (sw_store W) fresh d at not_before = Inr (s', d', r) \<Longrightarrow>
    sends L W (W\<lparr>sw_store := s', sw_queued := bump (d_id d') (sw_queued W)\<rparr>)"
| user_cancels: "cancel_send (sw_store W) i at = Inr (s', out) \<Longrightarrow> sends L W (W\<lparr>sw_store := s'\<rparr>)"
| user_discards: "discard (sw_store W) i at = Inr (s', r) \<Longrightarrow> sends L W (W\<lparr>sw_store := s'\<rparr>)"
| user_saves: "save_and_sync (sw_store W) d at = Inr (s', x) \<Longrightarrow>
    sends L W (W\<lparr>sw_store := s', sw_reopened := count_reopening (sw_store W) d (sw_reopened W)\<rparr>)"
| user_marks_sent: "sends L W (W\<lparr>sw_store := mark_sent (sw_store W) i\<rparr>)"
| pass_heals: "fail_orphaned_sends (sw_store W) account = (s', k) \<Longrightarrow> sends L W (W\<lparr>sw_store := s'\<rparr>)"
| pass_confirms: "confirm_unconfirmed (sw_store W) account = Inr (s', ms) \<Longrightarrow> sends L W (W\<lparr>sw_store := s'\<rparr>)"
| other_writes: "elsewhere (sw_store W) s' \<Longrightarrow> sends L W (W\<lparr>sw_store := s'\<rparr>)"
| starts: "sw_worker W = Idle \<Longrightarrow> i \<in> send_rows (sw_store W) \<Longrightarrow>
    resolve_send L True (sw_store W) i = (s', Inr (JobReady job)) \<Longrightarrow>
    sends L W (W\<lparr>sw_store := s', sw_worker := Resolved job\<rparr>)"
| cannot_start: "sw_worker W = Idle \<Longrightarrow> i \<in> send_rows (sw_store W) \<Longrightarrow>
    resolve_send L True (sw_store W) i = (s', Inr (JobImpossible reason)) \<Longrightarrow>
    sends L W (W\<lparr>sw_store := s', sw_worker := Unresolved i\<rparr>)"
| need_not_start: "sw_worker W = Idle \<Longrightarrow> i \<in> send_rows (sw_store W) \<Longrightarrow>
    resolve_send L True (sw_store W) i = (s', r) \<Longrightarrow>
    (\<And>job. r \<noteq> Inr (JobReady job)) \<Longrightarrow> (\<And>reason. r \<noteq> Inr (JobImpossible reason)) \<Longrightarrow>
    sends L W (W\<lparr>sw_store := s'\<rparr>)"
| works: "worker_step L A (sw_store W) (sw_resync W) (sw_worker W) = (s', resync', w') \<Longrightarrow>
    w' \<noteq> sw_worker W \<Longrightarrow>
    sends L W (W\<lparr>sw_store := s', sw_resync := resync', sw_worker := w',
      sw_delivered := count_delivery w' (sw_delivered W)\<rparr>)"
| settles: "sw_worker W = Finished job out \<Longrightarrow> \<not> is_failed out \<Longrightarrow> sends L W (W\<lparr>sw_worker := Idle\<rparr>)"
| gives_up: "sw_worker W = Finished job out \<Longrightarrow> is_failed out \<or> (\<exists>r. out = Retry r None) \<Longrightarrow>
    sends L W (W\<lparr>sw_store := mark_draft_failed (sw_store W) (sj_draft job), sw_worker := Idle\<rparr>)"
| refuses: "sw_worker W = Unresolved i \<Longrightarrow>
    sends L W (W\<lparr>sw_store := mark_draft_failed (sw_store W) i, sw_worker := Idle\<rparr>)"
| ends: "sends L W (W\<lparr>sw_worker := Idle\<rparr>)"
| ends_while_submitting: "sw_worker W = Submitting job i session \<Longrightarrow>
    sends L W (W\<lparr>sw_worker := Idle, sw_delivered := bump (sj_draft job) (sw_delivered W)\<rparr>)"

definition fresh_store :: "mail_store \<Rightarrow> bool" where
  "fresh_store s \<longleftrightarrow> send_rows s = {} \<and> (\<forall>r\<in>set (ms_drafts s). d_id (dr_draft r) < ms_next_draft s)"

definition send_start :: "mail_store \<Rightarrow> send_world" where
  "send_start s = \<lparr>sw_store = s, sw_resync = [], sw_worker = Idle, sw_queued = (\<lambda>_. 0), sw_reopened = (\<lambda>_. 0),
     sw_delivered = (\<lambda>_. 0)\<rparr>"

inductive send_reachable :: "send_lib \<Rightarrow> send_world \<Rightarrow> bool" for L where
  reachable_start: "fresh_store s \<Longrightarrow> send_reachable L (send_start s)"
| reachable_step: "send_reachable L W \<Longrightarrow> sends L W W' \<Longrightarrow> send_reachable L W'"


subsection \<open>What each write does to the states of drafts\<close>

lemma stored_draft_fields [simp]:
  "d_id (stored_draft old d) = d_id d" "d_state (stored_draft old d) = d_state d"
  by (simp_all add: stored_draft_def)

lemma get_draft_row_update:
  assumes "\<And>r. P r \<Longrightarrow> d_id (dr_draft (f r)) = d_id (dr_draft r)"
  shows "get_draft_row (update_drafts P f s) i = map_option (\<lambda>r. if P r then f r else r) (get_draft_row s i)"
proof -
  have "find (\<lambda>r. d_id (dr_draft r) = i) (map (\<lambda>r. if P r then f r else r) rs)
      = map_option (\<lambda>r. if P r then f r else r) (find (\<lambda>r. d_id (dr_draft r) = i) rs)" for rs
    using assms by (induction rs) auto
  then show ?thesis by (simp add: get_draft_row_def update_drafts_def)
qed

lemma get_draft_row_id: "get_draft_row s i = Some r \<Longrightarrow> d_id (dr_draft r) = i"
  by (auto simp: get_draft_row_def find_Some_iff)

lemma update_drafts_fields [simp]:
  "ms_ops (update_drafts P f s) = ms_ops s" "ms_next_draft (update_drafts P f s) = ms_next_draft s"
  "ms_mail (update_drafts P f s) = ms_mail s" "ms_boxes (update_drafts P f s) = ms_boxes s"
  by (simp_all add: update_drafts_def)

lemma update_mail_fields [simp]:
  "ms_ops (update_mail P f s) = ms_ops s" "ms_next_draft (update_mail P f s) = ms_next_draft s"
  "ms_drafts (update_mail P f s) = ms_drafts s" "ms_boxes (update_mail P f s) = ms_boxes s"
  by (simp_all add: update_mail_def)

lemma state_update:
  assumes "\<And>r. P r \<Longrightarrow> d_id (dr_draft (f r)) = d_id (dr_draft r)"
  shows "draft_state_of (update_drafts P f s) i =
    map_option (\<lambda>r. d_state (dr_draft (if P r then f r else r))) (get_draft_row s i)"
  using assms by (simp add: draft_state_of_def get_draft_def get_draft_row_update option.map_comp comp_def)

lemma state_same_rows: "ms_drafts s' = ms_drafts s \<Longrightarrow> draft_state_of s' = draft_state_of s"
  by (rule ext) (simp add: draft_state_of_def get_draft_def get_draft_row_def)

lemma state_row: "draft_state_of s i = map_option (\<lambda>r. d_state (dr_draft r)) (get_draft_row s i)"
  by (simp add: draft_state_of_def get_draft_def option.map_comp comp_def)

lemma state_by_keys:
  assumes "draft_keys s' = draft_keys s"
  shows "draft_state_of s' i = draft_state_of s i"
proof -
  have *: "map_option (\<lambda>r. d_state (dr_draft r)) (find (\<lambda>r. d_id (dr_draft r) = i) rs) =
      map_of (map (\<lambda>r. (d_id (dr_draft r), d_state (dr_draft r))) rs) i" for rs
    by (induction rs) auto
  show ?thesis by (simp add: state_row get_draft_row_def * assms [unfolded draft_keys_def])
qed

lemma state_create_mail [simp]: "draft_state_of (fst (create_mail f s)) = draft_state_of s"
  by (rule state_same_rows) (simp add: create_mail_def)

lemma state_update_mail [simp]: "draft_state_of (update_mail P f s) = draft_state_of s"
  by (rule state_same_rows) simp

lemma delete_mail_keys:
  "draft_keys (delete_mail P s)
    = draft_keys s"
  by (auto simp: draft_keys_def delete_mail_def Let_def split: option.splits)

lemma state_delete_mail [simp]: "draft_state_of (delete_mail P s) = draft_state_of s"
  by (rule ext) (rule state_by_keys [OF delete_mail_keys])

lemma delete_mail_fields [simp]:
  "ms_ops (delete_mail P s) = ms_ops s" "ms_next_draft (delete_mail P s) = ms_next_draft s"
  by (simp_all add: delete_mail_def Let_def)

text \<open>Rows below the counter.\<close>

definition drafts_below :: "mail_store \<Rightarrow> bool" where
  "drafts_below s \<longleftrightarrow> (\<forall>r\<in>set (ms_drafts s). d_id (dr_draft r) < ms_next_draft s)"

lemma drafts_below_update:
  "(\<And>r. d_id (dr_draft (f r)) = d_id (dr_draft r)) \<Longrightarrow> drafts_below s \<Longrightarrow> drafts_below (update_drafts P f s)"
  by (auto simp: drafts_below_def update_drafts_def)

lemma drafts_below_keys:
  assumes "draft_keys s' = draft_keys s"
    and "ms_next_draft s' = ms_next_draft s" and "drafts_below s"
  shows "drafts_below s'"
proof -
  have "map (d_id \<circ> dr_draft) (ms_drafts s') = map (d_id \<circ> dr_draft) (ms_drafts s)"
    using arg_cong [OF assms(1), of "map fst"] by (simp add: draft_keys_def comp_def)
  then have "(d_id \<circ> dr_draft) ` set (ms_drafts s') = (d_id \<circ> dr_draft) ` set (ms_drafts s)"
    by (metis set_map)
  moreover have "drafts_below t \<longleftrightarrow> (\<forall>i\<in>(d_id \<circ> dr_draft) ` set (ms_drafts t). i < ms_next_draft t)" for t
    by (auto simp: drafts_below_def)
  ultimately show ?thesis using assms(2,3) by metis
qed

text \<open>A write that keeps every draft's id and state.\<close>

lemma keys_update:
  assumes "\<And>r. d_id (dr_draft (f r)) = d_id (dr_draft r)" "\<And>r. d_state (dr_draft (f r)) = d_state (dr_draft r)"
  shows "draft_keys (update_drafts P f s)
    = draft_keys s"
  using assms by (simp add: draft_keys_def update_drafts_def)

lemma state_bound: "drafts_below s \<Longrightarrow> draft_state_of s i \<noteq> None \<Longrightarrow> i < ms_next_draft s"
  by (auto simp: state_row get_draft_row_def drafts_below_def find_Some_iff)

lemma list_row_keys:
  assumes "list_row s d = Inr s'"
  shows "draft_keys s' = draft_keys s
    \<and> ms_next_draft s' = ms_next_draft s \<and> ms_ops s' = ms_ops s"
proof (cases "ms_boxes s (d_account d) Drafts")
  case None
  with assms have "s' = s" by (simp add: list_row_def)
  then show ?thesis by simp
next
  case (Some b)
  obtain box path where b: "b = (box, path)" by (cases b)
  show ?thesis
  proof (cases "Option.bind (get_draft_row s (d_id d)) dr_message")
    case None
    define t where "t = fst (create_mail (\<lambda>i. \<lparr>mr_id = i, mr_account = d_account d, mr_mailbox = box,
      mr_rfc = None, mr_remote = None, mr_uid = None, mr_uid_validity = None,
      mr_send_state = Some (d_state d), mr_send_at = None\<rparr>) s)"
    have t: "ms_drafts t = ms_drafts s" "ms_next_draft t = ms_next_draft s" "ms_ops t = ms_ops s"
      by (simp_all add: t_def create_mail_def)
    from None assms Some b have "s' = update_drafts (\<lambda>r. d_id (dr_draft r) = d_id d)
        (\<lambda>r. r\<lparr>dr_message := Some (ms_next_mail s)\<rparr>) t"
      by (simp add: list_row_def create_mail_def t_def)
    moreover have "draft_keys t = draft_keys s" by (simp add: draft_keys_def t(1))
    ultimately show ?thesis by (simp add: t keys_update)
  next
    case (Some i)
    with assms \<open>ms_boxes s (d_account d) Drafts = _\<close> b show ?thesis
      by (auto simp: list_row_def draft_keys_def split: if_splits)
  qed
qed

lemma list_row_effect:
  assumes "list_row s d = Inr s'"
  shows "draft_state_of s' = draft_state_of s \<and> ms_next_draft s' = ms_next_draft s
    \<and> ms_ops s' = ms_ops s \<and> (drafts_below s \<longrightarrow> drafts_below s')"
proof -
  from list_row_keys [OF assms]
  have k: "draft_keys s' = draft_keys s"
    and n: "ms_next_draft s' = ms_next_draft s" "ms_ops s' = ms_ops s" by simp_all
  from state_by_keys [OF k] have "draft_state_of s' = draft_state_of s" by (rule ext)
  with n drafts_below_keys [OF k n(1)] show ?thesis by simp
qed

text \<open>What a save does: one draft, old or new, has the state it was given.\<close>

definition saved :: "mail_store \<Rightarrow> mail_store \<Rightarrow> draft \<Rightarrow> bool" where
  "saved s s' d \<longleftrightarrow>
     draft_state_of s' = (draft_state_of s)(d_id d \<mapsto> d_state d)
     \<and> send_rows s' = send_rows s \<and> drafts_below s'
     \<and> (if d_id d = ms_next_draft s then ms_next_draft s' = ms_next_draft s + 1
        else ms_next_draft s' = ms_next_draft s \<and> draft_state_of s (d_id d) \<noteq> None)"

lemma get_draft_row_append:
  assumes "drafts_below s" "d_id (dr_draft r) = ms_next_draft s"
  shows "get_draft_row (s\<lparr>ms_drafts := ms_drafts s @ [r], ms_next_draft := k\<rparr>) i
    = (if i = ms_next_draft s then Some r else get_draft_row s i)"
proof -
  have "find (\<lambda>r. d_id (dr_draft r) = ms_next_draft s) (ms_drafts s) = None"
    using assms(1) by (auto simp: find_None_iff drafts_below_def)
  moreover have "find P (xs @ ys) = (case find P xs of None \<Rightarrow> find P ys | Some x \<Rightarrow> Some x)"
    for P and xs ys :: "draft_row list" by (induction xs) auto
  ultimately show ?thesis
    using assms(2) by (auto simp: get_draft_row_def split: option.splits)
qed

lemma save_draft_effect:
  assumes "save_draft s d = Inr (s', d')" "drafts_below s"
  shows "saved s s' d' \<and> d_state d' = d_state d \<and> d_account d' = d_account d"
proof (cases "is_assigned (d_id d)")
  case True
  with assms(1) obtain row where row: "get_draft_row s (d_id d) = Some row"
    by (auto simp: save_draft_def split: option.splits)
  define t where "t = update_drafts (\<lambda>r. d_id (dr_draft r) = d_id d)
    (\<lambda>r. r\<lparr>dr_draft := stored_draft (dr_draft r) d\<rparr>) s"
  from assms(1) True row have s': "list_row t d = Inr s'" "d' = d"
    by (auto simp: save_draft_def Let_def t_def split: sum.splits)
  have id: "d_id (dr_draft row) = d_id d" using row by (auto simp: get_draft_row_def find_Some_iff)
  have "draft_state_of t j = ((draft_state_of s)(d_id d \<mapsto> d_state d)) j" for j
    using row id get_draft_row_id [of s j] unfolding t_def
    by (subst state_update) (cases "get_draft_row s j"; auto simp: state_row)+
  then have "draft_state_of t = (draft_state_of s)(d_id d \<mapsto> d_state d)" by blast
  moreover have "drafts_below t"
    using assms(2) by (auto simp: t_def drafts_below_def update_drafts_def stored_draft_def)
  moreover have "d_id d < ms_next_draft s" "draft_state_of s (d_id d) \<noteq> None"
    using row state_bound [OF assms(2), of "d_id d"] by (simp_all add: state_row)
  ultimately show ?thesis
    using list_row_effect [OF s'(1)] s'(2) by (auto simp: saved_def send_rows_def t_def)
next
  case False
  define e where "e = d\<lparr>d_id := ms_next_draft s\<rparr>"
  define t where "t = s\<lparr>ms_drafts := ms_drafts s @ [\<lparr>dr_draft = stored_draft e e, dr_message = None\<rparr>],
    ms_next_draft := ms_next_draft s + 1\<rparr>"
  from assms(1) False have s': "list_row t e = Inr s'" "d' = e"
    by (auto simp: save_draft_def Let_def t_def e_def split: sum.splits)
  have "draft_state_of t = (draft_state_of s)(d_id e \<mapsto> d_state e)"
    unfolding t_def using assms(2)
    by (intro ext) (subst state_row, subst get_draft_row_append, auto simp: e_def stored_draft_def state_row)
  moreover have "drafts_below t"
    using assms(2) by (auto simp: t_def drafts_below_def e_def stored_draft_def)
  ultimately show ?thesis
    using list_row_effect [OF s'(1)] s'(2) by (auto simp: saved_def send_rows_def t_def e_def)
qed

lemma save_draft_id:
  "save_draft s d = Inr (s', d') \<Longrightarrow> d_id d' = (if is_assigned (d_id d) then d_id d else ms_next_draft s)"
  by (auto simp: save_draft_def Let_def split: option.splits sum.splits if_splits)

lemma set_draft_state_effect:
  assumes "set_draft_state s i st = Inr s'"
  shows "draft_state_of s' = (draft_state_of s)(i \<mapsto> st) \<and> ms_next_draft s' = ms_next_draft s
    \<and> ms_ops s' = ms_ops s \<and> (drafts_below s \<longrightarrow> drafts_below s')"
proof -
  define f where "f = (\<lambda>r::draft_row. r\<lparr>dr_draft := (dr_draft r)\<lparr>d_state := st,
    d_rfc := (if st = Editing then None else d_rfc (dr_draft r))\<rparr>\<rparr>)"
  define t where "t = update_drafts (\<lambda>r. d_id (dr_draft r) = i) f s"
  from assms have ex: "draft_exists s i" and s': "ms_drafts s' = ms_drafts t" "ms_ops s' = ms_ops t"
      "ms_next_draft s' = ms_next_draft t"
    by (auto simp: set_draft_state_def t_def f_def Let_def split: if_splits)
  from ex obtain row where row: "get_draft_row s i = Some row"
    by (cases "get_draft_row s i") (auto simp: draft_exists_def get_draft_row_def list_ex_iff find_None_iff)
  have f: "d_id (dr_draft (f r)) = d_id (dr_draft r)" "d_state (dr_draft (f r)) = st" for r
    by (simp_all add: f_def)
  have "draft_state_of t j = ((draft_state_of s)(i \<mapsto> st)) j" for j
    using row get_draft_row_id [OF row] get_draft_row_id [of s j] f unfolding t_def
    by (subst state_update) (cases "get_draft_row s j"; auto simp: state_row)+
  then have "draft_state_of s' = (draft_state_of s)(i \<mapsto> st)"
    using state_same_rows [OF s'(1)] by auto
  moreover have "drafts_below s \<longrightarrow> drafts_below s'"
    using s' f by (auto simp: drafts_below_def t_def update_drafts_def)
  ultimately show ?thesis using s' by (simp add: t_def)
qed

lemma delete_draft_effect:
  "draft_state_of (fst (delete_draft s i)) = (draft_state_of s)(i := None)
   \<and> ms_next_draft (fst (delete_draft s i)) = ms_next_draft s
   \<and> ms_ops (fst (delete_draft s i)) = ms_ops s
   \<and> (drafts_below s \<longrightarrow> drafts_below (fst (delete_draft s i)))"
proof -
  define t where "t = delete_mail (lists_draft s i) s"
  have t: "ms_drafts (fst (delete_draft s i)) = filter (\<lambda>r. d_id (dr_draft r) \<noteq> i) (ms_drafts t)"
    by (simp add: delete_draft_def t_def Let_def)
  have *: "find (\<lambda>r. d_id (dr_draft r) = j) (filter (\<lambda>r. d_id (dr_draft r) \<noteq> i) rs) =
      (if j = i then None else find (\<lambda>r. d_id (dr_draft r) = j) rs)" for rs j
    by (induction rs) auto
  have "draft_state_of (fst (delete_draft s i)) j = ((draft_state_of t)(i := None)) j" for j
    by (simp add: state_row get_draft_row_def t *)
  moreover have "drafts_below s \<longrightarrow> drafts_below t"
    unfolding t_def using drafts_below_keys [OF delete_mail_keys] by simp
  ultimately show ?thesis
    by (auto simp: fun_eq_iff t_def delete_draft_def Let_def drafts_below_def)
qed

text \<open>A write that makes no draft sendable that was not, except new ones.\<close>

definition tame :: "mail_store \<Rightarrow> mail_store \<Rightarrow> bool" where
  "tame s s' \<longleftrightarrow>
     ms_next_draft s \<le> ms_next_draft s' \<and> send_rows s' \<subseteq> send_rows s \<and> drafts_below s'
     \<and> (\<forall>i x. draft_state_of s' i = Some x \<longrightarrow> sendable x \<longrightarrow>
          ms_next_draft s \<le> i \<or> (\<exists>y. draft_state_of s i = Some y \<and> sendable y))"

lemma tame_refl: "drafts_below s \<Longrightarrow> tame s s"
  by (auto simp: tame_def)

lemma tame_trans: "tame s t \<Longrightarrow> tame t u \<Longrightarrow> tame s u"
  unfolding tame_def by (meson dual_order.trans state_bound subset_trans not_le option.distinct(1))

lemma tame_keep:
  assumes "drafts_below s'" "ms_next_draft s' = ms_next_draft s" "send_rows s' \<subseteq> send_rows s"
    and "\<And>i x. draft_state_of s' i = Some x \<Longrightarrow> sendable x \<Longrightarrow>
      \<exists>y. draft_state_of s i = Some y \<and> sendable y"
  shows "tame s s'"
  using assms by (auto simp: tame_def)

lemma send_rows_ops: "ms_ops s' = ms_ops s \<Longrightarrow> send_rows s' = send_rows s"
  by (simp add: send_rows_def)

lemma tame_save:
  assumes "saved s s' d" "\<And>x. draft_state_of s (d_id d) = Some x \<Longrightarrow> sendable (d_state d) \<Longrightarrow> sendable x"
    and "drafts_below s"
  shows "tame s s'"
  using assms state_bound [OF assms(3), of "d_id d"]
  by (auto simp: tame_def saved_def split: if_splits)

subsection \<open>Each write of the program\<close>

lemma enqueue_rows:
  assumes "enqueue_inner q account t op at nb = Inr (q', r)"
  shows "set (o_queue q') = insert r (set (o_queue q))" "q_operation r = op"
  using assms by (auto simp: enqueue_inner_def insert_row_def Let_def split: sum.splits)

lemma with_enqueue_effect:
  assumes "with_ops (\<lambda>q. enqueue_inner q account t op at nb) s = Inr (s', r)"
  shows "draft_state_of s' = draft_state_of s" "ms_next_draft s' = ms_next_draft s"
    "send_rows s' = send_rows s \<union> {i. op = Send i}" "drafts_below s' = drafts_below s"
proof -
  from assms obtain q' where q': "enqueue_inner (ms_ops s) account t op at nb = Inr (q', r)"
      "s' = s\<lparr>ms_ops := q'\<rparr>"
    by (auto simp: with_ops_def split: sum.splits)
  show "draft_state_of s' = draft_state_of s"
    by (rule state_same_rows) (simp add: q'(2))
  show "ms_next_draft s' = ms_next_draft s" "drafts_below s' = drafts_below s"
    by (simp_all add: drafts_below_def q'(2))
  show "send_rows s' = send_rows s \<union> {i. op = Send i}"
    using enqueue_rows [OF q'(1)] q'(2) by (auto simp: send_rows_def)
qed

lemma send_rows_delete: "send_rows (s\<lparr>ms_ops := fst (delete_row (ms_ops s) i)\<rparr>) \<subseteq> send_rows s"
  by (auto simp: send_rows_def delete_row_def Let_def split: option.splits)

text \<open>Queueing a send: the draft is \<open>Queued\<close> and its row is there.\<close>

lemma queue_send_effect:
  assumes "queue_send_row s fresh d at nb = Inr (s', d', r)" "drafts_below s"
  shows "draft_state_of s' = (draft_state_of s)(d_id d' \<mapsto> Queued)"
    "send_rows s' = insert (d_id d') (send_rows s)" "drafts_below s'"
    "ms_next_draft s \<le> ms_next_draft s'" "d_id d' < ms_next_draft s'"
proof -
  obtain t e where t: "save_draft s ((reserve_message_id fresh d)\<lparr>d_state := Queued, d_updated := at\<rparr>) = Inr (t, e)"
    using assms(1) by (auto simp: queue_send_row_def split: sum.splits)
  obtain m where w: "with_ops (\<lambda>q. enqueue_inner q (d_account e) (Draft_target (d_id e)) (Send (d_id e)) at m) t
      = Inr (s', r)" and e: "d' = e"
    using assms(1) t that
    by (cases nb) (auto simp: queue_send_row_def enqueue_def enqueue_not_before_def split: sum.splits)
  from save_draft_effect [OF t assms(2)] have sv: "saved s t e" "d_state e = Queued" by simp_all
  note we = with_enqueue_effect [OF w]
  show "draft_state_of s' = (draft_state_of s)(d_id d' \<mapsto> Queued)"
    "send_rows s' = insert (d_id d') (send_rows s)" "drafts_below s'" "ms_next_draft s \<le> ms_next_draft s'"
    using we sv e by (auto simp: saved_def split: if_splits)
  have "draft_state_of s' (d_id d') \<noteq> None" using we sv e by (simp add: saved_def)
  then show "d_id d' < ms_next_draft s'"
    using state_bound we(4) sv(1) by (auto simp: saved_def)
qed

lemma tame_delete:
  assumes "draft_state_of t = draft_state_of s" "ms_next_draft t = ms_next_draft s"
    "send_rows t = send_rows s" "drafts_below t"
  shows "tame s (fst (delete_draft t i))"
proof (rule tame_keep)
  note d = delete_draft_effect [of t i]
  show "drafts_below (fst (delete_draft t i))" "ms_next_draft (fst (delete_draft t i)) = ms_next_draft s"
    using d assms by simp_all
  show "send_rows (fst (delete_draft t i)) \<subseteq> send_rows s"
    using d send_rows_ops [of "fst (delete_draft t i)" t] assms(3) by simp
  show "\<exists>y. draft_state_of s j = Some y \<and> sendable y"
    if "draft_state_of (fst (delete_draft t i)) j = Some x" "sendable x" for j x
    using that d assms(1) by (simp split: if_splits)
qed

lemma tame_discard:
  assumes "discard s i at = Inr (s', r)" "drafts_below s"
  shows "tame s s'"
proof (cases "get_draft s i")
  case None
  with assms show ?thesis by (simp add: discard_def tame_refl)
next
  case (Some d)
  have here: "tame s (fst (delete_draft s i))"
    using assms(2) by (intro tame_delete) simp_all
  show ?thesis
  proof (cases "d_remote d = None \<or> ms_boxes s (d_account d) Drafts = None")
    case True
    with assms(1) Some have "s' = fst (delete_draft s i)"
      by (auto simp: discard_def split: option.splits)
    with here show ?thesis by simp
  next
    case False
    then obtain remote box path where rb: "d_remote d = Some remote"
        "ms_boxes s (d_account d) Drafts = Some (box, path)" by auto
    with assms(1) Some obtain t x where t: "with_ops (\<lambda>q. enqueue_inner q (d_account d) (Draft_target i)
          (DiscardDraft box remote) at None) s = Inr (t, x)" "s' = fst (delete_draft t i)"
      by (auto simp: discard_def enqueue_def split: sum.splits)
    note w = with_enqueue_effect [OF t(1)]
    show ?thesis unfolding t(2) using w assms(2) by (intro tame_delete) simp_all
  qed
qed

lemma tame_cancel:
  assumes "cancel_send s i at = Inr (s', out)" "drafts_below s"
  shows "tame s s'"
proof (cases "s' = s")
  case False
  with assms(1) have "\<exists>d (row::queued_operation) x. get_draft s i = Some d \<and> d_state d = Queued
      \<and> save_draft (s\<lparr>ms_ops := fst (delete_row (ms_ops s) (q_id row))\<rparr>)
        (d\<lparr>d_state := Editing, d_updated := at\<rparr>) = Inr (s', x)"
    unfolding cancel_send_def by (auto simp: Let_def split: option.splits if_splits sum.splits)
  then obtain d and row :: queued_operation and x where d: "get_draft s i = Some d" "d_state d = Queued"
    and sv: "save_draft (s\<lparr>ms_ops := fst (delete_row (ms_ops s) (q_id row))\<rparr>)
        (d\<lparr>d_state := Editing, d_updated := at\<rparr>) = Inr (s', x)"
    by blast
  define t where "t = s\<lparr>ms_ops := fst (delete_row (ms_ops s) (q_id row))\<rparr>"
  have t: "draft_state_of t = draft_state_of s" by (rule state_same_rows) (simp add: t_def)
  have below: "drafts_below t" using assms(2) by (simp add: t_def drafts_below_def)
  have st: "tame s t"
    using below t send_rows_delete by (intro tame_keep) (auto simp: t_def)
  from d(1) have id: "d_id d = i"
    using get_draft_row_id by (auto simp: get_draft_def)
  from save_draft_effect [OF sv [folded t_def] below]
  have "saved t s' x" "d_state x = Editing" by simp_all
  moreover have "draft_state_of t (d_id x) = Some y \<Longrightarrow> sendable y" for y
    using save_draft_id [OF sv [folded t_def]] id d t state_bound [OF below, of "ms_next_draft t"]
    by (auto simp: draft_state_of_def sendable_def split: if_splits)
  ultimately have "tame t s'" using below by (intro tame_save)
  with st show ?thesis by (rule tame_trans)
qed (simp add: assms(2) tame_refl)

lemma tame_user_save:
  assumes "save_and_sync s d at = Inr (s', x)" "\<not> reopens s d" "drafts_below s"
  shows "tame s s'"
proof -
  from assms(1) obtain t e where sv: "save_draft s d = Inr (t, e)"
    by (auto simp: save_and_sync_def split: sum.splits)
  have st: "saved s t e" "d_state e = d_state d"
    using save_draft_effect [OF sv assms(3)] by simp_all
  have "tame s t"
  proof (rule tame_save [OF st(1) _ assms(3)])
    fix y assume y: "draft_state_of s (d_id e) = Some y" "sendable (d_state e)"
    show "sendable y"
      using save_draft_id [OF sv] y st(2) assms(2) state_bound [OF assms(3), of "ms_next_draft s"]
      by (auto simp: reopens_def sendable_in_def split: if_splits)
  qed
  moreover have "tame t s'"
  proof (cases "s' = t")
    case True
    then show ?thesis using st(1) by (simp add: tame_refl saved_def)
  next
    case False
    with assms(1) sv obtain box r where "with_ops (\<lambda>q. enqueue_inner q (d_account e) (Draft_target (d_id e))
        (SaveDraft box) at None) t = Inr (s', r)"
      by (auto simp: save_and_sync_def enqueue_def split: sum.splits option.splits)
    from with_enqueue_effect [OF this] st(1) show ?thesis
      by (intro tame_keep) (auto simp: saved_def)
  qed
  ultimately show ?thesis by (rule tame_trans)
qed

lemma tame_same_rows:
  "ms_drafts s' = ms_drafts s \<Longrightarrow> ms_next_draft s' = ms_next_draft s \<Longrightarrow> ms_ops s' = ms_ops s
   \<Longrightarrow> drafts_below s \<Longrightarrow> tame s s'"
  using send_rows_ops [of s' s] state_same_rows [of s' s]
  by (intro tame_keep) (simp_all add: drafts_below_def)

lemma tame_keys:
  assumes "draft_keys s' = draft_keys s"
    and "ms_next_draft s' = ms_next_draft s" "send_rows s' \<subseteq> send_rows s" "drafts_below s"
  shows "tame s s'"
  using assms drafts_below_keys [OF assms(1,2,4)] state_by_keys [OF assms(1)]
  by (intro tame_keep) auto

lemma tame_elsewhere: "elsewhere s s' \<Longrightarrow> drafts_below s \<Longrightarrow> tame s s'"
  by (auto simp: elsewhere_def intro: tame_keys)

lemma tame_delete_mail: "drafts_below s \<Longrightarrow> tame s (delete_mail P s)"
  by (rule tame_keys [OF delete_mail_keys]) (simp_all add: send_rows_def)

lemma tame_heal:
  assumes "fail_orphaned_sends s account = (s', k)" "drafts_below s"
  shows "tame s s'"
proof -
  define t where "t = update_drafts (orphaned_send s account)
      (\<lambda>r. r\<lparr>dr_draft := (dr_draft r)\<lparr>d_state := DraftFailed\<rparr>\<rparr>) s"
  have "s' = s \<or> ms_drafts s' = ms_drafts t \<and> ms_next_draft s' = ms_next_draft t \<and> ms_ops s' = ms_ops t"
    using assms(1) by (auto simp: fail_orphaned_sends_def t_def Let_def split: if_splits)
  then show ?thesis
  proof
    assume "s' = s"
    with assms(2) show ?thesis by (simp add: tame_refl)
  next
    assume s': "ms_drafts s' = ms_drafts t \<and> ms_next_draft s' = ms_next_draft t \<and> ms_ops s' = ms_ops t"
    have below: "drafts_below t"
      using assms(2) by (auto simp: t_def drafts_below_def update_drafts_def)
    have "tame s t"
    proof (rule tame_keep)
      fix i x assume x: "draft_state_of t i = Some x" "sendable x"
      from x(1) show "\<exists>y. draft_state_of s i = Some y \<and> sendable y"
        unfolding t_def
        using x(2) by (subst (asm) state_update) (auto simp: state_row orphaned_send_def sendable_def split: if_splits)
    qed (use below in \<open>simp_all add: t_def send_rows_def\<close>)
    moreover have "tame t s'" using s' below by (intro tame_same_rows) simp_all
    ultimately show ?thesis by (rule tame_trans)
  qed
qed

lemma tame_set_state:
  assumes "set_draft_state s i st = Inr s'" "drafts_below s" "\<not> sendable st"
  shows "tame s s'"
  using set_draft_state_effect [OF assms(1)] assms(2,3) send_rows_ops [of s' s]
  by (intro tame_keep) (auto split: if_splits)

lemma tame_mark: "drafts_below s \<Longrightarrow> \<not> sendable st \<Longrightarrow> tame s (mark_or_keep s i st)"
  by (auto simp: mark_or_keep_def tame_refl intro: tame_set_state split: sum.splits)

lemma tame_confirm:
  assumes "confirm_each s account ds xs = Inr (s', ms)" "drafts_below s"
  shows "tame s s'"
  using assms
proof (induction ds arbitrary: s xs)
  case Nil
  then show ?case by (simp add: tame_refl)
next
  case (Cons d ds)
  show ?case
  proof (cases "confirm_each s account (d # ds) xs = confirm_each s account ds xs")
    case True
    with Cons show ?thesis by simp
  next
    case False
    then obtain reserved m rest where m: "d_account d = account" "d_rfc d = Some reserved"
        "ids_by_rfc_message_id s account reserved = m # rest"
      by (auto split: if_splits option.splits list.splits)
    with Cons.prems(1) obtain t u where t: "set_draft_state s (d_id d) DraftSent = Inr t"
        and u: "set_synced_message t (d_id d) m = Inr u"
        and rest: "confirm_each u account ds (xs @ [(d_id d, m)]) = Inr (s', ms)"
      by (auto split: sum.splits)
    have st: "tame s t" using t Cons.prems(2) by (rule tame_set_state) (simp add: sendable_def)
    then have "drafts_below t" by (simp add: tame_def)
    moreover from u have "u = update_drafts (\<lambda>r. d_id (dr_draft r) = d_id d) (\<lambda>r. r\<lparr>dr_message := Some m\<rparr>) t"
      by (auto simp: set_synced_message_def split: if_splits)
    ultimately have tu: "tame t u"
      by (intro tame_keys) (simp_all add: keys_update send_rows_def)
    then have "drafts_below u" by (simp add: tame_def)
    from Cons.IH [OF rest this] have "tame u s'" .
    with st tu show ?thesis by (blast intro: tame_trans)
  qed
qed

lemma tame_resolve:
  "resolve_send L b s i = (s', r) \<Longrightarrow> drafts_below s \<Longrightarrow> tame s s'"
  by (auto simp: resolve_send_def tame_refl sendable_def intro: tame_set_state
      split: if_splits option.splits sum.splits)

lemma tame_confirm_sent: "drafts_below s \<Longrightarrow> tame s (fst (confirm_sent_copy L A s resync job filed))"
proof -
  assume below: "drafts_below s"
  define copied where "copied = attach_or_file L s
    (if (case sa_append A of Inr m \<Rightarrow> m | Inl _ \<Rightarrow> None) = None
     then resync_insert (sj_sent_mailbox job) resync else resync) job
    (case sa_append A of Inr m \<Rightarrow> m | Inl _ \<Rightarrow> None) filed"
  define t where "t = fst copied"
  have t: "ms_drafts t = ms_drafts s" "ms_next_draft t = ms_next_draft s" "ms_ops t = ms_ops s"
    unfolding t_def copied_def
    by (cases filed; simp add: attach_or_file_def create_mail_def)+
  have c: "fst (confirm_sent_copy L A s resync job filed) = fst (delete_draft t (sj_draft job))"
    by (simp add: confirm_sent_copy_def Let_def t_def copied_def)
  from tame_same_rows [OF t(1-3) below] have "tame s t" .
  moreover from this have "tame t (fst (delete_draft t (sj_draft job)))"
    by (intro tame_delete) (simp_all add: tame_def)
  ultimately show ?thesis unfolding c by (rule tame_trans)
qed

subsection \<open>The invariant\<close>

definition allowed :: "send_world \<Rightarrow> draft_id \<Rightarrow> nat" where
  "allowed W i = sw_queued W i + sw_reopened W i"

definition room :: "send_world \<Rightarrow> draft_id \<Rightarrow> bool" where
  "room W i \<longleftrightarrow> sw_delivered W i < allowed W i"

definition once_store :: "send_world \<Rightarrow> bool" where
  "once_store W \<longleftrightarrow>
     drafts_below (sw_store W)
     \<and> (\<forall>i. ms_next_draft (sw_store W) \<le> i \<longrightarrow> allowed W i = 0)
     \<and> (\<forall>i. sw_delivered W i \<le> allowed W i)
     \<and> (\<forall>i. i \<in> send_rows (sw_store W) \<longrightarrow> 0 < allowed W i)
     \<and> (\<forall>i. sendable_in (sw_store W) i \<longrightarrow> 0 < allowed W i \<longrightarrow> room W i)"

definition may_go_again :: "outcome \<Rightarrow> bool" where
  "may_go_again out \<longleftrightarrow> (case out of Retry _ _ \<Rightarrow> True | FailedOutcome _ \<Rightarrow> True | _ \<Rightarrow> False)"

definition once_worker :: "send_world \<Rightarrow> bool" where
  "once_worker W \<longleftrightarrow>
     (case sw_worker W of
        Idle \<Rightarrow> True
      | Resolved j \<Rightarrow> room W (sj_draft j)
      | Filed j _ \<Rightarrow> room W (sj_draft j)
      | Submitting j _ _ \<Rightarrow> room W (sj_draft j)
          \<and> (sendable_in (sw_store W) (sj_draft j) \<longrightarrow> Suc (sw_delivered W (sj_draft j)) < allowed W (sj_draft j))
      | Answered j _ r \<Rightarrow> \<not> may_be_delivered r \<longrightarrow> room W (sj_draft j)
      | Accepted _ _ \<Rightarrow> True
      | Submitted j _ out \<Rightarrow> may_go_again out \<longrightarrow> room W (sj_draft j)
      | Finished j out \<Rightarrow> may_go_again out \<longrightarrow> room W (sj_draft j)
      | Unresolved i \<Rightarrow> room W i)"

definition once_inv :: "send_world \<Rightarrow> bool" where
  "once_inv W \<longleftrightarrow> once_store W \<and> once_worker W"

lemma allowed_fields [simp]:
  "allowed (W\<lparr>sw_store := s\<rparr>) i = allowed W i" "allowed (W\<lparr>sw_worker := w\<rparr>) i = allowed W i"
  "allowed (W\<lparr>sw_resync := x\<rparr>) i = allowed W i" "allowed (W\<lparr>sw_delivered := f\<rparr>) i = allowed W i"
  by (simp_all add: allowed_def)

lemma tame_sendable:
  assumes "tame s s'" "sendable_in s' i"
  shows "sendable_in s i \<or> ms_next_draft s \<le> i"
  using assms by (auto simp: tame_def sendable_in_def)

lemma once_store_tame:
  assumes "once_store W" "tame (sw_store W) s'"
  shows "once_store (W\<lparr>sw_store := s'\<rparr>)"
  using assms tame_sendable [OF assms(2)]
  by (auto simp: once_store_def room_def tame_def) (metis gr_implies_not0)

lemma once_worker_tame:
  assumes "once_store W" "once_worker W" "tame (sw_store W) s'"
  shows "once_worker (W\<lparr>sw_store := s'\<rparr>)"
proof (cases "\<exists>j i q. sw_worker W = Submitting j i q")
  case True
  then obtain j i q where w: "sw_worker W = Submitting j i q" by blast
  with assms(2) have ok: "room W (sj_draft j)" "sendable_in (sw_store W) (sj_draft j) \<longrightarrow>
      Suc (sw_delivered W (sj_draft j)) < allowed W (sj_draft j)" by (simp_all add: once_worker_def)
  have "\<not> ms_next_draft (sw_store W) \<le> sj_draft j"
    using assms(1) ok(1) by (auto simp: once_store_def room_def)
  with ok tame_sendable [OF assms(3), of "sj_draft j"] w show ?thesis
    by (auto simp: once_worker_def room_def)
next
  case False
  with assms(2) show ?thesis by (auto simp: once_worker_def room_def split: worker.splits)
qed

lemma once_tame: "once_inv W \<Longrightarrow> tame (sw_store W) s' \<Longrightarrow> once_inv (W\<lparr>sw_store := s'\<rparr>)"
  by (simp add: once_inv_def once_store_tame once_worker_tame)

text \<open>Marking a draft sendable again is safe while there is room for it.\<close>

lemma once_store_mark:
  assumes "once_store W" "room W i"
  shows "once_store (W\<lparr>sw_store := mark_or_keep (sw_store W) i st\<rparr>)"
proof (cases "set_draft_state (sw_store W) i st")
  case (Inl e)
  with assms(1) show ?thesis by (simp add: mark_or_keep_def)
next
  case (Inr s')
  from set_draft_state_effect [OF Inr] send_rows_ops [of s' "sw_store W"] assms
  show ?thesis
    by (auto simp: once_store_def room_def mark_or_keep_def Inr sendable_in_def split: if_splits)
qed

lemma once_store_worker [simp]:
  "once_store (W\<lparr>sw_worker := w\<rparr>) = once_store W" "once_store (W\<lparr>sw_resync := x\<rparr>) = once_store W"
  by (simp_all add: once_store_def room_def)

lemma room_fields [simp]:
  "room (W\<lparr>sw_store := s\<rparr>) i = room W i" "room (W\<lparr>sw_worker := w\<rparr>) i = room W i"
  "room (W\<lparr>sw_resync := x\<rparr>) i = room W i"
  by (simp_all add: room_def)

lemma resolve_ready:
  assumes "resolve_send L True s i = (s', Inr (JobReady job))"
  shows "s' = s" "sj_draft job = i" "sendable_in s i"
proof -
  from assms obtain d where d: "get_draft s i = Some d"
    and st: "d_state d \<noteq> DraftSent" "d_state d \<noteq> Sending" "d_state d \<noteq> Unconfirmed"
    and r: "s' = s" "resolve_sendable L s d = Inr (JobReady job)"
    by (auto simp: resolve_send_def split: option.splits if_splits sum.splits)
  show "s' = s" by fact
  from st have "sendable (d_state d)" by (cases "d_state d") (auto simp: sendable_def)
  with d show "sendable_in s i" by (simp add: sendable_in_def draft_state_of_def)
  from d have "d_id d = i" using get_draft_row_id by (auto simp: get_draft_def)
  with r(2) show "sj_draft job = i"
    by (auto simp: resolve_sendable_def job_for_def split: if_splits option.splits sum.splits)
qed

lemma resolve_impossible:
  assumes "resolve_send L True s i = (s', Inr (JobImpossible reason))"
  shows "s' = s" "sendable_in s i"
proof -
  from assms obtain d where d: "get_draft s i = Some d"
    and st: "d_state d \<noteq> DraftSent" "d_state d \<noteq> Sending" "d_state d \<noteq> Unconfirmed"
    and r: "s' = s"
    by (auto simp: resolve_send_def split: option.splits if_splits sum.splits)
  show "s' = s" by fact
  from st have "sendable (d_state d)" by (cases "d_state d") (auto simp: sendable_def)
  with d show "sendable_in s i" by (simp add: sendable_in_def draft_state_of_def)
qed

lemma once_store_delivered:
  assumes "once_store W" "room W i"
    and "sendable_in (sw_store W) i \<longrightarrow> Suc (sw_delivered W i) < allowed W i"
  shows "once_store (W\<lparr>sw_delivered := bump i (sw_delivered W)\<rparr>)"
  using assms by (auto simp: once_store_def room_def bump_def)

lemma may_go_again_failed: "is_failed out \<Longrightarrow> may_go_again out"
  by (cases out) (simp_all add: is_failed_def may_go_again_def)

lemma once_works:
  assumes inv: "once_inv W"
    and st: "worker_step L A (sw_store W) (sw_resync W) (sw_worker W) = (s', resync', w')"
  shows "once_inv (W\<lparr>sw_store := s', sw_resync := resync', sw_worker := w',
      sw_delivered := (if w' = sw_worker W then sw_delivered W else count_delivery w' (sw_delivered W))\<rparr>)"
proof -
  have below: "drafts_below (sw_store W)" and os: "once_store W" and ow: "once_worker W"
    using inv by (simp_all add: once_inv_def once_store_def)
  have tame_case: "once_inv (W\<lparr>sw_store := s', sw_resync := resync', sw_worker := w',
      sw_delivered := (if w' = sw_worker W then sw_delivered W else count_delivery w' (sw_delivered W))\<rparr>)"
    if "tame (sw_store W) s'" "\<And>f. count_delivery w' f = f"
      "once_worker (W\<lparr>sw_store := s', sw_worker := w'\<rparr>)"
    using once_store_tame [OF os that(1)] that(2,3)
    by (auto simp: once_inv_def once_store_def once_worker_def room_def split: worker.splits)
  show ?thesis
  proof (cases "sw_worker W")
    case Idle
    with st show ?thesis using inv by (simp add: once_inv_def once_store_def once_worker_def room_def)
  next
    case (Resolved job)
    with st ow obtain i where w': "w' = Filed job i" "room W (sj_draft job)"
        "s' = fst (file_sent_locally L (sw_store W) job)"
      by (auto simp: once_worker_def split: prod.splits)
    have "tame (sw_store W) s'"
      unfolding w'(3) using below by (intro tame_same_rows) (simp_all add: file_sent_locally_def create_mail_def)
    with w' show ?thesis by (intro tame_case) (simp_all add: count_delivery_def once_worker_def)
  next
    case (Filed job i)
    with ow have room: "room W (sj_draft job)" by (simp add: once_worker_def)
    show ?thesis
    proof (cases "\<exists>t session. open_for_job L A job = Inr session
        \<and> set_draft_state (sw_store W) (sj_draft job) Sending = Inr t")
      case True
      then obtain t session where t: "set_draft_state (sw_store W) (sj_draft job) Sending = Inr t"
        and "open_for_job L A job = Inr session" by blast
      with st Filed have w': "w' = Submitting job i session" "s' = t" by simp_all
      have "tame (sw_store W) t" using t below by (rule tame_set_state) (simp add: sendable_def)
      moreover have "\<not> sendable_in t (sj_draft job)"
        using set_draft_state_effect [OF t] by (simp add: sendable_in_def sendable_def)
      ultimately show ?thesis
        using w' room by (intro tame_case) (simp_all add: count_delivery_def once_worker_def)
    next
      case False
      with st Filed obtain out where "w' = Submitted job i out" "s' = sw_store W"
        by (auto split: sum.splits)
      with room below show ?thesis
        by (intro tame_case) (simp_all add: tame_refl count_delivery_def once_worker_def)
    qed
  next
    case (Submitting job i session)
    define r where "r = fst (send_message (sl_smtp L) (\<lambda>_. False) (sj_from job) (sj_recipients job)
      (sj_raw job) session)"
    from st Submitting have w': "w' = Answered job i r" "s' = sw_store W" "resync' = sw_resync W"
      by (simp_all add: r_def)
    from ow Submitting have ok: "room W (sj_draft job)" "sendable_in (sw_store W) (sj_draft job) \<longrightarrow>
        Suc (sw_delivered W (sj_draft job)) < allowed W (sj_draft job)" by (simp_all add: once_worker_def)
    show ?thesis
    proof (cases "may_be_delivered r")
      case True
      with once_store_delivered [OF os ok] show ?thesis
        by (simp add: once_inv_def w' Submitting count_delivery_def once_store_def once_worker_def room_def)
    next
      case False
      with os ok show ?thesis
        by (simp add: once_inv_def w' Submitting count_delivery_def once_store_def once_worker_def room_def)
    qed
  next
    case (Answered job i r)
    show ?thesis
    proof (cases "may_be_delivered r")
      case True
      with st Answered obtain st2 where "s' = mark_or_keep (sw_store W) (sj_draft job) st2" "\<not> sendable st2"
          "w' = Accepted job i \<or> w' = Submitted job i (Uncertain indeterminate_text)"
        by (cases r) (auto simp: may_be_delivered_def sendable_def)
      then show ?thesis
        using tame_mark [OF below] by (intro tame_case) (auto simp: count_delivery_def once_worker_def may_go_again_def)
    next
      case False
      with st Answered obtain out where w': "s' = mark_or_keep (sw_store W) (sj_draft job) Queued"
          "w' = Submitted job i out"
        by (cases r) (auto simp: may_be_delivered_def)
      from False ow Answered have room: "room W (sj_draft job)" by (simp add: once_worker_def)
      from once_store_mark [OF os room, of Queued] room show ?thesis
        by (simp add: once_inv_def w' Answered count_delivery_def once_store_def once_worker_def room_def)
    qed
  next
    case (Accepted job i)
    with st have "s' = fst (confirm_sent_copy L A (sw_store W) (sw_resync W) job (Some i))"
        "w' = Submitted job i Applied"
      by (auto split: prod.splits)
    then show ?thesis using tame_confirm_sent [OF below]
      by (intro tame_case) (simp_all add: count_delivery_def once_worker_def may_go_again_def)
  next
    case (Submitted job i out)
    with st ow have w': "w' = Finished job out" "may_go_again out \<longrightarrow> room W (sj_draft job)"
      and "s' = sw_store W \<or> s' = unfile_sent_copy (sw_store W) i"
      by (auto simp: once_worker_def split: if_splits)
    then have "tame (sw_store W) s'"
      using below tame_delete_mail by (auto simp: tame_refl unfile_sent_copy_def)
    with w' show ?thesis by (intro tame_case) (simp_all add: count_delivery_def once_worker_def)
  next
    case (Finished job out)
    with st have "s' = sw_store W" "resync' = sw_resync W" "w' = sw_worker W" by simp_all
    with inv show ?thesis by simp
  next
    case (Unresolved i)
    with st have "s' = sw_store W" "resync' = sw_resync W" "w' = sw_worker W" by simp_all
    with inv show ?thesis by simp
  qed
qed

text \<open>One more submission of a draft is allowed, and the draft's state is written.\<close>

lemma once_more:
  assumes inv: "once_inv W"
    and more: "allowed W' = bump k (allowed W)" "sw_delivered W' = sw_delivered W" "sw_worker W' = sw_worker W"
    and st: "draft_state_of (sw_store W') = (draft_state_of (sw_store W))(k \<mapsto> st)"
    and rows: "send_rows (sw_store W') \<subseteq> insert k (send_rows (sw_store W))"
    and below: "drafts_below (sw_store W')" "ms_next_draft (sw_store W) \<le> ms_next_draft (sw_store W')"
      "k < ms_next_draft (sw_store W')"
  shows "once_inv W'"
proof -
  have os: "once_store W" and ow: "once_worker W" using inv by (simp_all add: once_inv_def)
  have rm: "room W i \<Longrightarrow> room W' i" for i using more by (auto simp: room_def bump_def)
  have rk: "room W' k" using os more by (auto simp: room_def once_store_def bump_def le_imp_less_Suc)
  have other: "i \<noteq> k \<Longrightarrow> allowed W' i = allowed W i \<and> sendable_in (sw_store W') i = sendable_in (sw_store W) i"
    for i using more st by (simp add: bump_def sendable_in_def)
  have "once_store W'"
    unfolding once_store_def
  proof (intro conjI allI impI)
    fix i
    show "allowed W' i = 0" if "ms_next_draft (sw_store W') \<le> i"
      using that os below other [of i] by (auto simp: once_store_def)
    show "sw_delivered W' i \<le> allowed W' i"
      using os more by (simp add: once_store_def bump_def le_SucI)
    show "0 < allowed W' i" if "i \<in> send_rows (sw_store W')"
      using that os rows other [of i] more(1) by (cases "i = k") (auto simp: once_store_def bump_def)
    show "room W' i" if "sendable_in (sw_store W') i" "0 < allowed W' i"
      using that os other [of i] rk rm by (cases "i = k") (auto simp: once_store_def)
  qed (rule below(1))
  moreover have "once_worker W'"
  proof (cases "sw_worker W")
    case (Submitting j x q)
    then show ?thesis
      using ow rm [of "sj_draft j"] rk other [of "sj_draft j"] more
      by (cases "sj_draft j = k") (auto simp: once_worker_def room_def bump_def)
  qed (use ow rm more(3) in \<open>auto simp: once_worker_def\<close>)
  ultimately show ?thesis by (simp add: once_inv_def)
qed

lemma once_queue:
  assumes inv: "once_inv W" and q: "queue_send_row (sw_store W) fresh d at nb = Inr (s', d', r)"
  shows "once_inv (W\<lparr>sw_store := s', sw_queued := bump (d_id d') (sw_queued W)\<rparr>)"
proof -
  have "drafts_below (sw_store W)" using inv by (simp add: once_inv_def once_store_def)
  note e = queue_send_effect [OF q this]
  show ?thesis
    using e by (intro once_more [OF inv, of _ "d_id d'" Queued]) (auto simp: allowed_def bump_def)
qed

text \<open>A save that takes the mark of a submission back makes room for another one.\<close>

lemma reopening_save:
  assumes "save_and_sync s d at = Inr (s', x)" "reopens s d" "drafts_below s"
  shows "draft_state_of s' = (draft_state_of s)(d_id d \<mapsto> d_state d)" "ms_next_draft s' = ms_next_draft s"
    "send_rows s' = send_rows s" "drafts_below s'" "d_id d < ms_next_draft s"
proof -
  from assms(1) obtain t e where sv: "save_draft s d = Inr (t, e)"
    by (auto simp: save_and_sync_def split: sum.splits)
  have st: "saved s t e" "d_state e = d_state d" using save_draft_effect [OF sv assms(3)] by simp_all
  have id: "d_id e = d_id d" using save_draft_id [OF sv] assms(2) by (simp add: reopens_def)
  have row: "d_id d < ms_next_draft s"
    using sv assms(2) state_bound [OF assms(3), of "d_id d"]
    by (auto simp: save_draft_def reopens_def state_row split: option.splits)
  have s': "draft_state_of s' = draft_state_of t \<and> ms_next_draft s' = ms_next_draft t
      \<and> send_rows s' = send_rows t \<and> drafts_below s' = drafts_below t"
  proof (cases "s' = t")
    case False
    with assms(1) sv obtain box r where "with_ops (\<lambda>q. enqueue_inner q (d_account e) (Draft_target (d_id e))
        (SaveDraft box) at None) t = Inr (s', r)"
      by (auto simp: save_and_sync_def enqueue_def split: sum.splits option.splits)
    from with_enqueue_effect [OF this] show ?thesis by simp
  qed simp
  with st id row show "draft_state_of s' = (draft_state_of s)(d_id d \<mapsto> d_state d)"
    "ms_next_draft s' = ms_next_draft s" "send_rows s' = send_rows s" "drafts_below s'" "d_id d < ms_next_draft s"
    by (simp_all add: saved_def)
qed

lemma once_reopen:
  assumes inv: "once_inv W" and sv: "save_and_sync (sw_store W) d at = Inr (s', x)" and re: "reopens (sw_store W) d"
  shows "once_inv (W\<lparr>sw_store := s', sw_reopened := bump (d_id d) (sw_reopened W)\<rparr>)"
proof -
  have "drafts_below (sw_store W)" using inv by (simp add: once_inv_def once_store_def)
  note e = reopening_save [OF sv re this]
  show ?thesis
    using e by (intro once_more [OF inv, of _ "d_id d" "d_state d"]) (auto simp: allowed_def bump_def)
qed

lemma once_save:
  assumes inv: "once_inv W" and sv: "save_and_sync (sw_store W) d at = Inr (s', x)"
  shows "once_inv (W\<lparr>sw_store := s', sw_reopened := count_reopening (sw_store W) d (sw_reopened W)\<rparr>)"
proof (cases "reopens (sw_store W) d")
  case True
  with once_reopen [OF inv sv] show ?thesis by (simp add: count_reopening_def)
next
  case False
  have "drafts_below (sw_store W)" using inv by (simp add: once_inv_def once_store_def)
  from once_tame [OF inv tame_user_save [OF sv False this]] show ?thesis
    using False by (simp add: count_reopening_def)
qed

lemma once_mark_sent:
  assumes "once_inv W"
  shows "once_inv (W\<lparr>sw_store := mark_sent (sw_store W) i\<rparr>)"
proof (rule once_tame [OF assms])
  have "drafts_below (sw_store W)" using assms by (simp add: once_inv_def once_store_def)
  then show "tame (sw_store W) (mark_sent (sw_store W) i)"
    by (simp add: mark_sent_def tame_refl tame_mark sendable_def)
qed

lemma once_give_up:
  assumes "once_inv W" "room W i"
  shows "once_inv (W\<lparr>sw_store := mark_draft_failed (sw_store W) i, sw_worker := Idle\<rparr>)"
proof -
  from assms have "once_store (W\<lparr>sw_store := mark_draft_failed (sw_store W) i\<rparr>)"
    unfolding mark_draft_failed_def once_inv_def by (blast intro: once_store_mark)
  then show ?thesis by (simp add: once_inv_def once_worker_def)
qed

lemma once_step:
  assumes "sends L W W'" "once_inv W"
  shows "once_inv W'"
proof -
  have below: "drafts_below (sw_store W)" using assms(2) by (simp add: once_inv_def once_store_def)
  show ?thesis
  using assms
proof cases
  case (user_queues fresh d at not_before s' d' r)
  with assms(2) show ?thesis by (simp add: once_queue)
next
  case (starts i s' job)
  with assms(2) resolve_ready [OF starts(4)] show ?thesis
    by (auto simp: once_inv_def once_store_def once_worker_def room_def)
next
  case (cannot_start i s' reason)
  with assms(2) resolve_impossible [OF cannot_start(4)] show ?thesis
    by (auto simp: once_inv_def once_store_def once_worker_def room_def)
next
  case (works A s' resync' w')
  with once_works [OF assms(2) works(2)] show ?thesis by simp
next
  case (gives_up job out)
  with assms(2) have "room W (sj_draft job)"
    by (auto simp: once_inv_def once_worker_def may_go_again_def is_failed_def split: outcome.splits)
  with gives_up assms(2) show ?thesis by (simp add: once_give_up)
next
  case (refuses i)
  with assms(2) have "room W i" by (simp add: once_inv_def once_worker_def)
  with refuses assms(2) show ?thesis by (simp add: once_give_up)
next
  case (ends_while_submitting job i session)
  with assms(2) show ?thesis
    using once_store_delivered [of W "sj_draft job"]
    by (auto simp: once_inv_def once_worker_def once_store_def room_def)
next
  case (user_cancels i at s' out)
  with assms(2) below show ?thesis by (simp add: once_tame tame_cancel)
next
  case (user_discards i at s' r)
  with assms(2) below show ?thesis by (simp add: once_tame tame_discard)
next
  case (user_saves d at s' x)
  with assms(2) show ?thesis by (simp add: once_save)
next
  case (user_marks_sent i)
  with assms(2) show ?thesis by (simp add: once_mark_sent)
next
  case (pass_heals account s' k)
  with assms(2) below show ?thesis by (simp add: once_tame tame_heal)
next
  case (pass_confirms account s' ms)
  with assms(2) below show ?thesis by (simp add: once_tame tame_confirm confirm_unconfirmed_def)
next
  case (other_writes s')
  with assms(2) below show ?thesis by (simp add: once_tame tame_elsewhere)
next
  case (need_not_start i s' r)
  with assms(2) below show ?thesis by (metis once_tame tame_resolve)
next
  case (settles job out)
  with assms(2) show ?thesis by (simp add: once_inv_def once_worker_def)
next
  case ends
  with assms(2) show ?thesis by (simp add: once_inv_def once_worker_def)
qed
qed

lemma once_reachable: "send_reachable L W \<Longrightarrow> once_inv W"
proof (induction rule: send_reachable.induct)
  case (reachable_start s)
  then show ?case
    by (simp add: fresh_store_def send_start_def once_inv_def once_store_def once_worker_def
        drafts_below_def room_def allowed_def)
next
  case (reachable_step W W')
  then show ?case by (blast intro: once_step)
qed

end
