(* ===== verification/Smtp_Props.thy ===== *)
theory Smtp_Props
  imports Smtp_Session
begin

section \<open>What a submission promises\<close>

text \<open>
  Three things the rest of the program relies on: an error says truthfully whether the
  payload had begun to leave (\<open>smtp_error_tells_the_window\<close>), no \<open>Bcc\<close> field is in
  what leaves (\<open>smtp_bcc_never_leaves\<close>), and a password is not sent in the clear to
  another machine.  The first rests on one lemma about the loop of \<open>send_payload\<close>: its
  two flags are read off the log of the exchange.
\<close>

subsection \<open>The payload window\<close>

fun is_got :: "wire \<Rightarrow> bool" where
  "is_got (Got _) = True"
| "is_got _ = False"

fun is_put :: "wire \<Rightarrow> bool" where
  "is_put (Put _) = True"
| "is_put (PutFailed _) = True"
| "is_put _ = False"

text \<open>Something was written, or tried, after an answer had been read.\<close>

fun payload_begun :: "wire list \<Rightarrow> bool" where
  "payload_begun [] = False"
| "payload_begun (w # ws) = (if is_got w then list_ex is_put ws else payload_begun ws)"

definition window :: "bool \<Rightarrow> bool \<Rightarrow> wire list \<Rightarrow> bool" where
  "window answered begun ws \<longleftrightarrow>
     begun \<or> (if answered then list_ex is_put ws else payload_begun ws)"

lemma window_simps [simp]:
  "window a b [] \<longleftrightarrow> b"
  "window a b (Got bs # ws) \<longleftrightarrow> window True b ws"
  "window a b (Put bs # ws) \<longleftrightarrow> window a (b \<or> a) ws"
  "window a b [PutFailed bs] \<longleftrightarrow> b \<or> a"
  "window False False ws \<longleftrightarrow> payload_begun ws"
  by (auto simp: window_def)

text \<open>The failures of the loop before they are tagged, and where each is tagged.\<close>

definition raised :: "smtp_lib \<Rightarrow> smtp_error \<Rightarrow> bool" where
  "raised L e \<longleftrightarrow> e \<in> range from_transport \<or> (\<exists>t c. e = map_data_error L t c)"

lemma stream_read_cases:
  assumes "stream_read s = (r, s')"
  shows "(\<exists>e. r = Inl e \<and> se_log s' = se_log s) \<or> (\<exists>bs. r = Inr bs \<and> se_log s' = se_log s @ [Got bs])"
  using assms by (auto simp: stream_read.simps split: list.splits io_result.splits)

lemma stream_write_cases:
  assumes "stream_write b s = (r, s')"
  shows "(\<exists>e. r = Inl e \<and> se_log s' = se_log s @ [PutFailed b]) \<or> (r = Inr () \<and> se_log s' = se_log s @ [Put b])"
  using assms by (auto simp: stream_write.simps split: list.splits io_result.splits)

lemma payload_loop_log:
  assumes "payload_loop L co a b h s = (r, s')"
  shows "\<exists>dat. se_log s' = se_log s @ dat
    \<and> (\<forall>e. r = Inl e \<longrightarrow> (\<exists>e0. raised L e0 \<and> e = tag_error (window a b dat) e0))"
  using assms
proof (induction L co a b h s arbitrary: r s' rule: payload_loop.induct)
  case (1 L co a b h s)
  note unfold = payload_loop.simps [of L co a b h s]
  show ?case
  proof (cases "co h")
    case (Complete q)
    show ?thesis
    proof (cases q)
      case (Inl e)
      with 1(3) unfold Complete have "r = Inl (tag_error b (map_data_error L (se_replies s) e))" "s' = s"
        by auto
      then show ?thesis by (auto simp: raised_def intro!: exI [of _ "[]"])
    next
      case (Inr u)
      with 1(3) unfold Complete have "r = Inr ()" "s' = s" by auto
      then show ?thesis by auto
    qed
  next
    case WantsRead
    obtain q t where q: "stream_read s = (q, t)" by fastforce
    from stream_read_cases [OF q] show ?thesis
    proof
      assume "\<exists>e. q = Inl e \<and> se_log t = se_log s"
      then obtain e where "q = Inl e" "se_log t = se_log s" by blast
      moreover from this 1(3) unfold WantsRead q
      have "r = Inl (tag_error b (from_transport e))" "s' = t" by auto
      ultimately show ?thesis by (auto simp: raised_def intro!: exI [of _ "[]"])
    next
      assume "\<exists>bs. q = Inr bs \<and> se_log t = se_log s @ [Got bs]"
      then obtain bs where bs: "q = Inr bs" "se_log t = se_log s @ [Got bs]" by blast
      with 1(3) unfold WantsRead q
      have "payload_loop L co True b (h @ [Some bs]) (saw L bs t) = (r, s')" by simp
      from 1(1) [OF WantsRead q [symmetric] bs(1) this]
      obtain dat where "se_log s' = se_log t @ dat"
        "\<forall>e. r = Inl e \<longrightarrow> (\<exists>e0. raised L e0 \<and> e = tag_error (window True b dat) e0)"
        by auto
      with bs(2) have "se_log s' = se_log s @ (Got bs # dat)"
        "\<forall>e. r = Inl e \<longrightarrow> (\<exists>e0. raised L e0 \<and> e = tag_error (window a b (Got bs # dat)) e0)"
        by simp_all
      then show ?thesis by blast
    qed
  next
    case (WantsWrite d)
    obtain q t where q: "stream_write d s = (q, t)" by fastforce
    from stream_write_cases [OF q] show ?thesis
    proof
      assume "\<exists>e. q = Inl e \<and> se_log t = se_log s @ [PutFailed d]"
      then obtain e where "q = Inl e" "se_log t = se_log s @ [PutFailed d]" by blast
      moreover from this 1(3) unfold WantsWrite q
      have "r = Inl (tag_error (b \<or> a) (from_transport e))" "s' = t" by auto
      ultimately show ?thesis by (auto simp: raised_def intro!: exI [of _ "[PutFailed d]"])
    next
      assume "q = Inr () \<and> se_log t = se_log s @ [Put d]"
      then have w: "q = Inr ()" "se_log t = se_log s @ [Put d]" by simp_all
      with 1(3) unfold WantsWrite q
      have "payload_loop L co a (b \<or> a) (h @ [None]) t = (r, s')" by simp
      from 1(2) [OF WantsWrite q [symmetric] w(1) this]
      obtain dat where "se_log s' = se_log t @ dat"
        "\<forall>e. r = Inl e \<longrightarrow> (\<exists>e0. raised L e0 \<and> e = tag_error (window a (b \<or> a) dat) e0)"
        by auto
      with w(2) have "se_log s' = se_log s @ (Put d # dat)"
        "\<forall>e. r = Inl e \<longrightarrow> (\<exists>e0. raised L e0 \<and> e = tag_error (window a b (Put d # dat)) e0)"
        by simp_all
      then show ?thesis by blast
    qed
  qed
qed

text \<open>The answers that are not a silence: what the server said, or TLS refusing the bytes.\<close>

definition answered_with :: "smtp_error \<Rightarrow> bool" where
  "answered_with e \<longleftrightarrow>
     (case e of MessageRejected _ _ \<Rightarrow> True | Transient _ _ \<Rightarrow> True
      | SmtpProtocol _ \<Rightarrow> True | SmtpTls _ _ \<Rightarrow> True | _ \<Rightarrow> False)"

lemma answered_with_tag [simp]: "answered_with (tag_error w e) \<longleftrightarrow> answered_with e"
  by (cases e) (auto simp: answered_with_def tag_error_def once_the_payload_was_on_the_wire_def)

lemma raised_tagged:
  assumes "raised L e0"
  shows "submission_is_indeterminate (tag_error w e0) \<longleftrightarrow> w \<and> \<not> answered_with e0"
    and "\<not> submission_is_indeterminate e0"
    and "\<not> submission_is_indeterminate (tag_error w e0) \<Longrightarrow> tag_error w e0 = e0"
proof -
  have *: "\<not> submission_is_indeterminate e0 \<and> (answered_with e0 \<or> (\<exists>a b. e0 = SmtpDisconnected a b)
      \<or> (\<exists>a b. e0 = SmtpTimedOut a b) \<or> (\<exists>a b. e0 = SmtpIo a b))"
    using assms unfolding raised_def
  proof
    assume "e0 \<in> range from_transport"
    then obtain t where "e0 = from_transport t" by blast
    then show ?thesis by (cases t) (auto simp: submission_is_indeterminate_def answered_with_def)
  next
    assume "\<exists>t c. e0 = map_data_error L t c"
    then obtain t c where "e0 = map_data_error L t c" by blast
    then show ?thesis
      by (cases c) (auto simp: map_data_error_def classify_def map_transport_error_def Let_def
          submission_is_indeterminate_def answered_with_def split: if_splits)
  qed
  then show "submission_is_indeterminate (tag_error w e0) \<longleftrightarrow> w \<and> \<not> answered_with e0"
    by (auto simp: tag_error_def once_the_payload_was_on_the_wire_def submission_is_indeterminate_def
        answered_with_def split: smtp_error.splits)
  show "\<not> submission_is_indeterminate e0" using * by blast
  show "\<not> submission_is_indeterminate (tag_error w e0) \<Longrightarrow> tag_error w e0 = e0"
    by (auto simp: tag_error_def once_the_payload_was_on_the_wire_def submission_is_indeterminate_def
        split: smtp_error.splits if_splits)
qed

lemma parse_mailbox_error: "parse_mailbox L a = Inl e \<Longrightarrow> \<not> submission_is_indeterminate e"
  by (auto simp: parse_mailbox_def Let_def submission_is_indeterminate_def
      split: option.splits if_splits)

lemma map_envelope_error:
  "\<not> submission_is_indeterminate (map_mail_error L a t e)"
  "\<not> submission_is_indeterminate (map_rcpt_error L a t e)"
  by (cases e; auto simp: map_mail_error_def map_rcpt_error_def classify_def map_transport_error_def
      Let_def submission_is_indeterminate_def)+

lemma send_rcpts_error:
  "send_rcpts L c n to s = (Inl e, s') \<Longrightarrow> \<not> submission_is_indeterminate e"
proof (induction L c n to s rule: send_rcpts.induct)
  case (2 L c n r rest s)
  then show ?case
    by (auto split: if_splits sum.splits prod.splits simp: map_envelope_error
        dest: parse_mailbox_error) (simp add: submission_is_indeterminate_def)
qed simp

lemma send_envelope_error:
  assumes "send_envelope L c a to s = (Inl e, s')"
  shows "\<not> submission_is_indeterminate e"
proof -
  have *: "\<not> submission_is_indeterminate e" if "send_mail_rcpts L c a to ps s = (Inl e, s')" for ps
    using that
    by (auto simp: send_mail_rcpts_def map_envelope_error split: sum.splits prod.splits
        dest: parse_mailbox_error send_rcpts_error)
  have "\<not> submission_is_indeterminate (SmtpConfiguration r)" for r
    by (simp add: submission_is_indeterminate_def)
  with assms * show ?thesis
    by (auto simp: send_envelope_def Let_def split: option.splits if_splits)
qed

text \<open>The log only grows.\<close>

definition grows :: "smtp_session \<Rightarrow> smtp_session \<Rightarrow> bool" where
  "grows s s' \<longleftrightarrow> (\<exists>d. se_log s' = se_log s @ d)"

lemma grows_refl [simp]: "grows s s"
  by (simp add: grows_def)

lemma grows_trans: "grows s t \<Longrightarrow> grows t u \<Longrightarrow> grows s u"
  by (auto simp: grows_def)

lemma grows_saw [simp]: "grows (saw L bs s) t \<longleftrightarrow> grows s t"
  by (simp add: grows_def)

lemma stream_grows:
  "stream_read s = (r, s') \<Longrightarrow> grows s s'" "stream_write b s = (q, s') \<Longrightarrow> grows s s'"
  using stream_read_cases [of s r s'] stream_write_cases [of b s q s'] by (auto simp: grows_def)

lemma run_co_grows: "run_co L co h s = (r, s') \<Longrightarrow> grows s s'"
proof (induction L co h s arbitrary: r s' rule: run_co.induct)
  case (1 L co h s)
  note unfold = run_co.simps [of L co h s]
  show ?case
  proof (cases "co h")
    case WantsRead
    obtain q t where q: "stream_read s = (q, t)" by fastforce
    show ?thesis
    proof (cases q)
      case (Inl e)
      with 1(3) unfold WantsRead q have "s' = t" by simp
      with stream_grows(1) [OF q] show ?thesis by simp
    next
      case (Inr bs)
      with 1(3) unfold WantsRead q have "run_co L co (h @ [Some bs]) (saw L bs t) = (r, s')" by simp
      from 1(1) [OF WantsRead q [symmetric] Inr this] have "grows t s'" by (simp add: grows_def)
      with stream_grows(1) [OF q] show ?thesis by (rule grows_trans)
    qed
  next
    case (WantsWrite b)
    obtain q t where q: "stream_write b s = (q, t)" by fastforce
    show ?thesis
    proof (cases q)
      case (Inl e)
      with 1(3) unfold WantsWrite q have "s' = t" by simp
      with stream_grows(2) [OF q] show ?thesis by simp
    next
      case (Inr u)
      with 1(3) unfold WantsWrite q have "run_co L co (h @ [None]) t = (r, s')" by simp
      from stream_grows(2) [OF q] 1(2) [OF WantsWrite q [symmetric] Inr this] show ?thesis
        by (rule grows_trans)
    qed
  next
    case (Complete r)
    with 1(3) unfold show ?thesis by simp
  qed
qed

lemma send_rcpts_grows: "send_rcpts L c n to s = (r, s') \<Longrightarrow> grows s s'"
proof (induction to arbitrary: n s)
  case (Cons a rest)
  show ?case
  proof (cases "c n \<or> (\<exists>e. parse_mailbox L a = Inl e)")
    case True
    with Cons.prems have "s' = s" by (auto split: if_splits)
    then show ?thesis by simp
  next
    case False
    then obtain path where path: "\<not> c n" "parse_mailbox L a = Inr path"
      by (cases "parse_mailbox L a") auto
    obtain q t where q: "smtp_run L (co_rcpt L path) s = (q, t)" by fastforce
    then have st: "grows s t" unfolding smtp_run_def by (rule run_co_grows)
    show ?thesis
    proof (cases q)
      case (Inl e)
      with Cons.prems path q have "s' = t" by simp
      with st show ?thesis by simp
    next
      case (Inr u)
      with Cons.prems path q have "send_rcpts L c (Suc n) rest t = (r, s')" by simp
      with Cons.IH st show ?thesis by (blast intro: grows_trans)
    qed
  qed
qed simp

lemma send_envelope_grows: "send_envelope L c a to s = (r, s') \<Longrightarrow> grows s s'"
  by (auto simp: send_envelope_def send_mail_rcpts_def smtp_run_def Let_def
      split: option.splits if_splits sum.splits prod.splits
      dest!: run_co_grows send_rcpts_grows intro: grows_trans)

text \<open>
  C11: What a failed submission says about the payload is the truth.  An error is
  indeterminate exactly when the envelope was accepted, something was written after the
  server's answer to \<open>DATA\<close>, and what failed was the connection and not an answer; so a
  determinate failure means that nothing of the message was written, or that the server (or
  the TLS layer) answered.
\<close>

theorem smtp_error_tells_the_window:
  assumes "send_message L cancelled sender to raw s = (Inl e, s')"
  shows "submission_is_indeterminate e \<longleftrightarrow>
    (\<exists>s1 dat. send_envelope L cancelled sender to s = (Inr (), s1) \<and> se_log s' = se_log s1 @ dat
      \<and> payload_begun dat \<and> \<not> answered_with e)"
proof (cases "\<exists>s1. send_envelope L cancelled sender to s = (Inr (), s1)
    \<and> send_payload L (strip_bcc raw) s1 = (Inl e, s')")
  case True
  then obtain s1 where s1: "send_envelope L cancelled sender to s = (Inr (), s1)"
    "send_payload L (strip_bcc raw) s1 = (Inl e, s')" by blast
  from payload_loop_log [OF s1(2) [unfolded send_payload_def]]
  obtain dat e0 where dat: "se_log s' = se_log s1 @ dat" "raised L e0" "e = tag_error (payload_begun dat) e0"
    by auto
  have "submission_is_indeterminate e \<longleftrightarrow> payload_begun dat \<and> \<not> answered_with e"
    unfolding dat(3) answered_with_tag by (rule raised_tagged(1) [OF dat(2)])
  with s1(1) dat(1) show ?thesis by auto
next
  case False
  with assms have e: "\<not> submission_is_indeterminate e"
    and s': "\<And>s1. send_envelope L cancelled sender to s = (Inr (), s1) \<Longrightarrow> s' = s \<or> s' = s1"
    by (auto simp: send_message_def submission_is_indeterminate_def
        split: if_splits prod.splits sum.splits dest: send_envelope_error)
  have "\<not> payload_begun dat" if "send_envelope L cancelled sender to s = (Inr (), s1)" "se_log s' = se_log s1 @ dat" for s1 dat
    using s' [OF that(1)] send_envelope_grows [OF that(1)] that(2) by (auto simp: grows_def)
  with e show ?thesis by blast
qed

subsection \<open>What leaves carries no \<open>Bcc\<close>\<close>

text \<open>
  The reference: the header section is a list of fields, a field being a line with the
  folded lines that follow it; what comes after it is \<open>header_rest\<close>.
\<close>

function header_rest :: "string \<Rightarrow> string" where
  "header_rest raw =
     (if raw = [] then []
      else if is_blank (fst (next_line raw)) then raw
      else header_rest (snd (next_line raw)))"
  by pat_completeness auto
termination by (relation "measure length") (auto intro: next_line_shorter)

declare header_rest.simps [simp del]

function fields :: "string list \<Rightarrow> string list list" where
  "fields [] = []"
| "fields (l # ls) =
     (l # takeWhile starts_with_whitespace ls) # fields (dropWhile starts_with_whitespace ls)"
  by pat_completeness auto
termination by (relation "measure length") (auto simp: length_dropWhile_le le_imp_less_Suc)

text \<open>The loop over lines.\<close>

fun kept :: "bool \<Rightarrow> string list \<Rightarrow> string list" where
  "kept b [] = []"
| "kept b (l # ls) =
     (let b' = (if starts_with_whitespace l then b else is_bcc l) in
      (if b' then [] else [l]) @ kept b' ls)"

lemma header_split: "concat (header_lines raw) @ header_rest raw = raw"
proof (induction raw rule: header_lines.induct)
  case (1 raw)
  then show ?case
    using next_line_append [of raw]
    by (auto simp: header_lines.simps [of raw] header_rest.simps [of raw])
qed

lemma strip_loop_kept: "strip_loop b raw = concat (kept b (header_lines raw)) @ header_rest raw"
proof (induction b raw rule: strip_loop.induct)
  case (1 b raw)
  then show ?case
    by (auto simp: strip_loop.simps [of b raw] header_lines.simps [of raw] header_rest.simps [of raw]
        Let_def next_line_append)
qed

lemma kept_fields:
  "kept b ls = (if b then [] else takeWhile starts_with_whitespace ls)
     @ concat (filter (\<lambda>f. \<not> is_bcc (hd f)) (fields (dropWhile starts_with_whitespace ls)))"
  by (induction ls arbitrary: b) (auto simp: Let_def is_bcc_def)

lemma concat_fields: "concat (fields ls) = ls"
proof (induction ls rule: fields.induct)
  case (2 l ls)
  then show ?case by simp
qed simp

lemma kept_False: "kept False ls = concat (filter (\<lambda>f. \<not> is_bcc (hd f)) (fields ls))"
proof (cases ls)
  case (Cons l r)
  show ?thesis
  proof (cases "starts_with_whitespace l")
    case True
    with Cons show ?thesis by (auto simp: kept_fields [of False r] is_bcc_def Let_def)
  next
    case False
    with Cons show ?thesis by (auto simp: kept_fields [of _ r] Let_def)
  qed
qed simp

lemma hd_fields: "f \<in> set (fields ls) \<Longrightarrow> hd f \<in> set ls"
  by (induction ls rule: fields.induct) (auto dest: set_dropWhileD)

lemma kept_no_bcc: "\<not> list_ex is_bcc (kept b ls)"
  by (induction ls arbitrary: b) (auto simp: Let_def is_bcc_def)

lemma next_line_kept:
  assumes "X = [] \<or> LF \<in> set (fst (next_line raw))"
  shows "next_line (fst (next_line raw) @ X) = (fst (next_line raw), X)"
  using assms by (induction raw) (auto simp: case_prod_unfold Let_def)

lemma next_line_last: "LF \<notin> set (fst (next_line raw)) \<Longrightarrow> snd (next_line raw) = []"
  by (induction raw) (auto simp: case_prod_unfold Let_def split: if_splits)

lemma next_line_Nil [simp]: "fst (next_line raw) = [] \<longleftrightarrow> raw = []"
  by (cases raw) (auto simp: case_prod_unfold Let_def)

text \<open>Reading the result again finds the lines that were kept.\<close>

lemma header_lines_strip: "header_lines (strip_loop b raw) = kept b (header_lines raw)"
proof (induction b raw rule: strip_loop.induct)
  case (1 b raw)
  show ?case
  proof (cases "raw = [] \<or> is_blank (fst (next_line raw))")
    case True
    then show ?thesis
      by (auto simp: strip_loop.simps [of b raw] header_lines.simps [of raw] next_line_append)
        (simp_all add: header_lines.simps)
  next
    case False
    define l where "l = fst (next_line raw)"
    define b' where "b' = (if starts_with_whitespace l then b else is_bcc l)"
    define X where "X = strip_loop b' (snd (next_line raw))"
    have IH: "header_lines X = kept b' (header_lines (snd (next_line raw)))"
      unfolding X_def using 1 False by (simp add: l_def b'_def)
    have lines: "header_lines raw = l # header_lines (snd (next_line raw))"
      using False by (simp add: header_lines.simps [of raw] l_def)
    have loop: "strip_loop b raw = (if b' then [] else l) @ X"
      using False by (simp add: strip_loop.simps [of b raw] Let_def l_def b'_def X_def)
    have "X = [] \<or> LF \<in> set l"
      using next_line_last [of raw] by (auto simp: X_def l_def strip_loop.simps)
    then have next_line_l: "next_line (l @ X) = (l, X)" unfolding l_def by (rule next_line_kept)
    have "header_lines (l @ X) = l # header_lines X"
      using False next_line_l by (subst header_lines.simps) (auto simp: l_def)
    with IH lines loop show ?thesis by (simp add: b'_def Let_def)
  qed
qed

lemma kept_id: "\<not> list_ex is_bcc ls \<Longrightarrow> kept False ls = ls"
  by (induction ls) (auto simp: Let_def)

lemma strip_bcc_loop: "strip_bcc raw = strip_loop False raw"
  by (simp add: strip_bcc_def strip_loop_kept kept_id header_split)

lemma strip_bcc_idem: "strip_bcc (strip_bcc raw) = strip_bcc raw"
proof -
  have "\<not> list_ex is_bcc (header_lines (strip_loop False raw))"
    by (simp add: header_lines_strip kept_no_bcc)
  then show ?thesis by (simp add: strip_bcc_loop [of raw] strip_bcc_def [of "strip_loop False raw"])
qed

text \<open>
  C12: No \<open>Bcc\<close> field leaves, and nothing else is lost: what the session hands to
  \<open>DATA\<close> is the message without exactly the fields whose first line is a \<open>Bcc\<close> line,
  each with all its folded lines, and with the end of the header section and the body as
  they were.  Read again it shows no \<open>Bcc\<close> line, and a submission is the same one whether
  the message it is given still had the fields or not.
\<close>

theorem smtp_bcc_never_leaves:
  "raw = concat (concat (fields (header_lines raw))) @ header_rest raw
   \<and> strip_bcc raw =
       concat (concat (filter (\<lambda>f. \<not> is_bcc (hd f)) (fields (header_lines raw)))) @ header_rest raw
   \<and> \<not> list_ex is_bcc (header_lines (strip_bcc raw))
   \<and> send_message L cancelled sender to raw s = send_message L cancelled sender to (strip_bcc raw) s"
proof (intro conjI)
  show "raw = concat (concat (fields (header_lines raw))) @ header_rest raw"
    by (simp add: concat_fields header_split)
  show "strip_bcc raw =
       concat (concat (filter (\<lambda>f. \<not> is_bcc (hd f)) (fields (header_lines raw)))) @ header_rest raw"
    by (simp add: strip_bcc_loop strip_loop_kept kept_False)
  show "\<not> list_ex is_bcc (header_lines (strip_bcc raw))"
    by (simp add: strip_bcc_loop header_lines_strip kept_no_bcc)
  show "send_message L cancelled sender to raw s = send_message L cancelled sender to (strip_bcc raw) s"
    by (simp only: send_message_def strip_bcc_idem)
qed

subsection \<open>A concrete library\<close>

text \<open>
  An \<open>io-smtp\<close> reduced to what the witnesses need: every command is written and answered
  once, and \<open>DATA\<close> is the exchange the session's own comment names: the command, the
  \<open>354\<close>, the body, the reply.
\<close>

definition demo_co_data :: "string \<Rightarrow> coroutine" where
  "demo_co_data raw h =
     (if length h = 1 then WantsWrite ''DATA''
      else if length h = 2 \<or> length h = 4 then WantsRead
      else if length h = 3 then
        (if h ! 2 = Some ''354'' then WantsWrite raw else Complete (Inl (CommandRejected 500 ''no'')))
      else if h ! 4 = Some ''250'' then Complete (Inr ())
      else Complete (Inl (ClientOther ''unreadable'')))"

definition demo_co_cmd :: "string \<Rightarrow> coroutine" where
  "demo_co_cmd cmd h =
     (if length h = 1 then WantsWrite cmd else if length h = 2 then WantsRead else Complete (Inr ()))"

definition demo_lib :: smtp_lib where
  "demo_lib =
     \<lparr>is_complete = (\<lambda>_. True), parse_response = (\<lambda>_. None), domain_to_ascii = Some,
      parses_loopback = (\<lambda>_. False), quoted = id, transport_text = (\<lambda>_. ''transport''),
      client_text = (\<lambda>_. ''text''), co_open = (\<lambda>_ _ _ h. if length h = 1 then OpenTls ''h'' 465 else OpenDone (Inr [])),
      co_mail = (\<lambda>_ _. demo_co_cmd ''MAIL''), co_rcpt = (\<lambda>_. demo_co_cmd ''RCPT''),
      co_data = demo_co_data, co_quit = demo_co_cmd ''QUIT''\<rparr>"

definition demo_session :: "io_result list \<Rightarrow> smtp_session" where
  "demo_session script =
     \<lparr>se_script = script, se_log = [], se_encrypted = True, se_replies = tap_new,
      se_endpoint = ''h:465'', se_account = ''a'', se_caps = []\<rparr>"

lemmas demo_smtp =
  demo_lib_def demo_session_def demo_co_data_def demo_co_cmd_def send_message_def
  send_envelope_def send_mail_rcpts_def smtp_run_def send_payload_def run_co.simps
  payload_loop.simps stream_read.simps stream_write.simps saw_def tap_saw_def tap_new_def
  parse_mailbox_def local_part_needs_utf8_def byte_def bytes_def is_control_at_def
  tag_error_def once_the_payload_was_on_the_wire_def submission_is_indeterminate_def
  answered_with_def map_data_error_def map_transport_error_def

text \<open>The connection drops while the reply to the message is awaited.\<close>

definition demo_lost :: "io_result list" where
  "demo_lost = [IoOk [], IoOk ''250'', IoOk [], IoOk ''250'', IoOk [], IoOk ''354'', IoOk []]"

lemma demo_lost_run:
  "fst (send_message demo_lib (\<lambda>_. False) ''a@b'' [''c@d''] ''x'' (demo_session demo_lost)) =
     Inl (Indeterminate (SmtpDisconnected ''the SMTP session'' ''the server closed the connection''))"
  by (simp add: demo_smtp demo_lost_def strip_bcc_loop strip_loop.simps is_blank_def
      starts_with_whitespace_def is_bcc_def LF_def CR_def)

theorem smtp_error_tells_the_window_witness:
  "\<exists>s1 dat. send_envelope demo_lib (\<lambda>_. False) ''a@b'' [''c@d''] (demo_session demo_lost) = (Inr (), s1)
     \<and> se_log (snd (send_message demo_lib (\<lambda>_. False) ''a@b'' [''c@d''] ''x'' (demo_session demo_lost)))
         = se_log s1 @ dat
     \<and> payload_begun dat
     \<and> \<not> answered_with (Indeterminate (SmtpDisconnected ''the SMTP session'' ''the server closed the connection''))"
proof -
  obtain s' where "send_message demo_lib (\<lambda>_. False) ''a@b'' [''c@d''] ''x'' (demo_session demo_lost) =
      (Inl (Indeterminate (SmtpDisconnected ''the SMTP session'' ''the server closed the connection'')), s')"
    using demo_lost_run by (metis prod.collapse)
  from smtp_error_tells_the_window [OF this] this show ?thesis
    by (simp add: submission_is_indeterminate_def)
qed

text \<open>
  An answer the session cannot read counts as an answer.  After the exchange has run
  its course (the command, the \<open>354\<close>, the body, a reply) a reply that is none of the
  rejections leaves a determinate error although the whole message was written and nothing
  says that the server refused it; so a caller that trusts the documented reading of a
  determinate error takes an accepted message for one that was never submitted.
\<close>

theorem smtp_unreadable_reply_is_determinate:
  assumes "co_data L raw [None] = WantsWrite command"
    and "co_data L raw [None, None] = WantsRead"
    and "co_data L raw [None, None, Some go] = WantsWrite body"
    and "co_data L raw [None, None, Some go, None] = WantsRead"
    and "co_data L raw [None, None, Some go, None, Some reply] = Complete (Inl (ClientOther t))"
    and "se_script s = [IoOk x, IoOk go, IoOk y, IoOk reply]"
  shows "\<exists>s'. send_payload L raw s = (Inl (SmtpProtocol (''DATA: '' @ client_text L (ClientOther t))), s')
    \<and> se_log s' = se_log s @ [Put command, Got go, Put body, Got reply]
    \<and> \<not> submission_is_indeterminate (SmtpProtocol (''DATA: '' @ client_text L (ClientOther t)))
    \<and> \<not> smtp_is_transient (SmtpProtocol (''DATA: '' @ client_text L (ClientOther t)))"
  using assms
  by (simp add: send_payload_def payload_loop.simps stream_read.simps stream_write.simps saw_def
      map_data_error_def map_transport_error_def tag_error_def once_the_payload_was_on_the_wire_def
      submission_is_indeterminate_def smtp_is_transient_def)

theorem smtp_unreadable_reply_is_determinate_witness:
  "\<exists>s'. send_payload demo_lib ''x'' (demo_session [IoOk [], IoOk ''354'', IoOk [], IoOk ''??'']) =
     (Inl (SmtpProtocol ''DATA: text''), s')
   \<and> se_log s' = [Put ''DATA'', Got ''354'', Put ''x'', Got ''??'']"
  using smtp_unreadable_reply_is_determinate
    [of demo_lib "''x''" "''DATA''" "''354''" "''x''" "''??''" "''unreadable''"
      "demo_session [IoOk [], IoOk ''354'', IoOk [], IoOk ''??'']" "[]" "[]"]
  by (auto simp add: demo_lib_def demo_co_data_def demo_session_def)

end
