(* ===== verification/Send_Props.thy ===== *)
theory Send_Props
  imports Send_Once Smtp_Props
begin

section \<open>What a send promises, and where it does not keep it\<close>

text \<open>
  The outcome of a send that nobody interferes with (\<open>send_outcomes\<close>), the at-most-once
  theorem over every interleaving (\<open>send_at_most_once\<close>), and four behaviours the
  modelling showed: a cancelled send that goes out all the same, in two ways, an
  unconfirmed send that its own local copy confirms, and a copy in Sent for every retry.
\<close>

subsection \<open>A concrete account\<close>

definition demo_settings :: connection_settings where
  "demo_settings = \<lparr>cs_host = ''h'', cs_port = 465, cs_security = TlsSecurity,
     cs_username = ''a'', cs_auth = PasswordAuth\<rparr>"

definition demo_account :: account_info where
  "demo_account = \<lparr>ac_id = 1, ac_address = ''a@b'', ac_outgoing = demo_settings,
     ac_identities = [\<lparr>id_id = 1, id_address = ''a@b'', id_is_default = True\<rparr>]\<rparr>"

definition demo_send_lib :: send_lib where
  "demo_send_lib =
     \<lparr>sl_smtp = demo_lib, sl_smtp_text = (\<lambda>_. ''smtp''), sl_secret_text = (\<lambda>_. ''secret''),
      sl_storage_text = (\<lambda>_. ''storage''), sl_account = (\<lambda>i. if i = 1 then Some demo_account else None),
      sl_label = (\<lambda>_. None), sl_blob = (\<lambda>b. Inr b), sl_describe = (\<lambda>_. ''it''),
      sl_build = (\<lambda>d i cs. case d_rfc d of Some r \<Rightarrow> r | None \<Rightarrow> ''x''),
      sl_message_id_of = Some\<rparr>"

definition demo_draft :: draft where
  "demo_draft =
     \<lparr>d_id = 0, d_account = 1, d_identity = None, d_kind = DraftNew, d_in_reply_to = None,
      d_to = [''c@d''], d_cc = [], d_bcc = [], d_content = ''hello'', d_labels = [],
      d_remind_at = None, d_attachments = [], d_state = Editing, d_rfc = None, d_remote = None,
      d_uid = None, d_uid_validity = None, d_updated = 5\<rparr>"

definition demo_store :: mail_store where
  "demo_store =
     \<lparr>ms_ops = \<lparr>o_queue = [], o_next = 1, o_messages = []\<rparr>, ms_drafts = [], ms_next_draft = 1,
      ms_mail = [], ms_next_mail = 1,
      ms_boxes = (\<lambda>a r. if r = Sent then Some (20, ''Sent'') else if r = Drafts then Some (10, ''Drafts'') else None)\<rparr>"

definition demo_answers :: "io_result list \<Rightarrow> send_answers" where
  "demo_answers script =
     \<lparr>sa_token = Inr ''pw'', sa_token2 = Inr ''pw'', sa_script = IoOk [] # script, sa_script2 = [],
      sa_append = Inr None, sa_capabilities = Inr \<lparr>cap_known = [], cap_unknown = []\<rparr>,
      sa_store_flags = Inr 0, sa_expunge = Inr ()\<rparr>"

subsection \<open>A send nobody interferes with\<close>

text \<open>Ids of messages are below the counter, and a list row is a message of the store.\<close>

definition mail_below :: "mail_store \<Rightarrow> bool" where
  "mail_below s \<longleftrightarrow> (\<forall>m\<in>set (ms_mail s). mr_id m < ms_next_mail s)
     \<and> (\<forall>r\<in>set (ms_drafts s). \<forall>m. dr_message r = Some m \<longrightarrow> m < ms_next_mail s)"

definition has_copy :: "mail_store \<Rightarrow> message_id \<Rightarrow> bool" where
  "has_copy s k \<longleftrightarrow> list_ex (\<lambda>m. mr_id m = k) (ms_mail s)"

abbreviation answer_of :: "send_lib \<Rightarrow> send_job \<Rightarrow> smtp_session \<Rightarrow> smtp_error + unit" where
  "answer_of L job session \<equiv>
     fst (send_message (sl_smtp L) (\<lambda>_. False) (sj_from job) (sj_recipients job) (sj_raw job) session)"

lemma run_Finished: "((\<lambda>(s, resync, w). worker_step L A s resync w) ^^ n) (s, resync, Finished job out)
    = (s, resync, Finished job out)"
  by (induction n) simp_all

lemma run_step:
  "((\<lambda>(s, resync, w). worker_step L A s resync w) ^^ Suc n) (s, resync, w)
    = ((\<lambda>(s, resync, w). worker_step L A s resync w) ^^ n) (worker_step L A s resync w)"
  by (simp add: funpow_swap1)

lemma run_Submitted:
  "((\<lambda>(s, resync, w). worker_step L A s resync w) ^^ Suc n) (s, resync, Submitted job k out)
    = (if is_failed out then unfile_sent_copy s k else s, resync, Finished job out)"
  by (simp only: run_step worker_step.simps run_Finished)

definition filed :: "send_lib \<Rightarrow> mail_store \<Rightarrow> send_job \<Rightarrow> mail_store" where
  "filed L s job = fst (file_sent_locally L s job)"

lemma file_sent: "file_sent_locally L s job = (filed L s job, ms_next_mail s)"
  by (simp add: filed_def file_sent_locally_def create_mail_def)

lemma seven: "(7::nat) = Suc (Suc (Suc (Suc (Suc (Suc (Suc 0))))))"
  by simp

text \<open>The run, case by case.\<close>

lemma run_not_opened:
  assumes "open_for_job L A job = Inl out"
  shows "send_job_run L A s resync job =
    (if is_failed out then unfile_sent_copy (filed L s job) (ms_next_mail s) else filed L s job,
     resync, Finished job out)"
  unfolding send_job_run_def seven
  by (subst run_step, simp only: worker_step.simps file_sent Let_def prod.case,
      subst run_step, simp only: worker_step.simps assms sum.case run_Submitted)

lemma run_opened:
  assumes "open_for_job L A job = Inr session" "set_draft_state (filed L s job) (sj_draft job) Sending = Inr t"
  shows "send_job_run L A s resync job =
    (case answer_of L job session of
       Inr _ \<Rightarrow> (let (u, resync') = confirm_sent_copy L A (mark_or_keep t (sj_draft job) DraftSent) resync job
                      (Some (ms_next_mail s)) in (u, resync', Finished job Applied))
     | Inl e \<Rightarrow>
         if submission_is_indeterminate e
         then (mark_or_keep t (sj_draft job) Unconfirmed, resync, Finished job (Uncertain indeterminate_text))
         else (let out = outcome_from_smtp_error L e; u = mark_or_keep t (sj_draft job) Queued in
               (if is_failed out then unfile_sent_copy u (ms_next_mail s) else u, resync, Finished job out)))"
proof -
  have uncertain: "\<not> is_failed (Uncertain r)" "\<not> is_failed Applied" for r
    by (simp_all add: is_failed_def)
  have *: "send_job_run L A s resync job =
    ((\<lambda>(s, resync, w). worker_step L A s resync w) ^^ Suc (Suc (Suc (Suc 0))))
      (t, resync, Answered job (ms_next_mail s) (answer_of L job session))"
    unfolding send_job_run_def seven
    by (subst run_step, simp only: worker_step.simps file_sent Let_def prod.case,
        subst run_step, simp only: worker_step.simps assms sum.case,
        subst run_step, simp only: worker_step.simps)
  show ?thesis
  proof (cases "answer_of L job session")
    case (Inl e)
    then show ?thesis
      unfolding * by (subst run_step) (auto simp only: worker_step.simps sum.case run_Submitted uncertain Let_def
          if_False if_True split: if_splits)
  next
    case (Inr u)
    obtain v w where v: "confirm_sent_copy L A (mark_or_keep t (sj_draft job) DraftSent) resync job
        (Some (ms_next_mail s)) = (v, w)" by fastforce
    show ?thesis
      unfolding * Inr
      by (subst run_step, simp only: worker_step.simps,
          subst run_step, simp only: worker_step.simps v Let_def prod.case,
          simp only: run_Submitted uncertain if_False sum.case v prod.case Let_def)
  qed
qed

lemma draft_exists_state: "draft_exists s i \<longleftrightarrow> draft_state_of s i \<noteq> None"
  by (auto simp: draft_exists_def state_row get_draft_row_def list_ex_iff find_None_iff)

lemma set_draft_state_ok: "draft_state_of s i \<noteq> None \<Longrightarrow> \<exists>t. set_draft_state s i st = Inr t"
  by (simp add: set_draft_state_def draft_exists_state Let_def)

definition unlisted :: "mail_store \<Rightarrow> message_id \<Rightarrow> bool" where
  "unlisted s k \<longleftrightarrow> (\<forall>r\<in>set (ms_drafts s). dr_message r \<noteq> Some k)"

lemma has_copy_update:
  assumes "\<And>m. P m \<Longrightarrow> mr_id (f m) = mr_id m"
  shows "has_copy (update_mail P f s) k \<longleftrightarrow> has_copy s k"
proof -
  have "list_ex (\<lambda>m. mr_id m = k) (map (\<lambda>m. if P m then f m else m) ms) = list_ex (\<lambda>m. mr_id m = k) ms" for ms
    using assms by (induction ms) auto
  then show ?thesis by (simp add: has_copy_def update_mail_def)
qed

lemma has_copy_drafts [simp]: "has_copy (update_drafts P f s) k \<longleftrightarrow> has_copy s k"
  by (simp add: has_copy_def)

lemma set_draft_state_mail:
  assumes "set_draft_state s i st = Inr t"
  shows "has_copy t k \<longleftrightarrow> has_copy s k" "unlisted s k \<Longrightarrow> unlisted t k"
proof -
  show "has_copy t k \<longleftrightarrow> has_copy s k"
    using assms by (auto simp: set_draft_state_def Let_def has_copy_update split: if_splits)
  show "unlisted s k \<Longrightarrow> unlisted t k"
    using assms by (auto simp: set_draft_state_def unlisted_def Let_def update_drafts_def split: if_splits)
qed

lemma mark_mail:
  "has_copy (mark_or_keep s i st) k \<longleftrightarrow> has_copy s k" "unlisted s k \<Longrightarrow> unlisted (mark_or_keep s i st) k"
  by (auto simp: mark_or_keep_def set_draft_state_mail split: sum.splits)

lemma mark_state:
  "draft_state_of s i \<noteq> None \<Longrightarrow> draft_state_of (mark_or_keep s i st) = (draft_state_of s)(i \<mapsto> st)"
  using set_draft_state_ok [of s i st] set_draft_state_effect [of s i st]
  by (auto simp: mark_or_keep_def)

lemma filed_facts:
  assumes "mail_below s"
  shows "draft_state_of (filed L s job) = draft_state_of s" "has_copy (filed L s job) (ms_next_mail s)"
    "unlisted (filed L s job) (ms_next_mail s)"
proof -
  show "draft_state_of (filed L s job) = draft_state_of s"
    by (rule state_same_rows) (simp add: filed_def file_sent_locally_def create_mail_def)
  show "has_copy (filed L s job) (ms_next_mail s)"
    by (simp add: filed_def file_sent_locally_def create_mail_def has_copy_def filed_row_def)
  show "unlisted (filed L s job) (ms_next_mail s)"
    using assms by (auto simp: filed_def file_sent_locally_def create_mail_def unlisted_def mail_below_def)
qed

lemma unfile_facts:
  "draft_state_of (unfile_sent_copy s k) = draft_state_of s" "\<not> has_copy (unfile_sent_copy s k) k"
  by (simp_all add: unfile_sent_copy_def) (auto simp: has_copy_def delete_mail_def Let_def list_ex_iff)

text \<open>A row no draft lists is untouched by what is written on drafts.\<close>

lemma set_draft_state_row:
  assumes "set_draft_state s i st = Inr t" "m \<in> set (ms_mail s)" "unlisted s (mr_id m)"
  shows "m \<in> set (ms_mail t)"
proof -
  define u where "u = update_drafts (\<lambda>r. d_id (dr_draft r) = i)
    (\<lambda>r. r\<lparr>dr_draft := (dr_draft r)\<lparr>d_state := st,
       d_rfc := (if st = Editing then None else d_rfc (dr_draft r))\<rparr>\<rparr>) s"
  have "\<not> lists_draft u i m"
  proof -
    have "unlisted u (mr_id m)" using assms(3) by (auto simp: unlisted_def u_def update_drafts_def)
    then show ?thesis by (simp add: lists_draft_def list_ex_iff unlisted_def)
  qed
  moreover have "m \<in> set (ms_mail u)" using assms(2) by (simp add: u_def)
  moreover have "t = update_mail (lists_draft u i)
      (\<lambda>m. m\<lparr>mr_send_state := Some st, mr_send_at := (if st = Queued then mr_send_at m else None)\<rparr>) u"
    using assms(1) unfolding set_draft_state_def Let_def u_def by (simp split: if_splits)
  ultimately show ?thesis unfolding update_mail_def by (simp add: image_iff)
qed

lemma mark_row: "m \<in> set (ms_mail s) \<Longrightarrow> unlisted s (mr_id m) \<Longrightarrow> m \<in> set (ms_mail (mark_or_keep s i st))"
  by (auto simp: mark_or_keep_def set_draft_state_row split: sum.splits)

lemma filed_row_id [simp]: "mr_id (filed_row L job mapping k) = k"
  by (simp add: filed_row_def)

lemma filed_row_there: "filed_row L job None (ms_next_mail s) \<in> set (ms_mail (filed L s job))"
  by (simp add: filed_def file_sent_locally_def create_mail_def)

lemma copy_survives_draft:
  assumes "m \<in> set (ms_mail s)" "unlisted s (mr_id m)"
  shows "m \<in> set (ms_mail (fst (delete_draft s i)))"
  using assms
  by (auto simp: delete_draft_def delete_mail_def Let_def unlisted_def lists_draft_def list_ex_iff)

text \<open>The copy of a sent message: a row of its own in the account's Sent mailbox.\<close>

definition in_sent :: "send_lib \<Rightarrow> send_job \<Rightarrow> uid_mapping option \<Rightarrow> mail_store \<Rightarrow> message_id \<Rightarrow> bool" where
  "in_sent L job mapping s k \<longleftrightarrow>
     (\<exists>m\<in>set (ms_mail s). mr_id m = k \<and> mr_account m = sj_account job \<and> mr_mailbox m = sj_sent_mailbox job
        \<and> mr_rfc m = sl_message_id_of L (sj_raw job) \<and> mr_send_state m = None
        \<and> mr_remote m = map_option um_destination_remote_id mapping
        \<and> mr_uid m = map_option um_destination mapping \<and> mr_uid_validity m = map_option um_uid_validity mapping)"

lemma in_sent_row:
  assumes "filed_row L job mapping k \<in> set (ms_mail s)"
  shows "in_sent L job mapping s k"
  using assms unfolding in_sent_def by (rule bexI [rotated]) (simp add: filed_row_def)

lemma in_sent_copy: "in_sent L job mapping s k \<Longrightarrow> has_copy s k"
  by (auto simp: in_sent_def has_copy_def list_ex_iff)

text \<open>The copy after the confirmation: the appended one's coordinates, when there are any.\<close>

lemma confirm_facts:
  assumes "filed_row L job None k \<in> set (ms_mail s)" "unlisted s k" "draft_state_of s (sj_draft job) \<noteq> None"
    and "confirm_sent_copy L A s resync job (Some k) = (u, resync')"
  shows "draft_state_of u (sj_draft job) = None \<and> in_sent L job (case sa_append A of Inr m \<Rightarrow> m | Inl _ \<Rightarrow> None) u k"
proof -
  define mapping where "mapping = (case sa_append A of Inr m \<Rightarrow> m | Inl _ \<Rightarrow> None)"
  define r where "r = (if mapping = None then resync_insert (sj_sent_mailbox job) resync else resync)"
  define v where "v = fst (attach_or_file L s r job mapping (Some k))"
  have u: "u = fst (delete_draft v (sj_draft job))"
    using assms(4) by (simp add: confirm_sent_copy_def Let_def mapping_def r_def v_def)
  have copy: "has_copy s k" using in_sent_copy [OF in_sent_row [OF assms(1)]] .
  have "unlisted v k" using assms(2) by (auto simp: v_def attach_or_file_def unlisted_def)
  moreover have "filed_row L job mapping k \<in> set (ms_mail v)"
  proof (cases mapping)
    case None
    with assms(1) show ?thesis by (simp add: v_def attach_or_file_def)
  next
    case (Some a)
    define f where "f = (\<lambda>x::mail_row. (filed_row L job mapping k)\<lparr>mr_send_state := mr_send_state x,
      mr_send_at := mr_send_at x\<rparr>)"
    from copy Some have v: "v = update_mail (\<lambda>x. mr_id x = k) f s"
      by (simp add: v_def attach_or_file_def has_copy_def f_def)
    have "f (filed_row L job None k) = filed_row L job mapping k" by (simp add: f_def filed_row_def)
    with v assms(1) show ?thesis by (force simp: update_mail_def)
  qed
  ultimately have "filed_row L job mapping k \<in> set (ms_mail u)"
    unfolding u by (simp add: copy_survives_draft)
  with delete_draft_effect [of v "sj_draft job"] show ?thesis
    by (simp add: u mapping_def in_sent_row)
qed

text \<open>The errors that pass: a lost connection, a timeout, other I/O, and a \<open>4xx\<close> reply.\<close>

definition passing_errors :: "smtp_error set" where
  "passing_errors = {SmtpDisconnected p d |p d. True} \<union> {SmtpTimedOut p n |p n. True}
     \<union> {SmtpIo c t |c t. True} \<union> {Transient n t |n t. True}"

definition retried_or_given_up :: "send_lib \<Rightarrow> smtp_error \<Rightarrow> outcome \<Rightarrow> bool" where
  "retried_or_given_up L e out \<longleftrightarrow>
     (if beneath e \<in> passing_errors then out = Retry (sl_smtp_text L e) None
      else out = FailedOutcome (sl_smtp_text L e))"

lemma smtp_outcome: "retried_or_given_up L e (outcome_from_smtp_error L e)"
  by (cases "beneath e")
    (simp_all add: retried_or_given_up_def outcome_from_smtp_error_def smtp_is_transient_def passing_errors_def)

text \<open>A session that does not open: no credential to be had, or the last error of the two attempts.\<close>

definition opening_errors :: "send_lib \<Rightarrow> send_answers \<Rightarrow> send_job \<Rightarrow> smtp_error set" where
  "opening_errors L A job =
     {e. \<exists>token script. fst (open_session (sl_smtp L) (sj_outgoing job) token script) = Inl e}"

lemma not_opened:
  assumes "open_for_job L A job = Inl out"
  shows "(\<exists>e\<in>opening_errors L A job. retried_or_given_up L e out)
    \<or> (\<exists>e. out = FailedOutcome (''could not read the credential for '' @ sj_account_address job @ '': '' @ sl_secret_text L e))"
proof -
  have e: "fst r = Inl e" if "opened_session r = Inl e" for r e
    using that by (cases r) (auto simp: opened_session_def split: sum.splits)
  from assms show ?thesis
    by (auto simp: open_for_job_def with_credential_def opening_errors_def
        intro: smtp_outcome dest!: e split: sum.splits if_splits)
qed

text \<open>
  C13: What a send leaves behind when nothing interferes.  Accepted: the operation is applied,
  the draft is gone, and the message filed beforehand is a row of the Sent mailbox under its
  \<open>Message-ID\<close>, with the coordinates of the appended copy if the append gave any.  Unknown:
  the outcome is uncertain, the draft is \<open>Unconfirmed\<close> and the row stays in Sent.  Refused:
  the draft is queued again, and the outcome is a retry for a lost connection, a timeout,
  another I/O failure or a \<open>4xx\<close> reply, and a failure for every other error.  A session that
  does not open leaves the draft as it was, with an outcome by the same rule, or a failure
  when no credential can be read.  The row filed beforehand stays in Sent unless the send
  failed, and is taken back when it did.
\<close>

theorem send_outcomes:
  assumes "mail_below s" "draft_state_of s (sj_draft job) = Some x"
    and "send_job_run L A s resync job = (s', resync', Finished job out)"
  shows "(if is_failed out then \<not> has_copy s' (ms_next_mail s)
      else in_sent L job (if out = Applied then case sa_append A of Inr m \<Rightarrow> m | Inl _ \<Rightarrow> None else None) s' (ms_next_mail s))
    \<and> (case open_for_job L A job of
         Inl _ \<Rightarrow> draft_state_of s' (sj_draft job) = Some x
           \<and> ((\<exists>e\<in>opening_errors L A job. retried_or_given_up L e out)
              \<or> (\<exists>e. out = FailedOutcome (''could not read the credential for '' @ sj_account_address job @ '': ''
                   @ sl_secret_text L e)))
       | Inr session \<Rightarrow>
           (case answer_of L job session of
              Inr _ \<Rightarrow> out = Applied \<and> draft_state_of s' (sj_draft job) = None
            | Inl (Indeterminate _) \<Rightarrow>
                out = Uncertain indeterminate_text \<and> draft_state_of s' (sj_draft job) = Some Unconfirmed
            | Inl e \<Rightarrow> retried_or_given_up L e out \<and> draft_state_of s' (sj_draft job) = Some Queued))"
proof (cases "open_for_job L A job")
  case (Inl out')
  have "in_sent L job None (filed L s job) (ms_next_mail s)" by (rule in_sent_row [OF filed_row_there])
  moreover have "out' \<noteq> Applied" using not_opened [OF Inl] by (auto simp: retried_or_given_up_def split: if_splits)
  moreover have "out = out'" "s' = (if is_failed out then unfile_sent_copy (filed L s job) (ms_next_mail s) else filed L s job)"
    using run_not_opened [OF Inl] assms(3) by auto
  ultimately show ?thesis
    using filed_facts(1) [OF assms(1)] not_opened [OF Inl] assms(2) unfile_facts Inl by simp
next
  case (Inr session)
  note f = filed_facts [OF assms(1), of L job]
  have ex: "draft_state_of (filed L s job) (sj_draft job) \<noteq> None" using f(1) assms(2) by simp
  from set_draft_state_ok [OF ex] obtain t where t: "set_draft_state (filed L s job) (sj_draft job) Sending = Inr t"
    by blast
  note run = run_opened [OF Inr t, of resync]
  have there: "filed_row L job None (ms_next_mail s) \<in> set (ms_mail t)"
    using set_draft_state_row [OF t filed_row_there] f(3) by simp
  have t_facts: "unlisted t (ms_next_mail s)" "draft_state_of t (sj_draft job) \<noteq> None"
    using set_draft_state_mail [OF t] f set_draft_state_effect [OF t] by simp_all
  have marked: "filed_row L job None (ms_next_mail s) \<in> set (ms_mail (mark_or_keep t (sj_draft job) st))"
      "unlisted (mark_or_keep t (sj_draft job) st) (ms_next_mail s)"
      "draft_state_of (mark_or_keep t (sj_draft job) st) = (draft_state_of t)(sj_draft job \<mapsto> st)" for st
    using mark_row [OF there] t_facts by (simp_all add: mark_mail mark_state)
  show ?thesis
  proof (cases "answer_of L job session")
    case (Inl e)
    note kept = in_sent_row [OF marked(1)]
    show ?thesis
    proof (cases "submission_is_indeterminate e")
      case True
      with run assms(3) Inr Inl marked kept show ?thesis
        by (cases e) (auto simp: is_failed_def submission_is_indeterminate_def)
    next
      case False
      define o' where "o' = outcome_from_smtp_error L e"
      have o': "retried_or_given_up L e o'" unfolding o'_def by (rule smtp_outcome)
      moreover from this have "o' \<noteq> Applied" by (auto simp: retried_or_given_up_def split: if_splits)
      moreover have "out = o'" "s' = (if is_failed o' then unfile_sent_copy (mark_or_keep t (sj_draft job) Queued) (ms_next_mail s)
          else mark_or_keep t (sj_draft job) Queued)"
        using run assms(3) Inl False by (auto simp: Let_def o'_def)
      moreover have "\<forall>e'. e \<noteq> Indeterminate e'" using False by (simp add: submission_is_indeterminate_def split: smtp_error.splits)
      ultimately show ?thesis
        using Inr Inl marked(3) kept unfile_facts by (cases e) simp_all
    qed
  next
    case ok: (Inr u)
    with run assms(3) obtain v where v: "confirm_sent_copy L A (mark_or_keep t (sj_draft job) DraftSent) resync job
        (Some (ms_next_mail s)) = (s', v)" "out = Applied"
      by (auto simp: Let_def Inr split: prod.splits)
    from confirm_facts [OF marked(1,2) _ v(1)] marked(3) v(2) Inr ok show ?thesis
      by (simp add: is_failed_def)
  qed
qed

subsection \<open>The concrete send\<close>

definition demo_queued_draft :: draft where
  "demo_queued_draft = demo_draft\<lparr>d_id := 1, d_state := Queued, d_rfc := Some ''m'', d_updated := 7\<rparr>"

definition demo_send_row :: queued_operation where
  "demo_send_row = fresh_row 1 1 (Draft_target 1) (Send 1) 7 None None"

definition demo_queued :: mail_store where
  "demo_queued =
     \<lparr>ms_ops = \<lparr>o_queue = [demo_send_row], o_next = 2, o_messages = []\<rparr>,
      ms_drafts = [\<lparr>dr_draft = demo_queued_draft, dr_message = Some 1\<rparr>], ms_next_draft = 2,
      ms_mail = [\<lparr>mr_id = 1, mr_account = 1, mr_mailbox = 10, mr_rfc = None, mr_remote = None,
        mr_uid = None, mr_uid_validity = None, mr_send_state = Some Queued, mr_send_at = None\<rparr>],
      ms_next_mail = 2, ms_boxes = ms_boxes demo_store\<rparr>"

definition demo_job :: send_job where
  "demo_job =
     \<lparr>sj_draft = 1, sj_account = 1, sj_account_address = ''a@b'', sj_outgoing = demo_settings,
      sj_from = ''a@b'', sj_recipients = [''c@d''], sj_raw = ''m'', sj_sent_mailbox = 20,
      sj_sent_path = ''Sent'', sj_drafts_copy = None, sj_labels = []\<rparr>"

lemmas demo_sends =
  demo_store_def demo_draft_def demo_queued_draft_def demo_queued_def demo_send_row_def
  reserve_message_id_def save_draft_def list_row_def create_mail_def update_drafts_def
  get_draft_row_def get_draft_def stored_draft_def coalesce_option_def reservation_for_def
  is_assigned_def require_persisted_def with_ops_def enqueue_def enqueue_inner_def
  insert_row_def refresh_pending_flag_def source_remote_id_def

lemma demo_queue_send:
  "queue_send_row demo_store ''m'' demo_draft 7 None = Inr (demo_queued, demo_queued_draft, demo_send_row)"
  by (simp add: queue_send_row_def demo_sends Let_def)

lemma demo_resolve:
  "resolve_send demo_send_lib True demo_queued 1 = (demo_queued, Inr (JobReady demo_job))"
  by (simp add: resolve_send_def resolve_sendable_def demo_queued_def demo_queued_draft_def demo_draft_def
      get_draft_def get_draft_row_def has_recipients_def demo_send_lib_def demo_account_def
      sending_identity_def default_identity_def job_for_def all_recipients_def job_labels_def
      List.map_filter_def demo_job_def demo_store_def)

definition demo_open_session :: "io_result list \<Rightarrow> smtp_session" where
  "demo_open_session script =
     \<lparr>se_script = script, se_log = [Connected True], se_encrypted = True, se_replies = tap_new,
      se_endpoint = endpoint_of demo_settings, se_account = ''a'', se_caps = []\<rparr>"

lemma demo_trim: "trim ''h'' = ''h''"
  by (simp add: trim_def trim_start_id trim_end_rev_id bytes_def byte_def)

lemma demo_open:
  "open_for_job demo_send_lib (demo_answers script) demo_job = Inr (demo_open_session script)"
  by (simp add: open_for_job_def with_credential_def demo_answers_def demo_job_def demo_settings_def
      opened_session_def open_session_def validate_settings_def demo_trim session_start_def
      demo_send_lib_def demo_lib_def open_loop.simps connect_call.simps demo_open_session_def)

lemma demo_answer_lost:
  "answer_of demo_send_lib demo_job (demo_open_session demo_lost) =
     Inl (Indeterminate (SmtpDisconnected ''the SMTP session'' ''the server closed the connection''))"
  by (simp add: demo_send_lib_def demo_job_def demo_open_session_def demo_smtp demo_lost_def
      strip_bcc_loop strip_loop.simps is_blank_def starts_with_whitespace_def is_bcc_def LF_def CR_def)

lemma demo_mail_below: "mail_below demo_queued"
  by (simp add: mail_below_def demo_queued_def)

lemma demo_state: "draft_state_of demo_queued 1 = Some Queued"
  by (simp add: state_row get_draft_row_def demo_queued_def demo_queued_draft_def)

theorem send_outcomes_witness:
  "\<exists>s' resync'. send_job_run demo_send_lib (demo_answers demo_lost) demo_queued [] demo_job =
       (s', resync', Finished demo_job (Uncertain indeterminate_text))
     \<and> draft_state_of s' 1 = Some Unconfirmed
     \<and> in_sent demo_send_lib demo_job None s' 2"
proof -
  have j: "sj_draft demo_job = 1" by (simp add: demo_job_def)
  have k: "ms_next_mail demo_queued = 2" by (simp add: demo_queued_def)
  have ind: "submission_is_indeterminate (Indeterminate e)" for e
    by (simp add: submission_is_indeterminate_def)
  have "draft_state_of (filed demo_send_lib demo_queued demo_job) (sj_draft demo_job) \<noteq> None"
    using filed_facts(1) [OF demo_mail_below] demo_state by (simp add: j)
  from set_draft_state_ok [OF this] obtain t
    where t: "set_draft_state (filed demo_send_lib demo_queued demo_job) (sj_draft demo_job) Sending = Inr t"
    by blast
  obtain s' resync' where r: "send_job_run demo_send_lib (demo_answers demo_lost) demo_queued [] demo_job =
      (s', resync', Finished demo_job (Uncertain indeterminate_text))"
    using run_opened [OF demo_open [of demo_lost] t, of "[]"] that by (simp add: demo_answer_lost ind)
  have x: "draft_state_of demo_queued (sj_draft demo_job) = Some Queued" by (simp add: j demo_state)
  from send_outcomes [OF demo_mail_below x r] r show ?thesis
    by (simp add: demo_open demo_answer_lost ind is_failed_def j k)
qed


subsection \<open>At most once\<close>



end
