(* ===== verification/Send_Findings.thy ===== *)
theory Send_Findings
  imports Send_Props
begin

section \<open>Where a send does not do what it says\<close>

text \<open>
  Four theorems about behaviour of \<open>drafts.rs\<close> and \<open>send.rs\<close> that their documentation
  rules out.  Each holds for every store and every job, not for one run: cancelling takes
  the oldest row of the draft instead of its send, cancelling between the drainer's look
  and its mark does not stop the submission, the copy filed locally confirms an unconfirmed
  send, and every retry files another copy.
\<close>

subsection \<open>Cancelling\<close>

lemma enqueue_append:
  assumes "with_ops (\<lambda>q. enqueue_inner q account t op at nb) s = Inr (s', r)"
  shows "o_queue (ms_ops s') = o_queue (ms_ops s) @ [r]" "q_id r = o_next (ms_ops s)"
    "o_next (ms_ops s') = o_next (ms_ops s) + 1" "q_target r = t" "q_state r = Pending" "q_operation r = op"
  using assms
  by (auto simp: with_ops_def enqueue_inner_def insert_row_def Let_def split: sum.splits)

lemma save_draft_ops: "save_draft s d = Inr (s', d') \<Longrightarrow> ms_ops s' = ms_ops s"
  by (auto simp: save_draft_def Let_def split: option.splits sum.splits if_splits dest!: list_row_keys)

lemma find_in_prefix:
  assumes "find P (xs @ ys) = Some p" "x \<in> set xs" "P x"
  shows "p \<in> set xs"
proof -
  have "find P (xs @ ys) = (case find P xs of None \<Rightarrow> find P ys | Some z \<Rightarrow> Some z)"
    by (induction xs) auto
  moreover from assms(2,3) have "find P xs \<noteq> None" by (auto simp: find_None_iff)
  ultimately have "find P xs = Some p" using assms(1) by auto
  then show ?thesis by (auto simp: find_Some_iff)
qed

lemma cancel_removes:
  assumes "cancel_send s i at = Inr (s', SendCancelled)"
  shows "\<exists>p. pending_for (ms_ops s) (Draft_target i) = Some p
    \<and> o_queue (ms_ops s') = filter (\<lambda>r. q_id r \<noteq> q_id p) (o_queue (ms_ops s))"
proof -
  from assms have "\<exists>d p x. pending_for (ms_ops s) (Draft_target i) = Some p
      \<and> save_draft (s\<lparr>ms_ops := fst (delete_row (ms_ops s) (q_id p))\<rparr>) (d\<lparr>d_state := Editing, d_updated := at\<rparr>)
          = Inr (s', x)"
    by (auto simp: cancel_send_def Let_def split: option.splits if_splits sum.splits)
  then obtain d p x where p: "pending_for (ms_ops s) (Draft_target i) = Some p"
    and sv: "save_draft (s\<lparr>ms_ops := fst (delete_row (ms_ops s) (q_id p))\<rparr>)
        (d\<lparr>d_state := Editing, d_updated := at\<rparr>) = Inr (s', x)" by blast
  from save_draft_ops [OF sv] have "o_queue (ms_ops s') = filter (\<lambda>r. q_id r \<noteq> q_id p) (o_queue (ms_ops s))"
    by (simp add: delete_row_def Let_def split: option.splits)
  with p show ?thesis by blast
qed

lemma cancel_edits:
  assumes "cancel_send s i at = Inr (s', SendCancelled)" "drafts_below s" "is_assigned i"
  shows "draft_state_of s' i = Some Editing"
proof -
  from assms(1) have "\<exists>d (p::queued_operation) x. get_draft s i = Some d
      \<and> save_draft (s\<lparr>ms_ops := fst (delete_row (ms_ops s) (q_id p))\<rparr>) (d\<lparr>d_state := Editing, d_updated := at\<rparr>)
          = Inr (s', x)"
    by (auto simp: cancel_send_def Let_def split: option.splits if_splits sum.splits)
  then obtain d and p :: queued_operation and x where d: "get_draft s i = Some d"
    and sv: "save_draft (s\<lparr>ms_ops := fst (delete_row (ms_ops s) (q_id p))\<rparr>)
        (d\<lparr>d_state := Editing, d_updated := at\<rparr>) = Inr (s', x)" by blast
  from d have id: "d_id d = i" using get_draft_row_id by (auto simp: get_draft_def)
  have "drafts_below (s\<lparr>ms_ops := fst (delete_row (ms_ops s) (q_id p))\<rparr>)"
    using assms(2) by (simp add: drafts_below_def)
  from save_draft_effect [OF sv this] save_draft_id [OF sv] id assms(3) show ?thesis
    by (simp add: saved_def)
qed

text \<open>
  C39: Cancelling takes back the draft's oldest waiting row, which need not be its send.
  When an autosave's upload is still queued as the user presses send, a cancel that
  answers \<open>Cancelled\<close> leaves the \<open>Send\<close> row waiting, the draft back in the composer, and
  the drainer will resolve that row and submit the message.
\<close>

theorem cancel_can_leave_the_send:
  assumes "queue_wf (ms_ops s)" "drafts_below s"
    and "save_and_sync s d at = Inr (s1, d1, Some r1)" "is_assigned (d_id d1)"
    and "queue_send_row s1 fresh d1 at1 not_before = Inr (s2, d2, r2)"
    and "cancel_send s2 (d_id d2) at2 = Inr (s3, SendCancelled)"
  shows "r2 \<in> set (o_queue (ms_ops s3)) \<and> live_send (d_id d2) r2
    \<and> draft_state_of s3 (d_id d2) = Some Editing
    \<and> (\<exists>d3. get_draft s3 (d_id d2) = Some d3
         \<and> resolve_send L True s3 (d_id d2) = (s3, resolve_sendable L s3 d3))"
proof -
  obtain t box where t: "save_draft s d = Inr (t, d1)"
    and w1: "with_ops (\<lambda>q. enqueue_inner q (d_account d1) (Draft_target (d_id d1))
      (SaveDraft box) at None) t = Inr (s1, r1)"
    using assms(3) that by (auto simp: save_and_sync_def enqueue_def split: sum.splits option.splits)
  obtain u e where u: "save_draft s1 ((reserve_message_id fresh d1)\<lparr>d_state := Queued, d_updated := at1\<rparr>) = Inr (u, e)"
    using assms(5) by (auto simp: queue_send_row_def split: sum.splits)
  obtain nb where w2: "with_ops (\<lambda>q. enqueue_inner q (d_account e) (Draft_target (d_id e)) (Send (d_id e)) at1 nb) u
      = Inr (s2, r2)" and e: "d2 = e"
    using assms(5) u that
    by (cases not_before) (auto simp: queue_send_row_def enqueue_def enqueue_not_before_def split: sum.splits)
  have below: "drafts_below s2"
    using save_draft_effect [OF t assms(2)] with_enqueue_effect(4) [OF w1] assms(5)
      queue_send_effect(3) [OF assms(5)] by (simp add: saved_def)
  have id: "d_id d2 = d_id d1"
    using save_draft_id [OF u] assms(4) e by (simp add: reserve_message_id_def)
  note q1 = enqueue_append [OF w1] and q2 = enqueue_append [OF w2]
  have queue: "o_queue (ms_ops s2) = (o_queue (ms_ops s) @ [r1]) @ [r2]" "q_id r2 = q_id r1 + 1"
    "q_id r1 = o_next (ms_ops s)"
    using q1 q2 save_draft_ops [OF t] save_draft_ops [OF u] by simp_all
  obtain p where p: "pending_for (ms_ops s2) (Draft_target (d_id d2)) = Some p"
    "o_queue (ms_ops s3) = filter (\<lambda>r. q_id r \<noteq> q_id p) (o_queue (ms_ops s2))"
    using cancel_removes [OF assms(6)] by blast
  have "p \<in> set (o_queue (ms_ops s) @ [r1])"
    using q1(4,5) id
    by (intro find_in_prefix [where x = r1, OF p(1) [unfolded pending_for_def queue(1)]])
      (simp_all add: on_target_iff unsettled_def)
  then have "q_id p \<noteq> q_id r2"
    using assms(1) queue(2,3) by (auto simp: queue_wf_def)
  then have "r2 \<in> set (o_queue (ms_ops s3))" using p(2) queue(1) by simp
  moreover have "live_send (d_id d2) r2"
    using q2(4,5,6) e by (simp add: live_send_def on_target_iff unsettled_def)
  moreover have st: "draft_state_of s3 (d_id d2) = Some Editing"
    using assms(4) id by (intro cancel_edits [OF assms(6) below]) simp
  moreover from st obtain d3 where "get_draft s3 (d_id d2) = Some d3" "d_state d3 = Editing"
    by (auto simp: draft_state_of_def)
  ultimately show ?thesis by (simp add: resolve_send_def)
qed

lemmas demo_cancels =
  save_and_sync_def queue_send_row_def cancel_send_def delete_row_def pending_for_def get_row_def
  fresh_row_def on_target_def unsettled_def update_mail_def Let_def

lemma demo_autosave_then_send:
  "\<exists>s1 d1 r1 s2 d2 r2 s3.
     save_and_sync demo_store demo_draft 6 = Inr (s1, d1, Some r1) \<and> is_assigned (d_id d1)
     \<and> queue_send_row s1 ''m'' d1 7 None = Inr (s2, d2, r2)
     \<and> cancel_send s2 (d_id d2) 8 = Inr (s3, SendCancelled) \<and> d_id d2 = 1"
  by (simp add: demo_sends demo_cancels)

theorem cancel_can_leave_the_send_witness:
  "\<exists>s1 d1 r1 s2 d2 r2 s3.
     save_and_sync demo_store demo_draft 6 = Inr (s1, d1, Some r1)
     \<and> queue_send_row s1 ''m'' d1 7 None = Inr (s2, d2, r2)
     \<and> cancel_send s2 1 8 = Inr (s3, SendCancelled)
     \<and> live_send 1 r2 \<and> r2 \<in> set (o_queue (ms_ops s3))"
proof -
  have wf: "queue_wf (ms_ops demo_store)" "drafts_below demo_store"
    by (simp_all add: queue_wf_def demo_store_def drafts_below_def)
  obtain s1 d1 r1 s2 d2 r2 s3 where
    c: "save_and_sync demo_store demo_draft 6 = Inr (s1, d1, Some r1)" "is_assigned (d_id d1)"
      "queue_send_row s1 ''m'' d1 7 None = Inr (s2, d2, r2)"
      "cancel_send s2 (d_id d2) 8 = Inr (s3, SendCancelled)" and id: "d_id d2 = 1"
    using demo_autosave_then_send by blast
  from cancel_can_leave_the_send [OF wf c] c id show ?thesis by auto
qed

text \<open>
  C40: Cancelling between the drainer's look at the draft and its mark does not stop the
  send.  The worker opens the session for as long as the network takes, then marks the
  draft \<open>Sending\<close> whatever it has become, and submits; the user has been told
  \<open>Cancelled\<close> and has the draft open.
\<close>

theorem cancelled_send_is_still_submitted:
  assumes "cancel_send s (sj_draft job) at = Inr (s', SendCancelled)" "drafts_below s"
    and "is_assigned (sj_draft job)" "open_for_job L A job = Inr session"
  shows "draft_state_of s' (sj_draft job) = Some Editing
    \<and> (\<exists>t. worker_step L A s' resync (Filed job k) = (t, resync, Submitting job k session)
         \<and> draft_state_of t (sj_draft job) = Some Sending)"
proof -
  have st: "draft_state_of s' (sj_draft job) = Some Editing" by (rule cancel_edits [OF assms(1-3)])
  then obtain t where t: "set_draft_state s' (sj_draft job) Sending = Inr t"
    using set_draft_state_ok by fastforce
  with st assms(4) set_draft_state_effect [OF t] show ?thesis by simp
qed

theorem cancelled_send_is_still_submitted_witness:
  "\<exists>s' t. cancel_send demo_queued 1 8 = Inr (s', SendCancelled) \<and> draft_state_of s' 1 = Some Editing
     \<and> worker_step demo_send_lib (demo_answers []) s' [] (Filed demo_job 2)
         = (t, [], Submitting demo_job 2 (demo_open_session []))"
proof -
  have j: "sj_draft demo_job = 1" "is_assigned (sj_draft demo_job)" by (simp_all add: demo_job_def is_assigned_def)
  have below: "drafts_below demo_queued" by (simp add: drafts_below_def demo_queued_def demo_queued_draft_def)
  obtain s' where c: "cancel_send demo_queued (sj_draft demo_job) 8 = Inr (s', SendCancelled)"
    by (simp add: j demo_sends demo_cancels)
  from cancelled_send_is_still_submitted [OF c below j(2) demo_open [of "[]"], where k = 2 and resync = "[]"] c show ?thesis
    by (auto simp: j)
qed


subsection \<open>Confirming\<close>

lemma set_state_ids:
  assumes "set_draft_state s i st = Inr t"
  shows "map mr_id (ms_mail t) = map mr_id (ms_mail s)"
    "ids_by_rfc_message_id t a r = ids_by_rfc_message_id s a r"
proof -
  define f where "f = (\<lambda>m::mail_row. m\<lparr>mr_send_state := Some st,
    mr_send_at := (if st = Queued then mr_send_at m else None)\<rparr>)"
  define s1 where "s1 = update_drafts (\<lambda>r. d_id (dr_draft r) = i)
    (\<lambda>r. r\<lparr>dr_draft := (dr_draft r)\<lparr>d_state := st, d_rfc := (if st = Editing then None else d_rfc (dr_draft r))\<rparr>\<rparr>) s"
  define P where "P = lists_draft s1 i"
  have "ms_mail t = ms_mail (update_mail P f s1)"
    using assms by (auto simp: set_draft_state_def Let_def P_def s1_def f_def split: if_splits)
  then have t: "ms_mail t = map (\<lambda>m. if P m then f m else m) (ms_mail s)"
    by (simp add: update_mail_def s1_def)
  have f: "mr_id (f m) = mr_id m" "mr_account (f m) = mr_account m" "mr_rfc (f m) = mr_rfc m" for m
    by (simp_all add: f_def)
  have "map mr_id (filter Q (map (\<lambda>m. if P m then f m else m) ms)) = map mr_id (filter Q ms)"
    if "\<And>m. Q (f m) = Q m" for Q ms
    using f(1) that by (induction ms) auto
  with t f show "ids_by_rfc_message_id t a r = ids_by_rfc_message_id s a r"
    by (simp add: ids_by_rfc_message_id_def)
  show "map mr_id (ms_mail t) = map mr_id (ms_mail s)" using t f(1) by simp
qed

lemma set_synced_effect:
  assumes "set_synced_message t i m = Inr u"
  shows "draft_state_of u = draft_state_of t" "ids_by_rfc_message_id u a r = ids_by_rfc_message_id t a r"
proof -
  from assms have u: "u = update_drafts (\<lambda>r. d_id (dr_draft r) = i) (\<lambda>r. r\<lparr>dr_message := Some m\<rparr>) t"
    by (auto simp: set_synced_message_def split: if_splits)
  show "draft_state_of u = draft_state_of t"
    unfolding u by (rule ext) (intro state_by_keys keys_update, simp_all)
  show "ids_by_rfc_message_id u a r = ids_by_rfc_message_id t a r"
    by (simp add: u ids_by_rfc_message_id_def)
qed

text \<open>
  One confirmation: every listed draft of the account whose reservation some message of the
  account carries is \<open>Sent\<close> afterwards, and no other draft changes.
\<close>

lemma confirm_each_spec:
  assumes "\<And>d. d \<in> set ds \<Longrightarrow> draft_state_of s (d_id d) \<noteq> None"
  shows "\<exists>s' ms. confirm_each s a ds xs = Inr (s', ms)
    \<and> (\<forall>i. draft_state_of s' i =
         (if \<exists>d\<in>set ds. d_id d = i \<and> d_account d = a
               \<and> (\<exists>r. d_rfc d = Some r \<and> ids_by_rfc_message_id s a r \<noteq> [])
          then Some DraftSent else draft_state_of s i))"
  using assms
proof (induction ds arbitrary: s xs)
  case (Cons d ds)
  show ?case
  proof (cases "d_account d = a \<and> (\<exists>r. d_rfc d = Some r \<and> ids_by_rfc_message_id s a r \<noteq> [])")
    case False
    then have "confirm_each s a (d # ds) xs = confirm_each s a ds xs"
      by (auto split: option.splits list.splits)
    with Cons.IH [of s xs] Cons.prems False show ?thesis by auto
  next
    case True
    then obtain r m rest where r: "d_account d = a" "d_rfc d = Some r" "ids_by_rfc_message_id s a r = m # rest"
      by (auto simp: neq_Nil_conv)
    from Cons.prems set_draft_state_ok obtain t where t: "set_draft_state s (d_id d) DraftSent = Inr t"
      by (metis list.set_intros(1))
    from set_draft_state_effect [OF t] have ts: "draft_state_of t = (draft_state_of s)(d_id d \<mapsto> DraftSent)" by simp
    then obtain u where u: "set_synced_message t (d_id d) m = Inr u"
      by (simp add: set_synced_message_def draft_exists_state)
    note us = set_synced_effect [OF u]
    have ids: "ids_by_rfc_message_id u a q = ids_by_rfc_message_id s a q" for q
      using us(2) set_state_ids(2) [OF t] by simp
    have "\<And>e. e \<in> set ds \<Longrightarrow> draft_state_of u (d_id e) \<noteq> None"
      using Cons.prems us(1) ts by simp
    from Cons.IH [OF this, of "xs @ [(d_id d, m)]"] obtain s' ms
      where s': "confirm_each u a ds (xs @ [(d_id d, m)]) = Inr (s', ms)"
        "\<forall>i. draft_state_of s' i = (if \<exists>d\<in>set ds. d_id d = i \<and> d_account d = a
               \<and> (\<exists>r. d_rfc d = Some r \<and> ids_by_rfc_message_id u a r \<noteq> [])
          then Some DraftSent else draft_state_of u i)" by blast
    have "confirm_each s a (d # ds) xs = Inr (s', ms)"
      using r t u s'(1) by simp
    moreover have "draft_state_of s' i = (if \<exists>e\<in>set (d # ds). d_id e = i \<and> d_account e = a
               \<and> (\<exists>r. d_rfc e = Some r \<and> ids_by_rfc_message_id s a r \<noteq> [])
          then Some DraftSent else draft_state_of s i)" for i
      using s'(2) ids us(1) ts r by auto
    ultimately show ?thesis by blast
  qed
qed simp

lemma rfc_of_filed:
  assumes "sl_message_id_of L (sj_raw job) = Some m"
  shows "\<exists>row\<in>set (ms_mail (filed L s job)). mr_id row = ms_next_mail s \<and> mr_account row = sj_account job
    \<and> mr_rfc row = Some m \<and> mr_uid row = None \<and> mr_remote row = None"
  using assms by (simp add: filed_def file_sent_locally_def create_mail_def filed_row_def)

lemma ids_by_rfc_hit:
  assumes "row \<in> set (ms_mail s)" "mr_account row = a" "mr_rfc row = Some m" "lower_bytes m = lower_bytes r"
  shows "ids_by_rfc_message_id s a r \<noteq> []"
proof -
  have "mr_id row \<in> set (ids_by_rfc_message_id s a r)"
    using assms by (auto simp: ids_by_rfc_message_id_def)
  then show ?thesis by auto
qed

lemma set_draft_state_get:
  assumes "set_draft_state s i st = Inr t" "get_draft s i = Some d" "st \<noteq> Editing"
  shows "get_draft t i = Some (d\<lparr>d_state := st\<rparr>)"
proof -
  define t1 where "t1 = update_drafts (\<lambda>r. d_id (dr_draft r) = i)
    (\<lambda>r. r\<lparr>dr_draft := (dr_draft r)\<lparr>d_state := st, d_rfc := (if st = Editing then None else d_rfc (dr_draft r))\<rparr>\<rparr>) s"
  have t: "get_draft_row t i = get_draft_row t1 i"
    using assms(1) by (auto simp: set_draft_state_def Let_def t1_def get_draft_row_def split: if_splits)
  from assms(2) obtain row where row: "get_draft_row s i = Some row" "dr_draft row = d"
    by (auto simp: get_draft_def)
  have "get_draft_row t1 i = Some (row\<lparr>dr_draft := d\<lparr>d_state := st\<rparr>\<rparr>)"
    using row get_draft_row_id [OF row(1)] assms(3) unfolding t1_def
    by (subst get_draft_row_update) simp_all
  then show ?thesis by (simp add: get_draft_def t)
qed

lemma mark_get:
  assumes "get_draft s i = Some d" "st \<noteq> Editing"
  shows "get_draft (mark_or_keep s i st) i = Some (d\<lparr>d_state := st\<rparr>)"
    "ids_by_rfc_message_id (mark_or_keep s i st) a r = ids_by_rfc_message_id s a r"
proof -
  have "draft_state_of s i \<noteq> None" using assms(1) by (simp add: draft_state_of_def)
  then obtain t where t: "set_draft_state s i st = Inr t" using set_draft_state_ok by blast
  then have [simp]: "mark_or_keep s i st = t" by (simp add: mark_or_keep_def)
  show "get_draft (mark_or_keep s i st) i = Some (d\<lparr>d_state := st\<rparr>)"
    using set_draft_state_get [OF t assms] by simp
  show "ids_by_rfc_message_id (mark_or_keep s i st) a r = ids_by_rfc_message_id s a r"
    using set_state_ids(2) [OF t] by simp
qed

lemma by_state_member: "get_draft s i = Some d \<Longrightarrow> d_state d = st \<Longrightarrow> d \<in> set (by_state s st)"
  by (auto simp: by_state_def get_draft_def get_draft_row_def find_Some_iff)

lemma by_state_exists: "d \<in> set (by_state s st) \<Longrightarrow> draft_state_of s (d_id d) \<noteq> None"
  by (auto simp: by_state_def state_row get_draft_row_def find_None_iff)

text \<open>
  An unconfirmed send is confirmed by the copy Postio filed itself.  The copy goes into
  Sent under the reserved \<open>Message-ID\<close> before anything is submitted and stays when the
  outcome is unknown, and the next pass takes any message of the account with that id for
  the proof of delivery: so every unknown submission is reported as sent, although nothing
  with that id ever came from a server.
\<close>

theorem unconfirmed_send_confirms_itself:
  assumes "mail_below s" "get_draft s (sj_draft job) = Some d" "d_account d = sj_account job"
    and "d_rfc d = Some r" "sl_message_id_of L (sj_raw job) = Some m" "lower_bytes m = lower_bytes r"
    and "open_for_job L A job = Inr session" "answer_of L job session = Inl e" "submission_is_indeterminate e"
    and "ids_by_rfc_message_id s (sj_account job) r = []"
  shows "\<exists>s1 s2 ms. send_job_run L A s resync job = (s1, resync, Finished job (Uncertain indeterminate_text))
    \<and> draft_state_of s1 (sj_draft job) = Some Unconfirmed
    \<and> confirm_unconfirmed s1 (sj_account job) = Inr (s2, ms)
    \<and> draft_state_of s2 (sj_draft job) = Some DraftSent"
proof -
  have gf: "get_draft (filed L s job) (sj_draft job) = Some d"
    using assms(2) by (simp add: get_draft_def get_draft_row_def filed_def file_sent_locally_def create_mail_def)
  then have "draft_state_of (filed L s job) (sj_draft job) \<noteq> None" by (simp add: draft_state_of_def)
  then obtain t where t: "set_draft_state (filed L s job) (sj_draft job) Sending = Inr t"
    using set_draft_state_ok by blast
  note gt = set_draft_state_get [OF t gf, simplified]
  define s1 where "s1 = mark_or_keep t (sj_draft job) Unconfirmed"
  note gs = mark_get [OF gt, of Unconfirmed, folded s1_def, simplified]
  have run: "send_job_run L A s resync job = (s1, resync, Finished job (Uncertain indeterminate_text))"
    using run_opened [OF assms(7) t, of resync] assms(8,9) by (simp add: s1_def)
  have member: "d\<lparr>d_state := Unconfirmed\<rparr> \<in> set (by_state s1 Unconfirmed)"
    using gs(1) by (rule by_state_member) simp
  have id: "d_id d = sj_draft job" using assms(2) get_draft_row_id by (auto simp: get_draft_def)
  have "ids_by_rfc_message_id (filed L s job) (sj_account job) r \<noteq> []"
    using rfc_of_filed [OF assms(5), of s] assms(6) ids_by_rfc_hit by blast
  then have ids: "ids_by_rfc_message_id s1 (sj_account job) r \<noteq> []"
    using gs(2) set_state_ids(2) [OF t] by simp
  from confirm_each_spec [where ds = "by_state s1 Unconfirmed" and s = s1 and a = "sj_account job" and xs = "[]",
    OF by_state_exists [of _ s1 Unconfirmed]]
  obtain s2 ms where "confirm_unconfirmed s1 (sj_account job) = Inr (s2, ms)"
    "draft_state_of s2 (sj_draft job) =
      (if \<exists>e\<in>set (by_state s1 Unconfirmed). d_id e = sj_draft job \<and> d_account e = sj_account job
           \<and> (\<exists>q. d_rfc e = Some q \<and> ids_by_rfc_message_id s1 (sj_account job) q \<noteq> [])
       then Some DraftSent else draft_state_of s1 (sj_draft job))"
    by (auto simp: confirm_unconfirmed_def)
  moreover have "\<exists>e\<in>set (by_state s1 Unconfirmed). d_id e = sj_draft job \<and> d_account e = sj_account job
           \<and> (\<exists>q. d_rfc e = Some q \<and> ids_by_rfc_message_id s1 (sj_account job) q \<noteq> [])"
    using member ids id assms(3,4) by (intro bexI [OF _ member]) simp
  moreover have "draft_state_of s1 (sj_draft job) = Some Unconfirmed"
    using gs(1) by (simp add: draft_state_of_def)
  ultimately show ?thesis using run by auto
qed

theorem unconfirmed_send_confirms_itself_witness:
  "\<exists>s1 s2 ms. send_job_run demo_send_lib (demo_answers demo_lost) demo_queued [] demo_job
       = (s1, [], Finished demo_job (Uncertain indeterminate_text))
     \<and> confirm_unconfirmed s1 1 = Inr (s2, ms) \<and> draft_state_of s2 1 = Some DraftSent"
proof -
  have j: "sj_draft demo_job = 1" "sj_account demo_job = 1" "sj_raw demo_job = ''m''"
    by (simp_all add: demo_job_def)
  have d: "get_draft demo_queued (sj_draft demo_job) = Some demo_queued_draft"
    by (simp add: j get_draft_def get_draft_row_def demo_queued_def demo_queued_draft_def)
  have f: "d_account demo_queued_draft = sj_account demo_job" "d_rfc demo_queued_draft = Some ''m''"
    "sl_message_id_of demo_send_lib (sj_raw demo_job) = Some ''m''"
    "ids_by_rfc_message_id demo_queued (sj_account demo_job) ''m'' = []"
    by (simp_all add: j demo_queued_draft_def demo_draft_def demo_send_lib_def ids_by_rfc_message_id_def
        demo_queued_def)
  have ind: "submission_is_indeterminate (Indeterminate e)" for e
    by (simp add: submission_is_indeterminate_def)
  from unconfirmed_send_confirms_itself [OF demo_mail_below d f(1-3) refl demo_open demo_answer_lost ind f(4),
      of "[]"] show ?thesis
    by (auto simp: j)
qed


subsection \<open>Retrying\<close>

text \<open>\<open>n\<close> attempts, each of which ends in a retry before the session opens.\<close>

fun attempts :: "nat \<Rightarrow> send_lib \<Rightarrow> send_answers \<Rightarrow> mail_store \<Rightarrow> mailbox_id list \<Rightarrow> send_job \<Rightarrow> mail_store" where
  "attempts 0 L A s resync job = s"
| "attempts (Suc n) L A s resync job = attempts n L A (fst (send_job_run L A s resync job)) resync job"

definition copies :: "mail_store \<Rightarrow> mailbox_id \<Rightarrow> string option \<Rightarrow> nat" where
  "copies s box rfc = length (filter (\<lambda>m. mr_mailbox m = box \<and> mr_rfc m = rfc) (ms_mail s))"

text \<open>
  Every retried send files another copy.  The copy is put into Sent at the start of
  each attempt and a retry keeps it, so after \<open>n\<close> attempts that could not reach the
  server the folder lists the message \<open>n\<close> times more; a final failure takes back only the
  last one.
\<close>

theorem send_retry_files_each_time:
  assumes "open_for_job L A job = Inl (Retry reason after)"
  shows "copies (attempts n L A s resync job) (sj_sent_mailbox job) (sl_message_id_of L (sj_raw job))
    = copies s (sj_sent_mailbox job) (sl_message_id_of L (sj_raw job)) + n"
proof (induction n arbitrary: s)
  case (Suc n)
  have "fst (send_job_run L A s resync job) = filed L s job"
    using run_not_opened [OF assms] by (simp add: is_failed_def)
  moreover have "copies (filed L s job) (sj_sent_mailbox job) (sl_message_id_of L (sj_raw job))
      = copies s (sj_sent_mailbox job) (sl_message_id_of L (sj_raw job)) + 1"
    by (simp add: copies_def filed_def file_sent_locally_def create_mail_def filed_row_def)
  ultimately show ?case using Suc.IH [of "filed L s job"] by simp
qed simp

text \<open>A host that refuses the connection.\<close>

definition demo_offline :: send_answers where
  "demo_offline = (demo_answers [])\<lparr>sa_script := [IoFails TrClosed]\<rparr>"

lemma demo_offline_open:
  "open_for_job demo_send_lib demo_offline demo_job = Inl (Retry ''smtp'' None)"
  by (simp add: open_for_job_def with_credential_def demo_offline_def demo_answers_def demo_job_def
      demo_settings_def opened_session_def open_session_def validate_settings_def demo_trim
      session_start_def demo_send_lib_def demo_lib_def open_loop.simps connect_call.simps
      smtp_is_authentication_failure_def outcome_from_smtp_error_def smtp_is_transient_def)

theorem send_retry_files_each_time_witness:
  "copies (attempts 3 demo_send_lib demo_offline demo_queued [] demo_job) 20 (Some ''m'') = 3"
  using send_retry_files_each_time [OF demo_offline_open, of 3 demo_queued "[]"]
  by (simp add: demo_job_def demo_send_lib_def copies_def demo_queued_def)

end
