(* ===== verification/Draft_Upload.thy ===== *)
theory Draft_Upload
  imports Send_Props
begin

section \<open>Drafts on the server\<close>

text \<open>
  \<open>crates/postio-sync/src/drafts.rs\<close>: what \<open>SaveDraft\<close> and \<open>DiscardDraft\<close> rows
  become, and the upload itself, which appends the new copy before it removes the old one.
  The server is a state \<open>'w\<close> with the backend's three calls as parameters;
  \<open>server_keeps\<close> is what the protocol promises of them (RFC 3501: an append adds, flags and
  expunge touch only the messages named).
\<close>

record 'w draft_backend =
  db_append :: "'w \<Rightarrow> string \<Rightarrow> string \<Rightarrow> 'w \<times> (backend_error + uid_mapping option)"
  db_flag_deleted :: "'w \<Rightarrow> string \<Rightarrow> remote_id \<Rightarrow> 'w \<times> (backend_error + nat)"
  db_expunge :: "'w \<Rightarrow> string \<Rightarrow> remote_id \<Rightarrow> 'w \<times> (backend_error + unit)"

record draft_lib =
  dl_send :: send_lib
  dl_build_draft :: "draft \<Rightarrow> identity \<Rightarrow> string list \<Rightarrow> string"  \<comment> \<open>\<open>outgoing::build_draft\<close>\<close>
  dl_mailbox_path :: "mailbox_id \<Rightarrow> string option"
  dl_has_blobs :: bool
  dl_error_text :: "backend_error \<Rightarrow> string"

datatype draft_job =
    SaveJob draft_id mailbox_id string string "remote_id option"
  | DiscardJob mailbox_id string remote_id

subsection \<open>Resolving\<close>

fun draft_attachments :: "draft_lib \<Rightarrow> blob_id option list \<Rightarrow> sync_error + (draft_job looked_up + string list)" where
  "draft_attachments L [] = Inr (Inr [])"
| "draft_attachments L (None # bs) =
     Inr (Inl (JobLater ''an attachment has not finished being written locally''))"
| "draft_attachments L (Some b # bs) =
     (if \<not> dl_has_blobs L then
        Inr (Inl (JobImpossible ''this drainer has no blob store to read attachments from''))
      else (case sl_blob (dl_send L) b of
        Inl e \<Rightarrow> Inl e
      | Inr c \<Rightarrow>
          (case draft_attachments L bs of
             Inl e \<Rightarrow> Inl e
           | Inr (Inl j) \<Rightarrow> Inr (Inl j)
           | Inr (Inr cs) \<Rightarrow> Inr (Inr (c # cs)))))"

definition resolve_save :: "draft_lib \<Rightarrow> mail_store \<Rightarrow> draft_id \<Rightarrow> mailbox_id \<Rightarrow> sync_error + draft_job looked_up" where
  "resolve_save L s i box =
     (case get_draft s i of
        None \<Rightarrow> Inr (JobObsolete ''the draft is no longer in the local store'')
      | Some d \<Rightarrow>
          (case dl_mailbox_path L box of
             None \<Rightarrow> Inr (JobObsolete ''the Drafts mailbox is no longer in the local store'')
           | Some path \<Rightarrow>
               (case sl_account (dl_send L) (d_account d) of
                  None \<Rightarrow> Inr (JobImpossible ''the account is no longer in the local store'')
                | Some a \<Rightarrow>
                    (case sending_identity a d of
                       None \<Rightarrow> Inr (JobImpossible ''the account has no identity to compose as'')
                     | Some ident \<Rightarrow>
                         (case draft_attachments L (d_attachments d) of
                            Inl e \<Rightarrow> Inl e
                          | Inr (Inl j) \<Rightarrow> Inr j
                          | Inr (Inr contents) \<Rightarrow>
                              Inr (JobReady (SaveJob i box path (dl_build_draft L d ident contents) (d_remote d))))))))"

definition resolve_discard :: "draft_lib \<Rightarrow> mailbox_id \<Rightarrow> remote_id \<Rightarrow> sync_error + draft_job looked_up" where
  "resolve_discard L box copy =
     (case dl_mailbox_path L box of
        None \<Rightarrow> Inr (JobObsolete ''the Drafts mailbox is no longer in the local store'')
      | Some path \<Rightarrow> Inr (JobReady (DiscardJob box path copy)))"


subsection \<open>Running\<close>

definition remove_from :: "'w draft_backend \<Rightarrow> capabilities \<Rightarrow> 'w \<Rightarrow> string \<Rightarrow> remote_id
    \<Rightarrow> 'w \<times> (backend_error + removal)" where
  "remove_from B caps w path copy =
     (case db_flag_deleted B w path copy of
        (w, Inl e) \<Rightarrow> (w, Inl e)
      | (w, Inr updated) \<Rightarrow>
          if updated = 0 then (w, Inr Gone)
          else if \<not> caps_contains caps UidPlus then (w, Inr Marked)
          else (case db_expunge B w path copy of
                  (w, Inl e) \<Rightarrow> (w, Inl e)
                | (w, Inr _) \<Rightarrow> (w, Inr Removed)))"

definition remove_previous :: "'w draft_backend \<Rightarrow> capabilities \<Rightarrow> 'w \<Rightarrow> mailbox_id list \<Rightarrow> mailbox_id
    \<Rightarrow> string \<Rightarrow> remote_id \<Rightarrow> 'w \<times> mailbox_id list" where
  "remove_previous B caps w resync box path previous =
     (case remove_from B caps w path previous of
        (w, Inr Removed) \<Rightarrow> (w, resync)
      | (w, Inr Gone) \<Rightarrow> (w, resync)
      | (w, Inr Marked) \<Rightarrow> (w, resync_insert box resync)
      | (w, Inl _) \<Rightarrow> (w, resync_insert box resync))"

definition upload_draft :: "draft_lib \<Rightarrow> 'w draft_backend \<Rightarrow> capabilities \<Rightarrow> 'w \<Rightarrow> mail_store
    \<Rightarrow> mailbox_id list \<Rightarrow> mailbox_id list \<Rightarrow> draft_id \<Rightarrow> mailbox_id \<Rightarrow> string \<Rightarrow> string \<Rightarrow> remote_id option
    \<Rightarrow> 'w \<times> mail_store \<times> mailbox_id list \<times> outcome" where
  "upload_draft L B caps w s boxes resync i box path raw previous =
     (case db_append B w path raw of
        (w, Inl e) \<Rightarrow>
          (w, s, (if requires_full_resync e then resync_insert box resync else resync),
           outcome_from_error (dl_error_text L) e)
      | (w, Inr landed) \<Rightarrow>
          (let location = map_option (\<lambda>m. \<lparr>sc_remote = um_destination_remote_id m,
                 sc_uid = um_destination m, sc_uid_validity = um_uid_validity m\<rparr>) landed;
               resync = (if landed = None then resync_insert box resync else resync) in
           case set_server_copy s boxes i location of
             Inl e \<Rightarrow>
               (w, s, resync_insert box resync,
                Obsolete (''the draft went away while it was being uploaded: '' @ sl_storage_text (dl_send L) e))
           | Inr s \<Rightarrow>
               (case previous of
                  None \<Rightarrow> (w, s, resync, Applied)
                | Some old \<Rightarrow>
                    (let (w, resync) = remove_previous B caps w resync box path old in
                     (w, s, resync, Applied)))))"

definition discard_copy :: "draft_lib \<Rightarrow> 'w draft_backend \<Rightarrow> capabilities \<Rightarrow> 'w \<Rightarrow> mailbox_id list
    \<Rightarrow> mailbox_id \<Rightarrow> string \<Rightarrow> remote_id \<Rightarrow> 'w \<times> mailbox_id list \<times> outcome" where
  "discard_copy L B caps w resync box path copy =
     (case remove_from B caps w path copy of
        (w, Inr Gone) \<Rightarrow>
          (w, resync, Obsolete ''the draft was no longer in the Drafts mailbox on the server'')
      | (w, Inr Marked) \<Rightarrow> (w, resync_insert box resync, Applied)
      | (w, Inr Removed) \<Rightarrow> (w, resync, Applied)
      | (w, Inl e) \<Rightarrow>
          if requires_full_resync e then
            (w, resync_insert box resync,
             Obsolete ''the Drafts mailbox has been renumbered since the draft was                              uploaded'')
          else (w, resync, outcome_from_error (dl_error_text L) e))"

definition run_draft :: "draft_lib \<Rightarrow> 'w draft_backend \<Rightarrow> capabilities \<Rightarrow> 'w \<Rightarrow> mail_store
    \<Rightarrow> mailbox_id list \<Rightarrow> mailbox_id list \<Rightarrow> draft_job \<Rightarrow> 'w \<times> mail_store \<times> mailbox_id list \<times> outcome" where
  "run_draft L B caps w s boxes resync job =
     (case job of
        SaveJob i box path raw previous \<Rightarrow> upload_draft L B caps w s boxes resync i box path raw previous
      | DiscardJob box path copy \<Rightarrow>
          (let (w, resync, out) = discard_copy L B caps w resync box path copy in (w, s, resync, out)))"

subsection \<open>A copy is always on the server\<close>

text \<open>
  \<open>on w path\<close> is what the mailbox shows: the ids of its messages with their bytes.  The
  calls keep what they do not name, whatever they answer, and an append that says so has
  added the message under an id of its own.
\<close>

definition server_keeps :: "'w draft_backend \<Rightarrow> ('w \<Rightarrow> string \<Rightarrow> (remote_id \<times> string) set) \<Rightarrow> bool" where
  "server_keeps B on \<longleftrightarrow>
     (\<forall>w path raw w' r. db_append B w path raw = (w', r) \<longrightarrow>
        on w path \<subseteq> on w' path
        \<and> (\<forall>landed. r = Inr landed \<longrightarrow>
             (\<exists>i. (i, raw) \<in> on w' path \<and> i \<notin> fst ` on w path
                \<and> (\<forall>m. landed = Some m \<longrightarrow> um_destination_remote_id m = i))))
     \<and> (\<forall>w path i w' r. db_flag_deleted B w path i = (w', r) \<longrightarrow> {x \<in> on w path. fst x \<noteq> i} \<subseteq> on w' path)
     \<and> (\<forall>w path i w' r. db_expunge B w path i = (w', r) \<longrightarrow> {x \<in> on w path. fst x \<noteq> i} \<subseteq> on w' path)"

lemma remove_keeps:
  assumes "server_keeps B on" "remove_from B caps w path i = (w', r)"
  shows "{x \<in> on w path. fst x \<noteq> i} \<subseteq> on w' path"
proof -
  have flag: "\<And>w1 q. db_flag_deleted B w path i = (w1, q) \<Longrightarrow> {x \<in> on w path. fst x \<noteq> i} \<subseteq> on w1 path"
    and exp: "\<And>w1 w2 q. db_expunge B w1 path i = (w2, q) \<Longrightarrow> {x \<in> on w1 path. fst x \<noteq> i} \<subseteq> on w2 path"
    using assms(1) by (simp_all add: server_keeps_def)
  obtain w1 q where q: "db_flag_deleted B w path i = (w1, q)" by fastforce
  show ?thesis
  proof (cases "w' = w1")
    case True
    with flag [OF q] show ?thesis by simp
  next
    case False
    with assms(2) q obtain q2 where "db_expunge B w1 path i = (w', q2)"
      by (auto simp: remove_from_def split: sum.splits if_splits prod.splits)
    from exp [OF this] flag [OF q] show ?thesis by blast
  qed
qed

lemma remove_previous_keeps:
  assumes "server_keeps B on" "remove_previous B caps w resync box path i = (w', resync')"
  shows "{x \<in> on w path. fst x \<noteq> i} \<subseteq> on w' path"
proof -
  obtain w1 q where q: "remove_from B caps w path i = (w1, q)" by fastforce
  with assms(2) have "w' = w1"
    by (auto simp: remove_previous_def split: sum.splits removal.splits)
  with remove_keeps [OF assms(1) q] show ?thesis by simp
qed

lemma set_server_copy_get:
  assumes "set_server_copy s boxes i copy = Inr t" "get_draft s i = Some d"
  shows "\<exists>d'. get_draft t i = Some d' \<and> d_remote d' = map_option sc_remote copy"
proof -
  define f where "f = (\<lambda>r::draft_row. r\<lparr>dr_draft := (dr_draft r)\<lparr>d_remote := map_option sc_remote copy,
     d_uid := map_option sc_uid copy, d_uid_validity := map_option sc_uid_validity copy\<rparr>\<rparr>)"
  define s1 where "s1 = update_drafts (\<lambda>r. d_id (dr_draft r) = i) f s"
  from assms(2) obtain row where row: "get_draft_row s i = Some row" by (auto simp: get_draft_def)
  have g1: "get_draft_row s1 i = Some (f row)"
    using row get_draft_row_id [OF row] unfolding s1_def by (subst get_draft_row_update) (simp_all add: f_def)
  have "\<exists>r. get_draft_row (delete_mail P s1) i = Some r \<and> dr_draft r = dr_draft (f row)" for P
  proof -
    have "\<exists>r. find (\<lambda>r. d_id (dr_draft r) = i) (map h rs) = Some r \<and> dr_draft r = dr_draft x"
      if "find (\<lambda>r. d_id (dr_draft r) = i) rs = Some x" "\<And>r. dr_draft (h r) = dr_draft r"
      for h :: "draft_row \<Rightarrow> draft_row" and rs x
      using that by (induction rs) (auto split: if_splits)
    from this [OF g1 [unfolded get_draft_row_def]] show ?thesis
      by (simp add: get_draft_row_def delete_mail_def Let_def split: option.splits)
  qed
  with g1 assms(1) show ?thesis
    by (cases copy) (force simp: set_server_copy_def Let_def s1_def f_def get_draft_def get_draft_row_def
        split: if_splits)+
qed

text \<open>
  C14: Saving a draft never leaves the server without it.  Whatever the server answers and
  wherever it fails, after the upload every other message is still there, and the copy the
  draft had before is still there or the new one is; when the upload was applied the new
  copy is on the server and the draft points to a message of the server or to none, never to
  the one that was removed.
\<close>

theorem draft_upload_keeps_a_copy:
  assumes "server_keeps B on" "(old, was) \<in> on w path" "get_draft s i = Some d"
    and "run_draft L B caps w s boxes resync (SaveJob i box path raw (Some old)) = (w', s', resync', out)"
  shows "{x \<in> on w path. fst x \<noteq> old} \<subseteq> on w' path
    \<and> ((old, was) \<in> on w' path \<or> (\<exists>new. (new, raw) \<in> on w' path))
    \<and> (out = Applied \<longrightarrow> (\<exists>new d'. new \<noteq> old \<and> (new, raw) \<in> on w' path \<and> get_draft s' i = Some d'
         \<and> (d_remote d' = Some new \<or> d_remote d' = None)))"
proof -
  obtain w1 q where q: "db_append B w path raw = (w1, q)" by fastforce
  have kept: "on w path \<subseteq> on w1 path"
    and added: "\<And>landed. q = Inr landed \<Longrightarrow> \<exists>i. (i, raw) \<in> on w1 path \<and> i \<notin> fst ` on w path
        \<and> (\<forall>m. landed = Some m \<longrightarrow> um_destination_remote_id m = i)"
    using assms(1) q by (simp_all add: server_keeps_def)
  show ?thesis
  proof (cases q)
    case (Inl e)
    with assms(4) q have "w' = w1" "out \<noteq> Applied"
      by (auto simp: run_draft_def upload_draft_def outcome_from_error_def split: if_splits)
    with kept assms(2) show ?thesis by auto
  next
    case (Inr landed)
    from added [OF Inr] obtain new where new: "(new, raw) \<in> on w1 path" "new \<notin> fst ` on w path"
      "\<And>m. landed = Some m \<Longrightarrow> um_destination_remote_id m = new" by blast
    with assms(2) have "new \<noteq> old" by force
    define location where "location = map_option (\<lambda>m. \<lparr>sc_remote = um_destination_remote_id m,
        sc_uid = um_destination m, sc_uid_validity = um_uid_validity m\<rparr>) landed"
    obtain t where t: "set_server_copy s boxes i location = Inr t"
      using assms(3) by (cases "set_server_copy s boxes i location")
        (auto simp: set_server_copy_def draft_exists_def get_draft_def get_draft_row_def Let_def
          list_ex_iff find_Some_iff split: if_splits)
    from set_server_copy_get [OF t assms(3)] obtain d' where d': "get_draft t i = Some d'"
        "d_remote d' = map_option sc_remote location" by blast
    obtain w2 r2 where w2: "remove_previous B caps w1
        (if landed = None then resync_insert box resync else resync) box path old = (w2, r2)" by fastforce
    with assms(4) q Inr t have "w' = w2" "s' = t"
      by (simp_all add: run_draft_def upload_draft_def Let_def location_def)
    moreover have "(new, raw) \<in> on w2 path" "{x \<in> on w path. fst x \<noteq> old} \<subseteq> on w2 path"
      using remove_previous_keeps [OF assms(1) w2] new(1) \<open>new \<noteq> old\<close> kept by auto
    moreover have "d_remote d' = Some new \<or> d_remote d' = None"
      using d'(2) new(3) by (cases landed) (simp_all add: location_def)
    ultimately show ?thesis using \<open>new \<noteq> old\<close> d'(1) by blast
  qed
qed

text \<open>A server that is a list of messages, numbered as they come.\<close>

definition demo_backend :: "(remote_id \<times> string) list draft_backend" where
  "demo_backend =
     \<lparr>db_append = (\<lambda>w p raw. (w @ [(concat (map fst w) @ ''n'', raw)],
        Inr (Some \<lparr>um_source = 0, um_destination = 1, um_uid_validity = 1,
          um_destination_remote_id = concat (map fst w) @ ''n''\<rparr>))),
      db_flag_deleted = (\<lambda>w p i. (filter (\<lambda>x. fst x \<noteq> i) w, Inr 1)),
      db_expunge = (\<lambda>w p i. (w, Inr ()))\<rparr>"

lemma demo_server_keeps: "server_keeps demo_backend (\<lambda>w p. set w)"
proof -
  have "concat (map fst w) @ ''n'' \<notin> fst ` set w" for w :: "(remote_id \<times> string) list"
    by (rule concat_fresh)
  then show ?thesis by (auto simp: server_keeps_def demo_backend_def)
qed

definition demo_draft_lib :: draft_lib where
  "demo_draft_lib = \<lparr>dl_send = demo_send_lib, dl_build_draft = (\<lambda>d i cs. d_content d),
     dl_mailbox_path = (\<lambda>_. Some ''Drafts''), dl_has_blobs = True, dl_error_text = (\<lambda>_. ''e'')\<rparr>"

theorem draft_upload_keeps_a_copy_witness:
  "\<exists>w' s' resync'. run_draft demo_draft_lib demo_backend (\<lparr>cap_known = [], cap_unknown = []\<rparr>)
       [(''o'', ''was'')] demo_queued [10] [] (SaveJob 1 10 ''Drafts'' ''now'' (Some ''o''))
         = (w', s', resync', Applied)
     \<and> (\<exists>new d'. new \<noteq> ''o'' \<and> (new, ''now'') \<in> set w' \<and> get_draft s' 1 = Some d'
         \<and> (d_remote d' = Some new \<or> d_remote d' = None))"
proof -
  have d: "get_draft demo_queued 1 = Some demo_queued_draft"
    by (simp add: get_draft_def get_draft_row_def demo_queued_def demo_queued_draft_def)
  have mem: "(''o'', ''was'') \<in> set [(''o'', ''was'')]" by simp
  obtain w' s' resync' where r: "run_draft demo_draft_lib demo_backend (\<lparr>cap_known = [], cap_unknown = []\<rparr>)
       [(''o'', ''was'')] demo_queued [10] [] (SaveJob 1 10 ''Drafts'' ''now'' (Some ''o''))
         = (w', s', resync', Applied)"
    by (simp add: run_draft_def upload_draft_def demo_backend_def set_server_copy_def draft_exists_def
        remove_previous_def remove_from_def caps_contains_def demo_queued_def demo_queued_draft_def Let_def
        split: prod.splits)
  from draft_upload_keeps_a_copy [OF demo_server_keeps mem d r] r show ?thesis by blast
qed

end
