(* ===== verification/Cross_Account.thy ===== *)
theory Cross_Account
  imports Drain
begin

section \<open>Moves between accounts\<close>

text \<open>
  \<open>crates/postio-storage/src/repository/cross_account.rs\<close>, the saga row two queues share
  and the walk of its phases, and \<open>crates/postio-sync/src/cross_account.rs\<close>, what the
  target's drainer (\<open>copy\<close>) and the source's (\<open>remove\<close>) do for it.  The columns of
  \<open>messages\<close> the queue does not read are in \<open>xs_columns\<close>, and \<open>xs_path\<close> is the mailbox
  table.  Each server call is a parameter over a state \<open>'w\<close>.  Every handler is given twice:
  in the order of the code, and cut at its \<open>await\<close> points into the steps that another task
  or a crash may come between.  Two texts of the code hold an em dash, written \<open>--\<close> here.
\<close>

subsection \<open>The saga row\<close>

datatype move_phase = PhaseCopying | PhaseUnconfirmed | PhaseConfirmed | PhaseDone | PhaseAborted

fun phase_as_str :: "move_phase \<Rightarrow> string" where
  "phase_as_str PhaseCopying = ''copying''"
| "phase_as_str PhaseUnconfirmed = ''unconfirmed''"
| "phase_as_str PhaseConfirmed = ''confirmed''"
| "phase_as_str PhaseDone = ''done''"
| "phase_as_str PhaseAborted = ''aborted''"

definition phase_parse :: "string \<Rightarrow> move_phase option" where
  "phase_parse s =
     (if s = ''copying'' then Some PhaseCopying
      else if s = ''unconfirmed'' then Some PhaseUnconfirmed
      else if s = ''confirmed'' then Some PhaseConfirmed
      else if s = ''done'' then Some PhaseDone
      else if s = ''aborted'' then Some PhaseAborted
      else None)"

fun phase_allows :: "move_phase \<Rightarrow> move_phase \<Rightarrow> bool" where
  "phase_allows PhaseCopying PhaseUnconfirmed = True"
| "phase_allows PhaseCopying PhaseConfirmed = True"
| "phase_allows PhaseCopying PhaseAborted = True"
| "phase_allows PhaseUnconfirmed PhaseConfirmed = True"
| "phase_allows PhaseUnconfirmed PhaseAborted = True"
| "phase_allows PhaseConfirmed PhaseDone = True"
| "phase_allows PhaseConfirmed PhaseAborted = True"
| "phase_allows _ _ = False"

record saga =
  sg_id :: saga_id
  sg_source_message :: "message_id option"
  sg_source_account :: "account_id option"
  sg_source_mailbox :: "mailbox_id option"
  sg_target_account :: "account_id option"
  sg_target_mailbox :: "mailbox_id option"
  sg_target_message :: "message_id option"
  sg_raw :: "blob_id option"
  sg_rfc :: "string option"
  sg_phase :: move_phase
  sg_confirmed :: "remote_id option"

record message_columns =
  mc_account :: account_id
  mc_raw :: "blob_id option"
  mc_rfc :: "string option"
  mc_deleted :: bool  \<comment> \<open>\<open>deleted_locally\<close>\<close>

record saga_store =
  xs_ops :: op_store
  xs_sagas :: "saga list"
  xs_next_saga :: saga_id
  xs_columns :: "message_id \<Rightarrow> message_columns option"
  xs_next_message :: message_id
  xs_path :: "mailbox_id \<Rightarrow> string option"

definition create_saga :: "saga_store \<Rightarrow> message_id \<Rightarrow> account_id \<Rightarrow> mailbox_id \<Rightarrow> account_id
    \<Rightarrow> mailbox_id \<Rightarrow> message_id option \<Rightarrow> blob_id option \<Rightarrow> string option \<Rightarrow> saga_store \<times> saga_id" where
  "create_saga s source source_account source_mailbox target_account target_mailbox target raw rfc =
     (s\<lparr>xs_sagas := xs_sagas s @
          [\<lparr>sg_id = xs_next_saga s, sg_source_message = Some source,
            sg_source_account = Some source_account, sg_source_mailbox = Some source_mailbox,
            sg_target_account = Some target_account, sg_target_mailbox = Some target_mailbox,
            sg_target_message = target, sg_raw = raw, sg_rfc = rfc,
            sg_phase = PhaseCopying, sg_confirmed = None\<rparr>],
        xs_next_saga := xs_next_saga s + 1\<rparr>,
      xs_next_saga s)"

definition get_saga :: "saga_store \<Rightarrow> saga_id \<Rightarrow> saga option" where
  "get_saga s i = find (\<lambda>g. sg_id g = i) (xs_sagas s)"

definition for_sources :: "saga_store \<Rightarrow> message_id list \<Rightarrow> move_phase list \<Rightarrow> saga list" where
  "for_sources s sources phases =
     (if sources = [] \<or> phases = [] then []
      else filter (\<lambda>g. sg_phase g \<in> set phases
             \<and> (case sg_source_message g of Some m \<Rightarrow> m \<in> set sources | None \<Rightarrow> False)) (xs_sagas s))"

definition update_saga :: "(saga \<Rightarrow> saga) \<Rightarrow> saga_store \<Rightarrow> saga_id \<Rightarrow> saga_store" where
  "update_saga f s i = s\<lparr>xs_sagas := map (\<lambda>g. if sg_id g = i then f g else g) (xs_sagas s)\<rparr>"

definition transition :: "saga_store \<Rightarrow> saga_id \<Rightarrow> move_phase \<Rightarrow> storage_error + saga_store" where
  "transition s i next =
     (case get_saga s i of
        None \<Rightarrow> Inl (NotFound ''cross-account move'' i)
      | Some current \<Rightarrow>
          if \<not> phase_allows (sg_phase current) next then
            Inl (ForbiddenTransition ''cross-account move phase''
              (phase_as_str (sg_phase current) @ '' cannot become '' @ phase_as_str next
                @ '' -- the saga only moves forward, and nothing reaches done except through confirmed''))
          else Inr (update_saga (\<lambda>g. g\<lparr>sg_phase := next\<rparr>) s i))"

definition set_remote :: "saga_store \<Rightarrow> message_id \<Rightarrow> remote_id \<Rightarrow> saga_store" where
  "set_remote s m remote =
     s\<lparr>xs_ops := (xs_ops s)\<lparr>o_messages :=
         map (\<lambda>r. if m_id r = m then r\<lparr>m_remote := Some remote\<rparr> else r) (o_messages (xs_ops s))\<rparr>\<rparr>"

definition confirm :: "saga_store \<Rightarrow> saga_id \<Rightarrow> remote_id option \<Rightarrow> storage_error + saga_store" where
  "confirm s i remote =
     (case transition s i PhaseConfirmed of
        Inl e \<Rightarrow> Inl e
      | Inr s \<Rightarrow>
          (case remote of
             None \<Rightarrow> Inr s
           | Some new \<Rightarrow>
               (let s = update_saga (\<lambda>g. g\<lparr>sg_confirmed := Some new\<rparr>) s i in
                case get_saga s i of
                  Some g \<Rightarrow> Inr (case sg_target_message g of Some m \<Rightarrow> set_remote s m new | None \<Rightarrow> s)
                | None \<Rightarrow> Inr s)))"


subsection \<open>The copy, on the target's drainer\<close>

record 'w saga_backend =
  sb_find :: "'w \<Rightarrow> string \<Rightarrow> string \<Rightarrow> 'w \<times> (backend_error + remote_id option)"
    \<comment> \<open>\<open>find_by_message_id\<close>\<close>
  sb_append :: "'w \<Rightarrow> string \<Rightarrow> string \<Rightarrow> 'w \<times> (backend_error + uid_mapping option)"
  sb_store_flags :: "'w \<Rightarrow> string \<Rightarrow> remote_id list \<Rightarrow> flag_change \<Rightarrow> 'w \<times> (backend_error + nat)"
  sb_expunge :: "'w \<Rightarrow> string \<Rightarrow> remote_id list option \<Rightarrow> 'w \<times> (backend_error + unit)"

record saga_lib =
  gl_blob :: "blob_id \<Rightarrow> string option"  \<comment> \<open>the blob store, if there is one and it answers\<close>
  gl_storage_text :: "storage_error \<Rightarrow> string"
  gl_backend_text :: "backend_error \<Rightarrow> string"

definition target_path :: "saga_store \<Rightarrow> saga \<Rightarrow> string option" where
  "target_path s g =
     (case sg_target_mailbox g of
        None \<Rightarrow> None
      | Some box \<Rightarrow> (if sg_target_account g = None then None else xs_path s box))"

definition raw_bytes :: "saga_lib \<Rightarrow> saga \<Rightarrow> string option" where
  "raw_bytes L g = (case sg_raw g of None \<Rightarrow> None | Some blob \<Rightarrow> gl_blob L blob)"

definition abort :: "saga_lib \<Rightarrow> saga_store \<Rightarrow> saga_id \<Rightarrow> string \<Rightarrow> saga_store \<times> outcome" where
  "abort L s i reason =
     (case transition s i PhaseAborted of
        Inl e \<Rightarrow> (s, FailedOutcome (''could not abandon the move: '' @ gl_storage_text L e))
      | Inr s \<Rightarrow> (s, FailedOutcome reason))"

definition record_confirmation :: "saga_lib \<Rightarrow> saga_store \<Rightarrow> saga_id \<Rightarrow> remote_id \<Rightarrow> saga_store \<times> outcome" where
  "record_confirmation L s i remote =
     (case confirm s i (Some remote) of
        Inr s \<Rightarrow> (s, Applied)
      | Inl e \<Rightarrow> (s, FailedOutcome (''could not record the confirmation: '' @ gl_storage_text L e)))"

definition unprovable :: outcome where
  "unprovable = FailedOutcome (''the message was uploaded but its arrival could not be confirmed; ''
     @ ''nothing was deleted -- check the destination folder'')"

definition park :: "saga_lib \<Rightarrow> saga_store \<Rightarrow> saga_id \<Rightarrow> saga_store \<times> outcome" where
  "park L s i =
     (case transition s i PhaseUnconfirmed of
        Inl e \<Rightarrow> (s, FailedOutcome (''could not record the unconfirmed append: '' @ gl_storage_text L e))
      | Inr s \<Rightarrow> (s, unprovable))"

definition upload :: "saga_lib \<Rightarrow> 'w saga_backend \<Rightarrow> 'w \<Rightarrow> saga_store \<Rightarrow> saga_id \<Rightarrow> saga \<Rightarrow> string
    \<Rightarrow> 'w \<times> saga_store \<times> outcome" where
  "upload L B w s i g path =
     (if sg_phase g = PhaseUnconfirmed then (w, s, unprovable)
      else (case raw_bytes L g of
        None \<Rightarrow> (w, s, Retry ''the message's raw copy is not local yet'' None)
      | Some raw \<Rightarrow>
          (case sb_append B w path raw of
             (w, Inl e) \<Rightarrow> (w, s, Retry (''the upload failed: '' @ gl_backend_text L e) None)
           | (w, Inr (Some mapping)) \<Rightarrow> (w, record_confirmation L s i (um_destination_remote_id mapping))
           | (w, Inr None) \<Rightarrow>
               (case sg_rfc g of
                  None \<Rightarrow> (w, park L s i)
                | Some rfc \<Rightarrow>
                    (case sb_find B w path rfc of
                       (w, Inr (Some uid)) \<Rightarrow> (w, record_confirmation L s i uid)
                     | (w, _) \<Rightarrow> (w, park L s i))))))"

definition copy_saga :: "saga_lib \<Rightarrow> 'w saga_backend \<Rightarrow> 'w \<Rightarrow> saga_store \<Rightarrow> saga_id
    \<Rightarrow> 'w \<times> saga_store \<times> outcome" where
  "copy_saga L B w s i =
     (case get_saga s i of
        None \<Rightarrow> (w, s, Obsolete ''the move this copy belonged to no longer exists'')
      | Some g \<Rightarrow>
          if sg_phase g = PhaseConfirmed \<or> sg_phase g = PhaseDone then (w, s, Applied)
          else if sg_phase g = PhaseAborted then
            (w, s, Obsolete ''the move was abandoned; the source copy is intact'')
          else (case target_path s g of
            None \<Rightarrow> (w, abort L s i (''the destination no longer exists; the move was abandoned and ''
                       @ ''the source copy is intact''))
          | Some path \<Rightarrow>
              (case sg_rfc g of
                 None \<Rightarrow> upload L B w s i g path
               | Some rfc \<Rightarrow>
                   (case sb_find B w path rfc of
                      (w, Inr (Some uid)) \<Rightarrow> (w, record_confirmation L s i uid)
                    | (w, Inr None) \<Rightarrow> upload L B w s i g path
                    | (w, Inl e) \<Rightarrow>
                        (w, s, Retry (''could not search the destination: '' @ gl_backend_text L e) None)))))"


subsection \<open>The removal, on the source's drainer\<close>

definition deleted_flag :: flag_set where "deleted_flag = fst (fs_insert fs_new Deleted)"

definition source_path :: "saga_store \<Rightarrow> saga \<Rightarrow> string option" where
  "source_path s g = (case sg_source_mailbox g of None \<Rightarrow> None | Some box \<Rightarrow> xs_path s box)"

definition source_copy :: "saga_store \<Rightarrow> saga \<Rightarrow> remote_id list \<Rightarrow> remote_id option" where
  "source_copy s g snapshot =
     (case snapshot of
        remote # _ \<Rightarrow> Some remote
      | [] \<Rightarrow> (case sg_source_message g of
            None \<Rightarrow> None
          | Some m \<Rightarrow> source_remote_id (xs_ops s) (Message m)))"

definition settle_move :: "saga_lib \<Rightarrow> saga_store \<Rightarrow> saga_id \<Rightarrow> saga_store \<times> outcome" where
  "settle_move L s i =
     (case transition s i PhaseDone of
        Inr s \<Rightarrow> (s, Applied)
      | Inl e \<Rightarrow> (s, FailedOutcome (''could not settle the move: '' @ gl_storage_text L e)))"

definition remove_saga :: "saga_lib \<Rightarrow> 'w saga_backend \<Rightarrow> 'w \<Rightarrow> saga_store \<Rightarrow> saga_id \<Rightarrow> remote_id list
    \<Rightarrow> 'w \<times> saga_store \<times> outcome" where
  "remove_saga L B w s i snapshot =
     (case get_saga s i of
        None \<Rightarrow> (w, s, Obsolete ''the move this removal belonged to no longer exists'')
      | Some g \<Rightarrow>
          if sg_phase g = PhaseDone then (w, s, Applied)
          else if sg_phase g = PhaseAborted then
            (w, s, Obsolete ''the move was abandoned; nothing to remove'')
          else if sg_phase g = PhaseCopying \<or> sg_phase g = PhaseUnconfirmed then
            (w, s, Retry ''the destination has not confirmed its copy yet'' None)
          else (case (source_path s g, source_copy s g snapshot) of
            (Some path, Some remote) \<Rightarrow>
              (case sb_store_flags B w path [remote] (AddFlags deleted_flag) of
                 (w, Inl e) \<Rightarrow>
                   (w, s, Retry (''could not mark the source copy deleted: '' @ gl_backend_text L e) None)
               | (w, Inr _) \<Rightarrow>
                   (case sb_expunge B w path (Some [remote]) of
                      (w, Inl e) \<Rightarrow>
                        (w, s, Retry (''could not expunge the source copy: '' @ gl_backend_text L e) None)
                    | (w, Inr _) \<Rightarrow> (w, settle_move L s i)))
          | _ \<Rightarrow> (w, settle_move L s i)))"

end
