(* ===== verification/Cross_Steps.thy ===== *)
theory Cross_Steps
  imports Cross_Account
begin

section \<open>The two drainers, step by step\<close>

text \<open>
  \<open>copy\<close> and \<open>remove\<close> of \<open>crates/postio-sync/src/cross_account.rs\<close> cut where they await a
  server or write the saga.  What a step leaves behind, the values the code holds in its
  variables, is the program counter.  Running the steps to the end is the handler of
  \<open>Cross_Account\<close>; between two of them the other drainer, another task or a crash may come.
\<close>

datatype copy_pc =
    CopyRead
  | CopySearch saga string string  \<comment> \<open>the row as read, the path, the Message-ID\<close>
  | CopyUpload saga string
  | CopyProve string string
  | CopyConfirm remote_id
  | CopyPark
  | CopyOver outcome

fun copy_step :: "saga_lib \<Rightarrow> 'w saga_backend \<Rightarrow> saga_id \<Rightarrow> copy_pc \<Rightarrow> 'w \<Rightarrow> saga_store
    \<Rightarrow> copy_pc \<times> 'w \<times> saga_store" where
  "copy_step L B i CopyRead w s =
     (case get_saga s i of
        None \<Rightarrow> (CopyOver (Obsolete ''the move this copy belonged to no longer exists''), w, s)
      | Some g \<Rightarrow>
          if sg_phase g = PhaseConfirmed \<or> sg_phase g = PhaseDone then (CopyOver Applied, w, s)
          else if sg_phase g = PhaseAborted then
            (CopyOver (Obsolete ''the move was abandoned; the source copy is intact''), w, s)
          else (case target_path s g of
            None \<Rightarrow>
              (let (s, out) = abort L s i (''the destination no longer exists; the move was abandoned and ''
                       @ ''the source copy is intact'') in (CopyOver out, w, s))
          | Some path \<Rightarrow>
              (case sg_rfc g of
                 None \<Rightarrow> (CopyUpload g path, w, s)
               | Some rfc \<Rightarrow> (CopySearch g path rfc, w, s))))"
| "copy_step L B i (CopySearch g path rfc) w s =
     (case sb_find B w path rfc of
        (w, Inr (Some uid)) \<Rightarrow> (CopyConfirm uid, w, s)
      | (w, Inr None) \<Rightarrow> (CopyUpload g path, w, s)
      | (w, Inl e) \<Rightarrow>
          (CopyOver (Retry (''could not search the destination: '' @ gl_backend_text L e) None), w, s))"
| "copy_step L B i (CopyUpload g path) w s =
     (if sg_phase g = PhaseUnconfirmed then (CopyOver unprovable, w, s)
      else (case raw_bytes L g of
        None \<Rightarrow> (CopyOver (Retry ''the message's raw copy is not local yet'' None), w, s)
      | Some raw \<Rightarrow>
          (case sb_append B w path raw of
             (w, Inl e) \<Rightarrow> (CopyOver (Retry (''the upload failed: '' @ gl_backend_text L e) None), w, s)
           | (w, Inr (Some mapping)) \<Rightarrow> (CopyConfirm (um_destination_remote_id mapping), w, s)
           | (w, Inr None) \<Rightarrow>
               ((case sg_rfc g of None \<Rightarrow> CopyPark | Some rfc \<Rightarrow> CopyProve path rfc), w, s))))"
| "copy_step L B i (CopyProve path rfc) w s =
     (case sb_find B w path rfc of
        (w, Inr (Some uid)) \<Rightarrow> (CopyConfirm uid, w, s)
      | (w, _) \<Rightarrow> (CopyPark, w, s))"
| "copy_step L B i (CopyConfirm uid) w s =
     (let (s, out) = record_confirmation L s i uid in (CopyOver out, w, s))"
| "copy_step L B i CopyPark w s = (let (s, out) = park L s i in (CopyOver out, w, s))"
| "copy_step L B i (CopyOver out) w s = (CopyOver out, w, s)"

datatype remove_pc =
    RemoveRead
  | RemoveMark string remote_id
  | RemoveExpunge string remote_id
  | RemoveSettle
  | RemoveOver outcome

fun remove_step :: "saga_lib \<Rightarrow> 'w saga_backend \<Rightarrow> saga_id \<Rightarrow> remote_id list \<Rightarrow> remove_pc \<Rightarrow> 'w \<Rightarrow> saga_store
    \<Rightarrow> remove_pc \<times> 'w \<times> saga_store" where
  "remove_step L B i snapshot RemoveRead w s =
     (case get_saga s i of
        None \<Rightarrow> (RemoveOver (Obsolete ''the move this removal belonged to no longer exists''), w, s)
      | Some g \<Rightarrow>
          if sg_phase g = PhaseDone then (RemoveOver Applied, w, s)
          else if sg_phase g = PhaseAborted then
            (RemoveOver (Obsolete ''the move was abandoned; nothing to remove''), w, s)
          else if sg_phase g = PhaseCopying \<or> sg_phase g = PhaseUnconfirmed then
            (RemoveOver (Retry ''the destination has not confirmed its copy yet'' None), w, s)
          else (case (source_path s g, source_copy s g snapshot) of
            (Some path, Some remote) \<Rightarrow> (RemoveMark path remote, w, s)
          | _ \<Rightarrow> (RemoveSettle, w, s)))"
| "remove_step L B i snapshot (RemoveMark path remote) w s =
     (case sb_store_flags B w path [remote] (AddFlags deleted_flag) of
        (w, Inl e) \<Rightarrow>
          (RemoveOver (Retry (''could not mark the source copy deleted: '' @ gl_backend_text L e) None), w, s)
      | (w, Inr _) \<Rightarrow> (RemoveExpunge path remote, w, s))"
| "remove_step L B i snapshot (RemoveExpunge path remote) w s =
     (case sb_expunge B w path (Some [remote]) of
        (w, Inl e) \<Rightarrow>
          (RemoveOver (Retry (''could not expunge the source copy: '' @ gl_backend_text L e) None), w, s)
      | (w, Inr _) \<Rightarrow> (RemoveSettle, w, s))"
| "remove_step L B i snapshot RemoveSettle w s =
     (let (s, out) = settle_move L s i in (RemoveOver out, w, s))"
| "remove_step L B i snapshot (RemoveOver out) w s = (RemoveOver out, w, s)"

text \<open>Running a machine \<open>n\<close> steps from a program counter.\<close>

fun runs :: "('pc \<Rightarrow> 'w \<Rightarrow> 's \<Rightarrow> 'pc \<times> 'w \<times> 's) \<Rightarrow> nat \<Rightarrow> 'pc \<Rightarrow> 'w \<Rightarrow> 's \<Rightarrow> 'pc \<times> 'w \<times> 's" where
  "runs f 0 pc w s = (pc, w, s)"
| "runs f (Suc n) pc w s = (case f pc w s of (pc, w, s) \<Rightarrow> runs f n pc w s)"

lemma runs_copy_over [simp]: "runs (copy_step L B i) n (CopyOver out) w s = (CopyOver out, w, s)"
  by (induction n) auto

lemma runs_remove_over [simp]:
  "runs (remove_step L B i sn) n (RemoveOver out) w s = (RemoveOver out, w, s)"
  by (induction n) auto

lemma runs_add: "runs f (m + n) pc w s = (case runs f m pc w s of (pc, w, s) \<Rightarrow> runs f n pc w s)"
  by (induction m arbitrary: pc w s) (auto split: prod.splits)

lemma runs_settled:
  assumes "m \<le> n" "runs f m pc w s = (p, w', s')" "\<And>k. runs f k p w' s' = (p, w', s')"
  shows "runs f n pc w s = (p, w', s')"
  using runs_add [of f m "n - m" pc w s] assms by simp

lemma copy_confirm_runs:
  "runs (copy_step L B i) (Suc 0) (CopyConfirm uid) w s
     = (case record_confirmation L s i uid of (s, out) \<Rightarrow> (CopyOver out, w, s))"
  by (auto split: prod.splits)

lemma copy_upload_runs:
  "runs (copy_step L B i) 3 (CopyUpload g path) w s
     = (case upload L B w s i g path of (w, s, out) \<Rightarrow> (CopyOver out, w, s))"
  by (auto simp: upload_def numeral_3_eq_3 split: prod.splits sum.splits option.splits)

lemma copy_runs:
  fixes w :: 'a
  shows "runs (copy_step L B i) 5 CopyRead w s
     = (case copy_saga L B w s i of (w, s, out) \<Rightarrow> (CopyOver out, w, s))"
proof -
  have five: "runs f 5 pc w s = (case f pc w s of (pc, w, s) \<Rightarrow> runs f 4 pc w s)" for f and pc :: copy_pc
    and w :: 'a and s :: saga_store
  proof -
    have n: "(5 :: nat) = Suc 4" by simp
    show ?thesis unfolding n runs.simps(2) [where n = 4] ..
  qed
  have up: "runs (copy_step L B i) 4 (CopyUpload g path) w s
     = (case upload L B w s i g path of (w, s, out) \<Rightarrow> (CopyOver out, w, s))" for g path w s
  proof -
    obtain w' s' out where u: "upload L B w s i g path = (w', s', out)" by (cases "upload L B w s i g path") auto
    then have "runs (copy_step L B i) 3 (CopyUpload g path) w s = (CopyOver out, w', s')"
      by (simp add: copy_upload_runs)
    from runs_settled [OF _ this] u show ?thesis by (simp del: runs.simps)
  qed
  have conf: "runs (copy_step L B i) 3 (CopyConfirm uid) w s
     = (case record_confirmation L s i uid of (s, out) \<Rightarrow> (CopyOver out, w, s))" for uid w s
    by (auto simp: numeral_3_eq_3 split: prod.splits)
  have search: "runs (copy_step L B i) 4 (CopySearch g path rfc) w s
     = (case sb_find B w path rfc of
                      (w, Inr (Some uid)) \<Rightarrow> (case record_confirmation L s i uid of (s, out) \<Rightarrow> (CopyOver out, w, s))
                    | (w, Inr None) \<Rightarrow> (case upload L B w s i g path of (w, s, out) \<Rightarrow> (CopyOver out, w, s))
                    | (w, Inl e) \<Rightarrow>
                        (CopyOver (Retry (''could not search the destination: '' @ gl_backend_text L e) None), w, s))"
    for g path rfc w s
  proof -
    have n: "(4 :: nat) = Suc 3" by simp
    show ?thesis unfolding n runs.simps(2) [where n = 3]
      by (auto simp: copy_upload_runs conf simp del: runs.simps split: prod.splits sum.splits option.splits)
  qed
  have conf4: "runs (copy_step L B i) 4 (CopyOver out) w s = (CopyOver out, w, s)" for out w s by simp
  show ?thesis
    by (simp add: five up search conf4 copy_saga_def Let_def del: runs.simps split: prod.split sum.split option.split)
qed

lemma remove_runs:
  "runs (remove_step L B i snapshot) 4 RemoveRead w s
     = (case remove_saga L B w s i snapshot of (w, s, out) \<Rightarrow> (RemoveOver out, w, s))"
  by (auto simp: remove_saga_def numeral_eq_Suc split: prod.splits sum.splits option.splits)

end
