(* ===== verification/Cross_Undo.thy ===== *)
theory Cross_Undo
  imports Cross_Steps
begin

section \<open>Starting a move between accounts, and taking it back\<close>

text \<open>
  The local half of the saga in \<open>crates/postio-session/src/actions.rs\<close>:
  \<open>cross_account_relocate\<close>, which shows the message in the target at once and queues both
  halves, and \<open>cancel_cross_account_moves\<close>, which undo asks first.  A transaction is the
  error sum: an error leaves the store as it was.  What the window is told (events, the
  mailboxes to reload) and the body text of the provisional copy are left out.
\<close>

subsection \<open>The local writes\<close>

definition set_deleted_locally :: "saga_store \<Rightarrow> message_id list \<Rightarrow> bool \<Rightarrow> saga_store" where
  "set_deleted_locally s ids gone =
     s\<lparr>xs_columns := (\<lambda>m. if m \<in> set ids then map_option (mc_deleted_update (\<lambda>_. gone)) (xs_columns s m)
                         else xs_columns s m),
       xs_ops := (xs_ops s)\<lparr>o_messages :=
         map (\<lambda>r. if m_id r \<in> set ids then r\<lparr>m_has_pending := gone\<rparr> else r) (o_messages (xs_ops s))\<rparr>\<rparr>"

text \<open>\<open>DELETE FROM messages\<close>, with \<open>ON DELETE SET NULL\<close> on the sagas.\<close>

definition delete_messages :: "saga_store \<Rightarrow> message_id list \<Rightarrow> saga_store" where
  "delete_messages s ids =
     (let forget = (\<lambda>m. case m of Some i \<Rightarrow> if i \<in> set ids then None else Some i | None \<Rightarrow> None) in
      s\<lparr>xs_columns := (\<lambda>m. if m \<in> set ids then None else xs_columns s m),
        xs_ops := (xs_ops s)\<lparr>o_messages := filter (\<lambda>r. m_id r \<notin> set ids) (o_messages (xs_ops s))\<rparr>,
        xs_sagas := map (\<lambda>g. g\<lparr>sg_source_message := forget (sg_source_message g),
                               sg_target_message := forget (sg_target_message g)\<rparr>) (xs_sagas s)\<rparr>)"

definition create_message :: "saga_store \<Rightarrow> mailbox_id \<Rightarrow> message_columns \<Rightarrow> saga_store \<times> message_id" where
  "create_message s box c =
     (s\<lparr>xs_columns := (xs_columns s)(xs_next_message s \<mapsto> c),
        xs_ops := (xs_ops s)\<lparr>o_messages := o_messages (xs_ops s)
          @ [\<lparr>m_id = xs_next_message s, m_mailbox = box, m_thread = None, m_uid = None, m_remote = None,
              m_has_pending = False\<rparr>]\<rparr>,
        xs_next_message := xs_next_message s + 1\<rparr>,
      xs_next_message s)"

definition queue_saga :: "saga_store \<Rightarrow> account_id \<Rightarrow> message_id \<Rightarrow> operation \<Rightarrow> int \<Rightarrow> storage_error + saga_store" where
  "queue_saga s account m op at =
     (case enqueue (xs_ops s) account (Message m) op at of
        Inl e \<Rightarrow> Inl e
      | Inr (ops, _) \<Rightarrow> Inr (s\<lparr>xs_ops := ops\<rparr>))"

text \<open>One row of the selection: a message with the columns the move reads.\<close>

definition relocate_one :: "saga_store \<Rightarrow> account_id \<Rightarrow> mailbox_id \<Rightarrow> message_row \<times> message_columns \<Rightarrow> int
    \<Rightarrow> storage_error + saga_store" where
  "relocate_one s target_account target_box row at =
     (case row of (r, c) \<Rightarrow>
       (let (s, copy) = create_message s target_box (c\<lparr>mc_account := target_account\<rparr>);
            (s, i) = create_saga s (m_id r) (mc_account c) (m_mailbox r) target_account target_box
                       (Some copy) (mc_raw c) (mc_rfc c) in
        case queue_saga s target_account copy (CrossAccountCopy i) at of
          Inl e \<Rightarrow> Inl e
        | Inr s \<Rightarrow>
            (case queue_saga s (mc_account c) (m_id r) (CrossAccountRemove i) at of
               Inl e \<Rightarrow> Inl e
             | Inr s \<Rightarrow> Inr (set_deleted_locally s [m_id r] True))))"

fun cross_account_relocate :: "saga_store \<Rightarrow> account_id \<Rightarrow> mailbox_id \<Rightarrow> (message_row \<times> message_columns) list
    \<Rightarrow> int \<Rightarrow> storage_error + saga_store" where
  "cross_account_relocate s account box [] at = Inr s"
| "cross_account_relocate s account box (row # rows) at =
     (case relocate_one s account box row at of
        Inl e \<Rightarrow> Inl e
      | Inr s \<Rightarrow> cross_account_relocate s account box rows at)"


subsection \<open>Undo\<close>

lemma delete_row_shrinks:
  "pending_for s t = Some r \<Longrightarrow> length (o_queue (fst (delete_row s (q_id r)))) < length (o_queue s)"
proof -
  assume "pending_for s t = Some r"
  then have "r \<in> set (o_queue s)" by (auto simp: pending_for_def find_Some_iff)
  then have "length (filter (\<lambda>x. q_id x \<noteq> q_id r) (o_queue s)) < length (o_queue s)"
    by (intro length_filter_less) auto
  then show ?thesis by (auto simp: delete_row_def Let_def split: option.splits)
qed

function withdraw_target :: "op_store \<Rightarrow> operation_target \<Rightarrow> op_store" where
  "withdraw_target s t =
     (case pending_for s t of
        None \<Rightarrow> s
      | Some r \<Rightarrow> withdraw_target (fst (delete_row s (q_id r))) t)"
  by pat_completeness auto
termination
  by (relation "measure (\<lambda>(s, t). length (o_queue s))") (auto simp: delete_row_shrinks)

declare withdraw_target.simps [simp del]

definition withdraw_pending :: "saga_store \<Rightarrow> message_id option \<Rightarrow> saga_store" where
  "withdraw_pending s message =
     (case message of
        None \<Rightarrow> s
      | Some m \<Rightarrow> s\<lparr>xs_ops := withdraw_target (xs_ops s) (Message m)\<rparr>)"

definition cancel_one :: "saga_store \<Rightarrow> saga \<Rightarrow> storage_error + saga_store" where
  "cancel_one s g =
     (let s = withdraw_pending s (sg_source_message g);
          s = withdraw_pending s (sg_target_message g);
          s = (case sg_target_message g of Some copy \<Rightarrow> delete_messages s [copy] | None \<Rightarrow> s);
          s = (case sg_source_message g of Some m \<Rightarrow> set_deleted_locally s [m] False | None \<Rightarrow> s)
      in transition s (sg_id g) PhaseAborted)"

datatype command_error = CommandRejected string | StoreFailure storage_error

definition store_result :: "storage_error + 'a \<Rightarrow> command_error + 'a" where
  "store_result r = (case r of Inl e \<Rightarrow> Inl (StoreFailure e) | Inr x \<Rightarrow> Inr x)"

definition invert_one :: "saga_store \<Rightarrow> saga \<Rightarrow> int \<Rightarrow> command_error + saga_store" where
  "invert_one s g at =
     (case (sg_target_message g, sg_source_message g) of
        (Some copy, Some original) \<Rightarrow>
          (case (sg_target_account g, sg_target_mailbox g) of
             (Some from_account, Some from_mailbox) \<Rightarrow>
               (case (sg_source_account g, sg_source_mailbox g) of
                  (Some to_account, Some to_mailbox) \<Rightarrow>
                    (case xs_columns s copy of
                       None \<Rightarrow> Inl (CommandRejected ''That message is no longer in the store'')
                     | Some c \<Rightarrow>
                         (let (s, inverse) = create_saga s copy from_account from_mailbox to_account to_mailbox
                                (Some original) (mc_raw c) (mc_rfc c) in
                          case store_result (queue_saga s to_account original (CrossAccountCopy inverse) at) of
                            Inl e \<Rightarrow> Inl e
                          | Inr s \<Rightarrow>
                              (case store_result (queue_saga s from_account copy (CrossAccountRemove inverse) at) of
                                 Inl e \<Rightarrow> Inl e
                               | Inr s \<Rightarrow>
                                   Inr (set_deleted_locally (set_deleted_locally s [original] False) [copy] True))))
                | _ \<Rightarrow> Inr s)
           | _ \<Rightarrow> Inr s)
      | _ \<Rightarrow> Inr s)"

text \<open>One saga of the loop, with how many were undone and skipped so far.\<close>

definition cancel_step :: "int \<Rightarrow> saga_store \<times> nat \<times> nat \<Rightarrow> saga \<Rightarrow> command_error + saga_store \<times> nat \<times> nat" where
  "cancel_step at acc g =
     (case acc of (s, undone, skipped) \<Rightarrow>
       (case sg_phase g of
          PhaseCopying \<Rightarrow>
            (case store_result (cancel_one s g) of Inl e \<Rightarrow> Inl e | Inr s \<Rightarrow> Inr (s, undone + 1, skipped))
        | PhaseUnconfirmed \<Rightarrow> Inr (s, undone, skipped + 1)
        | PhaseConfirmed \<Rightarrow>
            (case store_result (transition (withdraw_pending s (sg_source_message g)) (sg_id g) PhaseAborted) of
               Inl e \<Rightarrow> Inl e
             | Inr s \<Rightarrow> (case invert_one s g at of Inl e \<Rightarrow> Inl e | Inr s \<Rightarrow> Inr (s, undone + 1, skipped)))
        | PhaseDone \<Rightarrow> (case invert_one s g at of Inl e \<Rightarrow> Inl e | Inr s \<Rightarrow> Inr (s, undone + 1, skipped))
        | PhaseAborted \<Rightarrow> Inr (s, undone, skipped)))"

fun cancel_all :: "int \<Rightarrow> saga_store \<times> nat \<times> nat \<Rightarrow> saga list \<Rightarrow> command_error + saga_store \<times> nat \<times> nat" where
  "cancel_all at acc [] = Inr acc"
| "cancel_all at acc (g # gs) =
     (case cancel_step at acc g of Inl e \<Rightarrow> Inl e | Inr acc \<Rightarrow> cancel_all at acc gs)"

definition open_phases :: "move_phase list" where
  "open_phases = [PhaseCopying, PhaseUnconfirmed, PhaseConfirmed, PhaseDone]"

text \<open>\<open>None\<close>: no saga, an ordinary undo.  With the numbers the sentence is made of.\<close>

definition cancel_cross_account_moves :: "saga_store \<Rightarrow> message_id list \<Rightarrow> int
    \<Rightarrow> command_error + (saga_store \<times> nat \<times> nat) option" where
  "cancel_cross_account_moves s messages at =
     (let sagas = for_sources s messages open_phases in
      if sagas = [] then Inr None
      else (case cancel_all at (s, 0, 0) sagas of
        Inl e \<Rightarrow> Inl e
      | Inr (s, undone, skipped) \<Rightarrow>
          if undone = 0 then
            Inl (CommandRejected (''That move reached the other account but Postio could not confirm it, ''
              @ replicate 17 CHR '' '' @ ''so taking it back would be a guess. Nothing was changed.''))
          else Inr (Some (s, undone, skipped))))"

end
