(* ===== verification/Cross_Props.thy ===== *)
theory Cross_Props
  imports Cross_Undo
begin

section \<open>A move between accounts never loses the message\<close>

text \<open>
  What the protocol promises of one server (RFC 3501, RFC 4315): \<open>on w path\<close> is the set of
  messages of a mailbox, their ids with their bytes.  A search changes nothing and answers
  with a message that carries the Message-ID; an append only adds, and answers with the id of
  a message with those bytes; flags and expunge touch only the messages they name.
  \<open>mid\<close> reads the Message-ID of a message.
\<close>

definition saga_server :: "(string \<Rightarrow> string option) \<Rightarrow> 'w saga_backend
    \<Rightarrow> ('w \<Rightarrow> string \<Rightarrow> (remote_id \<times> string) set) \<Rightarrow> bool" where
  "saga_server mid B on \<longleftrightarrow>
     (\<forall>w path rfc w' r. sb_find B w path rfc = (w', r) \<longrightarrow>
        on w' = on w
        \<and> (\<forall>i. r = Inr (Some i) \<longrightarrow> (\<exists>raw. (i, raw) \<in> on w path \<and> mid raw = Some rfc)))
     \<and> (\<forall>w path raw w' r. sb_append B w path raw = (w', r) \<longrightarrow>
        (\<forall>p. on w p \<subseteq> on w' p)
        \<and> (\<forall>landed. r = Inr landed \<longrightarrow> (\<exists>i. (i, raw) \<in> on w' path
              \<and> (\<forall>m. landed = Some m \<longrightarrow> um_destination_remote_id m = i))))
     \<and> (\<forall>w path ids c w' r. sb_store_flags B w path ids c = (w', r) \<longrightarrow>
        (\<forall>p. {x \<in> on w p. p \<noteq> path \<or> fst x \<notin> set ids} \<subseteq> on w' p))
     \<and> (\<forall>w path ids w' r. sb_expunge B w path (Some ids) = (w', r) \<longrightarrow>
        (\<forall>p. {x \<in> on w p. p \<noteq> path \<or> fst x \<notin> set ids} \<subseteq> on w' p))"

text \<open>What one drainer does leaves the other account's server alone.\<close>

definition leaves_alone :: "'w saga_backend \<Rightarrow> ('w \<Rightarrow> string \<Rightarrow> (remote_id \<times> string) set) \<Rightarrow> bool" where
  "leaves_alone B on \<longleftrightarrow>
     (\<forall>w path rfc w' r. sb_find B w path rfc = (w', r) \<longrightarrow> on w' = on w)
     \<and> (\<forall>w path raw w' r. sb_append B w path raw = (w', r) \<longrightarrow> on w' = on w)
     \<and> (\<forall>w path ids c w' r. sb_store_flags B w path ids c = (w', r) \<longrightarrow> on w' = on w)
     \<and> (\<forall>w path ids w' r. sb_expunge B w path ids = (w', r) \<longrightarrow> on w' = on w)"

lemma server_find:
  assumes "saga_server mid B on" "sb_find B w path rfc = (w', r)"
  shows "on w' = on w" "r = Inr (Some i) \<Longrightarrow> \<exists>raw. (i, raw) \<in> on w path \<and> mid raw = Some rfc"
  using conjunct1 [OF assms(1) [unfolded saga_server_def], rule_format, OF assms(2)] by blast+

lemma server_append:
  assumes "saga_server mid B on" "sb_append B w path raw = (w', r)"
  shows "on w p \<subseteq> on w' p"
    "r = Inr landed \<Longrightarrow> \<exists>i. (i, raw) \<in> on w' path \<and> (\<forall>m. landed = Some m \<longrightarrow> um_destination_remote_id m = i)"
  using conjunct1 [OF conjunct2 [OF assms(1) [unfolded saga_server_def]], rule_format, OF assms(2)] by blast+

lemma server_flags:
  assumes "saga_server mid B on" "sb_store_flags B w path ids c = (w', r)"
  shows "{x \<in> on w p. p \<noteq> path \<or> fst x \<notin> set ids} \<subseteq> on w' p"
  using conjunct1 [OF conjunct2 [OF conjunct2 [OF assms(1) [unfolded saga_server_def]]], rule_format, OF assms(2)]
  by blast

lemma server_expunge:
  assumes "saga_server mid B on" "sb_expunge B w path (Some ids) = (w', r)"
  shows "{x \<in> on w p. p \<noteq> path \<or> fst x \<notin> set ids} \<subseteq> on w' p"
  using conjunct2 [OF conjunct2 [OF conjunct2 [OF assms(1) [unfolded saga_server_def]]], rule_format, OF assms(2)]
  by blast

lemma alone:
  assumes "leaves_alone B on"
  shows "sb_find B w path rfc = (w', r1) \<Longrightarrow> on w' = on w"
    and "sb_append B w path raw = (w', r2) \<Longrightarrow> on w' = on w"
    and "sb_store_flags B w path ids c = (w', r3) \<Longrightarrow> on w' = on w"
    and "sb_expunge B w path mids = (w', r4) \<Longrightarrow> on w' = on w"
proof -
  note d = assms [unfolded leaves_alone_def]
  show "sb_find B w path rfc = (w', r1) \<Longrightarrow> on w' = on w" using conjunct1 [OF d] by blast
  show "sb_append B w path raw = (w', r2) \<Longrightarrow> on w' = on w" using conjunct1 [OF conjunct2 [OF d]] by blast
  show "sb_store_flags B w path ids c = (w', r3) \<Longrightarrow> on w' = on w"
    using conjunct1 [OF conjunct2 [OF conjunct2 [OF d]]] by blast
  show "sb_expunge B w path mids = (w', r4) \<Longrightarrow> on w' = on w"
    using conjunct2 [OF conjunct2 [OF conjunct2 [OF d]]] by blast
qed

text \<open>The target holds a copy: a message with the bytes moved, or with its Message-ID.\<close>

definition has_copy :: "(string \<Rightarrow> string option) \<Rightarrow> ('w \<Rightarrow> string \<Rightarrow> (remote_id \<times> string) set) \<Rightarrow> saga_lib
    \<Rightarrow> saga \<Rightarrow> 'w \<Rightarrow> bool" where
  "has_copy mid on L g w \<longleftrightarrow>
     (\<exists>p i raw. (i, raw) \<in> on w p \<and> (raw_bytes L g = Some raw \<or> (sg_rfc g \<noteq> None \<and> mid raw = sg_rfc g)))"


subsection \<open>Both drainers, crashes and the rest of the program\<close>

record 'w cross_world =
  cw_world :: 'w
  cw_store :: saga_store
  cw_copy :: "copy_pc option"  \<comment> \<open>where the target's drainer is\<close>
  cw_remove :: "remove_pc option"

record 'w cross_model =
  cx_lib :: saga_lib
  cx_target :: "'w saga_backend"
  cx_source :: "'w saga_backend"
  cx_saga :: saga_id
  cx_on_target :: "'w \<Rightarrow> string \<Rightarrow> (remote_id \<times> string) set"
  cx_on_source :: "'w \<Rightarrow> string \<Rightarrow> (remote_id \<times> string) set"

text \<open>
  What the saga is to the rest of the program: its bytes, its Message-ID, its phase.  Undo
  may come at any point.  The rest may change everything else, the mailbox table and the
  local rows included, and mail may arrive on both servers.
\<close>

definition saga_fixed :: "saga_store \<Rightarrow> saga_id \<Rightarrow> (blob_id option \<times> string option \<times> move_phase) option" where
  "saga_fixed s i = map_option (\<lambda>g. (sg_raw g, sg_rfc g, sg_phase g)) (get_saga s i)"

inductive crosses :: "'w cross_model \<Rightarrow> 'w cross_world \<Rightarrow> 'w cross_world \<Rightarrow> bool" for M where
  copy_begins: "cw_copy c = None \<Longrightarrow> crosses M c (c\<lparr>cw_copy := Some CopyRead\<rparr>)"
| copy_goes: "cw_copy c = Some pc \<Longrightarrow>
     copy_step (cx_lib M) (cx_target M) (cx_saga M) pc (cw_world c) (cw_store c) = (pc', w', s') \<Longrightarrow>
     crosses M c (c\<lparr>cw_world := w', cw_store := s', cw_copy := Some pc'\<rparr>)"
| copy_ends: "cw_copy c = Some (CopyOver out) \<Longrightarrow> crosses M c (c\<lparr>cw_copy := None\<rparr>)"
| remove_begins: "cw_remove c = None \<Longrightarrow> crosses M c (c\<lparr>cw_remove := Some RemoveRead\<rparr>)"
| remove_goes: "cw_remove c = Some pc \<Longrightarrow>
     remove_step (cx_lib M) (cx_source M) (cx_saga M) snapshot pc (cw_world c) (cw_store c) = (pc', w', s') \<Longrightarrow>
     crosses M c (c\<lparr>cw_world := w', cw_store := s', cw_remove := Some pc'\<rparr>)"
| remove_ends: "cw_remove c = Some (RemoveOver out) \<Longrightarrow> crosses M c (c\<lparr>cw_remove := None\<rparr>)"
| crash: "crosses M c (c\<lparr>cw_copy := None, cw_remove := None\<rparr>)"
| undone: "cancel_cross_account_moves (cw_store c) messages at = Inr (Some (s', counts)) \<Longrightarrow>
     crosses M c (c\<lparr>cw_store := s'\<rparr>)"
| the_rest: "saga_fixed s' (cx_saga M) = saga_fixed (cw_store c) (cx_saga M) \<Longrightarrow>
     (\<And>p. cx_on_target M (cw_world c) p \<subseteq> cx_on_target M w' p) \<Longrightarrow>
     (\<And>p. cx_on_source M (cw_world c) p \<subseteq> cx_on_source M w' p) \<Longrightarrow>
     crosses M c (c\<lparr>cw_world := w', cw_store := s'\<rparr>)"

inductive cross_reachable :: "'w cross_model \<Rightarrow> 'w cross_world \<Rightarrow> 'w cross_world \<Rightarrow> bool" for M c0 where
  start: "cross_reachable M c0 c0"
| further: "cross_reachable M c0 c \<Longrightarrow> crosses M c c' \<Longrightarrow> cross_reachable M c0 c'"


subsection \<open>The saga under the repository's writes\<close>

lemma find_map_saga:
  "(\<And>g. sg_id (f g) = sg_id g) \<Longrightarrow>
   find (\<lambda>g. sg_id g = j) (map (\<lambda>g. if sg_id g = i then f g else g) gs)
     = (if j = i then map_option f (find (\<lambda>g. sg_id g = j) gs) else find (\<lambda>g. sg_id g = j) gs)"
  for f :: "saga \<Rightarrow> saga"
  by (induction gs) auto

lemma get_update_saga:
  "(\<And>g. sg_id (f g) = sg_id g) \<Longrightarrow>
   get_saga (update_saga f s i) j = (if j = i then map_option f (get_saga s i) else get_saga s j)"
  by (auto simp: get_saga_def update_saga_def find_map_saga)

lemma get_set_remote [simp]: "get_saga (set_remote s m remote) i = get_saga s i"
  by (simp add: get_saga_def set_remote_def)

lemma transition_get:
  assumes "transition s i nxt = Inr t"
  obtains g where "get_saga s i = Some g" "phase_allows (sg_phase g) nxt"
    "get_saga t i = Some (g\<lparr>sg_phase := nxt\<rparr>)"
  using assms by (auto simp: transition_def get_update_saga split: option.splits if_splits)

lemma confirm_get:
  assumes "confirm s i remote = Inr t"
  obtains g where "get_saga s i = Some g" "phase_allows (sg_phase g) PhaseConfirmed"
    "\<exists>g'. get_saga t i = Some g' \<and> sg_phase g' = PhaseConfirmed \<and> sg_raw g' = sg_raw g \<and> sg_rfc g' = sg_rfc g
       \<and> (\<forall>r. remote = Some r \<longrightarrow> sg_confirmed g' = Some r)"
proof -
  from assms obtain u where u: "transition s i PhaseConfirmed = Inr u"
    by (auto simp: confirm_def split: sum.splits)
  from u obtain g where g: "get_saga s i = Some g" "phase_allows (sg_phase g) PhaseConfirmed"
    "get_saga u i = Some (g\<lparr>sg_phase := PhaseConfirmed\<rparr>)" by (rule transition_get)
  have "\<exists>g'. get_saga t i = Some g' \<and> sg_phase g' = PhaseConfirmed \<and> sg_raw g' = sg_raw g \<and> sg_rfc g' = sg_rfc g
       \<and> (\<forall>r. remote = Some r \<longrightarrow> sg_confirmed g' = Some r)"
    using assms u g(3)
    by (auto simp: confirm_def get_update_saga Let_def split: option.splits)
  with g that show ?thesis by blast
qed

text \<open>A write of the saga keeps its bytes and its Message-ID, and only walks its phase.\<close>

definition walks :: "saga \<Rightarrow> saga \<Rightarrow> bool" where
  "walks g g' \<longleftrightarrow> sg_raw g' = sg_raw g \<and> sg_rfc g' = sg_rfc g
     \<and> (sg_phase g' = sg_phase g \<or> phase_allows (sg_phase g) (sg_phase g'))"

lemma walks_refl [simp]: "walks g g" by (simp add: walks_def)

lemma record_confirmation_walks:
  assumes "record_confirmation L s i uid = (t, out)" "get_saga s i = Some g"
  shows "\<exists>g'. get_saga t i = Some g' \<and> walks g g' \<and> (sg_phase g' \<noteq> sg_phase g \<longrightarrow> sg_phase g' = PhaseConfirmed)"
proof (cases "confirm s i (Some uid)")
  case (Inl e)
  with assms show ?thesis by (simp add: record_confirmation_def)
next
  case (Inr u)
  with assms have "u = t" by (simp add: record_confirmation_def)
  from Inr obtain h where "get_saga s i = Some h" "phase_allows (sg_phase h) PhaseConfirmed"
    "\<exists>g'. get_saga u i = Some g' \<and> sg_phase g' = PhaseConfirmed \<and> sg_raw g' = sg_raw h \<and> sg_rfc g' = sg_rfc h
       \<and> (\<forall>r. Some uid = Some r \<longrightarrow> sg_confirmed g' = Some r)" by (rule confirm_get)
  with assms(2) \<open>u = t\<close> show ?thesis by (auto simp: walks_def)
qed

lemma transition_walks:
  assumes "get_saga s i = Some g"
    and "t = (case transition s i nxt of Inl e \<Rightarrow> s | Inr u \<Rightarrow> u)"
  shows "\<exists>g'. get_saga t i = Some g' \<and> walks g g' \<and> (sg_phase g' \<noteq> sg_phase g \<longrightarrow> sg_phase g' = nxt)"
proof (cases "transition s i nxt")
  case (Inl e)
  with assms show ?thesis by simp
next
  case (Inr u)
  from transition_get [OF this] assms(1)
  have "phase_allows (sg_phase g) nxt" "get_saga u i = Some (g\<lparr>sg_phase := nxt\<rparr>)" by auto
  with assms(2) Inr show ?thesis by (auto simp: walks_def)
qed

lemma abort_walks:
  "abort L s i reason = (t, out) \<Longrightarrow> get_saga s i = Some g \<Longrightarrow>
   \<exists>g'. get_saga t i = Some g' \<and> walks g g' \<and> (sg_phase g' \<noteq> sg_phase g \<longrightarrow> sg_phase g' = PhaseAborted)"
  by (rule transition_walks [where nxt = PhaseAborted]) (auto simp: abort_def split: sum.splits)

lemma park_walks:
  "park L s i = (t, out) \<Longrightarrow> get_saga s i = Some g \<Longrightarrow>
   \<exists>g'. get_saga t i = Some g' \<and> walks g g' \<and> (sg_phase g' \<noteq> sg_phase g \<longrightarrow> sg_phase g' = PhaseUnconfirmed)"
  by (rule transition_walks [where nxt = PhaseUnconfirmed]) (auto simp: park_def split: sum.splits)

lemma settle_walks:
  "settle_move L s i = (t, out) \<Longrightarrow> get_saga s i = Some g \<Longrightarrow>
   \<exists>g'. get_saga t i = Some g' \<and> walks g g' \<and> (sg_phase g' \<noteq> sg_phase g \<longrightarrow> sg_phase g' = PhaseDone)"
  by (rule transition_walks [where nxt = PhaseDone]) (auto simp: settle_move_def split: sum.splits)


text \<open>Undo keeps the saga's bytes and Message-ID too, and abandons it or leaves its phase.\<close>

definition abandons :: "saga option \<Rightarrow> saga option \<Rightarrow> bool" where
  "abandons now now' \<longleftrightarrow>
     (\<forall>g. now = Some g \<longrightarrow> (\<exists>g'. now' = Some g' \<and> sg_raw g' = sg_raw g \<and> sg_rfc g' = sg_rfc g
        \<and> (sg_phase g' = sg_phase g \<or> sg_phase g' = PhaseAborted \<and> phase_allows (sg_phase g) PhaseAborted)))"

lemma abandons_refl [simp]: "abandons x x"
  by (simp add: abandons_def)

lemma abandons_trans:
  assumes "abandons x y" "abandons y z"
  shows "abandons x z"
  unfolding abandons_def
proof (intro allI impI)
  fix g assume "x = Some g"
  with assms(1) obtain h where h: "y = Some h" "sg_raw h = sg_raw g" "sg_rfc h = sg_rfc g"
      "sg_phase h = sg_phase g \<or> sg_phase h = PhaseAborted \<and> phase_allows (sg_phase g) PhaseAborted"
    by (auto simp: abandons_def)
  with assms(2) show "\<exists>g'. z = Some g' \<and> sg_raw g' = sg_raw g \<and> sg_rfc g' = sg_rfc g
      \<and> (sg_phase g' = sg_phase g \<or> sg_phase g' = PhaseAborted \<and> phase_allows (sg_phase g) PhaseAborted)"
    by (auto simp: abandons_def)
qed

lemma abandons_same: "xs_sagas t = xs_sagas s \<Longrightarrow> abandons (get_saga s i) (get_saga t i)"
  by (simp add: get_saga_def)

lemma transition_abandons: "transition s j PhaseAborted = Inr t \<Longrightarrow> abandons (get_saga s i) (get_saga t i)"
  by (auto simp: transition_def abandons_def get_update_saga split: option.splits if_splits)

lemma delete_abandons: "abandons (get_saga s i) (get_saga (delete_messages s ms) i)"
proof -
  have "find (\<lambda>g. sg_id g = i) (map f gs) = map_option f (find (\<lambda>g. sg_id g = i) gs)"
    if "\<And>g. sg_id (f g) = sg_id g" for f :: "saga \<Rightarrow> saga" and gs
    using that by (induction gs) auto
  then show ?thesis by (auto simp: delete_messages_def Let_def get_saga_def abandons_def)
qed

lemma create_abandons:
  assumes "create_saga s m a b c d e f g = (t, k)"
  shows "abandons (get_saga s i) (get_saga t i)"
proof -
  have "find P (gs @ hs) = (case find P gs of None \<Rightarrow> find P hs | Some x \<Rightarrow> Some x)" for P and gs hs :: "saga list"
    by (induction gs) auto
  then have "get_saga t i = Some h" if "get_saga s i = Some h" for h
    using assms that by (auto simp: create_saga_def get_saga_def)
  then show ?thesis by (simp add: abandons_def)
qed

lemma local_writes_abandon:
  "abandons (get_saga s i) (get_saga (withdraw_pending s m) i)"
  "abandons (get_saga s i) (get_saga (set_deleted_locally s ms gone) i)"
  "queue_saga s account k op at = Inr t \<Longrightarrow> abandons (get_saga s i) (get_saga t i)"
  by (rule abandons_same; auto simp: withdraw_pending_def set_deleted_locally_def queue_saga_def split: option.splits sum.splits)+

lemma cancel_one_abandons: "cancel_one s g = Inr t \<Longrightarrow> abandons (get_saga s i) (get_saga t i)"
proof -
  assume run: "cancel_one s g = Inr t"
  define u where "u = withdraw_pending (withdraw_pending s (sg_source_message g)) (sg_target_message g)"
  define v where "v = (case sg_target_message g of Some copy \<Rightarrow> delete_messages u [copy] | None \<Rightarrow> u)"
  define w where "w = (case sg_source_message g of Some m \<Rightarrow> set_deleted_locally v [m] False | None \<Rightarrow> v)"
  have "abandons (get_saga s i) (get_saga u i)"
    unfolding u_def by (rule abandons_trans [OF local_writes_abandon(1,1)])
  moreover have "abandons (get_saga u i) (get_saga v i)"
    by (simp add: v_def delete_abandons split: option.split)
  moreover have "abandons (get_saga v i) (get_saga w i)"
    by (simp add: w_def local_writes_abandon split: option.split)
  moreover have "abandons (get_saga w i) (get_saga t i)"
    using run unfolding cancel_one_def Let_def u_def [symmetric] v_def [symmetric] w_def [symmetric]
    by (rule transition_abandons)
  ultimately show ?thesis by (blast intro: abandons_trans)
qed

lemma invert_one_abandons:
  assumes "invert_one s g at = Inr t"
  shows "abandons (get_saga s i) (get_saga t i)"
proof (cases "t = s")
  case False
  with assms have "\<exists>copy original a b a' b' raw rfc u k v w.
      create_saga s copy a b a' b' (Some original) raw rfc = (u, k)
      \<and> queue_saga u a' original (CrossAccountCopy k) at = Inr v
      \<and> queue_saga v a copy (CrossAccountRemove k) at = Inr w
      \<and> set_deleted_locally (set_deleted_locally w [original] False) [copy] True = t"
    by (auto simp: invert_one_def store_result_def Let_def split: option.splits sum.splits prod.splits) blast
  then obtain copy original a b a' b' raw rfc u k v w where
    e: "create_saga s copy a b a' b' (Some original) raw rfc = (u, k)"
      "queue_saga u a' original (CrossAccountCopy k) at = Inr v"
      "queue_saga v a copy (CrossAccountRemove k) at = Inr w"
      "set_deleted_locally (set_deleted_locally w [original] False) [copy] True = t" by blast
  note create_abandons [OF e(1), of i] local_writes_abandon(3) [OF e(2), of i] local_writes_abandon(3) [OF e(3), of i]
    local_writes_abandon(2) [of w i "[original]" False]
    local_writes_abandon(2) [of "set_deleted_locally w [original] False" i "[copy]" True, unfolded e(4)]
  then show ?thesis by (blast intro: abandons_trans)
qed simp

lemma cancel_step_abandons:
  "cancel_step at (s, m) g = Inr (t, n) \<Longrightarrow> abandons (get_saga s i) (get_saga t i)"
  by (cases m; cases "sg_phase g")
    (auto simp: cancel_step_def store_result_def split: sum.splits
      intro: cancel_one_abandons invert_one_abandons abandons_trans [OF local_writes_abandon(1) abandons_trans [OF transition_abandons]])

lemma cancel_all_abandons: "cancel_all at (s, m) gs = Inr (t, n) \<Longrightarrow> abandons (get_saga s i) (get_saga t i)"
proof (induction gs arbitrary: s m)
  case (Cons g gs)
  then obtain u k where "cancel_step at (s, m) g = Inr (u, k)" "cancel_all at (u, k) gs = Inr (t, n)"
    by (auto split: sum.splits)
  then show ?case using Cons.IH cancel_step_abandons abandons_trans by metis
qed simp

lemma undo_abandons:
  assumes "cancel_cross_account_moves s ms at = Inr (Some (t, n))"
  shows "abandons (get_saga s i) (get_saga t i)"
proof -
  have "cancel_all at (s, 0, 0) (for_sources s ms open_phases) = Inr (t, n)"
    using assms by (auto simp: cancel_cross_account_moves_def Let_def split: if_splits sum.splits prod.splits)
  then show ?thesis by (rule cancel_all_abandons)
qed


subsection \<open>The invariant\<close>

definition proven :: "move_phase \<Rightarrow> bool" where
  "proven ph \<longleftrightarrow> ph = PhaseConfirmed \<or> ph = PhaseDone"

definition past :: "move_phase \<Rightarrow> bool" where
  "past ph \<longleftrightarrow> proven ph \<or> ph = PhaseAborted"

lemma walks_past: "walks g g' \<Longrightarrow> past (sg_phase g) \<Longrightarrow> past (sg_phase g')"
  by (cases "sg_phase g"; cases "sg_phase g'") (auto simp: walks_def past_def proven_def)

fun copy_knows :: "saga \<Rightarrow> bool \<Rightarrow> copy_pc \<Rightarrow> bool" where
  "copy_knows g0 _ (CopySearch h path rfc) \<longleftrightarrow> sg_raw h = sg_raw g0 \<and> sg_rfc h = sg_rfc g0 \<and> sg_rfc g0 = Some rfc"
| "copy_knows g0 _ (CopyUpload h path) \<longleftrightarrow> sg_raw h = sg_raw g0 \<and> sg_rfc h = sg_rfc g0"
| "copy_knows g0 _ (CopyProve path rfc) \<longleftrightarrow> sg_rfc g0 = Some rfc"
| "copy_knows g0 copied (CopyConfirm uid) \<longleftrightarrow> copied"
| "copy_knows _ _ _ \<longleftrightarrow> True"

text \<open>A removal under way goes on after an undo, so what it knows is that the copy is there.\<close>

fun remove_knows :: "bool \<Rightarrow> move_phase \<Rightarrow> remove_pc \<Rightarrow> bool" where
  "remove_knows copied ph (RemoveMark path remote) \<longleftrightarrow> copied \<and> past ph"
| "remove_knows copied ph (RemoveExpunge path remote) \<longleftrightarrow> copied \<and> past ph"
| "remove_knows copied ph RemoveSettle \<longleftrightarrow> copied \<and> past ph"
| "remove_knows _ _ _ \<longleftrightarrow> True"

lemma copy_knows_mono: "copy_knows g0 a pc \<Longrightarrow> (a \<longrightarrow> b) \<Longrightarrow> copy_knows g0 b pc"
  by (cases pc) auto

lemma remove_knows_mono: "remove_knows a ph pc \<Longrightarrow> (a \<longrightarrow> b) \<Longrightarrow> (past ph \<longrightarrow> past ph') \<Longrightarrow> remove_knows b ph' pc"
  by (cases pc) auto

text \<open>The invariant over the parts of the state, so that a step can be checked part by part.\<close>

definition cross_inv :: "saga \<Rightarrow> bool \<Rightarrow> bool \<Rightarrow> saga option \<Rightarrow> copy_pc option \<Rightarrow> remove_pc option \<Rightarrow> bool" where
  "cross_inv g0 copied kept now cpc rpc \<longleftrightarrow>
     (\<exists>g. now = Some g \<and> sg_raw g = sg_raw g0 \<and> sg_rfc g = sg_rfc g0
        \<and> (proven (sg_phase g) \<longrightarrow> copied) \<and> (\<not> past (sg_phase g) \<longrightarrow> kept) \<and> (kept \<or> copied)
        \<and> (\<forall>pc. cpc = Some pc \<longrightarrow> copy_knows g0 copied pc)
        \<and> (\<forall>pc. rpc = Some pc \<longrightarrow> remove_knows copied (sg_phase g) pc))"

lemma cross_inv_world:
  "cross_inv g0 copied kept now cpc rpc \<Longrightarrow> (copied \<longrightarrow> copied') \<Longrightarrow> (kept \<longrightarrow> kept')
   \<Longrightarrow> cross_inv g0 copied' kept' now cpc rpc"
  by (fastforce simp: cross_inv_def intro: copy_knows_mono remove_knows_mono)

lemma has_copy_mono: "(\<And>p. on w p \<subseteq> on w' p) \<Longrightarrow> has_copy mid on L g w \<longrightarrow> has_copy mid on L g w'"
  by (fastforce simp: has_copy_def)

lemma has_copy_same: "sg_raw g = sg_raw h \<Longrightarrow> sg_rfc g = sg_rfc h \<Longrightarrow> has_copy mid on L g w = has_copy mid on L h w"
  by (simp add: has_copy_def raw_bytes_def)

text \<open>A saga write that keeps or walks the phase keeps the invariant, when it may.\<close>

lemma cross_inv_write:
  assumes "cross_inv g0 copied kept (Some g) cpc rpc" "walks g g'"
    and "sg_phase g' \<noteq> sg_phase g \<longrightarrow> proven (sg_phase g') \<longrightarrow> copied"
  shows "cross_inv g0 copied kept (Some g') cpc rpc"
proof -
  have p: "past (sg_phase g) \<longrightarrow> past (sg_phase g')" using walks_past [OF assms(2)] by blast
  from assms(1) have i: "sg_raw g = sg_raw g0" "sg_rfc g = sg_rfc g0" "\<not> past (sg_phase g) \<longrightarrow> kept" "kept \<or> copied"
    "proven (sg_phase g) \<longrightarrow> copied"
    "\<And>pc. cpc = Some pc \<longrightarrow> copy_knows g0 copied pc" "\<And>pc. rpc = Some pc \<longrightarrow> remove_knows copied (sg_phase g) pc"
    by (auto simp: cross_inv_def)
  have "\<And>pc. rpc = Some pc \<longrightarrow> remove_knows copied (sg_phase g') pc" using i(7) remove_knows_mono p by blast
  moreover have "proven (sg_phase g') \<longrightarrow> copied" using assms(3) i(5) by (cases "sg_phase g' = sg_phase g") auto
  ultimately show ?thesis using p i assms(2) by (auto simp: cross_inv_def walks_def)
qed

lemma cross_inv_copy_pc:
  "cross_inv g0 copied kept now cpc rpc \<Longrightarrow> (\<And>pc. cpc' = Some pc \<Longrightarrow> copy_knows g0 copied pc)
   \<Longrightarrow> cross_inv g0 copied kept now cpc' rpc"
  by (auto simp: cross_inv_def)

lemma cross_inv_remove_pc:
  "cross_inv g0 copied kept (Some g) cpc rpc \<Longrightarrow> (\<And>pc. rpc' = Some pc \<Longrightarrow> remove_knows copied (sg_phase g) pc)
   \<Longrightarrow> cross_inv g0 copied kept (Some g) cpc rpc'"
  by (auto simp: cross_inv_def)

lemma cross_inv_abandons:
  "cross_inv g0 copied kept now cpc rpc \<Longrightarrow> abandons now now' \<Longrightarrow> cross_inv g0 copied kept now' cpc rpc"
proof -
  assume inv: "cross_inv g0 copied kept now cpc rpc" and ab: "abandons now now'"
  from inv obtain g where g: "now = Some g" by (auto simp: cross_inv_def)
  with ab obtain g' where g': "now' = Some g'" "walks g g'" "sg_phase g' \<noteq> sg_phase g \<longrightarrow> sg_phase g' = PhaseAborted"
    by (auto simp: abandons_def walks_def)
  then show ?thesis
    using inv unfolding g g'(1) by (rule_tac cross_inv_write) (auto simp: proven_def)
qed

text \<open>A step of the copy: the server first, the saga after.\<close>

lemma copy_step_inv:
  fixes mid on on_src L g0 id0 raw0 p0
  defines "copied \<equiv> has_copy mid on L g0" and "kept \<equiv> \<lambda>w. (id0, raw0) \<in> on_src w p0"
  assumes B: "saga_server mid B on" "leaves_alone B on_src"
    and step: "copy_step L B i pc w s = (pc', w', s')"
    and inv: "cross_inv g0 (copied w) (kept w) (get_saga s i) (Some pc) rpc"
  shows "cross_inv g0 (copied w') (kept w') (get_saga s' i) (Some pc') rpc"
proof -
  from inv obtain g where g: "get_saga s i = Some g" "sg_raw g = sg_raw g0" "sg_rfc g = sg_rfc g0"
      "copy_knows g0 (copied w) pc" "proven (sg_phase g) \<longrightarrow> copied w"
    by (auto simp: cross_inv_def)
  have find: "on w2 = on w" "on_src w2 = on_src w"
    "\<And>uid. r = Inr (Some uid) \<Longrightarrow> \<exists>raw. (uid, raw) \<in> on w path \<and> mid raw = Some rfc"
    if "sb_find B w path rfc = (w2, r)" for path rfc w2 r
    using server_find [OF B(1) that] alone(1) [OF B(2) that] by blast+
  have app: "\<And>p. on w p \<subseteq> on w2 p" "on_src w2 = on_src w"
    "\<And>landed. r = Inr landed \<Longrightarrow> \<exists>i. (i, raw) \<in> on w2 path"
    if "sb_append B w path raw = (w2, r)" for path raw w2 r
    using server_append [OF B(1) that] alone(2) [OF B(2) that] by blast+
  have world: "cross_inv g0 (copied w2) (kept w2) (Some g) (Some pc2) rpc"
    if "\<And>p. on w p \<subseteq> on w2 p" "on_src w2 = on_src w" "copy_knows g0 (copied w2) pc2" for w2 pc2
  proof -
    have "cross_inv g0 (copied w) (kept w) (Some g) None rpc"
      using inv g(1) by (auto intro: cross_inv_copy_pc)
    then have "cross_inv g0 (copied w2) (kept w2) (Some g) None rpc"
      by (rule cross_inv_world) (use that has_copy_mono [of on w w2] in \<open>auto simp: copied_def kept_def\<close>)
    then show ?thesis by (rule cross_inv_copy_pc) (use that in auto)
  qed
  have here: "cross_inv g0 (copied w) (kept w) (Some g) (Some pc2) rpc" if "copy_knows g0 (copied w) pc2" for pc2
    using world [of w] that by simp
  have found: "copied w2" if "sb_find B w path rfc = (w2, Inr (Some uid))" "sg_rfc g0 = Some rfc" for path rfc w2 uid
    using find [OF that(1)] that(2) by (auto simp: copied_def has_copy_def)
  show ?thesis
  proof (cases pc)
    case CopyRead
    show ?thesis
    proof (cases "target_path s g = None \<and> \<not> proven (sg_phase g) \<and> sg_phase g \<noteq> PhaseAborted")
      case True
      then obtain out where a: "abort L s i (''the destination no longer exists; the move was abandoned and ''
                       @ ''the source copy is intact'') = (s', out)" "pc' = CopyOver out" "w' = w"
        using step CopyRead g(1) by (auto simp: proven_def split: prod.splits)
      from abort_walks [OF a(1) g(1)] obtain g' where "get_saga s' i = Some g'" "walks g g'"
        "sg_phase g' \<noteq> sg_phase g \<longrightarrow> sg_phase g' = PhaseAborted" by blast
      with a(2,3) show ?thesis
        by (auto intro!: cross_inv_write [OF here] simp: proven_def)
    next
      case False
      then have "w' = w" "s' = s" "copy_knows g0 (copied w) pc'"
        using step CopyRead g(1-3) by (auto simp: proven_def split: if_splits option.splits)
      with here g(1) show ?thesis by simp
    qed
  next
    case (CopySearch h path rfc)
    obtain w2 r where r: "sb_find B w path rfc = (w2, r)" by fastforce
    with step CopySearch have "w' = w2" "s' = s" by (auto split: sum.splits option.splits)
    moreover have "copy_knows g0 (copied w2) pc'"
      using step CopySearch r g(4) found [of path rfc w2] by (auto split: sum.splits option.splits)
    ultimately show ?thesis using world [of w2 pc'] find(1,2) [OF r] g(1) by simp
  next
    case (CopyUpload h path)
    show ?thesis
    proof (cases "sg_phase h = PhaseUnconfirmed \<or> raw_bytes L h = None")
      case True
      with step CopyUpload have "w' = w" "s' = s" "copy_knows g0 (copied w) pc'"
        by (auto split: if_splits option.splits)
      with here g(1) show ?thesis by simp
    next
      case False
      then obtain raw where raw: "raw_bytes L h = Some raw" by auto
      obtain w2 r where r: "sb_append B w path raw = (w2, r)" by fastforce
      with step CopyUpload False raw have "w' = w2" "s' = s" by (auto split: sum.splits option.splits)
      moreover have "copied w2" if "r = Inr landed" for landed
      proof -
        have "raw_bytes L g0 = Some raw" using raw CopyUpload g(4) by (simp add: raw_bytes_def)
        with app(3) [OF r that] show ?thesis by (auto simp: copied_def has_copy_def)
      qed
      then have "copy_knows g0 (copied w2) pc'"
        using step CopyUpload False raw r g(4) by (auto split: sum.splits option.splits)
      ultimately show ?thesis using world [of w2 pc'] app(1,2) [OF r] g(1) by simp
    qed
  next
    case (CopyProve path rfc)
    obtain w2 r where r: "sb_find B w path rfc = (w2, r)" by fastforce
    with step CopyProve have "w' = w2" "s' = s" by (auto split: sum.splits option.splits)
    moreover have "copy_knows g0 (copied w2) pc'"
      using step CopyProve r g(4) found [of path rfc w2] by (auto split: sum.splits option.splits)
    ultimately show ?thesis using world [of w2 pc'] find(1,2) [OF r] g(1) by simp
  next
    case (CopyConfirm uid)
    then obtain out where a: "record_confirmation L s i uid = (s', out)" "pc' = CopyOver out" "w' = w"
      using step by (auto split: prod.splits)
    from record_confirmation_walks [OF a(1) g(1)] obtain g' where g': "get_saga s' i = Some g'" "walks g g'"
      "sg_phase g' \<noteq> sg_phase g \<longrightarrow> sg_phase g' = PhaseConfirmed" by blast
    have "cross_inv g0 (copied w) (kept w) (Some g') (Some (CopyOver out)) rpc"
      by (rule cross_inv_write [OF here g'(2)]) (use g'(3) g(4) CopyConfirm in \<open>auto simp: proven_def\<close>)
    with a(2,3) g'(1) show ?thesis by simp
  next
    case CopyPark
    then obtain out where a: "park L s i = (s', out)" "pc' = CopyOver out" "w' = w"
      using step by (auto split: prod.splits)
    from park_walks [OF a(1) g(1)] obtain g' where "get_saga s' i = Some g'" and wk: "walks g g'"
      and ph: "sg_phase g' \<noteq> sg_phase g \<longrightarrow> sg_phase g' = PhaseUnconfirmed" by blast
    then show ?thesis using a(2,3)
      by (auto intro!: cross_inv_write [OF here] simp: proven_def)
  next
    case (CopyOver out)
    with step here g(1) show ?thesis by auto
  qed
qed


lemma remove_step_inv:
  fixes mid on on_tgt L g0 id0 raw0 p0
  defines "copied \<equiv> has_copy mid on_tgt L g0" and "kept \<equiv> \<lambda>w. (id0, raw0) \<in> on w p0"
  assumes B: "saga_server mid B on" "leaves_alone B on_tgt"
    and step: "remove_step L B i snapshot pc w s = (pc', w', s')"
    and inv: "cross_inv g0 (copied w) (kept w) (get_saga s i) cpc (Some pc)"
  shows "cross_inv g0 (copied w') (kept w') (get_saga s' i) cpc (Some pc')"
proof -
  from inv obtain g where g: "get_saga s i = Some g" "remove_knows (copied w) (sg_phase g) pc"
      "proven (sg_phase g) \<longrightarrow> copied w"
    by (auto simp: cross_inv_def)
  have here: "cross_inv g0 (copied w) (kept w) (Some g) cpc (Some pc2)" if "remove_knows (copied w) (sg_phase g) pc2" for pc2
    using inv g(1) that by (auto intro: cross_inv_remove_pc)
  have away: "cross_inv g0 (copied w2) (kept w2) (Some g) cpc (Some pc2)"
    if "copied w \<and> past (sg_phase g)" "on_tgt w2 = on_tgt w" "remove_knows (copied w) (sg_phase g) pc2" for w2 pc2
  proof -
    have "copied w2 = copied w" using that(2) by (simp add: copied_def has_copy_def)
    with here [OF that(3)] that(1) show ?thesis by (auto simp: cross_inv_def)
  qed
  show ?thesis
  proof (cases pc)
    case RemoveRead
    with step g(1,3) have "w' = w" "s' = s" "remove_knows (copied w) (sg_phase g) pc'"
      by (cases "sg_phase g"; auto simp: proven_def past_def split: if_splits option.splits prod.splits)+
    with here g(1) show ?thesis by simp
  next
    case (RemoveMark path remote)
    obtain w2 r where r: "sb_store_flags B w path [remote] (AddFlags deleted_flag) = (w2, r)" by fastforce
    with step RemoveMark g(2) have "w' = w2" "s' = s" "remove_knows (copied w) (sg_phase g) pc'"
      by (auto split: sum.splits)
    with away alone(3) [OF B(2) r] g(1,2) RemoveMark show ?thesis by simp
  next
    case (RemoveExpunge path remote)
    obtain w2 r where r: "sb_expunge B w path (Some [remote]) = (w2, r)" by fastforce
    with step RemoveExpunge g(2) have "w' = w2" "s' = s" "remove_knows (copied w) (sg_phase g) pc'"
      by (auto split: sum.splits)
    with away alone(4) [OF B(2) r] g(1,2) RemoveExpunge show ?thesis by simp
  next
    case RemoveSettle
    then obtain out where a: "settle_move L s i = (s', out)" "pc' = RemoveOver out" "w' = w"
      using step by (auto split: prod.splits)
    from settle_walks [OF a(1) g(1)] obtain g' where g': "get_saga s' i = Some g'" "walks g g'"
      "sg_phase g' \<noteq> sg_phase g \<longrightarrow> sg_phase g' = PhaseDone" by blast
    have "cross_inv g0 (copied w) (kept w) (Some g') cpc (Some (RemoveOver out))"
      by (rule cross_inv_write [OF here g'(2)]) (use g'(3) g(2,3) RemoveSettle in \<open>auto simp: proven_def\<close>)
    with a(2,3) g'(1) show ?thesis by simp
  next
    case (RemoveOver out)
    with step here g(1) show ?thesis by auto
  qed
qed

lemma crosses_inv:
  fixes M :: "'w cross_model" and mid g0 id0 raw0 p0
  defines "copied \<equiv> has_copy mid (cx_on_target M) (cx_lib M) g0"
    and "kept \<equiv> \<lambda>w. (id0, raw0) \<in> cx_on_source M w p0"
  assumes T: "saga_server mid (cx_target M) (cx_on_target M)" "leaves_alone (cx_target M) (cx_on_source M)"
    and S: "saga_server mid (cx_source M) (cx_on_source M)" "leaves_alone (cx_source M) (cx_on_target M)"
    and "crosses M c c'"
    and "cross_inv g0 (copied (cw_world c)) (kept (cw_world c)) (get_saga (cw_store c) (cx_saga M)) (cw_copy c) (cw_remove c)"
  shows "cross_inv g0 (copied (cw_world c')) (kept (cw_world c')) (get_saga (cw_store c') (cx_saga M)) (cw_copy c') (cw_remove c')"
  using assms(7,8)
proof (induction rule: crosses.cases)
  case (copy_goes c pc pc' w' s')
  then show ?case using copy_step_inv [OF T copy_goes(4)] by (simp add: copied_def kept_def)
next
  case (remove_goes c pc snapshot pc' w' s')
  then show ?case using remove_step_inv [OF S remove_goes(4)] by (simp add: copied_def kept_def)
next
  case (undone c messages at s' counts)
  then show ?case using cross_inv_abandons [OF _ undo_abandons [OF undone(3)]] by simp
next
  case (the_rest s' c w')
  then have inv: "cross_inv g0 (copied (cw_world c)) (kept (cw_world c)) (get_saga (cw_store c) (cx_saga M))
      (cw_copy c) (cw_remove c)" by simp
  then have "cross_inv g0 (copied (cw_world c)) (kept (cw_world c)) (get_saga s' (cx_saga M))
      (cw_copy c) (cw_remove c)"
    using the_rest(3) by (auto simp: cross_inv_def saga_fixed_def)
  then have "cross_inv g0 (copied w') (kept w') (get_saga s' (cx_saga M)) (cw_copy c) (cw_remove c)"
    by (rule cross_inv_world)
      (use has_copy_mono [of "cx_on_target M" "cw_world c" w'] the_rest(4) the_rest(5) [of p0] in
        \<open>auto simp: copied_def kept_def\<close>)
  with the_rest(2) show ?case by simp
qed (auto simp: cross_inv_def)


end
