(* ===== verification/Cross_Undo_Props.thy ===== *)
theory Cross_Undo_Props
  imports Cross_Props
begin

section \<open>What undo does to a move between accounts\<close>

text \<open>
  Replaying a copy, withdrawing a saga that has not copied yet, and the inverse saga, with
  two demonstration servers whose mailboxes are lists of messages with their \<open>\\Deleted\<close>
  flag.
\<close>

subsection \<open>Replay\<close>

definition searches :: "(string \<Rightarrow> string option) \<Rightarrow> 'w saga_backend
    \<Rightarrow> ('w \<Rightarrow> string \<Rightarrow> (remote_id \<times> string) set) \<Rightarrow> bool" where
  "searches mid B on \<longleftrightarrow>
     (\<forall>w path rfc. (\<exists>i raw. (i, raw) \<in> on w path \<and> mid raw = Some rfc)
        \<longrightarrow> (\<exists>w' i. sb_find B w path rfc = (w', Inr (Some i))))"

lemma record_confirmation_ok:
  assumes "get_saga s i = Some g" "phase_allows (sg_phase g) PhaseConfirmed"
  shows "\<exists>t g'. record_confirmation L s i uid = (t, Applied) \<and> get_saga t i = Some g'
    \<and> sg_phase g' = PhaseConfirmed \<and> sg_confirmed g' = Some uid"
proof -
  define u where "u = update_saga (\<lambda>g. g\<lparr>sg_confirmed := Some uid\<rparr>)
      (update_saga (\<lambda>g. g\<lparr>sg_phase := PhaseConfirmed\<rparr>) s i) i"
  have tr: "transition s i PhaseConfirmed = Inr (update_saga (\<lambda>g. g\<lparr>sg_phase := PhaseConfirmed\<rparr>) s i)"
    using assms by (simp add: transition_def)
  have "get_saga u i = Some (g\<lparr>sg_phase := PhaseConfirmed, sg_confirmed := Some uid\<rparr>)"
    unfolding u_def by (simp add: get_update_saga assms(1))
  then have "confirm s i (Some uid)
      = Inr (case sg_target_message g of Some m \<Rightarrow> set_remote u m uid | None \<Rightarrow> u)"
    unfolding confirm_def tr sum.case option.case Let_def u_def [symmetric] by simp
  then obtain t where t: "confirm s i (Some uid) = Inr t" by blast
  from t have "record_confirmation L s i uid = (t, Applied)" by (simp add: record_confirmation_def)
  then show ?thesis by (intro exI [of _ t]) (rule confirm_get [OF t]; blast)
qed

text \<open>
  C24: Replaying the copy after a crash makes no second one.  When an upload of the message
  reached the destination but its confirmation was never written, and the server answers a
  search for a Message-ID it holds, the next drain of the copy finds it, uploads nothing,
  and confirms the saga with the identity of a message that is there.
\<close>

theorem cross_copy_replay:
  assumes "saga_server mid B on" "searches mid B on" "get_saga s i = Some g"
    and "sg_phase g = PhaseCopying \<or> sg_phase g = PhaseUnconfirmed"
    and "target_path s g = Some path" "sg_rfc g = Some rfc" "(j, raw) \<in> on w path" "mid raw = Some rfc"
  shows "\<exists>w' t g' uid bytes. copy_saga L B w s i = (w', t, Applied) \<and> on w' = on w
    \<and> get_saga t i = Some g' \<and> sg_phase g' = PhaseConfirmed \<and> sg_confirmed g' = Some uid
    \<and> (uid, bytes) \<in> on w path \<and> mid bytes = Some rfc"
proof -
  from assms(2,7,8) obtain w' uid where f: "sb_find B w path rfc = (w', Inr (Some uid))"
    unfolding searches_def by blast
  have "phase_allows (sg_phase g) PhaseConfirmed" using assms(4) by auto
  from record_confirmation_ok [OF assms(3) this, of L uid] obtain t g' where
    t: "record_confirmation L s i uid = (t, Applied)" "get_saga t i = Some g'" "sg_phase g' = PhaseConfirmed"
      "sg_confirmed g' = Some uid" by blast
  have "copy_saga L B w s i = (w', t, Applied)"
    using assms(3-6) f t(1) by (auto simp: copy_saga_def)
  with t(2-4) server_find [OF assms(1) f] show ?thesis by blast
qed


subsection \<open>Withdrawing\<close>

lemma withdraw_target_queue:
  assumes "queue_wf s"
  shows "o_queue (withdraw_target s t) = filter (\<lambda>r. \<not> (on_target t r \<and> unsettled r)) (o_queue s)
    \<and> queue_wf (withdraw_target s t)"
  using assms
proof (induction s t rule: withdraw_target.induct)
  case (1 s t)
  show ?case
  proof (cases "pending_for s t")
    case None
    then have "filter (\<lambda>r. \<not> (on_target t r \<and> unsettled r)) (o_queue s) = o_queue s"
      by (intro filter_True) (auto simp: pending_for_def find_None_iff)
    with None 1(2) show ?thesis by (simp add: withdraw_target.simps [of s t])
  next
    case (Some r)
    define u where "u = fst (delete_row s (q_id r))"
    from Some have r: "r \<in> set (o_queue s)" "on_target t r" "unsettled r"
      by (auto simp: pending_for_def find_Some_iff)
    have q: "o_queue u = filter (\<lambda>x. q_id x \<noteq> q_id r) (o_queue s)"
      by (auto simp: u_def delete_row_def Let_def split: option.splits)
    have wf: "queue_wf u"
      using queue_wf_filter [OF 1(2), of "\<lambda>x. q_id x \<noteq> q_id r"]
      by (auto simp: u_def delete_row_def Let_def intro: queue_wf_refresh split: option.splits)
    have same: "x = r" if "x \<in> set (o_queue s)" "q_id x = q_id r" for x
      using get_row_mem [OF 1(2)] r(1) that by (metis option.inject)
    have "filter (\<lambda>r. \<not> (on_target t r \<and> unsettled r)) (o_queue u)
        = filter (\<lambda>r. \<not> (on_target t r \<and> unsettled r)) (o_queue s)"
      unfolding q filter_filter by (rule filter_cong) (use same r in auto)
    with 1(1) [OF Some] wf Some show ?thesis
      by (simp add: withdraw_target.simps [of s t] u_def)
  qed
qed

lemma find_map_id: "(\<And>g. sg_id (f g) = sg_id g) \<Longrightarrow>
   find (\<lambda>g. sg_id g = i) (map f gs) = map_option f (find (\<lambda>g. sg_id g = i) gs)" for f :: "saga \<Rightarrow> saga"
  by (induction gs) auto

text \<open>
  Undo before the copy is confirmed withdraws the whole saga.  It succeeds; exactly the
  unsettled queue rows about the source message and about the provisional copy are gone; the
  provisional copy is gone and the source row is shown again; the saga is aborted, and from
  then on neither half of it ever calls a server.
\<close>

theorem cross_cancel_withdraws:
  assumes "queue_wf (xs_ops s)" "get_saga s i = Some g" "sg_phase g = PhaseCopying"
    and "sg_source_message g = Some m" "sg_target_message g = Some copy" "m \<noteq> copy"
  shows "\<exists>t g'. cancel_one s g = Inr t
    \<and> o_queue (xs_ops t) = filter (\<lambda>r. \<not> (unsettled r \<and> q_target r \<in> {Message m, Message copy})) (o_queue (xs_ops s))
    \<and> xs_columns t copy = None
    \<and> xs_columns t m = map_option (\<lambda>c. c\<lparr>mc_deleted := False\<rparr>) (xs_columns s m)
    \<and> get_saga t i = Some g' \<and> sg_phase g' = PhaseAborted
    \<and> (\<forall>L (B :: 'w saga_backend) w. copy_saga L B w t i
         = (w, t, Obsolete ''the move was abandoned; the source copy is intact''))
    \<and> (\<forall>L (B :: 'w saga_backend) w snapshot. remove_saga L B w t i snapshot
         = (w, t, Obsolete ''the move was abandoned; nothing to remove''))"
proof -
  define ops where "ops = withdraw_target (withdraw_target (xs_ops s) (Message m)) (Message copy)"
  define u where "u = set_deleted_locally (delete_messages (s\<lparr>xs_ops := ops\<rparr>) [copy]) [m] False"
  have ops: "o_queue ops = filter (\<lambda>r. \<not> (unsettled r \<and> q_target r \<in> {Message m, Message copy})) (o_queue (xs_ops s))"
    using withdraw_target_queue [OF assms(1), of "Message m"]
      withdraw_target_queue [of "withdraw_target (xs_ops s) (Message m)" "Message copy"]
    by (auto simp: ops_def on_target_iff intro!: filter_cong)
  have i: "sg_id g = i" using assms(2) by (auto simp: get_saga_def find_Some_iff)
  have can: "cancel_one s g = transition u i PhaseAborted"
    using assms(4,5) i by (simp add: cancel_one_def withdraw_pending_def u_def ops_def Let_def)
  obtain h where h: "get_saga u i = Some h" "sg_phase h = PhaseCopying"
    using assms(2,3) by (auto simp: u_def get_saga_def set_deleted_locally_def delete_messages_def Let_def find_map_id)
  define t where "t = update_saga (\<lambda>g. g\<lparr>sg_phase := PhaseAborted\<rparr>) u i"
  have t: "cancel_one s g = Inr t" using can h by (simp add: transition_def t_def)
  have g': "get_saga t i = Some (h\<lparr>sg_phase := PhaseAborted\<rparr>)"
    using h by (simp add: t_def get_update_saga)
  have q: "o_queue (xs_ops t) = o_queue ops" "xs_columns t = xs_columns u"
    by (simp_all add: t_def update_saga_def u_def set_deleted_locally_def delete_messages_def Let_def)
  have c: "xs_columns u copy = None" "xs_columns u m = map_option (\<lambda>c. c\<lparr>mc_deleted := False\<rparr>) (xs_columns s m)"
    using assms(6) by (auto simp: u_def set_deleted_locally_def delete_messages_def Let_def)
  show ?thesis
    by (intro exI [of _ t] exI [of _ "h\<lparr>sg_phase := PhaseAborted\<rparr>"])
      (simp add: t g' q ops c copy_saga_def remove_saga_def)
qed

subsection \<open>Two servers\<close>

text \<open>
  A message is its id, its bytes and whether it is marked \<open>\\Deleted\<close>; its Message-ID is its
  text.  A search finds marked messages too (\<open>SEARCH HEADER\<close> of RFC 3501 without
  \<open>UNDELETED\<close>, as \<open>find_by_message_id\<close> of \<open>crates/postio-account/src/imap/mutate.rs\<close> sends it).
\<close>

record two_servers =
  ts_source :: "(remote_id \<times> string \<times> bool) list"
  ts_target :: "(remote_id \<times> string \<times> bool) list"

definition side_get :: "bool \<Rightarrow> two_servers \<Rightarrow> (remote_id \<times> string \<times> bool) list" where
  "side_get source w = (if source then ts_source w else ts_target w)"

definition side_put :: "bool \<Rightarrow> (remote_id \<times> string \<times> bool) list \<Rightarrow> two_servers \<Rightarrow> two_servers" where
  "side_put source ms w = (if source then w\<lparr>ts_source := ms\<rparr> else w\<lparr>ts_target := ms\<rparr>)"

definition side_on :: "bool \<Rightarrow> two_servers \<Rightarrow> string \<Rightarrow> (remote_id \<times> string) set" where
  "side_on source w path = (if path = ''INBOX'' then (\<lambda>(i, raw, d). (i, raw)) ` set (side_get source w) else {})"

definition side_backend :: "bool \<Rightarrow> bool \<Rightarrow> two_servers saga_backend" where
  "side_backend source lost =
     \<lparr>sb_find = (\<lambda>w path rfc. (w, Inr (if path = ''INBOX''
          then map_option fst (find (\<lambda>(i, raw, d). raw = rfc) (rev (side_get source w))) else None))),
      sb_append = (\<lambda>w path raw.
         if path = ''INBOX'' then
           (let i = concat (map fst (side_get source w)) @ ''n'' in
            (side_put source (side_get source w @ [(i, raw, False)]) w,
             Inr (Some \<lparr>um_source = 0, um_destination = 1, um_uid_validity = 1, um_destination_remote_id = i\<rparr>)))
         else (w, Inl (NoSuchMailbox path))),
      sb_store_flags = (\<lambda>w path ids c. (side_put source
         (map (\<lambda>(i, raw, d). (i, raw, d \<or> (path = ''INBOX'' \<and> i \<in> set ids \<and> c = AddFlags deleted_flag))) (side_get source w)) w,
         Inr (length ids))),
      sb_expunge = (\<lambda>w path ids. if lost then (w, Inl (Disconnected ''EXPUNGE'' ''reset''))
         else (side_put source (filter (\<lambda>(i, raw, d). \<not> (path = ''INBOX'' \<and> d \<and> (case ids of None \<Rightarrow> True | Some xs \<Rightarrow> i \<in> set xs)))
                 (side_get source w)) w, Inr ()))\<rparr>"

lemma side_get_put [simp]:
  "side_get a (side_put b ms w) = (if a = b then ms else side_get a w)"
  by (auto simp: side_get_def side_put_def)

lemma side_server: "saga_server Some (side_backend a lost) (side_on a)"
  unfolding saga_server_def
proof (intro conjI allI impI)
  fix w path rfc w' i and r :: "backend_error + remote_id option"
  assume f: "sb_find (side_backend a lost) w path rfc = (w', r)"
  then show "side_on a w' = side_on a w" by (simp add: side_backend_def)
  assume "r = Inr (Some i)"
  with f obtain d where "(i, rfc, d) \<in> set (side_get a w)" "path = ''INBOX''"
    by (auto simp: side_backend_def find_Some_iff split: if_splits) (metis nth_mem length_rev set_rev)
  then show "\<exists>raw. (i, raw) \<in> side_on a w path \<and> Some raw = Some rfc" by (force simp: side_on_def)
qed (auto simp: side_backend_def side_on_def Let_def split: if_splits, force+)

lemma side_alone: "a \<noteq> b \<Longrightarrow> leaves_alone (side_backend a lost) (side_on b)"
  by (auto simp: leaves_alone_def side_backend_def side_on_def Let_def split: if_splits)


subsection \<open>A move, and a move taken back\<close>

text \<open>
  Message 1, \<open>s\<close> on the source server, moves from mailbox 10 of account 1 to mailbox 20 of
  account 2; both are the \<open>INBOX\<close> of their server.
\<close>

definition cross_lib :: saga_lib where
  "cross_lib = \<lparr>gl_blob = (\<lambda>_. Some ''m''), gl_storage_text = (\<lambda>_. ''e''), gl_backend_text = (\<lambda>_. ''e'')\<rparr>"

definition cross_columns :: message_columns where
  "cross_columns = \<lparr>mc_account = 1, mc_raw = Some ''b'', mc_rfc = Some ''m'', mc_deleted = False\<rparr>"

definition cross_row :: message_row where
  "cross_row = \<lparr>m_id = 1, m_mailbox = 10, m_thread = None, m_uid = Some 1, m_remote = Some ''s'', m_has_pending = False\<rparr>"

definition cross_store :: saga_store where
  "cross_store =
     \<lparr>xs_ops = \<lparr>o_queue = [], o_next = 1, o_messages = [cross_row]\<rparr>, xs_sagas = [], xs_next_saga = 1,
      xs_columns = (\<lambda>m. if m = 1 then Some cross_columns else None), xs_next_message = 2,
      xs_path = (\<lambda>box. if box = 10 \<or> box = 20 then Some ''INBOX'' else None)\<rparr>"

definition cross_servers :: two_servers where
  "cross_servers = \<lparr>ts_source = [(''s'', ''m'', False)], ts_target = []\<rparr>"

definition cross_moved :: saga_store where
  "cross_moved = (case cross_account_relocate cross_store 2 20 [(cross_row, cross_columns)] 5 of
     Inr s \<Rightarrow> s | Inl _ \<Rightarrow> cross_store)"

definition cross_copied :: "two_servers \<times> saga_store \<times> outcome" where
  "cross_copied = copy_saga cross_lib (side_backend False False) cross_servers cross_moved 1"

definition cross_removed :: "bool \<Rightarrow> two_servers \<times> saga_store \<times> outcome" where
  "cross_removed lost = remove_saga cross_lib (side_backend True lost) (fst cross_copied) (fst (snd cross_copied)) 1 [''s'']"

lemma cross_moved_saga:
  "map_option (\<lambda>g. (sg_phase g, sg_raw g, sg_rfc g, sg_source_message g, sg_target_message g)) (get_saga cross_moved 1)
     = Some (PhaseCopying, Some ''b'', Some ''m'', Some 1, Some 2)"
  by code_simp

lemma cross_moved_path: "map_option (target_path cross_moved) (get_saga cross_moved 1) = Some (Some ''INBOX'')"
  by code_simp

lemma cross_copied_run: "fst cross_copied = \<lparr>ts_source = [(''s'', ''m'', False)], ts_target = [(''n'', ''m'', False)]\<rparr>
    \<and> snd (snd cross_copied) = Applied"
  by code_simp

lemma cross_removed_run: "fst (cross_removed False) = \<lparr>ts_source = [], ts_target = [(''n'', ''m'', False)]\<rparr>
    \<and> snd (snd (cross_removed False)) = Applied"
  by code_simp

definition cross_demo :: "two_servers cross_model" where
  "cross_demo = \<lparr>cx_lib = cross_lib, cx_target = side_backend False False, cx_source = side_backend True False,
     cx_saga = 1, cx_on_target = side_on False, cx_on_source = side_on True\<rparr>"

definition cross_at :: "two_servers \<Rightarrow> saga_store \<Rightarrow> two_servers cross_world" where
  "cross_at w s = \<lparr>cw_world = w, cw_store = s, cw_copy = None, cw_remove = None\<rparr>"

lemma crosses_copy_goes:
  "cross_reachable M c0 (c\<lparr>cw_copy := Some pc\<rparr>) \<Longrightarrow>
   runs (copy_step (cx_lib M) (cx_target M) (cx_saga M)) n pc (cw_world c) (cw_store c) = (pc', w', s') \<Longrightarrow>
   cross_reachable M c0 (c\<lparr>cw_world := w', cw_store := s', cw_copy := Some pc'\<rparr>)"
proof (induction n arbitrary: c pc)
  case 0
  then show ?case by (cases c) simp
next
  case (Suc n)
  obtain p w s where st: "copy_step (cx_lib M) (cx_target M) (cx_saga M) pc (cw_world c) (cw_store c) = (p, w, s)"
    using prod_cases3 by blast
  have "crosses M (c\<lparr>cw_copy := Some pc\<rparr>) (c\<lparr>cw_copy := Some pc\<rparr>\<lparr>cw_world := w, cw_store := s, cw_copy := Some p\<rparr>)"
    by (rule copy_goes) (use st in simp_all)
  with Suc(2) have "cross_reachable M c0 ((c\<lparr>cw_world := w, cw_store := s\<rparr>)\<lparr>cw_copy := Some p\<rparr>)"
    by (auto dest: further)
  from Suc(1) [OF this] Suc(3) st show ?case by simp
qed

lemma crosses_remove_goes:
  "cross_reachable M c0 (c\<lparr>cw_remove := Some pc\<rparr>) \<Longrightarrow>
   runs (remove_step (cx_lib M) (cx_source M) (cx_saga M) snapshot) n pc (cw_world c) (cw_store c) = (pc', w', s') \<Longrightarrow>
   cross_reachable M c0 (c\<lparr>cw_world := w', cw_store := s', cw_remove := Some pc'\<rparr>)"
proof (induction n arbitrary: c pc)
  case 0
  then show ?case by (cases c) simp
next
  case (Suc n)
  obtain p w s where st: "remove_step (cx_lib M) (cx_source M) (cx_saga M) snapshot pc (cw_world c) (cw_store c) = (p, w, s)"
    using prod_cases3 by blast
  have "crosses M (c\<lparr>cw_remove := Some pc\<rparr>) (c\<lparr>cw_remove := Some pc\<rparr>\<lparr>cw_world := w, cw_store := s, cw_remove := Some p\<rparr>)"
    by (rule remove_goes) (use st in simp_all)
  with Suc(2) have "cross_reachable M c0 ((c\<lparr>cw_world := w, cw_store := s\<rparr>)\<lparr>cw_remove := Some p\<rparr>)"
    by (auto dest: further)
  from Suc(1) [OF this] Suc(3) st show ?case by simp
qed

lemma cross_at_copy:
  assumes "cross_reachable M c0 (cross_at w s)"
    and "copy_saga (cx_lib M) (cx_target M) w s (cx_saga M) = (w', s', out)"
  shows "cross_reachable M c0 (cross_at w' s')"
proof -
  have "cross_reachable M c0 ((cross_at w s)\<lparr>cw_copy := Some CopyRead\<rparr>)"
    using assms(1) by (rule further) (rule copy_begins, simp add: cross_at_def)
  from crosses_copy_goes [OF this, of 5] assms(2)
  have "cross_reachable M c0 ((cross_at w s)\<lparr>cw_world := w', cw_store := s', cw_copy := Some (CopyOver out)\<rparr>)"
    by (simp add: cross_at_def copy_runs)
  then have "cross_reachable M c0 ((cross_at w s)\<lparr>cw_world := w', cw_store := s', cw_copy := Some (CopyOver out), cw_copy := None\<rparr>)"
    by (rule further) (rule copy_ends, simp)
  then show ?thesis by (simp add: cross_at_def)
qed

lemma cross_at_remove:
  assumes "cross_reachable M c0 (cross_at w s)"
    and "remove_saga (cx_lib M) (cx_source M) w s (cx_saga M) snapshot = (w', s', out)"
  shows "cross_reachable M c0 (cross_at w' s')"
proof -
  have "cross_reachable M c0 ((cross_at w s)\<lparr>cw_remove := Some RemoveRead\<rparr>)"
    using assms(1) by (rule further) (rule remove_begins, simp add: cross_at_def)
  from crosses_remove_goes [OF this, of snapshot 4] assms(2)
  have "cross_reachable M c0 ((cross_at w s)\<lparr>cw_world := w', cw_store := s', cw_remove := Some (RemoveOver out)\<rparr>)"
    by (simp add: cross_at_def remove_runs)
  then have "cross_reachable M c0 ((cross_at w s)\<lparr>cw_world := w', cw_store := s', cw_remove := Some (RemoveOver out), cw_remove := None\<rparr>)"
    by (rule further) (rule remove_ends, simp)
  then show ?thesis by (simp add: cross_at_def)
qed

lemma cross_demo_done:
  "cross_reachable cross_demo (cross_at cross_servers cross_moved)
     (cross_at (fst (cross_removed False)) (fst (snd (cross_removed False))))"
proof -
  have "cross_reachable cross_demo (cross_at cross_servers cross_moved) (cross_at (fst cross_copied) (fst (snd cross_copied)))"
    by (rule cross_at_copy [OF start, where out = "snd (snd cross_copied)"])
      (simp add: cross_demo_def cross_copied_def)
  then show ?thesis
    by (rule cross_at_remove [where out = "snd (snd (cross_removed False))" and snapshot = "[''s'']"])
      (simp add: cross_demo_def cross_removed_def)
qed


theorem cross_copy_replay_witness:
  "\<exists>w' t g' uid. copy_saga cross_lib (side_backend False False) (fst cross_copied) cross_moved 1 = (w', t, Applied)
     \<and> side_on False w' = side_on False (fst cross_copied) \<and> get_saga t 1 = Some g' \<and> sg_confirmed g' = Some uid"
proof -
  from cross_moved_saga obtain g where g: "get_saga cross_moved 1 = Some g" "sg_phase g = PhaseCopying" "sg_rfc g = Some ''m''"
    by auto
  have p: "target_path cross_moved g = Some ''INBOX''" using cross_moved_path g(1) by simp
  have sea: "searches Some (side_backend False False) (side_on False)"
  proof -
    have "find (\<lambda>(i, raw, d). raw = rfc) (rev ms) \<noteq> None" if "(i, rfc, d) \<in> set ms"
      for i rfc d and ms :: "(remote_id \<times> string \<times> bool) list"
      using that by (auto simp: find_None_iff)
    then show ?thesis by (fastforce simp: searches_def side_backend_def side_on_def split: if_splits)
  qed
  have m: "(''n'', ''m'') \<in> side_on False (fst cross_copied) ''INBOX''"
    using cross_copied_run by (simp add: side_on_def side_get_def)
  from g(2) have "sg_phase g = PhaseCopying \<or> sg_phase g = PhaseUnconfirmed" by simp
  from cross_copy_replay [where mid = Some and B = "side_backend False False" and on = "side_on False"
      and s = cross_moved and i = 1 and g = g and path = "''INBOX''" and rfc = "''m''" and j = "''n''"
      and raw = "''m''" and w = "fst cross_copied" and L = cross_lib, OF side_server sea g(1) this p g(3) m refl]
  show ?thesis by (elim exE conjE) (intro exI conjI; assumption)
qed

theorem cross_cancel_withdraws_witness:
  "\<exists>t g'. cancel_one cross_moved (the (get_saga cross_moved 1)) = Inr t
     \<and> filter unsettled (o_queue (xs_ops cross_moved)) \<noteq> [] \<and> o_queue (xs_ops t) = []
     \<and> get_saga t 1 = Some g' \<and> sg_phase g' = PhaseAborted"
proof -
  from cross_moved_saga obtain g where g: "get_saga cross_moved 1 = Some g" "sg_phase g = PhaseCopying"
    "sg_source_message g = Some 1" "sg_target_message g = Some 2" by auto
  have q: "map (\<lambda>r. (q_id r, q_target r, unsettled r)) (o_queue (xs_ops cross_moved))
      = [(1, Message 2, True), (2, Message 1, True)]"
    and n: "o_next (xs_ops cross_moved) = 3" "map m_id (o_messages (xs_ops cross_moved)) = [1, 2]" by code_simp+
  from q obtain a b where ab: "o_queue (xs_ops cross_moved) = [a, b]" "q_id a = 1" "q_id b = 2"
    "q_target a = Message 2" "q_target b = Message 1" "unsettled a" "unsettled b" by auto
  have wf: "queue_wf (xs_ops cross_moved)" by (simp add: queue_wf_def ab n)
  have "\<exists>t g'. cancel_one cross_moved g = Inr t
    \<and> o_queue (xs_ops t) = filter (\<lambda>r. \<not> (unsettled r \<and> q_target r \<in> {Message 1, Message 2})) (o_queue (xs_ops cross_moved))
    \<and> get_saga t 1 = Some g' \<and> sg_phase g' = PhaseAborted"
    using cross_cancel_withdraws [OF wf g(1-4)] by auto
  then show ?thesis by (simp add: g(1) ab)
qed

definition is_retry :: "outcome \<Rightarrow> bool" where
  "is_retry r = (case r of Retry _ _ \<Rightarrow> True | _ \<Rightarrow> False)"


end
