(* ===== verification/Search_Date.thy ===== *)
theory Search_Date
  imports Rust_Str
begin

section \<open>Dates and sizes as people type them\<close>

text \<open>
  The looking-back half of \<open>crates/postio-search/src/date.rs\<close> (\<open>parse_date\<close>, what \<open>before:\<close>
  and \<open>after:\<close> read) and \<open>crates/postio-search/src/size.rs\<close>.  A \<open>NaiveDate\<close> is its year,
  month and day; which of these exist, and stepping back by days and months, are \<open>chrono\<close>'s
  and parameters here.  So are the Unicode tables: what is a letter and what is its lower
  case, for characters outside ASCII.
\<close>

record ymd =
  dt_year :: int
  dt_month :: nat
  dt_day :: nat

record search_lib =
  sx_valid :: "int \<Rightarrow> nat \<Rightarrow> nat \<Rightarrow> bool"  \<comment> \<open>\<open>NaiveDate::from_ymd_opt\<close> answers\<close>
  sx_sub_days :: "ymd \<Rightarrow> nat \<Rightarrow> ymd option"
  sx_sub_months :: "ymd \<Rightarrow> nat \<Rightarrow> ymd option"
  sx_days_between :: "ymd \<Rightarrow> ymd \<Rightarrow> int"  \<comment> \<open>\<open>(b - a).num_days()\<close>\<close>
  sx_alphabetic :: "string \<Rightarrow> bool"  \<comment> \<open>of a character outside ASCII\<close>
  sx_alphanumeric :: "string \<Rightarrow> bool"  \<comment> \<open>of a character outside ASCII\<close>
  sx_lower_char :: "string \<Rightarrow> string"  \<comment> \<open>of a character outside ASCII\<close>
  sx_lower :: "string \<Rightarrow> string"  \<comment> \<open>\<open>str::to_lowercase\<close>\<close>
  sx_decode_header :: "string \<Rightarrow> string"  \<comment> \<open>\<open>mime::decode_header_text\<close>\<close>

definition from_ymd :: "search_lib \<Rightarrow> int \<Rightarrow> nat \<Rightarrow> nat \<Rightarrow> ymd option" where
  "from_ymd L y m d = (if sx_valid L y m d then Some \<lparr>dt_year = y, dt_month = m, dt_day = d\<rparr> else None)"

definition date_le :: "ymd \<Rightarrow> ymd \<Rightarrow> bool" where
  "date_le a b \<longleftrightarrow>
     dt_year a < dt_year b
     \<or> (dt_year a = dt_year b \<and> (dt_month a < dt_month b \<or> (dt_month a = dt_month b \<and> dt_day a \<le> dt_day b)))"

fun is_ascii_char :: "string \<Rightarrow> bool" where
  "is_ascii_char [c] \<longleftrightarrow> byte c < 128"
| "is_ascii_char _ \<longleftrightarrow> False"

definition is_ascii_letter :: "string \<Rightarrow> bool" where
  "is_ascii_letter s \<longleftrightarrow> (case s of [c] \<Rightarrow> (65 \<le> byte c \<and> byte c \<le> 90) \<or> (97 \<le> byte c \<and> byte c \<le> 122) | _ \<Rightarrow> False)"

definition is_alphabetic :: "search_lib \<Rightarrow> string \<Rightarrow> bool" where
  "is_alphabetic L c \<longleftrightarrow> (if is_ascii_char c then is_ascii_letter c else sx_alphabetic L c)"

definition lower_char :: "search_lib \<Rightarrow> string \<Rightarrow> string" where
  "lower_char L c = (if is_ascii_char c then lower_ascii c else sx_lower_char L c)"

text \<open>\<open>str::parse\<close> of a run of ASCII digits as \<open>u32\<close>: the leading zeros count, an overflow is an error.\<close>

definition digit_value :: "char \<Rightarrow> nat" where "digit_value c = byte c - 48"

definition digits_value :: "string \<Rightarrow> nat" where
  "digits_value s = foldl (\<lambda>n c. 10 * n + digit_value c) 0 s"

definition parse_u32 :: "string \<Rightarrow> nat option" where
  "parse_u32 s = (if s \<noteq> [] \<and> list_all is_digit s \<and> digits_value s \<le> u32_max then Some (digits_value s) else None)"


subsection \<open>Relative dates\<close>

text \<open>
  The count is a \<open>u32\<close> and so is its product with 3 or 12, which wraps in the profiles the
  program ships in (a development build panics there).
\<close>

definition mul_u32 :: "nat \<Rightarrow> nat \<Rightarrow> nat" where
  "mul_u32 a b = (a * b) mod 2 ^ 32"

definition compact_date :: "search_lib \<Rightarrow> string \<Rightarrow> string" where
  "compact_date L value =
     concat (map (lower_char L) (filter (\<lambda>c. \<not> is_space c \<and> c \<noteq> ''-'' \<and> c \<noteq> ''_'') (utf8_chars value)))"

fun strip_first :: "string list \<Rightarrow> string \<Rightarrow> string" where
  "strip_first [] s = s"
| "strip_first (p # ps) s = (case strip_prefix p s of Some r \<Rightarrow> r | None \<Rightarrow> strip_first ps s)"

definition relative :: "search_lib \<Rightarrow> string \<Rightarrow> ymd \<Rightarrow> ymd option" where
  "relative L value today =
     (let compact = compact_date L value in
      if compact = ''today'' \<or> compact = ''now'' then Some today
      else if compact = ''yesterday'' then sx_sub_days L today 1
      else
        (let rest = (case strip_suffix ''ago'' compact of Some r \<Rightarrow> r | None \<Rightarrow> compact);
             rest = strip_first [''last'', ''past'', ''previous''] rest;
             ds = takeWhile is_digit rest;
             u = drop (length ds) rest in
         case (if ds = [] then Some 1 else parse_u32 ds) of
           None \<Rightarrow> None
         | Some count \<Rightarrow>
             if u \<in> {''d'', ''day'', ''days''} then sx_sub_days L today count
             else if u \<in> {''w'', ''week'', ''weeks''} then sx_sub_days L today (count * 7)
             else if u \<in> {''m'', ''month'', ''months''} then sx_sub_months L today count
             else if u \<in> {''q'', ''quarter'', ''quarters''} then sx_sub_months L today (mul_u32 count 3)
             else if u \<in> {''y'', ''year'', ''years''} then sx_sub_months L today (mul_u32 count 12)
             else None))"


subsection \<open>Calendar dates\<close>

datatype run = WordRun string | NumberRun nat

definition month_from_name :: "string \<Rightarrow> nat option" where
  "month_from_name name =
     (if name \<in> {''jan'', ''january''} then Some 1
      else if name \<in> {''feb'', ''february''} then Some 2
      else if name \<in> {''mar'', ''march''} then Some 3
      else if name \<in> {''apr'', ''april''} then Some 4
      else if name = ''may'' then Some 5
      else if name \<in> {''jun'', ''june''} then Some 6
      else if name \<in> {''jul'', ''july''} then Some 7
      else if name \<in> {''aug'', ''august''} then Some 8
      else if name \<in> {''sep'', ''sept'', ''september''} then Some 9
      else if name \<in> {''oct'', ''october''} then Some 10
      else if name \<in> {''nov'', ''november''} then Some 11
      else if name \<in> {''dec'', ''december''} then Some 12
      else None)"

definition flush_word :: "string \<Rightarrow> run list \<Rightarrow> run list" where
  "flush_word word runs = (if word = [] then runs else runs @ [WordRun word])"

definition flush_number :: "string \<Rightarrow> run list \<Rightarrow> run list option" where
  "flush_number number runs =
     (if number = [] then Some runs
      else (case parse_u32 number of None \<Rightarrow> None | Some n \<Rightarrow> Some (runs @ [NumberRun n])))"

definition is_date_separator :: "string \<Rightarrow> bool" where
  "is_date_separator c \<longleftrightarrow> c \<in> {''-'', ''/'', ''.'', '','', '' '', [CHR 0x09], ''_''}"

text \<open>One character: the word, the number and the runs so far, or the early \<open>None\<close>.\<close>

definition split_char :: "search_lib \<Rightarrow> string \<times> string \<times> run list \<Rightarrow> string \<Rightarrow> (string \<times> string \<times> run list) option" where
  "split_char L acc ch =
     (case acc of (word, number, runs) \<Rightarrow>
       (case (if length ch = 1 \<and> is_digit (hd ch) then
                Some ([], number @ ch, flush_word word runs)
              else if is_alphabetic L ch then
                map_option (\<lambda>runs. (word @ lower_char L ch, [], runs)) (flush_number number runs)
              else if is_date_separator ch then
                map_option (\<lambda>runs. ([], [], runs)) (flush_number number (flush_word word runs))
              else None) of
          None \<Rightarrow> None
        | Some (word, number, runs) \<Rightarrow> if 4 < length runs then None else Some (word, number, runs)))"

fun split_each :: "search_lib \<Rightarrow> string \<times> string \<times> run list \<Rightarrow> string list \<Rightarrow> (string \<times> string \<times> run list) option" where
  "split_each L acc [] = Some acc"
| "split_each L acc (c # cs) = (case split_char L acc c of None \<Rightarrow> None | Some acc \<Rightarrow> split_each L acc cs)"

definition split_runs :: "search_lib \<Rightarrow> string \<Rightarrow> run list option" where
  "split_runs L value =
     (case split_each L ([], [], []) (utf8_chars value) of
        None \<Rightarrow> None
      | Some (word, number, runs) \<Rightarrow>
          (case flush_number number (flush_word word runs) of
             None \<Rightarrow> None
           | Some runs \<Rightarrow> if runs = [] then None else Some runs))"

definition infer_year :: "search_lib \<Rightarrow> nat \<Rightarrow> nat \<Rightarrow> ymd \<Rightarrow> ymd option" where
  "infer_year L month day today =
     (case from_ymd L (dt_year today) month day of
        None \<Rightarrow> None
      | Some candidate \<Rightarrow>
          if date_le candidate today then Some candidate else from_ymd L (dt_year today - 1) month day)"

text \<open>\<open>as i32\<close> of a \<open>u32\<close> wraps.\<close>

definition as_i32 :: "nat \<Rightarrow> int" where
  "as_i32 n = (if n < 2 ^ 31 then int n else int n - 2 ^ 32)"

definition full_year :: "nat \<Rightarrow> int" where
  "full_year year = (if year < 100 then 2000 + as_i32 year else as_i32 year)"

fun numeric_date :: "search_lib \<Rightarrow> nat list \<Rightarrow> ymd \<Rightarrow> ymd option" where
  "numeric_date L [packed] today =
     (if 10000101 \<le> packed \<and> packed \<le> 99991231 then
        from_ymd L (as_i32 (packed div 10000)) (packed div 100 mod 100) (packed mod 100)
      else None)"
| "numeric_date L [a, b] today =
     (if 1000 \<le> a then from_ymd L (as_i32 a) b 1 else infer_year L a b today)"
| "numeric_date L [a, b, c] today =
     (if 1000 \<le> a then from_ymd L (as_i32 a) b c else from_ymd L (full_year c) a b)"
| "numeric_date L _ today = None"

definition run_words :: "run list \<Rightarrow> string list" where
  "run_words = List.map_filter (\<lambda>r. case r of WordRun w \<Rightarrow> Some w | NumberRun _ \<Rightarrow> None)"

definition run_numbers :: "run list \<Rightarrow> nat list" where
  "run_numbers = List.map_filter (\<lambda>r. case r of NumberRun n \<Rightarrow> Some n | WordRun _ \<Rightarrow> None)"

definition month_date :: "search_lib \<Rightarrow> nat \<Rightarrow> nat list \<Rightarrow> ymd \<Rightarrow> ymd option" where
  "month_date L month numbers today =
     (case numbers of
        [] \<Rightarrow> infer_year L month 1 today
      | [n] \<Rightarrow> if 1000 \<le> n then from_ymd L (as_i32 n) month 1 else infer_year L month n today
      | [a, b] \<Rightarrow>
          (let (day, year) = (if 31 < a then (b, a) else (a, b)) in from_ymd L (full_year year) month day)
      | _ \<Rightarrow> None)"

definition calendar :: "search_lib \<Rightarrow> string \<Rightarrow> ymd \<Rightarrow> ymd option" where
  "calendar L value today =
     (case split_runs L value of
        None \<Rightarrow> None
      | Some runs \<Rightarrow>
          (case run_words runs of
             [] \<Rightarrow> numeric_date L (run_numbers runs) today
           | [w] \<Rightarrow> (case month_from_name w of None \<Rightarrow> None | Some month \<Rightarrow> month_date L month (run_numbers runs) today)
           | _ \<Rightarrow> None))"

definition parse_date :: "search_lib \<Rightarrow> string \<Rightarrow> ymd \<Rightarrow> ymd option" where
  "parse_date L value today =
     (let value = trim value in
      if value = [] then None
      else (case relative L value today of Some d \<Rightarrow> Some d | None \<Rightarrow> calendar L value today))"


subsection \<open>Sizes\<close>

text \<open>
  \<open>f64\<close>: a number is \<open>m \<cdot> 2\<^sup>e\<close> with \<open>m < 2\<^sup>53\<close>, as a numerator over a power of two.  Reading a
  decimal \<open>n / 10\<^sup>k\<close> rounds it to the nearest such number, ties to the even \<open>m\<close>; sizes are
  not negative and far from the ends of the exponent's range, which the 20 digits below
  \<open>u64::MAX\<close> cannot reach.  Multiplying by a power of two is exact.
\<close>

definition half_even :: "nat \<Rightarrow> nat \<Rightarrow> nat" where
  "half_even n d =
     (let q = n div d; r = n mod d in
      if 2 * r < d \<or> (2 * r = d \<and> even q) then q else q + 1)"

text \<open>The least \<open>e\<close> with \<open>n / (d \<cdot> 2\<^sup>e) < 2\<^sup>53\<close>, and the bits a fraction lacks.\<close>

function shrink_bits :: "nat \<Rightarrow> nat \<Rightarrow> nat" where
  "shrink_bits n d = (if d = 0 \<or> n < d * 2 ^ 53 then 0 else 1 + shrink_bits n (2 * d))"
  by pat_completeness auto
termination
  by (relation "measure (\<lambda>(n, d). n - d)") (auto simp: not_less intro: diff_less_mono2)

function grow_bits :: "nat \<Rightarrow> nat \<Rightarrow> nat" where
  "grow_bits n d = (if n = 0 \<or> d * 2 ^ 52 \<le> n then 0 else 1 + grow_bits (2 * n) d)"
  by pat_completeness auto
termination
  by (relation "measure (\<lambda>(n, d). d * 2 ^ 52 - n)") (auto intro: diff_less_mono2)

declare shrink_bits.simps [simp del] grow_bits.simps [simp del]

text \<open>The nearest \<open>f64\<close> to \<open>n / d\<close>, as a numerator and a denominator.\<close>

definition f64_of :: "nat \<Rightarrow> nat \<Rightarrow> nat \<times> nat" where
  "f64_of n d =
     (let s = shrink_bits n d; g = (if s = 0 then grow_bits n d else 0) in
      (half_even (n * 2 ^ g) (d * 2 ^ s) * 2 ^ s, 2 ^ g))"

definition parse_f64 :: "string \<Rightarrow> (nat \<times> nat) option" where
  "parse_f64 s =
     (case split_on (CHR ''.'') s of
        [w] \<Rightarrow> if w \<noteq> [] \<and> list_all is_digit w then Some (f64_of (digits_value w) 1) else None
      | [w, f] \<Rightarrow>
          if (w \<noteq> [] \<or> f \<noteq> []) \<and> list_all is_digit w \<and> list_all is_digit f
          then Some (f64_of (digits_value (w @ f)) (10 ^ length f)) else None
      | _ \<Rightarrow> None)"

definition size_multiplier :: "string \<Rightarrow> nat option" where
  "size_multiplier suffix =
     (let s = lower_ascii suffix in
      if s \<in> {'''', ''b'', ''byte'', ''bytes''} then Some 1
      else if s \<in> {''k'', ''kb'', ''kib''} then Some (2 ^ 10)
      else if s \<in> {''m'', ''mb'', ''mib''} then Some (2 ^ 20)
      else if s \<in> {''g'', ''gb'', ''gib''} then Some (2 ^ 30)
      else None)"

definition parse_size :: "string \<Rightarrow> nat option" where
  "parse_size value =
     (let value = trim value in
      if value = [] then None
      else
        (let number = takeWhile (\<lambda>c. is_digit c \<or> c = CHR ''.'') value;
             suffix = drop (length number) value in
         if number = [] \<or> number = ''.'' then None
         else (case size_multiplier suffix of
           None \<Rightarrow> None
         | Some multiplier \<Rightarrow>
             (case parse_f64 number of
                None \<Rightarrow> None
              | Some (n, d) \<Rightarrow>
                  if 2 ^ 64 * d < n * multiplier then None
                  else Some (min u64_max ((2 * n * multiplier + d) div (2 * d)))))))"

end
