(* ===== verification/Search_Query.thy ===== *)
theory Search_Query
  imports Search_Date
begin

section \<open>The search language\<close>

text \<open>
  \<open>crates/postio-search/src/query.rs\<close>, what a parsed query is and the one spelling of a
  clause, and \<open>crates/postio-search/src/parser.rs\<close>, the parser: a total function from the
  text and today's date.  Offsets count bytes, as the code's do.
\<close>

subsection \<open>Operators and filters\<close>

datatype search_field =
    FieldFrom | FieldTo | FieldSubject | FieldHas | FieldIs | FieldBefore | FieldAfter | FieldIn
  | FieldFilename | FieldLarger | FieldSmaller | FieldList | FieldAccount | FieldWith | FieldGroup
  | FieldHeader | FieldLabel

fun field_keyword :: "search_field \<Rightarrow> string" where
  "field_keyword FieldFrom = ''from''"
| "field_keyword FieldTo = ''to''"
| "field_keyword FieldSubject = ''subject''"
| "field_keyword FieldHas = ''has''"
| "field_keyword FieldIs = ''is''"
| "field_keyword FieldBefore = ''before''"
| "field_keyword FieldAfter = ''after''"
| "field_keyword FieldIn = ''in''"
| "field_keyword FieldFilename = ''filename''"
| "field_keyword FieldLarger = ''larger''"
| "field_keyword FieldSmaller = ''smaller''"
| "field_keyword FieldList = ''list''"
| "field_keyword FieldAccount = ''account''"
| "field_keyword FieldWith = ''with''"
| "field_keyword FieldGroup = ''group''"
| "field_keyword FieldHeader = ''header''"
| "field_keyword FieldLabel = ''label''"

definition field_parse :: "string \<Rightarrow> search_field option" where
  "field_parse keyword =
     (let k = lower_ascii keyword in
      if k = ''from'' then Some FieldFrom
      else if k = ''to'' then Some FieldTo
      else if k \<in> {''subject'', ''title''} then Some FieldSubject
      else if k = ''has'' then Some FieldHas
      else if k = ''is'' then Some FieldIs
      else if k = ''before'' then Some FieldBefore
      else if k \<in> {''after'', ''since''} then Some FieldAfter
      else if k \<in> {''in'', ''folder'', ''mailbox''} then Some FieldIn
      else if k \<in> {''filename'', ''file'', ''attachment''} then Some FieldFilename
      else if k \<in> {''larger'', ''bigger'', ''size''} then Some FieldLarger
      else if k = ''smaller'' then Some FieldSmaller
      else if k = ''list'' then Some FieldList
      else if k = ''account'' then Some FieldAccount
      else if k = ''with'' then Some FieldWith
      else if k = ''group'' then Some FieldGroup
      else if k = ''header'' then Some FieldHeader
      else if k = ''label'' then Some FieldLabel
      else None)"

definition takes_free_text :: "search_field \<Rightarrow> bool" where
  "takes_free_text f \<longleftrightarrow>
     f \<in> {FieldFrom, FieldTo, FieldSubject, FieldIn, FieldFilename, FieldList, FieldAccount, FieldWith,
          FieldGroup, FieldHeader, FieldLabel}"

definition takes_set :: "search_field \<Rightarrow> bool" where
  "takes_set f \<longleftrightarrow> takes_free_text f \<and> f \<noteq> FieldHeader"

datatype search_state = StateUnread | StateRead | StateFlagged | StateBulk | StateAutomated

datatype search_filter =
    ByFrom string
  | ByTo string
  | BySubject string
  | ByIn string
  | ByFilename string
  | ByList string
  | ByAccount string
  | ByWith "string list"
  | ByGroup string
  | ByHeader string "string option"
  | HasAttachment
  | ByLabel string
  | HasAction
  | ByIs search_state
  | ByAfter ymd
  | ByBefore ymd
  | ByLarger nat
  | BySmaller nat
  | ByAnyOf "search_filter list"

text \<open>The field of a set is its first member's.\<close>

fun filter_field :: "search_filter \<Rightarrow> search_field" where
  "filter_field (ByFrom _) = FieldFrom"
| "filter_field (ByTo _) = FieldTo"
| "filter_field (BySubject _) = FieldSubject"
| "filter_field (ByIn _) = FieldIn"
| "filter_field (ByFilename _) = FieldFilename"
| "filter_field (ByList _) = FieldList"
| "filter_field (ByAccount _) = FieldAccount"
| "filter_field (ByWith _) = FieldWith"
| "filter_field (ByGroup _) = FieldGroup"
| "filter_field (ByHeader _ _) = FieldHeader"
| "filter_field HasAttachment = FieldHas"
| "filter_field (ByLabel _) = FieldLabel"
| "filter_field HasAction = FieldHas"
| "filter_field (ByIs _) = FieldIs"
| "filter_field (ByAfter _) = FieldAfter"
| "filter_field (ByBefore _) = FieldBefore"
| "filter_field (ByLarger _) = FieldLarger"
| "filter_field (BySmaller _) = FieldSmaller"
| "filter_field (ByAnyOf (m # _)) = filter_field m"
| "filter_field (ByAnyOf []) = FieldFrom"  \<comment> \<open>no set is empty\<close>

fun is_any_of :: "search_filter \<Rightarrow> bool" where
  "is_any_of (ByAnyOf _) \<longleftrightarrow> True"
| "is_any_of _ \<longleftrightarrow> False"

definition any_of_new :: "search_filter list \<Rightarrow> search_filter list option" where
  "any_of_new members =
     (case members of
        [] \<Rightarrow> None
      | m # _ \<Rightarrow>
          if 2 \<le> length members \<and> takes_set (filter_field m)
            \<and> list_all (\<lambda>x. \<not> is_any_of x \<and> filter_field x = filter_field m) members
          then Some members else None)"

fun alternatives :: "search_filter \<Rightarrow> search_filter list" where
  "alternatives (ByAnyOf ms) = ms"
| "alternatives f = [f]"

definition any_of :: "search_filter list \<Rightarrow> search_filter option" where
  "any_of members =
     (case members of
        [only] \<Rightarrow> if is_any_of only then None else Some only
      | _ \<Rightarrow> map_option ByAnyOf (any_of_new members))"

record search_clause =
  cl_negated :: bool
  cl_filter :: search_filter

record search_partial =
  sp_negated :: bool
  sp_field :: search_field
  sp_value :: string

record text_term =
  tt_negated :: bool
  tt_value :: string
  tt_quoted :: bool

datatype token_kind = FilterToken search_clause | PartialToken search_partial | TextToken text_term

record search_token =
  tk_start :: nat
  tk_end :: nat
  tk_raw :: string
  tk_kind :: token_kind

definition token_field :: "search_token \<Rightarrow> search_field option" where
  "token_field t =
     (case tk_kind t of
        FilterToken c \<Rightarrow> Some (filter_field (cl_filter c))
      | PartialToken p \<Rightarrow> Some (sp_field p)
      | TextToken _ \<Rightarrow> None)"

definition token_negated :: "search_token \<Rightarrow> bool" where
  "token_negated t =
     (case tk_kind t of FilterToken c \<Rightarrow> cl_negated c | PartialToken p \<Rightarrow> sp_negated p | TextToken x \<Rightarrow> tt_negated x)"


subsection \<open>The one spelling of a clause\<close>

definition quote_value :: "string \<Rightarrow> string" where
  "quote_value value =
     (if value = [] \<or> list_ex is_space (utf8_chars value) \<or> CHR ''{'' \<in> set value \<or> CHR ''}'' \<in> set value
      then [CHR 0x22] @ value @ [CHR 0x22] else value)"

definition spell_size :: "nat \<Rightarrow> string" where
  "spell_size n =
     (case find (\<lambda>(u, _). n \<noteq> 0 \<and> u dvd n) [(2 ^ 30, ''G''), (2 ^ 20, ''M''), (2 ^ 10, ''K'')] of
        Some (u, suffix) \<Rightarrow> dec (n div u) @ suffix
      | None \<Rightarrow> dec n)"

text \<open>\<open>format("%Y-%m-%d")\<close>: the year has four digits, more with a sign.\<close>

definition pad :: "nat \<Rightarrow> nat \<Rightarrow> string" where
  "pad w n = replicate (w - length (dec n)) (CHR ''0'') @ dec n"

definition format_date :: "ymd \<Rightarrow> string" where
  "format_date d =
     (let y = dt_year d in
      (if y < 0 then ''-'' @ pad 4 (nat (- y)) else if 9999 < y then ''+'' @ dec (nat y) else pad 4 (nat y))
      @ ''-'' @ pad 2 (dt_month d) @ ''-'' @ pad 2 (dt_day d))"

fun state_word :: "search_state \<Rightarrow> string" where
  "state_word StateUnread = ''unread''"
| "state_word StateRead = ''read''"
| "state_word StateFlagged = ''flagged''"
| "state_word StateBulk = ''bulk''"
| "state_word StateAutomated = ''automated''"

fun spell_filter :: "search_filter \<Rightarrow> string" where
  "spell_filter (ByFrom v) = ''from:'' @ quote_value v"
| "spell_filter (ByTo v) = ''to:'' @ quote_value v"
| "spell_filter (BySubject v) = ''subject:'' @ quote_value v"
| "spell_filter (ByIn v) = ''in:'' @ quote_value v"
| "spell_filter (ByFilename v) = ''filename:'' @ quote_value v"
| "spell_filter (ByList v) = ''list:'' @ quote_value v"
| "spell_filter (ByAccount v) = ''account:'' @ quote_value v"
| "spell_filter (ByGroup v) = ''group:'' @ quote_value v"
| "spell_filter (ByLabel v) = ''label:'' @ quote_value v"
| "spell_filter (ByHeader name None) = ''header:'' @ name"
| "spell_filter (ByHeader name (Some v)) = ''header:'' @ name @ ''='' @ quote_value v"
| "spell_filter (ByWith addresses) = ''with:'' @ quote_value (intercalate '','' addresses)"
| "spell_filter HasAttachment = ''has:attachment''"
| "spell_filter HasAction = ''has:action''"
| "spell_filter (ByIs st) = ''is:'' @ state_word st"
| "spell_filter (ByAfter d) = ''after:'' @ format_date d"
| "spell_filter (ByBefore d) = ''before:'' @ format_date d"
| "spell_filter (ByLarger n) = ''larger:'' @ spell_size n"
| "spell_filter (BySmaller n) = ''smaller:'' @ spell_size n"
| "spell_filter (ByAnyOf ms) =
     field_keyword (filter_field (ByAnyOf ms)) @ '':{''
       @ intercalate '' ''
           (map (\<lambda>m. case split_once (CHR '':'') (spell_filter m) of Some (_, v) \<Rightarrow> v | None \<Rightarrow> spell_filter m) ms)
       @ ''}''"

definition spell :: "search_clause \<Rightarrow> string" where
  "spell c = (if cl_negated c then ''-'' @ spell_filter (cl_filter c) else spell_filter (cl_filter c))"


subsection \<open>Words\<close>

definition next_word_start :: "string \<Rightarrow> nat \<Rightarrow> nat option" where
  "next_word_start input from =
     (let rest = drop from input; t = trim_start rest in
      if t = [] then None else Some (from + (length rest - length t)))"

definition opens_set :: "string \<Rightarrow> bool" where
  "opens_set seen =
     (let body = (case strip_prefix ''-'' seen of Some r \<Rightarrow> r | None \<Rightarrow> seen) in
      case strip_suffix '':'' body of
        None \<Rightarrow> False
      | Some keyword \<Rightarrow>
          CHR '':'' \<notin> set keyword \<and> CHR 0x22 \<notin> set keyword \<and> field_parse keyword \<noteq> None)"

text \<open>\<open>scan\<close>: what is before, whether a quote and a set are open, what is left.\<close>

fun scan_from :: "string \<Rightarrow> bool \<Rightarrow> bool \<Rightarrow> string \<Rightarrow> nat option \<times> bool \<times> bool" where
  "scan_from seen q st [] = (None, q, st)"
| "scan_from seen q st (c # r) =
     (if c = CHR 0x22 then scan_from (seen @ [c]) (\<not> q) st r
      else if c = CHR ''{'' \<and> \<not> q \<and> \<not> st \<and> opens_set seen then scan_from (seen @ [c]) q True r
      else if c = CHR ''}'' \<and> \<not> q \<and> st then scan_from (seen @ [c]) q False r
      else if 0 < ws_len (bytes (c # r)) \<and> \<not> q \<and> \<not> st then (Some (length seen), q, st)
      else scan_from (seen @ [c]) q st r)"

definition scan :: "string \<Rightarrow> nat option \<times> bool \<times> bool" where
  "scan word = scan_from [] False False word"

definition word_end :: "string \<Rightarrow> nat \<Rightarrow> nat" where
  "word_end input start =
     (case fst (scan (drop start input)) of Some e \<Rightarrow> start + e | None \<Rightarrow> length input)"

definition leaves_set_open :: "string \<Rightarrow> bool" where
  "leaves_set_open word = snd (snd (scan word))"


subsection \<open>Classifying a word\<close>

text \<open>The first colon, unless a quote opened before it.\<close>

fun split_operator :: "string \<Rightarrow> (string \<times> string) option" where
  "split_operator [] = None"
| "split_operator (c # cs) =
     (if c = CHR 0x22 then None
      else if c = CHR '':'' then Some ([], cs)
      else map_option (\<lambda>(k, v). (c # k, v)) (split_operator cs))"

definition normalize_name :: "string \<Rightarrow> string" where
  "normalize_name name = lower_ascii (trim name)"

text \<open>\<open>truncate\<close> at a character boundary.\<close>

definition value_limit :: nat where "value_limit = 512"

fun boundary :: "string \<Rightarrow> nat \<Rightarrow> nat" where
  "boundary s 0 = 0"
| "boundary s (Suc n) =
     (if Suc n = length s \<or> (Suc n < length s \<and> \<not> is_continuation (s ! Suc n)) then Suc n else boundary s n)"

definition normalize_value :: "search_lib \<Rightarrow> string \<Rightarrow> string" where
  "normalize_value L value =
     (let collapsed = intercalate '' '' (split_whitespace (sx_decode_header L value)) in
      if value_limit < length collapsed then take (boundary collapsed value_limit) collapsed else collapsed)"

definition header_token :: "search_lib \<Rightarrow> bool \<Rightarrow> string \<Rightarrow> token_kind" where
  "header_token L negated raw =
     (let (name, value) = (case split_once (CHR ''='') raw of Some (n, v) \<Rightarrow> (n, Some v) | None \<Rightarrow> (raw, None));
          name = normalize_name (trim_quotes name) in
      if name = [] then PartialToken \<lparr>sp_negated = negated, sp_field = FieldHeader, sp_value = raw\<rparr>
      else
        (let value = (case value of
               None \<Rightarrow> None
             | Some v \<Rightarrow> (let v = normalize_value L (trim_quotes v) in if v = [] then None else Some v)) in
         FilterToken \<lparr>cl_negated = negated, cl_filter = ByHeader name value\<rparr>))"

text \<open>The operators whose value is one value.\<close>

definition one_value :: "search_lib \<Rightarrow> ymd \<Rightarrow> search_field \<Rightarrow> string \<Rightarrow> search_filter option" where
  "one_value L today field value =
     (case field of
        FieldFrom \<Rightarrow> Some (ByFrom value)
      | FieldTo \<Rightarrow> Some (ByTo value)
      | FieldSubject \<Rightarrow> Some (BySubject value)
      | FieldIn \<Rightarrow> Some (ByIn value)
      | FieldFilename \<Rightarrow> Some (ByFilename value)
      | FieldList \<Rightarrow> Some (ByList value)
      | FieldAccount \<Rightarrow> Some (ByAccount value)
      | FieldGroup \<Rightarrow> Some (ByGroup value)
      | FieldLabel \<Rightarrow> Some (ByLabel value)
      | FieldWith \<Rightarrow>
          (let addresses = filter (\<lambda>a. a \<noteq> []) (map trim (split_on (CHR '','') value)) in
           if addresses = [] then None else Some (ByWith addresses))
      | FieldHas \<Rightarrow>
          (let v = lower_ascii value in
           if v \<in> {''attach'', ''attachment'', ''attachments'', ''file'', ''files''} then Some HasAttachment
           else if v \<in> {''action'', ''actions''} then Some HasAction
           else None)
      | FieldIs \<Rightarrow>
          (let v = lower_ascii value in
           if v \<in> {''unread'', ''new''} then Some (ByIs StateUnread)
           else if v \<in> {''read'', ''seen''} then Some (ByIs StateRead)
           else if v \<in> {''flagged'', ''starred'', ''star''} then Some (ByIs StateFlagged)
           else if v = ''bulk'' then Some (ByIs StateBulk)
           else if v = ''automated'' then Some (ByIs StateAutomated)
           else None)
      | FieldAfter \<Rightarrow> map_option ByAfter (parse_date L value today)
      | FieldBefore \<Rightarrow> map_option ByBefore (parse_date L value today)
      | FieldLarger \<Rightarrow> map_option ByLarger (parse_size value)
      | FieldSmaller \<Rightarrow> map_option BySmaller (parse_size value)
      | FieldHeader \<Rightarrow> None)"  \<comment> \<open>unreachable: handled before\<close>

definition plain_operator :: "search_lib \<Rightarrow> ymd \<Rightarrow> bool \<Rightarrow> search_field \<Rightarrow> string \<Rightarrow> token_kind" where
  "plain_operator L today negated field raw =
     (let value = trim_quotes raw;
          partial = PartialToken \<lparr>sp_negated = negated, sp_field = field, sp_value = value\<rparr> in
      if value = [] then partial
      else (case one_value L today field value of
              Some f \<Rightarrow> FilterToken \<lparr>cl_negated = negated, cl_filter = f\<rparr>
            | None \<Rightarrow> partial))"


subsection \<open>Sets\<close>

fun closes_early :: "bool \<Rightarrow> string \<Rightarrow> bool" where
  "closes_early q [] = False"
| "closes_early q (c # cs) =
     (let q = (if c = CHR 0x22 then \<not> q else q) in (c = CHR ''}'' \<and> \<not> q) \<or> closes_early q cs)"

definition inner_closes_early :: "string \<Rightarrow> bool" where
  "inner_closes_early inner = closes_early False inner"

fun member_end :: "bool \<Rightarrow> string \<Rightarrow> nat" where
  "member_end q [] = 0"
| "member_end q (c # cs) =
     (if c = CHR 0x22 then 1 + member_end (\<not> q) cs
      else if \<not> q \<and> 0 < ws_len (bytes (c # cs)) then 0
      else 1 + member_end q cs)"

definition inner_word_end :: "string \<Rightarrow> nat \<Rightarrow> nat" where
  "inner_word_end inner start = start + member_end False (drop start inner)"

lemma next_word_start_bounds:
  assumes "next_word_start s from = Some start"
  shows "from \<le> start" "start < length s" "trim_start (drop start s) = drop start s"
    "0 = ws_len (bytes (drop start s))"
proof -
  define rest where "rest = drop from s"
  from trim_start_drop [of rest] obtain n where n: "trim_start rest = drop n rest" "n \<le> length rest" by auto
  from assms have t: "trim_start rest \<noteq> []" and s: "start = from + (length rest - length (trim_start rest))"
    by (auto simp: next_word_start_def rest_def Let_def split: if_splits)
  from t n have "n < length rest" by auto
  with n s have st: "start = from + n" by simp
  show "from \<le> start" using st by simp
  show "start < length s" using st \<open>n < length rest\<close> by (simp add: rest_def)
  have d: "drop start s = trim_start rest" using st n(1) by (simp add: rest_def add.commute)
  show "0 = ws_len (bytes (drop start s))" using trim_start_done d by simp
  then show "trim_start (drop start s) = drop start s" by (simp add: trim_start_id)
qed

lemma member_end_pos:
  assumes "s \<noteq> []" "ws_len (bytes s) = 0"
  shows "0 < member_end False s"
  using assms by (cases s) auto

text \<open>The words of a set: \<open>None\<close> when one opens a set or is not usable yet.\<close>

function set_members :: "search_lib \<Rightarrow> ymd \<Rightarrow> search_field \<Rightarrow> string \<Rightarrow> nat \<Rightarrow> search_filter list option" where
  "set_members L today field inner cursor =
     (case next_word_start inner cursor of
        None \<Rightarrow> Some []
      | Some start \<Rightarrow>
          (let e = inner_word_end inner start;
               value = take (e - start) (drop start inner) in
           if strip_prefix ''{'' value \<noteq> None then None
           else (case plain_operator L today False field value of
             FilterToken c \<Rightarrow> map_option (\<lambda>ms. cl_filter c # ms) (set_members L today field inner e)
           | _ \<Rightarrow> None)))"
  by pat_completeness auto
termination
proof (relation "measure (\<lambda>(L, today, field, inner, cursor). length inner - cursor)")
  fix inner cursor start and e :: nat
  assume s: "next_word_start inner cursor = Some start" and e: "e = inner_word_end inner start"
  from next_word_start_bounds [OF s] have "cursor \<le> start" "start < length inner" "ws_len (bytes (drop start inner)) = 0"
    by auto
  with member_end_pos [of "drop start inner"] have "cursor < e" by (simp add: e inner_word_end_def)
  with \<open>cursor \<le> start\<close> \<open>start < length inner\<close>
  show "\<And>L today field. ((L, today, field, inner, e), L, today, field, inner, cursor)
      \<in> measure (\<lambda>(L, today, field, inner, cursor). length inner - cursor)" by simp
qed simp

declare set_members.simps [simp del]

definition set_filter :: "search_lib \<Rightarrow> ymd \<Rightarrow> search_field \<Rightarrow> string \<Rightarrow> search_filter option" where
  "set_filter L today field raw =
     (if \<not> takes_set field then None
      else (case strip_prefix ''{'' raw of
        None \<Rightarrow> None
      | Some r \<Rightarrow>
          (case strip_suffix ''}'' r of
             None \<Rightarrow> None
           | Some inner \<Rightarrow>
               if inner_closes_early inner then None
               else (case set_members L today field inner 0 of
                       None \<Rightarrow> None
                     | Some ms \<Rightarrow> any_of ms))))"

definition operator :: "search_lib \<Rightarrow> ymd \<Rightarrow> bool \<Rightarrow> search_field \<Rightarrow> string \<Rightarrow> token_kind" where
  "operator L today negated field raw =
     (if field = FieldHeader then header_token L negated raw
      else if strip_prefix ''{'' raw \<noteq> None then
        (case set_filter L today field raw of
           Some f \<Rightarrow> FilterToken \<lparr>cl_negated = negated, cl_filter = f\<rparr>
         | None \<Rightarrow> PartialToken \<lparr>sp_negated = negated, sp_field = field, sp_value = raw\<rparr>)
      else plain_operator L today negated field raw)"

definition text_kind :: "bool \<Rightarrow> string \<Rightarrow> token_kind option" where
  "text_kind negated body =
     (let value = trim_quotes body in
      if value = [] then None
      else Some (TextToken \<lparr>tt_negated = negated, tt_value = value,
             tt_quoted = (strip_prefix [CHR 0x22] body \<noteq> None)\<rparr>))"

definition classify_word :: "search_lib \<Rightarrow> ymd \<Rightarrow> string \<Rightarrow> token_kind option" where
  "classify_word L today raw =
     (if list_all (\<lambda>c. c = CHR ''-'' \<or> c = CHR 0x22) raw then None
      else
        (let (negated, body) = (case strip_prefix ''-'' raw of
               Some rest \<Rightarrow> if rest \<noteq> [] then (True, rest) else (False, raw)
             | None \<Rightarrow> (False, raw)) in
         case split_operator body of
           Some (keyword, value) \<Rightarrow>
             (case field_parse keyword of
                Some field \<Rightarrow> Some (operator L today negated field value)
              | None \<Rightarrow> text_kind negated body)
         | None \<Rightarrow> text_kind negated body))"

lemma scan_from_end: "fst (scan_from seen q st s) = Some e \<Longrightarrow> length seen \<le> e"
  by (induction seen q st s rule: scan_from.induct) (auto split: if_splits)

lemma word_end_pos:
  assumes "start < length s" "ws_len (bytes (drop start s)) = 0"
  shows "start < word_end s start"
proof -
  obtain c r where cr: "drop start s = c # r" using assms(1) by (cases "drop start s") auto
  with assms(2) have "fst (scan (drop start s)) = Some e \<Longrightarrow> 1 \<le> e" for e
    by (auto simp: scan_def dest!: scan_from_end split: if_splits)
  with assms(1) show ?thesis by (force simp: word_end_def split: option.splits)
qed

function parse_from :: "search_lib \<Rightarrow> ymd \<Rightarrow> string \<Rightarrow> nat \<Rightarrow> search_token list" where
  "parse_from L today input cursor =
     (case next_word_start input cursor of
        None \<Rightarrow> []
      | Some start \<Rightarrow>
          (let e = word_end input start;
               raw = take (e - start) (drop start input);
               rest = parse_from L today input e in
           case classify_word L today raw of
             Some kind \<Rightarrow> \<lparr>tk_start = start, tk_end = e, tk_raw = raw, tk_kind = kind\<rparr> # rest
           | None \<Rightarrow> rest))"
  by pat_completeness auto
termination
proof (relation "measure (\<lambda>(L, today, input, cursor). length input - cursor)")
  fix input cursor start and e :: nat
  assume s: "next_word_start input cursor = Some start" and e: "e = word_end input start"
  from next_word_start_bounds [OF s] word_end_pos [of start input]
  show "\<And>L today. ((L, today, input, e), L, today, input, cursor)
      \<in> measure (\<lambda>(L, today, input, cursor). length input - cursor)" by (auto simp: e)
qed simp

declare parse_from.simps [simp del]

definition parse :: "search_lib \<Rightarrow> ymd \<Rightarrow> string \<Rightarrow> search_token list" where
  "parse L today input = parse_from L today input 0"

end
