(* ===== verification/Search_Words.thy ===== *)
theory Search_Words
  imports Search_Query
begin

section \<open>Reading a query word by word\<close>

text \<open>
  What the parser does with one word at a time: where a word that is written out ends, and
  that a string of such words, one space apart, is read back as those words.  Everything
  about the spelling of clauses and the edits of a query rests on \<open>parse_words\<close>.
\<close>

subsection \<open>White space in bytes\<close>

text \<open>No white space begins anywhere in the string.\<close>

fun ws_free :: "string \<Rightarrow> bool" where
  "ws_free [] \<longleftrightarrow> True"
| "ws_free (c # cs) \<longleftrightarrow> ws_len (bytes (c # cs)) = 0 \<and> ws_free cs"

lemma ws_len_continuation: "is_continuation c \<Longrightarrow> ws_len (bytes (c # cs)) = 0"
  by (auto simp: is_continuation_def bytes_def split: list.splits)

lemma bytes_takeWhile: "bytes (takeWhile is_continuation cs) = takeWhile (\<lambda>b. 128 \<le> b \<and> b < 192) (bytes cs)"
  by (induction cs) (auto simp: bytes_def is_continuation_def)

lemma ws_len_takeWhile: "ws_len (a # takeWhile (\<lambda>b. 128 \<le> b \<and> b < 192) r) = ws_len (a # r)"
proof (cases r)
  case (Cons b r')
  then show ?thesis by (cases r') (auto simp del: One_nat_def)
qed simp

lemma ws_len_char: "ws_len (bytes (c # takeWhile is_continuation cs)) = ws_len (bytes (c # cs))"
  using ws_len_takeWhile [of "byte c" "bytes cs"] bytes_takeWhile [of cs] by (simp add: bytes_def)

lemma ws_len_then_ascii: "b < 128 \<Longrightarrow> ws_len (x # us @ b # r) = ws_len (x # us)"
proof (cases us)
  case Nil
  assume "b < 128"
  with Nil show ?thesis by (cases r) auto
next
  case (Cons y us')
  assume "b < 128"
  with Cons show ?thesis by (cases us') auto
qed

lemma ws_len_take: "ws_len bs = 0 \<Longrightarrow> ws_len (take n bs) = 0"
proof (cases bs; cases n)
  fix a r m
  assume "bs = a # r" "n = Suc m" "ws_len bs = 0"
  then show ?thesis by (cases r; cases m; cases "tl r"; cases "m - 1") (auto split: if_splits)
qed auto

lemma ws_len_before_ascii:
  assumes "u \<noteq> []" "byte a < 128"
  shows "ws_len (bytes (u @ a # r)) = ws_len (bytes u)"
proof -
  from assms(1) obtain c v where "u = c # v" by (cases u) auto
  with ws_len_then_ascii [OF assms(2), of "byte c" "bytes v" "bytes r"] show ?thesis by (simp add: bytes_def del: ws_len.simps)
qed

lemma ws_len_ascii: "byte c < 128 \<Longrightarrow> ws_len (bytes (c # cs)) = (if (9 \<le> byte c \<and> byte c \<le> 13) \<or> byte c = 32 then 1 else 0)"
  by (cases cs) (auto simp: bytes_def split: list.splits)

lemma ws_len_marks:
  "ws_len (bytes (CHR 0x22 # r)) = 0" "ws_len (bytes (CHR ''{'' # r)) = 0" "ws_len (bytes (CHR ''}'' # r)) = 0"
  "ws_len (bytes (CHR ''-'' # r)) = 0" "ws_len (bytes (CHR '':'' # r)) = 0" "ws_len (bytes (CHR '' '' # r)) = 1"
  by (simp_all add: ws_len_ascii byte_def del: ws_len.simps)

lemma ws_free_continuations: "list_all is_continuation xs \<Longrightarrow> ws_free (xs @ ys) = ws_free ys"
  by (induction xs) (auto simp: ws_len_continuation)

lemma ws_free_chars: "ws_free s \<longleftrightarrow> \<not> list_ex is_space (utf8_chars s)"
proof (induction s rule: utf8_chars.induct)
  case (2 c cs)
  have "ws_free cs = ws_free (dropWhile is_continuation cs)"
    using ws_free_continuations [of "takeWhile is_continuation cs" "dropWhile is_continuation cs"]
    by (auto simp: list_all_iff dest: set_takeWhileD)
  with 2 show ?case by (simp add: is_space_def ws_len_char del: ws_len.simps)
qed simp

lemma ws_free_head: "ws_free s \<Longrightarrow> ws_len (bytes s) = 0"
  by (cases s) (auto simp: bytes_def)

lemma ws_free_append_ascii:
  "ws_free (u @ a # r) \<longleftrightarrow> ws_free u \<and> ws_free (a # r)" if "byte a < 128"
proof (induction u)
  case (Cons c u)
  have "ws_len (bytes ((c # u) @ a # r)) = ws_len (bytes (c # u))" by (rule ws_len_before_ascii [OF _ that]) simp
  with Cons show ?case by (simp del: ws_len.simps)
qed simp

lemma ws_free_ascii: "list_all (\<lambda>c. 32 < byte c \<and> byte c < 128) s \<Longrightarrow> ws_free s"
  by (induction s) (auto simp: ws_len_ascii simp del: ws_len.simps)

text \<open>The space a word is followed by, or the end.\<close>

definition ends_word :: "string \<Rightarrow> bool" where
  "ends_word r \<longleftrightarrow> r = [] \<or> byte (hd r) < 128"

lemma ws_len_ends_word: "u \<noteq> [] \<Longrightarrow> ends_word r \<Longrightarrow> ws_len (bytes (u @ r)) = ws_len (bytes u)"
  by (cases r) (auto simp: ends_word_def ws_len_before_ascii)


subsection \<open>Scanning written text\<close>

lemma scan_quoted:
  "CHR 0x22 \<notin> set v \<Longrightarrow> scan_from seen True st (v @ r) = scan_from (seen @ v) True st r"
  by (induction v arbitrary: seen) auto

lemma scan_bare:
  assumes "ws_free v" "ends_word r" "CHR 0x22 \<notin> set v" "CHR ''{'' \<notin> set v" "CHR ''}'' \<notin> set v"
  shows "scan_from seen False st (v @ r) = scan_from (seen @ v) False st r"
  using assms
proof (induction v arbitrary: seen)
  case (Cons c v)
  then have "ws_len (bytes ((c # v) @ r)) = 0" by (subst ws_len_ends_word) auto
  with Cons show ?case by auto
qed simp

text \<open>A word as it stands alone: it starts with no white space and is read to its end.\<close>

definition word_ok :: "string \<Rightarrow> bool" where
  "word_ok w \<longleftrightarrow> w \<noteq> [] \<and> ws_len (bytes w) = 0 \<and> fst (scan w) = None"

definition word_closed :: "string \<Rightarrow> bool" where
  "word_closed w \<longleftrightarrow> scan w = (None, False, False)"

lemma scan_from_append:
  assumes "ends_word r" "scan_from seen q st v = (None, q', st')"
  shows "scan_from seen q st (v @ r) = scan_from (seen @ v) q' st' r"
  using assms(2)
proof (induction v arbitrary: seen q st)
  case (Cons c v)
  have "ws_len (bytes ((c # v) @ r)) = ws_len (bytes (c # v))" by (rule ws_len_ends_word) (use assms(1) in simp_all)
  with Cons show ?case by (auto simp del: ws_len.simps split: if_splits)
qed simp

lemma scan_from_stop:
  "scan_from seen q st s = (Some e, q', st') \<Longrightarrow>
    \<not> q' \<and> \<not> st' \<and> length seen \<le> e \<and> e - length seen < length s
    \<and> scan_from seen q st (take (e - length seen) s) = (None, False, False)"
proof (induction seen q st s rule: scan_from.induct)
  case (1 seen q st)
  then show ?case by simp
next
  case (2 seen q st c r)
  have less: "length seen < e \<and> e - length seen = Suc (e - Suc (length seen))" if "Suc (length seen) \<le> e"
    using that by simp
  show ?case
  proof (cases "0 < ws_len (bytes (c # r)) \<and> \<not> q \<and> \<not> st")
    case True
    then have "c \<noteq> CHR 0x22" "c \<noteq> CHR ''{''"
      by (auto simp: ws_len_marks simp del: ws_len.simps)
    with True 2(5) show ?thesis by (simp del: ws_len.simps)
  next
    case False
    have "ws_len (bytes (c # take n r)) = 0 \<or> q \<or> st" for n
      using False ws_len_take [of "bytes (c # r)" "Suc n"] by (auto simp: bytes_def take_map simp del: ws_len.simps)
    from False 2 this [of "e - Suc (length seen)"] show ?thesis
      by (auto simp: less simp del: ws_len.simps split: if_splits)
  qed
qed

subsection \<open>A text of words\<close>

lemma next_word_start_at:
  assumes "w \<noteq> []" "ws_len (bytes (w @ tail)) = 0" "sp = [] \<or> sp = '' ''"
  shows "next_word_start (pre @ sp @ w @ tail) (length pre) = Some (length pre + length sp)"
proof -
  have "trim_start (sp @ w @ tail) = w @ tail"
    using assms(3) trim_start_id [OF assms(2)]
    by (auto simp: trim_start.simps [of "CHR '' '' # w @ tail"] ws_len_marks simp del: ws_len.simps)
  with assms(1) show ?thesis by (auto simp: next_word_start_def)
qed

lemma next_word_start_none: "next_word_start s (length s) = None"
  by (simp add: next_word_start_def trim_start_id bytes_def)

text \<open>The rest of the text after a word: the end, or a space the word does not swallow.\<close>

definition follows :: "string \<Rightarrow> string \<Rightarrow> bool" where
  "follows w tail \<longleftrightarrow> tail = [] \<or> hd tail = CHR '' '' \<and> word_closed w"

lemma word_ok_follows:
  assumes "word_ok w" "follows w tail"
  shows "ws_len (bytes (w @ tail)) = 0" "fst (scan (w @ tail)) = (if tail = [] then None else Some (length w))"
proof -
  from assms(2) have e: "ends_word tail" by (auto simp: follows_def ends_word_def byte_def)
  with assms(1) show "ws_len (bytes (w @ tail)) = 0" by (simp add: word_ok_def ws_len_ends_word)
  show "fst (scan (w @ tail)) = (if tail = [] then None else Some (length w))"
  proof (cases tail)
    case Nil
    with assms(1) show ?thesis by (simp add: word_ok_def)
  next
    case (Cons a r)
    with assms(2) have "scan_from [] False False w = (None, False, False)" "a = CHR '' ''"
      by (auto simp: follows_def word_closed_def scan_def)
    with scan_from_append [OF e this(1)] Cons show ?thesis by (simp add: scan_def ws_len_marks del: ws_len.simps)
  qed
qed

lemma parse_step:
  assumes "word_ok w" "follows w tail" "sp = [] \<or> sp = '' ''"
  shows "parse_from L today (pre @ sp @ w @ tail) (length pre) =
     (case classify_word L today w of
        Some k \<Rightarrow> [\<lparr>tk_start = length pre + length sp, tk_end = length pre + length sp + length w,
                    tk_raw = w, tk_kind = k\<rparr>]
      | None \<Rightarrow> [])
     @ parse_from L today ((pre @ sp @ w) @ tail) (length (pre @ sp @ w))"
proof -
  let ?s = "pre @ sp @ w @ tail"
  from assms(1) have "w \<noteq> []" by (simp add: word_ok_def)
  with assms word_ok_follows (1) have start: "next_word_start ?s (length pre) = Some (length pre + length sp)"
    by (intro next_word_start_at) auto
  have "drop (length pre + length sp) ?s = w @ tail" by simp
  with word_ok_follows (2) [OF assms(1,2)]
  have "word_end ?s (length pre + length sp) = length pre + length sp + length w"
    by (auto simp: word_end_def simp del: drop_append)
  with start show ?thesis
    by (subst parse_from.simps) (auto simp: add.assoc Let_def split: option.splits)
qed

text \<open>Words and their readings, without the offsets.\<close>

definition readings :: "search_token list \<Rightarrow> (string \<times> token_kind) list" where
  "readings ts = map (\<lambda>t. (tk_raw t, tk_kind t)) ts"

definition read_word :: "search_lib \<Rightarrow> ymd \<Rightarrow> string \<Rightarrow> (string \<times> token_kind) option" where
  "read_word L today w = map_option (Pair w) (classify_word L today w)"

definition words_ok :: "string list \<Rightarrow> bool" where
  "words_ok ws \<longleftrightarrow> list_all word_ok ws \<and> list_all word_closed (butlast ws)"

lemma words_ok_Cons: "words_ok (w # ws) \<longleftrightarrow> word_ok w \<and> words_ok ws \<and> (ws = [] \<or> word_closed w)"
  by (auto simp: words_ok_def)

lemma parse_tail:
  assumes "words_ok ws"
  shows "readings (parse_from L today (pre @ concat (map (\<lambda>w. '' '' @ w) ws)) (length pre))
     = List.map_filter (read_word L today) ws"
  using assms
proof (induction ws arbitrary: pre)
  case Nil
  then show ?case by (simp add: parse_from.simps next_word_start_none readings_def map_filter_simps)
next
  case (Cons w ws)
  let ?tail = "concat (map (\<lambda>w. '' '' @ w) ws)"
  from Cons.prems have "word_ok w" "follows w ?tail" by (cases ws; auto simp: words_ok_Cons follows_def)+
  note parse_step [OF this, of "'' ''" L today pre]
  moreover from Cons.prems Cons.IH [of "pre @ '' '' @ w"] have "readings (parse_from L today ((pre @ '' '' @ w) @ ?tail) (length (pre @ '' '' @ w)))
     = List.map_filter (read_word L today) ws" by (simp add: words_ok_Cons)
  ultimately show ?case
    by (simp add: readings_def read_word_def [of L today w] map_filter_simps split: option.splits)
qed

lemma intercalate_words: "intercalate '' '' (w # ws) = w @ concat (map (\<lambda>w. '' '' @ w) ws)"
  by (induction ws arbitrary: w) auto

theorem parse_words:
  assumes "words_ok ws"
  shows "readings (parse L today (intercalate '' '' ws)) = List.map_filter (read_word L today) ws"
proof (cases ws)
  case Nil
  then show ?thesis
    by (simp add: parse_def parse_from.simps next_word_start_none [of "[]", simplified] readings_def map_filter_simps)
next
  case (Cons w ws')
  let ?tail = "concat (map (\<lambda>w. '' '' @ w) ws')"
  from Cons assms have "word_ok w" "follows w ?tail" by (cases ws'; auto simp: words_ok_Cons follows_def)+
  note parse_step [OF this, of "[]" L today "[]"]
  with parse_tail [of ws' L today w] Cons assms show ?thesis
    by (simp add: parse_def intercalate_words readings_def read_word_def [of L today w] map_filter_simps words_ok_Cons
        split: option.splits)
qed



subsection \<open>The words of a text\<close>

text \<open>Every token is a word of the text as it stands alone, and only the last can be open.\<close>

lemma parse_from_token:
  assumes "next_word_start input cursor = Some start" "w = take (word_end input start - start) (drop start input)"
  shows "word_ok w" "word_end input start < length input \<Longrightarrow> word_closed w"
    "cursor \<le> start" "start < word_end input start" "word_end input start \<le> length input"
proof -
  from next_word_start_bounds [OF assms(1)]
  have s: "cursor \<le> start" "start < length input" "ws_len (bytes (drop start input)) = 0" by auto
  show "cursor \<le> start" by (rule s)
  show less: "start < word_end input start" by (rule word_end_pos [OF s(2,3)])
  have "ws_len (bytes w) = 0"
    using ws_len_take [OF s(3), of "word_end input start - start"] by (simp add: assms(2) bytes_def take_map)
  moreover have "w \<noteq> []" using less s(2) by (simp add: assms(2))
  moreover have "fst (scan w) = None \<and> (word_end input start < length input \<longrightarrow> word_closed w)
      \<and> word_end input start \<le> length input"
  proof (cases "scan (drop start input)")
    case (fields found q st)
    show ?thesis
    proof (cases found)
      case None
      with fields have "word_end input start = length input" by (simp add: word_end_def)
      with None fields show ?thesis by (simp add: assms(2))
    next
      case (Some e)
      with fields have e: "word_end input start = start + e" by (simp add: word_end_def)
      from Some fields have "scan_from [] False False (drop start input) = (Some e, q, st)" by (simp add: scan_def)
      from scan_from_stop [OF this] e show ?thesis by (auto simp: assms(2) word_closed_def scan_def less_diff_conv)
    qed
  qed
  ultimately show "word_ok w" "word_end input start < length input \<Longrightarrow> word_closed w"
    "word_end input start \<le> length input" by (auto simp: word_ok_def)
qed

lemma parse_from_words:
  "words_ok (map tk_raw (parse_from L today input cursor))
   \<and> readings (parse_from L today input cursor)
       = List.map_filter (read_word L today) (map tk_raw (parse_from L today input cursor))"
proof (induction L today input cursor rule: parse_from.induct)
  case (1 L today input cursor)
  show ?case
  proof (cases "next_word_start input cursor")
    case None
    then show ?thesis by (simp add: parse_from.simps words_ok_def readings_def map_filter_simps)
  next
    case (Some start)
    let ?e = "word_end input start" and ?rest = "parse_from L today input (word_end input start)"
    let ?w = "take (?e - start) (drop start input)"
    note token = parse_from_token [OF Some refl]
    have IH: "words_ok (map tk_raw ?rest)" "readings ?rest = List.map_filter (read_word L today) (map tk_raw ?rest)"
      using 1 [OF Some refl refl] by auto
    have "word_closed ?w" if "?rest \<noteq> []"
    proof (rule token(2))
      have "next_word_start input ?e \<noteq> None" using that by (auto simp: parse_from.simps split: option.splits)
      then show "?e < length input" using next_word_start_bounds(1,2) by fastforce
    qed
    with token(1) IH Some show ?thesis
      by (subst (1 2 3) parse_from.simps)
        (auto simp: Let_def words_ok_Cons readings_def map_filter_simps read_word_def [of L today ?w] split: option.splits)
  qed
qed

lemmas parse_words_ok = conjunct1 [OF parse_from_words [of L today input 0 for L today input], folded parse_def]

lemma token_reading: "t \<in> set (parse L today input) \<Longrightarrow> classify_word L today (tk_raw t) = Some (tk_kind t)"
proof -
  assume "t \<in> set (parse L today input)"
  then have "(tk_raw t, tk_kind t) \<in> set (readings (parse L today input))" by (auto simp: readings_def)
  with parse_from_words [of L today input 0] have "(tk_raw t, tk_kind t) \<in> set (List.map_filter (read_word L today) (map tk_raw (parse L today input)))"
    by (simp add: parse_def)
  then show ?thesis by (auto simp: List.map_filter_def read_word_def)
qed

end
