(* ===== verification/Search_Numbers.thy ===== *)
theory Search_Numbers
  imports Search_Words
begin

section \<open>Numbers, dates and sizes written and read\<close>

text \<open>
  What \<open>spell\<close> writes for a date and a size is read back as that date and that size:
  \<open>parse_size_spell\<close> and \<open>parse_date_format\<close>.
\<close>

subsection \<open>Digits\<close>

lemma digit_char: "n < 10 \<Longrightarrow> is_digit (char_of (48 + n)) \<and> digit_value (char_of (48 + n)) = n"
  by (simp add: is_digit_def digit_value_def byte_def)

lemma digits_value_snoc: "digits_value (s @ [c]) = 10 * digits_value s + digit_value c"
  by (simp add: digits_value_def)

lemma dec_digits: "dec n \<noteq> [] \<and> list_all is_digit (dec n) \<and> digits_value (dec n) = n"
proof (induction n rule: dec.induct)
  case (1 n)
  show ?case
  proof (cases "n < 10")
    case True
    with digit_char [of n] show ?thesis by (subst (1 2 3) dec.simps) (simp add: digits_value_def)
  next
    case False
    with 1 digit_char [of "n mod 10"] show ?thesis
      by (subst (1 2 3) dec.simps) (auto simp: digits_value_snoc)
  qed
qed

lemma digits_value_zeros: "digits_value (replicate k (CHR ''0'') @ s) = digits_value s"
  by (induction k) (simp_all add: digits_value_def digit_value_def byte_def)

lemma pad_digits: "pad w n \<noteq> [] \<and> list_all is_digit (pad w n) \<and> digits_value (pad w n) = n"
  using dec_digits [of n] by (auto simp: pad_def digits_value_zeros list_all_iff is_digit_def byte_def)

lemma digit_visible: "is_digit c \<Longrightarrow> 32 < byte c \<and> byte c < 128"
  by (simp add: is_digit_def)

lemma digits_ascii: "list_all is_digit s \<Longrightarrow> list_all (\<lambda>c. 32 < byte c \<and> byte c < 128) s"
  using digit_visible by (auto simp: list_all_iff)

lemma utf8_chars_ascii: "list_all (\<lambda>c. byte c < 128) s \<Longrightarrow> utf8_chars s = map (\<lambda>c. [c]) s"
proof (induction s)
  case (Cons c s)
  have "takeWhile is_continuation s = []" "dropWhile is_continuation s = s"
    using Cons.prems by (cases s; auto simp: is_continuation_def)+
  with Cons show ?case by simp
qed simp

text \<open>Text that begins and ends with a visible character is not trimmed.\<close>

lemma lower_ascii_id: "list_all (\<lambda>c. byte c < 65 \<or> 90 < byte c) s \<Longrightarrow> lower_ascii s = s"
  by (induction s) (auto simp: lower_ascii_def ascii_lower_def byte_def)

lemma trim_visible:
  assumes "s \<noteq> []" "32 < byte (hd s)" "byte (hd s) < 128" "32 < byte (last s)" "byte (last s) < 128"
  shows "trim s = s"
proof -
  have start: "ws_len (bytes s) = 0" using assms by (cases s) (auto simp: ws_len_ascii simp del: ws_len.simps)
  have rev: "ws_len_rev (x # r) = 0" if "32 < x" "x < 128" for x r
    using that by (cases r; cases "tl r") auto
  obtain c r where cr: "rev s = c # r" using assms(1) by (cases "rev s") auto
  then have "c = last s" by (metis hd_rev list.sel(1))
  with assms rev [of "byte c" "bytes r"] have "ws_len_rev (bytes (c # r)) = 0" by (simp add: bytes_def)
  then have "ws_len_rev (bytes (rev s)) = 0" by (simp only: cr)
  with start show ?thesis by (simp add: trim_def trim_start_id trim_end_rev_id)
qed

lemma split_on_absent: "c \<notin> set s \<Longrightarrow> split_on c s = [s]"
  by (induction s) auto

lemma is_digit_not_dot: "is_digit c \<Longrightarrow> c \<noteq> CHR ''.''"
  by (auto simp: is_digit_def byte_def)


subsection \<open>Sizes\<close>

lemma f64_exact: "k < 2 ^ 53 \<Longrightarrow> \<exists>g. f64_of k 1 = (k * 2 ^ g, 2 ^ g)"
proof -
  assume "k < 2 ^ 53"
  then have "shrink_bits k 1 = 0" by (subst shrink_bits.simps) simp
  then show ?thesis by (simp add: f64_of_def half_even_def Let_def)
qed

lemma size_rounds: "(2 * (k * 2 ^ g) * u + 2 ^ g) div (2 * 2 ^ g) = k * (u :: nat)"
proof -
  have "2 * (k * 2 ^ g) * u + 2 ^ g = (2 * 2 ^ g) * (k * u) + (2 ^ g :: nat)" by (simp add: algebra_simps)
  also have "\<dots> div (2 * 2 ^ g) = k * u + 2 ^ g div (2 * 2 ^ g)" by (rule div_mult_self4) simp
  finally show ?thesis by simp
qed

lemma parse_size_number:
  assumes "size_multiplier suffix = Some u" "list_all (\<lambda>c. \<not> is_digit c \<and> c \<noteq> CHR ''.'') suffix"
    and "suffix = [] \<or> 32 < byte (last suffix) \<and> byte (last suffix) < 128" "k < 2 ^ 53" "k * u < 2 ^ 53"
  shows "parse_size (dec k @ suffix) = Some (k * u)"
proof -
  note d = dec_digits [of k]
  have hd: "is_digit (hd (dec k))" "is_digit (last (dec k))" using d by (cases "dec k"; auto simp: list_all_iff)+
  have "trim (dec k @ suffix) = dec k @ suffix"
  proof (rule trim_visible)
    show "32 < byte (hd (dec k @ suffix))" "byte (hd (dec k @ suffix)) < 128"
      using digit_visible [OF hd(1)] d by simp_all
    show "32 < byte (last (dec k @ suffix))" "byte (last (dec k @ suffix)) < 128"
      using digit_visible [OF hd(2)] assms(3) by (auto simp: last_append)
  qed (use d in simp)
  moreover have "takeWhile (\<lambda>c. is_digit c \<or> c = CHR ''.'') (dec k @ suffix) = dec k"
  proof -
    have "takeWhile (\<lambda>c. is_digit c \<or> c = CHR ''.'') suffix = []" using assms(2) by (cases suffix) auto
    with d show ?thesis by (simp add: list_all_iff)
  qed
  moreover have "dec k \<noteq> ''.''" using hd is_digit_not_dot by (cases "dec k") auto
  moreover have "CHR ''.'' \<notin> set (dec k)" using d is_digit_not_dot by (auto simp: list_all_iff)
  then have "parse_f64 (dec k) = Some (f64_of k 1)" using d by (simp add: parse_f64_def split_on_absent)
  moreover obtain g where g: "f64_of k 1 = (k * 2 ^ g, 2 ^ g)" using f64_exact [OF assms(4)] by blast
  moreover have "\<not> 2 ^ 64 * 2 ^ g < k * 2 ^ g * u"
  proof -
    have "k * 2 ^ g * u = k * u * 2 ^ g" by simp
    also have "\<dots> \<le> 2 ^ 64 * 2 ^ g" using assms(5) by (intro mult_right_mono) simp_all
    finally show ?thesis by simp
  qed
  moreover have "min u64_max (k * u) = k * u" using assms(5) by (simp add: u64_max_def)
  ultimately show ?thesis using d assms(1) size_rounds [of k g u] by (simp add: parse_size_def Let_def)
qed

lemma parse_size_spell: "n < 2 ^ 53 \<Longrightarrow> parse_size (spell_size n) = Some n"
proof -
  assume n: "n < 2 ^ 53"
  have unit: "parse_size (dec (n div u) @ s) = Some n"
    if "u dvd n" "u \<noteq> 0" "size_multiplier s = Some u" "s \<in> {''G'', ''M'', ''K''}" for u s
  proof -
    have "n div u \<le> n" by simp
    with n have "n div u < 2 ^ 53" by linarith
    with that n parse_size_number [of s u "n div u"] show ?thesis
      by (auto simp: is_digit_def byte_def)
  qed
  have one: "parse_size (dec n) = Some n"
    using parse_size_number [of "''''" 1 n] n by (simp add: size_multiplier_def lower_ascii_def)
  have mult: "size_multiplier ''G'' = Some (2 ^ 30)" "size_multiplier ''M'' = Some (2 ^ 20)"
    "size_multiplier ''K'' = Some (2 ^ 10)" by (simp_all add: size_multiplier_def lower_ascii_def Let_def ascii_lower_def byte_def char_of_eq_iff)
  from unit [OF _ _ mult(1)] unit [OF _ _ mult(2)] unit [OF _ _ mult(3)] one
  show ?thesis by (cases "n = 0") (simp_all add: spell_size_def)
qed


subsection \<open>Dates\<close>

definition plain_date :: "search_lib \<Rightarrow> ymd \<Rightarrow> bool" where
  "plain_date L d \<longleftrightarrow> 1000 \<le> dt_year d \<and> dt_year d \<le> 9999 \<and> dt_month d < 100 \<and> dt_day d < 100
     \<and> sx_valid L (dt_year d) (dt_month d) (dt_day d)"

lemma split_digits:
  assumes "list_all is_digit s" "length runs \<le> 4"
  shows "split_each L ([], num, runs) (map (\<lambda>c. [c]) s @ rest) = split_each L ([], num @ s, runs) rest"
  using assms by (induction s arbitrary: num) (auto simp: split_char_def flush_word_def)

lemma split_dash:
  assumes "num \<noteq> []" "list_all is_digit num" "digits_value num \<le> u32_max" "length runs < 4"
  shows "split_each L ([], num, runs) (''-'' # rest)
     = split_each L ([], [], runs @ [NumberRun (digits_value num)]) rest"
  using assms
  by (simp add: split_char_def is_digit_def is_alphabetic_def is_ascii_letter_def is_date_separator_def byte_def
      flush_word_def flush_number_def parse_u32_def)

lemma relative_digits:
  assumes "compact_date L s = D" "D \<noteq> []" "list_all is_digit D"
  shows "relative L s today = None"
proof -
  have letters: "\<not> is_digit (CHR ''t'')" "\<not> is_digit (CHR ''n'')" "\<not> is_digit (CHR ''y'')" "\<not> is_digit (CHR ''l'')"
    "\<not> is_digit (CHR ''p'')" "\<not> is_digit (CHR ''o'')"
    by (simp_all add: is_digit_def byte_def)
  have word: "D \<noteq> c # w" if "\<not> is_digit c" for c w using assms(2,3) that by (cases D) auto
  have "strip_suffix ''ago'' D = None"
  proof -
    obtain x r where x: "rev D = x # r" using assms(2) by (cases "rev D") auto
    then have "is_digit x" using assms(3) by (metis list_all_iff in_set_conv_decomp rev_eq_Cons_iff)
    with letters(6) x show ?thesis by (auto simp: strip_suffix_def strip_prefix_def)
  qed
  moreover have "strip_first [''last'', ''past'', ''previous''] D = D"
  proof -
    have "strip_prefix (c # p) D = None" if "\<not> is_digit c" for c p
      using assms(2,3) that by (cases D) (auto simp: strip_prefix_def)
    with letters show ?thesis by simp
  qed
  moreover have "takeWhile is_digit D = D" using assms(3) by (simp add: list_all_iff takeWhile_eq_all_conv)
  moreover have "D \<noteq> ''today''" "D \<noteq> ''now''" "D \<noteq> ''yesterday''" using letters by (auto dest: word)
  ultimately show ?thesis using assms(2)
    by (simp add: relative_def assms(1) Let_def del: strip_first.simps takeWhile_eq_all_conv split: option.split)
qed

lemma parse_date_format:
  assumes "plain_date L d"
  shows "parse_date L (format_date d) today = Some d"
proof -
  obtain y m n where d: "d = \<lparr>dt_year = int y, dt_month = m, dt_day = n\<rparr>" and y: "1000 \<le> y" "y \<le> 9999"
    and mn: "m < 100" "n < 100" and valid: "sx_valid L (int y) m n"
  proof
    show "d = \<lparr>dt_year = int (nat (dt_year d)), dt_month = dt_month d, dt_day = dt_day d\<rparr>"
      using assms by (cases d) (simp add: plain_date_def)
  qed (use assms in \<open>auto simp: plain_date_def\<close>)
  define Y where "Y = pad 4 y"
  define M where "M = pad 2 m"
  define N where "N = pad 2 n"
  have Y: "Y \<noteq> []" "list_all is_digit Y" "digits_value Y = y"
    and M: "M \<noteq> []" "list_all is_digit M" "digits_value M = m"
    and N: "N \<noteq> []" "list_all is_digit N" "digits_value N = n"
    using pad_digits by (auto simp: Y_def M_def N_def)
  let ?s = "Y @ ''-'' @ M @ ''-'' @ N" and ?D = "Y @ M @ N"
  have s: "format_date d = ?s" using y by (simp add: format_date_def d Y_def M_def N_def Let_def)
  have ascii: "list_all (\<lambda>c. 32 < byte c \<and> byte c < 128) ?s" using Y M N digits_ascii by (simp add: byte_def)
  have trim: "trim ?s = ?s"
  proof (rule trim_visible)
    show "32 < byte (hd ?s)" "byte (hd ?s) < 128" using ascii Y(1) by (cases Y; simp)+
    show "32 < byte (last ?s)" "byte (last ?s) < 128" using ascii N(1) by (auto simp: list_all_iff)
  qed simp
  have digit_not: "c \<noteq> CHR ''-'' \<and> c \<noteq> CHR ''_'' \<and> ws_len [byte c] = 0 \<and> ascii_lower (byte c) = byte c" if "is_digit c" for c
    using that by (auto simp: is_digit_def byte_def ascii_lower_def)
  have keep: "concat (map (lower_char L) (filter (\<lambda>c. \<not> is_space c \<and> c \<noteq> ''-'' \<and> c \<noteq> ''_'') (map (\<lambda>c. [c]) ds))) = ds"
    if "list_all is_digit ds" for ds
    using that digit_not by (induction ds) (auto simp: is_space_def bytes_def lower_char_def lower_ascii_def byte_def is_digit_def)
  have chars: "utf8_chars ?s = map (\<lambda>c. [c]) ?s" using ascii by (intro utf8_chars_ascii) (auto simp: list_all_iff)
  have compact: "compact_date L ?s = ?D"
    unfolding compact_date_def chars using keep [OF Y(2)] keep [OF M(2)] keep [OF N(2)] by simp
  have "relative L ?s today = None"
    using relative_digits [OF compact] Y M N by simp
  moreover have "split_runs L ?s = Some [NumberRun y, NumberRun m, NumberRun n]"
    using Y M N y mn unfolding split_runs_def chars
    by (simp add: split_digits split_digits [of N _ L _ "[]", simplified] split_dash flush_word_def flush_number_def
        parse_u32_def u32_max_def del: split_each.simps(2))
  then have "calendar L ?s today = Some d"
    using y valid by (simp add: calendar_def run_words_def run_numbers_def map_filter_simps as_i32_def from_ymd_def d)
  ultimately show ?thesis using trim by (simp add: parse_date_def s Let_def)
qed

end
