(* ===== verification/Search_Spell.thy ===== *)
theory Search_Spell
  imports Search_Numbers
begin

section \<open>Spelling a clause and reading it back\<close>

text \<open>
  \<open>spell\<close> of a clause is one word, and the parser reads that word as the clause.  This needs
  what a text can hold at all: values without a double quote, header names without white
  space, years of four digits, sizes a double holds exactly.
\<close>

subsection \<open>What can be spelled\<close>

definition plain_value :: "string \<Rightarrow> bool" where
  "plain_value v \<longleftrightarrow> v \<noteq> [] \<and> CHR 0x22 \<notin> set v"

definition plain_address :: "string \<Rightarrow> bool" where
  "plain_address a \<longleftrightarrow> plain_value a \<and> CHR '','' \<notin> set a \<and> trim a = a"

definition plain_name :: "string \<Rightarrow> bool" where
  "plain_name n \<longleftrightarrow> plain_value n \<and> normalize_name n = n \<and> ws_free n
     \<and> CHR ''='' \<notin> set n \<and> CHR ''{'' \<notin> set n \<and> CHR ''}'' \<notin> set n"

fun spellable_one :: "search_lib \<Rightarrow> search_filter \<Rightarrow> bool" where
  "spellable_one L (ByFrom v) = plain_value v"
| "spellable_one L (ByTo v) = plain_value v"
| "spellable_one L (BySubject v) = plain_value v"
| "spellable_one L (ByIn v) = plain_value v"
| "spellable_one L (ByFilename v) = plain_value v"
| "spellable_one L (ByList v) = plain_value v"
| "spellable_one L (ByAccount v) = plain_value v"
| "spellable_one L (ByGroup v) = plain_value v"
| "spellable_one L (ByLabel v) = plain_value v"
| "spellable_one L (ByWith addresses) \<longleftrightarrow> addresses \<noteq> [] \<and> list_all plain_address addresses"
| "spellable_one L (ByHeader name None) = plain_name name"
| "spellable_one L (ByHeader name (Some v)) \<longleftrightarrow> plain_name name \<and> plain_value v \<and> normalize_value L v = v"
| "spellable_one L HasAttachment = True"
| "spellable_one L HasAction = True"
| "spellable_one L (ByIs _) = True"
| "spellable_one L (ByAfter d) = plain_date L d"
| "spellable_one L (ByBefore d) = plain_date L d"
| "spellable_one L (ByLarger n) \<longleftrightarrow> n < 2 ^ 53"
| "spellable_one L (BySmaller n) \<longleftrightarrow> n < 2 ^ 53"
| "spellable_one L (ByAnyOf _) = False"

definition spellable :: "search_lib \<Rightarrow> search_filter \<Rightarrow> bool" where
  "spellable L f =
     (case f of
        ByAnyOf ms \<Rightarrow> any_of_new ms = Some ms \<and> list_all (spellable_one L) ms
      | _ \<Rightarrow> spellable_one L f)"

lemma spellable_one_not_set: "spellable_one L f \<Longrightarrow> \<not> is_any_of f"
  by (cases f) auto


subsection \<open>Keywords\<close>

lemma field_keyword_parse: "field_parse (field_keyword f) = Some f"
  by (cases f) (simp_all add: field_parse_def lower_ascii_id byte_def)

lemma field_keyword_letters: "list_all (\<lambda>c. 97 \<le> byte c \<and> byte c \<le> 122) (field_keyword f)"
  by (cases f) (simp_all add: byte_def)

lemma field_keyword_nonempty: "field_keyword f \<noteq> []"
  by (cases f) simp_all

lemma letters_plain:
  assumes "list_all (\<lambda>c. 97 \<le> byte c \<and> byte c \<le> 122) s"
  shows "ws_free s" "x \<in> {CHR 0x22, CHR ''{'', CHR ''}'', CHR '':'', CHR ''-'', CHR ''=''} \<Longrightarrow> x \<notin> set s"
proof -
  show "ws_free s" using assms by (intro ws_free_ascii) (auto simp: list_all_iff)
  show "x \<in> {CHR 0x22, CHR ''{'', CHR ''}'', CHR '':'', CHR ''-'', CHR ''=''} \<Longrightarrow> x \<notin> set s"
    using assms by (auto simp: list_all_iff byte_def)
qed

text \<open>The word of a clause: its sign, its keyword, a colon and the spelling of the value.\<close>

definition sign_of :: "bool \<Rightarrow> string" where
  "sign_of negated = (if negated then ''-'' else [])"

definition clause_head :: "bool \<Rightarrow> search_field \<Rightarrow> string" where
  "clause_head negated field = sign_of negated @ field_keyword field @ '':''"

lemma opens_set_head: "opens_set (clause_head negated field)"
proof -
  have "strip_suffix '':'' (k @ '':'') = Some k" for k by (simp add: strip_suffix_def strip_prefix_def)
  moreover have "strip_prefix ''-'' (clause_head negated field) = (if negated then Some (field_keyword field @ '':'') else None)"
    using letters_plain(2) [OF field_keyword_letters, of "CHR ''-''" field] field_keyword_nonempty [of field]
    by (cases "field_keyword field") (auto simp: clause_head_def sign_of_def strip_prefix_def)
  ultimately show ?thesis
    using letters_plain(2) [OF field_keyword_letters, of _ field] field_keyword_parse [of field]
    by (auto simp: opens_set_def clause_head_def sign_of_def)
qed

lemma scan_visible:
  "32 < byte a \<Longrightarrow> byte a < 128 \<Longrightarrow> a \<notin> {CHR 0x22, CHR ''{'', CHR ''}''}
    \<Longrightarrow> scan_from seen False st (a # r) = scan_from (seen @ [a]) False st r"
  by (auto simp: ws_len_ascii simp del: ws_len.simps)

lemma scan_head: "scan_from [] False False (clause_head negated field @ r) = scan_from (clause_head negated field) False False r"
proof -
  let ?k = "sign_of negated @ field_keyword field"
  have "ws_free ?k"
    using letters_plain(1) [OF field_keyword_letters, of field]
    by (auto simp: sign_of_def ws_len_marks simp del: ws_len.simps)
  moreover have "x \<notin> set ?k" if "x \<in> {CHR 0x22, CHR ''{'', CHR ''}''}" for x
    using that letters_plain(2) [OF field_keyword_letters, of x field] by (auto simp: sign_of_def)
  ultimately have "scan_from [] False False (?k @ CHR '':'' # r) = scan_from ?k False False (CHR '':'' # r)"
    using scan_bare [of ?k "CHR '':'' # r" "[]" False] by (simp add: ends_word_def byte_def)
  also have "\<dots> = scan_from (?k @ '':'') False False r" by (rule scan_visible) (simp_all add: byte_def)
  finally show ?thesis by (simp add: clause_head_def)
qed

lemma split_operator_head:
  "CHR '':'' \<notin> set k \<Longrightarrow> CHR 0x22 \<notin> set k \<Longrightarrow> split_operator (k @ CHR '':'' # v) = Some (k, v)"
  by (induction k) auto

lemma classify_head:
  "classify_word L today (clause_head negated field @ v) = Some (operator L today negated field v)"
proof -
  let ?k = "field_keyword field"
  have k: "CHR '':'' \<notin> set ?k" "CHR 0x22 \<notin> set ?k" "CHR ''-'' \<notin> set ?k" "?k \<noteq> []"
    using letters_plain(2) [OF field_keyword_letters] field_keyword_nonempty by auto
  then obtain c r where cr: "?k = c # r" "c \<noteq> CHR ''-''" "c \<noteq> CHR 0x22" by (cases ?k) auto
  have "\<not> list_all (\<lambda>c. c = CHR ''-'' \<or> c = CHR 0x22) (clause_head negated field @ v)"
    using cr by (auto simp: clause_head_def sign_of_def)
  moreover have "strip_prefix ''-'' (clause_head negated field @ v) = (if negated then Some (?k @ CHR '':'' # v) else None)"
    using cr by (auto simp: clause_head_def sign_of_def strip_prefix_def)
  ultimately show ?thesis
    using k split_operator_head [of ?k v] field_keyword_parse [of field]
    by (auto simp: classify_word_def clause_head_def sign_of_def)
qed


subsection \<open>Values\<close>

lemma quote_value_cases:
  obtains "quote_value v = CHR 0x22 # v @ [CHR 0x22]"
  | "quote_value v = v" "v \<noteq> []" "ws_free v" "CHR ''{'' \<notin> set v" "CHR ''}'' \<notin> set v"
  by (cases "v = [] \<or> list_ex is_space (utf8_chars v) \<or> CHR ''{'' \<in> set v \<or> CHR ''}'' \<in> set v")
    (auto simp: quote_value_def ws_free_chars)

lemma quote_value_scan:
  assumes "plain_value v" "ends_word r"
  shows "scan_from seen False st (quote_value v @ r) = scan_from (seen @ quote_value v) False st r"
proof (cases v rule: quote_value_cases)
  case 1
  with assms show ?thesis by (simp add: plain_value_def scan_quoted)
next
  case 2
  with assms show ?thesis by (simp add: plain_value_def scan_bare)
qed

lemma drop_quotes_none: "CHR 0x22 \<notin> set v \<Longrightarrow> dropWhile (\<lambda>c. c = CHR 0x22) v = v"
  by (cases v) auto

lemma trim_quotes_quote_value: "plain_value v \<Longrightarrow> trim_quotes (quote_value v) = v"
proof (cases v rule: quote_value_cases)
  case 1
  assume v: "plain_value v"
  then have v': "v \<noteq> []" "CHR 0x22 \<notin> set v" by (auto simp: plain_value_def)
  then have "dropWhile (\<lambda>c. c = CHR 0x22) (v @ [CHR 0x22]) = v @ [CHR 0x22]" by (cases v) auto
  with 1 v' show ?thesis by (simp add: trim_quotes_def drop_quotes_none)
next
  case 2
  assume "plain_value v"
  with 2 show ?thesis by (simp add: plain_value_def trim_quotes_def drop_quotes_none)
qed

lemma quote_value_no_brace: "plain_value v \<Longrightarrow> strip_prefix ''{'' (quote_value v) = None"
  by (cases v rule: quote_value_cases; cases v) (auto simp: strip_prefix_def)

text \<open>A text in which nothing can end a word, open a set or quote.\<close>

definition inert :: "string \<Rightarrow> bool" where
  "inert v \<longleftrightarrow> v \<noteq> [] \<and> ws_free v \<and> CHR 0x22 \<notin> set v \<and> CHR ''{'' \<notin> set v \<and> CHR ''}'' \<notin> set v"

lemma inert_scan: "inert v \<Longrightarrow> ends_word r \<Longrightarrow> scan_from seen False st (v @ r) = scan_from (seen @ v) False st r"
  by (simp add: inert_def scan_bare)

lemma inert_facts: "inert v \<Longrightarrow> trim_quotes v = v \<and> strip_prefix ''{'' v = None"
  by (cases v) (auto simp: inert_def trim_quotes_def drop_quotes_none strip_prefix_def)

lemma visible_inert:
  "list_all (\<lambda>c. 32 < byte c \<and> byte c < 128 \<and> c \<notin> {CHR 0x22, CHR ''{'', CHR ''}''}) v \<Longrightarrow> v \<noteq> [] \<Longrightarrow> inert v"
  unfolding inert_def by (intro conjI ws_free_ascii) (auto simp: list_all_iff)

lemma digits_inert: "list_all is_digit v \<Longrightarrow> v \<noteq> [] \<Longrightarrow> inert v"
  by (rule visible_inert) (auto simp: list_all_iff is_digit_def byte_def)

lemma inert_append: "inert u \<Longrightarrow> inert (a # r) \<Longrightarrow> byte a < 128 \<Longrightarrow> inert (u @ a # r)"
  by (auto simp: inert_def ws_free_append_ascii)

lemma inert_char: "32 < byte a \<Longrightarrow> byte a < 128 \<Longrightarrow> a \<notin> {CHR 0x22, CHR ''{'', CHR ''}''} \<Longrightarrow> r = [] \<or> inert r \<Longrightarrow> inert (a # r)"
  by (auto simp: inert_def ws_len_ascii simp del: ws_len.simps)

lemma spell_size_inert: "inert (spell_size n)"
proof -
  have "inert (dec k)" for k using dec_digits [of k] by (intro digits_inert) auto
  moreover have "inert (dec k @ [a])" if "a \<in> {CHR ''G'', CHR ''M'', CHR ''K''}" for k a
    using that dec_digits [of k] by (intro inert_append inert_char digits_inert) (auto simp: byte_def)
  ultimately show ?thesis by (auto simp: spell_size_def)
qed

lemma format_date_inert: "plain_date L d \<Longrightarrow> inert (format_date d)"
proof -
  assume "plain_date L d"
  then have "format_date d = pad 4 (nat (dt_year d)) @ ''-'' @ pad 2 (dt_month d) @ ''-'' @ pad 2 (dt_day d)"
    by (simp add: plain_date_def format_date_def Let_def)
  moreover have "inert (pad w n)" for w n using pad_digits [of w n] by (intro digits_inert) auto
  ultimately show ?thesis by (auto intro!: inert_append inert_char simp: byte_def)
qed

text \<open>The spelling of the value of a filter that is not a set.\<close>

fun spell_value :: "search_filter \<Rightarrow> string" where
  "spell_value (ByFrom v) = quote_value v"
| "spell_value (ByTo v) = quote_value v"
| "spell_value (BySubject v) = quote_value v"
| "spell_value (ByIn v) = quote_value v"
| "spell_value (ByFilename v) = quote_value v"
| "spell_value (ByList v) = quote_value v"
| "spell_value (ByAccount v) = quote_value v"
| "spell_value (ByGroup v) = quote_value v"
| "spell_value (ByLabel v) = quote_value v"
| "spell_value (ByHeader name None) = name"
| "spell_value (ByHeader name (Some v)) = name @ ''='' @ quote_value v"
| "spell_value (ByWith addresses) = quote_value (intercalate '','' addresses)"
| "spell_value HasAttachment = ''attachment''"
| "spell_value HasAction = ''action''"
| "spell_value (ByIs st) = state_word st"
| "spell_value (ByAfter d) = format_date d"
| "spell_value (ByBefore d) = format_date d"
| "spell_value (ByLarger n) = spell_size n"
| "spell_value (BySmaller n) = spell_size n"
| "spell_value (ByAnyOf ms) = []"

lemma spell_filter_value:
  "\<not> is_any_of f \<Longrightarrow> spell_filter f = field_keyword (filter_field f) @ CHR '':'' # spell_value f"
  by (cases f rule: spell_value.cases) auto

lemma addresses_plain:
  "addresses \<noteq> [] \<Longrightarrow> list_all plain_address addresses \<Longrightarrow> plain_value (intercalate '','' addresses)"
  by (induction addresses rule: induct_list012) (auto simp: plain_address_def plain_value_def)

lemma addresses_split:
  "addresses \<noteq> [] \<Longrightarrow> list_all plain_address addresses \<Longrightarrow> split_on (CHR '','') (intercalate '','' addresses) = addresses"
proof (induction addresses rule: induct_list012)
  case (3 a b rest)
  have "split_on d (u @ d # r) = u # split_on d r" if "d \<notin> set u" for d u r
    using that by (induction u) auto
  with 3 show ?case by (simp add: plain_address_def)
qed (simp_all add: split_on_absent plain_address_def)

lemma state_word_inert: "inert (state_word st)"
  by (rule visible_inert) (cases st; simp add: byte_def)+

lemma word_inert: "inert ''attachment''" "inert ''action''"
  by (rule visible_inert; simp add: byte_def)+

lemma plain_name_inert: "plain_name n \<Longrightarrow> inert n"
  by (simp add: plain_name_def plain_value_def inert_def)

lemma spell_value_inert:
  "spellable_one L f \<Longrightarrow> filter_field f \<in> {FieldHas, FieldIs, FieldAfter, FieldBefore, FieldLarger, FieldSmaller}
    \<or> (\<exists>name. f = ByHeader name None) \<Longrightarrow> inert (spell_value f)"
  by (cases f rule: spell_value.cases)
    (simp_all add: plain_name_inert state_word_inert word_inert format_date_inert spell_size_inert)

text \<open>What a filter with a free text value holds.\<close>

fun text_value :: "search_filter \<Rightarrow> string option" where
  "text_value (ByFrom v) = Some v"
| "text_value (ByTo v) = Some v"
| "text_value (BySubject v) = Some v"
| "text_value (ByIn v) = Some v"
| "text_value (ByFilename v) = Some v"
| "text_value (ByList v) = Some v"
| "text_value (ByAccount v) = Some v"
| "text_value (ByGroup v) = Some v"
| "text_value (ByLabel v) = Some v"
| "text_value (ByWith addresses) = Some (intercalate '','' addresses)"
| "text_value _ = None"

lemma text_value_plain: "spellable_one L f \<Longrightarrow> text_value f = Some v \<Longrightarrow> plain_value v \<and> spell_value f = quote_value v"
  by (cases f) (auto simp: addresses_plain)

lemma text_value_some: "spellable_one L f \<Longrightarrow> takes_set (filter_field f) \<Longrightarrow> \<exists>v. text_value f = Some v"
  by (cases f) (auto simp: takes_set_def takes_free_text_def)

lemma spell_value_scan:
  assumes "spellable_one L f" "ends_word r"
  shows "scan_from seen False st (spell_value f @ r) = scan_from (seen @ spell_value f) False st r"
proof (cases "text_value f")
  case (Some v)
  from text_value_plain [OF assms(1) Some] show ?thesis by (simp add: quote_value_scan assms(2))
next
  case None
  show ?thesis
  proof (cases "\<exists>name v. f = ByHeader name (Some v)")
    case True
    then obtain name v where f: "f = ByHeader name (Some v)" by blast
    with assms(1) have "plain_value v" "inert name" by (simp_all add: plain_name_inert)
    then have "scan_from seen False st (name @ CHR ''='' # quote_value v @ r)
        = scan_from ((seen @ name) @ ''='') False st (quote_value v @ r)"
      using inert_scan [of name "CHR ''='' # quote_value v @ r" seen st] scan_visible [of "CHR ''=''" "seen @ name" st]
      by (simp add: ends_word_def byte_def del: scan_from.simps)
    with \<open>plain_value v\<close> f assms(2) show ?thesis by (simp add: quote_value_scan)
  next
    case False
    with None assms(1) have "inert (spell_value f)"
      by (intro spell_value_inert) (cases f rule: spell_value.cases; simp)+
    with assms(2) show ?thesis by (simp add: inert_scan del: scan_from.simps)
  qed
qed


subsection \<open>Reading a value back\<close>

lemma split_once_absent: "d \<notin> set s \<Longrightarrow> split_once d s = None"
  by (induction s) auto

lemma split_once_first: "d \<notin> set k \<Longrightarrow> split_once d (k @ d # v) = Some (k, v)"
  by (induction k) auto

lemma one_value_text:
  "spellable_one L f \<Longrightarrow> text_value f = Some v \<Longrightarrow> one_value L today (filter_field f) v = Some f"
proof (cases f)
  case (ByWith addresses)
  assume a: "spellable_one L f" "text_value f = Some v"
  with ByWith have "split_on (CHR '','') v = addresses" by (auto simp: addresses_split)
  moreover have "map trim addresses = addresses" "filter (\<lambda>a. a \<noteq> []) addresses = addresses"
    using a ByWith by (auto simp: list_all_iff plain_address_def plain_value_def map_idI filter_id_conv)
  ultimately show ?thesis using a ByWith by (simp add: one_value_def Let_def)
qed (auto simp: one_value_def)

lemma one_value_fixed:
  assumes "spellable_one L f" "text_value f = None" "filter_field f \<noteq> FieldHeader"
  shows "one_value L today (filter_field f) (spell_value f) = Some f"
proof (cases f)
  case (ByIs st)
  have "lower_ascii (state_word st) = state_word st" by (cases st) (simp_all add: lower_ascii_id byte_def)
  with ByIs show ?thesis by (cases st) (simp_all add: one_value_def)
qed (use assms in \<open>auto simp: one_value_def lower_ascii_id byte_def parse_date_format parse_size_spell\<close>)

lemma header_token_value:
  assumes "spellable_one L (ByHeader name val)"
  shows "header_token L negated (spell_value (ByHeader name val))
     = FilterToken \<lparr>cl_negated = negated, cl_filter = ByHeader name val\<rparr>"
proof -
  have name: "plain_name name" using assms by (cases val) auto
  then have n: "CHR ''='' \<notin> set name" "trim_quotes name = name" "normalize_name name = name" "name \<noteq> []"
    using inert_facts [OF plain_name_inert [OF name]] by (auto simp: plain_name_def plain_value_def)
  show ?thesis
  proof (cases val)
    case None
    with n show ?thesis by (simp add: header_token_def split_once_absent)
  next
    case (Some v)
    with assms have v: "plain_value v" "normalize_value L v = v" by auto
    with n Some show ?thesis
      by (simp add: header_token_def split_once_first trim_quotes_quote_value plain_value_def [of v])
  qed
qed

lemma plain_operator_value:
  assumes "spellable_one L f" "filter_field f \<noteq> FieldHeader"
  shows "strip_prefix ''{'' (spell_value f) = None"
    "plain_operator L today negated (filter_field f) (spell_value f) = FilterToken \<lparr>cl_negated = negated, cl_filter = f\<rparr>"
proof -
  have "strip_prefix ''{'' (spell_value f) = None
    \<and> (\<exists>v. trim_quotes (spell_value f) = v \<and> v \<noteq> [] \<and> one_value L today (filter_field f) v = Some f)"
  proof (cases "text_value f")
    case (Some v)
    with text_value_plain [OF assms(1) Some] one_value_text [OF assms(1) Some]
    show ?thesis by (simp add: quote_value_no_brace trim_quotes_quote_value plain_value_def)
  next
    case None
    with assms have "inert (spell_value f)" by (intro spell_value_inert) (cases f; simp)+
    with inert_facts one_value_fixed [OF assms(1) None assms(2)] show ?thesis by (auto simp: inert_def)
  qed
  then show "strip_prefix ''{'' (spell_value f) = None"
    "plain_operator L today negated (filter_field f) (spell_value f) = FilterToken \<lparr>cl_negated = negated, cl_filter = f\<rparr>"
    by (auto simp: plain_operator_def)
qed

lemma operator_value:
  "spellable_one L f \<Longrightarrow> operator L today negated (filter_field f) (spell_value f)
    = FilterToken \<lparr>cl_negated = negated, cl_filter = f\<rparr>"
proof (cases "filter_field f = FieldHeader")
  case True
  assume "spellable_one L f"
  with True obtain name val where "f = ByHeader name val" by (cases f) auto
  with \<open>spellable_one L f\<close> show ?thesis by (simp add: operator_def header_token_value)
next
  case False
  assume "spellable_one L f"
  with False plain_operator_value show ?thesis by (simp add: operator_def)
qed


subsection \<open>Sets\<close>

lemma set_fields: "takes_set (filter_field f) \<Longrightarrow> filter_field f \<noteq> FieldHeader"
  by (simp add: takes_set_def)

text \<open>The members of a set, written one after the other.\<close>

lemma quote_value_member_end:
  assumes "plain_value v" "r = [] \<or> hd r = CHR '' ''"
  shows "member_end False (quote_value v @ r) = length (quote_value v)"
proof (cases v rule: quote_value_cases)
  case 1
  have inside: "CHR 0x22 \<notin> set u \<Longrightarrow> member_end True (u @ s) = length u + member_end True s" for u s
    by (induction u) auto
  have "member_end False r = 0" using assms(2) by (cases r) (auto simp: ws_len_marks simp del: ws_len.simps)
  with 1 assms inside [of v "CHR 0x22 # r"] show ?thesis by (simp add: plain_value_def)
next
  case 2
  have e: "ends_word r" using assms(2) by (auto simp: ends_word_def byte_def)
  have stop: "member_end False r = 0" using assms(2) by (cases r) (auto simp: ws_len_marks simp del: ws_len.simps)
  have "member_end False (u @ r) = length u" if "ws_free u" "CHR 0x22 \<notin> set u" for u
    using that
  proof (induction u)
    case (Cons c u)
    then have "ws_len (bytes ((c # u) @ r)) = 0" by (subst ws_len_ends_word [OF _ e]) auto
    with Cons show ?case by (auto simp del: ws_len.simps)
  qed (simp add: stop)
  with 2 assms show ?thesis by (simp add: plain_value_def)
qed

lemma quote_value_head: "plain_value v \<Longrightarrow> ends_word r \<Longrightarrow> quote_value v \<noteq> [] \<and> ws_len (bytes (quote_value v @ r)) = 0"
proof (cases v rule: quote_value_cases)
  case 1
  then show ?thesis by (simp add: ws_len_marks del: ws_len.simps)
next
  case 2
  assume "plain_value v" "ends_word r"
  with 2 show ?thesis by (simp add: ws_len_ends_word ws_free_head)
qed

lemma set_members_step:
  assumes "spellable_one L f" "text_value f = Some v" "takes_set (filter_field f)"
    and "sp = [] \<or> sp = '' ''" "r = [] \<or> hd r = CHR '' ''"
  shows "set_members L today (filter_field f) (pre @ sp @ spell_value f @ r) (length pre)
    = map_option (\<lambda>ms. f # ms)
        (set_members L today (filter_field f) ((pre @ sp @ spell_value f) @ r) (length (pre @ sp @ spell_value f)))"
proof -
  have v: "plain_value v" "spell_value f = quote_value v" using text_value_plain [OF assms(1,2)] by auto
  have e: "ends_word r" using assms(5) by (auto simp: ends_word_def byte_def)
  let ?w = "spell_value f" and ?s = "pre @ sp @ spell_value f @ r"
  have "next_word_start ?s (length pre) = Some (length pre + length sp)"
    using quote_value_head [OF v(1) e] v(2) assms(4) by (intro next_word_start_at) auto
  moreover have "inner_word_end ?s (length pre + length sp) = length pre + length sp + length ?w"
    using quote_value_member_end [OF v(1) assms(5)] v(2) by (simp add: inner_word_end_def)
  moreover note plain_operator_value(1) [OF assms(1) set_fields [OF assms(3)]]
    plain_operator_value(2) [OF assms(1) set_fields [OF assms(3)], of today False]
  ultimately show ?thesis by (subst set_members.simps) (simp add: Let_def add.assoc)
qed

lemma set_members_tail:
  assumes "list_all (\<lambda>f. spellable_one L f \<and> filter_field f = field) ms" "takes_set field"
  shows "set_members L today field (pre @ concat (map (\<lambda>f. '' '' @ spell_value f) ms)) (length pre) = Some ms"
  using assms
proof (induction ms arbitrary: pre)
  case Nil
  then show ?case by (simp add: set_members.simps next_word_start_none)
next
  case (Cons f ms)
  let ?r = "concat (map (\<lambda>f. '' '' @ spell_value f) ms)"
  from Cons.prems have f: "spellable_one L f" "takes_set (filter_field f)" "filter_field f = field" by auto
  with text_value_some obtain v where "text_value f = Some v" by blast
  from set_members_step [OF f(1) this f(2), of "'' ''" ?r today pre] f(3) Cons.IH [of "pre @ '' '' @ spell_value f"] Cons.prems
  show ?case by (cases ms) simp_all
qed


definition members_text :: "search_filter list \<Rightarrow> string" where
  "members_text ms = intercalate '' '' (map spell_value ms)"

lemma members_text_Cons: "members_text (f # ms) = spell_value f @ concat (map (\<lambda>f. '' '' @ spell_value f) ms)"
  by (simp add: members_text_def intercalate_words comp_def)

text \<open>A set the parser can build: two members or more, of one field that takes sets.\<close>

lemma any_of_new_facts:
  assumes "any_of_new ms = Some ms"
  shows "2 \<le> length ms" "takes_set (filter_field (ByAnyOf ms))"
    "list_all (\<lambda>f. \<not> is_any_of f \<and> filter_field f = filter_field (ByAnyOf ms)) ms" "any_of ms = Some (ByAnyOf ms)"
  using assms by (auto simp: any_of_new_def any_of_def split: list.splits if_splits)

lemma set_members_text:
  assumes "any_of_new ms = Some ms" "list_all (spellable_one L) ms"
  shows "set_members L today (filter_field (ByAnyOf ms)) (members_text ms) 0 = Some ms"
proof -
  note facts = any_of_new_facts [OF assms(1)]
  obtain f rest where ms: "ms = f # rest" using facts(1) by (cases ms) auto
  let ?r = "concat (map (\<lambda>f. '' '' @ spell_value f) rest)"
  from assms(2) facts ms have f: "spellable_one L f" "takes_set (filter_field f)"
    and rest: "list_all (\<lambda>g. spellable_one L g \<and> filter_field g = filter_field f) rest"
    by (auto simp: list_all_iff)
  with text_value_some obtain v where "text_value f = Some v" by blast
  from set_members_step [OF f(1) this f(2), of "[]" ?r today "[]"] set_members_tail [OF rest f(2), of today "spell_value f"]
  show ?thesis by (cases rest) (auto simp: ms members_text_Cons)
qed

lemma closes_early_value: "plain_value v \<Longrightarrow> closes_early False (quote_value v @ r) = closes_early False r"
proof (cases v rule: quote_value_cases)
  case 1
  assume "plain_value v"
  have "CHR 0x22 \<notin> set u \<Longrightarrow> closes_early True (u @ s) = closes_early True s" for u s by (induction u) (auto simp: Let_def)
  with 1 \<open>plain_value v\<close> show ?thesis by (simp add: plain_value_def Let_def)
next
  case 2
  assume "plain_value v"
  have "CHR 0x22 \<notin> set u \<Longrightarrow> CHR ''}'' \<notin> set u \<Longrightarrow> closes_early False (u @ s) = closes_early False s" for u s
    by (induction u) (auto simp: Let_def)
  with 2 \<open>plain_value v\<close> show ?thesis by (simp add: plain_value_def)
qed

definition member_ok :: "search_lib \<Rightarrow> search_filter \<Rightarrow> bool" where
  "member_ok L f \<longleftrightarrow> spellable_one L f \<and> takes_set (filter_field f)"

lemma member_ok_value: "member_ok L f \<Longrightarrow> \<exists>v. plain_value v \<and> spell_value f = quote_value v"
  using text_value_some text_value_plain by (fastforce simp: member_ok_def)

lemma closes_early_members:
  assumes "list_all (member_ok L) ms"
  shows "closes_early False (members_text ms) = False"
proof -
  have step: "closes_early False (spell_value f @ r) = closes_early False r" if "member_ok L f" for f r
    using member_ok_value [OF that] closes_early_value by force
  have tail: "list_all (member_ok L) ms \<Longrightarrow> closes_early False (concat (map (\<lambda>f. '' '' @ spell_value f) ms)) = False" for ms
    by (induction ms) (simp_all add: step Let_def)
  show ?thesis
  proof (cases ms)
    case Nil
    then show ?thesis by (simp add: members_text_def)
  next
    case (Cons f rest)
    with assms step [of f] tail [of rest] show ?thesis by (simp add: members_text_Cons)
  qed
qed

lemma scan_members:
  assumes "list_all (member_ok L) ms"
  shows "scan_from seen False True (members_text ms @ ''}'') = (None, False, False)"
proof -
  have e: "ends_word (concat (map (\<lambda>f. '' '' @ spell_value f) ms) @ ''}'')" for ms
    by (cases ms) (auto simp: ends_word_def byte_def)
  have step: "scan_from seen False True (spell_value f @ r) = scan_from (seen @ spell_value f) False True r"
    if "member_ok L f" "ends_word r" for f r seen
    using that spell_value_scan [of L f r seen True] by (simp add: member_ok_def)
  have tail: "list_all (member_ok L) ms \<Longrightarrow>
      scan_from seen False True (concat (map (\<lambda>f. '' '' @ spell_value f) ms) @ ''}'') = (None, False, False)" for ms seen
  proof (induction ms arbitrary: seen)
    case (Cons f ms)
    then show ?case using step [of f "concat (map (\<lambda>f. '' '' @ spell_value f) ms) @ ''}''" "seen @ '' ''"] e [of ms] by simp
  qed simp
  show ?thesis
  proof (cases ms)
    case Nil
    then show ?thesis by (simp add: members_text_def)
  next
    case (Cons f rest)
    with assms step [of f, OF _ e [of rest]] tail [of rest] show ?thesis by (simp add: members_text_Cons)
  qed
qed

lemma spell_set:
  assumes "any_of_new ms = Some ms"
  shows "spell_filter (ByAnyOf ms) = field_keyword (filter_field (ByAnyOf ms)) @ '':{'' @ members_text ms @ ''}''"
proof -
  have "(case split_once (CHR '':'') (spell_filter m) of Some (_, v) \<Rightarrow> v | None \<Rightarrow> spell_filter m) = spell_value m"
    if "m \<in> set ms" for m
    using any_of_new_facts(3) [OF assms] that letters_plain(2) [OF field_keyword_letters, of "CHR '':''" "filter_field m"]
    by (auto simp: list_all_iff spell_filter_value split_once_first)
  then have "map (\<lambda>m. case split_once (CHR '':'') (spell_filter m) of Some (_, v) \<Rightarrow> v | None \<Rightarrow> spell_filter m) ms
      = map spell_value ms" by simp
  then show ?thesis by (simp only: spell_filter.simps members_text_def append.simps append_assoc)
qed

lemma operator_set:
  assumes "any_of_new ms = Some ms" "list_all (spellable_one L) ms"
  shows "operator L today negated (filter_field (ByAnyOf ms)) (''{'' @ members_text ms @ ''}'')
    = FilterToken \<lparr>cl_negated = negated, cl_filter = ByAnyOf ms\<rparr>"
proof -
  note facts = any_of_new_facts [OF assms(1)]
  have ok: "list_all (member_ok L) ms" using assms(2) facts(2,3) by (auto simp: list_all_iff member_ok_def)
  have "strip_prefix ''{'' (''{'' @ x @ ''}'') = Some (x @ ''}'')" "strip_suffix ''}'' (x @ ''}'') = Some x" for x
    by (simp_all add: strip_prefix_def strip_suffix_def)
  with facts set_members_text [OF assms, of today] closes_early_members [OF ok] set_fields [OF facts(2)]
  show ?thesis by (simp add: operator_def set_filter_def inner_closes_early_def)
qed


subsection \<open>The round trip\<close>

lemma spell_clause:
  assumes "spellable L f"
  obtains v where "spell \<lparr>cl_negated = negated, cl_filter = f\<rparr> = clause_head negated (filter_field f) @ v"
    "operator L today negated (filter_field f) v = FilterToken \<lparr>cl_negated = negated, cl_filter = f\<rparr>"
    "scan_from (clause_head negated (filter_field f)) False False v = (None, False, False)"
proof (cases "is_any_of f")
  case False
  with assms have one: "spellable_one L f" by (cases f) (auto simp: spellable_def)
  show thesis
  proof
    show "spell \<lparr>cl_negated = negated, cl_filter = f\<rparr> = clause_head negated (filter_field f) @ spell_value f"
      using False by (simp add: spell_def spell_filter_value clause_head_def sign_of_def)
    show "operator L today negated (filter_field f) (spell_value f) = FilterToken \<lparr>cl_negated = negated, cl_filter = f\<rparr>"
      by (rule operator_value [OF one])
    show "scan_from (clause_head negated (filter_field f)) False False (spell_value f) = (None, False, False)"
      using spell_value_scan [OF one, of "[]"] by (simp add: ends_word_def)
  qed
next
  case True
  then obtain ms where f: "f = ByAnyOf ms" by (cases f) auto
  with assms have ms: "any_of_new ms = Some ms" "list_all (spellable_one L) ms" by (auto simp: spellable_def)
  let ?head = "clause_head negated (filter_field (ByAnyOf ms))"
  show thesis
  proof (rule that [of "''{'' @ members_text ms @ ''}''"])
    show "spell \<lparr>cl_negated = negated, cl_filter = f\<rparr> = clause_head negated (filter_field f) @ ''{'' @ members_text ms @ ''}''"
      by (simp add: f spell_def spell_set [OF ms(1)] clause_head_def sign_of_def del: spell_filter.simps filter_field.simps)
    show "operator L today negated (filter_field f) (''{'' @ members_text ms @ ''}'') = FilterToken \<lparr>cl_negated = negated, cl_filter = f\<rparr>"
      unfolding f by (rule operator_set [OF ms])
    have "list_all (member_ok L) ms"
      using ms(2) any_of_new_facts(2,3) [OF ms(1)] by (auto simp: list_all_iff member_ok_def)
    then show "scan_from (clause_head negated (filter_field f)) False False (''{'' @ members_text ms @ ''}'') = (None, False, False)"
      by (simp add: f opens_set_head scan_members [simplified] del: filter_field.simps)
  qed
qed

lemma spell_word:
  fixes c :: search_clause
  assumes "spellable L (cl_filter c)"
  shows "word_ok (spell c)" "word_closed (spell c)" "classify_word L today (spell c) = Some (FilterToken c)"
proof -
  obtain v where v: "spell c = clause_head (cl_negated c) (filter_field (cl_filter c)) @ v"
    "operator L today (cl_negated c) (filter_field (cl_filter c)) v = FilterToken c"
    "scan_from (clause_head (cl_negated c) (filter_field (cl_filter c))) False False v = (None, False, False)"
    using spell_clause [OF assms, of "cl_negated c" today] by (metis (full_types) search_clause.surjective old.unit.exhaust)
  show closed: "word_closed (spell c)" using v(1,3) by (simp add: word_closed_def scan_def scan_head)
  have "ws_len (bytes (clause_head n f @ v)) = 0 \<and> clause_head n f \<noteq> []" for n f
    using letters_plain(1) [OF field_keyword_letters, of f] field_keyword_letters [of f] field_keyword_nonempty [of f]
    by (cases "field_keyword f") (auto simp: clause_head_def sign_of_def ws_len_marks ws_len_ascii simp del: ws_len.simps)
  with closed v(1) show "word_ok (spell c)" by (simp add: word_ok_def word_closed_def)
  show "classify_word L today (spell c) = Some (FilterToken c)" using v(1,2) by (simp add: classify_head)
qed

end
