(* ===== verification/Search_Edit.thy ===== *)
theory Search_Edit
  imports Search_Query
begin

section \<open>Editing a query\<close>

text \<open>
  \<open>crates/postio-search/src/edit.rs\<close>: what a chip, a button or a popover does to the text
  of a query.  \<open>words\<close> is the list the code calls so: the raw text of each token, \<open>None\<close>
  where one was taken out.
\<close>

datatype search_edit =
    AddClause search_clause
  | RemoveToken nat
  | ReplaceToken nat search_clause
  | ToggleFilter search_filter
  | SetDates "ymd option" "ymd option"  \<comment> \<open>after, before\<close>
  | ClearFilters
  | ExcludeFilter search_filter
  | DatesAs bool  \<comment> \<open>rolling\<close>

text \<open>A name is the same name whatever its case; anything else is the same when it is equal.\<close>

fun name_value :: "search_filter \<Rightarrow> string option" where
  "name_value (ByFrom x) = Some x"
| "name_value (ByTo x) = Some x"
| "name_value (BySubject x) = Some x"
| "name_value (ByIn x) = Some x"
| "name_value (ByFilename x) = Some x"
| "name_value (ByList x) = Some x"
| "name_value (ByAccount x) = Some x"
| "name_value (ByGroup x) = Some x"
| "name_value (ByLabel x) = Some x"
| "name_value _ = None"

definition same_one :: "search_lib \<Rightarrow> search_filter \<Rightarrow> search_filter \<Rightarrow> bool" where
  "same_one L a b \<longleftrightarrow>
     (case (name_value a, name_value b) of
        (Some x, Some y) \<Rightarrow> filter_field a = filter_field b \<and> sx_lower L x = sx_lower L y
      | _ \<Rightarrow> a = b)"

lemma member_size: "x \<in> set xs \<Longrightarrow> size (x :: search_filter) \<le> size_list size xs"
  by (induction xs) auto

function same :: "search_lib \<Rightarrow> search_filter \<Rightarrow> search_filter \<Rightarrow> bool" where
  "same L a b \<longleftrightarrow>
     (case (a, b) of
        (ByAnyOf xs, ByAnyOf ys) \<Rightarrow>
          list_all (\<lambda>x. list_ex (\<lambda>y. same L x y) ys) xs \<and> list_all (\<lambda>y. list_ex (\<lambda>x. same L y x) xs) ys
      | _ \<Rightarrow> \<not> is_any_of a \<and> \<not> is_any_of b \<and> same_one L a b)"
  by pat_completeness auto
termination
  by (relation "measure (\<lambda>(L, a, b). size a + size b)") (auto dest!: member_size)

declare same.simps [simp del]

definition close_word :: "string \<Rightarrow> string" where
  "close_word w =
     (let w = (if odd (length (filter (\<lambda>c. c = CHR 0x22) w)) then w @ [CHR 0x22] else w)
      in if leaves_set_open w then w @ ''}'' else w)"

fun join :: "string list \<Rightarrow> string" where
  "join [] = []"
| "join [w] = w"
| "join (w # v # ws) = close_word w @ '' '' @ join (v # ws)"

definition holds_clause :: "search_lib \<Rightarrow> search_filter \<Rightarrow> bool \<Rightarrow> search_token \<Rightarrow> search_clause option" where
  "holds_clause L f negated t =
     (case tk_kind t of
        FilterToken c \<Rightarrow>
          if cl_negated c = negated \<and> list_ex (\<lambda>held. same L held f) (alternatives (cl_filter c)) then Some c else None
      | _ \<Rightarrow> None)"

definition holders :: "search_lib \<Rightarrow> search_token list \<Rightarrow> search_filter \<Rightarrow> bool \<Rightarrow> (nat \<times> search_clause) list" where
  "holders L tokens f negated =
     List.map_filter (\<lambda>(i, t). map_option (Pair i) (holds_clause L f negated t)) (enumerate 0 tokens)"

definition without :: "search_lib \<Rightarrow> search_clause \<Rightarrow> search_filter \<Rightarrow> search_clause option" where
  "without L c f =
     map_option (\<lambda>g. \<lparr>cl_negated = cl_negated c, cl_filter = g\<rparr>)
       (any_of (filter (\<lambda>held. \<not> same L held f) (alternatives (cl_filter c))))"

definition asks_already :: "search_lib \<Rightarrow> search_clause \<Rightarrow> search_token \<Rightarrow> bool" where
  "asks_already L clause t =
     (case tk_kind t of
        FilterToken c \<Rightarrow> cl_negated c = cl_negated clause
          \<and> list_all (\<lambda>wanted. list_ex (\<lambda>held. same L held wanted) (alternatives (cl_filter c)))
              (alternatives (cl_filter clause))
      | _ \<Rightarrow> False)"

definition half_typed :: "search_clause \<Rightarrow> search_token \<Rightarrow> bool" where
  "half_typed clause t =
     (case tk_kind t of
        PartialToken p \<Rightarrow> sp_negated p = cl_negated clause \<and> sp_field p = filter_field (cl_filter clause)
      | _ \<Rightarrow> False)"

text \<open>\<open>position\<close> and \<open>rposition\<close>: the first and the last index.\<close>

fun position :: "('a \<Rightarrow> bool) \<Rightarrow> 'a list \<Rightarrow> nat option" where
  "position P [] = None"
| "position P (x # xs) = (if P x then Some 0 else map_option Suc (position P xs))"

definition rposition :: "('a \<Rightarrow> bool) \<Rightarrow> 'a list \<Rightarrow> nat option" where
  "rposition P xs = map_option (\<lambda>i. length xs - Suc i) (position P (rev xs))"

definition add_clause :: "search_lib \<Rightarrow> search_token list \<Rightarrow> string option list \<Rightarrow> search_clause \<Rightarrow> string option list" where
  "add_clause L tokens words clause =
     (if list_ex (asks_already L clause) tokens then words
      else (case rposition (half_typed clause) tokens of
              Some i \<Rightarrow> words[i := Some (spell clause)]
            | None \<Rightarrow> words @ [Some (spell clause)]))"

text \<open>The other polarity: each word without the filter, and the first index left empty.\<close>

fun take_out :: "search_lib \<Rightarrow> search_filter \<Rightarrow> string option list \<times> nat option \<Rightarrow> (nat \<times> search_clause) list
    \<Rightarrow> string option list \<times> nat option" where
  "take_out L f acc [] = acc"
| "take_out L f (words, emptied) ((i, c) # rest) =
     (case without L c f of
        Some g \<Rightarrow> take_out L f (words[i := Some (spell g)], emptied) rest
      | None \<Rightarrow> take_out L f (words[i := None], Some (case emptied of Some j \<Rightarrow> j | None \<Rightarrow> i)) rest)"

text \<open>The first clause of this polarity and field, joined with the filter into a set.\<close>

definition joined_set :: "search_filter \<Rightarrow> bool \<Rightarrow> search_token \<Rightarrow> search_filter option" where
  "joined_set f negated t =
     (case tk_kind t of
        FilterToken held \<Rightarrow>
          if cl_negated held = negated \<and> filter_field (cl_filter held) = filter_field f
          then any_of (alternatives (cl_filter held) @ [f]) else None
      | _ \<Rightarrow> None)"

fun find_joined :: "search_filter \<Rightarrow> bool \<Rightarrow> (nat \<times> search_token) list \<Rightarrow> (nat \<times> search_filter) option" where
  "find_joined f negated [] = None"
| "find_joined f negated ((i, t) # rest) =
     (case joined_set f negated t of Some g \<Rightarrow> Some (i, g) | None \<Rightarrow> find_joined f negated rest)"

definition flip :: "search_lib \<Rightarrow> search_token list \<Rightarrow> string option list \<Rightarrow> search_filter \<Rightarrow> bool \<Rightarrow> string option list" where
  "flip L tokens words f negated =
     (let here = holders L tokens f negated in
      if here \<noteq> [] then
        foldl (\<lambda>words (i, c). words[i := map_option spell (without L c f)]) words here
      else
        (let (words, emptied) = take_out L f (words, None) (holders L tokens f (\<not> negated));
             clause = \<lparr>cl_negated = negated, cl_filter = f\<rparr>;
             joined = (if takes_set (filter_field f) then find_joined f negated (enumerate 0 tokens) else None) in
         case (joined, emptied) of
           (Some (i, g), _) \<Rightarrow> words[i := Some (spell \<lparr>cl_negated = negated, cl_filter = g\<rparr>)]
         | (None, Some i) \<Rightarrow> words[i := Some (spell clause)]
         | (None, None) \<Rightarrow> add_clause L tokens words clause))"

text \<open>\<open>SetDates\<close>: the words of one field, the first in place, and whether it was placed.\<close>

definition set_date :: "search_token list \<Rightarrow> search_field \<Rightarrow> ymd option \<Rightarrow> string option list \<Rightarrow> string option list" where
  "set_date tokens field date words =
     (let spelled = map_option (\<lambda>d. spell \<lparr>cl_negated = False,
            cl_filter = (if field = FieldAfter then ByAfter d else ByBefore d)\<rparr>) date;
          (words, placed) = foldl (\<lambda>(words, placed) (i, t).
            if token_field t = Some field then (words[i := if placed then None else spelled], True)
            else (words, placed)) (words, False) (enumerate 0 tokens) in
      if \<not> placed \<and> spelled \<noteq> None then words @ [spelled] else words)"

definition dates_as :: "search_lib \<Rightarrow> ymd \<Rightarrow> bool \<Rightarrow> search_token \<Rightarrow> string option \<Rightarrow> string option" where
  "dates_as L today rolling t word =
     (case tk_kind t of
        FilterToken c \<Rightarrow>
          (case (case cl_filter c of ByAfter d \<Rightarrow> Some (''after'', d) | ByBefore d \<Rightarrow> Some (''before'', d) | _ \<Rightarrow> None) of
             None \<Rightarrow> word
           | Some (field, date) \<Rightarrow>
               if rolling then
                 Some ((if cl_negated c then ''-'' else '''') @ field @ '':''
                   @ dec (nat (max 0 (sx_days_between L date today))) @ ''d'')
               else Some (spell c))
      | _ \<Rightarrow> word)"

definition edit_words :: "search_lib \<Rightarrow> ymd \<Rightarrow> search_token list \<Rightarrow> search_edit \<Rightarrow> string option list" where
  "edit_words L today tokens edit =
     (let words = map (\<lambda>t. Some (tk_raw t)) tokens in
      case edit of
        AddClause c \<Rightarrow> add_clause L tokens words c
      | RemoveToken k \<Rightarrow> words[k := None]
      | ReplaceToken k c \<Rightarrow> words[k := Some (spell c)]
      | ToggleFilter f \<Rightarrow> flip L tokens words f False
      | ExcludeFilter f \<Rightarrow> flip L tokens words f True
      | SetDates after before \<Rightarrow> set_date tokens FieldBefore before (set_date tokens FieldAfter after words)
      | ClearFilters \<Rightarrow> map (\<lambda>t. if token_field t = None then Some (tk_raw t) else None) tokens
      | DatesAs rolling \<Rightarrow> map2 (dates_as L today rolling) tokens words)"

text \<open>\<open>into_iter().flatten()\<close>.\<close>

fun present :: "'a option list \<Rightarrow> 'a list" where
  "present [] = []"
| "present (None # xs) = present xs"
| "present (Some x # xs) = x # present xs"

lemma set_present: "set (present xs) = {x. Some x \<in> set xs}"
  by (induction xs rule: present.induct) auto

definition apply_edit :: "search_lib \<Rightarrow> ymd \<Rightarrow> string \<Rightarrow> search_edit \<Rightarrow> string" where
  "apply_edit L today query edit =
     join (present (edit_words L today (parse L today query) edit))"

end
