(* ===== verification/Search_Props.thy ===== *)
theory Search_Props
  imports Search_Spell Search_Edit "HOL-Library.Sublist"
begin

section \<open>What parsing, spelling and editing a query keep\<close>

text \<open>
  The round trip of a spelled query, the shape of what the parser returns, and what each
  edit does to the tokens the next parse sees.
\<close>

subsection \<open>Spelling\<close>

lemma read_word_spell:
  "spellable L (cl_filter c) \<Longrightarrow> read_word L today (spell c) = Some (spell c, FilterToken c)"
  by (simp add: read_word_def spell_word)

lemma spelled_words_ok: "list_all (\<lambda>c. spellable L (cl_filter c)) cs \<Longrightarrow> words_ok (map spell cs)"
proof -
  assume "list_all (\<lambda>c. spellable L (cl_filter c)) cs"
  then have "\<forall>w\<in>set (map spell cs). word_ok w \<and> word_closed w" by (auto simp: list_all_iff spell_word)
  then show ?thesis unfolding words_ok_def list_all_iff by (meson in_set_butlastD)
qed

lemma read_words_spell: "list_all (\<lambda>c. spellable L (cl_filter c)) cs \<Longrightarrow>
    List.map_filter (read_word L today) (map spell cs) = map (\<lambda>c. (spell c, FilterToken c)) cs"
  by (induction cs) (simp_all add: map_filter_simps read_word_spell)

lemma parse_spelled:
  assumes "list_all (\<lambda>c. spellable L (cl_filter c)) cs"
  shows "readings (parse L today (intercalate '' '' (map spell cs))) = map (\<lambda>c. (spell c, FilterToken c)) cs"
  by (simp only: parse_words [OF spelled_words_ok [OF assms]] read_words_spell [OF assms])

lemma readings_kinds: "map tk_kind ts = map snd (readings ts)"
  by (simp add: readings_def)



text \<open>A library over ASCII with a proleptic calendar of short months, and a query of four clauses.\<close>

definition demo_search_lib :: search_lib where
  "demo_search_lib =
     \<lparr>sx_valid = (\<lambda>y m d. 1 \<le> m \<and> m \<le> 12 \<and> 1 \<le> d \<and> d \<le> 28), sx_sub_days = (\<lambda>d n. None),
      sx_sub_months = (\<lambda>d n. None), sx_days_between = (\<lambda>a b. 0), sx_alphabetic = (\<lambda>_. False),
      sx_alphanumeric = (\<lambda>_. False), sx_lower_char = (\<lambda>c. c), sx_lower = lower_ascii, sx_decode_header = (\<lambda>s. s)\<rparr>"

definition demo_today :: ymd where "demo_today = \<lparr>dt_year = 2026, dt_month = 8, dt_day = 20\<rparr>"

definition demo_clauses :: "search_clause list" where
  "demo_clauses =
     [\<lparr>cl_negated = False, cl_filter = ByFrom ''ada lovelace''\<rparr>,
      \<lparr>cl_negated = True, cl_filter = ByAnyOf [ByLabel ''atlas'', ByLabel ''Q3 close'']\<rparr>,
      \<lparr>cl_negated = False, cl_filter = ByAfter \<lparr>dt_year = 2026, dt_month = 1, dt_day = 2\<rparr>\<rparr>,
      \<lparr>cl_negated = False, cl_filter = ByLarger 1048576\<rparr>]"

lemma demo_clauses_spellable: "list_all (\<lambda>c. spellable demo_search_lib (cl_filter c)) demo_clauses"
  by (simp add: demo_clauses_def demo_search_lib_def spellable_def plain_value_def plain_date_def any_of_new_def
      takes_set_def takes_free_text_def)



subsection \<open>Closing a word\<close>

definition quotes :: "string \<Rightarrow> nat" where
  "quotes w = length (filter (\<lambda>c. c = CHR 0x22) w)"

lemma scan_quotes: "scan_from seen q st w = (None, q', st') \<Longrightarrow> q' = (q \<noteq> odd (quotes w))"
  by (induction seen q st w rule: scan_from.induct) (auto simp: quotes_def simp del: ws_len.simps split: if_splits)

lemma close_word_ok:
  assumes "word_ok w"
  shows "word_ok (close_word w)" "word_closed (close_word w)"
proof -
  obtain q st where s: "scan_from [] False False w = (None, q, st)"
    using assms by (cases "scan_from [] False False w") (auto simp: word_ok_def scan_def)
  from scan_quotes [OF s] have q: "q = odd (quotes w)" by simp
  let ?w = "if q then w @ [CHR 0x22] else w"
  have quoted: "scan ?w = (None, False, st)"
    using s scan_from_append [OF _ s, of "[CHR 0x22]"] by (auto simp: scan_def ends_word_def byte_def)
  have ends: "ends_word ''}''" by (simp add: ends_word_def byte_def)
  have closed: "scan (if st then ?w @ ''}'' else ?w) = (None, False, False)"
    using quoted scan_from_append [OF ends, of "[]" False False ?w False st] by (auto simp: scan_def)
  have c: "close_word w = (if st then ?w @ ''}'' else ?w)"
    using quoted q by (simp add: close_word_def leaves_set_open_def quotes_def [symmetric] Let_def)
  with closed show w: "word_closed (close_word w)" by (simp add: word_closed_def)
  have head: "ws_len (bytes (w @ r)) = 0" if "ends_word r" for r
    using assms that by (simp add: word_ok_def ws_len_ends_word)
  have "ws_len (bytes (close_word w)) = 0"
    using head [of "[]"] head [of "[CHR 0x22]"] head [of "''}''"] head [of "[CHR 0x22] @ ''}''"]
    by (simp add: c ends_word_def byte_def)
  with w assms c show "word_ok (close_word w)" by (simp add: word_ok_def word_closed_def)
qed

lemma close_word_closed: "word_closed w \<Longrightarrow> close_word w = w"
  using scan_quotes [of "[]" False False w] by (auto simp: word_closed_def close_word_def leaves_set_open_def scan_def quotes_def)

text \<open>What a list of words reads as once they are joined: all but the last are closed.\<close>

definition closed_words :: "string list \<Rightarrow> string list" where
  "closed_words ws = (if ws = [] then [] else map close_word (butlast ws) @ [last ws])"

lemma join_closed: "join ws = intercalate '' '' (closed_words ws)"
proof (induction ws rule: join.induct)
  case (3 w v ws)
  have "closed_words (v # ws) \<noteq> []" by (simp add: closed_words_def)
  then obtain a r where "closed_words (v # ws) = a # r" by (cases "closed_words (v # ws)") auto
  with 3 show ?case by (simp add: closed_words_def)
qed (simp_all add: closed_words_def)

lemma words_ok_closed: "list_all word_ok ws \<Longrightarrow> words_ok (closed_words ws)"
  by (cases ws rule: rev_cases)
    (auto simp: closed_words_def words_ok_def list_all_iff butlast_append close_word_ok)

lemma parse_join: "list_all word_ok ws \<Longrightarrow>
    readings (parse L today (join ws)) = List.map_filter (read_word L today) (closed_words ws)"
  by (simp add: join_closed parse_words words_ok_closed)

lemma closed_words_id: "words_ok ws \<Longrightarrow> closed_words ws = ws"
  by (cases ws rule: rev_cases) (auto simp: closed_words_def words_ok_def butlast_append list_all_iff close_word_closed
      intro!: map_idI)

lemma parse_join_ok: "words_ok ws \<Longrightarrow> readings (parse L today (join ws)) = List.map_filter (read_word L today) ws"
  using parse_join [of ws L today] closed_words_id [of ws] by (simp add: words_ok_def)


subsection \<open>Tokens\<close>

lemma parse_from_slices:
  "\<forall>t \<in> set (parse_from L today input cursor). cursor \<le> tk_start t \<and> tk_start t < tk_end t
     \<and> tk_end t \<le> length input \<and> tk_raw t = take (tk_end t - tk_start t) (drop (tk_start t) input)"
  "sorted_wrt (\<lambda>t u. tk_end t \<le> tk_start u) (parse_from L today input cursor)"
proof (induction L today input cursor rule: parse_from.induct)
  case (1 L today input cursor)
  {
    case 1
    show ?case
    proof (cases "next_word_start input cursor")
      case (Some start)
      note token = parse_from_token(3-5) [OF Some refl]
      from "1.IH"(1) [OF Some refl refl] token show ?thesis
        by (subst parse_from.simps) (fastforce simp: Some Let_def split: option.splits)
    qed (simp add: parse_from.simps)
  next
    case 2
    show ?case
    proof (cases "next_word_start input cursor")
      case (Some start)
      from "1.IH" [OF Some refl refl] show ?thesis
        by (subst parse_from.simps) (auto simp: Some Let_def split: option.splits)
    qed (simp add: parse_from.simps)
  }
qed

text \<open>
  The tokens of a query are slices of its text, in order and disjoint: each starts
  before it ends, ends within the text, and its raw text is what the text holds there.  The
  raw texts, one space apart, are read back as the same tokens.
\<close>

theorem search_tokens_are_slices:
  "list_all (\<lambda>t. tk_start t < tk_end t \<and> tk_end t \<le> length input
        \<and> tk_raw t = take (tk_end t - tk_start t) (drop (tk_start t) input)) (parse L today input)
    \<and> sorted_wrt (\<lambda>t u. tk_end t \<le> tk_start u) (parse L today input)
    \<and> readings (parse L today (intercalate '' '' (map tk_raw (parse L today input)))) = readings (parse L today input)"
proof -
  have "readings (parse L today (intercalate '' '' (map tk_raw (parse L today input)))) = readings (parse L today input)"
    using parse_from_words [of L today input 0] parse_words by (simp add: parse_def)
  with parse_from_slices [of L today input 0] show ?thesis by (simp add: parse_def list_all_iff)
qed


subsection \<open>Taking words out\<close>

lemma words_ok_subseq: "subseq xs ys \<Longrightarrow> words_ok ys \<Longrightarrow> words_ok xs"
proof (induction rule: list_emb.induct)
  case (list_emb_Cons xs ys y)
  then show ?case by (simp add: words_ok_Cons)
next
  case (list_emb_Cons2 x y xs ys)
  then show ?case by (cases ys) (auto simp: words_ok_Cons)
qed (simp add: words_ok_def)

lemma tokens_read:
  assumes "set ts \<subseteq> set (parse L today q)"
  shows "List.map_filter (read_word L today) (map tk_raw ts) = readings ts"
  using assms by (induction ts) (auto simp: map_filter_simps readings_def read_word_def token_reading)

lemma kept_tokens:
  assumes "subseq ts (parse L today q)"
  shows "readings (parse L today (join (map tk_raw ts))) = readings ts"
proof -
  have "words_ok (map tk_raw ts)"
    using words_ok_subseq [OF subseq_map [OF assms] parse_words_ok] by blast
  moreover have "set ts \<subseteq> set (parse L today q)" using assms by (auto dest: list_emb_set)
  ultimately show ?thesis by (simp add: parse_join_ok tokens_read)
qed

lemma some_words: "present (map (\<lambda>t. Some (f t)) ts) = map f ts"
  by (induction ts) simp_all

lemma words_minus: "present ((map (\<lambda>t. Some (tk_raw t)) ts)[k := None])
    = map tk_raw (take k ts @ drop (Suc k) ts)"
  by (induction ts arbitrary: k) (auto simp: some_words split: nat.split)

text \<open>
  Removing a token takes that token out of the query and changes no other: the next
  parse sees the same readings without it.  Clearing the filters leaves exactly the free
  words, half-typed operators gone too.
\<close>

theorem search_remove_is_exact:
  "map tk_kind (parse L today (apply_edit L today q (RemoveToken k)))
     = map tk_kind (take k (parse L today q) @ drop (Suc k) (parse L today q))
   \<and> map tk_kind (parse L today (apply_edit L today q ClearFilters))
     = map tk_kind (filter (\<lambda>t. token_field t = None) (parse L today q))"
proof -
  let ?ts = "parse L today q"
  have "subseq (take k ?ts @ drop (Suc k) ?ts) (take k ?ts @ drop k ?ts)"
    by (intro list_emb_append_mono subseq_order.refl) (metis drop_drop add.commute plus_1_eq_Suc suffix_drop suffix_imp_subseq)
  from kept_tokens [OF this [unfolded append_take_drop_id]]
  have "readings (parse L today (apply_edit L today q (RemoveToken k))) = readings (take k ?ts @ drop (Suc k) ?ts)"
    by (simp add: apply_edit_def edit_words_def Let_def words_minus del: map_append)
  then have remove: "map tk_kind (parse L today (apply_edit L today q (RemoveToken k)))
      = map tk_kind (take k ?ts @ drop (Suc k) ?ts)" by (simp only: readings_kinds)
  have "present (map (\<lambda>t. if token_field t = None then Some (tk_raw t) else None) ts)
      = map tk_raw (filter (\<lambda>t. token_field t = None) ts)" for ts
    by (induction ts) auto
  with kept_tokens [OF subseq_filter_left [of "\<lambda>t. token_field t = None" ?ts]]
  have "map tk_kind (parse L today (apply_edit L today q ClearFilters)) = map tk_kind (filter (\<lambda>t. token_field t = None) ?ts)"
    by (simp add: apply_edit_def edit_words_def Let_def readings_kinds)
  with remove show ?thesis ..
qed

end
