(* ===== verification/Search_Edit_Props.thy ===== *)
theory Search_Edit_Props
  imports Search_Props
begin

section \<open>Adding and toggling a filter\<close>

text \<open>
  Adding a clause leaves it in the query and toggling a filter turns it on or off, whatever
  the person has typed around it, as the next parse sees the text.
\<close>

subsection \<open>Positions\<close>

lemma position_less: "position P xs = Some i \<Longrightarrow> i < length xs"
  by (induction xs arbitrary: i) (auto split: if_splits)

lemma rposition_less: "rposition P xs = Some i \<Longrightarrow> i < length xs"
  using position_less [of P "rev xs"] by (auto simp: rposition_def)

text \<open>Some words of the result are spelled clauses, the others as they were.\<close>

lemma closed_words_member:
  assumes "w \<in> set ws" "word_closed w"
  shows "w \<in> set (closed_words ws)"
proof (cases ws rule: rev_cases)
  case (snoc as x)
  with assms show ?thesis by (auto simp: closed_words_def close_word_closed intro: image_eqI [of _ _ w])
qed (use assms in simp)

lemma join_reads_word:
  assumes "list_all word_ok ws" "w \<in> set ws" "word_closed w" "classify_word L today w = Some k"
  shows "(w, k) \<in> set (readings (parse L today (join ws)))"
  using parse_join [OF assms(1), of L today] closed_words_member [OF assms(2,3)] assms(4)
  by (force simp: List.map_filter_def read_word_def)

definition words_of :: "search_token list \<Rightarrow> string option list" where
  "words_of ts = map (\<lambda>t. Some (tk_raw t)) ts"

lemma raw_word_ok: "t \<in> set (parse L today q) \<Longrightarrow> word_ok (tk_raw t)"
  using parse_words_ok [of L today q] by (auto simp: words_ok_def list_all_iff)

text \<open>A clause of the text the edit leaves, as the next parse sees it.\<close>

definition reads :: "search_lib \<Rightarrow> ymd \<Rightarrow> string option list \<Rightarrow> search_clause \<Rightarrow> bool" where
  "reads L today words c \<longleftrightarrow> FilterToken c \<in> tk_kind ` set (parse L today (join (present words)))"

definition option_words_ok :: "string option list \<Rightarrow> bool" where
  "option_words_ok words \<longleftrightarrow> (\<forall>w. Some w \<in> set words \<longrightarrow> word_ok w)"

lemma option_words_ok_list: "option_words_ok words \<Longrightarrow> list_all word_ok (present words)"
  by (auto simp: option_words_ok_def set_present list_all_iff)

lemma reads_spelled:
  assumes "option_words_ok words" "Some (spell c) \<in> set words" "spellable L (cl_filter c)"
  shows "reads L today words c"
proof -
  have "(spell c, FilterToken c) \<in> set (readings (parse L today (join (present words))))"
    using assms by (intro join_reads_word option_words_ok_list) (auto simp: spell_word set_present)
  then show ?thesis by (auto simp: reads_def readings_def)
qed

lemma option_words_update:
  "option_words_ok words \<Longrightarrow> (\<And>w. x = Some w \<Longrightarrow> word_ok w) \<Longrightarrow> option_words_ok (words[i := x])"
  by (auto simp: option_words_ok_def dest: set_update_subset_insert [THEN subsetD])

lemma parsed_words_ok: "set ts \<subseteq> set (parse L today q) \<Longrightarrow> option_words_ok (words_of ts)"
  by (auto simp: option_words_ok_def words_of_def raw_word_ok)


subsection \<open>Adding\<close>

lemma add_clause_reads:
  assumes "option_words_ok words" "length words = length ts" "spellable L (cl_filter c)"
    and "\<not> list_ex (asks_already L c) ts"
  shows "reads L today (add_clause L ts words c) c"
proof (cases "rposition (half_typed c) ts")
  case None
  with assms(4) have w: "add_clause L ts words c = words @ [Some (spell c)]" by (simp add: add_clause_def)
  have "option_words_ok (words @ [Some (spell c)])"
    using assms(1) spell_word(1) [OF assms(3)] by (auto simp: option_words_ok_def)
  with w assms(3) show ?thesis by (simp add: reads_spelled)
next
  case (Some i)
  with rposition_less assms(2) have "i < length words" by fastforce
  from Some assms(4) have w: "add_clause L ts words c = words[i := Some (spell c)]" by (simp add: add_clause_def)
  have "option_words_ok (words[i := Some (spell c)])"
    using spell_word(1) [OF assms(3)] by (intro option_words_update assms(1)) auto
  with w assms(3) \<open>i < length words\<close> show ?thesis by (simp add: reads_spelled set_update_memI)
qed

lemma same_refl: "same L f f"
proof (induction f)
  case (ByAnyOf ms)
  then show ?case by (auto simp: same.simps [of L "ByAnyOf ms"] list_all_iff list_ex_iff)
qed (simp_all add: same.simps same_one_def)





subsection \<open>Toggling\<close>

definition all_spellable :: "search_lib \<Rightarrow> search_token list \<Rightarrow> bool" where
  "all_spellable L ts \<longleftrightarrow> list_all (\<lambda>t. case tk_kind t of FilterToken c \<Rightarrow> spellable L (cl_filter c) | _ \<Rightarrow> True) ts"

definition held :: "search_lib \<Rightarrow> search_filter \<Rightarrow> bool \<Rightarrow> search_token list \<Rightarrow> bool" where
  "held L f negated ts \<longleftrightarrow> list_ex (\<lambda>t. holds_clause L f negated t \<noteq> None) ts"

lemma holders_from: "List.map_filter (\<lambda>(i, t). map_option (Pair i) (p t)) (enumerate n ts) = []
    \<longleftrightarrow> \<not> list_ex (\<lambda>t. p t \<noteq> None) ts"
  by (induction ts arbitrary: n) (auto simp: map_filter_simps split: option.splits)

lemma holders_held: "holders L ts f negated \<noteq> [] \<longleftrightarrow> held L f negated ts"
  using holders_from [of "holds_clause L f negated" 0 ts] by (simp add: holders_def held_def)

lemma holders_member:
  assumes "(i, c) \<in> set (holders L ts f negated)"
  shows "i < length ts" "tk_kind (ts ! i) = FilterToken c" "cl_negated c = negated"
  using assms
  by (auto simp: holders_def List.map_filter_def in_set_enumerate_eq holds_clause_def
      split: token_kind.splits if_splits)

lemma alternatives_spellable: "spellable L f \<Longrightarrow> list_all (spellable_one L) (alternatives f)"
  by (cases f) (auto simp: spellable_def)

lemma any_of_alternatives: "any_of ms = Some g \<Longrightarrow> alternatives g = ms"
proof (cases ms rule: remdups_adj.cases)
  case (2 x)
  assume "any_of ms = Some g"
  with 2 show ?thesis by (cases x) (auto simp: any_of_def split: if_splits)
qed (auto simp: any_of_def any_of_new_def split: if_splits)

lemma any_of_spellable:
  assumes "any_of ms = Some g" "list_all (spellable_one L) ms"
  shows "spellable L g"
proof (cases ms rule: remdups_adj.cases)
  case (2 x)
  with assms show ?thesis by (cases x) (auto simp: any_of_def spellable_def)
qed (use assms in \<open>auto simp: any_of_def any_of_new_def spellable_def split: if_splits\<close>)

lemma without_facts:
  assumes "without L c f = Some g" "spellable L (cl_filter c)"
  shows "spellable L (cl_filter g)" "cl_negated g = cl_negated c"
    "alternatives (cl_filter g) = filter (\<lambda>held. \<not> same L held f) (alternatives (cl_filter c))"
proof -
  obtain h where h: "any_of (filter (\<lambda>held. \<not> same L held f) (alternatives (cl_filter c))) = Some h"
    "g = \<lparr>cl_negated = cl_negated c, cl_filter = h\<rparr>"
    using assms(1) by (auto simp: without_def)
  have "list_all (spellable_one L) (filter (\<lambda>held. \<not> same L held f) (alternatives (cl_filter c)))"
    using alternatives_spellable [OF assms(2)] by (auto simp: list_all_iff)
  with any_of_spellable [OF h(1)] any_of_alternatives [OF h(1)] h(2)
  show "spellable L (cl_filter g)" "cl_negated g = cl_negated c"
    "alternatives (cl_filter g) = filter (\<lambda>held. \<not> same L held f) (alternatives (cl_filter c))" by auto
qed

text \<open>Taking a filter out of every clause that holds it.\<close>

definition taken_out :: "search_lib \<Rightarrow> search_filter \<Rightarrow> bool \<Rightarrow> search_token \<Rightarrow> string option" where
  "taken_out L f negated t =
     (case holds_clause L f negated t of Some c \<Rightarrow> map_option spell (without L c f) | None \<Rightarrow> Some (tk_raw t))"

lemma foldl_update_enumerate:
  "foldl (\<lambda>ws (i, c). ws[i := g c]) (pre @ map h ts)
      (List.map_filter (\<lambda>(i, t). map_option (Pair i) (p t)) (enumerate (length pre) ts))
    = pre @ map (\<lambda>t. case p t of Some c \<Rightarrow> g c | None \<Rightarrow> h t) ts"
proof (induction ts arbitrary: pre)
  case (Cons t ts)
  from Cons.IH [of "pre @ [h t]"] Cons.IH [of "pre @ [g (the (p t))]"]
  show ?case by (cases "p t") (simp_all add: map_filter_simps)
qed (simp add: map_filter_simps)

lemma flip_here:
  "held L f negated ts \<Longrightarrow> flip L ts (words_of ts) f negated = map (taken_out L f negated) ts"
  using holders_held [of L ts f negated]
    foldl_update_enumerate [where g = "\<lambda>c. map_option spell (without L c f)" and pre = "[]"
      and h = "\<lambda>t. Some (tk_raw t)" and p = "holds_clause L f negated" and ts = ts]
  by (simp add: flip_def Let_def holders_def words_of_def taken_out_def)

lemma taken_out_cases:
  assumes "taken_out L f negated t = Some w" "all_spellable L [t]"
  obtains "w = tk_raw t" "holds_clause L f negated t = None"
  | g where "w = spell g" "spellable L (cl_filter g)" "\<not> list_ex (\<lambda>held. same L held f) (alternatives (cl_filter g))"
proof (cases "holds_clause L f negated t")
  case None
  with assms that(1) show thesis by (simp add: taken_out_def)
next
  case (Some c)
  with assms(2) have c: "spellable L (cl_filter c)"
    by (auto simp: all_spellable_def holds_clause_def split: token_kind.splits if_splits)
  from Some assms(1) obtain g where g: "without L c f = Some g" "w = spell g" by (auto simp: taken_out_def)
  from without_facts [OF g(1) c] g(2) that(2) [of g] show thesis by (auto simp: list_ex_iff)
qed

lemma taken_out_words_ok:
  assumes "words_ok (map tk_raw ts)" "all_spellable L ts"
  shows "words_ok (present (map (taken_out L f negated) ts))"
  using assms
proof (induction ts)
  case (Cons t ts)
  then have IH: "words_ok (present (map (taken_out L f negated) ts))"
    and raw: "word_ok (tk_raw t)" "ts = [] \<or> word_closed (tk_raw t)"
    by (auto simp: words_ok_Cons all_spellable_def)
  show ?case
  proof (cases "taken_out L f negated t")
    case None
    with IH show ?thesis by simp
  next
    case (Some w)
    have "all_spellable L [t]" using Cons.prems(2) by (simp add: all_spellable_def)
    with Some raw have "word_ok w \<and> (ts = [] \<or> word_closed w)"
      by (elim taken_out_cases) (auto simp: spell_word)
    with IH Some show ?thesis by (auto simp: words_ok_Cons)
  qed
qed (simp add: words_ok_def)

lemma flip_off:
  assumes "held L f negated (parse L today q)" "all_spellable L (parse L today q)"
  shows "\<not> held L f negated (parse L today (join (present (flip L (parse L today q) (words_of (parse L today q)) f negated))))"
proof
  let ?ts = "parse L today q" and ?ws = "present (map (taken_out L f negated) (parse L today q))"
  assume "held L f negated (parse L today (join (present (flip L ?ts (words_of ?ts) f negated))))"
  then obtain u c where u: "u \<in> set (parse L today (join ?ws))" "holds_clause L f negated u = Some c"
    unfolding flip_here [OF assms(1)] by (auto simp: held_def list_ex_iff)
  then have c: "tk_kind u = FilterToken c" "list_ex (\<lambda>held. same L held f) (alternatives (cl_filter c))" "cl_negated c = negated"
    by (auto simp: holds_clause_def split: token_kind.splits if_splits)
  have "(tk_raw u, tk_kind u) \<in> set (readings (parse L today (join ?ws)))" using u(1) by (auto simp: readings_def)
  then obtain w where "w \<in> set ?ws" and read: "classify_word L today w = Some (FilterToken c)"
    unfolding parse_join_ok [OF taken_out_words_ok [OF parse_words_ok assms(2)]]
    by (auto simp: List.map_filter_def read_word_def c(1))
  then obtain t where t: "t \<in> set ?ts" "taken_out L f negated t = Some w" by (auto simp: set_present)
  have "all_spellable L [t]" using assms(2) t(1) by (auto simp: all_spellable_def list_all_iff)
  with t(2) show False
  proof (cases rule: taken_out_cases)
    case 1
    with read token_reading [OF t(1)] have "tk_kind t = FilterToken c" by simp
    with 1(2) c(2,3) show False by (simp add: holds_clause_def)
  next
    case (2 g)
    with read c(2) show False by (simp add: spell_word)
  qed
qed


text \<open>Turning a filter on.\<close>

lemma take_out_facts:
  assumes "option_words_ok words" "take_out L f (words, emptied) hs = (words', emptied')"
    and "\<And>i c. (i, c) \<in> set hs \<Longrightarrow> i < length words \<and> spellable L (cl_filter c)"
    and "\<And>j. emptied = Some j \<Longrightarrow> j < length words"
  shows "option_words_ok words' \<and> length words' = length words \<and> (\<forall>j. emptied' = Some j \<longrightarrow> j < length words)"
  using assms
proof (induction L f "(words, emptied)" hs arbitrary: words emptied rule: take_out.induct)
  case (2 L f words emptied i c rest)
  have ic: "i < length words" "spellable L (cl_filter c)" using "2.prems"(3) by auto
  show ?case
  proof (cases "without L c f")
    case None
    from "2.prems" ic None show ?thesis
      by (intro "2.hyps"(1) [OF None, simplified]) (auto intro: option_words_update split: option.splits)
  next
    case (Some g)
    with without_facts(1) [OF Some ic(2)] have "word_ok (spell g)" by (simp add: spell_word)
    with "2.prems" ic Some show ?thesis
      by (intro "2.hyps"(2) [OF Some, simplified]) (auto intro: option_words_update)
  qed
qed auto

lemma find_joined_some:
  "find_joined f negated (enumerate n ts) = Some (i, g) \<Longrightarrow>
    \<exists>held t. n \<le> i \<and> i < n + length ts \<and> t \<in> set ts \<and> tk_kind t = FilterToken held
      \<and> any_of (alternatives (cl_filter held) @ [f]) = Some g"
proof (induction ts arbitrary: n)
  case (Cons t ts)
  show ?case
  proof (cases "joined_set f negated t")
    case None
    with Cons.prems Cons.IH [of "Suc n"] show ?thesis by fastforce
  next
    case (Some h)
    with Cons.prems show ?thesis by (fastforce simp: joined_set_def split: token_kind.splits if_splits)
  qed
qed simp

lemma reads_held:
  assumes "reads L today words \<lparr>cl_negated = negated, cl_filter = g\<rparr>" "f \<in> set (alternatives g)"
  shows "held L f negated (parse L today (join (present words)))"
proof -
  from assms(1) obtain t where t: "t \<in> set (parse L today (join (present words)))"
    "tk_kind t = FilterToken \<lparr>cl_negated = negated, cl_filter = g\<rparr>" by (auto simp: reads_def)
  then have "holds_clause L f negated t \<noteq> None"
    using assms(2) same_refl [of L f] by (auto simp: holds_clause_def list_ex_iff)
  with t(1) show ?thesis by (auto simp: held_def list_ex_iff)
qed

lemma asks_one: "alternatives f = [f] \<Longrightarrow>
    asks_already L \<lparr>cl_negated = negated, cl_filter = f\<rparr> = (\<lambda>t. holds_clause L f negated t \<noteq> None)"
  by (auto simp: fun_eq_iff asks_already_def holds_clause_def split: token_kind.split)

lemma flip_on:
  assumes "\<not> held L f negated (parse L today q)" "all_spellable L (parse L today q)" "spellable_one L f"
  shows "held L f negated (parse L today (join (present (flip L (parse L today q) (words_of (parse L today q)) f negated))))"
proof -
  let ?ts = "parse L today q"
  obtain words emptied where out: "take_out L f (words_of ?ts, None) (holders L ?ts f (\<not> negated)) = (words, emptied)"
    by fastforce
  have sp: "spellable L (cl_filter c)" if "(i, c) \<in> set (holders L ?ts f (\<not> negated))" for i c
    using holders_member [OF that] assms(2) by (fastforce simp: all_spellable_def list_all_length)
  have ok: "option_words_ok words" "length words = length ?ts" "\<And>j. emptied = Some j \<Longrightarrow> j < length ?ts"
    using take_out_facts [OF parsed_words_ok [OF subset_refl] out] holders_member(1) sp by (auto simp: words_of_def)
  have f: "spellable L f" "alternatives f = [f]"
    using assms(3) spellable_one_not_set [OF assms(3)] by (cases f; auto simp: spellable_def)+
  let ?c = "\<lparr>cl_negated = negated, cl_filter = f\<rparr>"
  let ?joined = "if takes_set (filter_field f) then find_joined f negated (enumerate 0 ?ts) else None"
  have here: "holders L ?ts f negated = []" using assms(1) holders_held by blast
  show ?thesis
  proof (cases ?joined)
    case (Some p)
    then obtain i g where p: "?joined = Some (i, g)" by (cases p) auto
    then have "find_joined f negated (enumerate 0 ?ts) = Some (i, g)" by (simp split: if_splits)
    from find_joined_some [OF this] obtain held t where t: "i < length ?ts" "t \<in> set ?ts"
      "tk_kind t = FilterToken held" "any_of (alternatives (cl_filter held) @ [f]) = Some g" by auto
    with assms(2) have "spellable L (cl_filter held)" by (fastforce simp: all_spellable_def list_all_iff)
    with t(4) assms(3) have g: "spellable L g" "f \<in> set (alternatives g)"
      using any_of_spellable [OF t(4)] any_of_alternatives [OF t(4)] alternatives_spellable by auto
    let ?d = "\<lparr>cl_negated = negated, cl_filter = g\<rparr>"
    have w: "flip L ?ts (words_of ?ts) f negated = words[i := Some (spell ?d)]"
      using here out p by (simp add: flip_def)
    have "option_words_ok (words[i := Some (spell ?d)])"
      using ok(1) g(1) spell_word(1) [of L ?d] by (intro option_words_update) auto
    then have "reads L today (words[i := Some (spell ?d)]) ?d"
      using g(1) t(1) ok(2) by (intro reads_spelled) (simp_all add: set_update_memI)
    with g(2) show ?thesis unfolding w by (rule reads_held [rotated])
  next
    case None
    show ?thesis
    proof (cases emptied)
      case (Some j)
      have w: "flip L ?ts (words_of ?ts) f negated = words[j := Some (spell ?c)]"
        using here out None Some by (simp add: flip_def)
      have "option_words_ok (words[j := Some (spell ?c)])"
        using ok(1) f(1) spell_word(1) [of L ?c] by (intro option_words_update) auto
      then have "reads L today (words[j := Some (spell ?c)]) ?c"
        using f(1) ok(2,3) Some by (intro reads_spelled) (simp_all add: set_update_memI)
      then show ?thesis unfolding w by (rule reads_held) (simp add: f(2))
    next
      case emptied: None
      have w: "flip L ?ts (words_of ?ts) f negated = add_clause L ?ts words ?c"
        using here out None emptied by (simp add: flip_def)
      have "\<not> list_ex (asks_already L ?c) ?ts"
        using assms(1) asks_one [OF f(2)] by (simp add: held_def)
      with add_clause_reads [OF ok(1,2)] f(1) have "reads L today (add_clause L ?ts words ?c) ?c" by simp
      then show ?thesis unfolding w by (rule reads_held) (simp add: f(2))
    qed
  qed
qed

text \<open>
  C20: A toggle is a switch: after it the query asks for the filter exactly when it did not
  before, judged by what the next parse finds, in a clause of its own or as a value of a set.
  The same holds of an exclusion over the negated clauses.  Supposes that the filter and the
  filters of the query can be spelled.
\<close>

theorem search_toggle_switches:
  assumes "all_spellable L (parse L today q)" "spellable_one L f"
  shows "held L f False (parse L today (apply_edit L today q (ToggleFilter f))) = (\<not> held L f False (parse L today q))
    \<and> held L f True (parse L today (apply_edit L today q (ExcludeFilter f))) = (\<not> held L f True (parse L today q))"
  using flip_on [OF _ assms] flip_off [OF _ assms(1)]
  by (auto simp: apply_edit_def edit_words_def Let_def words_of_def)


lemma demo_query_spellable:
  "all_spellable demo_search_lib (parse demo_search_lib demo_today (intercalate '' '' (map spell demo_clauses)))"
proof -
  let ?ts = "parse demo_search_lib demo_today (intercalate '' '' (map spell demo_clauses))"
  have kinds: "tk_kind ` set ?ts = FilterToken ` set demo_clauses"
    using arg_cong [OF parse_spelled [OF demo_clauses_spellable, of demo_today], of "\<lambda>rs. snd ` set rs"]
    by (simp add: readings_def image_image)
  have "spellable demo_search_lib (cl_filter c)" if "t \<in> set ?ts" "tk_kind t = FilterToken c" for t c
  proof -
    have "FilterToken c \<in> FilterToken ` set demo_clauses" using that kinds by (metis imageI)
    then show ?thesis using demo_clauses_spellable by (auto simp: list_all_iff)
  qed
  then show ?thesis by (auto simp: all_spellable_def list_all_iff split: token_kind.split)
qed

theorem search_toggle_switches_witness:
  "spellable_one demo_search_lib (ByFrom ''tomas'')
    \<and> held demo_search_lib (ByFrom ''tomas'') False (parse demo_search_lib demo_today
        (apply_edit demo_search_lib demo_today (intercalate '' '' (map spell demo_clauses)) (ToggleFilter (ByFrom ''tomas''))))
      = (\<not> held demo_search_lib (ByFrom ''tomas'') False
            (parse demo_search_lib demo_today (intercalate '' '' (map spell demo_clauses))))"
  using search_toggle_switches [OF demo_query_spellable, of "ByFrom ''tomas''"] by (simp add: plain_value_def)

end
