(* ===== verification/Search_Match.thy ===== *)
theory Search_Match
  imports Search_Query "HOL-Library.Sublist"
begin

section \<open>Matching a message in memory\<close>

text \<open>
  \<open>crates/postio-search/src/matcher.rs\<close>, the evaluator a digest rule uses on mail as it is
  filed: a query made of \<open>from:\<close>, \<open>to:\<close>, \<open>subject:\<close>, \<open>filename:\<close> and \<open>list:\<close>
  clauses, asked of the five columns of one message.  Proved equivalent to a statement about
  runs of words, \<open>mentions\<close>.
\<close>

subsection \<open>Words\<close>

definition is_alphanumeric :: "search_lib \<Rightarrow> string \<Rightarrow> bool" where
  "is_alphanumeric L c \<longleftrightarrow>
     (if is_ascii_char c then is_ascii_letter c \<or> is_digit (hd c) else sx_alphanumeric L c)"

definition longest_word :: nat where "longest_word = 40"

text \<open>\<open>split\<close> at what is not alphanumeric, the empty runs left out.\<close>

fun runs_of :: "search_lib \<Rightarrow> string \<Rightarrow> string list \<Rightarrow> string list" where
  "runs_of L run [] = (if run = [] then [] else [run])"
| "runs_of L run (c # cs) =
     (if is_alphanumeric L c then runs_of L (run @ c) cs
      else (if run = [] then [] else [run]) @ runs_of L [] cs)"

definition text_runs :: "search_lib \<Rightarrow> string \<Rightarrow> string list" where
  "text_runs L text = runs_of L [] (utf8_chars text)"

definition lowercase :: "search_lib \<Rightarrow> string \<Rightarrow> string" where
  "lowercase L word =
     (if list_all (\<lambda>c. byte c < 128) word then lower_ascii word
      else concat (map (lower_char L) (utf8_chars word)))"

definition indexed :: "search_lib \<Rightarrow> string \<Rightarrow> (nat \<times> string) list" where
  "indexed L text =
     map (\<lambda>(i, run). (i, lowercase L run))
       (filter (\<lambda>(i, run). length run < longest_word) (enumerate 0 (text_runs L text)))"

text \<open>The positions ascend, so the binary search of the code finds what \<open>map_of\<close> finds.\<close>

definition phrase_in :: "search_lib \<Rightarrow> string \<Rightarrow> (nat \<times> string) list \<Rightarrow> bool" where
  "phrase_in L text phrase =
     (case phrase of
        [] \<Rightarrow> False
      | (first_at, first) # rest \<Rightarrow>
          (let words = indexed L text in
           list_ex (\<lambda>(start, word). word = first
             \<and> list_all (\<lambda>(at, want). map_of words (start + (at - first_at)) = Some want) rest) words))"


subsection \<open>The matcher\<close>

record email_address =
  ea_name :: "string option"
  ea_address :: string

record match_message =
  mm_from :: "email_address list"
  mm_to :: "email_address list"
  mm_cc :: "email_address list"
  mm_bcc :: "email_address list"
  mm_subject :: "string option"
  mm_filenames :: "string option list"
  mm_list_id :: "string option"

record document =
  dc_sender :: string
  dc_recipients :: string
  dc_subject :: string
  dc_filenames :: string
  dc_list_id :: string

definition or_empty :: "string option \<Rightarrow> string" where
  "or_empty s = (case s of Some x \<Rightarrow> x | None \<Rightarrow> [])"

definition addresses :: "email_address list \<Rightarrow> string" where
  "addresses as = intercalate '' '' (map (\<lambda>a. or_empty (ea_name a) @ '' '' @ ea_address a) as)"

definition document_of :: "match_message \<Rightarrow> document" where
  "document_of m =
     \<lparr>dc_sender = addresses (mm_from m),
      dc_recipients = addresses (mm_bcc m @ mm_cc m @ mm_to m),
      dc_subject = or_empty (mm_subject m),
      dc_filenames = intercalate '' '' (List.map_filter id (mm_filenames m)),
      dc_list_id = or_empty (mm_list_id m)\<rparr>"

datatype column = Sender | Recipients | Subject | Filenames | ListId

fun column_text :: "document \<Rightarrow> column \<Rightarrow> string" where
  "column_text d Sender = dc_sender d"
| "column_text d Recipients = dc_recipients d"
| "column_text d Subject = dc_subject d"
| "column_text d Filenames = dc_filenames d"
| "column_text d ListId = dc_list_id d"

record condition =
  cn_negated :: bool
  cn_alternatives :: "(column \<times> (nat \<times> string) list) list"

datatype unsupported = EmptyQuery | UnsupportedToken string

fun column_of :: "search_filter \<Rightarrow> (column \<times> string) option" where
  "column_of (ByFrom v) = Some (Sender, v)"
| "column_of (ByTo v) = Some (Recipients, v)"
| "column_of (BySubject v) = Some (Subject, v)"
| "column_of (ByFilename v) = Some (Filenames, v)"
| "column_of (ByList v) = Some (ListId, v)"
| "column_of _ = None"

text \<open>\<open>collect\<close> of results stops at the first error.\<close>

fun collect :: "('a \<Rightarrow> 'e + 'b) \<Rightarrow> 'a list \<Rightarrow> 'e + 'b list" where
  "collect f [] = Inr []"
| "collect f (x # xs) =
     (case f x of
        Inl e \<Rightarrow> Inl e
      | Inr y \<Rightarrow> (case collect f xs of Inl e \<Rightarrow> Inl e | Inr ys \<Rightarrow> Inr (y # ys)))"

definition condition_of :: "search_lib \<Rightarrow> search_token \<Rightarrow> unsupported + condition" where
  "condition_of L t =
     (case tk_kind t of
        FilterToken c \<Rightarrow>
          (case collect (\<lambda>f. case column_of f of
                   Some (column, v) \<Rightarrow> Inr (column, indexed L v)
                 | None \<Rightarrow> Inl (UnsupportedToken (tk_raw t))) (alternatives (cl_filter c)) of
             Inl e \<Rightarrow> Inl e
           | Inr as \<Rightarrow> Inr \<lparr>cn_negated = cl_negated c, cn_alternatives = as\<rparr>)
      | _ \<Rightarrow> Inl (UnsupportedToken (tk_raw t)))"

definition matcher_new :: "search_lib \<Rightarrow> search_token list \<Rightarrow> unsupported + condition list" where
  "matcher_new L tokens = (if tokens = [] then Inl EmptyQuery else collect (condition_of L) tokens)"

definition condition_holds :: "search_lib \<Rightarrow> document \<Rightarrow> condition \<Rightarrow> bool" where
  "condition_holds L d c = list_ex (\<lambda>(column, phrase). phrase_in L (column_text d column) phrase) (cn_alternatives c)"

definition matches_document :: "search_lib \<Rightarrow> condition list \<Rightarrow> document \<Rightarrow> bool" where
  "matches_document L clauses d = list_all (\<lambda>c. cn_negated c \<noteq> condition_holds L d c) clauses"

definition matches :: "search_lib \<Rightarrow> condition list \<Rightarrow> match_message \<Rightarrow> bool" where
  "matches L clauses m = matches_document L clauses (document_of m)"


subsection \<open>What a column says\<close>

text \<open>
  The reference: the words of a value, one after the other, among the words of a column,
  without case.  A word of 40 bytes or more is a gap: it stands for any one word, and it is
  the only thing that can lie outside the text.
\<close>

definition mentions :: "search_lib \<Rightarrow> string list \<Rightarrow> string list \<Rightarrow> bool" where
  "mentions L text phrase \<longleftrightarrow>
     (\<exists>w\<in>set phrase. length w < longest_word)
     \<and> (\<exists>k :: int. \<forall>i<length phrase. length (phrase ! i) < longest_word \<longrightarrow>
           0 \<le> k + int i \<and> nat (k + int i) < length text
           \<and> length (text ! nat (k + int i)) < longest_word
           \<and> lowercase L (text ! nat (k + int i)) = lowercase L (phrase ! i))"

lemma set_indexed: "(i, w) \<in> set (indexed L text) \<longleftrightarrow>
    i < length (text_runs L text) \<and> length (text_runs L text ! i) < longest_word
    \<and> w = lowercase L (text_runs L text ! i)"
  by (auto simp: indexed_def in_set_enumerate_eq image_iff)

lemma indexed_distinct: "distinct (map fst (indexed L text))"
proof -
  have "map fst (indexed L text) = map fst (filter (\<lambda>(i, run). length run < longest_word) (enumerate 0 (text_runs L text)))"
    by (simp add: indexed_def split_def)
  moreover have "distinct (map fst (enumerate 0 (text_runs L text)))" by simp
  ultimately show ?thesis by (metis (no_types, lifting) distinct_map_filter)
qed

lemma map_of_indexed: "map_of (indexed L text) i = Some w \<longleftrightarrow> (i, w) \<in> set (indexed L text)"
  using indexed_distinct by (rule map_of_eq_Some_iff)

lemma indexed_ascending: "sorted_wrt (\<lambda>p q. fst p < fst q) (indexed L text)"
proof -
  have "sorted_wrt (\<lambda>p q. fst p < fst q) (enumerate n xs)" for n and xs :: "string list"
    by (induction xs arbitrary: n) (auto simp: in_set_enumerate_eq)
  then show ?thesis by (simp add: indexed_def sorted_wrt_map sorted_wrt_filter split_def)
qed

lemma phrase_in_mentions: "phrase_in L text (indexed L v) \<longleftrightarrow> mentions L (text_runs L text) (text_runs L v)"
proof (cases "indexed L v")
  case Nil
  then have "length (text_runs L v ! i) \<ge> longest_word" if "i < length (text_runs L v)" for i
    using set_indexed [of i "lowercase L (text_runs L v ! i)" L v] that by auto
  then have "\<not> (\<exists>w\<in>set (text_runs L v). length w < longest_word)" by (auto simp: in_set_conv_nth not_less)
  with Nil show ?thesis by (simp add: phrase_in_def mentions_def)
next
  case (Cons p rest)
  let ?V = "text_runs L v" and ?W = "text_runs L text"
  obtain a first where p: "p = (a, first)" by fastforce
  have mem: "(i, w) \<in> set (indexed L v) \<longleftrightarrow> (i, w) = (a, first) \<or> (i, w) \<in> set rest" for i w
    using Cons p by auto
  have first: "a < length ?V" "length (?V ! a) < longest_word" "first = lowercase L (?V ! a)"
    using mem [of a first] set_indexed [of a first L v] by auto
  have later: "a < i" if "(i, w) \<in> set rest" for i w
    using indexed_ascending [of L v] that by (fastforce simp: Cons p)
  have rest: "(i, w) \<in> set rest \<longleftrightarrow> i \<noteq> a \<and> i < length ?V \<and> length (?V ! i) < longest_word \<and> w = lowercase L (?V ! i)" for i w
    using mem [of i w] set_indexed [of i w L v] later [of i w] first by auto
  have lhs: "phrase_in L text (indexed L v) \<longleftrightarrow>
      (\<exists>s. (s, first) \<in> set (indexed L text) \<and> (\<forall>(i, w)\<in>set rest. (s + (i - a), w) \<in> set (indexed L text)))"
    by (auto simp: phrase_in_def Let_def Cons p list_ex_iff list_all_iff map_of_indexed)
  show ?thesis
  proof
    assume "phrase_in L text (indexed L v)"
    then obtain s where s: "(s, first) \<in> set (indexed L text)"
      "\<forall>(i, w)\<in>set rest. (s + (i - a), w) \<in> set (indexed L text)" using lhs by blast
    have "0 \<le> int s - int a + int i \<and> nat (int s - int a + int i) < length ?W
        \<and> length (?W ! nat (int s - int a + int i)) < longest_word
        \<and> lowercase L (?W ! nat (int s - int a + int i)) = lowercase L (?V ! i)"
      if i: "i < length ?V" "length (?V ! i) < longest_word" for i
    proof (cases "i = a")
      case True
      with s(1) first show ?thesis by (simp add: set_indexed)
    next
      case False
      with i rest have r: "(i, lowercase L (?V ! i)) \<in> set rest" by simp
      from s(2) r have "(s + (i - a), lowercase L (?V ! i)) \<in> set (indexed L text)" by fastforce
      moreover have "nat (int s - int a + int i) = s + (i - a)" "0 \<le> int s - int a + int i" using later [OF r] by auto
      ultimately show ?thesis by (simp add: set_indexed)
    qed
    with first show "mentions L ?W ?V" unfolding mentions_def by (blast intro: nth_mem)
  next
    assume "mentions L ?W ?V"
    then obtain k :: int where k: "\<And>i. i < length ?V \<Longrightarrow> length (?V ! i) < longest_word \<Longrightarrow>
        0 \<le> k + int i \<and> nat (k + int i) < length ?W \<and> length (?W ! nat (k + int i)) < longest_word
        \<and> lowercase L (?W ! nat (k + int i)) = lowercase L (?V ! i)"
      unfolding mentions_def by blast
    let ?s = "nat (k + int a)"
    have "(?s, first) \<in> set (indexed L text)" using k [OF first(1,2)] first(3) by (simp add: set_indexed)
    moreover have "(?s + (i - a), w) \<in> set (indexed L text)" if r: "(i, w) \<in> set rest" for i w
    proof -
      from r rest have i: "i < length ?V" "length (?V ! i) < longest_word" "w = lowercase L (?V ! i)" by auto
      have "?s + (i - a) = nat (k + int i)" using later [OF r] k [OF first(1,2)] by auto
      with k [OF i(1,2)] i(3) show ?thesis by (simp add: set_indexed)
    qed
    ultimately show "phrase_in L text (indexed L v)" using lhs by blast
  qed
qed

text \<open>When no word is too long to index, a mention is a run of words.\<close>

lemma mentions_sublist:
  assumes "\<forall>w\<in>set text \<union> set phrase. length w < longest_word"
  shows "mentions L text phrase \<longleftrightarrow> phrase \<noteq> [] \<and> sublist (map (lowercase L) phrase) (map (lowercase L) text)"
proof
  assume "mentions L text phrase"
  then obtain k :: int where "phrase \<noteq> []" and k: "\<And>i. i < length phrase \<Longrightarrow> 0 \<le> k + int i
      \<and> nat (k + int i) < length text \<and> lowercase L (text ! nat (k + int i)) = lowercase L (phrase ! i)"
    using assms unfolding mentions_def by (metis (no_types, lifting) UnI2 empty_iff list.set(1) nth_mem)
  let ?n = "nat k"
  have k0: "0 \<le> k" using k [of 0] \<open>phrase \<noteq> []\<close> by simp
  then have nat: "nat (k + int i) = ?n + i" for i by (simp add: nat_add_distrib)
  have "take (length phrase) (drop ?n (map (lowercase L) text)) = map (lowercase L) phrase"
  proof (rule nth_equalityI)
    have "?n + length phrase \<le> length text" using k [of "length phrase - 1"] \<open>phrase \<noteq> []\<close> by (cases phrase) (auto simp: nat)
    then show "length (take (length phrase) (drop ?n (map (lowercase L) text))) = length (map (lowercase L) phrase)" by simp
    fix i assume "i < length (take (length phrase) (drop ?n (map (lowercase L) text)))"
    then show "take (length phrase) (drop ?n (map (lowercase L) text)) ! i = map (lowercase L) phrase ! i"
      using k [of i] by (simp add: nat)
  qed
  with \<open>phrase \<noteq> []\<close> show "phrase \<noteq> [] \<and> sublist (map (lowercase L) phrase) (map (lowercase L) text)"
    by (metis append_take_drop_id sublist_appendI)
next
  assume "phrase \<noteq> [] \<and> sublist (map (lowercase L) phrase) (map (lowercase L) text)"
  then obtain u r where "phrase \<noteq> []" and t: "map (lowercase L) text = u @ map (lowercase L) phrase @ r" by (auto simp: sublist_def)
  have len: "length text = length u + length phrase + length r" using arg_cong [OF t, of length] by simp
  have "lowercase L (text ! (length u + i)) = lowercase L (phrase ! i)" if "i < length phrase" for i
    using arg_cong [OF t, of "\<lambda>xs. xs ! (length u + i)"] that len by (simp add: nth_append)
  moreover have "\<exists>w\<in>set phrase. length w < longest_word" using \<open>phrase \<noteq> []\<close> assms by (metis UnI2 hd_in_set)
  ultimately show "mentions L text phrase" unfolding mentions_def using len assms
    by (intro conjI exI [of _ "int (length u)"]) (auto simp: nat_add_distrib)
qed



subsection \<open>What a matcher selects\<close>

definition says :: "search_lib \<Rightarrow> document \<Rightarrow> search_filter \<Rightarrow> bool" where
  "says L d f =
     (case column_of f of
        Some (column, v) \<Rightarrow> mentions L (text_runs L (column_text d column)) (text_runs L v)
      | None \<Rightarrow> False)"

definition supported :: "search_token \<Rightarrow> bool" where
  "supported t =
     (case tk_kind t of
        FilterToken c \<Rightarrow> list_all (\<lambda>f. column_of f \<noteq> None) (alternatives (cl_filter c))
      | _ \<Rightarrow> False)"

definition clause_says :: "search_lib \<Rightarrow> document \<Rightarrow> search_token \<Rightarrow> bool" where
  "clause_says L d t =
     (case tk_kind t of
        FilterToken c \<Rightarrow> cl_negated c \<noteq> list_ex (says L d) (alternatives (cl_filter c))
      | _ \<Rightarrow> False)"

lemma collect_all: "(\<And>x. x \<in> set xs \<Longrightarrow> P x \<Longrightarrow> f x = Inr (g x)) \<Longrightarrow> (\<And>x. x \<in> set xs \<Longrightarrow> \<not> P x \<Longrightarrow> f x = Inl (e x)) \<Longrightarrow>
    collect f xs = (case find (\<lambda>x. \<not> P x) xs of Some x \<Rightarrow> Inl (e x) | None \<Rightarrow> Inr (map g xs))"
proof (induction xs)
  case (Cons x xs)
  then have "collect f xs = (case find (\<lambda>x. \<not> P x) xs of Some x \<Rightarrow> Inl (e x) | None \<Rightarrow> Inr (map g xs))" by simp
  with Cons.prems show ?case by (cases "P x") (auto split: option.splits)
qed simp

definition compiled :: "search_lib \<Rightarrow> search_token \<Rightarrow> condition" where
  "compiled L t =
     (case tk_kind t of
        FilterToken c \<Rightarrow> \<lparr>cn_negated = cl_negated c,
          cn_alternatives = map (\<lambda>f. case column_of f of Some (column, v) \<Rightarrow> (column, indexed L v) | None \<Rightarrow> (Sender, []))
            (alternatives (cl_filter c))\<rparr>
      | _ \<Rightarrow> \<lparr>cn_negated = False, cn_alternatives = []\<rparr>)"

lemma condition_of_compiled:
  "condition_of L t = (if supported t then Inr (compiled L t) else Inl (UnsupportedToken (tk_raw t)))"
proof (cases "tk_kind t")
  case (FilterToken c)
  let ?f = "\<lambda>f. case column_of f of Some (column, v) \<Rightarrow> Inr (column, indexed L v) | None \<Rightarrow> Inl (UnsupportedToken (tk_raw t))"
  have "collect ?f xs = (case find (\<lambda>f. \<not> column_of f \<noteq> None) xs of
      Some _ \<Rightarrow> Inl (UnsupportedToken (tk_raw t))
    | None \<Rightarrow> Inr (map (\<lambda>f. case column_of f of Some (column, v) \<Rightarrow> (column, indexed L v) | None \<Rightarrow> (Sender, [])) xs))" for xs
    by (rule collect_all) (auto split: option.splits)
  note all = this [of "alternatives (cl_filter c)"]
  have none: "find (\<lambda>f. \<not> column_of f \<noteq> None) xs = None \<longleftrightarrow> list_all (\<lambda>f. column_of f \<noteq> None) xs" for xs
    by (auto simp: find_None_iff list_all_iff)
  show ?thesis
    using all none [of "alternatives (cl_filter c)"]
    by (cases "find (\<lambda>f. \<not> column_of f \<noteq> None) (alternatives (cl_filter c))")
      (simp_all only: condition_of_def compiled_def supported_def FilterToken token_kind.case option.case sum.case if_True if_False
        option.distinct simp_thms)
qed (simp_all add: condition_of_def supported_def)

lemma compiled_says: "supported t \<Longrightarrow> (cn_negated (compiled L t) \<noteq> condition_holds L d (compiled L t)) = clause_says L d t"
proof (cases "tk_kind t")
  case (FilterToken c)
  assume "supported t"
  with FilterToken have "\<forall>f\<in>set (alternatives (cl_filter c)). \<exists>column v. column_of f = Some (column, v)"
    by (auto simp: supported_def list_all_iff)
  then have "condition_holds L d (compiled L t) = list_ex (says L d) (alternatives (cl_filter c))"
  proof -
    assume "\<forall>f\<in>set (alternatives (cl_filter c)). \<exists>column v. column_of f = Some (column, v)"
    then have "(case (case column_of f of Some (column, v) \<Rightarrow> (column, indexed L v) | None \<Rightarrow> (Sender, [])) of
        (column, phrase) \<Rightarrow> phrase_in L (column_text d column) phrase) = says L d f"
      if "f \<in> set (alternatives (cl_filter c))" for f
      using that by (fastforce simp: says_def phrase_in_mentions)
    then show ?thesis by (auto simp: condition_holds_def compiled_def FilterToken list_ex_iff)
  qed
  then show ?thesis by (simp add: compiled_def clause_says_def FilterToken)
qed (simp_all add: supported_def)

text \<open>
  C21: A query compiles to a matcher when it has a token and every token is a sender,
  recipient, subject, filename or list clause; otherwise it is refused, with the text of the
  first token that is none of these.  The matcher selects a message exactly when every clause
  holds: some value of it (none, when negated) is mentioned in its column, as the run of
  words \<open>mentions\<close> describes, without case, over Unicode words as the index splits them.
\<close>

theorem search_matcher_selects:
  "case matcher_new L tokens of
     Inl e \<Rightarrow> (tokens = [] \<and> e = EmptyQuery)
       \<or> (\<exists>t. find (\<lambda>t. \<not> supported t) tokens = Some t \<and> e = UnsupportedToken (tk_raw t))
   | Inr m \<Rightarrow> tokens \<noteq> [] \<and> list_all supported tokens
       \<and> matches L m message = list_all (clause_says L (document_of message)) tokens"
proof (cases "tokens = []")
  case False
  have "collect (condition_of L) tokens = (case find (\<lambda>t. \<not> supported t) tokens of
      Some t \<Rightarrow> Inl (UnsupportedToken (tk_raw t)) | None \<Rightarrow> Inr (map (compiled L) tokens))"
    by (rule collect_all) (simp_all add: condition_of_compiled)
  moreover have "list_all (\<lambda>c. cn_negated c \<noteq> condition_holds L d c) (map (compiled L) tokens)
      = list_all (clause_says L d) tokens" if "list_all supported tokens" for d
    using that compiled_says [of _ L d] unfolding list_all_iff by (auto simp del: not_iff)
  moreover have "find (\<lambda>t. \<not> supported t) tokens = None \<longleftrightarrow> list_all supported tokens"
    by (auto simp: find_None_iff list_all_iff)
  ultimately show ?thesis using False
    by (cases "find (\<lambda>t. \<not> supported t) tokens") (simp_all add: matcher_new_def matches_def matches_document_def)
qed (simp add: matcher_new_def)

end
