(* ===== verification/Search_Types.thy ===== *)
theory Search_Types
  imports Search_Words
begin

section \<open>The shape of what the parser returns\<close>

text \<open>
  Every token is well formed, whatever was typed: the invariants the types of the code
  promise (a set has two members or more of one field, no set inside it; values are not
  empty and hold no quote at either end; a size fits 64 bits; a header value is cut to its limit).
\<close>

fun one_wf :: "search_filter \<Rightarrow> bool" where
  "one_wf (ByWith as) \<longleftrightarrow> as \<noteq> [] \<and> list_all (\<lambda>a. a \<noteq> [] \<and> CHR '','' \<notin> set a) as"
| "one_wf (ByHeader name val) \<longleftrightarrow> name \<noteq> []
     \<and> (case val of None \<Rightarrow> True | Some v \<Rightarrow> v \<noteq> [] \<and> length v \<le> value_limit)"
| "one_wf (ByLarger n) \<longleftrightarrow> n \<le> u64_max"
| "one_wf (BySmaller n) \<longleftrightarrow> n \<le> u64_max"
| "one_wf (ByAnyOf _) \<longleftrightarrow> False"
| "one_wf (ByFrom v) \<longleftrightarrow> v \<noteq> [] \<and> trim_quotes v = v"
| "one_wf (ByTo v) \<longleftrightarrow> v \<noteq> [] \<and> trim_quotes v = v"
| "one_wf (BySubject v) \<longleftrightarrow> v \<noteq> [] \<and> trim_quotes v = v"
| "one_wf (ByIn v) \<longleftrightarrow> v \<noteq> [] \<and> trim_quotes v = v"
| "one_wf (ByFilename v) \<longleftrightarrow> v \<noteq> [] \<and> trim_quotes v = v"
| "one_wf (ByList v) \<longleftrightarrow> v \<noteq> [] \<and> trim_quotes v = v"
| "one_wf (ByAccount v) \<longleftrightarrow> v \<noteq> [] \<and> trim_quotes v = v"
| "one_wf (ByGroup v) \<longleftrightarrow> v \<noteq> [] \<and> trim_quotes v = v"
| "one_wf (ByLabel v) \<longleftrightarrow> v \<noteq> [] \<and> trim_quotes v = v"
| "one_wf _ \<longleftrightarrow> True"

definition filter_wf :: "search_filter \<Rightarrow> bool" where
  "filter_wf f =
     (case f of ByAnyOf ms \<Rightarrow> any_of_new ms = Some ms \<and> list_all one_wf ms | _ \<Rightarrow> one_wf f)"

definition token_wf :: "search_token \<Rightarrow> bool" where
  "token_wf t =
     (case tk_kind t of
        FilterToken c \<Rightarrow> filter_wf (cl_filter c)
      | PartialToken p \<Rightarrow> True
      | TextToken x \<Rightarrow> tt_value x \<noteq> [] \<and> trim_quotes (tt_value x) = tt_value x)"

lemma one_wf_filter_wf: "one_wf f \<Longrightarrow> filter_wf f"
  by (cases f) (simp_all add: filter_wf_def)

lemma dropWhile_rev_head: "dropWhile P (rev (dropWhile P s)) \<noteq> [] \<Longrightarrow>
    dropWhile P (rev (dropWhile P (rev (dropWhile P s)))) = rev (dropWhile P (rev (dropWhile P s)))"
proof -
  let ?u = "dropWhile P s"
  let ?v = "dropWhile P (rev ?u)"
  assume "?v \<noteq> []"
  then have "last (takeWhile P (rev ?u) @ ?v) = last ?v" by (rule last_appendR)
  then have "last ?v = last (rev ?u)" by (simp only: takeWhile_dropWhile_id)
  moreover have une: "?u \<noteq> []"
  proof
    assume "?u = []"
    with \<open>?v \<noteq> []\<close> show False by simp
  qed
  ultimately have "hd (rev ?v) = hd ?u" by (simp add: hd_rev last_rev)
  moreover have "\<not> P (hd ?u)" using une by (rule hd_dropWhile)
  ultimately show ?thesis by (simp add: dropWhile_eq_self_iff)
qed

lemma trim_quotes_idem: "trim_quotes (trim_quotes s) = trim_quotes s"
proof (cases "trim_quotes s = []")
  case True
  show ?thesis unfolding True by (simp add: trim_quotes_def)
next
  case False
  let ?P = "\<lambda>c. c = CHR 0x22"
  from False have ne: "dropWhile ?P (rev (dropWhile ?P s)) \<noteq> []" unfolding trim_quotes_def by blast
  have "rev (dropWhile ?P (rev (rev (dropWhile ?P (rev (dropWhile ?P s)))))) = rev (dropWhile ?P (rev (dropWhile ?P s)))"
    by (simp only: rev_rev_ident dropWhile_idem)
  with dropWhile_rev_head [OF ne] show ?thesis unfolding trim_quotes_def by (simp only:)
qed

lemma split_on_absent_parts: "w \<in> set (split_on d s) \<Longrightarrow> d \<notin> set w"
  by (induction s arbitrary: w) (fastforce split: if_splits list.splits)+

lemma trim_subset: "set (trim s) \<subseteq> set s"
proof -
  have start: "set (trim_start s) \<subseteq> set s" for s using trim_start_drop [of s] by (auto dest: in_set_dropD)
  have ending: "set (trim_end_rev s) \<subseteq> set s" for s
  proof (induction s rule: trim_end_rev.induct)
    case (1 s)
    show ?case
    proof (cases "ws_len_rev (bytes s) = 0")
      case False
      with 1 [OF refl] show ?thesis by (subst trim_end_rev.simps) (auto simp: Let_def dest: in_set_dropD)
    qed (simp add: trim_end_rev_id)
  qed
  from start [of s] ending [of "rev (trim_start s)"] show ?thesis by (auto simp: trim_def)
qed

lemma parse_size_bound: "parse_size v = Some n \<Longrightarrow> n \<le> u64_max"
  by (auto simp: parse_size_def Let_def split: if_splits option.splits)

lemma boundary_le: "boundary s n \<le> n"
  by (induction n) auto

lemma normalize_value_limit: "length (normalize_value L v) \<le> value_limit"
  using boundary_le [of "intercalate '' '' (split_whitespace (sx_decode_header L v))" value_limit]
  by (auto simp: normalize_value_def Let_def)

lemma one_value_wf:
  assumes "one_value L today field v = Some f" "v \<noteq> []" "trim_quotes v = v"
  shows "one_wf f" "filter_field f = field"
proof -
  have "one_wf f \<and> filter_field f = field"
  proof (cases field)
    case FieldWith
    have "CHR '','' \<notin> set a" if "a \<in> trim ` set (split_on (CHR '','') v)" for a
      using that trim_subset split_on_absent_parts by fastforce
    with assms FieldWith show ?thesis by (auto simp: one_value_def Let_def list_all_iff split: if_splits)
  qed (use assms in \<open>auto simp: one_value_def Let_def split: if_splits dest: parse_size_bound\<close>)
  then show "one_wf f" "filter_field f = field" by auto
qed

lemma plain_operator_wf:
  "plain_operator L today negated field raw = FilterToken c \<Longrightarrow> one_wf (cl_filter c) \<and> filter_field (cl_filter c) = field"
  using one_value_wf [of L today field "trim_quotes raw"]
  by (auto simp: plain_operator_def Let_def trim_quotes_idem split: if_splits option.splits)

lemma header_token_wf: "header_token L negated raw = FilterToken c \<Longrightarrow> one_wf (cl_filter c)"
  by (auto simp: header_token_def Let_def normalize_value_limit split: if_splits prod.splits option.splits)

lemma set_members_wf:
  "set_members L today field inner cursor = Some ms \<Longrightarrow> list_all (\<lambda>f. one_wf f \<and> filter_field f = field) ms"
proof (induction L today field inner cursor arbitrary: ms rule: set_members.induct)
  case (1 L today field inner cursor)
  show ?case
  proof (cases "next_word_start inner cursor")
    case None
    with 1(2) show ?thesis by (simp add: set_members.simps)
  next
    case (Some start)
    let ?e = "inner_word_end inner start"
    let ?v = "take (?e - start) (drop start inner)"
    from Some 1(2) have nb: "strip_prefix ''{'' ?v = None"
      by (subst (asm) set_members.simps) (auto simp: Let_def split: if_splits)
    with Some 1(2) obtain c rest where c: "plain_operator L today False field ?v = FilterToken c"
      "set_members L today field inner ?e = Some rest" "ms = cl_filter c # rest"
      by (subst (asm) set_members.simps) (auto simp: Let_def split: token_kind.splits)
    with 1(1) [OF Some refl refl _ c(1) c(2)] nb plain_operator_wf [OF c(1)] show ?thesis by simp
  qed
qed

lemma any_of_wf: "any_of ms = Some f \<Longrightarrow> list_all one_wf ms \<Longrightarrow> filter_wf f"
  by (auto simp: any_of_def any_of_new_def filter_wf_def one_wf_filter_wf [unfolded filter_wf_def]
      split: list.splits if_splits search_filter.splits)

lemma operator_wf: "operator L today negated field raw = FilterToken c \<Longrightarrow> filter_wf (cl_filter c)"
proof -
  assume op: "operator L today negated field raw = FilterToken c"
  consider "field = FieldHeader" | "field \<noteq> FieldHeader" "strip_prefix ''{'' raw \<noteq> None"
    | "field \<noteq> FieldHeader" "strip_prefix ''{'' raw = None" by blast
  then show ?thesis
  proof cases
    case 1
    with op header_token_wf show ?thesis by (auto simp: operator_def intro: one_wf_filter_wf)
  next
    case 2
    with op obtain f where f: "set_filter L today field raw = Some f" "cl_filter c = f"
      by (auto simp: operator_def split: option.splits)
    then obtain inner ms where "set_members L today field inner 0 = Some ms" "any_of ms = Some f"
      by (auto simp: set_filter_def split: if_splits option.splits)
    with set_members_wf any_of_wf f(2) show ?thesis by (fastforce simp: list_all_iff)
  next
    case 3
    with op plain_operator_wf show ?thesis by (auto simp: operator_def intro: one_wf_filter_wf)
  qed
qed

text \<open>
  C22: Whatever is typed, every token the parser returns is well formed: a set has at least
  two members, all of one field that takes sets, none a set itself; a free text value is not
  empty and neither starts nor ends with a quote; a list of addresses has one at least and
  none empty; a header has a name, and a value within 512 bytes when it has one; a size fits
  64 bits; a free word is not empty.
\<close>

theorem search_tokens_are_well_formed: "list_all token_wf (parse L today input)"
proof -
  have "token_wf t" if t: "t \<in> set (parse L today input)" for t
  proof (cases "tk_kind t")
    case (FilterToken c)
    with token_reading [OF t] show ?thesis
      by (auto simp: token_wf_def classify_word_def text_kind_def Let_def operator_wf
          split: if_splits option.splits prod.splits)
  next
    case (TextToken x)
    with token_reading [OF t] show ?thesis
      by (auto simp: token_wf_def classify_word_def text_kind_def Let_def trim_quotes_idem
          split: if_splits option.splits prod.splits) (auto simp: operator_def header_token_def plain_operator_def Let_def split: if_splits option.splits prod.splits)
  qed (simp add: token_wf_def)
  then show ?thesis by (simp add: list_all_iff)
qed

end
