(* ===== verification/Subject.thy ===== *)
theory Subject
  imports Rust_Str
begin

section \<open>Subjects\<close>

text \<open>
  \<open>crates/postio-model/src/subject.rs\<close>: the subject two messages of one conversation
  share once reply and forward decoration is gone, and the subject of a reply or a forward.
  The Unicode tables behind \<open>to_lowercase\<close> are the parameter \<open>lower\<close>.
\<close>

definition prefixes :: "string list" where
  "prefixes = [''fwd'', ''fw'', ''re'', ''aw'', ''sv'', ''vs'', ''antw'', ''odp'', ''ref'', ''rif'', ''enc'', ''tr'', ''res'']"

definition strip_one_counter :: "char \<Rightarrow> char \<Rightarrow> string \<Rightarrow> string option" where
  "strip_one_counter opens closes s =
     (case strip_prefix [opens] s of
        None \<Rightarrow> None
      | Some inner \<Rightarrow>
          (case split_once closes inner of
             None \<Rightarrow> None
           | Some (digits, rest) \<Rightarrow> (if digits \<noteq> [] \<and> list_all is_digit digits then Some rest else None)))"

definition strip_counter :: "string \<Rightarrow> string" where
  "strip_counter s =
     (case strip_one_counter (CHR ''['') (CHR '']'') s of
        Some rest \<Rightarrow> rest
      | None \<Rightarrow>
          (case strip_one_counter (CHR ''('') (CHR '')'') s of
             Some rest \<Rightarrow> rest
           | None \<Rightarrow> s))"

definition strip_word :: "string \<Rightarrow> string \<Rightarrow> string option" where
  "strip_word s word =
     (case strip_prefix word s of
        None \<Rightarrow> None
      | Some after_word \<Rightarrow> map_option trim_start (strip_prefix '':'' (trim_start (strip_counter after_word))))"

fun first_some :: "('a \<Rightarrow> 'b option) \<Rightarrow> 'a list \<Rightarrow> 'b option" where
  "first_some f [] = None"
| "first_some f (x # xs) = (case f x of Some y \<Rightarrow> Some y | None \<Rightarrow> first_some f xs)"

definition strip_one_prefix :: "string \<Rightarrow> string option" where
  "strip_one_prefix s = first_some (strip_word (trim_start s)) prefixes"

definition split_leading_tag :: "string \<Rightarrow> string \<times> string" where
  "split_leading_tag s =
     (if strip_prefix ''['' s = None then ([], s)
      else (case split_once (CHR '']'') s of
              Some (tag, rest) \<Rightarrow> (tag @ '']'', trim_start rest)
            | None \<Rightarrow> ([], s)))"

text \<open>Every step of the loop below is shorter than what it started from.\<close>

lemma strip_prefix_shorter: "strip_prefix p s = Some r \<Longrightarrow> length r + length p = length s"
  by (auto simp: strip_prefix_def min_def dest: arg_cong [of _ _ length] split: if_splits)

lemma split_once_shorter: "split_once d s = Some (a, b) \<Longrightarrow> length a + length b < length s"
  by (induction s arbitrary: a b) (auto split: if_splits option.splits)

lemma strip_one_counter_shorter: "strip_one_counter a b s = Some r \<Longrightarrow> length r \<le> length s"
  by (auto simp: strip_one_counter_def dest!: strip_prefix_shorter split_once_shorter
      split: option.splits if_splits)

lemma strip_counter_shorter: "length (strip_counter s) \<le> length s"
  by (auto simp: strip_counter_def dest: strip_one_counter_shorter split: option.splits)

lemma strip_word_shorter: "strip_word s w = Some r \<Longrightarrow> length r < length s"
proof -
  assume "strip_word s w = Some r"
  then obtain after inner where "strip_prefix w s = Some after"
      "strip_prefix '':'' (trim_start (strip_counter after)) = Some inner" "r = trim_start inner"
    by (auto simp: strip_word_def split: option.splits)
  with strip_prefix_shorter [of w s after] strip_prefix_shorter [of "'':''" "trim_start (strip_counter after)" inner]
    strip_counter_shorter [of after] trim_start_length [of inner] trim_start_length [of "strip_counter after"]
  show "length r < length s" by simp
qed

lemma first_some_from: "first_some f xs = Some y \<Longrightarrow> \<exists>x\<in>set xs. f x = Some y"
  by (induction xs) (auto split: option.splits)

lemma first_some_none: "first_some f xs = None \<longleftrightarrow> (\<forall>x\<in>set xs. f x = None)"
  by (induction xs) (auto split: option.splits)

lemma strip_one_prefix_shorter: "strip_one_prefix s = Some r \<Longrightarrow> length r < length s"
  using trim_start_length [of s]
  by (auto simp: strip_one_prefix_def dest!: first_some_from strip_word_shorter)

function strip_prefixes :: "string \<Rightarrow> string" where
  "strip_prefixes s = (case strip_one_prefix s of Some r \<Rightarrow> strip_prefixes r | None \<Rightarrow> s)"
  by pat_completeness auto
termination
  by (relation "measure length") (auto dest: strip_one_prefix_shorter)

declare strip_prefixes.simps [simp del]

definition normalize_subject :: "(string \<Rightarrow> string) \<Rightarrow> string \<Rightarrow> string" where
  "normalize_subject lower subject =
     (let collapsed = intercalate '' '' (split_whitespace (lower subject));
          (tag, rest) = split_leading_tag collapsed;
          rest = trim (strip_prefixes rest)
      in if tag = [] then rest else if rest = [] then tag else tag @ '' '' @ rest)"

definition is_reply :: "(string \<Rightarrow> string) \<Rightarrow> string \<Rightarrow> bool" where
  "is_reply lower subject = (strip_one_prefix (snd (split_leading_tag (trim (lower subject)))) \<noteq> None)"

definition starts_with_one_of :: "(string \<Rightarrow> string) \<Rightarrow> string \<Rightarrow> string list \<Rightarrow> bool" where
  "starts_with_one_of lower subject words =
     list_ex (\<lambda>w. case strip_prefix w (lower subject) of
         None \<Rightarrow> False
       | Some after_word \<Rightarrow> strip_prefix '':'' (trim_start (strip_counter after_word)) \<noteq> None) words"

definition prefixed_subject :: "(string \<Rightarrow> string) \<Rightarrow> string \<Rightarrow> string \<Rightarrow> string list \<Rightarrow> string" where
  "prefixed_subject lower original label words =
     (let trimmed = trim original in
      if starts_with_one_of lower trimmed words then trimmed
      else if trimmed = [] then label
      else label @ '' '' @ trimmed)"

definition reply_subject :: "(string \<Rightarrow> string) \<Rightarrow> string \<Rightarrow> string" where
  "reply_subject lower original = prefixed_subject lower original ''Re:'' [''re'']"

definition forward_subject :: "(string \<Rightarrow> string) \<Rightarrow> string \<Rightarrow> string" where
  "forward_subject lower original = prefixed_subject lower original ''Fwd:'' [''fwd'', ''fw'']"

end
