(* ===== verification/Threading.thy ===== *)
theory Threading
  imports Subject Op_Queue
begin

section \<open>Threading\<close>

text \<open>
  \<open>crates/postio-model/src/threading.rs\<close> with what it reads of \<open>ids.rs\<close> and
  \<open>message.rs\<close>, and \<open>crates/postio-storage/src/repository/threading.rs\<close> with the
  statements of \<open>threads.rs\<close> it runs: which conversation a message belongs to, and the
  writes that put it there.  The tables are lists of rows in id order; \<open>cs_next\<close> is the
  \<open>AUTOINCREMENT\<close> counter of \<open>threads\<close> and \<open>cs_now\<close> the clock of the database.
  Deleting a thread takes the links that point at it along (\<open>ON DELETE CASCADE\<close>) and
  clears it from messages and drafts (\<open>ON DELETE SET NULL\<close>).
\<close>

subsection \<open>Message ids and cues\<close>

definition trim_end_of :: "char \<Rightarrow> string \<Rightarrow> string" where
  "trim_end_of c s = rev (dropWhile (\<lambda>x. x = c) (rev s))"

definition rfc_new :: "string \<Rightarrow> string" where
  "rfc_new v = (let inner = trim (trim_end_of (CHR ''>'') (dropWhile (\<lambda>x. x = CHR ''<'') (trim v))) in ''<'' @ inner @ ''>'')"

definition folded :: "string \<Rightarrow> string" where
  "folded i = lower_ascii i"

definition rfc_eq :: "string \<Rightarrow> string \<Rightarrow> bool" where
  "rfc_eq a b \<longleftrightarrow> lower_bytes a = lower_bytes b"

text \<open>Of a message only what threading and a thread's aggregates read.\<close>

record conv_message =
  cm_id :: message_id
  cm_account :: account_id
  cm_mailbox :: mailbox_id
  cm_thread :: "thread_id option"
  cm_rfc :: "string option"
  cm_in_reply_to :: "string option"
  cm_references :: "string list"
  cm_subject :: "string option"
  cm_received_at :: int
  cm_sort_at :: int
  cm_seen :: bool
  cm_flagged :: bool
  cm_has_attachments :: bool
  cm_deleted_locally :: bool
  cm_snoozed_until :: "int option"

definition reference_chain :: "conv_message \<Rightarrow> string list" where
  "reference_chain m =
     cm_references m
     @ (case cm_in_reply_to m of
          None \<Rightarrow> []
        | Some parent \<Rightarrow>
            if cm_references m \<noteq> [] \<and> rfc_eq (last (cm_references m)) parent then [] else [parent])"

record thread_cue =
  tc_message_id :: "string option"
  tc_references :: "string list"
  tc_subject :: string
  tc_is_reply :: bool

definition subject_text :: "conv_message \<Rightarrow> string" where
  "subject_text m = (case cm_subject m of Some s \<Rightarrow> s | None \<Rightarrow> [])"

definition cue_of :: "(string \<Rightarrow> string) \<Rightarrow> conv_message \<Rightarrow> thread_cue" where
  "cue_of lower m =
     \<lparr>tc_message_id = cm_rfc m, tc_references = reference_chain m,
      tc_subject = normalize_subject lower (subject_text m), tc_is_reply = is_reply lower (subject_text m)\<rparr>"

definition own_id :: "thread_cue \<Rightarrow> string list" where
  "own_id c = (case tc_message_id c of Some i \<Rightarrow> [i] | None \<Rightarrow> [])"

definition cue_links :: "thread_cue \<Rightarrow> string list" where
  "cue_links c = own_id c @ rev (tc_references c)"

definition claimed_ids :: "thread_cue \<Rightarrow> string list" where
  "claimed_ids c = own_id c @ tc_references c"

definition subject_is_usable :: "thread_cue \<Rightarrow> bool" where
  "subject_is_usable c \<longleftrightarrow> tc_is_reply c \<and> tc_subject c \<noteq> []"


subsection \<open>The rule\<close>

datatype assignment =
    NewThread
  | JoinThread thread_id
  | MergeThreads thread_id "thread_id list"

fun assignment_thread :: "assignment \<Rightarrow> thread_id option" where
  "assignment_thread NewThread = None"
| "assignment_thread (JoinThread i) = Some i"
| "assignment_thread (MergeThreads into absorb) = Some into"

definition push_new :: "thread_id list \<Rightarrow> thread_id \<Rightarrow> thread_id list" where
  "push_new found t = (if t \<in> set found then found else found @ [t])"

definition push_link :: "(string \<Rightarrow> thread_id option) \<Rightarrow> thread_id list \<Rightarrow> string \<Rightarrow> thread_id list" where
  "push_link thread_of found link = (case thread_of link of Some t \<Rightarrow> push_new found t | None \<Rightarrow> found)"

definition threads_found :: "thread_cue \<Rightarrow> (string \<Rightarrow> thread_id option) \<Rightarrow> (string \<Rightarrow> thread_id list) \<Rightarrow> thread_id list" where
  "threads_found c thread_of with_subject =
     (let found = foldl (push_link thread_of) [] (cue_links c) in
      if found = [] \<and> subject_is_usable c then foldl push_new found (with_subject (tc_subject c)) else found)"

definition assign_thread :: "thread_cue \<Rightarrow> (string \<Rightarrow> thread_id option) \<Rightarrow> (string \<Rightarrow> thread_id list) \<Rightarrow> assignment" where
  "assign_thread c thread_of with_subject =
     (let found = threads_found c thread_of with_subject in
      case found of
        [] \<Rightarrow> NewThread
      | [t] \<Rightarrow> JoinThread t
      | t # us \<Rightarrow>
          (let into = fold min us t in
           MergeThreads into (sort (filter (\<lambda>i. i \<noteq> into) found))))"


subsection \<open>The tables\<close>

record thread_row =
  tr_id :: thread_id
  tr_account :: account_id
  tr_subject :: "string option"
  tr_message_count :: nat
  tr_unread_count :: nat
  tr_has_attachments :: bool
  tr_is_flagged :: bool
  tr_first_at :: int
  tr_last_at :: int

record conv_store =
  cs_messages :: "conv_message list"
  cs_drafts :: "(draft_id \<times> thread_id option) list"
  cs_threads :: "thread_row list"
  cs_links :: "((account_id \<times> string) \<times> thread_id) list"
  cs_next :: thread_id
  cs_now :: int

definition visible :: "conv_store \<Rightarrow> conv_message \<Rightarrow> bool" where
  "visible s m \<longleftrightarrow> \<not> cm_deleted_locally m \<and> (case cm_snoozed_until m of None \<Rightarrow> True | Some t \<Rightarrow> t \<le> cs_now s)"

definition members :: "conv_store \<Rightarrow> thread_id \<Rightarrow> conv_message list" where
  "members s i = filter (\<lambda>m. cm_thread m = Some i \<and> visible s m) (cs_messages s)"

definition get_message :: "conv_store \<Rightarrow> message_id \<Rightarrow> conv_message option" where
  "get_message s i = find (\<lambda>m. cm_id m = i) (cs_messages s)"

definition get_thread :: "conv_store \<Rightarrow> thread_id \<Rightarrow> thread_row option" where
  "get_thread s i = find (\<lambda>t. tr_id t = i) (cs_threads s)"

text \<open>\<open>coalesce((SELECT min(\<dots>)), 0)\<close> and the same with \<open>max\<close>.\<close>

fun min_or_zero :: "int list \<Rightarrow> int" where
  "min_or_zero [] = 0"
| "min_or_zero (x # xs) = fold min xs x"

fun max_or_zero :: "int list \<Rightarrow> int" where
  "max_or_zero [] = 0"
| "max_or_zero (x # xs) = fold max xs x"

definition root_subject :: "conv_store \<Rightarrow> thread_id \<Rightarrow> string option" where
  "root_subject s i =
     (case sort_key (\<lambda>m. (cm_received_at m, cm_id m)) (members s i) of
        [] \<Rightarrow> None
      | m # _ \<Rightarrow> cm_subject m)"

definition recomputed :: "(string \<Rightarrow> string) \<Rightarrow> conv_store \<Rightarrow> thread_row \<Rightarrow> thread_row" where
  "recomputed lower s t =
     (let ms = members s (tr_id t) in
      t\<lparr>tr_subject := (case root_subject s (tr_id t) of
            Some x \<Rightarrow> Some (normalize_subject lower x) | None \<Rightarrow> tr_subject t),
        tr_message_count := length ms,
        tr_unread_count := length (filter (\<lambda>m. \<not> cm_seen m) ms),
        tr_has_attachments := list_ex cm_has_attachments ms,
        tr_is_flagged := list_ex cm_flagged ms,
        tr_first_at := min_or_zero (map cm_received_at ms),
        tr_last_at := max_or_zero (map cm_sort_at ms)\<rparr>)"

definition recompute :: "(string \<Rightarrow> string) \<Rightarrow> thread_id \<Rightarrow> conv_store \<Rightarrow> conv_store" where
  "recompute lower i s =
     s\<lparr>cs_threads := map (\<lambda>t. if tr_id t = i then recomputed lower s t else t) (cs_threads s)\<rparr>"

definition set_thread :: "(conv_message \<Rightarrow> bool) \<Rightarrow> thread_id option \<Rightarrow> conv_store \<Rightarrow> conv_store" where
  "set_thread P t s = s\<lparr>cs_messages := map (\<lambda>m. if P m then m\<lparr>cm_thread := t\<rparr> else m) (cs_messages s)\<rparr>"

definition set_draft_threads :: "thread_id \<Rightarrow> thread_id option \<Rightarrow> conv_store \<Rightarrow> conv_store" where
  "set_draft_threads from to s =
     s\<lparr>cs_drafts := map (\<lambda>(d, t). (d, if t = Some from then to else t)) (cs_drafts s)\<rparr>"

text \<open>\<open>DELETE FROM threads WHERE id = ?\<close>, with what the foreign keys do.\<close>

definition delete_thread :: "thread_id \<Rightarrow> conv_store \<Rightarrow> conv_store" where
  "delete_thread i s =
     set_draft_threads i None (set_thread (\<lambda>m. cm_thread m = Some i) None
       (s\<lparr>cs_threads := filter (\<lambda>t. tr_id t \<noteq> i) (cs_threads s),
          cs_links := filter (\<lambda>(_, t). t \<noteq> i) (cs_links s)\<rparr>))"

definition create_thread :: "account_id \<Rightarrow> string option \<Rightarrow> conv_store \<Rightarrow> storage_error + (conv_store \<times> thread_id)" where
  "create_thread account subject s =
     (case require_persisted account ''account'' of
        Inl e \<Rightarrow> Inl e
      | Inr a \<Rightarrow>
          Inr (s\<lparr>cs_threads := cs_threads s @
                   [\<lparr>tr_id = cs_next s, tr_account = a, tr_subject = subject, tr_message_count = 0, tr_unread_count = 0,
                     tr_has_attachments = False, tr_is_flagged = False, tr_first_at = 0, tr_last_at = 0\<rparr>],
                 cs_next := cs_next s + 1\<rparr>, cs_next s))"

definition add_message :: "(string \<Rightarrow> string) \<Rightarrow> thread_id \<Rightarrow> message_id \<Rightarrow> conv_store \<Rightarrow> storage_error + conv_store" where
  "add_message lower t i s =
     (case get_message s i of
        None \<Rightarrow> Inl (NotFound ''message'' i)
      | Some m \<Rightarrow>
          (let s' = recompute lower t (set_thread (\<lambda>m. cm_id m = i) (Some t) s) in
           Inr (case cm_thread m of
                  Some previous \<Rightarrow> if previous \<noteq> t then recompute lower previous s' else s'
                | None \<Rightarrow> s')))"

definition merge_threads :: "(string \<Rightarrow> string) \<Rightarrow> thread_id \<Rightarrow> thread_id \<Rightarrow> conv_store \<Rightarrow> conv_store" where
  "merge_threads lower keep absorb s =
     (if keep = absorb then recompute lower keep s
      else recompute lower keep
        (delete_thread absorb
          (set_draft_threads absorb (Some keep) (set_thread (\<lambda>m. cm_thread m = Some absorb) (Some keep) s))))"


subsection \<open>The index\<close>

record loaded_index =
  li_by_id :: "(string \<times> thread_id) list"
  li_by_subject :: "thread_id list"
  li_exclude :: "thread_id option"

text \<open>The thread claiming an id: \<open>(account_id, rfc_message_id)\<close> is the key of \<open>thread_links\<close>.\<close>

definition link_thread :: "conv_store \<Rightarrow> account_id \<Rightarrow> string \<Rightarrow> thread_id option" where
  "link_thread s account i = map_of (cs_links s) (account, folded i)"

definition link_rows :: "conv_store \<Rightarrow> account_id \<Rightarrow> string list \<Rightarrow> (string \<times> thread_id) list" where
  "link_rows s account links =
     concat (map (\<lambda>link. case link_thread s account link of Some t \<Rightarrow> [(folded link, t)] | None \<Rightarrow> []) links)"

definition load_row :: "string list \<Rightarrow> (string \<times> thread_id) list \<Rightarrow> string \<times> thread_id \<Rightarrow> (string \<times> thread_id) list" where
  "load_row links by_id row =
     (case find (\<lambda>link. rfc_eq link (fst row)) links of
        Some link \<Rightarrow> al_put link (snd row) by_id
      | None \<Rightarrow> by_id)"

definition load_index :: "conv_store \<Rightarrow> account_id \<Rightarrow> thread_cue \<Rightarrow> thread_id option \<Rightarrow> loaded_index" where
  "load_index s account c exclude =
     \<lparr>li_by_id = foldl (load_row (cue_links c)) [] (link_rows s account (cue_links c)),
      li_by_subject =
        (if subject_is_usable c
         then sort (map tr_id (filter (\<lambda>t. tr_account t = account \<and> tr_subject t = Some (tc_subject c)) (cs_threads s)))
         else []),
      li_exclude = exclude\<rparr>"

definition allowed :: "loaded_index \<Rightarrow> thread_id \<Rightarrow> bool" where
  "allowed ix t \<longleftrightarrow> li_exclude ix \<noteq> Some t"

definition index_thread_of :: "loaded_index \<Rightarrow> string \<Rightarrow> thread_id option" where
  "index_thread_of ix i =
     (case map_of (li_by_id ix) i of Some t \<Rightarrow> if allowed ix t then Some t else None | None \<Rightarrow> None)"

definition index_with_subject :: "loaded_index \<Rightarrow> string \<Rightarrow> thread_id list" where
  "index_with_subject ix _ = filter (allowed ix) (li_by_subject ix)"


subsection \<open>Filing\<close>

record threaded =
  td_thread :: thread_id
  td_created :: bool
  td_merged :: "thread_id list"

definition claim_link :: "account_id \<Rightarrow> thread_id \<Rightarrow> string \<Rightarrow> conv_store \<Rightarrow> conv_store" where
  "claim_link account t i s = s\<lparr>cs_links := al_put (account, folded i) t (cs_links s)\<rparr>"

definition relink :: "thread_id \<Rightarrow> thread_id \<Rightarrow> conv_store \<Rightarrow> conv_store" where
  "relink absorbed into s =
     s\<lparr>cs_links := al_map (\<lambda>t. if t = absorbed then into else t) (cs_links s)\<rparr>"

definition absorb_thread :: "(string \<Rightarrow> string) \<Rightarrow> thread_id \<Rightarrow> thread_id \<Rightarrow> conv_store \<Rightarrow> conv_store" where
  "absorb_thread lower into other s = merge_threads lower into other (relink other into s)"

definition start_assignment :: "(string \<Rightarrow> string) \<Rightarrow> account_id \<Rightarrow> thread_cue \<Rightarrow> assignment
    \<Rightarrow> conv_store \<Rightarrow> storage_error + (conv_store \<times> thread_id \<times> bool \<times> thread_id list)" where
  "start_assignment lower account c assignment s =
     (case assignment of
        NewThread \<Rightarrow>
          (case create_thread account (if tc_subject c = [] then None else Some (tc_subject c)) s of
             Inl e \<Rightarrow> Inl e
           | Inr (s, t) \<Rightarrow> Inr (s, t, True, []))
      | JoinThread t \<Rightarrow> Inr (s, t, False, [])
      | MergeThreads into absorb \<Rightarrow> Inr (fold (absorb_thread lower into) absorb s, into, False, absorb))"

definition apply_assignment :: "(string \<Rightarrow> string) \<Rightarrow> account_id \<Rightarrow> conv_message \<Rightarrow> thread_cue \<Rightarrow> assignment
    \<Rightarrow> conv_store \<Rightarrow> storage_error + (conv_store \<times> threaded)" where
  "apply_assignment lower account m c assignment s =
     (case start_assignment lower account c assignment s of
        Inl e \<Rightarrow> Inl e
      | Inr (s, t, created, merged) \<Rightarrow>
          (case add_message lower t (cm_id m) s of
             Inl e \<Rightarrow> Inl e
           | Inr s \<Rightarrow>
               Inr (fold (claim_link account t) (claimed_ids c) s,
                    \<lparr>td_thread = t, td_created = created, td_merged = merged\<rparr>)))"

definition assignment_for :: "conv_store \<Rightarrow> account_id \<Rightarrow> thread_cue \<Rightarrow> thread_id option \<Rightarrow> assignment" where
  "assignment_for s account c exclude =
     (let ix = load_index s account c exclude in assign_thread c (index_thread_of ix) (index_with_subject ix))"

text \<open>\<open>thread\<close>: an error takes back the whole scope.\<close>

definition thread_message :: "(string \<Rightarrow> string) \<Rightarrow> account_id \<Rightarrow> conv_message \<Rightarrow> conv_store
    \<Rightarrow> storage_error + (conv_store \<times> threaded)" where
  "thread_message lower account m s =
     (let c = cue_of lower m in apply_assignment lower account m c (assignment_for s account c None) s)"

definition reconsider :: "(string \<Rightarrow> string) \<Rightarrow> account_id \<Rightarrow> conv_message \<Rightarrow> conv_store
    \<Rightarrow> storage_error + (conv_store \<times> threaded option)" where
  "reconsider lower account m s =
     (case cm_thread m of
        None \<Rightarrow> Inr (s, None)
      | Some current \<Rightarrow>
          (case get_thread s current of
             None \<Rightarrow> Inr (s, None)
           | Some t \<Rightarrow>
               if tr_message_count t \<noteq> 1 then Inr (s, None)
               else
                 (let c = cue_of lower m; assignment = assignment_for s account c (Some current) in
                  if assignment = NewThread then Inr (s, None)
                  else
                    (case apply_assignment lower account m c assignment s of
                       Inl e \<Rightarrow> Inl e
                     | Inr (s, r) \<Rightarrow>
                         Inr (merge_threads lower (td_thread r) current (relink current (td_thread r) s),
                              Some (r\<lparr>td_merged := td_merged r @ [current]\<rparr>))))))"

definition subject_only_orphans :: "(string \<Rightarrow> string) \<Rightarrow> conv_store \<Rightarrow> mailbox_id \<Rightarrow> message_id list" where
  "subject_only_orphans lower s box =
     map cm_id (filter (\<lambda>m. cm_mailbox m = box \<and> cm_thread m \<noteq> None \<and> cm_in_reply_to m = None
         \<and> cm_references m = [] \<and> (case cm_subject m of Some x \<Rightarrow> is_reply lower x | None \<Rightarrow> False)) (cs_messages s))"

fun rethread_each :: "(string \<Rightarrow> string) \<Rightarrow> account_id \<Rightarrow> message_id list \<Rightarrow> conv_store \<Rightarrow> storage_error + (conv_store \<times> nat)" where
  "rethread_each lower account [] s = Inr (s, 0)"
| "rethread_each lower account (i # is) s =
     (case get_message s i of
        None \<Rightarrow> rethread_each lower account is s
      | Some m \<Rightarrow>
          (case reconsider lower account m s of
             Inl e \<Rightarrow> Inl e
           | Inr (s, r) \<Rightarrow>
               (case rethread_each lower account is s of
                  Inl e \<Rightarrow> Inl e
                | Inr (s, moved) \<Rightarrow> Inr (s, if r = None then moved else Suc moved))))"

definition rethread_orphans :: "(string \<Rightarrow> string) \<Rightarrow> account_id \<Rightarrow> mailbox_id \<Rightarrow> conv_store \<Rightarrow> storage_error + (conv_store \<times> nat)" where
  "rethread_orphans lower account box s = rethread_each lower account (subject_only_orphans lower s box) s"

definition claims :: "conv_store \<Rightarrow> account_id \<Rightarrow> thread_id \<Rightarrow> string list" where
  "claims s account t =
     map rfc_new (sort_key bytes (map (\<lambda>((_, i), _). i) (filter (\<lambda>((a, _), u). a = account \<and> u = t) (cs_links s))))"

end
