(* ===== verification/Threading_Rule.thy ===== *)
theory Threading_Rule
  imports Threading
begin

section \<open>The threading rule\<close>

text \<open>
  What \<open>assign\<close> answers from the threads its index names, and that the index a
  repository loads beforehand answers as the tables would: the locale \<open>eager_index\<close> is
  the contract between the rule and the index, \<open>loaded\<close> its interpretation.
\<close>

subsection \<open>Ids\<close>

lemma byte_lower: "byte (char_of (ascii_lower (byte c))) = ascii_lower (byte c)"
proof -
  have "ascii_lower (byte c) < 256"
    using nat_of_char_less_256 [of c] by (auto simp: byte_def ascii_lower_def)
  then show ?thesis by (simp add: byte_def)
qed

lemma bytes_folded: "bytes (folded i) = lower_bytes i"
  by (simp add: folded_def lower_ascii_def lower_bytes_def bytes_def byte_lower)

lemma rfc_eq_folded: "rfc_eq a b \<longleftrightarrow> folded a = folded b"
  unfolding rfc_eq_def bytes_folded [symmetric] by simp

lemma folded_idem [simp]: "folded (folded i) = folded i"
  by (simp add: folded_def lower_ascii_def byte_lower)

lemma set_cue_links: "set (cue_links c) = set (claimed_ids c)"
  by (simp add: cue_links_def claimed_ids_def)


subsection \<open>What the rule finds\<close>

lemma push_new_set [simp]: "set (push_new found t) = insert t (set found)"
  by (auto simp: push_new_def)

lemma push_new_distinct: "distinct found \<Longrightarrow> distinct (push_new found t)"
  by (simp add: push_new_def)

lemma push_link_distinct: "distinct found \<Longrightarrow> distinct (push_link g found l)"
  by (simp add: push_link_def push_new_distinct split: option.split)

lemma foldl_keeps: "(\<And>a x. P a \<Longrightarrow> P (f a x)) \<Longrightarrow> P a \<Longrightarrow> P (foldl f a xs)"
  by (induction xs arbitrary: a) auto

lemma push_links_set: "set (foldl (push_link g) found ls) = set found \<union> {t. \<exists>l\<in>set ls. g l = Some t}"
  by (induction ls arbitrary: found) (auto simp: push_link_def split: option.split)

lemma push_all_set: "set (foldl push_new found ts) = set found \<union> set ts"
  by (induction ts arbitrary: found) auto

definition linked_threads :: "thread_cue \<Rightarrow> (string \<Rightarrow> thread_id option) \<Rightarrow> thread_id set" where
  "linked_threads c g = {t. \<exists>l\<in>set (claimed_ids c). g l = Some t}"

lemma threads_found_set:
  "set (threads_found c g sub) =
     (if linked_threads c g = {} \<and> subject_is_usable c then set (sub (tc_subject c)) else linked_threads c g)"
proof -
  let ?found = "foldl (push_link g) [] (cue_links c)"
  have links: "set ?found = linked_threads c g"
    unfolding push_links_set linked_threads_def set_cue_links by simp
  then have "?found = [] \<longleftrightarrow> linked_threads c g = {}" by (metis set_empty)
  with links show ?thesis by (auto simp: threads_found_def Let_def push_all_set)
qed

lemma threads_found_distinct: "distinct (threads_found c g sub)"
proof -
  have "distinct (foldl (push_link g) [] (cue_links c))"
    by (rule foldl_keeps [where P = distinct, OF push_link_distinct]) simp_all
  then show ?thesis
    by (auto simp: threads_found_def Let_def intro: foldl_keeps [where P = distinct, OF push_new_distinct])
qed

text \<open>
  The answer: a new thread when nothing is found, the thread found, or the oldest of those
  found with the others, in order, to be folded into it.
\<close>

lemma assign_thread_cases:
  fixes g :: "string \<Rightarrow> thread_id option" and sub :: "string \<Rightarrow> thread_id list" and c :: thread_cue
  defines "found \<equiv> set (threads_found c g sub)"
  shows "(found = {} \<and> assign_thread c g sub = NewThread)
    \<or> (\<exists>t. found = {t} \<and> assign_thread c g sub = JoinThread t)
    \<or> (\<exists>absorb. assign_thread c g sub = MergeThreads (Min found) absorb \<and> absorb \<noteq> [] \<and> sorted absorb
          \<and> distinct absorb \<and> set absorb = found - {Min found} \<and> Min found \<in> found)"
proof -
  consider (none) "threads_found c g sub = []"
    | (one) t where "threads_found c g sub = [t]"
    | (more) t u us where "threads_found c g sub = t # u # us"
    by (cases "threads_found c g sub" rule: remdups_adj.cases) auto
  then show ?thesis
  proof cases
    case none
    then show ?thesis by (simp add: assign_thread_def found_def)
  next
    case one
    then show ?thesis by (simp add: assign_thread_def found_def)
  next
    case more
    let ?rest = "sort (filter (\<lambda>i. i \<noteq> Min found) (threads_found c g sub))"
    have into: "fold min (u # us) t = Min found"
      unfolding found_def more by (rule Min.set_eq_fold [symmetric])
    have member: "Min found \<in> found" unfolding found_def more by (rule Min_in) simp_all
    have "t \<noteq> u" using threads_found_distinct [of c g sub] more by auto
    then obtain x where "x \<in> found" "x \<noteq> Min found" unfolding found_def more by (metis list.set_intros(1,2))
    then have "set ?rest \<noteq> {}" unfolding found_def by auto
    then have rest: "?rest \<noteq> []" by force
    have "assign_thread c g sub = MergeThreads (Min found) ?rest"
      unfolding assign_thread_def Let_def more list.case into ..
    moreover have "set ?rest = found - {Min found}" unfolding found_def by auto
    ultimately show ?thesis using rest member threads_found_distinct [of c g sub] by simp
  qed
qed


subsection \<open>The index a repository loads\<close>

text \<open>
  The rule asks an index about the ids of one cue, so an index may be loaded before the
  rule runs.  Its answers are the table's, at least for the first spelling of each id.
\<close>

locale eager_index =
  fixes links :: "string list"
    and stored loaded :: "string \<Rightarrow> thread_id option"
  assumes stored_same: "folded a = folded b \<Longrightarrow> stored a = stored b"
    and loaded_sound: "loaded l = Some t \<Longrightarrow> stored l = Some t"
    and loaded_first: "find (\<lambda>k. rfc_eq k l) links = Some k \<Longrightarrow> loaded k = stored k"
begin

lemma loaded_complete: "l \<in> set links \<Longrightarrow> stored l = Some t \<Longrightarrow> \<exists>k\<in>set links. loaded k = Some t"
proof -
  assume l: "l \<in> set links" "stored l = Some t"
  then obtain k where k: "find (\<lambda>k. rfc_eq k l) links = Some k"
    by (metis find_None_iff not_None_eq rfc_eq_folded)
  then have "k \<in> set links" "rfc_eq k l" by (auto simp: find_Some_iff)
  with loaded_first [OF k] stored_same [of k l] l(2) show ?thesis by (auto simp: rfc_eq_folded)
qed

lemma same_answers: "{t. \<exists>l\<in>set links. loaded l = Some t} = {t. \<exists>l\<in>set links. stored l = Some t}"
  using loaded_sound loaded_complete by blast

end

definition stored_thread :: "conv_store \<Rightarrow> account_id \<Rightarrow> thread_id option \<Rightarrow> string \<Rightarrow> thread_id option" where
  "stored_thread s account exclude l =
     (case link_thread s account l of Some t \<Rightarrow> if exclude \<noteq> Some t then Some t else None | None \<Rightarrow> None)"

lemma load_row_sound:
  assumes "\<forall>k t. map_of by_id k = Some t \<longrightarrow> link_thread s a k = Some t"
    and "link_thread s a (fst row) = Some (snd row)"
  shows "\<forall>k t. map_of (load_row links by_id row) k = Some t \<longrightarrow> link_thread s a k = Some t"
proof (cases "find (\<lambda>l. rfc_eq l (fst row)) links")
  case None
  with assms(1) show ?thesis by (simp add: load_row_def)
next
  case (Some l)
  then have "folded l = folded (fst row)" by (auto simp: find_Some_iff rfc_eq_folded)
  with assms(2) have "link_thread s a l = Some (snd row)" by (simp add: link_thread_def)
  with Some assms(1) show ?thesis by (simp add: load_row_def)
qed

lemma load_rows_sound:
  assumes "\<forall>row\<in>set rows. link_thread s a (fst row) = Some (snd row)"
  shows "map_of (foldl (load_row links) [] rows) k = Some t \<Longrightarrow> link_thread s a k = Some t"
proof -
  have "\<forall>k t. map_of (foldl (load_row links) by_id rows) k = Some t \<longrightarrow> link_thread s a k = Some t"
    if "\<forall>k t. map_of by_id k = Some t \<longrightarrow> link_thread s a k = Some t" for by_id
    using assms that
  proof (induction rows arbitrary: by_id)
    case (Cons row rows)
    have row: "link_thread s a (fst row) = Some (snd row)"
      and rest: "\<forall>row\<in>set rows. link_thread s a (fst row) = Some (snd row)"
      using Cons.prems(1) by simp_all
    from Cons.IH [OF rest load_row_sound [OF Cons.prems(2) row]] show ?case unfolding foldl_Cons .
  qed simp
  from this [of "[]"] have "\<forall>k t. map_of (foldl (load_row links) [] rows) k = Some t \<longrightarrow> link_thread s a k = Some t"
    by simp
  then show "map_of (foldl (load_row links) [] rows) k = Some t \<Longrightarrow> link_thread s a k = Some t" by blast
qed

lemma load_row_keeps: "map_of by_id k \<noteq> None \<Longrightarrow> map_of (load_row links by_id row) k \<noteq> None"
  by (simp add: load_row_def split: option.split)

lemma load_rows_keep: "map_of by_id k \<noteq> None \<Longrightarrow> map_of (foldl (load_row links) by_id rows) k \<noteq> None"
  by (rule foldl_keeps [where P = "\<lambda>x. map_of x k \<noteq> None"]) (simp_all add: load_row_keeps)

lemma load_rows_complete:
  "row \<in> set rows \<Longrightarrow> find (\<lambda>l. rfc_eq l (fst row)) links = Some k
     \<Longrightarrow> map_of (foldl (load_row links) by_id rows) k \<noteq> None"
proof (induction rows arbitrary: by_id)
  case (Cons r rows)
  show ?case
  proof (cases "r = row")
    case True
    with Cons.prems have "map_of (load_row links by_id r) k \<noteq> None" by (simp add: load_row_def)
    then show ?thesis using load_rows_keep by simp
  next
    case False
    with Cons show ?thesis by simp
  qed
qed simp

lemma link_rows_true: "\<forall>row\<in>set (link_rows s a links). link_thread s a (fst row) = Some (snd row)"
  by (auto simp: link_rows_def link_thread_def split: option.splits)

lemma loaded_is_stored:
  assumes "find (\<lambda>k. rfc_eq k l) links = Some k"
  shows "map_of (foldl (load_row links) [] (link_rows s a links)) k = link_thread s a k"
proof (cases "link_thread s a k")
  case None
  with load_rows_sound [OF link_rows_true [of s a links], of links k] show ?thesis by fastforce
next
  case (Some t)
  from assms have k: "k \<in> set links" "folded k = folded l" by (auto simp: find_Some_iff rfc_eq_folded)
  have "(folded k, t) \<in> set (link_rows s a links)" using k(1) Some by (auto simp: link_rows_def intro!: bexI [of _ k])
  moreover have "find (\<lambda>j. rfc_eq j (folded k)) links = Some k" using assms k(2) by (simp add: rfc_eq_folded)
  ultimately have "map_of (foldl (load_row links) [] (link_rows s a links)) k \<noteq> None"
    using load_rows_complete [of "(folded k, t)"] by simp
  with Some load_rows_sound [OF link_rows_true [of s a links], of links k] show ?thesis by fastforce
qed

interpretation loaded: eager_index "cue_links c" "stored_thread s a ex" "index_thread_of (load_index s a c ex)"
  for c s a ex
proof
  fix x y :: string
  assume "folded x = folded y"
  then show "stored_thread s a ex x = stored_thread s a ex y" by (simp add: stored_thread_def link_thread_def)
next
  fix l t
  assume "index_thread_of (load_index s a c ex) l = Some t"
  then show "stored_thread s a ex l = Some t"
    using load_rows_sound [OF link_rows_true [of s a "cue_links c"], of "cue_links c" l]
    by (auto simp: index_thread_of_def load_index_def stored_thread_def allowed_def split: option.splits if_splits)
next
  fix l k
  assume "find (\<lambda>k. rfc_eq k l) (cue_links c) = Some k"
  from loaded_is_stored [OF this, of s a]
  show "index_thread_of (load_index s a c ex) k = stored_thread s a ex k"
    by (simp add: index_thread_of_def load_index_def stored_thread_def allowed_def split: option.split)
qed

text \<open>So what a cue finds in an account is read off the tables.\<close>

definition found_threads :: "conv_store \<Rightarrow> account_id \<Rightarrow> thread_cue \<Rightarrow> thread_id option \<Rightarrow> thread_id set" where
  "found_threads s a c ex =
     (let linked = {t. ex \<noteq> Some t \<and> (\<exists>l\<in>set (claimed_ids c). link_thread s a l = Some t)} in
      if linked = {} \<and> subject_is_usable c
      then {tr_id t |t. t \<in> set (cs_threads s) \<and> tr_account t = a \<and> tr_subject t = Some (tc_subject c) \<and> ex \<noteq> Some (tr_id t)}
      else linked)"

lemma index_linked_threads:
  "linked_threads c (index_thread_of (load_index s a c ex))
     = {t. ex \<noteq> Some t \<and> (\<exists>l\<in>set (claimed_ids c). link_thread s a l = Some t)}"
proof -
  have "linked_threads c (index_thread_of (load_index s a c ex)) = {t. \<exists>l\<in>set (claimed_ids c). stored_thread s a ex l = Some t}"
    using loaded.same_answers [of c s a ex] by (simp add: linked_threads_def set_cue_links)
  then show ?thesis by (auto simp: stored_thread_def split: option.splits if_splits)
qed

lemma index_found:
  "set (threads_found c (index_thread_of (load_index s a c ex)) (index_with_subject (load_index s a c ex)))
     = found_threads s a c ex"
proof -
  have "set (index_with_subject (load_index s a c ex) (tc_subject c))
      = {tr_id t |t. t \<in> set (cs_threads s) \<and> tr_account t = a \<and> tr_subject t = Some (tc_subject c) \<and> ex \<noteq> Some (tr_id t)}"
    if "subject_is_usable c"
    using that by (auto simp: index_with_subject_def load_index_def allowed_def)
  then show ?thesis
    unfolding threads_found_set index_linked_threads found_threads_def Let_def
    by (intro if_cong refl) blast
qed

lemma assignment_for_cases:
  fixes s :: conv_store and a :: account_id and c :: thread_cue and ex :: "thread_id option"
  defines "found \<equiv> found_threads s a c ex"
  shows "(found = {} \<and> assignment_for s a c ex = NewThread)
    \<or> (\<exists>t. found = {t} \<and> assignment_for s a c ex = JoinThread t)
    \<or> (\<exists>absorb. assignment_for s a c ex = MergeThreads (Min found) absorb \<and> absorb \<noteq> [] \<and> sorted absorb
          \<and> distinct absorb \<and> set absorb = found - {Min found} \<and> Min found \<in> found)"
  using assign_thread_cases [of c "index_thread_of (load_index s a c ex)" "index_with_subject (load_index s a c ex)"]
  unfolding index_found assignment_for_def Let_def found_def .

end
