(* ===== verification/Threading_Effects.thy ===== *)
theory Threading_Effects
  imports Threading_Rule
begin

section \<open>What filing writes\<close>

text \<open>
  The tables after a message is filed: every conversation found is folded into one, the
  message and its ids are in it, and a thread's subject is the one it had or the subject of
  a message now in it.
\<close>

subsection \<open>Rows\<close>

definition base :: "conv_message \<Rightarrow> conv_message" where
  "base m = m\<lparr>cm_thread := None\<rparr>"

lemma base_fields [simp]:
  "cm_id (base m) = cm_id m" "cm_account (base m) = cm_account m" "cm_subject (base m) = cm_subject m"
  "cm_thread (base m) = None" "base (m\<lparr>cm_thread := t\<rparr>) = base m" "base (base m) = base m"
  "cue_of lower (base m) = cue_of lower m" "subject_text (base m) = subject_text m"
  by (simp_all add: base_def cue_of_def subject_text_def reference_chain_def split: option.split)

definition thread_at :: "conv_store \<Rightarrow> message_id \<Rightarrow> thread_id option" where
  "thread_at s i = (case get_message s i of Some m \<Rightarrow> cm_thread m | None \<Rightarrow> None)"

lemma find_map_row: "(\<And>m. cm_id (f m) = cm_id m) \<Longrightarrow>
    find (\<lambda>m. cm_id m = i) (map f ms) = map_option f (find (\<lambda>m. cm_id m = i) ms)"
  by (induction ms) auto

lemma get_message_same [simp]:
  "get_message (s\<lparr>cs_threads := x\<rparr>) i = get_message s i" "get_message (s\<lparr>cs_links := y\<rparr>) i = get_message s i"
  "get_message (s\<lparr>cs_drafts := z\<rparr>) i = get_message s i" "get_message (s\<lparr>cs_next := n\<rparr>) i = get_message s i"
  by (simp_all add: get_message_def)

lemma set_thread_get [simp]:
  "get_message (set_thread P t s) i = map_option (\<lambda>m. if P m then m\<lparr>cm_thread := t\<rparr> else m) (get_message s i)"
  by (simp add: get_message_def set_thread_def find_map_row)

lemma recompute_get [simp]: "get_message (recompute lower t s) i = get_message s i"
  by (simp add: recompute_def)

lemma drafts_get [simp]: "get_message (set_draft_threads u t s) i = get_message s i"
  by (simp add: set_draft_threads_def)

lemma claim_get [simp]: "get_message (claim_link a t k s) i = get_message s i"
  by (simp add: claim_link_def)

lemma relink_get [simp]: "get_message (relink u t s) i = get_message s i"
  by (simp add: relink_def)

lemma delete_thread_get [simp]:
  "get_message (delete_thread u s) i = map_option (\<lambda>m. if cm_thread m = Some u then m\<lparr>cm_thread := None\<rparr> else m) (get_message s i)"
  by (simp add: delete_thread_def)

text \<open>What is in the other tables after each write.\<close>

lemma set_thread_simps [simp]:
  "cs_threads (set_thread P t s) = cs_threads s" "cs_links (set_thread P t s) = cs_links s"
  "cs_next (set_thread P t s) = cs_next s" "cs_now (set_thread P t s) = cs_now s"
  "map base (cs_messages (set_thread P t s)) = map base (cs_messages s)"
  by (simp_all add: set_thread_def comp_def if_distrib cong: if_cong)

lemma drafts_simps [simp]:
  "cs_threads (set_draft_threads u t s) = cs_threads s" "cs_links (set_draft_threads u t s) = cs_links s"
  "cs_next (set_draft_threads u t s) = cs_next s" "cs_messages (set_draft_threads u t s) = cs_messages s"
  "cs_now (set_draft_threads u t s) = cs_now s"
  by (simp_all add: set_draft_threads_def)

lemma recompute_simps [simp]:
  "cs_links (recompute lower i s) = cs_links s" "cs_messages (recompute lower i s) = cs_messages s"
  "cs_next (recompute lower i s) = cs_next s" "cs_now (recompute lower i s) = cs_now s"
  by (simp_all add: recompute_def)

lemma recomputed_same [simp]: "tr_id (recomputed lower s t) = tr_id t" "tr_account (recomputed lower s t) = tr_account t"
  by (simp_all add: recomputed_def Let_def)

lemma recompute_ids [simp]: "map tr_id (cs_threads (recompute lower i s)) = map tr_id (cs_threads s)"
  by (simp add: recompute_def)

lemma recompute_id_set [simp]: "tr_id ` set (cs_threads (recompute lower i s)) = tr_id ` set (cs_threads s)"
  by (simp only: set_map [symmetric] recompute_ids)

lemma delete_thread_simps [simp]:
  "cs_threads (delete_thread i s) = filter (\<lambda>t. tr_id t \<noteq> i) (cs_threads s)"
  "cs_links (delete_thread i s) = filter (\<lambda>(_, t). t \<noteq> i) (cs_links s)"
  "cs_next (delete_thread i s) = cs_next s" "cs_now (delete_thread i s) = cs_now s"
  "map base (cs_messages (delete_thread i s)) = map base (cs_messages s)"
  by (simp_all add: delete_thread_def set_draft_threads_def set_thread_def comp_def if_distrib cong: if_cong)

lemma claim_simps [simp]:
  "cs_threads (claim_link a t k s) = cs_threads s" "cs_messages (claim_link a t k s) = cs_messages s"
  "cs_next (claim_link a t k s) = cs_next s" "cs_now (claim_link a t k s) = cs_now s"
  by (simp_all add: claim_link_def)

lemma relink_simps [simp]:
  "cs_threads (relink u t s) = cs_threads s" "cs_messages (relink u t s) = cs_messages s"
  "cs_next (relink u t s) = cs_next s" "cs_now (relink u t s) = cs_now s"
  by (simp_all add: relink_def)

lemma claim_links [simp]:
  "map_of (cs_links (claim_link a t k s)) j = (if j = (a, folded k) then Some t else map_of (cs_links s) j)"
  by (simp add: claim_link_def)


subsection \<open>Folding one conversation into another\<close>

definition into_thread :: "thread_id set \<Rightarrow> thread_id \<Rightarrow> thread_id \<Rightarrow> thread_id" where
  "into_thread T t u = (if u \<in> T then t else u)"

lemma into_thread_simps [simp]:
  "into_thread {} t u = u" "into_thread T t t = t" "u \<in> T \<Longrightarrow> into_thread T t u = t" "u \<notin> T \<Longrightarrow> into_thread T t u = u"
  by (simp_all add: into_thread_def)

lemma into_thread_fun: "(\<lambda>x. if x = u then t else x) = into_thread {u} t"
  by (auto simp: into_thread_def)

lemma relinked: "map_of (cs_links (relink u t s)) k = map_option (into_thread {u} t) (map_of (cs_links s) k)"
  by (simp add: relink_def into_thread_fun)

lemma relinked_gone: "u \<noteq> t \<Longrightarrow> filter (\<lambda>(_, x). x \<noteq> u) (cs_links (relink u t s)) = cs_links (relink u t s)"
  by (auto simp: relink_def al_map_def filter_id_conv split: if_splits)

lemma absorb_links: "map_of (cs_links (absorb_thread lower t u s)) k = map_option (into_thread {u} t) (map_of (cs_links s) k)"
proof (cases "t = u")
  case True
  then show ?thesis by (simp add: absorb_thread_def merge_threads_def relinked)
next
  case False
  then show ?thesis by (simp add: absorb_thread_def merge_threads_def relinked relinked_gone)
qed

lemma absorb_thread_at: "thread_at (absorb_thread lower t u s) i = map_option (into_thread {u} t) (thread_at s i)"
  by (cases "get_message s i"; cases "cm_thread (the (get_message s i))")
    (auto simp: thread_at_def absorb_thread_def merge_threads_def into_thread_def)

lemma absorb_next [simp]: "cs_next (absorb_thread lower t u s) = cs_next s" "cs_now (absorb_thread lower t u s) = cs_now s"
  by (simp_all add: absorb_thread_def merge_threads_def)

lemma absorb_base [simp]: "map base (cs_messages (absorb_thread lower t u s)) = map base (cs_messages s)"
  by (simp add: absorb_thread_def merge_threads_def)

lemma absorb_ids: "u \<noteq> t \<Longrightarrow> tr_id ` set (cs_threads (absorb_thread lower t u s)) = tr_id ` set (cs_threads s) - {u}"
  by (auto simp: absorb_thread_def merge_threads_def)

lemma absorb_id_list:
  "u \<noteq> t \<Longrightarrow> map tr_id (cs_threads (absorb_thread lower t u s)) = filter (\<lambda>i. i \<noteq> u) (map tr_id (cs_threads s))"
  by (simp add: absorb_thread_def merge_threads_def filter_map comp_def)

lemma no_fold [simp]: "map_option (into_thread {} t) x = x" "map_option (into_thread {t} t) x = x"
  by (cases x; simp add: into_thread_def)+

lemma into_into: "into_thread T t (into_thread {u} t x) = into_thread (insert u T) t x"
  by (simp add: into_thread_def)

lemma absorbs:
  fixes lower :: "string \<Rightarrow> string" and s :: conv_store
  assumes "t \<notin> set us"
  defines "s' \<equiv> fold (absorb_thread lower t) us s"
  shows "map_of (cs_links s') k = map_option (into_thread (set us) t) (map_of (cs_links s) k)"
    and "thread_at s' i = map_option (into_thread (set us) t) (thread_at s i)"
    and "cs_next s' = cs_next s" and "cs_now s' = cs_now s"
    and "map base (cs_messages s') = map base (cs_messages s)"
    and "tr_id ` set (cs_threads s') = tr_id ` set (cs_threads s) - set us"
    and "map tr_id (cs_threads s') = filter (\<lambda>i. i \<notin> set us) (map tr_id (cs_threads s))"
  using assms(1) unfolding s'_def
  by (induction us arbitrary: s)
    (auto simp: absorb_links absorb_thread_at absorb_ids absorb_id_list option.map_comp comp_def into_into conj_commute)



subsection \<open>Subjects\<close>

text \<open>A thread's subject taken from a message that is in it, and the threads a write leaves.\<close>

definition row_from :: "(string \<Rightarrow> string) \<Rightarrow> conv_store \<Rightarrow> thread_row \<Rightarrow> bool" where
  "row_from lower s t \<longleftrightarrow>
     (\<exists>m\<in>set (cs_messages s). cm_thread m = Some (tr_id t)
        \<and> tr_subject t = Some (normalize_subject lower (subject_text m)))"

definition follows :: "(string \<Rightarrow> string) \<Rightarrow> thread_id set \<Rightarrow> thread_row set \<Rightarrow> conv_store \<Rightarrow> bool" where
  "follows lower X old s \<longleftrightarrow>
     (\<forall>t\<in>set (cs_threads s). \<exists>v\<in>old. tr_id t = tr_id v \<and> tr_account t = tr_account v
        \<and> (tr_subject t = tr_subject v \<or> tr_id t \<in> X \<and> row_from lower s t))"

lemma recomputed_subject:
  "tr_subject (recomputed lower s t) = tr_subject t \<or> row_from lower s (recomputed lower s t)"
proof (cases "sort_key (\<lambda>m. (cm_received_at m, cm_id m)) (members s (tr_id t))")
  case Nil
  then show ?thesis by (simp add: recomputed_def root_subject_def Let_def)
next
  case (Cons m ms)
  then have "m \<in> set (members s (tr_id t))" by (metis list.set_intros(1) set_sort)
  then have m: "m \<in> set (cs_messages s)" "cm_thread m = Some (tr_id t)" by (auto simp: members_def)
  show ?thesis
  proof (cases "cm_subject m")
    case None
    with Cons show ?thesis by (simp add: recomputed_def root_subject_def Let_def)
  next
    case (Some x)
    with Cons have "tr_subject (recomputed lower s t) = Some (normalize_subject lower (subject_text m))"
      by (simp add: recomputed_def root_subject_def Let_def subject_text_def)
    with m show ?thesis unfolding row_from_def recomputed_same by blast
  qed
qed

lemma row_from_messages: "cs_messages s' = cs_messages s \<Longrightarrow> row_from lower s' = row_from lower s"
  by (rule ext) (simp add: row_from_def)

lemma row_from_cong: "tr_id t = tr_id u \<Longrightarrow> tr_subject t = tr_subject u \<Longrightarrow> row_from lower s t = row_from lower s u"
  by (simp add: row_from_def)

lemma follows_refl: "follows lower X (set (cs_threads s)) s"
  by (auto simp: follows_def)

lemma follows_recompute:
  assumes "follows lower X old s" "i \<in> X"
  shows "follows lower X old (recompute lower i s)"
  unfolding follows_def
proof
  fix t assume "t \<in> set (cs_threads (recompute lower i s))"
  then have "t \<in> (\<lambda>t. if tr_id t = i then recomputed lower s t else t) ` set (cs_threads s)"
    unfolding recompute_def by simp
  then obtain u where u: "t = (if tr_id u = i then recomputed lower s u else u)" "u \<in> set (cs_threads s)"
    by (rule imageE)
  from assms(1) u(2) obtain v where v: "v \<in> old" "tr_id u = tr_id v" "tr_account u = tr_account v"
    "tr_subject u = tr_subject v \<or> tr_id u \<in> X \<and> row_from lower s u"
    unfolding follows_def by blast
  have rows: "row_from lower (recompute lower i s) = row_from lower s" by (rule row_from_messages) simp
  have "tr_subject t = tr_subject v \<or> tr_id t \<in> X \<and> row_from lower s t"
  proof (cases "tr_id u = i")
    case True
    then have t: "t = recomputed lower s u" using u(1) by simp
    with recomputed_subject [of lower s u] consider "tr_subject t = tr_subject u" | "row_from lower s t" by blast
    then show ?thesis
    proof cases
      case 1
      with t v(4) row_from_cong [of t u lower s] show ?thesis by auto
    next
      case 2
      with t True assms(2) show ?thesis by simp
    qed
  next
    case False
    with u(1) v(4) show ?thesis by simp
  qed
  moreover have "tr_id t = tr_id v" "tr_account t = tr_account v" using u(1) v(2,3) by (simp_all split: if_split)
  ultimately have "tr_id t = tr_id v \<and> tr_account t = tr_account v
      \<and> (tr_subject t = tr_subject v \<or> tr_id t \<in> X \<and> row_from lower (recompute lower i s) t)"
    unfolding rows by blast
  with v(1) show "\<exists>v\<in>old. tr_id t = tr_id v \<and> tr_account t = tr_account v
      \<and> (tr_subject t = tr_subject v \<or> tr_id t \<in> X \<and> row_from lower (recompute lower i s) t)" by blast
qed

text \<open>Other writes keep it, as long as no message leaves a thread of \<open>X\<close>.\<close>

lemma follows_write:
  assumes "follows lower X old s" "X \<subseteq> Y" "set (cs_threads s') \<subseteq> set (cs_threads s)"
    and "\<And>m x. m \<in> set (cs_messages s) \<Longrightarrow> x \<in> X \<Longrightarrow> x \<in> tr_id ` set (cs_threads s') \<Longrightarrow> cm_thread m = Some x
        \<Longrightarrow> \<exists>n\<in>set (cs_messages s'). cm_thread n = Some x \<and> subject_text n = subject_text m"
  shows "follows lower Y old s'"
  unfolding follows_def
proof
  fix t assume "t \<in> set (cs_threads s')"
  with assms(3) have "t \<in> set (cs_threads s)" by blast
  with assms(1) obtain v where v: "v \<in> old" "tr_id t = tr_id v" "tr_account t = tr_account v"
    "tr_subject t = tr_subject v \<or> tr_id t \<in> X \<and> row_from lower s t" unfolding follows_def by blast
  have "row_from lower s' t" if "tr_id t \<in> X" "row_from lower s t"
    using that assms(4) \<open>t \<in> set (cs_threads s')\<close> unfolding row_from_def by (metis imageI)
  with v assms(2) show "\<exists>v\<in>old. tr_id t = tr_id v \<and> tr_account t = tr_account v
      \<and> (tr_subject t = tr_subject v \<or> tr_id t \<in> Y \<and> row_from lower s' t)" by blast
qed

lemma set_thread_keeps:
  assumes "m \<in> set (cs_messages s)" "cm_thread m = Some x" "\<not> P m \<or> t = Some x"
  shows "\<exists>n\<in>set (cs_messages (set_thread P t s)). cm_thread n = Some x \<and> subject_text n = subject_text m"
proof -
  let ?f = "\<lambda>m. if P m then m\<lparr>cm_thread := t\<rparr> else m"
  have "?f m \<in> set (cs_messages (set_thread P t s))"
    using imageI [OF assms(1), of ?f] unfolding set_thread_def by simp
  with assms(2,3) show ?thesis by (intro bexI [of _ "?f m"]) (auto simp: subject_text_def)
qed

lemma follows_absorb:
  assumes "follows lower X old s" "t \<in> X" "t \<noteq> u"
  shows "follows lower X old (absorb_thread lower t u s)"
proof -
  let ?s1 = "set_thread (\<lambda>m. cm_thread m = Some u) (Some t) (relink u t s)"
  let ?s2 = "delete_thread u (set_draft_threads u (Some t) ?s1)"
  have "\<exists>n\<in>set (cs_messages ?s2). cm_thread n = Some x \<and> subject_text n = subject_text m"
    if m: "m \<in> set (cs_messages s)" "cm_thread m = Some x" and x: "x \<in> tr_id ` set (cs_threads ?s2)" for m x
  proof -
    from x have "x \<noteq> u" by auto
    with set_thread_keeps [of m "relink u t s" x "\<lambda>m. cm_thread m = Some u" "Some t"] m
    obtain n where n: "n \<in> set (cs_messages ?s1)" "cm_thread n = Some x" "subject_text n = subject_text m" by auto
    with set_thread_keeps [of n "?s1\<lparr>cs_threads := filter (\<lambda>t. tr_id t \<noteq> u) (cs_threads s),
        cs_links := filter (\<lambda>(_, t). t \<noteq> u) (cs_links (relink u t s))\<rparr>" x "\<lambda>m. cm_thread m = Some u" None] \<open>x \<noteq> u\<close>
    show ?thesis by (auto simp: delete_thread_def set_draft_threads_def set_thread_def)
  qed
  then have "follows lower X old ?s2"
    by (intro follows_write [OF assms(1)]) auto
  then show ?thesis using assms(2,3) by (simp add: absorb_thread_def merge_threads_def follows_recompute)
qed

lemma follows_absorbs:
  "follows lower {t} old s \<Longrightarrow> t \<notin> set us \<Longrightarrow> follows lower {t} old (fold (absorb_thread lower t) us s)"
  by (induction us arbitrary: s) (simp_all add: follows_absorb)



subsection \<open>Filing a message\<close>

definition id_keys :: "(string \<Rightarrow> string) \<Rightarrow> conv_message \<Rightarrow> string set" where
  "id_keys lower m = folded ` set (claimed_ids (cue_of lower m))"

definition subject_key :: "(string \<Rightarrow> string) \<Rightarrow> conv_message \<Rightarrow> string" where
  "subject_key lower m = tc_subject (cue_of lower m)"

definition fresh_threads :: "(string \<Rightarrow> string) \<Rightarrow> conv_message \<Rightarrow> thread_id set \<Rightarrow> conv_store \<Rightarrow> thread_row set" where
  "fresh_threads lower m T s =
     (if T = {}
      then {\<lparr>tr_id = cs_next s, tr_account = cm_account m,
             tr_subject = (if subject_key lower m = [] then None else Some (subject_key lower m)),
             tr_message_count = 0, tr_unread_count = 0, tr_has_attachments = False, tr_is_flagged = False,
             tr_first_at = 0, tr_last_at = 0\<rparr>}
      else {})"

definition thread_ids :: "conv_store \<Rightarrow> thread_id set" where
  "thread_ids s = tr_id ` set (cs_threads s)"

text \<open>The conversations of \<open>T\<close> become \<open>t\<close>.\<close>

definition folded_into :: "(string \<Rightarrow> string) \<Rightarrow> thread_id set \<Rightarrow> conv_message \<Rightarrow> thread_id set \<Rightarrow> thread_id
    \<Rightarrow> conv_store \<Rightarrow> conv_store \<Rightarrow> bool" where
  "folded_into lower X m T t s s' \<longleftrightarrow>
     map base (cs_messages s') = map base (cs_messages s)
   \<and> (\<forall>i. thread_at s' i = map_option (into_thread T t) (thread_at s i))
   \<and> (\<forall>k. map_of (cs_links s') k = map_option (into_thread T t) (map_of (cs_links s) k))
   \<and> follows lower X (set (cs_threads s) \<union> fresh_threads lower m T s) s'
   \<and> thread_ids s' = insert t (thread_ids s - T)
   \<and> map tr_id (cs_threads s') = filter (\<lambda>i. i \<notin> T - {t}) (map tr_id (cs_threads s) @ (if T = {} then [cs_next s] else []))
   \<and> cs_next s' = (if T = {} then cs_next s + 1 else cs_next s)
   \<and> cs_now s' = cs_now s"

definition filed_into :: "(string \<Rightarrow> string) \<Rightarrow> conv_message \<Rightarrow> thread_id set \<Rightarrow> thread_id \<Rightarrow> conv_store \<Rightarrow> conv_store \<Rightarrow> bool" where
  "filed_into lower m T t s s' \<longleftrightarrow>
     map base (cs_messages s') = map base (cs_messages s)
   \<and> (\<forall>i. thread_at s' i = (if i = cm_id m then Some t else map_option (into_thread T t) (thread_at s i)))
   \<and> (\<forall>a k. map_of (cs_links s') (a, k) =
        (if a = cm_account m \<and> k \<in> id_keys lower m then Some t
         else map_option (into_thread T t) (map_of (cs_links s) (a, k))))
   \<and> follows lower UNIV (set (cs_threads s) \<union> fresh_threads lower m T s) s'
   \<and> thread_ids s' = insert t (thread_ids s - T)
   \<and> map tr_id (cs_threads s') = filter (\<lambda>i. i \<notin> T - {t}) (map tr_id (cs_threads s) @ (if T = {} then [cs_next s] else []))
   \<and> cs_next s' = (if T = {} then cs_next s + 1 else cs_next s)
   \<and> cs_now s' = cs_now s"

lemma get_message_base:
  "map base (cs_messages s') = map base (cs_messages s) \<Longrightarrow> map_option base (get_message s' i) = map_option base (get_message s i)"
  using find_map_row [of base i "cs_messages s'"] find_map_row [of base i "cs_messages s"]
  by (simp add: get_message_def)

lemma claim_all:
  "cs_threads (fold (claim_link a t) ks s) = cs_threads s"
  "cs_messages (fold (claim_link a t) ks s) = cs_messages s"
  "cs_next (fold (claim_link a t) ks s) = cs_next s" "cs_now (fold (claim_link a t) ks s) = cs_now s"
  "map_of (cs_links (fold (claim_link a t) ks s)) (b, k) =
     (if b = a \<and> k \<in> folded ` set ks then Some t else map_of (cs_links s) (b, k))"
  by (induction ks arbitrary: s) auto

lemma thread_at_messages: "cs_messages s' = cs_messages s \<Longrightarrow> thread_at s' i = thread_at s i"
  by (simp add: thread_at_def get_message_def)

lemma get_message_id: "get_message s i = Some m \<Longrightarrow> cm_id m = i"
  by (auto simp: get_message_def find_Some_iff)

lemma set_thread_at:
  "thread_at (set_thread (\<lambda>m. cm_id m = i) t s) j = (if j = i \<and> get_message s i \<noteq> None then t else thread_at s j)"
  by (cases "j = i"; cases "get_message s j") (auto simp: thread_at_def dest: get_message_id)

lemma add_message_effect:
  assumes "get_message s i \<noteq> None" "follows lower {t} old s"
  shows "\<exists>s'. add_message lower t i s = Inr s' \<and> map base (cs_messages s') = map base (cs_messages s)
      \<and> (\<forall>j. thread_at s' j = (if j = i then Some t else thread_at s j))
      \<and> cs_links s' = cs_links s \<and> follows lower UNIV old s' \<and> thread_ids s' = thread_ids s
      \<and> map tr_id (cs_threads s') = map tr_id (cs_threads s)
      \<and> cs_next s' = cs_next s \<and> cs_now s' = cs_now s"
proof -
  from assms(1) obtain m where m: "get_message s i = Some m" by blast
  let ?s1 = "set_thread (\<lambda>m. cm_id m = i) (Some t) s"
  let ?s2 = "recompute lower t ?s1"
  let ?s3 = "case cm_thread m of Some previous \<Rightarrow> if previous \<noteq> t then recompute lower previous ?s2 else ?s2 | None \<Rightarrow> ?s2"
  have run: "add_message lower t i s = Inr ?s3" using m by (simp add: add_message_def Let_def)
  have "follows lower UNIV old ?s1"
    by (rule follows_write [OF assms(2)]) (auto intro!: set_thread_keeps)
  then have fol: "follows lower UNIV old ?s3" by (auto intro: follows_recompute split: option.split)
  have msgs: "cs_messages ?s3 = cs_messages ?s1" by (simp split: option.split)
  have at: "thread_at ?s3 j = (if j = i then Some t else thread_at s j)" for j
    unfolding thread_at_messages [OF msgs] using m
    by (simp add: set_thread_at)
  have rest: "cs_links ?s3 = cs_links s" "thread_ids ?s3 = thread_ids s" "map tr_id (cs_threads ?s3) = map tr_id (cs_threads s)" "cs_next ?s3 = cs_next s" "cs_now ?s3 = cs_now s"
    by (simp_all add: thread_ids_def split: option.split)
  have "map base (cs_messages ?s3) = map base (cs_messages s)" unfolding msgs by simp
  with run fol at rest show ?thesis by blast
qed

lemma file_tail:
  assumes folded: "folded_into lower {t} m T t s s1" and row: "get_message s (cm_id m) \<noteq> None"
  shows "\<exists>s2. add_message lower t (cm_id m) s1 = Inr s2
      \<and> filed_into lower m T t s (fold (claim_link (cm_account m) t) (claimed_ids (cue_of lower m)) s2)"
proof -
  from folded have base1: "map base (cs_messages s1) = map base (cs_messages s)"
    and fol: "follows lower {t} (set (cs_threads s) \<union> fresh_threads lower m T s) s1"
    by (simp_all add: folded_into_def)
  from get_message_base [OF base1, of "cm_id m"] row have "get_message s1 (cm_id m) \<noteq> None" by auto
  from add_message_effect [OF this fol] obtain s2 where s2: "add_message lower t (cm_id m) s1 = Inr s2"
    "map base (cs_messages s2) = map base (cs_messages s1)"
    "\<And>j. thread_at s2 j = (if j = cm_id m then Some t else thread_at s1 j)" "cs_links s2 = cs_links s1"
    "follows lower UNIV (set (cs_threads s) \<union> fresh_threads lower m T s) s2" "thread_ids s2 = thread_ids s1"
    "map tr_id (cs_threads s2) = map tr_id (cs_threads s1)"
    "cs_next s2 = cs_next s1" "cs_now s2 = cs_now s1" by blast
  let ?s3 = "fold (claim_link (cm_account m) t) (claimed_ids (cue_of lower m)) s2"
  have "follows lower UNIV (set (cs_threads s) \<union> fresh_threads lower m T s) ?s3"
    by (rule follows_write [OF s2(5)]) (auto simp: claim_all)
  moreover have "thread_at ?s3 j = thread_at s2 j" for j by (rule thread_at_messages) (simp add: claim_all)
  ultimately have "filed_into lower m T t s ?s3"
    using folded s2 unfolding filed_into_def folded_into_def by (simp add: claim_all thread_ids_def id_keys_def)
  with s2(1) show ?thesis by blast
qed



text \<open>The assignment that folds \<open>T\<close> into \<open>t\<close>.\<close>

definition folds :: "assignment \<Rightarrow> thread_id set \<Rightarrow> thread_id \<Rightarrow> conv_store \<Rightarrow> bool" where
  "folds x T t s \<longleftrightarrow>
     (T = {} \<and> t = cs_next s \<and> x = NewThread)
   \<or> (T = {t} \<and> x = JoinThread t)
   \<or> (\<exists>absorb. x = MergeThreads t absorb \<and> t \<notin> set absorb \<and> T = insert t (set absorb))"

lemma folded_start:
  assumes "folds x T t s" "T \<subseteq> thread_ids s" "0 < cm_account m"
  shows "\<exists>s1 created merged. folded_into lower {t} m T t s s1
    \<and> start_assignment lower (cm_account m) (cue_of lower m) x s = Inr (s1, t, created, merged)"
proof -
  consider (none) "T = {}" "t = cs_next s" "x = NewThread" | (one) "T = {t}" "x = JoinThread t"
    | (more) absorb where "x = MergeThreads t absorb" "t \<notin> set absorb" "T = insert t (set absorb)"
    using assms(1) unfolding folds_def by blast
  then show ?thesis
  proof cases
    case none
    let ?s1 = "s\<lparr>cs_threads := cs_threads s @ [the_elem (fresh_threads lower m T s)], cs_next := cs_next s + 1\<rparr>"
    have "folded_into lower {t} m T t s ?s1"
      using none by (auto simp: folded_into_def follows_def fresh_threads_def thread_ids_def thread_at_def)
    moreover have "start_assignment lower (cm_account m) (cue_of lower m) x s = Inr (?s1, t, True, [])"
      using none assms(3)
      by (simp add: start_assignment_def create_thread_def require_persisted_def fresh_threads_def subject_key_def)
    ultimately show ?thesis by blast
  next
    case one
    have "follows lower {t} (set (cs_threads s) \<union> fresh_threads lower m T s) s"
      using one follows_refl [of lower "{t}" s] by (simp add: fresh_threads_def)
    with one assms(2) have "folded_into lower {t} m T t s s"
      by (auto simp: folded_into_def)
    with one show ?thesis by (auto simp: start_assignment_def)
  next
    case more
    let ?s1 = "fold (absorb_thread lower t) absorb s"
    have "follows lower {t} (set (cs_threads s) \<union> fresh_threads lower m T s) ?s1"
      using follows_absorbs [OF follows_refl more(2), of lower s] more(3) by (simp add: fresh_threads_def)
    moreover have "into_thread T t = into_thread (set absorb) t"
      by (auto simp: more(3) into_thread_def)
    moreover have "thread_ids ?s1 = insert t (thread_ids s - T)"
      using absorbs(6) [OF more(2), of lower s] more(2,3) assms(2) by (auto simp: thread_ids_def)
    moreover have "map tr_id (cs_threads ?s1) = filter (\<lambda>i. i \<notin> T - {t}) (map tr_id (cs_threads s))"
      using absorbs(7) [OF more(2), of lower s] more(2,3) by simp
    ultimately have "folded_into lower {t} m T t s ?s1"
      using absorbs(1-5) [OF more(2), of lower s] more(3) by (simp add: folded_into_def)
    with more(1) show ?thesis by (auto simp: start_assignment_def)
  qed
qed

lemma apply_effect:
  assumes "folds x T t s" "T \<subseteq> thread_ids s" "0 < cm_account m" "get_message s (cm_id m) \<noteq> None"
  shows "\<exists>s' r. apply_assignment lower (cm_account m) m (cue_of lower m) x s = Inr (s', r) \<and> td_thread r = t
      \<and> filed_into lower m T t s s'"
proof -
  from folded_start [OF assms(1-3), of lower] obtain s1 created merged where s1: "folded_into lower {t} m T t s s1"
    "start_assignment lower (cm_account m) (cue_of lower m) x s = Inr (s1, t, created, merged)" by blast
  from file_tail [OF s1(1) assms(4)] obtain s2 where "add_message lower t (cm_id m) s1 = Inr s2"
    "filed_into lower m T t s (fold (claim_link (cm_account m) t) (claimed_ids (cue_of lower m)) s2)" by blast
  with s1(2) show ?thesis unfolding apply_assignment_def by simp
qed

end
