(* ===== verification/Threading_Inv.thy ===== *)
theory Threading_Inv
  imports Threading_Effects
begin

section \<open>The invariant of the conversations\<close>

text \<open>
  The reference: two messages of an account touch when they name a common id, or when they
  share a subject and one of them is a reply; a conversation holds only messages related by
  a chain of such steps among those filed.  \<open>conv_inv\<close> states what the tables keep; the
  rows of \<open>messages\<close> are given by \<open>B\<close>, without their threads, and \<open>F\<close> are those
  filed.
\<close>

definition touches :: "(string \<Rightarrow> string) \<Rightarrow> conv_message \<Rightarrow> conv_message \<Rightarrow> bool" where
  "touches lower m n \<longleftrightarrow> cm_account m = cm_account n \<and>
     (id_keys lower m \<inter> id_keys lower n \<noteq> {}
      \<or> subject_key lower m = subject_key lower n
        \<and> (subject_is_usable (cue_of lower m) \<or> subject_is_usable (cue_of lower n)))"

definition related :: "(string \<Rightarrow> string) \<Rightarrow> conv_message set \<Rightarrow> (conv_message \<times> conv_message) set" where
  "related lower F = {(m, n). m \<in> F \<and> n \<in> F \<and> touches lower m n}\<^sup>*"

lemma related_refl [simp]: "(m, m) \<in> related lower F"
  by (simp add: related_def)

lemma related_trans: "(a, b) \<in> related lower F \<Longrightarrow> (b, c) \<in> related lower F \<Longrightarrow> (a, c) \<in> related lower F"
  unfolding related_def by (rule rtrancl_trans)

lemma related_sym: "(a, b) \<in> related lower F \<Longrightarrow> (b, a) \<in> related lower F"
proof -
  have "sym {(m, n). m \<in> F \<and> n \<in> F \<and> touches lower m n}"
    by (rule symI) (auto simp: touches_def)
  then have "sym (related lower F)" unfolding related_def by (rule sym_rtrancl)
  then show "(a, b) \<in> related lower F \<Longrightarrow> (b, a) \<in> related lower F" by (rule symD)
qed

lemma related_mono: "(a, b) \<in> related lower F \<Longrightarrow> (a, b) \<in> related lower (insert x F)"
proof -
  have "related lower F \<subseteq> related lower (insert x F)" unfolding related_def by (rule rtrancl_mono) auto
  then show "(a, b) \<in> related lower F \<Longrightarrow> (a, b) \<in> related lower (insert x F)" by blast
qed

lemma related_touch: "m \<in> F \<Longrightarrow> n \<in> F \<Longrightarrow> touches lower m n \<Longrightarrow> (m, n) \<in> related lower F"
  unfolding related_def by (rule r_into_rtrancl) simp

definition conv_inv :: "(string \<Rightarrow> string) \<Rightarrow> conv_message list \<Rightarrow> conv_message set \<Rightarrow> conv_store \<Rightarrow> bool" where
  "conv_inv lower B F s \<longleftrightarrow>
     map base (cs_messages s) = B \<and> distinct (map cm_id B) \<and> F \<subseteq> set B
   \<and> distinct (map tr_id (cs_threads s)) \<and> (\<forall>u\<in>thread_ids s. u < cs_next s)
   \<and> (\<forall>b\<in>set B. \<forall>u. thread_at s (cm_id b) = Some u \<longrightarrow> b \<in> F \<and> u \<in> thread_ids s
        \<and> (\<forall>r\<in>set (cs_threads s). tr_id r = u \<longrightarrow> tr_account r = cm_account b))
   \<and> (\<forall>b\<in>F. thread_at s (cm_id b) \<noteq> None
        \<and> (\<forall>k\<in>id_keys lower b. map_of (cs_links s) (cm_account b, k) = thread_at s (cm_id b)))
   \<and> (\<forall>a k u. map_of (cs_links s) (a, k) = Some u \<longrightarrow> (\<exists>b\<in>F. cm_account b = a \<and> k \<in> id_keys lower b))
   \<and> (\<forall>b\<in>F. \<forall>c\<in>F. thread_at s (cm_id b) = thread_at s (cm_id c) \<longrightarrow> (b, c) \<in> related lower F)
   \<and> (\<forall>r\<in>set (cs_threads s). \<forall>x. tr_subject r = Some x \<longrightarrow> x \<noteq> [] \<longrightarrow>
        (\<exists>n\<in>F. cm_account n = tr_account r \<and> subject_key lower n = x
           \<and> (\<forall>b\<in>F. thread_at s (cm_id b) = Some (tr_id r) \<longrightarrow> (n, b) \<in> related lower F)))"

text \<open>The conversations a message joins: all of its own, and each related to it.\<close>

definition joins :: "(string \<Rightarrow> string) \<Rightarrow> conv_message set \<Rightarrow> conv_message \<Rightarrow> thread_id set \<Rightarrow> thread_id \<Rightarrow> conv_store \<Rightarrow> bool" where
  "joins lower F b T t s \<longleftrightarrow>
     T \<subseteq> thread_ids s \<and> (t \<in> T \<or> T = {} \<and> t = cs_next s)
   \<and> (\<forall>r\<in>set (cs_threads s). tr_id r \<in> T \<longrightarrow> tr_account r = cm_account b)
   \<and> (\<forall>k\<in>id_keys lower b. \<forall>u. map_of (cs_links s) (cm_account b, k) = Some u \<longrightarrow> u \<in> T)
   \<and> (\<forall>c\<in>F. \<forall>u\<in>T. thread_at s (cm_id c) = Some u \<longrightarrow> (b, c) \<in> related lower (insert b F))
   \<and> (\<forall>r\<in>set (cs_threads s). tr_id r \<in> T \<longrightarrow> (\<forall>x. tr_subject r = Some x \<longrightarrow> x \<noteq> [] \<longrightarrow>
        (\<exists>n\<in>insert b F. cm_account n = tr_account r \<and> subject_key lower n = x \<and> (n, b) \<in> related lower (insert b F))))"

lemma find_own: "distinct (map cm_id ms) \<Longrightarrow> m \<in> set ms \<Longrightarrow> find (\<lambda>x. cm_id x = cm_id m) ms = Some m"
  by (induction ms) auto

lemma row_from_base:
  assumes "map base (cs_messages s) = B" "distinct (map cm_id B)" "row_from lower s r"
  shows "\<exists>c\<in>set B. thread_at s (cm_id c) = Some (tr_id r) \<and> tr_subject r = Some (subject_key lower c)"
proof -
  from assms(3) obtain m where m: "m \<in> set (cs_messages s)" "cm_thread m = Some (tr_id r)"
    "tr_subject r = Some (normalize_subject lower (subject_text m))" by (auto simp: row_from_def)
  have "map cm_id (cs_messages s) = map cm_id B" unfolding assms(1) [symmetric] by simp
  with assms(2) have "distinct (map cm_id (cs_messages s))" by simp
  with m(1) have "get_message s (cm_id m) = Some m" by (simp add: get_message_def find_own)
  moreover have "base m \<in> set B" using m(1) assms(1) by auto
  ultimately show ?thesis
    using m by (intro bexI [of _ "base m"]) (auto simp: thread_at_def subject_key_def cue_of_def)
qed

lemma distinct_ids: "distinct (map cm_id B) \<Longrightarrow> b \<in> set B \<Longrightarrow> c \<in> set B \<Longrightarrow> cm_id b = cm_id c \<Longrightarrow> b = c"
  by (metis inj_on_eq_iff distinct_map)

lemma conv_inv_rows:
  assumes "conv_inv lower B F s"
  shows "map base (cs_messages s) = B" "distinct (map cm_id B)" "F \<subseteq> set B"
    and "u \<in> thread_ids s \<Longrightarrow> u < cs_next s"
    and "b \<in> set B \<Longrightarrow> thread_at s (cm_id b) = Some u \<Longrightarrow> b \<in> F"
    and "b \<in> set B \<Longrightarrow> thread_at s (cm_id b) = Some u \<Longrightarrow> u \<in> thread_ids s"
    and "b \<in> set B \<Longrightarrow> thread_at s (cm_id b) = Some u \<Longrightarrow> r \<in> set (cs_threads s) \<Longrightarrow> tr_id r = u
          \<Longrightarrow> tr_account r = cm_account b"
    and "b \<in> F \<Longrightarrow> thread_at s (cm_id b) \<noteq> None"
    and "b \<in> F \<Longrightarrow> k \<in> id_keys lower b \<Longrightarrow> map_of (cs_links s) (cm_account b, k) = thread_at s (cm_id b)"
    and "map_of (cs_links s) (a, k) = Some u \<Longrightarrow> \<exists>b\<in>F. cm_account b = a \<and> k \<in> id_keys lower b"
    and "b \<in> F \<Longrightarrow> c \<in> F \<Longrightarrow> thread_at s (cm_id b) = thread_at s (cm_id c) \<Longrightarrow> (b, c) \<in> related lower F"
    and "r \<in> set (cs_threads s) \<Longrightarrow> tr_subject r = Some x \<Longrightarrow> x \<noteq> [] \<Longrightarrow>
        \<exists>n\<in>F. cm_account n = tr_account r \<and> subject_key lower n = x
           \<and> (\<forall>b\<in>F. thread_at s (cm_id b) = Some (tr_id r) \<longrightarrow> (n, b) \<in> related lower F)"
    and "distinct (map tr_id (cs_threads s))"
  using assms unfolding conv_inv_def by blast+

text \<open>The threads after a message has joined.\<close>

lemma joined_at:
  assumes inv: "conv_inv lower B F s" and joins: "joins lower F b T t s" and filed: "filed_into lower b T t s s'"
    and b: "b \<in> set B" and c: "c \<in> set B"
  shows "thread_at s' (cm_id c) = Some u \<longleftrightarrow>
      (if u = t then c = b \<or> (\<exists>v\<in>T. thread_at s (cm_id c) = Some v)
       else c \<noteq> b \<and> u \<notin> T \<and> thread_at s (cm_id c) = Some u)"
proof -
  have at: "thread_at s' (cm_id c) = (if c = b then Some t else map_option (into_thread T t) (thread_at s (cm_id c)))"
    using filed distinct_ids [OF conv_inv_rows(2) [OF inv] b c] unfolding filed_into_def by metis
  have fresh: "v \<noteq> t" if "thread_at s (cm_id c) = Some v" "v \<notin> T" for v
    using conv_inv_rows(6) [OF inv c that(1)] conv_inv_rows(4) [OF inv, of v] joins that(2) unfolding joins_def by auto
  show ?thesis
    unfolding at using fresh by (cases "thread_at s (cm_id c)") (auto simp: into_thread_def split: if_splits)
qed

lemma joined_related:
  assumes "conv_inv lower B F s" "joins lower F b T t s" "filed_into lower b T t s s'" "b \<in> set B"
    and c: "c \<in> insert b F" "thread_at s' (cm_id c) = Some t"
  shows "(b, c) \<in> related lower (insert b F)"
proof (cases "c = b")
  case False
  with c(1) have "c \<in> F" by blast
  moreover from this have "c \<in> set B" using conv_inv_rows(3) [OF assms(1)] by blast
  ultimately show ?thesis
    using joined_at [OF assms(1-4), of c t] c(2) False assms(2) unfolding joins_def by auto
qed simp


text \<open>Filing keeps the invariant.\<close>

lemma filed_threads:
  assumes "conv_inv lower B F s" "joins lower F b T t s" "filed_into lower b T t s s'" "b \<in> set B"
    and r: "r \<in> set (cs_threads s')"
  obtains (fresh) "T = {}" "tr_id r = t" "tr_account r = cm_account b"
      "\<And>x. tr_subject r = Some x \<Longrightarrow> x \<noteq> [] \<Longrightarrow> x = subject_key lower b \<or> row_from lower s' r"
    | (old) v where "v \<in> set (cs_threads s)" "tr_id r = tr_id v" "tr_account r = tr_account v"
      "tr_subject r = tr_subject v \<or> row_from lower s' r" "tr_id r = t \<longrightarrow> t \<in> T"
proof -
  have "follows lower UNIV (set (cs_threads s) \<union> fresh_threads lower b T s) s'"
    using assms(3) by (simp add: filed_into_def)
  with r obtain v where v: "v \<in> set (cs_threads s) \<or> v \<in> fresh_threads lower b T s" "tr_id r = tr_id v"
    "tr_account r = tr_account v" "tr_subject r = tr_subject v \<or> row_from lower s' r"
    unfolding follows_def by blast
  show thesis
  proof (cases "v \<in> set (cs_threads s)")
    case True
    then have "tr_id v \<in> thread_ids s" by (simp add: thread_ids_def)
    from conv_inv_rows(4) [OF assms(1) this] have "tr_id v \<noteq> cs_next s" by simp
    with True v assms(2) show thesis by (intro old [of v]) (auto simp: joins_def)
  next
    case False
    with v(1) have new: "v \<in> fresh_threads lower b T s" by blast
    then have T: "T = {}" by (auto simp: fresh_threads_def split: if_splits)
    with assms(2) have "t = cs_next s" by (simp add: joins_def)
    with new T v show thesis by (intro fresh) (auto simp: fresh_threads_def split: if_splits)
  qed
qed

lemma filed_accounts:
  assumes "conv_inv lower B F s" "joins lower F b T t s" "filed_into lower b T t s s'" "b \<in> set B"
    and c: "c \<in> set B" "thread_at s' (cm_id c) = Some u" and r: "r \<in> set (cs_threads s')" "tr_id r = u"
  shows "tr_account r = cm_account c"
proof -
  note at = joined_at [OF assms(1-4) c(1), of u, unfolded c(2)]
  have acct: "cm_account c = cm_account b" if v: "v \<in> T" "thread_at s (cm_id c) = Some v" for v
  proof -
    from v(1) assms(2) have "v \<in> thread_ids s" unfolding joins_def by blast
    then obtain w where w: "w \<in> set (cs_threads s)" "tr_id w = v" by (auto simp: thread_ids_def)
    with conv_inv_rows(7) [OF assms(1) c(1) v(2)] have "tr_account w = cm_account c" by blast
    moreover from w v(1) assms(2) have "tr_account w = cm_account b" unfolding joins_def by blast
    ultimately show ?thesis by simp
  qed
  from assms(1-4) r(1) show ?thesis
  proof (cases rule: filed_threads)
    case fresh
    with r(2) at acct show ?thesis by (auto split: if_splits)
  next
    case (old v)
    show ?thesis
    proof (cases "u = t")
      case True
      with old r(2) assms(2) have "tr_account v = cm_account b" unfolding joins_def by auto
      with True at acct old(3) show ?thesis by auto
    next
      case False
      with at have "thread_at s (cm_id c) = Some u" by simp
      from conv_inv_rows(7) [OF assms(1) c(1) this old(1)] old(2,3) r(2) show ?thesis by simp
    qed
  qed
qed

lemma filed_subjects:
  assumes "conv_inv lower B F s" "joins lower F b T t s" "filed_into lower b T t s s'" "b \<in> set B"
    and r: "r \<in> set (cs_threads s')" "tr_subject r = Some x" "x \<noteq> []"
  shows "\<exists>n\<in>insert b F. cm_account n = tr_account r \<and> subject_key lower n = x
      \<and> (\<forall>c\<in>insert b F. thread_at s' (cm_id c) = Some (tr_id r) \<longrightarrow> (n, c) \<in> related lower (insert b F))"
proof -
  have rows: "map base (cs_messages s') = B" "distinct (map cm_id B)"
    using assms(3) conv_inv_rows(1,2) [OF assms(1)] by (simp_all add: filed_into_def)
  have same: "(n, c) \<in> related lower (insert b F)"
    if "n \<in> insert b F" "c \<in> insert b F" "thread_at s' (cm_id n) = Some u" "thread_at s' (cm_id c) = Some u" for n c u
  proof (cases "u = t")
    case True
    with that joined_related [OF assms(1-4)] show ?thesis by (metis related_sym related_trans)
  next
    case False
    have B: "n \<in> set B" "c \<in> set B" using that(1,2) assms(4) conv_inv_rows(3) [OF assms(1)] by auto
    from joined_at [OF assms(1-4) B(1), of u] joined_at [OF assms(1-4) B(2), of u] that False
    have "n \<in> F" "c \<in> F" "thread_at s (cm_id n) = thread_at s (cm_id c)" by auto
    from related_mono [OF conv_inv_rows(11) [OF assms(1) this]] show ?thesis .
  qed
  have from_row: ?thesis if "row_from lower s' r"
  proof -
    from row_from_base [OF rows that] obtain n where n: "n \<in> set B" "thread_at s' (cm_id n) = Some (tr_id r)"
      "tr_subject r = Some (subject_key lower n)" by blast
    have "n \<in> insert b F"
    proof (cases "n = b")
      case False
      with joined_at [OF assms(1-4) n(1), of "tr_id r"] n(2) obtain v where "thread_at s (cm_id n) = Some v"
        by (auto split: if_splits)
      from conv_inv_rows(5) [OF assms(1) n(1) this] show ?thesis by blast
    qed simp
    moreover have "cm_account n = tr_account r" using filed_accounts [OF assms(1-4) n(1,2) r(1)] by simp
    ultimately show ?thesis using n r(2) same by auto
  qed
  from assms(1-4) r(1) show ?thesis
  proof (cases rule: filed_threads)
    case fresh
    from fresh(4) [OF r(2,3)] show ?thesis
    proof
      assume "x = subject_key lower b"
      with fresh joined_related [OF assms(1-4)] show ?thesis by (intro bexI [of _ b]) auto
    qed (rule from_row)
  next
    case (old v)
    from old(4) show ?thesis
    proof
      assume sub: "tr_subject r = tr_subject v"
      show ?thesis
      proof (cases "tr_id r = t")
        case True
        with old have "tr_id v \<in> T" by simp
        with assms(2) old(1) r sub obtain n where n: "n \<in> insert b F" "cm_account n = tr_account v" "subject_key lower n = x"
          "(n, b) \<in> related lower (insert b F)" unfolding joins_def by metis
        with joined_related [OF assms(1-4)] True old(3) show ?thesis by (metis related_trans)
      next
        case False
        from conv_inv_rows(12) [OF assms(1) old(1), of x] r sub obtain n where
          n: "n \<in> F" "cm_account n = tr_account v" "subject_key lower n = x"
          "\<forall>c\<in>F. thread_at s (cm_id c) = Some (tr_id v) \<longrightarrow> (n, c) \<in> related lower F" by auto
        have "(n, c) \<in> related lower (insert b F)"
          if c: "c \<in> insert b F" "thread_at s' (cm_id c) = Some (tr_id r)" for c
        proof -
          have "c \<in> set B" using c(1) assms(4) conv_inv_rows(3) [OF assms(1)] by auto
          from joined_at [OF assms(1-4) this, of "tr_id r"] c False old(2) n(4) show ?thesis
            by (auto intro: related_mono)
        qed
        with n old(3) show ?thesis by auto
      qed
    qed (rule from_row)
  qed
qed


lemma conv_inv_filed:
  assumes "conv_inv lower B F s" "joins lower F b T t s" "filed_into lower b T t s s'" "b \<in> set B"
  shows "conv_inv lower B (insert b F) s'"
proof -
  note at = joined_at [OF assms(1-4)]
  have F: "insert b F \<subseteq> set B" using assms(4) conv_inv_rows(3) [OF assms(1)] by simp
  have links: "map_of (cs_links s') (a, k) = (if a = cm_account b \<and> k \<in> id_keys lower b then Some t
         else map_option (into_thread T t) (map_of (cs_links s) (a, k)))" for a k
    using assms(3) unfolding filed_into_def by blast
  have ids: "thread_ids s' = insert t (thread_ids s - T)"
    and next': "cs_next s' = (if T = {} then cs_next s + 1 else cs_next s)"
    and rows: "map base (cs_messages s') = map base (cs_messages s)"
    using assms(3) unfolding filed_into_def by blast+
  have bound: "u < cs_next s'" if "u \<in> thread_ids s'" for u
  proof (cases "u \<in> thread_ids s")
    case True
    with conv_inv_rows(4) [OF assms(1), of u] next' show ?thesis by (simp split: if_split)
  next
    case False
    with that ids have u: "u = t" by blast
    from assms(2) have "t \<in> T \<and> T \<subseteq> thread_ids s \<or> T = {} \<and> t = cs_next s" unfolding joins_def by blast
    with u False next' show ?thesis by auto
  qed
  have dist: "distinct (map tr_id (cs_threads s'))"
  proof -
    have "map tr_id (cs_threads s') = filter (\<lambda>i. i \<notin> T - {t}) (map tr_id (cs_threads s) @ (if T = {} then [cs_next s] else []))"
      using assms(3) unfolding filed_into_def by blast
    moreover have "cs_next s \<notin> set (map tr_id (cs_threads s))"
      using conv_inv_rows(4) [OF assms(1), of "cs_next s"] by (auto simp: thread_ids_def)
    ultimately show ?thesis using conv_inv_rows(13) [OF assms(1)] by simp
  qed
  have row: "c \<in> insert b F \<and> u \<in> thread_ids s'" if c: "c \<in> set B" "thread_at s' (cm_id c) = Some u" for c u
  proof (cases "u = t")
    case True
    with at [OF c(1), of u] c(2) conv_inv_rows(5) [OF assms(1) c(1)] ids show ?thesis by auto
  next
    case False
    with at [OF c(1), of u] c(2) have "thread_at s (cm_id c) = Some u" "u \<notin> T" by auto
    with conv_inv_rows(5,6) [OF assms(1) c(1)] ids show ?thesis by auto
  qed
  have at': "thread_at s' (cm_id c) = (if c = b then Some t else map_option (into_thread T t) (thread_at s (cm_id c)))"
    if "c \<in> set B" for c
    using assms(3) distinct_ids [OF conv_inv_rows(2) [OF assms(1)] assms(4) that] unfolding filed_into_def by metis
  have claimed: "thread_at s' (cm_id c) \<noteq> None
      \<and> (\<forall>k\<in>id_keys lower c. map_of (cs_links s') (cm_account c, k) = thread_at s' (cm_id c))"
    if c: "c \<in> insert b F" for c
  proof (cases "c = b")
    case True
    then show ?thesis using at' [OF assms(4)] links by simp
  next
    case False
    with c have cF: "c \<in> F" by blast
    with conv_inv_rows(3) [OF assms(1)] have cB: "c \<in> set B" by blast
    from conv_inv_rows(8) [OF assms(1) cF] obtain u where u: "thread_at s (cm_id c) = Some u" by blast
    have "map_of (cs_links s') (cm_account c, k) = Some (into_thread T t u)" if k: "k \<in> id_keys lower c" for k
    proof (cases "cm_account c = cm_account b \<and> k \<in> id_keys lower b")
      case True
      with conv_inv_rows(9) [OF assms(1) cF k] u assms(2) have "u \<in> T" unfolding joins_def by auto
      with True links show ?thesis by simp
    next
      case False
      then show ?thesis using links [of "cm_account c" k] conv_inv_rows(9) [OF assms(1) cF k] u by auto
    qed
    with at' [OF cB] False u show ?thesis by simp
  qed
  have known: "\<exists>c\<in>insert b F. cm_account c = a \<and> k \<in> id_keys lower c" if "map_of (cs_links s') (a, k) = Some u" for a k u
    using that conv_inv_rows(10) [OF assms(1), of a k] unfolding links by (auto split: if_splits)
  have rel: "(c, d) \<in> related lower (insert b F)"
    if c: "c \<in> insert b F" and d: "d \<in> insert b F" and same: "thread_at s' (cm_id c) = thread_at s' (cm_id d)" for c d
  proof -
    from claimed [OF c] obtain u where u: "thread_at s' (cm_id c) = Some u" by blast
    with same have u': "thread_at s' (cm_id d) = Some u" by simp
    show ?thesis
    proof (cases "u = t")
      case True
      with u u' joined_related [OF assms(1-4) c] joined_related [OF assms(1-4) d] show ?thesis
        by (metis related_sym related_trans)
    next
      case False
      have "c \<in> set B" "d \<in> set B" using c d F by blast+
      with at [of c u] at [of d u] u u' c d False have "c \<in> F" "d \<in> F" "thread_at s (cm_id c) = thread_at s (cm_id d)" by auto
      from related_mono [OF conv_inv_rows(11) [OF assms(1) this]] show ?thesis .
    qed
  qed
  show ?thesis
    unfolding conv_inv_def
  proof (intro conjI)
    show "map base (cs_messages s') = B" using rows conv_inv_rows(1) [OF assms(1)] by simp
    show "distinct (map cm_id B)" by (rule conv_inv_rows(2) [OF assms(1)])
    show "\<forall>c\<in>set B. \<forall>u. thread_at s' (cm_id c) = Some u \<longrightarrow> c \<in> insert b F \<and> u \<in> thread_ids s'
        \<and> (\<forall>r\<in>set (cs_threads s'). tr_id r = u \<longrightarrow> tr_account r = cm_account c)"
      using row filed_accounts [OF assms] by blast
    show "\<forall>r\<in>set (cs_threads s'). \<forall>x. tr_subject r = Some x \<longrightarrow> x \<noteq> [] \<longrightarrow>
        (\<exists>n\<in>insert b F. cm_account n = tr_account r \<and> subject_key lower n = x
           \<and> (\<forall>b'\<in>insert b F. thread_at s' (cm_id b') = Some (tr_id r) \<longrightarrow> (n, b') \<in> related lower (insert b F)))"
      using filed_subjects [OF assms] by blast
    show "insert b F \<subseteq> set B" by (rule F)
    show "distinct (map tr_id (cs_threads s'))" by (rule dist)
    show "\<forall>u\<in>thread_ids s'. u < cs_next s'" by (intro ballI bound)
    show "\<forall>c\<in>insert b F. thread_at s' (cm_id c) \<noteq> None
        \<and> (\<forall>k\<in>id_keys lower c. map_of (cs_links s') (cm_account c, k) = thread_at s' (cm_id c))"
      by (intro ballI claimed)
    show "\<forall>a k u. map_of (cs_links s') (a, k) = Some u \<longrightarrow> (\<exists>c\<in>insert b F. cm_account c = a \<and> k \<in> id_keys lower c)"
      by (intro allI impI known)
    show "\<forall>c\<in>insert b F. \<forall>d\<in>insert b F. thread_at s' (cm_id c) = thread_at s' (cm_id d) \<longrightarrow> (c, d) \<in> related lower (insert b F)"
      by (intro ballI impI rel)
  qed
qed

end
