(* ===== verification/Threading_Props.thy ===== *)
theory Threading_Props
  imports Threading_Inv
begin

section \<open>Conversations\<close>

text \<open>
  Every operation that files messages keeps the invariant, so a conversation is never split
  along a chain of references and never joined without one.
\<close>

subsection \<open>The conversations found may be joined\<close>

definition may_join :: "(string \<Rightarrow> string) \<Rightarrow> conv_message set \<Rightarrow> conv_message \<Rightarrow> thread_id \<Rightarrow> conv_store \<Rightarrow> bool" where
  "may_join lower F b u s \<longleftrightarrow>
     u \<in> thread_ids s
   \<and> (\<forall>r\<in>set (cs_threads s). tr_id r = u \<longrightarrow> tr_account r = cm_account b)
   \<and> (\<forall>c\<in>F. thread_at s (cm_id c) = Some u \<longrightarrow> (b, c) \<in> related lower (insert b F))
   \<and> (\<forall>r\<in>set (cs_threads s). tr_id r = u \<longrightarrow> (\<forall>x. tr_subject r = Some x \<longrightarrow> x \<noteq> [] \<longrightarrow>
        (\<exists>n\<in>insert b F. cm_account n = tr_account r \<and> subject_key lower n = x \<and> (n, b) \<in> related lower (insert b F))))"

lemma may_join_member:
  assumes inv: "conv_inv lower B F s" and c: "c \<in> F" "thread_at s (cm_id c) = Some u"
    and acct: "cm_account c = cm_account b" and rel: "(b, c) \<in> related lower (insert b F)"
  shows "may_join lower F b u s"
proof -
  have cB: "c \<in> set B" using conv_inv_rows(3) [OF inv] c(1) by blast
  have reach: "(b, d) \<in> related lower (insert b F)" if "d \<in> F" "thread_at s (cm_id d) = Some u" for d
    using related_mono [OF conv_inv_rows(11) [OF inv c(1) that(1)]] that(2) c(2) related_trans [OF rel] by metis
  have "\<exists>n\<in>insert b F. cm_account n = tr_account r \<and> subject_key lower n = x \<and> (n, b) \<in> related lower (insert b F)"
    if r: "r \<in> set (cs_threads s)" "tr_id r = u" "tr_subject r = Some x" "x \<noteq> []" for r x
  proof -
    from conv_inv_rows(12) [OF inv r(1,3,4)] r(2) obtain n where n: "n \<in> F" "cm_account n = tr_account r"
      "subject_key lower n = x" "\<forall>b\<in>F. thread_at s (cm_id b) = Some u \<longrightarrow> (n, b) \<in> related lower F" by blast
    then have "(n, c) \<in> related lower (insert b F)" using c related_mono by blast
    from related_trans [OF this related_sym [OF rel]] have "(n, b) \<in> related lower (insert b F)" .
    with n show ?thesis by blast
  qed
  moreover have "u \<in> thread_ids s" by (rule conv_inv_rows(6) [OF inv cB c(2)])
  moreover have "tr_account r = cm_account b" if "r \<in> set (cs_threads s)" "tr_id r = u" for r
    using conv_inv_rows(7) [OF inv cB c(2) that] acct by simp
  ultimately show ?thesis unfolding may_join_def using reach by blast
qed

lemma found_may_join:
  assumes inv: "conv_inv lower B F s" and u: "u \<in> found_threads s (cm_account b) (cue_of lower b) ex"
  shows "may_join lower F b u s"
proof -
  let ?linked = "{t. ex \<noteq> Some t \<and> (\<exists>l\<in>set (claimed_ids (cue_of lower b)). link_thread s (cm_account b) l = Some t)}"
  consider (linked) l where "l \<in> set (claimed_ids (cue_of lower b))" "link_thread s (cm_account b) l = Some u"
    | (subject) r where "subject_is_usable (cue_of lower b)" "r \<in> set (cs_threads s)" "tr_id r = u"
        "tr_account r = cm_account b" "tr_subject r = Some (subject_key lower b)"
  proof (cases "?linked = {} \<and> subject_is_usable (cue_of lower b)")
    case True
    with u show thesis by (auto simp: found_threads_def subject_key_def intro: subject)
  next
    case False
    with u have "u \<in> ?linked" unfolding found_threads_def Let_def by (simp only: if_False)
    then show thesis by (auto intro: linked)
  qed
  then show ?thesis
  proof cases
    case linked
    then have k: "folded l \<in> id_keys lower b" "map_of (cs_links s) (cm_account b, folded l) = Some u"
      by (auto simp: id_keys_def link_thread_def)
    from conv_inv_rows(10) [OF inv k(2)] obtain c where c: "c \<in> F" "cm_account c = cm_account b" "folded l \<in> id_keys lower c"
      by blast
    from conv_inv_rows(9) [OF inv c(1,3)] k(2) c(2) have at: "thread_at s (cm_id c) = Some u" by simp
    have "touches lower b c" using c k(1) by (auto simp: touches_def)
    then have "(b, c) \<in> related lower (insert b F)" using c(1) by (intro related_touch) simp_all
    from may_join_member [OF inv c(1) at c(2) this] show ?thesis .
  next
    case subject
    have key: "subject_key lower b \<noteq> []" using subject(1) by (simp add: subject_is_usable_def subject_key_def)
    from conv_inv_rows(12) [OF inv subject(2,5) key] subject(3,4) obtain n where n: "n \<in> F" "cm_account n = cm_account b"
      "subject_key lower n = subject_key lower b"
      "\<forall>c\<in>F. thread_at s (cm_id c) = Some u \<longrightarrow> (n, c) \<in> related lower F" by auto
    have "touches lower b n" using n subject(1) by (auto simp: touches_def)
    then have bn: "(b, n) \<in> related lower (insert b F)" using n(1) by (intro related_touch) simp_all
    have reach: "(b, c) \<in> related lower (insert b F)" if "c \<in> F" "thread_at s (cm_id c) = Some u" for c
    proof -
      from n(4) that have "(n, c) \<in> related lower F" by blast
      from related_trans [OF bn related_mono [OF this]] show ?thesis .
    qed
    have only: "r' = r" if "r' \<in> set (cs_threads s)" "tr_id r' = u" for r'
      using conv_inv_rows(13) [OF inv] that subject(2,3) by (metis distinct_map inj_on_eq_iff)
    have wit: "\<exists>n\<in>insert b F. cm_account n = tr_account r \<and> subject_key lower n = x \<and> (n, b) \<in> related lower (insert b F)"
      if "tr_subject r = Some x" for x
      using n subject(4,5) that related_sym [OF bn] by (intro bexI [of _ n]) simp_all
    show ?thesis
      unfolding may_join_def
    proof (intro conjI ballI impI allI)
      show "u \<in> thread_ids s" using subject(2,3) by (auto simp: thread_ids_def)
    qed (use only subject(4) wit reach in blast)+
  qed
qed

lemma joins_all:
  assumes "\<And>u. u \<in> T \<Longrightarrow> may_join lower F b u s" "t \<in> T \<or> T = {} \<and> t = cs_next s"
    and "\<And>k u. k \<in> id_keys lower b \<Longrightarrow> map_of (cs_links s) (cm_account b, k) = Some u \<Longrightarrow> u \<in> T"
  shows "joins lower F b T t s"
  using assms unfolding joins_def may_join_def by blast

lemma found_folds:
  fixes s :: conv_store and a :: account_id and c :: thread_cue and ex :: "thread_id option"
  obtains t where "folds (assignment_for s a c ex) (found_threads s a c ex) t s"
    "t \<in> found_threads s a c ex \<or> found_threads s a c ex = {} \<and> t = cs_next s"
proof -
  let ?T = "found_threads s a c ex"
  from assignment_for_cases [of s a c ex]
  consider "?T = {}" "assignment_for s a c ex = NewThread" | t where "?T = {t}" "assignment_for s a c ex = JoinThread t"
    | absorb where "assignment_for s a c ex = MergeThreads (Min ?T) absorb" "set absorb = ?T - {Min ?T}" "Min ?T \<in> ?T"
    by blast
  then show thesis
  proof cases
    case 1
    then show thesis by (intro that [of "cs_next s"]) (simp_all add: folds_def)
  next
    case (2 t)
    then show thesis by (intro that [of t]) (simp_all add: folds_def)
  next
    case (3 absorb)
    then show thesis by (intro that [of "Min ?T"]) (auto simp: folds_def)
  qed
qed


subsection \<open>Filing a message, and reconsidering one\<close>

lemma filed_into_base: "filed_into lower (base m) T t s s' = filed_into lower m T t s s'"
  by (simp add: filed_into_def id_keys_def fresh_threads_def subject_key_def)

lemma row_of_base:
  assumes "conv_inv lower B F s" "get_message s i = Some m"
  shows "base m \<in> set B" "cm_id (base m) = i" "thread_at s (cm_id (base m)) = cm_thread m"
proof -
  from assms(2) have "m \<in> set (cs_messages s)" by (auto simp: get_message_def find_Some_iff)
  then show "base m \<in> set B" using conv_inv_rows(1) [OF assms(1)] by auto
  show "cm_id (base m) = i" using get_message_id [OF assms(2)] by simp
  then show "thread_at s (cm_id (base m)) = cm_thread m" using assms(2) by (simp add: thread_at_def)
qed

lemma thread_message_effect:
  assumes inv: "conv_inv lower B F s" and row: "get_message s i = Some m" and acct: "0 < cm_account m"
  shows "\<exists>s' r T. thread_message lower (cm_account m) m s = Inr (s', r)
      \<and> joins lower F (base m) T (td_thread r) s \<and> filed_into lower m T (td_thread r) s s'"
proof -
  let ?T = "found_threads s (cm_account m) (cue_of lower m) None"
  obtain t where t: "folds (assignment_for s (cm_account m) (cue_of lower m) None) ?T t s" "t \<in> ?T \<or> ?T = {} \<and> t = cs_next s"
    by (rule found_folds)
  have may: "may_join lower F (base m) u s" if "u \<in> ?T" for u
    using found_may_join [OF inv, of u "base m" None] that by simp
  have links: "u \<in> ?T" if k: "k \<in> id_keys lower (base m)" "map_of (cs_links s) (cm_account (base m), k) = Some u" for k u
  proof -
    from k obtain l where "l \<in> set (claimed_ids (cue_of lower m))" "link_thread s (cm_account m) l = Some u"
      by (auto simp: id_keys_def link_thread_def)
    then show ?thesis by (auto simp: found_threads_def)
  qed
  have "?T \<subseteq> thread_ids s" using may unfolding may_join_def by blast
  moreover have "get_message s (cm_id m) \<noteq> None" using row get_message_id [OF row] by simp
  ultimately obtain s' r where "apply_assignment lower (cm_account m) m (cue_of lower m)
      (assignment_for s (cm_account m) (cue_of lower m) None) s = Inr (s', r)" "td_thread r = t" "filed_into lower m ?T t s s'"
    using apply_effect [OF t(1) _ acct] by blast
  moreover have "joins lower F (base m) ?T t s" by (rule joins_all [OF may t(2) links])
  ultimately show ?thesis unfolding thread_message_def by auto
qed

lemma thread_message_inv:
  assumes "conv_inv lower B F s" "get_message s i = Some m" "0 < cm_account m"
  shows "\<exists>s' r. thread_message lower (cm_account m) m s = Inr (s', r) \<and> conv_inv lower B (insert (base m) F) s'"
  using thread_message_effect [OF assms] conv_inv_filed [OF assms(1)] row_of_base(1) [OF assms(1,2)]
  by (metis filed_into_base)

lemma into_after: "into_thread {u} t (into_thread T t x) = into_thread (insert u T) t x"
  by (simp add: into_thread_def)

lemma absorb_filed:
  assumes "filed_into lower m T t s s'" "T \<noteq> {}" "u \<noteq> t"
  shows "filed_into lower m (insert u T) t s (absorb_thread lower t u s')"
  unfolding filed_into_def
proof (intro conjI allI)
  show "map base (cs_messages (absorb_thread lower t u s')) = map base (cs_messages s)"
    using assms(1) by (simp add: filed_into_def)
  show "thread_at (absorb_thread lower t u s') i
      = (if i = cm_id m then Some t else map_option (into_thread (insert u T) t) (thread_at s i))" for i
    using assms(1,3) by (simp add: filed_into_def absorb_thread_at option.map_comp comp_def into_after)
  show "map_of (cs_links (absorb_thread lower t u s')) (a, k)
      = (if a = cm_account m \<and> k \<in> id_keys lower m then Some t
         else map_option (into_thread (insert u T) t) (map_of (cs_links s) (a, k)))" for a k
    using assms(1,3) by (simp add: filed_into_def absorb_links option.map_comp comp_def into_after)
  show "follows lower UNIV (set (cs_threads s) \<union> fresh_threads lower m (insert u T) s) (absorb_thread lower t u s')"
    using assms by (intro follows_absorb) (simp_all add: filed_into_def fresh_threads_def)
  show "thread_ids (absorb_thread lower t u s') = insert t (thread_ids s - insert u T)"
    using assms absorb_ids [OF assms(3)] by (auto simp: filed_into_def thread_ids_def)
  show "map tr_id (cs_threads (absorb_thread lower t u s'))
      = filter (\<lambda>i. i \<notin> insert u T - {t}) (map tr_id (cs_threads s) @ (if insert u T = {} then [cs_next s] else []))"
    using assms absorb_id_list [OF assms(3)] by (auto simp: filed_into_def intro: filter_cong)
qed (use assms in \<open>simp_all add: filed_into_def\<close>)

lemma reconsider_inv:
  assumes inv: "conv_inv lower B F s" and row: "get_message s i = Some m" and acct: "0 < cm_account m"
  shows "\<exists>s' r. reconsider lower (cm_account m) m s = Inr (s', r) \<and> conv_inv lower B F s'"
proof (cases "cm_thread m")
  case None
  with inv show ?thesis by (simp add: reconsider_def)
next
  case (Some u)
  let ?c = "cue_of lower m" and ?x = "assignment_for s (cm_account m) (cue_of lower m) (Some u)"
  let ?T = "found_threads s (cm_account m) (cue_of lower m) (Some u)"
  show ?thesis
  proof (cases "get_thread s u = None \<or> tr_message_count (the (get_thread s u)) \<noteq> 1 \<or> ?x = NewThread")
    case True
    with Some inv show ?thesis by (auto simp: reconsider_def Let_def split: option.split)
  next
    case False
    note b = row_of_base [OF inv row]
    have bF: "base m \<in> F" using conv_inv_rows(5) [OF inv b(1)] b(3) Some by simp
    obtain t where t: "folds ?x ?T t s" "t \<in> ?T \<or> ?T = {} \<and> t = cs_next s" by (rule found_folds)
    have T: "?T \<noteq> {}" using t(1) False by (auto simp: folds_def)
    with t(2) have tT: "t \<in> ?T" by blast
    have "u \<notin> ?T" by (auto simp: found_threads_def Let_def split: if_splits)
    with tT have "u \<noteq> t" by blast
    have may: "may_join lower F (base m) v s" if "v \<in> insert u ?T" for v
    proof (cases "v = u")
      case True
      with may_join_member [OF inv bF, of u "base m"] b(3) Some show ?thesis by simp
    next
      case False
      with that found_may_join [OF inv, of v "base m" "Some u"] show ?thesis by simp
    qed
    have links: "v \<in> insert u ?T" if k: "k \<in> id_keys lower (base m)" "map_of (cs_links s) (cm_account (base m), k) = Some v" for k v
      using conv_inv_rows(9) [OF inv bF k(1)] k(2) b(3) Some by simp
    have joins: "joins lower F (base m) (insert u ?T) t s"
      using tT by (intro joins_all [OF may _ links]) auto
    have "?T \<subseteq> thread_ids s" using may unfolding may_join_def by blast
    moreover have "get_message s (cm_id m) \<noteq> None" using row get_message_id [OF row] by simp
    ultimately obtain s1 r where run: "apply_assignment lower (cm_account m) m ?c ?x s = Inr (s1, r)" "td_thread r = t"
      and filed: "filed_into lower m ?T t s s1"
      using apply_effect [OF t(1) _ acct] by blast
    from absorb_filed [OF filed T \<open>u \<noteq> t\<close>]
    have "filed_into lower (base m) (insert u ?T) t s (absorb_thread lower t u s1)" by (simp add: filed_into_base)
    from conv_inv_filed [OF inv joins this b(1)] bF
    have "conv_inv lower B F (absorb_thread lower t u s1)" by (simp add: insert_absorb)
    with Some False run show ?thesis by (auto simp: reconsider_def Let_def absorb_thread_def)
  qed
qed

end
