(* ===== verification/Conversations.thy ===== *)
theory Conversations
  imports Threading_Props
begin

section \<open>Filing a mailbox\<close>

text \<open>
  A sync files the messages of a mailbox one at a time and, when it goes idle, reconsiders
  those that had nothing to join; \<open>run_filings\<close> is any interleaving of the two, over the
  messages of any accounts.
\<close>

datatype filing = FileMessage message_id | ReconsiderMessage message_id

fun filing_id :: "filing \<Rightarrow> message_id" where
  "filing_id (FileMessage i) = i"
| "filing_id (ReconsiderMessage i) = i"

fun filing_run :: "(string \<Rightarrow> string) \<Rightarrow> filing \<Rightarrow> conv_message \<Rightarrow> conv_store \<Rightarrow> storage_error + conv_store" where
  "filing_run lower (FileMessage i) m s = map_sum id fst (thread_message lower (cm_account m) m s)"
| "filing_run lower (ReconsiderMessage i) m s = map_sum id fst (reconsider lower (cm_account m) m s)"

definition filing_step :: "(string \<Rightarrow> string) \<Rightarrow> filing \<Rightarrow> conv_store \<Rightarrow> storage_error + conv_store" where
  "filing_step lower f s =
     (case get_message s (filing_id f) of
        None \<Rightarrow> Inl (NotFound ''message'' (filing_id f))
      | Some m \<Rightarrow> filing_run lower f m s)"

fun run_filings :: "(string \<Rightarrow> string) \<Rightarrow> filing list \<Rightarrow> conv_store \<Rightarrow> storage_error + conv_store" where
  "run_filings lower [] s = Inr s"
| "run_filings lower (f # fs) s =
     (case filing_step lower f s of Inl e \<Rightarrow> Inl e | Inr s \<Rightarrow> run_filings lower fs s)"

text \<open>A store before anything is filed, and the messages a run files.\<close>

definition unfiled_store :: "conv_store \<Rightarrow> bool" where
  "unfiled_store s \<longleftrightarrow>
     cs_threads s = [] \<and> cs_links s = [] \<and> distinct (map cm_id (cs_messages s))
   \<and> list_all (\<lambda>m. cm_thread m = None \<and> 0 < cm_account m) (cs_messages s)"

definition filed_messages :: "conv_store \<Rightarrow> filing list \<Rightarrow> conv_message set" where
  "filed_messages s fs = set (filter (\<lambda>m. FileMessage (cm_id m) \<in> set fs) (cs_messages s))"

lemma unfiled_rows: "unfiled_store s \<Longrightarrow> map base (cs_messages s) = cs_messages s"
  by (auto simp: unfiled_store_def list_all_iff base_def intro!: map_idI)

lemma unfiled_at: "unfiled_store s \<Longrightarrow> thread_at s i = None"
  by (auto simp: unfiled_store_def list_all_iff thread_at_def get_message_def find_Some_iff split: option.split)

lemma unfiled_inv: "unfiled_store s \<Longrightarrow> conv_inv lower (cs_messages s) {} s"
  using unfiled_rows [of s] unfiled_at [of s]
  by (simp add: conv_inv_def unfiled_store_def thread_ids_def)

lemma row_exists:
  assumes "conv_inv lower B F s" "b \<in> set B"
  obtains m where "get_message s (cm_id b) = Some m" "base m = b" "cm_account m = cm_account b"
proof -
  from assms(2) conv_inv_rows(1) [OF assms(1)] obtain m where m: "m \<in> set (cs_messages s)" "base m = b" by auto
  have "map cm_id (cs_messages s) = map cm_id B" using conv_inv_rows(1) [OF assms(1)] by (auto simp: comp_def)
  with conv_inv_rows(2) [OF assms(1)] have "distinct (map cm_id (cs_messages s))" by simp
  from find_own [OF this m(1)] m(2) have "get_message s (cm_id b) = Some m" by (auto simp: get_message_def)
  with m(2) that show thesis by auto
qed

lemma filing_step_inv:
  assumes inv: "conv_inv lower B F s" and pos: "\<forall>b\<in>set B. 0 < cm_account b" and f: "filing_id f \<in> cm_id ` set B"
  shows "\<exists>s'. filing_step lower f s = Inr s' \<and> conv_inv lower B (F \<union> {b \<in> set B. f = FileMessage (cm_id b)}) s'"
proof -
  from f obtain b where b: "b \<in> set B" "filing_id f = cm_id b" by blast
  from row_exists [OF inv b(1)] obtain m where m: "get_message s (cm_id b) = Some m" "base m = b"
    "cm_account m = cm_account b" by blast
  with pos b(1) have acct: "0 < cm_account m" by simp
  show ?thesis
  proof (cases f)
    case (FileMessage i)
    with b have i: "i = cm_id b" by simp
    have "{b' \<in> set B. f = FileMessage (cm_id b')} = {b}"
      using FileMessage i b(1) distinct_ids [OF conv_inv_rows(2) [OF inv]] by auto
    moreover from thread_message_inv [OF inv m(1) acct] obtain s' r
      where "thread_message lower (cm_account m) m s = Inr (s', r)" "conv_inv lower B (insert (base m) F) s'" by blast
    ultimately show ?thesis using FileMessage i m by (simp add: filing_step_def)
  next
    case (ReconsiderMessage i)
    with b have i: "i = cm_id b" by simp
    have "{b' \<in> set B. f = FileMessage (cm_id b')} = {}" using ReconsiderMessage by auto
    moreover from reconsider_inv [OF inv m(1) acct] obtain s' r
      where "reconsider lower (cm_account m) m s = Inr (s', r)" "conv_inv lower B F s'" by blast
    ultimately show ?thesis using ReconsiderMessage i m by (simp add: filing_step_def)
  qed
qed

lemma run_filings_inv:
  assumes "conv_inv lower B F s" "\<forall>b\<in>set B. 0 < cm_account b" "filing_id ` set fs \<subseteq> cm_id ` set B"
  shows "\<exists>s'. run_filings lower fs s = Inr s' \<and> conv_inv lower B (F \<union> {b \<in> set B. FileMessage (cm_id b) \<in> set fs}) s'"
  using assms(1,3)
proof (induction fs arbitrary: s F)
  case Nil
  then show ?case by simp
next
  case (Cons f fs)
  from Cons.prems(2) have f: "filing_id f \<in> cm_id ` set B" and fs: "filing_id ` set fs \<subseteq> cm_id ` set B" by auto
  from filing_step_inv [OF Cons.prems(1) assms(2) f] obtain s' where s': "filing_step lower f s = Inr s'"
    "conv_inv lower B (F \<union> {b \<in> set B. f = FileMessage (cm_id b)}) s'" by blast
  have eq: "F \<union> {b \<in> set B. f = FileMessage (cm_id b)} \<union> {b \<in> set B. FileMessage (cm_id b) \<in> set fs}
      = F \<union> {b \<in> set B. FileMessage (cm_id b) \<in> set (f # fs)}" by auto
  from Cons.IH [OF s'(2) fs] s'(1) show ?case unfolding eq by simp
qed

lemma run_from_unfiled:
  assumes "unfiled_store s" "list_all (\<lambda>f. get_message s (filing_id f) \<noteq> None) fs"
  shows "\<exists>s'. run_filings lower fs s = Inr s' \<and> conv_inv lower (cs_messages s) (filed_messages s fs) s'"
proof -
  have "filing_id ` set fs \<subseteq> cm_id ` set (cs_messages s)"
  proof
    fix i assume "i \<in> filing_id ` set fs"
    then obtain m where "get_message s i = Some m" using assms(2) by (auto simp: list_all_iff)
    then have "m \<in> set (cs_messages s)" "cm_id m = i" by (auto simp: get_message_def find_Some_iff)
    then show "i \<in> cm_id ` set (cs_messages s)" by blast
  qed
  moreover have "\<forall>b\<in>set (cs_messages s). 0 < cm_account b" using assms(1) by (auto simp: unfiled_store_def list_all_iff)
  ultimately obtain s' where "run_filings lower fs s = Inr s'"
    "conv_inv lower (cs_messages s) ({} \<union> {b \<in> set (cs_messages s). FileMessage (cm_id b) \<in> set fs}) s'"
    using run_filings_inv [OF unfiled_inv [OF assms(1)]] by blast
  moreover have "{b \<in> set (cs_messages s). FileMessage (cm_id b) \<in> set fs} = filed_messages s fs"
    by (auto simp: filed_messages_def)
  ultimately show ?thesis by auto
qed

text \<open>
  C7: Filing any messages, in any order and with any of them reconsidered in between,
  succeeds and leaves the right conversations: each filed message is in a thread; two of an
  account that name a common id, whichever came first and whether or not the message they
  name has arrived, are in the same thread; and two in one thread are linked by a chain of
  filed messages of that account, each step of which shares an id, or shares a subject one
  side of which is a reply.
\<close>

theorem threads_are_conversations:
  assumes "unfiled_store s" "list_all (\<lambda>f. get_message s (filing_id f) \<noteq> None) fs"
  shows "\<exists>s'. run_filings lower fs s = Inr s'
    \<and> (\<forall>m\<in>filed_messages s fs. \<forall>n\<in>filed_messages s fs.
          thread_at s' (cm_id m) \<noteq> None
        \<and> (cm_account m = cm_account n \<and> id_keys lower m \<inter> id_keys lower n \<noteq> {}
             \<longrightarrow> thread_at s' (cm_id m) = thread_at s' (cm_id n))
        \<and> (thread_at s' (cm_id m) = thread_at s' (cm_id n) \<longrightarrow> (m, n) \<in> related lower (filed_messages s fs)))"
proof -
  from run_from_unfiled [OF assms] obtain s' where s': "run_filings lower fs s = Inr s'"
    and inv: "conv_inv lower (cs_messages s) (filed_messages s fs) s'" by blast
  have "thread_at s' (cm_id m) = thread_at s' (cm_id n)"
    if "m \<in> filed_messages s fs" "n \<in> filed_messages s fs" "cm_account m = cm_account n"
      "id_keys lower m \<inter> id_keys lower n \<noteq> {}" for m n
  proof -
    from that(4) obtain k where k: "k \<in> id_keys lower m" "k \<in> id_keys lower n" by blast
    from conv_inv_rows(9) [OF inv that(1) k(1)] conv_inv_rows(9) [OF inv that(2) k(2)] that(3) show ?thesis by simp
  qed
  with s' conv_inv_rows(8,11) [OF inv] show ?thesis by blast
qed

definition demo_mail :: "message_id \<Rightarrow> string option \<Rightarrow> string list \<Rightarrow> string \<Rightarrow> conv_message" where
  "demo_mail i rfc refs subject =
     \<lparr>cm_id = i, cm_account = 1, cm_mailbox = 1, cm_thread = None, cm_rfc = rfc, cm_in_reply_to = None,
      cm_references = refs, cm_subject = Some subject, cm_received_at = i, cm_sort_at = i, cm_seen = False,
      cm_flagged = False, cm_has_attachments = False, cm_deleted_locally = False, cm_snoozed_until = None\<rparr>"

text \<open>A reply to a reply that arrives before what it answers, and a reply with no ids.\<close>

definition demo_conv_store :: conv_store where
  "demo_conv_store =
     \<lparr>cs_messages = [demo_mail 1 (Some ''<c@x>'') [''<b@x>''] ''Re: Plan'', demo_mail 2 (Some ''<a@x>'') [] ''Plan'',
        demo_mail 3 (Some ''<B@X>'') [''<A@X>''] ''Re: Plan''],
      cs_drafts = [], cs_threads = [], cs_links = [], cs_next = 1, cs_now = 0\<rparr>"

definition demo_filings :: "filing list" where
  "demo_filings = [FileMessage 1, FileMessage 2, ReconsiderMessage 1, FileMessage 3]"

lemma demo_unfiled: "unfiled_store demo_conv_store"
  by (simp add: unfiled_store_def demo_conv_store_def demo_mail_def)

lemma demo_filings_known: "list_all (\<lambda>f. get_message demo_conv_store (filing_id f) \<noteq> None) demo_filings"
  by (simp add: demo_filings_def demo_conv_store_def demo_mail_def get_message_def)

theorem threads_are_conversations_witness:
  "\<exists>s'. run_filings lower_ascii demo_filings demo_conv_store = Inr s'
    \<and> (\<forall>m\<in>filed_messages demo_conv_store demo_filings. \<forall>n\<in>filed_messages demo_conv_store demo_filings.
          thread_at s' (cm_id m) \<noteq> None
        \<and> (cm_account m = cm_account n \<and> id_keys lower_ascii m \<inter> id_keys lower_ascii n \<noteq> {}
             \<longrightarrow> thread_at s' (cm_id m) = thread_at s' (cm_id n))
        \<and> (thread_at s' (cm_id m) = thread_at s' (cm_id n)
             \<longrightarrow> (m, n) \<in> related lower_ascii (filed_messages demo_conv_store demo_filings)))"
  by (rule threads_are_conversations [OF demo_unfiled demo_filings_known])

end
