(* ===== verification/Conversation_Rows.thy ===== *)
theory Conversation_Rows
  imports Conversations
begin

section \<open>The rows the list reads\<close>

text \<open>
  A thread's counts are columns the code recomputes by hand, for the thread a message joins
  and for the one it leaves; here they are right after every filing.  Also what filing a
  message again does.
\<close>

subsection \<open>Counts\<close>

definition counts_right :: "conv_store \<Rightarrow> thread_row \<Rightarrow> bool" where
  "counts_right s r \<longleftrightarrow>
     (let ms = members s (tr_id r) in
      tr_message_count r = length ms
    \<and> tr_unread_count r = length (filter (\<lambda>m. \<not> cm_seen m) ms)
    \<and> tr_has_attachments r = list_ex cm_has_attachments ms
    \<and> tr_is_flagged r = list_ex cm_flagged ms
    \<and> tr_first_at r = min_or_zero (map cm_received_at ms)
    \<and> tr_last_at r = max_or_zero (map cm_sort_at ms))"

text \<open>All but the rows of \<open>X\<close>.\<close>

definition counts_but :: "thread_id set \<Rightarrow> conv_store \<Rightarrow> bool" where
  "counts_but X s \<longleftrightarrow> (\<forall>r\<in>set (cs_threads s). tr_id r \<in> X \<or> counts_right s r)"

lemma visible_cong: "cs_now s' = cs_now s \<Longrightarrow> visible s' m = visible s m"
  by (simp add: visible_def split: option.split)

lemma members_cong: "cs_messages s' = cs_messages s \<Longrightarrow> cs_now s' = cs_now s \<Longrightarrow> members s' i = members s i"
  using visible_cong [of s' s] by (simp add: members_def)

lemma visible_row [simp]: "visible s (m\<lparr>cm_thread := t\<rparr>) = visible s m"
  by (simp add: visible_def)

lemma counts_cong: "cs_messages s' = cs_messages s \<Longrightarrow> cs_now s' = cs_now s \<Longrightarrow> counts_right s' r = counts_right s r"
  using members_cong [of s' s] by (simp add: counts_right_def)

lemma counts_recomputed: "counts_right s (recomputed lower s r)"
  by (simp add: counts_right_def recomputed_def Let_def)

lemma counts_recompute: "counts_but (insert i X) s \<Longrightarrow> counts_but X (recompute lower i s)"
  unfolding counts_but_def
proof
  fix r assume all: "\<forall>r\<in>set (cs_threads s). tr_id r \<in> insert i X \<or> counts_right s r"
    and "r \<in> set (cs_threads (recompute lower i s))"
  then obtain q where q: "q \<in> set (cs_threads s)" "r = (if tr_id q = i then recomputed lower s q else q)"
    unfolding recompute_def by auto
  have "tr_id r \<in> X \<or> counts_right s r"
  proof (cases "tr_id q = i")
    case True
    with q(2) counts_recomputed show ?thesis by simp
  next
    case False
    with q all show ?thesis by auto
  qed
  then show "tr_id r \<in> X \<or> counts_right (recompute lower i s) r"
    using counts_cong [of "recompute lower i s" s r] by simp
qed

lemma counts_mono: "counts_but X s \<Longrightarrow> X \<subseteq> Y \<Longrightarrow> counts_but Y s"
  by (auto simp: counts_but_def)

text \<open>A write that moves messages spoils at most the threads they leave and join.\<close>

lemma members_set_thread:
  assumes "\<And>m. m \<in> set (cs_messages s) \<Longrightarrow> P m \<Longrightarrow> cm_thread m \<noteq> Some i" "t \<noteq> Some i"
  shows "members (set_thread P t s) i = members s i"
proof -
  have "filter (\<lambda>m. cm_thread m = Some i \<and> visible s m) (map (\<lambda>m. if P m then m\<lparr>cm_thread := t\<rparr> else m) ms)
      = filter (\<lambda>m. cm_thread m = Some i \<and> visible s m) ms"
    if "\<And>m. m \<in> set ms \<Longrightarrow> P m \<Longrightarrow> cm_thread m \<noteq> Some i" for ms
    using that assms(2) by (induction ms) auto
  moreover have "visible (set_thread P t s) m = visible s m" for m by (rule visible_cong) simp
  ultimately show ?thesis
    using assms(1) unfolding members_def by (simp add: set_thread_def)
qed

lemma counts_members: "(\<And>i. i \<in> tr_id ` set (cs_threads s) \<Longrightarrow> i \<notin> X \<Longrightarrow> members s' i = members s i)
    \<Longrightarrow> cs_threads s' = cs_threads s \<Longrightarrow> counts_but X s \<Longrightarrow> counts_but X s'"
  unfolding counts_but_def counts_right_def by (metis imageI)

lemma counts_absorb:
  assumes "counts_but X s" "t \<noteq> u"
  shows "counts_but (X - {t, u}) (absorb_thread lower t u s)"
proof -
  let ?s1 = "set_thread (\<lambda>m. cm_thread m = Some u) (Some t) (relink u t s)"
  let ?s2 = "delete_thread u (set_draft_threads u (Some t) ?s1)"
  have same: "members ?s1 i = members s i" if "i \<noteq> t" "i \<noteq> u" for i
    using that members_set_thread [of "relink u t s" "\<lambda>m. cm_thread m = Some u" i "Some t"] members_cong [of "relink u t s" s i]
    by simp
  have "members ?s2 i = members ?s1 i" if "i \<noteq> u" for i
  proof -
    let ?s = "?s1\<lparr>cs_threads := filter (\<lambda>t. tr_id t \<noteq> u) (cs_threads s), cs_links := filter (\<lambda>(_, t). t \<noteq> u) (cs_links (relink u t s))\<rparr>"
    have "members ?s2 i = members (set_thread (\<lambda>m. cm_thread m = Some u) None ?s) i"
      by (rule members_cong) (simp_all add: delete_thread_def set_thread_def)
    also have "\<dots> = members ?s i" using that by (intro members_set_thread) auto
    also have "\<dots> = members ?s1 i" by (rule members_cong) simp_all
    finally show ?thesis .
  qed
  with same have "members ?s2 i = members s i" if "i \<noteq> t" "i \<noteq> u" for i using that by simp
  then have "counts_but (insert t (X - {t, u})) ?s2"
    using assms(1) by (auto simp: counts_but_def counts_right_def)
  then show ?thesis using assms(2) by (simp add: absorb_thread_def merge_threads_def counts_recompute)
qed

lemma counts_absorbs:
  "counts_but {} s \<Longrightarrow> t \<notin> set us \<Longrightarrow> counts_but {} (fold (absorb_thread lower t) us s)"
proof (induction us arbitrary: s)
  case (Cons u us)
  then have "counts_but {} (absorb_thread lower t u s)" using counts_absorb [of "{}" s t u lower] by simp
  with Cons show ?case by simp
qed simp

lemma counts_add_message:
  assumes "counts_but {} s" "add_message lower t i s = Inr s'" "distinct (map cm_id (cs_messages s))"
  shows "counts_but {} s'"
proof -
  from assms(2) obtain m where m: "get_message s i = Some m" by (auto simp: add_message_def split: option.splits)
  let ?s1 = "set_thread (\<lambda>m. cm_id m = i) (Some t) s"
  let ?X = "insert t (case cm_thread m of Some p \<Rightarrow> {p} | None \<Rightarrow> {})"
  have only: "x = m" if "x \<in> set (cs_messages s)" "cm_id x = i" for x
    using find_own [OF assms(3) that(1)] m that(2) by (simp add: get_message_def)
  have "counts_but ?X ?s1"
  proof (rule counts_members [OF _ _ counts_mono [OF assms(1)]])
    fix j assume "j \<notin> ?X"
    then show "members ?s1 j = members s j"
      using only by (intro members_set_thread) (auto split: option.splits)
  qed simp_all
  then have s2: "counts_but (?X - {t}) (recompute lower t ?s1)"
    by (intro counts_recompute) (simp add: insert_Diff_if insert_absorb)
  show ?thesis
  proof (cases "cm_thread m")
    case None
    with m assms(2) s2 show ?thesis by (auto simp: add_message_def Let_def)
  next
    case (Some p)
    show ?thesis
    proof (cases "p = t")
      case True
      with Some m assms(2) s2 show ?thesis by (auto simp: add_message_def Let_def)
    next
      case False
      with Some s2 have "counts_but {} (recompute lower p (recompute lower t ?s1))"
        by (intro counts_recompute [of p "{}"]) (simp add: insert_Diff_if split: if_splits)
      with False Some m assms(2) show ?thesis by (auto simp: add_message_def Let_def)
    qed
  qed
qed


lemma counts_claims: "counts_but X s \<Longrightarrow> counts_but X (fold (claim_link a t) ks s)"
  using counts_cong [of "fold (claim_link a t) ks s" s] by (simp add: counts_but_def claim_all)

lemma counts_create:
  assumes "counts_but {} s" "create_thread a x s = Inr (s', t)" "\<And>m. m \<in> set (cs_messages s) \<Longrightarrow> cm_thread m \<noteq> Some (cs_next s)"
  shows "counts_but {} s'"
proof -
  from assms(2) obtain row where s': "s' = s\<lparr>cs_threads := cs_threads s @ [row], cs_next := cs_next s + 1\<rparr>"
    and row: "tr_id row = cs_next s" "tr_message_count row = 0" "tr_unread_count row = 0" "\<not> tr_has_attachments row"
      "\<not> tr_is_flagged row" "tr_first_at row = 0" "tr_last_at row = 0"
    by (fastforce simp: create_thread_def require_persisted_def split: if_splits)
  have "members s (cs_next s) = []" using assms(3) by (auto simp: members_def filter_empty_conv)
  with row have "counts_right s row" by (simp add: counts_right_def)
  moreover have "counts_right s' q = counts_right s q" for q by (rule counts_cong) (simp_all add: s')
  ultimately show ?thesis using assms(1) by (auto simp: counts_but_def s')
qed

lemma distinct_rows: "map base (cs_messages s') = map base (cs_messages s) \<Longrightarrow> distinct (map cm_id (cs_messages s))
    \<Longrightarrow> distinct (map cm_id (cs_messages s'))"
proof -
  assume eq: "map base (cs_messages s') = map base (cs_messages s)" and dist: "distinct (map cm_id (cs_messages s))"
  have "map cm_id (map base ms) = map cm_id ms" for ms by simp
  with eq dist show ?thesis by metis
qed

lemma apply_parts:
  assumes "apply_assignment lower a m c x s = Inr (s', r)"
  obtains s1 s2 where "start_assignment lower a c x s = Inr (s1, td_thread r, td_created r, td_merged r)"
    "add_message lower (td_thread r) (cm_id m) s1 = Inr s2" "s' = fold (claim_link a (td_thread r)) (claimed_ids c) s2"
  using assms by (auto simp: apply_assignment_def split: sum.splits prod.splits)

lemma counts_apply:
  assumes "counts_but {} s" "apply_assignment lower a m c x s = Inr (s', r)" "folds x T t s"
    and "distinct (map cm_id (cs_messages s))" "\<And>m. m \<in> set (cs_messages s) \<Longrightarrow> cm_thread m \<noteq> Some (cs_next s)"
  shows "counts_but {} s'"
proof -
  from assms(2) obtain s1 u s2 where start: "start_assignment lower a c x s = Inr (s1, u, td_created r, td_merged r)"
    and s2: "add_message lower u (cm_id m) s1 = Inr s2" "s' = fold (claim_link a u) (claimed_ids c) s2"
    by (rule apply_parts)
  have s1: "(x = NewThread \<and> (\<exists>y. create_thread a y s = Inr (s1, u)))
      \<or> (x = JoinThread u \<and> s1 = s) \<or> (\<exists>absorb. x = MergeThreads u absorb \<and> s1 = fold (absorb_thread lower u) absorb s)"
    using start by (cases x) (auto simp: start_assignment_def split: sum.splits)
  have "counts_but {} s1 \<and> distinct (map cm_id (cs_messages s1))"
  proof (cases x)
    case NewThread
    with s1 obtain y where y: "create_thread a y s = Inr (s1, u)" by blast
    then have "cs_messages s1 = cs_messages s" by (auto simp: create_thread_def require_persisted_def split: if_splits)
    with counts_create [OF assms(1) y assms(5)] assms(4) show ?thesis by simp
  next
    case (JoinThread v)
    with s1 assms(1,4) show ?thesis by simp
  next
    case (MergeThreads v absorb)
    with s1 have eq: "s1 = fold (absorb_thread lower v) absorb s" "u = v" by auto
    from MergeThreads assms(3) have "v \<notin> set absorb" by (auto simp: folds_def)
    from counts_absorbs [OF assms(1) this] distinct_rows [OF absorbs(5) [OF this] assms(4)] show ?thesis unfolding eq by blast
  qed
  with counts_add_message [OF _ s2(1)] counts_claims show ?thesis unfolding s2(2) by blast
qed

lemma no_fresh_rows:
  assumes "conv_inv lower B F s" "m \<in> set (cs_messages s)"
  shows "cm_thread m \<noteq> Some (cs_next s)"
proof
  assume at: "cm_thread m = Some (cs_next s)"
  have "map cm_id (cs_messages s) = map cm_id B" using conv_inv_rows(1) [OF assms(1)] by (auto simp: comp_def)
  with conv_inv_rows(2) [OF assms(1)] have "distinct (map cm_id (cs_messages s))" by simp
  with assms(2) have "thread_at s (cm_id (base m)) = Some (cs_next s)" by (simp add: thread_at_def get_message_def find_own at)
  moreover have "base m \<in> set B" using assms(2) conv_inv_rows(1) [OF assms(1)] by auto
  ultimately have "cs_next s \<in> thread_ids s" using conv_inv_rows(6) [OF assms(1)] by blast
  with conv_inv_rows(4) [OF assms(1)] show False by blast
qed

lemma inv_distinct: "conv_inv lower B F s \<Longrightarrow> distinct (map cm_id (cs_messages s))"
  using conv_inv_rows(1,2) [of lower B F s] by (auto simp: comp_def)

lemma counts_assigned:
  assumes "conv_inv lower B F s" "counts_but {} s"
    and "apply_assignment lower a m c (assignment_for s a' c' ex) s = Inr (s', r)"
  shows "counts_but {} s'"
proof -
  obtain t where "folds (assignment_for s a' c' ex) (found_threads s a' c' ex) t s" by (rule found_folds)
  from counts_apply [OF assms(2,3) this inv_distinct [OF assms(1)] no_fresh_rows [OF assms(1)]] show ?thesis .
qed

lemma apply_thread:
  assumes "apply_assignment lower a m c x s = Inr (s', r)" "folds x T t s"
  shows "td_thread r = t"
  using assms(1)
proof (rule apply_parts)
  fix s1
  assume "start_assignment lower a c x s = Inr (s1, td_thread r, td_created r, td_merged r)"
  with assms(2) show "td_thread r = t"
    by (auto simp: folds_def start_assignment_def create_thread_def require_persisted_def split: if_splits)
qed

lemma reconsidered_elsewhere:
  assumes "apply_assignment lower a m c (assignment_for s a c (Some u)) s = Inr (s', r)" "assignment_for s a c (Some u) \<noteq> NewThread"
  shows "td_thread r \<noteq> u"
proof -
  let ?T = "found_threads s a c (Some u)"
  obtain t where t: "folds (assignment_for s a c (Some u)) ?T t s" "t \<in> ?T \<or> ?T = {} \<and> t = cs_next s" by (rule found_folds)
  with assms(2) have "t \<in> ?T" by (auto simp: folds_def)
  moreover have "u \<notin> ?T" by (auto simp: found_threads_def Let_def split: if_splits)
  moreover have "td_thread r = t" by (rule apply_thread [OF assms(1) t(1)])
  ultimately show ?thesis by blast
qed

lemma counts_step:
  assumes inv: "conv_inv lower B F s" and counts: "counts_but {} s" and run: "filing_run lower f m s = Inr s'"
  shows "counts_but {} s'"
proof (cases f)
  case (FileMessage i)
  with run obtain r where "thread_message lower (cm_account m) m s = Inr (s', r)"
    by (cases "thread_message lower (cm_account m) m s") auto
  then show ?thesis unfolding thread_message_def Let_def by (rule counts_assigned [OF inv counts])
next
  case (ReconsiderMessage i)
  with run obtain q where q: "reconsider lower (cm_account m) m s = Inr (s', q)"
    by (cases "reconsider lower (cm_account m) m s") auto
  show ?thesis
  proof (cases "s' = s")
    case False
    let ?x = "\<lambda>u. assignment_for s (cm_account m) (cue_of lower m) (Some u)"
    from q False obtain u s1 r where u: "?x u \<noteq> NewThread"
      "apply_assignment lower (cm_account m) m (cue_of lower m) (?x u) s = Inr (s1, r)"
      "s' = absorb_thread lower (td_thread r) u s1"
      by (auto simp: reconsider_def Let_def absorb_thread_def split: option.splits if_splits sum.splits)
    from counts_absorb [OF counts_assigned [OF inv counts u(2)] reconsidered_elsewhere [OF u(2,1)], of lower] u(3)
    show ?thesis by simp
  qed (simp add: counts)
qed

text \<open>
  C9: After any filings the columns of every thread the list reads are those of its messages
  that the list shows: how many there are and how many unread, whether one has an attachment
  or a flag, and the dates of the first and the last; also for the threads a message left,
  and whatever was merged on the way.
\<close>

theorem thread_rows_are_right:
  assumes "unfiled_store s" "run_filings lower fs s = Inr s'"
  shows "list_all (counts_right s') (cs_threads s')"
proof -
  have "counts_but {} s'" if "conv_inv lower B F s" "\<forall>b\<in>set B. 0 < cm_account b" "counts_but {} s" "run_filings lower fs s = Inr s'"
    for B F fs and s :: conv_store
    using that
  proof (induction fs arbitrary: s F)
    case (Cons f fs)
    from Cons.prems(4) obtain s1 where s1: "filing_step lower f s = Inr s1" "run_filings lower fs s1 = Inr s'"
      by (auto split: sum.splits)
    then obtain m where m: "get_message s (filing_id f) = Some m" "filing_run lower f m s = Inr s1"
      by (auto simp: filing_step_def split: option.splits)
    from row_of_base(1,2) [OF Cons.prems(1) m(1)] have "filing_id f \<in> cm_id ` set B" by (metis imageI)
    from filing_step_inv [OF Cons.prems(1,2) this] s1(1)
    have "conv_inv lower B (F \<union> {b \<in> set B. f = FileMessage (cm_id b)}) s1" by simp
    from Cons.IH [OF this Cons.prems(2) counts_step [OF Cons.prems(1,3) m(2)] s1(2)] show ?case .
  qed simp
  from this [OF unfiled_inv [OF assms(1)] _ _ assms(2)] assms(1)
  show ?thesis by (auto simp: unfiled_store_def list_all_iff counts_but_def)
qed

theorem thread_rows_are_right_witness:
  "\<exists>s'. run_filings lower_ascii demo_filings demo_conv_store = Inr s' \<and> list_all (counts_right s') (cs_threads s')"
  using run_from_unfiled [OF demo_unfiled demo_filings_known, of lower_ascii] thread_rows_are_right [OF demo_unfiled]
  by blast


subsection \<open>Filing a message again\<close>

definition settled :: "(string \<Rightarrow> string) \<Rightarrow> thread_id \<Rightarrow> conv_store \<Rightarrow> bool" where
  "settled lower t s \<longleftrightarrow> (\<forall>r\<in>set (cs_threads s). tr_id r = t \<longrightarrow> recomputed lower s r = r)"

lemma recomputed_cong:
  assumes "cs_messages s' = cs_messages s" "cs_now s' = cs_now s"
  shows "recomputed lower s' r = recomputed lower s r"
  using members_cong [OF assms] by (simp add: recomputed_def root_subject_def)

lemma recomputed_twice: "recomputed lower s (recomputed lower s r) = recomputed lower s r"
  by (simp add: recomputed_def root_subject_def Let_def split: option.split)

lemma settled_recompute: "settled lower t s \<Longrightarrow> recompute lower t s = s"
  by (auto simp: settled_def recompute_def intro!: map_idI conv_store.equality)

lemma settled_write:
  assumes "settled lower t s" "cs_messages s' = cs_messages s" "cs_now s' = cs_now s" "cs_threads s' = cs_threads s"
  shows "settled lower t s'"
  using assms recomputed_cong [OF assms(2,3), of lower] by (simp add: settled_def)

lemma recompute_row:
  assumes "r \<in> set (cs_threads (recompute lower i s))"
  obtains q where "q \<in> set (cs_threads s)" "r = (if tr_id q = i then recomputed lower s q else q)"
proof -
  from assms have "r \<in> (\<lambda>t. if tr_id t = i then recomputed lower s t else t) ` set (cs_threads s)"
    by (simp add: recompute_def)
  then show thesis by (rule imageE) (rule that)
qed

lemma settled_after: "settled lower t (recompute lower t s)"
  unfolding settled_def
proof (intro ballI impI)
  fix r assume "r \<in> set (cs_threads (recompute lower t s))" "tr_id r = t"
  then obtain q where q: "r = (if tr_id q = t then recomputed lower s q else q)" "tr_id r = t" by (metis recompute_row)
  have "recomputed lower (recompute lower t s) r = recomputed lower s r" by (rule recomputed_cong) simp_all
  with q show "recomputed lower (recompute lower t s) r = r" by (simp add: recomputed_twice split: if_splits)
qed

lemma settled_other:
  assumes "settled lower t s" "p \<noteq> t"
  shows "settled lower t (recompute lower p s)"
  unfolding settled_def
proof (intro ballI impI)
  fix r assume r: "r \<in> set (cs_threads (recompute lower p s))" "tr_id r = t"
  then obtain q where q: "q \<in> set (cs_threads s)" "r = (if tr_id q = p then recomputed lower s q else q)"
    by (metis recompute_row)
  with r(2) assms(2) have "r = q" by (simp split: if_splits)
  have "recomputed lower (recompute lower p s) r = recomputed lower s r" by (rule recomputed_cong) simp_all
  with q(1) \<open>r = q\<close> r(2) assms(1) show "recomputed lower (recompute lower p s) r = r" by (simp add: settled_def)
qed

lemma settled_add: "add_message lower t i s = Inr s' \<Longrightarrow> settled lower t s'"
  by (auto simp: add_message_def Let_def settled_after intro: settled_other split: option.splits if_splits)

lemma settled_apply:
  assumes "apply_assignment lower a m c x s = Inr (s', r)"
  shows "settled lower (td_thread r) s'"
  using assms
proof (rule apply_parts)
  fix s1 s2
  assume add: "add_message lower (td_thread r) (cm_id m) s1 = Inr s2"
    and s': "s' = fold (claim_link a (td_thread r)) (claimed_ids c) s2"
  show ?thesis unfolding s' by (rule settled_write [OF settled_add [OF add]]) (simp_all add: claim_all)
qed

lemma add_again:
  assumes "settled lower t s" "get_message s i = Some m" "cm_thread m = Some t" "distinct (map cm_id (cs_messages s))"
  shows "add_message lower t i s = Inr s"
proof -
  have "x = m" if "x \<in> set (cs_messages s)" "cm_id x = i" for x
    using find_own [OF assms(4) that(1)] assms(2) that(2) by (simp add: get_message_def)
  with assms(3) have "set_thread (\<lambda>m. cm_id m = i) (Some t) s = s"
    by (auto simp: set_thread_def intro!: map_idI conv_store.equality)
  with assms settled_recompute show ?thesis by (simp add: add_message_def Let_def)
qed

lemma same_cue: "base m = base n \<Longrightarrow> cue_of lower m = cue_of lower n"
  by (metis base_fields(7))

lemma filed_row:
  assumes inv: "conv_inv lower B F s" and row: "get_message s i = Some m" and acct: "0 < cm_account m"
  obtains s\<^sub>1 r\<^sub>1 m\<^sub>1 where "thread_message lower (cm_account m) m s = Inr (s\<^sub>1, r\<^sub>1)"
    "conv_inv lower B (insert (base m) F) s\<^sub>1" "settled lower (td_thread r\<^sub>1) s\<^sub>1"
    "get_message s\<^sub>1 i = Some m\<^sub>1" "base m\<^sub>1 = base m" "cm_account m\<^sub>1 = cm_account m" "cm_id m\<^sub>1 = i"
    "cm_thread m\<^sub>1 = Some (td_thread r\<^sub>1)"
proof -
  note b = row_of_base [OF inv row]
  from thread_message_effect [OF inv row acct] obtain s1 r1 T
    where run: "thread_message lower (cm_account m) m s = Inr (s1, r1)"
      and joins: "joins lower F (base m) T (td_thread r1) s" and filed: "filed_into lower m T (td_thread r1) s s1" by blast
  have inv1: "conv_inv lower B (insert (base m) F) s1"
    using conv_inv_filed [OF inv joins _ b(1)] filed by (simp add: filed_into_base)
  from row_exists [OF inv1 b(1)] b(2) obtain m1 where m1: "get_message s1 i = Some m1" "base m1 = base m"
    "cm_account m1 = cm_account m" by auto
  have "thread_at s1 i = Some (td_thread r1)" using filed b(2) by (simp add: filed_into_def)
  with m1(1) have "cm_thread m1 = Some (td_thread r1)" by (simp add: thread_at_def)
  moreover have "settled lower (td_thread r1) s1" using run unfolding thread_message_def Let_def by (rule settled_apply)
  ultimately show thesis using that run inv1 m1 get_message_id [OF m1(1)] by blast
qed

lemma refile_known:
  assumes inv: "conv_inv lower B F s" and row: "get_message s i = Some m" and acct: "0 < cm_account m"
    and ids: "claimed_ids (cue_of lower m) \<noteq> []"
  shows "\<exists>s\<^sub>1 r\<^sub>1 m\<^sub>1 s\<^sub>2 r\<^sub>2. thread_message lower (cm_account m) m s = Inr (s\<^sub>1, r\<^sub>1) \<and> get_message s\<^sub>1 i = Some m\<^sub>1
    \<and> thread_message lower (cm_account m\<^sub>1) m\<^sub>1 s\<^sub>1 = Inr (s\<^sub>2, r\<^sub>2)
    \<and> td_thread r\<^sub>2 = td_thread r\<^sub>1 \<and> \<not> td_created r\<^sub>2 \<and> td_merged r\<^sub>2 = []
    \<and> cs_messages s\<^sub>2 = cs_messages s\<^sub>1 \<and> cs_threads s\<^sub>2 = cs_threads s\<^sub>1
    \<and> (\<forall>a k. link_thread s\<^sub>2 a k = link_thread s\<^sub>1 a k)"
  using inv row acct
proof (rule filed_row)
  fix s1 m1 and r1 :: threaded
  let ?c = "cue_of lower m" and ?t = "td_thread r1"
  let ?s2 = "fold (claim_link (cm_account m) ?t) (claimed_ids ?c) s1"
  assume run: "thread_message lower (cm_account m) m s = Inr (s1, r1)"
    and inv1: "conv_inv lower B (insert (base m) F) s1" and stays: "settled lower ?t s1"
    and m1: "get_message s1 i = Some m1" "base m1 = base m" "cm_account m1 = cm_account m" "cm_id m1 = i"
      "cm_thread m1 = Some ?t"
  have at1: "thread_at s1 (cm_id (base m)) = Some ?t" using m1 row_of_base(2) [OF inv row] by (simp add: thread_at_def)
  have linked: "link_thread s1 (cm_account m) l = Some ?t" if "l \<in> set (claimed_ids ?c)" for l
    using conv_inv_rows(9) [OF inv1, of "base m" "folded l"] that at1 by (auto simp: id_keys_def link_thread_def)
  then have "{t. \<exists>l\<in>set (claimed_ids ?c). link_thread s1 (cm_account m) l = Some t} = {?t}"
    using ids by (cases "claimed_ids ?c") auto
  then have "found_threads s1 (cm_account m) ?c None = {?t}" by (simp add: found_threads_def)
  with assignment_for_cases [of s1 "cm_account m" ?c None]
  have join: "assignment_for s1 (cm_account m) ?c None = JoinThread ?t" by auto
  from add_again [OF stays m1(1,5) inv_distinct [OF inv1]]
  have "thread_message lower (cm_account m1) m1 s1 = Inr (?s2, \<lparr>td_thread = ?t, td_created = False, td_merged = []\<rparr>)"
    by (simp add: thread_message_def same_cue [OF m1(2)] m1(3,4) join apply_assignment_def start_assignment_def)
  moreover have "link_thread ?s2 a k = link_thread s1 a k" for a k
    using linked by (auto simp: link_thread_def claim_all)
  ultimately show ?thesis using run m1(1) by (auto simp: claim_all)
qed

lemma file_anonymous:
  assumes row: "get_message s (cm_id m) \<noteq> None" and acct: "0 < cm_account m"
    and anon: "claimed_ids (cue_of lower m) = []" "\<not> subject_is_usable (cue_of lower m)"
  shows "\<exists>s' r. thread_message lower (cm_account m) m s = Inr (s', r) \<and> td_thread r = cs_next s \<and> td_created r
      \<and> filed_into lower m {} (cs_next s) s s'"
proof -
  have "found_threads s (cm_account m) (cue_of lower m) None = {}" using anon by (simp add: found_threads_def)
  then have new: "assignment_for s (cm_account m) (cue_of lower m) None = NewThread"
    using assignment_for_cases [of s "cm_account m" "cue_of lower m" None] by auto
  have "folds NewThread {} (cs_next s) s" by (simp add: folds_def)
  from apply_effect [OF this _ acct row, of lower] obtain s' r
    where run: "apply_assignment lower (cm_account m) m (cue_of lower m) NewThread s = Inr (s', r)"
      and r: "td_thread r = cs_next s" "filed_into lower m {} (cs_next s) s s'" by blast
  from run have "td_created r" by (rule apply_parts) (auto simp: start_assignment_def split: sum.splits)
  with run r new show ?thesis by (auto simp: thread_message_def)
qed

lemma refile_anonymous:
  assumes inv: "conv_inv lower B F s" and row: "get_message s i = Some m" and acct: "0 < cm_account m"
    and anon: "claimed_ids (cue_of lower m) = []" "\<not> subject_is_usable (cue_of lower m)"
  shows "\<exists>s\<^sub>1 r\<^sub>1 m\<^sub>1 s\<^sub>2 r\<^sub>2. thread_message lower (cm_account m) m s = Inr (s\<^sub>1, r\<^sub>1) \<and> get_message s\<^sub>1 i = Some m\<^sub>1
    \<and> thread_message lower (cm_account m\<^sub>1) m\<^sub>1 s\<^sub>1 = Inr (s\<^sub>2, r\<^sub>2)
    \<and> td_created r\<^sub>2 \<and> td_thread r\<^sub>2 \<noteq> td_thread r\<^sub>1 \<and> td_thread r\<^sub>1 \<in> thread_ids s\<^sub>2 \<and> members s\<^sub>2 (td_thread r\<^sub>1) = []"
  using inv row acct
proof (rule filed_row)
  fix s1 m1 and r1 :: threaded
  let ?t = "td_thread r1"
  assume run: "thread_message lower (cm_account m) m s = Inr (s1, r1)" and inv1: "conv_inv lower B (insert (base m) F) s1"
    and m1: "get_message s1 i = Some m1" "base m1 = base m" "cm_account m1 = cm_account m" "cm_id m1 = i"
  have id: "cm_id m = i" using row_of_base(2) [OF inv row] by simp
  from file_anonymous [of s m lower] row acct anon run id
  have f1: "?t = cs_next s" "filed_into lower m {} ?t s s1" by auto
  from file_anonymous [of s1 m1 lower] m1 acct anon obtain s2 r2
    where run2: "thread_message lower (cm_account m1) m1 s1 = Inr (s2, r2)" "td_thread r2 = cs_next s1" "td_created r2"
      and f2: "filed_into lower m1 {} (cs_next s1) s1 s2" by (auto simp: same_cue [OF m1(2)])
  have next1: "cs_next s1 = ?t + 1" using f1 by (simp add: filed_into_def)
  have "cm_thread x \<noteq> Some ?t" if x: "x \<in> set (cs_messages s2)" for x
  proof
    assume "cm_thread x = Some ?t"
    moreover have "distinct (map cm_id (cs_messages s2))"
      using distinct_rows [of s2 s1] inv_distinct [OF inv1] f2 by (simp add: filed_into_def)
    ultimately have "thread_at s2 (cm_id x) = Some ?t" using x by (simp add: thread_at_def get_message_def find_own)
    with f2 next1 m1(4) have "thread_at s1 (cm_id x) = Some ?t" "cm_id x \<noteq> i" by (auto simp: filed_into_def split: if_splits)
    with f1 id have "thread_at s (cm_id x) = Some (cs_next s)" by (auto simp: filed_into_def split: if_splits)
    then obtain y where "get_message s (cm_id x) = Some y" "cm_thread y = Some (cs_next s)"
      by (auto simp: thread_at_def split: option.splits)
    with no_fresh_rows [OF inv] show False by (auto simp: get_message_def find_Some_iff)
  qed
  then have "members s2 ?t = []" by (auto simp: members_def filter_empty_conv)
  moreover have "?t \<in> thread_ids s2" using f1 f2 by (simp add: filed_into_def)
  ultimately show ?thesis using run m1(1) run2 next1 by auto
qed



end
