(* ===== verification/Mail_Rows.thy ===== *)
theory Mail_Rows
  imports Threading Sync_State Retry
begin

section \<open>The rows a synchronization reads and writes\<close>

text \<open>
  The statements of \<open>crates/postio-storage/src/repository/messages.rs\<close> a synchronization
  runs, with \<open>FetchedMessage::into_message\<close> of
  \<open>crates/postio-account/src/backend/message.rs\<close> and
  \<open>crates/postio-storage/src/repository/sync_state.rs\<close>.  A row of \<open>messages\<close> is the
  row threading reads, extended by the server's identity, the flags, labels and body state; a
  \<open>Message\<close> in memory is the same record (\<open>cm_id = 0\<close>: not stored yet), and
  \<open>row_values\<close> is what a write stores of it.  Tables are lists of rows in id order; a
  statement that may return any of several rows returns the first here.  Not modelled: the columns no later
  statement of a synchronization reads (addresses, preview, parts, content identity), the
  search index, correspondents, contacts, the recorded filter decisions, the counters of a
  mailbox, and failures of the database engine.
\<close>

datatype body_state = NotFetched | HeadersOnly | PartialBody | FullBody

record stored_message = conv_message +
  sm_uid :: "nat option"
  sm_validity :: "nat option"
  sm_mod_seq :: "nat option"
  sm_remote :: "remote_id option"
  sm_size :: nat
  sm_flags :: flag_set
  sm_labels :: "int list"
  sm_body :: body_state
  sm_flags_dirty :: bool
  sm_has_pending :: bool

record mailbox_row =
  mb_id :: mailbox_id
  mb_account :: account_id
  mb_role :: mailbox_role

record sync_draft =
  sd_id :: draft_id
  sd_account :: account_id
  sd_remote :: "remote_id option"
  sd_message :: "message_id option"
  sd_thread :: "thread_id option"

record sync_store =
  st_messages :: "stored_message list"
  st_next :: message_id
  st_queue :: "queued_operation list"
  st_drafts :: "sync_draft list"
  st_mailboxes :: "mailbox_row list"
  st_accounts :: "account_id list"
  st_threads :: "thread_row list"
  st_links :: "((account_id \<times> string) \<times> thread_id) list"
  st_next_thread :: thread_id
  st_now :: int
  st_sync :: "sync_state list"


subsection \<open>What a fetch reports\<close>

record envelope =
  en_rfc :: "string option"
  en_in_reply_to :: "string option"
  en_references :: "string list"
  en_subject :: "string option"

record fetched_message =
  fm_remote :: remote_id
  fm_uid :: nat
  fm_validity :: nat
  fm_mod_seq :: "nat option"
  fm_flags :: flag_set
  fm_internal_date :: int
  fm_size :: nat
  fm_envelope :: "envelope option"
  fm_attachments :: bool  \<comment> \<open>whether the structure names one\<close>

definition into_message :: "account_id \<Rightarrow> mailbox_id \<Rightarrow> fetched_message \<Rightarrow> stored_message" where
  "into_message account box f =
     \<lparr>cm_id = 0, cm_account = account, cm_mailbox = box, cm_thread = None,
      cm_rfc = (case fm_envelope f of Some e \<Rightarrow> en_rfc e | None \<Rightarrow> None),
      cm_in_reply_to = (case fm_envelope f of Some e \<Rightarrow> en_in_reply_to e | None \<Rightarrow> None),
      cm_references = (case fm_envelope f of Some e \<Rightarrow> en_references e | None \<Rightarrow> []),
      cm_subject = (case fm_envelope f of Some e \<Rightarrow> en_subject e | None \<Rightarrow> None),
      cm_received_at = fm_internal_date f, cm_sort_at = fm_internal_date f,
      cm_seen = fs_is_seen (fm_flags f), cm_flagged = fs_is_flagged (fm_flags f),
      cm_has_attachments = fm_attachments f, cm_deleted_locally = False, cm_snoozed_until = None,
      sm_uid = Some (fm_uid f), sm_validity = Some (fm_validity f), sm_mod_seq = fm_mod_seq f,
      sm_remote = Some (fm_remote f), sm_size = fm_size f, sm_flags = fs_persistable (fm_flags f),
      sm_labels = [], sm_body = (case fm_envelope f of Some _ \<Rightarrow> HeadersOnly | None \<Rightarrow> NotFetched),
      sm_flags_dirty = False, sm_has_pending = False\<rparr>"


subsection \<open>What the store keeps from a batch\<close>

text \<open>\<open>own_draft_copies\<close>: the uploaded drafts of the account, in its Drafts mailbox.\<close>

definition is_own_draft :: "sync_store \<Rightarrow> mailbox_id \<Rightarrow> remote_id \<Rightarrow> bool" where
  "is_own_draft s box r \<longleftrightarrow>
     list_ex (\<lambda>d. sd_remote d = Some r
        \<and> list_ex (\<lambda>b. mb_id b = box \<and> mb_account b = sd_account d \<and> mb_role b = Drafts) (st_mailboxes s))
       (st_drafts s)"

definition refused_rows_in :: "sync_store \<Rightarrow> mailbox_id \<Rightarrow> nat" where
  "refused_rows_in s box =
     (\<Sum>d\<leftarrow>st_drafts s. if sd_remote d \<noteq> None
        then length (filter (\<lambda>b. mb_id b = box \<and> mb_account b = sd_account d \<and> mb_role b = Drafts) (st_mailboxes s))
        else 0)"

text \<open>\<open>shadowed_by_pending_operation\<close>: moved or deleted out of the mailbox, the server not told yet.\<close>

definition is_shadowed :: "sync_store \<Rightarrow> mailbox_id \<Rightarrow> remote_id \<Rightarrow> bool" where
  "is_shadowed s box r \<longleftrightarrow>
     list_ex (\<lambda>q. unsettled q \<and> (op_type (q_operation q) = ''move'' \<or> op_type (q_operation q) = ''delete'')
        \<and> q_mailbox q = Some box \<and> q_source_remote q = Some r) (st_queue s)"

definition kept_from_batch :: "(mailbox_id \<Rightarrow> remote_id \<Rightarrow> bool) \<Rightarrow> stored_message \<Rightarrow> bool" where
  "kept_from_batch refused m \<longleftrightarrow> (case sm_remote m of Some r \<Rightarrow> \<not> refused (cm_mailbox m) r | None \<Rightarrow> True)"

definition unsettled_in :: "sync_store \<Rightarrow> mailbox_id \<Rightarrow> bool" where
  "unsettled_in s box = has_unsettled_in \<lparr>o_queue = st_queue s, o_next = 0, o_messages = []\<rparr> box"


subsection \<open>Local intent the server has not heard\<close>

definition unacknowledged_change :: "queued_operation \<Rightarrow> (bool \<times> flag_set) option" where
  "unacknowledged_change q =
     (case q_operation q of SetFlags f \<Rightarrow> Some (True, f) | ClearFlags f \<Rightarrow> Some (False, f) | _ \<Rightarrow> None)"

definition unacknowledged :: "sync_store \<Rightarrow> message_id \<Rightarrow> (bool \<times> flag_set) list" where
  "unacknowledged s i =
     List.map_filter unacknowledged_change (filter (\<lambda>q. unsettled q \<and> q_target q = Message i) (st_queue s))"

definition replay_change :: "flag_set \<Rightarrow> bool \<times> flag_set \<Rightarrow> flag_set" where
  "replay_change flags c =
     foldl (\<lambda>fs f. if fst c then fst (fs_insert fs f) else fst (fs_remove fs f)) flags (fs_iter (snd c))"

definition with_unacknowledged :: "flag_set \<Rightarrow> (bool \<times> flag_set) list \<Rightarrow> flag_set" where
  "with_unacknowledged server changes = foldl replay_change server changes"


subsection \<open>Finding a row\<close>

definition find_row :: "(stored_message \<Rightarrow> bool) \<Rightarrow> sync_store \<Rightarrow> message_id option" where
  "find_row P s = map_option cm_id (find P (st_messages s))"

definition find_by_remote_id :: "sync_store \<Rightarrow> mailbox_id \<Rightarrow> remote_id \<Rightarrow> message_id option" where
  "find_by_remote_id s box r = find_row (\<lambda>m. cm_mailbox m = box \<and> sm_remote m = Some r) s"

definition find_by_generation_uid :: "sync_store \<Rightarrow> mailbox_id \<Rightarrow> nat \<Rightarrow> nat \<Rightarrow> message_id option" where
  "find_by_generation_uid s box g u =
     find_row (\<lambda>m. cm_mailbox m = box \<and> sm_validity m = Some g \<and> sm_uid m = Some u) s"

definition find_awaiting_identity :: "sync_store \<Rightarrow> account_id \<Rightarrow> mailbox_id \<Rightarrow> string \<Rightarrow> message_id option" where
  "find_awaiting_identity s account box rfc =
     find_row (\<lambda>m. cm_account m = account \<and> cm_rfc m = Some (folded rfc) \<and> cm_mailbox m = box
        \<and> sm_remote m = None \<and> sm_uid m = None \<and> \<not> cm_deleted_locally m) s"

definition find_awaiting_headerless :: "sync_store \<Rightarrow> account_id \<Rightarrow> mailbox_id \<Rightarrow> int \<Rightarrow> nat \<Rightarrow> message_id option" where
  "find_awaiting_headerless s account box received sz =
     find_row (\<lambda>m. cm_account m = account \<and> cm_received_at m = received \<and> cm_mailbox m = box
        \<and> sm_size m = sz \<and> cm_rfc m = None \<and> sm_remote m = None \<and> sm_uid m = None
        \<and> \<not> cm_deleted_locally m \<and> \<not> list_ex (\<lambda>d. sd_message d = Some (cm_id m)) (st_drafts s)) s"

definition existing_row :: "sync_store \<Rightarrow> stored_message \<Rightarrow> message_id option" where
  "existing_row s m =
     (let by_identity = (case sm_remote m of Some r \<Rightarrow> find_by_remote_id s (cm_mailbox m) r | None \<Rightarrow> None);
          existing = (case by_identity of
              Some i \<Rightarrow> Some i
            | None \<Rightarrow> (case (sm_uid m, sm_validity m) of
                (Some u, Some g) \<Rightarrow> find_by_generation_uid s (cm_mailbox m) g u
              | _ \<Rightarrow> None))
      in case (existing, cm_rfc m) of
           (None, Some rfc) \<Rightarrow> find_awaiting_identity s (cm_account m) (cm_mailbox m) rfc
         | (None, None) \<Rightarrow> find_awaiting_headerless s (cm_account m) (cm_mailbox m) (cm_received_at m) (sm_size m)
         | (Some i, _) \<Rightarrow> Some i)"


subsection \<open>Writing a row\<close>

definition row_values :: "stored_message \<Rightarrow> stored_message" where
  "row_values m =
     (let flags = fs_persistable (sm_flags m) in
      m\<lparr>cm_rfc := (if sm_remote m = None \<and> sm_uid m = None then map_option folded (cm_rfc m) else cm_rfc m),
        cm_seen := fs_is_seen flags, cm_flagged := fs_is_flagged flags, sm_flags := flags\<rparr>)"

text \<open>A header refresh of a row whose body is here keeps the body and its parts.\<close>

definition keep_fetched_content :: "sync_store \<Rightarrow> stored_message \<Rightarrow> stored_message" where
  "keep_fetched_content s m =
     (if sm_body m \<noteq> HeadersOnly then m
      else case find (\<lambda>r. cm_id r = cm_id m) (st_messages s) of
          None \<Rightarrow> m
        | Some r \<Rightarrow>
            if sm_body r = HeadersOnly then m
            else m\<lparr>sm_body := sm_body r, cm_has_attachments := cm_has_attachments r\<rparr>)"

definition written_over :: "stored_message \<Rightarrow> stored_message \<Rightarrow> stored_message" where
  "written_over m r =
     (row_values m)\<lparr>cm_sort_at := max (cm_sort_at r) (cm_received_at m), cm_snoozed_until := cm_snoozed_until r\<rparr>"

definition write_update :: "sync_store \<Rightarrow> stored_message \<Rightarrow> sync_store \<times> stored_message" where
  "write_update s m =
     (let m = keep_fetched_content s m in
      (s\<lparr>st_messages := map (\<lambda>r. if cm_id r = cm_id m then written_over m r else r) (st_messages s)\<rparr>, m))"

definition insert_message :: "sync_store \<Rightarrow> stored_message \<Rightarrow> sync_store \<times> stored_message" where
  "insert_message s m =
     (let m = m\<lparr>cm_id := st_next s\<rparr> in
      (s\<lparr>st_messages := st_messages s @
           [(row_values m)\<lparr>cm_sort_at := cm_received_at m, cm_snoozed_until := None\<rparr>],
         st_next := st_next s + 1\<rparr>, m))"


subsection \<open>\<open>upsert_batch\<close>\<close>

record upsert_report =
  up_inserted_ids :: "message_id list"
  up_inserted :: nat
  up_updated :: nat
  up_flags_preserved :: nat
  up_labels_preserved :: nat
  up_own_drafts :: nat
  up_shadowed :: nat

definition no_upserts :: upsert_report where
  "no_upserts = \<lparr>up_inserted_ids = [], up_inserted = 0, up_updated = 0, up_flags_preserved = 0,
     up_labels_preserved = 0, up_own_drafts = 0, up_shadowed = 0\<rparr>"

definition stored_labels :: "sync_store \<Rightarrow> message_id \<Rightarrow> int list" where
  "stored_labels s i = (case find (\<lambda>r. cm_id r = i) (st_messages s) of Some r \<Rightarrow> sort (sm_labels r) | None \<Rightarrow> [])"

definition merged_message :: "(message_id \<Rightarrow> (bool \<times> flag_set) list) \<Rightarrow> sync_store \<Rightarrow> message_id
    \<Rightarrow> stored_message \<Rightarrow> stored_message" where
  "merged_message changes s i m =
     m\<lparr>cm_id := i,
       sm_flags := (if changes i = [] then sm_flags m else with_unacknowledged (sm_flags m) (changes i)),
       sm_labels := (if sm_labels m = [] then stored_labels s i else sm_labels m)\<rparr>"

definition upsert_one :: "(message_id \<Rightarrow> (bool \<times> flag_set) list)
    \<Rightarrow> sync_store \<times> upsert_report \<Rightarrow> stored_message \<Rightarrow> (sync_store \<times> upsert_report) \<times> stored_message" where
  "upsert_one changes sr m =
     (let (s, rep) = sr in
      case existing_row s m of
        Some i \<Rightarrow>
          (let merged = merged_message changes s i m;
               (s', m') = write_update s merged
           in ((s', rep\<lparr>up_updated := up_updated rep + 1,
                  up_flags_preserved := up_flags_preserved rep + (if changes i = [] then 0 else 1),
                  up_labels_preserved := up_labels_preserved rep
                    + (if sm_labels m = [] \<and> sm_labels merged \<noteq> [] then 1 else 0)\<rparr>), m'))
      | None \<Rightarrow>
          (let (s', m') = insert_message s m
           in ((s', rep\<lparr>up_inserted := up_inserted rep + 1,
                  up_inserted_ids := up_inserted_ids rep @ [cm_id m']\<rparr>), m')))"

fun upsert_each :: "(message_id \<Rightarrow> (bool \<times> flag_set) list)
    \<Rightarrow> sync_store \<times> upsert_report \<Rightarrow> stored_message list \<Rightarrow> (sync_store \<times> upsert_report) \<times> stored_message list" where
  "upsert_each changes sr [] = (sr, [])"
| "upsert_each changes sr (m # ms) =
     (let (sr, m) = upsert_one changes sr m; (sr, ms) = upsert_each changes sr ms in (sr, m # ms))"

definition upsert_batch :: "sync_store \<Rightarrow> stored_message list \<Rightarrow> (sync_store \<times> upsert_report) \<times> stored_message list" where
  "upsert_batch s batch =
     (let mine = filter (kept_from_batch (is_own_draft s)) batch;
          kept = filter (kept_from_batch (is_shadowed s)) mine
      in upsert_each (unacknowledged s)
           (s, no_upserts\<lparr>up_own_drafts := length batch - length mine,
                          up_shadowed := length mine - length kept\<rparr>) kept)"


subsection \<open>Reading a mailbox under a generation\<close>

definition held_under :: "mailbox_id \<Rightarrow> nat \<Rightarrow> stored_message \<Rightarrow> bool" where
  "held_under box g m \<longleftrightarrow> cm_mailbox m = box \<and> sm_validity m = Some g \<and> sm_uid m \<noteq> None"

definition uids_in :: "sync_store \<Rightarrow> mailbox_id \<Rightarrow> nat \<Rightarrow> nat list" where
  "uids_in s box g = sort (map (the \<circ> sm_uid) (filter (held_under box g) (st_messages s)))"

definition count_in :: "sync_store \<Rightarrow> mailbox_id \<Rightarrow> nat \<Rightarrow> nat" where
  "count_in s box g = length (filter (held_under box g) (st_messages s))"

definition flags_in :: "sync_store \<Rightarrow> mailbox_id \<Rightarrow> nat \<Rightarrow> (message_id \<times> nat \<times> flag_set) list" where
  "flags_in s box g =
     sort_key (\<lambda>(_, u, _). u) (map (\<lambda>m. (cm_id m, the (sm_uid m), sm_flags m)) (filter (held_under box g) (st_messages s)))"

fun chunks_of :: "nat \<Rightarrow> 'a list \<Rightarrow> 'a list list" where
  "chunks_of n xs = (if xs = [] \<or> n = 0 then [] else take n xs # chunks_of n (drop n xs))"

declare chunks_of.simps [simp del]

definition ID_LOOKUP_CHUNK :: nat where "ID_LOOKUP_CHUNK = 500"

definition ids_by_uid :: "sync_store \<Rightarrow> mailbox_id \<Rightarrow> nat \<Rightarrow> nat list \<Rightarrow> message_id list" where
  "ids_by_uid s box g us =
     concat (map (\<lambda>chunk. map cm_id (filter (\<lambda>m. cm_mailbox m = box \<and> sm_validity m = Some g
          \<and> (case sm_uid m of Some u \<Rightarrow> u \<in> set chunk | None \<Rightarrow> False)) (st_messages s)))
        (chunks_of ID_LOOKUP_CHUNK us))"

text \<open>\<open>DELETE\<close>; a draft that named the row forgets it (\<open>ON DELETE SET NULL\<close>).\<close>

definition delete_chunk :: "message_id list \<Rightarrow> sync_store \<Rightarrow> sync_store" where
  "delete_chunk ids s =
     s\<lparr>st_messages := filter (\<lambda>m. cm_id m \<notin> set ids) (st_messages s),
       st_drafts := map (\<lambda>d. case sd_message d of
           Some i \<Rightarrow> if i \<in> set ids then d\<lparr>sd_message := None\<rparr> else d
         | None \<Rightarrow> d) (st_drafts s)\<rparr>"

definition delete_rows :: "message_id list \<Rightarrow> sync_store \<Rightarrow> sync_store \<times> nat" where
  "delete_rows ids s =
     foldl (\<lambda>(s, n) chunk. (delete_chunk chunk s, n + length (filter (\<lambda>m. cm_id m \<in> set chunk) (st_messages s))))
       (s, 0) (chunks_of ID_LOOKUP_CHUNK ids)"


subsection \<open>The flags a sweep writes\<close>

definition set_server_flags :: "message_id \<Rightarrow> flag_set \<Rightarrow> sync_store \<Rightarrow> sync_store" where
  "set_server_flags i flags s =
     (let flags = fs_persistable flags in
      s\<lparr>st_messages := map (\<lambda>r. if cm_id r = i
          then r\<lparr>sm_flags := flags, cm_seen := fs_is_seen flags, cm_flagged := fs_is_flagged flags, sm_flags_dirty := False\<rparr>
          else r) (st_messages s)\<rparr>)"

definition merged_server_flags :: "(message_id \<Rightarrow> (bool \<times> flag_set) list) \<Rightarrow> message_id \<Rightarrow> flag_set \<Rightarrow> flag_set" where
  "merged_server_flags changes i server =
     fs_persistable (if changes i = [] then server else with_unacknowledged server (changes i))"

definition apply_one_flags :: "(message_id \<Rightarrow> (bool \<times> flag_set) list)
    \<Rightarrow> sync_store \<times> message_id list \<Rightarrow> message_id \<times> flag_set \<Rightarrow> sync_store \<times> message_id list" where
  "apply_one_flags changes sc u =
     (let (s, changed) = sc; (i, server) = u; merged = merged_server_flags changes i server in
      case find (\<lambda>r. cm_id r = i) (st_messages s) of
        None \<Rightarrow> (s, changed)
      | Some r \<Rightarrow>
          if fs_eq (fs_persistable (sm_flags r)) merged then (s, changed)
          else (set_server_flags i merged s, changed @ [i]))"

definition apply_server_flags :: "sync_store \<Rightarrow> (message_id \<times> flag_set) list \<Rightarrow> sync_store \<times> message_id list" where
  "apply_server_flags s updates = foldl (apply_one_flags (unacknowledged s)) (s, []) updates"


subsection \<open>The synchronization state\<close>

definition get_sync :: "sync_store \<Rightarrow> mailbox_id \<Rightarrow> sync_state option" where
  "get_sync s box = find (\<lambda>x. ss_mailbox_id x = box) (st_sync s)"

definition require_sync :: "mailbox_id \<Rightarrow> sync_store \<Rightarrow> storage_error + sync_state" where
  "require_sync box s = (case get_sync s box of Some x \<Rightarrow> Inr x | None \<Rightarrow> Inl (NotFound ''mailbox'' box))"

definition save_sync :: "sync_state \<Rightarrow> sync_store \<Rightarrow> storage_error + sync_store" where
  "save_sync x s =
     (case require_persisted (ss_mailbox_id x) ''mailbox'' of
        Inl e \<Rightarrow> Inl e
      | Inr box \<Rightarrow>
          (case require_persisted (ss_account_id x) ''account'' of
             Inl e \<Rightarrow> Inl e
           | Inr _ \<Rightarrow>
               Inr (s\<lparr>st_sync := (if get_sync s box = None then st_sync s @ [x]
                       else map (\<lambda>y. if ss_mailbox_id y = box then x else y) (st_sync s))\<rparr>)))"

definition mutate_sync :: "mailbox_id \<Rightarrow> (sync_state \<Rightarrow> sync_state) \<Rightarrow> sync_store \<Rightarrow> storage_error + sync_store" where
  "mutate_sync box change s =
     (case require_sync box s of Inl e \<Rightarrow> Inl e | Inr x \<Rightarrow> save_sync (change x) s)"


subsection \<open>Threading over these rows\<close>

definition conv_view :: "sync_store \<Rightarrow> conv_store" where
  "conv_view s =
     \<lparr>cs_messages = map conv_message.truncate (st_messages s),
      cs_drafts = map (\<lambda>d. (sd_id d, sd_thread d)) (st_drafts s),
      cs_threads = st_threads s, cs_links = st_links s, cs_next = st_next_thread s, cs_now = st_now s\<rparr>"

definition thread_in :: "conv_store \<Rightarrow> message_id \<Rightarrow> thread_id option" where
  "thread_in c i = (case get_message c i of Some m \<Rightarrow> cm_thread m | None \<Rightarrow> None)"

definition conv_put :: "sync_store \<Rightarrow> conv_store \<Rightarrow> sync_store" where
  "conv_put s c =
     s\<lparr>st_messages := map (\<lambda>m. m\<lparr>cm_thread := thread_in c (cm_id m)\<rparr>) (st_messages s),
       st_drafts := map (\<lambda>d. d\<lparr>sd_thread := (case map_of (cs_drafts c) (sd_id d) of Some t \<Rightarrow> t | None \<Rightarrow> None)\<rparr>) (st_drafts s),
       st_threads := cs_threads c, st_links := cs_links c, st_next_thread := cs_next c\<rparr>"

definition thread_row_of :: "(string \<Rightarrow> string) \<Rightarrow> account_id \<Rightarrow> stored_message \<Rightarrow> sync_store
    \<Rightarrow> storage_error + (sync_store \<times> thread_id)" where
  "thread_row_of lower account m s =
     (case thread_message lower account (conv_message.truncate m) (conv_view s) of
        Inl e \<Rightarrow> Inl e
      | Inr (c, r) \<Rightarrow> Inr (conv_put s c, td_thread r))"

fun thread_each :: "(string \<Rightarrow> string) \<Rightarrow> account_id \<Rightarrow> stored_message list \<Rightarrow> sync_store
    \<Rightarrow> storage_error + (sync_store \<times> thread_id list)" where
  "thread_each lower account [] s = Inr (s, [])"
| "thread_each lower account (m # ms) s =
     (case thread_row_of lower account m s of
        Inl e \<Rightarrow> Inl e
      | Inr (s, t) \<Rightarrow>
          (case thread_each lower account ms s of
             Inl e \<Rightarrow> Inl e
           | Inr (s, ts) \<Rightarrow> Inr (s, t # ts)))"

end
