(* ===== verification/Initial_Sync.thy ===== *)
theory Initial_Sync
  imports Mail_Rows Uid_Chunks Backend
begin

section \<open>Enumerating a mailbox\<close>

text \<open>
  \<open>crates/postio-sync/src/initial.rs\<close>, with \<open>file_arrivals\<close> of
  \<open>crates/postio-sync/src/filing/mod.rs\<close>: a mailbox read newest first, in batches the
  network is asked for and units the store is written in.

  A pass runs over a world of two halves: the environment \<open>'s\<close>, which is the server and
  everything else a pass only asks (the clock, the cancel token, the cost of the last write
  unit), and the store.  Each call of the backend may change the environment in any way, so
  the server may move, fail or be cancelled between any two calls; the store is written by the
  pass alone.  A write unit is a transaction: a failed one leaves the store as it was.  The
  trait \<open>MailBackend\<close> is the parameter \<open>sync_backend\<close>, the filing pass of a host in
  Focus mode the parameter \<open>filing\<close>.  Progress reports are not modelled.
\<close>

subsection \<open>Passes\<close>

datatype pass_error = StorageFailed storage_error | BackendFailed backend_error

type_synonym ('s, 'a) pass = "'s \<times> sync_store \<Rightarrow> ('s \<times> sync_store) \<times> (pass_error + 'a)"

definition returnP :: "'a \<Rightarrow> ('s, 'a) pass" where
  "returnP x w = (w, Inr x)"

definition throwP :: "pass_error \<Rightarrow> ('s, 'a) pass" where
  "throwP e w = (w, Inl e)"

definition bindP :: "('s, 'a) pass \<Rightarrow> ('a \<Rightarrow> ('s, 'b) pass) \<Rightarrow> ('s, 'b) pass" where
  "bindP p f w = (case p w of (w, Inl e) \<Rightarrow> (w, Inl e) | (w, Inr x) \<Rightarrow> f x w)"

definition ask :: "('s \<Rightarrow> 's \<times> (backend_error + 'a)) \<Rightarrow> ('s, 'a) pass" where
  "ask f w =
     (case f (fst w) of
        (e, Inl err) \<Rightarrow> ((e, snd w), Inl (BackendFailed err))
      | (e, Inr x) \<Rightarrow> ((e, snd w), Inr x))"

definition query :: "('s \<Rightarrow> sync_store \<Rightarrow> 'a) \<Rightarrow> ('s, 'a) pass" where
  "query f w = (w, Inr (f (fst w) (snd w)))"

definition atomically :: "(sync_store \<Rightarrow> storage_error + (sync_store \<times> 'a)) \<Rightarrow> ('s, 'a) pass" where
  "atomically f w =
     (case f (snd w) of
        Inl err \<Rightarrow> (w, Inl (StorageFailed err))
      | Inr (s, x) \<Rightarrow> ((fst w, s), Inr x))"

lemmas pass_defs = returnP_def throwP_def bindP_def ask_def query_def atomically_def


subsection \<open>The backend\<close>

record select_status =
  sst_generation :: nat
  sst_uid_next :: nat
  sst_exists :: nat
  sst_highest_mod_seq :: "nat option"

record 's sync_backend =
  sb_select :: "'s \<Rightarrow> 's \<times> (backend_error + select_status)"
  sb_fetch_headers :: "ranges \<Rightarrow> nat option \<Rightarrow> 's \<Rightarrow> 's \<times> (backend_error + fetched_message list)"
  sb_fetch_for_filing :: "ranges \<Rightarrow> nat option \<Rightarrow> 's \<Rightarrow> 's \<times> (backend_error + fetched_message list)"
  sb_existing_uids :: "'s \<Rightarrow> 's \<times> (backend_error + nat list option)"
  sb_fetch_flags :: "'s \<Rightarrow> 's \<times> (backend_error + (nat \<times> flag_set) list option)"
  sb_change_feed :: change_feed
  sb_cancelled :: "'s \<Rightarrow> bool"
  sb_clock :: "'s \<Rightarrow> int"
  sb_unit_quotient :: "'s \<Rightarrow> nat option"
  sb_yield :: "'s \<Rightarrow> 's"

text \<open>
  The size of a write unit: the rows the time budget affords at the cost the last unit
  measured, a floating-point quotient truncated; \<open>None\<close> is a cost of nothing.
\<close>

definition WRITE_UNIT :: nat where "WRITE_UNIT = 25"

definition next_unit_rows :: "nat option \<Rightarrow> nat" where
  "next_unit_rows affords = (case affords of None \<Rightarrow> WRITE_UNIT | Some q \<Rightarrow> min (max q 1) WRITE_UNIT)"

definition unit_rows :: "'s sync_backend \<Rightarrow> 's \<Rightarrow> nat" where
  "unit_rows B e = next_unit_rows (sb_unit_quotient B e)"

lemma unit_rows_bounds: "1 \<le> unit_rows B e" "unit_rows B e \<le> WRITE_UNIT"
  by (auto simp: unit_rows_def next_unit_rows_def WRITE_UNIT_def split: option.splits)

definition yield_once :: "'s sync_backend \<Rightarrow> ('s, unit) pass" where
  "yield_once B w = ((sb_yield B (fst w), snd w), Inr ())"

definition sync_op :: "mailbox_id \<Rightarrow> (sync_state \<Rightarrow> sync_state) \<Rightarrow> ('s, unit) pass" where
  "sync_op box f = atomically (\<lambda>s. case mutate_sync box f s of Inl e \<Rightarrow> Inl e | Inr s \<Rightarrow> Inr (s, ()))"

definition to_model_status :: "select_status \<Rightarrow> mailbox_status" where
  "to_model_status sel =
     (let st = with_uid_next (status_new (sst_generation sel)) (sst_uid_next sel) in
      case sst_highest_mod_seq sel of Some m \<Rightarrow> with_highest_mod_seq st m | None \<Rightarrow> st)"


subsection \<open>Filing what arrived\<close>

record filing_effects =
  fe_filtered :: "message_id list"
  fe_held :: "message_id list"

type_synonym filing_pass =
  "sync_store \<Rightarrow> (stored_message \<times> thread_id) list \<Rightarrow> pass_error + (sync_store \<times> filing_effects)"

definition no_effects :: filing_effects where
  "no_effects = \<lparr>fe_filtered = [], fe_held = []\<rparr>"

definition file_arrivals :: "filing_pass \<Rightarrow> (stored_message \<times> thread_id) list \<Rightarrow> sync_store \<Rightarrow> sync_store \<times> filing_effects" where
  "file_arrivals filing filed s = (case filing s filed of Inl _ \<Rightarrow> (s, no_effects) | Inr r \<Rightarrow> r)"

definition file_new :: "filing_pass option \<Rightarrow> message_id list \<Rightarrow> stored_message list \<Rightarrow> thread_id list
    \<Rightarrow> sync_store \<Rightarrow> sync_store \<times> filing_effects" where
  "file_new filing arrivals written threads s =
     (case filing of
        Some f \<Rightarrow>
          if arrivals = [] then (s, no_effects)
          else file_arrivals f (filter (\<lambda>(m, _). cm_id m \<in> set arrivals) (zip written threads)) s
      | None \<Rightarrow> (s, no_effects))"


subsection \<open>Writing a batch\<close>

record sync_report =
  rp_inserted :: nat
  rp_arrived :: "message_id list"
  rp_filed_away :: "message_id list"
  rp_updated :: nat
  rp_threaded :: nat

definition no_report :: sync_report where
  "no_report = \<lparr>rp_inserted = 0, rp_arrived = [], rp_filed_away = [], rp_updated = 0, rp_threaded = 0\<rparr>"

definition write_unit_rows :: "(string \<Rightarrow> string) \<Rightarrow> mailbox_row \<Rightarrow> filing_pass option \<Rightarrow> stored_message list
    \<Rightarrow> sync_store \<Rightarrow> storage_error + (sync_store \<times> (upsert_report \<times> stored_message list \<times> filing_effects))" where
  "write_unit_rows lower box filing ms s =
     (let ((s, up), written) = upsert_batch s ms in
      case thread_each lower (mb_account box) written s of
        Inl e \<Rightarrow> Inl e
      | Inr (s, threads) \<Rightarrow>
          (let (s, effects) = file_new filing (up_inserted_ids up) written threads s
           in Inr (s, (up, written, effects))))"

definition add_unit :: "sync_report \<Rightarrow> upsert_report \<Rightarrow> stored_message list \<Rightarrow> filing_effects \<Rightarrow> sync_report" where
  "add_unit rep up written effects =
     rep\<lparr>rp_inserted := rp_inserted rep + up_inserted up,
         rp_arrived := rp_arrived rep @ up_inserted_ids up,
         rp_filed_away := rp_filed_away rep @ fe_filtered effects @ fe_held effects,
         rp_updated := rp_updated rep + up_updated up,
         rp_threaded := rp_threaded rep + length written\<rparr>"

fun copy_back :: "stored_message list \<Rightarrow> stored_message list \<Rightarrow> stored_message list" where
  "copy_back [] written = []"
| "copy_back (slot # slots) [] = slot # slots"
| "copy_back (slot # slots) (candidate # written) =
     (if sm_remote candidate = sm_remote slot then candidate # copy_back slots written
      else slot # copy_back slots (candidate # written))"

function write_batch :: "'s sync_backend \<Rightarrow> (string \<Rightarrow> string) \<Rightarrow> mailbox_row \<Rightarrow> filing_pass option
    \<Rightarrow> stored_message list \<Rightarrow> sync_report \<Rightarrow> ('s, sync_report \<times> stored_message list) pass" where
  "write_batch B lower box filing rest rep w =
     (if rest = [] then (w, Inr (rep, []))
      else
        (let n = min (unit_rows B (fst w)) (length rest) in
         case atomically (write_unit_rows lower box filing (take n rest)) w of
           (w, Inl e) \<Rightarrow> (w, Inl e)
         | (w, Inr (up, written, effects)) \<Rightarrow>
             (case write_batch B lower box filing (drop n rest) (add_unit rep up written effects)
                     (fst (yield_once B w)) of
                (w, Inl e) \<Rightarrow> (w, Inl e)
              | (w, Inr (rep, later)) \<Rightarrow> (w, Inr (rep, copy_back (take n rest) written @ later)))))"
  by pat_completeness auto
termination
proof (relation "measure (\<lambda>(B, lower, box, filing, rest, rep, w). length rest)")
  fix B :: "'s sync_backend" and rest :: "stored_message list" and w :: "'s \<times> sync_store" and n
  assume "rest \<noteq> []" and "n = min (unit_rows B (fst w)) (length rest)"
  then have "0 < n" using unit_rows_bounds(1) [of B "fst w"] by simp
  with \<open>rest \<noteq> []\<close> show "((B, lower, box, filing, drop n rest, rep', w'), B, lower, box, filing, rest, rep, w)
      \<in> measure (\<lambda>(B, lower, box, filing, rest, rep, w). length rest)"
    for lower :: "string \<Rightarrow> string" and box :: mailbox_row and filing :: "filing_pass option"
      and rep rep' :: sync_report and w' :: "'s \<times> sync_store"
    by simp
qed simp

declare write_batch.simps [simp del]

text \<open>\<open>unchanged\<close>: the row the store holds exactly as fetched, if it does.\<close>

definition unchanged_row :: "nat list \<Rightarrow> mailbox_id \<Rightarrow> sync_store \<Rightarrow> stored_message \<Rightarrow> stored_message option" where
  "unchanged_row known box s m =
     (case (sm_uid m, sm_validity m) of
        (Some u, Some g) \<Rightarrow>
          if u \<in> set known then
            (case find (\<lambda>r. cm_mailbox r = box \<and> sm_validity r = Some g \<and> sm_uid r = Some u) (st_messages s) of
               Some r \<Rightarrow>
                 if cm_thread r \<noteq> None \<and> sm_remote r = sm_remote m \<and> sm_mod_seq r = sm_mod_seq m
                   \<and> fs_eq (sm_flags r) (fs_persistable (sm_flags m))
                 then Some r else None
             | None \<Rightarrow> None)
          else None
      | _ \<Rightarrow> None)"

fun put_back :: "stored_message option list \<Rightarrow> stored_message list \<Rightarrow> stored_message list \<Rightarrow> stored_message list" where
  "put_back (Some r # skips) (m # ms) changed =
     m\<lparr>cm_id := cm_id r, cm_thread := cm_thread r\<rparr> # put_back skips ms changed"
| "put_back (None # skips) (m # ms) (c # changed) = c # put_back skips ms changed"
| "put_back _ ms _ = ms"

definition commit_batch :: "'s sync_backend \<Rightarrow> (string \<Rightarrow> string) \<Rightarrow> mailbox_row \<Rightarrow> nat list \<Rightarrow> filing_pass option
    \<Rightarrow> stored_message list \<Rightarrow> ('s, sync_report \<times> stored_message list) pass" where
  "commit_batch B lower box known filing ms =
     bindP (query (\<lambda>_ s. map (unchanged_row known (mb_id box) s) ms)) (\<lambda>skips.
       if list_all (\<lambda>x. x = None) skips then write_batch B lower box filing ms no_report
       else
         bindP (write_batch B lower box filing (map snd (filter (\<lambda>(x, _). x = None) (zip skips ms))) no_report)
           (\<lambda>(rep, changed). returnP (rep, put_back skips ms changed)))"


subsection \<open>The enumeration\<close>

definition DEFAULT_BATCH_SIZE :: nat where "DEFAULT_BATCH_SIZE = 200"

datatype coverage = Missing | Everything

text \<open>A refused or failed listing is \<open>None\<close>; a cancelled one ends the pass.\<close>

definition existing_uids :: "'s sync_backend \<Rightarrow> ('s, nat list option) pass" where
  "existing_uids B w =
     (case sb_existing_uids B (fst w) of
        (e, Inr uids) \<Rightarrow> ((e, snd w), Inr uids)
      | (e, Inl CancelledError) \<Rightarrow> ((e, snd w), Inl (BackendFailed CancelledError))
      | (e, Inl _) \<Rightarrow> ((e, snd w), Inr None))"

definition believed :: "nat \<Rightarrow> nat list option \<Rightarrow> nat list option" where
  "believed exists present =
     (case present of Some uids \<Rightarrow> if length uids < exists then None else Some uids | None \<Rightarrow> None)"

definition uids_to_fetch :: "coverage \<Rightarrow> nat list \<Rightarrow> nat \<Rightarrow> nat list option \<Rightarrow> nat list" where
  "uids_to_fetch cov known highest present =
     rev (sort (filter (\<lambda>u. cov = Everything \<or> u \<notin> set known)
       (case present of
          Some uids \<Rightarrow> filter (\<lambda>u. u \<le> highest) uids
        | None \<Rightarrow> [1..<Suc highest])))"

definition add_batch :: "coverage \<Rightarrow> sync_report \<Rightarrow> sync_report \<Rightarrow> sync_report" where
  "add_batch cov rep b =
     rep\<lparr>rp_inserted := rp_inserted rep + rp_inserted b,
         rp_updated := rp_updated rep + rp_updated b,
         rp_threaded := rp_threaded rep + rp_threaded b,
         rp_arrived := (if cov = Everything then rp_arrived rep @ rp_arrived b else rp_arrived rep),
         rp_filed_away := (if cov = Everything then rp_filed_away rep @ rp_filed_away b else rp_filed_away rep)\<rparr>"

text \<open>
  One batch ahead: the next fetch is sent before the batch in hand is written, its answer
  read, and its failure noticed, only by the iteration that consumes it.
\<close>

definition read_ahead :: "'s sync_backend \<Rightarrow> ranges list
    \<Rightarrow> ('s, (backend_error + fetched_message list) option) pass" where
  "read_ahead B later w =
     (case later of
        [] \<Rightarrow> (w, Inr None)
      | next_batch # _ \<Rightarrow>
          if sb_cancelled B (fst w) then (w, Inr None)
          else (case sb_fetch_headers B next_batch None (fst w) of (e, answer) \<Rightarrow> ((e, snd w), Inr (Some answer))))"

definition batch_answer :: "'s sync_backend \<Rightarrow> ranges \<Rightarrow> (backend_error + fetched_message list) option
    \<Rightarrow> ('s, fetched_message list) pass" where
  "batch_answer B batch ahead =
     (case ahead of
        Some (Inl e) \<Rightarrow> throwP (BackendFailed e)
      | Some (Inr ms) \<Rightarrow> returnP ms
      | None \<Rightarrow> ask (sb_fetch_headers B batch None))"

fun enumerate_batches :: "'s sync_backend \<Rightarrow> (string \<Rightarrow> string) \<Rightarrow> mailbox_row \<Rightarrow> coverage \<Rightarrow> filing_pass option
    \<Rightarrow> nat list \<Rightarrow> ranges list \<Rightarrow> (backend_error + fetched_message list) option \<Rightarrow> sync_report
    \<Rightarrow> ('s, sync_report) pass" where
  "enumerate_batches B lower box cov filing known [] ahead rep = returnP rep"
| "enumerate_batches B lower box cov filing known (batch # later) ahead rep =
     bindP (query (\<lambda>e _. sb_cancelled B e)) (\<lambda>cancelled.
       if cancelled then throwP (BackendFailed CancelledError)
       else
         bindP (batch_answer B batch ahead) (\<lambda>fetched.
         bindP (read_ahead B later) (\<lambda>ahead.
           let ms = map (into_message (mb_account box) (mb_id box)) (rev (sort_key fm_uid fetched)) in
           if ms = [] then enumerate_batches B lower box cov filing known later ahead rep
           else
             bindP (commit_batch B lower box known filing ms) (\<lambda>(b, _).
             bindP (yield_once B) (\<lambda>_.
               enumerate_batches B lower box cov filing known later ahead (add_batch cov rep b))))))"

text \<open>Never fatal.\<close>

definition rethread_pass :: "(string \<Rightarrow> string) \<Rightarrow> mailbox_row \<Rightarrow> ('s, unit) pass" where
  "rethread_pass lower box w =
     (case rethread_orphans lower (mb_account box) (mb_id box) (conv_view (snd w)) of
        Inl _ \<Rightarrow> (w, Inr ())
      | Inr (c, _) \<Rightarrow> ((fst w, conv_put (snd w) c), Inr ()))"

definition enumerate_mailbox :: "'s sync_backend \<Rightarrow> (string \<Rightarrow> string) \<Rightarrow> mailbox_row \<Rightarrow> nat \<Rightarrow> coverage
    \<Rightarrow> filing_pass option \<Rightarrow> ('s, sync_report) pass" where
  "enumerate_mailbox B lower box batch_size cov filing =
     bindP (ask (sb_select B)) (\<lambda>sel.
     bindP (query (\<lambda>e _. sb_clock B e)) (\<lambda>now.
     bindP (query (\<lambda>_ s. case get_sync s (mb_id box) of Some x \<Rightarrow> \<not> has_synced x | None \<Rightarrow> True)) (\<lambda>first_sync.
     bindP (sync_op (mb_id box) (\<lambda>x. sync_observe x (to_model_status sel) now)) (\<lambda>_.
     let highest = sst_uid_next sel - 1 in
     if highest < 1 then
       bindP (sync_op (mb_id box) (\<lambda>x. complete_full_sync x now)) (\<lambda>_. returnP no_report)
     else
       bindP (query (\<lambda>_ s. uids_in s (mb_id box) (sst_generation sel))) (\<lambda>known.
       bindP (existing_uids B) (\<lambda>present.
       let batches = map uset_from_iter (chunks_of (max batch_size 1)
             (uids_to_fetch cov known highest (believed (sst_exists sel) present))) in
       bindP (enumerate_batches B lower box cov filing known batches None no_report) (\<lambda>rep.
       bindP (sync_op (mb_id box) (\<lambda>x. complete_full_sync x now)) (\<lambda>_.
       bindP (if first_sync then rethread_pass lower box else returnP ()) (\<lambda>_.
         returnP rep)))))))))"

end
