(* ===== verification/Row_Facts.thy ===== *)
theory Row_Facts
  imports Initial_Sync Threading_Effects
begin

section \<open>What a write does to the rows of a mailbox\<close>

text \<open>
  The rows as a synchronization sees them: \<open>rows\<close> forgets which conversation a row is in,
  \<open>row_at\<close> is the row of a UID.  \<open>rows_ok\<close> is the invariant of a mailbox under one
  generation, and \<open>written\<close> is what writing a set of fetched messages does to it, the one
  relation every lemma on units, batches and passes is stated with: it holds of no messages
  when nothing happened, and composes.
\<close>

subsection \<open>Rows without their conversation\<close>

definition core :: "stored_message \<Rightarrow> stored_message" where
  "core m = m\<lparr>cm_thread := None\<rparr>"

lemma core_fields [simp]:
  "cm_id (core m) = cm_id m" "cm_account (core m) = cm_account m" "cm_mailbox (core m) = cm_mailbox m"
  "cm_rfc (core m) = cm_rfc m" "cm_received_at (core m) = cm_received_at m"
  "cm_deleted_locally (core m) = cm_deleted_locally m" "cm_thread (core m) = None"
  "sm_uid (core m) = sm_uid m" "sm_validity (core m) = sm_validity m" "sm_mod_seq (core m) = sm_mod_seq m"
  "sm_remote (core m) = sm_remote m" "sm_size (core m) = sm_size m" "sm_flags (core m) = sm_flags m"
  by (simp_all add: core_def)

lemma core_thread [simp]: "core (m\<lparr>cm_thread := t\<rparr>) = core m"
  by (simp add: core_def)

definition rows :: "sync_store \<Rightarrow> stored_message list" where
  "rows s = map core (st_messages s)"

definition row_at :: "sync_store \<Rightarrow> mailbox_id \<Rightarrow> nat \<Rightarrow> nat \<Rightarrow> stored_message option" where
  "row_at s box g u = find (\<lambda>r. cm_mailbox r = box \<and> sm_validity r = Some g \<and> sm_uid r = Some u) (rows s)"

text \<open>Rows and drafts as they were, whatever happened to the conversations.\<close>

definition same_but_threads :: "sync_store \<Rightarrow> sync_store \<Rightarrow> bool" where
  "same_but_threads s s' \<longleftrightarrow>
     rows s' = rows s \<and> st_next s' = st_next s \<and> st_queue s' = st_queue s \<and> st_mailboxes s' = st_mailboxes s
   \<and> st_accounts s' = st_accounts s \<and> st_sync s' = st_sync s
   \<and> map (\<lambda>d. d\<lparr>sd_thread := None\<rparr>) (st_drafts s') = map (\<lambda>d. d\<lparr>sd_thread := None\<rparr>) (st_drafts s)"

lemma same_but_threads_refl [simp]: "same_but_threads s s"
  by (simp add: same_but_threads_def)

lemma same_but_threads_trans: "same_but_threads s t \<Longrightarrow> same_but_threads t u \<Longrightarrow> same_but_threads s u"
  by (simp add: same_but_threads_def)

lemma conv_put_same: "same_but_threads s (conv_put s c)"
  by (simp add: same_but_threads_def conv_put_def rows_def comp_def)

lemma rows_ids: "map cm_id (rows s) = map cm_id (st_messages s)"
  by (simp add: rows_def comp_def)

lemma find_core: "(\<And>r. P (core r) = P r) \<Longrightarrow> find P (map core ms) = map_option core (find P ms)"
  by (induction ms) auto

lemma find_row_rows:
  assumes "\<And>r. P (core r) = P r"
  shows "find_row P s = map_option cm_id (find P (rows s))"
  using find_core [of P "st_messages s", OF assms] by (simp add: find_row_def rows_def option.map_comp comp_def)


subsection \<open>Threading never fails on a stored row\<close>

lemma conv_view_get: "get_message (conv_view s) i = map_option conv_message.truncate (find (\<lambda>m. cm_id m = i) (st_messages s))"
proof -
  have t: "cm_id (conv_message.truncate (m :: stored_message)) = cm_id m" for m
    by (cases m) (simp add: conv_message.truncate_def)
  show ?thesis unfolding get_message_def conv_view_def conv_store.simps
    by (induction "st_messages s") (auto simp: find_map_row t)
qed

lemma absorbs_base: "map base (cs_messages (fold (absorb_thread lower t) us s)) = map base (cs_messages s)"
  by (induction us arbitrary: s) simp_all

lemma start_keeps_rows:
  assumes "0 < a"
  obtains s' t created merged where "start_assignment lower a c x s = Inr (s', t, created, merged)"
    "map base (cs_messages s') = map base (cs_messages s)"
  using assms by (cases x) (auto simp: start_assignment_def create_thread_def require_persisted_def absorbs_base)

lemma thread_message_returns:
  assumes "0 < a" "get_message s (cm_id m) \<noteq> None"
  obtains s' r where "thread_message lower a m s = Inr (s', r)"
proof -
  obtain s1 t created merged where s1: "start_assignment lower a (cue_of lower m)
      (assignment_for s a (cue_of lower m) None) s = Inr (s1, t, created, merged)"
    "map base (cs_messages s1) = map base (cs_messages s)" by (rule start_keeps_rows [OF assms(1)])
  from get_message_base [OF s1(2), of "cm_id m"] assms(2) have "get_message s1 (cm_id m) \<noteq> None"
    by (cases "get_message s1 (cm_id m)") auto
  with s1(1) have "\<exists>s' r. thread_message lower a m s = Inr (s', r)"
    by (auto simp: thread_message_def Let_def apply_assignment_def add_message_def)
  with that show thesis by blast
qed

lemma truncate_id [simp]: "cm_id (conv_message.truncate (m :: stored_message)) = cm_id m"
  by (cases m) (simp add: conv_message.truncate_def)

lemma thread_each_effect: "thread_each lower a ms s = Inr (s', ts) \<Longrightarrow> same_but_threads s s'"
proof (induction ms arbitrary: s s' ts)
  case (Cons m ms)
  from Cons.prems obtain c r ts' where run: "thread_message lower a (conv_message.truncate m) (conv_view s) = Inr (c, r)"
    "thread_each lower a ms (conv_put s c) = Inr (s', ts')"
    by (auto simp: thread_row_of_def split: sum.splits prod.splits)
  from conv_put_same Cons.IH [OF run(2)] show ?case by (rule same_but_threads_trans)
qed simp

lemma thread_each_returns:
  assumes "0 < a" "\<forall>m\<in>set ms. cm_id m \<in> cm_id ` set (rows s)"
  obtains s' ts where "thread_each lower a ms s = Inr (s', ts)"
proof -
  have "\<exists>s' ts. thread_each lower a ms s = Inr (s', ts)" using assms(2)
  proof (induction ms arbitrary: s)
    case (Cons m ms)
    from Cons.prems have "find (\<lambda>x. cm_id x = cm_id m) (st_messages s) \<noteq> None"
      by (auto simp: rows_def find_None_iff)
    then have "get_message (conv_view s) (cm_id (conv_message.truncate m)) \<noteq> None" by (simp add: conv_view_get)
    then obtain c r where run: "thread_message lower a (conv_message.truncate m) (conv_view s) = Inr (c, r)"
      by (rule thread_message_returns [OF assms(1)])
    from conv_put_same [of s c] have "rows (conv_put s c) = rows s" by (simp add: same_but_threads_def)
    with Cons.IH [of "conv_put s c"] Cons.prems run show ?case by (auto simp: thread_row_of_def)
  qed simp
  with that show thesis by blast
qed


subsection \<open>The invariant of a mailbox under a generation\<close>

text \<open>
  A server names a message under one generation by its UID alone: \<open>rid\<close> is how, and
  distinct UIDs have distinct names.
\<close>

definition names :: "(nat \<Rightarrow> remote_id) \<Rightarrow> nat \<Rightarrow> nat \<Rightarrow> stored_message \<Rightarrow> bool" where
  "names rid g u r \<longleftrightarrow> sm_uid r = Some u \<and> sm_validity r = Some g \<and> sm_remote r = Some (rid u)"

definition unnamed :: "stored_message \<Rightarrow> bool" where
  "unnamed r \<longleftrightarrow> sm_uid r = None \<and> sm_remote r = None"

definition foreign :: "(nat \<Rightarrow> remote_id) \<Rightarrow> nat \<Rightarrow> stored_message \<Rightarrow> bool" where
  "foreign rid g r \<longleftrightarrow> sm_validity r \<noteq> Some g \<and> sm_remote r \<notin> range (\<lambda>u. Some (rid u))"

definition row_ok :: "(nat \<Rightarrow> remote_id) \<Rightarrow> nat \<Rightarrow> stored_message \<Rightarrow> bool" where
  "row_ok rid g r \<longleftrightarrow> unnamed r \<or> (\<exists>u. names rid g u r) \<or> foreign rid g r"

definition rows_ok :: "(nat \<Rightarrow> remote_id) \<Rightarrow> mailbox_id \<Rightarrow> nat \<Rightarrow> sync_store \<Rightarrow> bool" where
  "rows_ok rid box g s \<longleftrightarrow>
     inj rid \<and> distinct (map cm_id (rows s)) \<and> (\<forall>r\<in>set (rows s). cm_id r < st_next s)
   \<and> (\<forall>q\<in>set (st_queue s). \<forall>i. q_target q = Message i \<longrightarrow> i < st_next s)
   \<and> (\<forall>r\<in>set (rows s). cm_mailbox r = box \<longrightarrow> row_ok rid g r)
   \<and> (\<forall>r\<in>set (rows s). \<forall>r'\<in>set (rows s). \<forall>u. cm_mailbox r = box \<longrightarrow> cm_mailbox r' = box
        \<longrightarrow> names rid g u r \<longrightarrow> names rid g u r' \<longrightarrow> r = r')"

definition fetched_ok :: "(nat \<Rightarrow> remote_id) \<Rightarrow> nat \<Rightarrow> fetched_message \<Rightarrow> bool" where
  "fetched_ok rid g f \<longleftrightarrow> fm_remote f = rid (fm_uid f) \<and> fm_validity f = g \<and> 1 \<le> fm_uid f"

lemma into_message_fields [simp]:
  "cm_mailbox (into_message a box f) = box" "cm_account (into_message a box f) = a"
  "sm_uid (into_message a box f) = Some (fm_uid f)" "sm_validity (into_message a box f) = Some (fm_validity f)"
  "sm_remote (into_message a box f) = Some (fm_remote f)" "sm_mod_seq (into_message a box f) = fm_mod_seq f"
  "sm_flags (into_message a box f) = fs_persistable (fm_flags f)" "cm_thread (into_message a box f) = None"
  by (simp_all add: into_message_def)

lemma row_ok_at:
  assumes "rows_ok rid box g s" "r \<in> set (rows s)" "cm_mailbox r = box"
  shows "sm_remote r = Some (rid u) \<longleftrightarrow> names rid g u r"
    and "sm_validity r = Some g \<and> sm_uid r = Some u \<longleftrightarrow> names rid g u r"
proof -
  have "inj rid" "row_ok rid g r" using assms by (simp_all add: rows_ok_def)
  then show "sm_remote r = Some (rid u) \<longleftrightarrow> names rid g u r"
    "sm_validity r = Some g \<and> sm_uid r = Some u \<longleftrightarrow> names rid g u r"
    by (auto simp: row_ok_def unnamed_def names_def foreign_def inj_def)
qed

lemma find_only:
  "\<forall>x\<in>set xs. \<forall>y\<in>set xs. P x \<longrightarrow> P y \<longrightarrow> x = y \<Longrightarrow> find P xs = Some r \<longleftrightarrow> r \<in> set xs \<and> P r"
  by (induction xs) auto

lemma row_at_names:
  assumes "rows_ok rid box g s"
  shows "row_at s box g u = Some r \<longleftrightarrow> r \<in> set (rows s) \<and> cm_mailbox r = box \<and> names rid g u r"
proof -
  have "(cm_mailbox r = box \<and> sm_validity r = Some g \<and> sm_uid r = Some u) \<longleftrightarrow> cm_mailbox r = box \<and> names rid g u r"
    if "r \<in> set (rows s)" for r using row_ok_at(2) [OF assms that] by auto
  then have "row_at s box g u = find (\<lambda>r. cm_mailbox r = box \<and> names rid g u r) (rows s)"
    unfolding row_at_def by (intro find_cong) auto
  moreover have "\<forall>x\<in>set (rows s). \<forall>y\<in>set (rows s). cm_mailbox x = box \<and> names rid g u x
      \<longrightarrow> cm_mailbox y = box \<and> names rid g u y \<longrightarrow> x = y" using assms by (auto simp: rows_ok_def)
  ultimately show ?thesis by (simp add: find_only)
qed

lemma by_remote_id:
  assumes "rows_ok rid box g s"
  shows "find_by_remote_id s box (rid u) = map_option cm_id (row_at s box g u)"
proof -
  have "find (\<lambda>m. cm_mailbox m = box \<and> sm_remote m = Some (rid u)) (rows s) = row_at s box g u"
    unfolding row_at_def
  proof (rule find_cong [OF refl])
    fix r assume "r \<in> set (rows s)"
    with assms show "(cm_mailbox r = box \<and> sm_remote r = Some (rid u)) =
        (cm_mailbox r = box \<and> sm_validity r = Some g \<and> sm_uid r = Some u)" using row_ok_at by blast
  qed
  then show ?thesis by (simp add: find_by_remote_id_def find_row_rows)
qed

text \<open>A fetched message finds the row of its UID, else a row the server has not named, else none.\<close>

lemma existing_row_cases:
  assumes ok: "rows_ok rid box g s" and f: "fetched_ok rid g f"
  shows "(case existing_row s (into_message a box f) of
      Some i \<Rightarrow> (\<exists>r\<in>set (rows s). cm_id r = i \<and> cm_mailbox r = box
         \<and> (row_at s box g (fm_uid f) = Some r \<or> row_at s box g (fm_uid f) = None \<and> unnamed r))
    | None \<Rightarrow> row_at s box g (fm_uid f) = None)"
proof (cases "row_at s box g (fm_uid f)")
  case (Some r)
  then have "existing_row s (into_message a box f) = Some (cm_id r)"
    using by_remote_id [OF ok, of "fm_uid f"] f by (simp add: existing_row_def Let_def fetched_ok_def)
  with Some row_at_names [OF ok] show ?thesis by auto
next
  case None
  have gu: "find_by_generation_uid s box g (fm_uid f) = None"
    using None by (simp add: find_by_generation_uid_def find_row_rows row_at_def)
  have aw: "\<exists>r\<in>set (rows s). cm_id r = i \<and> cm_mailbox r = box \<and> unnamed r"
    if "find_awaiting_identity s a box x = Some i" for i x
    using that by (auto simp: find_awaiting_identity_def find_row_rows find_Some_iff unnamed_def)
  have hl: "\<exists>r\<in>set (rows s). cm_id r = i \<and> cm_mailbox r = box \<and> unnamed r"
    if "find_awaiting_headerless s a box x n = Some i" for i x n
    using that by (auto simp: find_awaiting_headerless_def find_row_rows find_Some_iff unnamed_def)
  have "existing_row s (into_message a box f) =
      (case cm_rfc (into_message a box f) of
         Some x \<Rightarrow> find_awaiting_identity s a box x
       | None \<Rightarrow> find_awaiting_headerless s a box (cm_received_at (into_message a box f)) (sm_size (into_message a box f)))"
    using by_remote_id [OF ok, of "fm_uid f"] None gu f
    by (simp add: existing_row_def Let_def fetched_ok_def split: option.splits)
  with aw hl None show ?thesis by (auto split: option.splits)
qed


subsection \<open>Replacing and adding a row\<close>

lemma rows_ok_rows:
  assumes "rows s' = rows s" "st_next s \<le> st_next s'" "st_queue s' = st_queue s"
  shows "rows_ok rid box g s \<Longrightarrow> rows_ok rid box g s'"
  using assms by (fastforce simp: rows_ok_def)

lemma row_at_rows: "rows s' = rows s \<Longrightarrow> row_at s' box g u = row_at s box g u"
  by (simp add: row_at_def)

lemma same_some: "(\<And>r. x = Some r \<longleftrightarrow> y = Some r) \<Longrightarrow> x = y"
  by (cases y) (metis not_Some_eq option.distinct(1), blast)

lemma find_added: "find P (xs @ [x]) = (case find P xs of Some y \<Rightarrow> Some y | None \<Rightarrow> if P x then Some x else None)"
  by (induction xs) auto

lemma row_replaced:
  assumes ok: "rows_ok rid box g s" and r0: "r0 \<in> set (rows s)" "cm_mailbox r0 = box"
    and what: "row_at s box g u = Some r0 \<or> row_at s box g u = None \<and> unnamed r0"
    and s': "rows s' = map (\<lambda>r. if cm_id r = cm_id r0 then n else r) (rows s)" "st_next s' = st_next s" "st_queue s' = st_queue s"
    and n: "cm_id n = cm_id r0" "cm_mailbox n = box" "names rid g u n"
  shows "rows_ok rid box g s'" "row_at s' box g u = Some n" "u' \<noteq> u \<Longrightarrow> row_at s' box g u' = row_at s box g u'"
    "filter (\<lambda>r. cm_mailbox r \<noteq> box) (rows s') = filter (\<lambda>r. cm_mailbox r \<noteq> box) (rows s)"
proof -
  have dist: "distinct (map cm_id (rows s))" using ok by (simp add: rows_ok_def)
  have mem: "r \<in> set (rows s') \<longleftrightarrow> r = n \<or> r \<in> set (rows s) \<and> r \<noteq> r0" for r
    using r0(1) dist by (auto simp: s'(1) inj_on_def distinct_map)
  have other: "\<not> names rid g v r0" if "v \<noteq> u" for v
    using what that row_at_names [OF ok, of u r0] by (auto simp: names_def unnamed_def)
  have fresh: "r = r0" if "r \<in> set (rows s)" "cm_mailbox r = box" "names rid g u r" for r
    using what that row_at_names [OF ok, of u r] ok by (auto simp: rows_ok_def)
  have "map cm_id (rows s') = map cm_id (rows s)" using n(1) by (simp add: s'(1) comp_def)
  then have ids: "distinct (map cm_id (rows s'))" "\<forall>r\<in>set (rows s'). cm_id r < st_next s'"
    using ok mem n(1) r0(1) by (simp, auto simp: rows_ok_def s'(2))
  have uniq: "r = r'" if "r \<in> set (rows s')" "r' \<in> set (rows s')" "cm_mailbox r = box" "cm_mailbox r' = box"
      "names rid g v r" "names rid g v r'" for r r' v
  proof (cases "v = u")
    case True
    with that mem fresh show ?thesis by metis
  next
    case False
    with that mem n(3) have "r \<in> set (rows s)" "r' \<in> set (rows s)" by (auto simp: names_def)
    with that ok show ?thesis unfolding rows_ok_def by blast
  qed
  have "row_ok rid g r" if "r \<in> set (rows s')" "cm_mailbox r = box" for r
    using that mem n(3) ok by (auto simp: rows_ok_def row_ok_def)
  with ids uniq ok show ok': "rows_ok rid box g s'" unfolding rows_ok_def s'(2,3) by blast
  show "row_at s' box g u = Some n" using row_at_names [OF ok'] mem n by simp
  show "row_at s' box g u' = row_at s box g u'" if "u' \<noteq> u"
  proof -
    have "row_at s' box g u' = Some r \<longleftrightarrow> row_at s box g u' = Some r" for r
      unfolding row_at_names [OF ok] row_at_names [OF ok'] mem using that n(3) other by (auto simp: names_def)
    then show ?thesis by (rule same_some)
  qed
  have "filter (\<lambda>r. cm_mailbox r \<noteq> box) (map (\<lambda>r. if cm_id r = cm_id r0 then n else r) xs) = filter (\<lambda>r. cm_mailbox r \<noteq> box) xs"
    if "set xs \<subseteq> set (rows s)" for xs
    using that
  proof (induction xs)
    case (Cons x xs)
    then have "cm_id x = cm_id r0 \<longleftrightarrow> x = r0" using dist r0(1) by (auto simp: distinct_map inj_on_def)
    with Cons n(2) r0(2) show ?case by auto
  qed simp
  then show "filter (\<lambda>r. cm_mailbox r \<noteq> box) (rows s') = filter (\<lambda>r. cm_mailbox r \<noteq> box) (rows s)"
    by (simp add: s'(1))
qed

lemma row_added:
  assumes ok: "rows_ok rid box g s" and none: "row_at s box g u = None"
    and s': "rows s' = rows s @ [n]" "st_next s' = st_next s + 1" "st_queue s' = st_queue s"
    and n: "cm_id n = st_next s" "cm_mailbox n = box" "names rid g u n"
  shows "rows_ok rid box g s'" "row_at s' box g u = Some n" "u' \<noteq> u \<Longrightarrow> row_at s' box g u' = row_at s box g u'"
    "filter (\<lambda>r. cm_mailbox r \<noteq> box) (rows s') = filter (\<lambda>r. cm_mailbox r \<noteq> box) (rows s)"
proof -
  have no: "\<not> (r \<in> set (rows s) \<and> cm_mailbox r = box \<and> names rid g u r)" for r
    using none row_at_names [OF ok] by (metis option.distinct(1))
  have uniq: "r = r'" if "r \<in> set (rows s')" "r' \<in> set (rows s')" "cm_mailbox r = box" "cm_mailbox r' = box"
      "names rid g v r" "names rid g v r'" for r r' v
  proof (cases "v = u")
    case True
    with that no s'(1) show ?thesis by auto
  next
    case False
    with that n(3) s'(1) have "r \<in> set (rows s)" "r' \<in> set (rows s)" by (auto simp: names_def)
    with that ok show ?thesis unfolding rows_ok_def by blast
  qed
  have ids: "distinct (map cm_id (rows s'))" "\<forall>r\<in>set (rows s'). cm_id r < st_next s'"
    "\<forall>q\<in>set (st_queue s'). \<forall>i. q_target q = Message i \<longrightarrow> i < st_next s'"
    using ok n(1) by (fastforce simp: rows_ok_def s')+
  have "row_ok rid g r" if "r \<in> set (rows s')" "cm_mailbox r = box" for r
    using that n(3) ok by (auto simp: rows_ok_def row_ok_def s'(1))
  with ids uniq ok show ok': "rows_ok rid box g s'" unfolding rows_ok_def by blast
  show "row_at s' box g u = Some n" using row_at_names [OF ok'] n s'(1) by simp
  show "row_at s' box g u' = row_at s box g u'" if "u' \<noteq> u"
    using that n(3) by (simp add: row_at_def s'(1) find_added names_def split: option.splits)
  show "filter (\<lambda>r. cm_mailbox r \<noteq> box) (rows s') = filter (\<lambda>r. cm_mailbox r \<noteq> box) (rows s)"
    using n(2) by (simp add: s'(1))
qed


subsection \<open>The effect of an upsert\<close>

lemma keys_replay_one:
  "fs_keys a - R = fs_keys b - R \<Longrightarrow>
     fs_keys (if d then fst (fs_insert a f) else fst (fs_remove a f)) - R
   = fs_keys (if d then fst (fs_insert b f) else fst (fs_remove b f)) - R"
  unfolding fs_keys_insert fs_keys_remove if_distrib by auto

lemma keys_fold_congruent:
  assumes "\<And>a b x. fs_keys a - R = fs_keys b - R \<Longrightarrow> fs_keys (h a x) - R = fs_keys (h b x) - R"
  shows "fs_keys a - R = fs_keys b - R \<Longrightarrow> fs_keys (foldl h a xs) - R = fs_keys (foldl h b xs) - R"
proof (induction xs arbitrary: a b)
  case (Cons x xs)
  from Cons.IH [OF assms [OF Cons.prems]] show ?case by simp
qed simp

lemma keys_with_unacknowledged:
  "fs_keys a - R = fs_keys b - R \<Longrightarrow> fs_keys (with_unacknowledged a cs) - R = fs_keys (with_unacknowledged b cs) - R"
  unfolding with_unacknowledged_def replay_change_def
  by (rule keys_fold_congruent, rule keys_fold_congruent, rule keys_replay_one)

text \<open>
  A row mirrors a fetched message: its flags are the server's with the local changes still
  queued on top.  It agrees with one: its flags are the server's own.
\<close>

definition carries :: "(message_id \<Rightarrow> (bool \<times> flag_set) list) \<Rightarrow> fetched_message \<Rightarrow> stored_message \<Rightarrow> bool" where
  "carries changes f r \<longleftrightarrow>
     fs_keys (fs_persistable (sm_flags r)) = fs_keys (merged_server_flags changes (cm_id r) (fm_flags f))"

definition mirrors :: "(message_id \<Rightarrow> (bool \<times> flag_set) list) \<Rightarrow> fetched_message \<Rightarrow> stored_message \<Rightarrow> bool" where
  "mirrors changes f r \<longleftrightarrow> sm_mod_seq r = fm_mod_seq f \<and> carries changes f r"

definition agrees :: "fetched_message \<Rightarrow> stored_message \<Rightarrow> bool" where
  "agrees f r \<longleftrightarrow> sm_mod_seq r = fm_mod_seq f \<and> fs_keys (fs_persistable (sm_flags r)) = fs_keys (fs_persistable (fm_flags f))"

definition same_frame :: "mailbox_id \<Rightarrow> sync_store \<Rightarrow> sync_store \<Rightarrow> bool" where
  "same_frame box s s' \<longleftrightarrow>
     st_queue s' = st_queue s \<and> st_mailboxes s' = st_mailboxes s \<and> st_accounts s' = st_accounts s
   \<and> st_sync s' = st_sync s \<and> st_next s \<le> st_next s'
   \<and> map (\<lambda>d. d\<lparr>sd_thread := None\<rparr>) (st_drafts s') = map (\<lambda>d. d\<lparr>sd_thread := None\<rparr>) (st_drafts s)
   \<and> filter (\<lambda>r. cm_mailbox r \<noteq> box) (rows s') = filter (\<lambda>r. cm_mailbox r \<noteq> box) (rows s)"

definition written :: "(nat \<Rightarrow> remote_id) \<Rightarrow> mailbox_id \<Rightarrow> nat \<Rightarrow> fetched_message set \<Rightarrow> sync_store \<Rightarrow> sync_store \<Rightarrow> bool" where
  "written rid box g F s s' \<longleftrightarrow>
     rows_ok rid box g s' \<and> same_frame box s s'
   \<and> (\<forall>u. if u \<in> fm_uid ` F
       then \<exists>f\<in>F. fm_uid f = u \<and> (\<exists>r. row_at s' box g u = Some r
              \<and> (mirrors (unacknowledged s) f r \<or> row_at s box g u = Some r \<and> agrees f r)
              \<and> (\<forall>r\<^sub>0. row_at s box g u = Some r\<^sub>0 \<longrightarrow> cm_id r = cm_id r\<^sub>0))
       else row_at s' box g u = row_at s box g u)"

lemma writtenD:
  assumes "written rid box g F s s'"
  shows "rows_ok rid box g s'" "same_frame box s s'"
    "u \<notin> fm_uid ` F \<Longrightarrow> row_at s' box g u = row_at s box g u"
    "u \<in> fm_uid ` F \<Longrightarrow> \<exists>f\<in>F. fm_uid f = u \<and> (\<exists>r. row_at s' box g u = Some r
              \<and> (mirrors (unacknowledged s) f r \<or> row_at s box g u = Some r \<and> agrees f r)
       \<and> (\<forall>r\<^sub>0. row_at s box g u = Some r\<^sub>0 \<longrightarrow> cm_id r = cm_id r\<^sub>0))"
  using assms unfolding written_def by presburger+

lemma same_frame_refl [simp]: "same_frame box s s"
  by (simp add: same_frame_def)

lemma same_frame_trans: "same_frame box s t \<Longrightarrow> same_frame box t u \<Longrightarrow> same_frame box s u"
  by (simp add: same_frame_def)

lemma same_frame_changes: "same_frame box s t \<Longrightarrow> unacknowledged t = unacknowledged s"
  by (simp add: same_frame_def unacknowledged_def [abs_def])

lemma written_refl: "rows_ok rid box g s \<Longrightarrow> written rid box g {} s s"
  by (simp add: written_def)

lemma same_but_threads_frame: "same_but_threads s s' \<Longrightarrow> same_frame box s s'"
  by (simp add: same_but_threads_def same_frame_def)

lemma same_but_threads_written:
  assumes "rows_ok rid box g s" "same_but_threads s s'"
  shows "written rid box g {} s s'"
  using assms rows_ok_rows [of s' s rid box g] row_at_rows [of s' s box g] same_but_threads_frame [OF assms(2), of box]
  by (simp add: written_def same_but_threads_def)

lemma written_trans:
  assumes "written rid box g F s t" "written rid box g G t u"
  shows "written rid box g (F \<union> G) s u"
proof -
  note F = writtenD [OF assms(1)] and G = writtenD [OF assms(2)]
  have ch: "unacknowledged t = unacknowledged s" using F(2) by (rule same_frame_changes)
  have id: "\<exists>r1. row_at t box g v = Some r1 \<and> cm_id r1 = cm_id r\<^sub>0" if "row_at s box g v = Some r\<^sub>0" for v r\<^sub>0
    using F(3,4) [of v] that by (cases "v \<in> fm_uid ` F") auto
  have "\<exists>f\<in>F \<union> G. fm_uid f = v \<and> (\<exists>r. row_at u box g v = Some r
        \<and> (mirrors (unacknowledged s) f r \<or> row_at s box g v = Some r \<and> agrees f r)
        \<and> (\<forall>r\<^sub>0. row_at s box g v = Some r\<^sub>0 \<longrightarrow> cm_id r = cm_id r\<^sub>0))" if v: "v \<in> fm_uid ` (F \<union> G)" for v
  proof (cases "v \<in> fm_uid ` G")
    case True
    from G(4) [OF this] obtain f r where f: "f \<in> G" "fm_uid f = v" "row_at u box g v = Some r"
        "mirrors (unacknowledged s) f r \<or> row_at t box g v = Some r \<and> agrees f r"
      and same: "\<forall>r\<^sub>0. row_at t box g v = Some r\<^sub>0 \<longrightarrow> cm_id r = cm_id r\<^sub>0" unfolding ch by blast
    have "cm_id r = cm_id r\<^sub>0" if "row_at s box g v = Some r\<^sub>0" for r\<^sub>0 using id [OF that] same by auto
    with f F(3,4) [of v] show ?thesis by (cases "v \<in> fm_uid ` F") auto
  next
    case False
    with v have "v \<in> fm_uid ` F" by auto
    from F(4) [OF this] G(3) [OF False] show ?thesis by auto
  qed
  moreover have "row_at u box g v = row_at s box g v" if "v \<notin> fm_uid ` (F \<union> G)" for v
    using that F(3) [of v] G(3) [of v] by (simp add: image_Un)
  ultimately show ?thesis using G(1) same_frame_trans [OF F(2) G(2)] unfolding written_def by presburger
qed

lemma keys_persist_twice [simp]: "fs_keys (fs_persistable (fs_persistable fl)) = fs_keys (fs_persistable fl)"
  by (simp add: fs_keys_persistable)

lemma merged_flags_keys:
  "fs_keys (fs_persistable (if ch i = [] then fs_persistable fl else with_unacknowledged (fs_persistable fl) (ch i)))
   = fs_keys (merged_server_flags ch i fl)"
proof -
  have "fs_keys (fs_persistable fl) - {flag_key Recent} = fs_keys fl - {flag_key Recent}" by (auto simp: fs_keys_persistable)
  then show ?thesis
    using keys_with_unacknowledged [of "fs_persistable fl" "{flag_key Recent}" fl "ch i"]
    by (auto simp: merged_server_flags_def fs_keys_persistable)
qed

lemma keep_content_fields [simp]:
  "cm_id (keep_fetched_content s m) = cm_id m" "cm_mailbox (keep_fetched_content s m) = cm_mailbox m"
  "sm_uid (keep_fetched_content s m) = sm_uid m" "sm_validity (keep_fetched_content s m) = sm_validity m"
  "sm_remote (keep_fetched_content s m) = sm_remote m" "sm_mod_seq (keep_fetched_content s m) = sm_mod_seq m"
  "sm_flags (keep_fetched_content s m) = sm_flags m"
  by (auto simp: keep_fetched_content_def split: option.splits)

lemma row_values_fields [simp]:
  "cm_id (row_values m) = cm_id m" "cm_mailbox (row_values m) = cm_mailbox m" "sm_uid (row_values m) = sm_uid m"
  "sm_validity (row_values m) = sm_validity m" "sm_remote (row_values m) = sm_remote m"
  "sm_mod_seq (row_values m) = sm_mod_seq m" "sm_flags (row_values m) = fs_persistable (sm_flags m)"
  by (simp_all add: row_values_def Let_def)

lemma written_over_fields [simp]:
  "cm_id (written_over m r) = cm_id m" "cm_mailbox (written_over m r) = cm_mailbox m" "sm_uid (written_over m r) = sm_uid m"
  "sm_validity (written_over m r) = sm_validity m" "sm_remote (written_over m r) = sm_remote m"
  "sm_mod_seq (written_over m r) = sm_mod_seq m" "sm_flags (written_over m r) = fs_persistable (sm_flags m)"
  by (simp_all add: written_over_def)

lemma core_written_over [simp]: "core (written_over m (core r)) = core (written_over m r)"
  by (simp add: core_def written_over_def)

lemma names_core [simp]: "names rid g u (core r) = names rid g u r"
  by (simp add: names_def)

lemma unacknowledged_fresh: "rows_ok rid box g s \<Longrightarrow> unacknowledged s (st_next s) = []"
  by (auto simp: rows_ok_def unacknowledged_def List.map_filter_def filter_empty_conv)

lemma merged_message_fields [simp]:
  "cm_id (merged_message ch s i m) = i" "cm_mailbox (merged_message ch s i m) = cm_mailbox m"
  "sm_uid (merged_message ch s i m) = sm_uid m" "sm_validity (merged_message ch s i m) = sm_validity m"
  "sm_remote (merged_message ch s i m) = sm_remote m" "sm_mod_seq (merged_message ch s i m) = sm_mod_seq m"
  "sm_flags (merged_message ch s i m) = (if ch i = [] then sm_flags m else with_unacknowledged (sm_flags m) (ch i))"
  by (simp_all add: merged_message_def)

lemma written_one:
  assumes "rows_ok rid box g s'" "same_frame box s s'" "row_at s' box g (fm_uid f) = Some n" "mirrors (unacknowledged s) f n"
    and "\<And>u'. u' \<noteq> fm_uid f \<Longrightarrow> row_at s' box g u' = row_at s box g u'"
    and "\<And>r\<^sub>0. row_at s box g (fm_uid f) = Some r\<^sub>0 \<Longrightarrow> cm_id n = cm_id r\<^sub>0"
  shows "written rid box g {f} s s'"
  using assms by (auto simp: written_def)

lemma upsert_one_written:
  assumes ok: "rows_ok rid box g s" and f: "fetched_ok rid g f"
    and run: "upsert_one (unacknowledged s) (s, rep) (into_message a box f) = ((s', rep'), m')"
  shows "written rid box g {f} s s'" "cm_id m' \<in> cm_id ` set (rows s')" "sm_uid m' = Some (fm_uid f)"
    "cm_id ` set (rows s) \<subseteq> cm_id ` set (rows s')"
proof -
  let ?m = "into_message a box f" and ?u = "fm_uid f" and ?ch = "unacknowledged s"
  have "written rid box g {f} s s' \<and> cm_id m' \<in> cm_id ` set (rows s') \<and> sm_uid m' = Some (fm_uid f)
      \<and> cm_id ` set (rows s) \<subseteq> cm_id ` set (rows s')"
  proof (cases "existing_row s ?m")
    case None
    then have at: "row_at s box g ?u = None" using existing_row_cases [OF ok f, of a] by simp
    let ?n = "core ((row_values (?m\<lparr>cm_id := st_next s\<rparr>))\<lparr>cm_sort_at := cm_received_at ?m, cm_snoozed_until := None\<rparr>)"
    have s': "rows s' = rows s @ [?n]" "st_next s' = st_next s + 1" "st_queue s' = st_queue s" and m': "m' = ?m\<lparr>cm_id := st_next s\<rparr>"
      and fr: "st_mailboxes s' = st_mailboxes s" "st_accounts s' = st_accounts s" "st_sync s' = st_sync s" "st_drafts s' = st_drafts s"
      using run None by (auto simp: upsert_one_def insert_message_def Let_def rows_def)
    have n: "cm_id ?n = st_next s" "cm_mailbox ?n = box" "names rid g ?u ?n"
      using f by (simp_all add: names_def fetched_ok_def)
    note added = row_added [OF ok at s' n]
    have "mirrors ?ch f ?n"
      using merged_flags_keys [of ?ch "st_next s" "fm_flags f"] unacknowledged_fresh [OF ok] n(1) by (simp add: mirrors_def carries_def)
    with added at fr s' have "written rid box g {f} s s'" by (intro written_one) (auto simp: same_frame_def)
    with m' s'(1) n(1) show "written rid box g {f} s s' \<and> cm_id m' \<in> cm_id ` set (rows s') \<and> sm_uid m' = Some (fm_uid f)
        \<and> cm_id ` set (rows s) \<subseteq> cm_id ` set (rows s')" by auto
  next
    case (Some i)
    then obtain r where r: "r \<in> set (rows s)" "cm_id r = i" "cm_mailbox r = box"
      and what: "row_at s box g ?u = Some r \<or> row_at s box g ?u = None \<and> unnamed r"
      using existing_row_cases [OF ok f, of a] by auto
    let ?k = "keep_fetched_content s (merged_message ?ch s i ?m)"
    let ?n = "core (written_over ?k r)"
    have s'0: "rows s' = map (\<lambda>x. if cm_id x = i then core (written_over ?k x) else x) (rows s)"
      and s'1: "st_next s' = st_next s" "st_queue s' = st_queue s" and m': "m' = ?k"
      and fr: "st_mailboxes s' = st_mailboxes s" "st_accounts s' = st_accounts s" "st_sync s' = st_sync s" "st_drafts s' = st_drafts s"
      using run Some by (auto simp: upsert_one_def write_update_def Let_def rows_def)
    have "(if cm_id x = i then core (written_over ?k x) else x) = (if cm_id x = cm_id r then ?n else x)" if "x \<in> set (rows s)" for x
      using that r ok by (auto simp: rows_ok_def distinct_map inj_on_def)
    with s'0 have s': "rows s' = map (\<lambda>x. if cm_id x = cm_id r then ?n else x) (rows s)" by simp
    have n: "cm_id ?n = cm_id r" "cm_mailbox ?n = box" "names rid g ?u ?n"
      using f r(2) by (simp_all add: names_def fetched_ok_def)
    note replaced = row_replaced [OF ok r(1,3) what s' s'1 n]
    have mir: "mirrors ?ch f ?n"
      using merged_flags_keys [of ?ch i "fm_flags f"] by (auto simp: mirrors_def carries_def split: if_splits)
    have fr': "same_frame box s s'" using replaced(4) fr s'1 by (simp add: same_frame_def)
    have w: "written rid box g {f} s s'"
      by (rule written_one [OF replaced(1) fr' replaced(2) mir]) (use replaced(3) in blast, use what n(1) in auto)
    have "map cm_id (rows s') = map cm_id (rows s)" using n(1) by (simp add: s' comp_def)
    then have "cm_id ` set (rows s') = cm_id ` set (rows s)" by (metis set_map)
    with w m' r show "written rid box g {f} s s' \<and> cm_id m' \<in> cm_id ` set (rows s') \<and> sm_uid m' = Some (fm_uid f)
        \<and> cm_id ` set (rows s) \<subseteq> cm_id ` set (rows s')" by auto
  qed
  then show "written rid box g {f} s s'" "cm_id m' \<in> cm_id ` set (rows s')" "sm_uid m' = Some (fm_uid f)"
    "cm_id ` set (rows s) \<subseteq> cm_id ` set (rows s')" by simp_all
qed

lemma written_changes: "written rid box g F s s' \<Longrightarrow> unacknowledged s' = unacknowledged s"
  using same_frame_changes [OF writtenD(2)] .

lemma upsert_each_written:
  assumes "rows_ok rid box g s" "\<forall>f\<in>set fs. fetched_ok rid g f"
    and "upsert_each (unacknowledged s) (s, rep) (map (into_message a box) fs) = ((s', rep'), ms)"
  shows "written rid box g (set fs) s s' \<and> (\<forall>m\<in>set ms. cm_id m \<in> cm_id ` set (rows s'))
    \<and> map sm_uid ms = map (Some \<circ> fm_uid) fs \<and> cm_id ` set (rows s) \<subseteq> cm_id ` set (rows s')"
  using assms
proof (induction fs arbitrary: s rep s' rep' ms)
  case Nil
  then show ?case by (simp add: written_refl)
next
  case (Cons f fs)
  obtain s1 rep1 m1 where one: "upsert_one (unacknowledged s) (s, rep) (into_message a box f) = ((s1, rep1), m1)"
    by (cases "upsert_one (unacknowledged s) (s, rep) (into_message a box f)") auto
  obtain s2 rep2 ms1 where rest: "upsert_each (unacknowledged s) (s1, rep1) (map (into_message a box) fs) = ((s2, rep2), ms1)"
    by (cases "upsert_each (unacknowledged s) (s1, rep1) (map (into_message a box) fs)") auto
  have run: "s' = s2" "ms = m1 # ms1" using Cons.prems(3) one rest by auto
  have f: "fetched_ok rid g f" using Cons.prems(2) by simp
  note first = upsert_one_written [OF Cons.prems(1) f one]
  have ch: "unacknowledged s1 = unacknowledged s" by (rule written_changes [OF first(1)])
  have IH: "written rid box g (set fs) s1 s2 \<and> (\<forall>m\<in>set ms1. cm_id m \<in> cm_id ` set (rows s2))
      \<and> map sm_uid ms1 = map (Some \<circ> fm_uid) fs \<and> cm_id ` set (rows s1) \<subseteq> cm_id ` set (rows s2)"
    using Cons.IH [OF writtenD(1) [OF first(1)]] Cons.prems(2) rest ch by auto
  have "written rid box g (insert f (set fs)) s s2" using written_trans [OF first(1), of "set fs" s2] IH by simp
  moreover have "cm_id ` set (rows s) \<subseteq> cm_id ` set (rows s2)" "cm_id m1 \<in> cm_id ` set (rows s2)"
    using IH first(2,4) by blast+
  ultimately show ?case using IH first(3) run by simp
qed

end
