(* ===== verification/Resync.thy ===== *)
theory Resync
  imports Initial_Sync
begin

section \<open>Keeping a mailbox current\<close>

text \<open>
  \<open>crates/postio-sync/src/resync.rs\<close> and the loop of
  \<open>crates/postio-sync/src/flag_sweep.rs\<close>: one pass over a mailbox that is already
  synchronized.  The decision is \<open>sync_plan\<close> (\<open>Sync_State\<close>); this is what carries out
  each of its answers, over the world of \<open>Initial_Sync\<close>.
\<close>

datatype sync_outcome =
    UnchangedOutcome
  | FullOutcome full_resync_reason sync_report
  | RebuiltOutcome sync_report
  | IncrementalOutcome nat nat "message_id list" "message_id list"
      \<comment> \<open>changed, vanished, arrived, filed away\<close>

text \<open>Where the code asks \<open>requires_full_resync\<close> of a failure: rebuild, or go on.\<close>

definition or_rebuild :: "('s, 'a) pass \<Rightarrow> ('s, 'b) pass \<Rightarrow> ('a \<Rightarrow> ('s, 'b) pass) \<Rightarrow> ('s, 'b) pass" where
  "or_rebuild p recover go_on w =
     (case p w of
        (w, Inl (BackendFailed e)) \<Rightarrow>
          if requires_full_resync e then recover w else (w, Inl (BackendFailed e))
      | (w, Inl e) \<Rightarrow> (w, Inl e)
      | (w, Inr x) \<Rightarrow> go_on x w)"


subsection \<open>What vanished\<close>

fun present_in :: "'s sync_backend \<Rightarrow> ranges list \<Rightarrow> ('s, nat list) pass" where
  "present_in B [] = returnP []"
| "present_in B (chunk # chunks) =
     bindP (query (\<lambda>e _. sb_cancelled B e)) (\<lambda>cancelled.
       if cancelled then throwP (BackendFailed CancelledError)
       else
         bindP (ask (sb_fetch_headers B chunk None)) (\<lambda>fetched.
         bindP (present_in B chunks) (\<lambda>rest. returnP (map fm_uid fetched @ rest))))"

definition delete_uids :: "mailbox_id \<Rightarrow> nat \<Rightarrow> nat list \<Rightarrow> sync_store \<Rightarrow> sync_store \<times> nat" where
  "delete_uids box g us s = delete_rows (ids_by_uid s box g us) s"

definition reconcile_vanished :: "'s sync_backend \<Rightarrow> mailbox_row \<Rightarrow> nat \<Rightarrow> nat list \<Rightarrow> nat \<Rightarrow> ('s, nat) pass" where
  "reconcile_vanished B box g known expected_gone =
     bindP (existing_uids B) (\<lambda>listing.
     bindP (case listing of
         Some uids \<Rightarrow> returnP uids
       | None \<Rightarrow> present_in B (case uset_chunks (uset_from_iter known) DEFAULT_BATCH_SIZE of
             Some chunks \<Rightarrow> chunks | None \<Rightarrow> [])) (\<lambda>present.
     let vanished = filter (\<lambda>u. u \<notin> set present) known in
     if length vanished \<noteq> expected_gone then returnP 0
     else atomically (\<lambda>s. Inr (delete_uids (mb_id box) g vanished s))))"

text \<open>Every row under the generation, the ones hidden from the list included.\<close>

definition wipe_mailbox :: "mailbox_id \<Rightarrow> nat \<Rightarrow> ('s, unit) pass" where
  "wipe_mailbox box g = atomically (\<lambda>s. Inr (fst (delete_uids box g (uids_in s box g) s), ()))"


subsection \<open>The incremental pull\<close>

definition unaccounted_arrivals :: "fetched_message list \<Rightarrow> select_status \<Rightarrow> nat option \<Rightarrow> nat option" where
  "unaccounted_arrivals reported sel previous_uid_next =
     (case previous_uid_next of
        None \<Rightarrow> None
      | Some previous \<Rightarrow>
          (let highest = fold max (map fm_uid reported) 0;
               lowest = max previous (sat_add32 highest 1)
           in if lowest < sst_uid_next sel then Some lowest else None))"

definition incremental_unit :: "(string \<Rightarrow> string) \<Rightarrow> mailbox_row \<Rightarrow> filing_pass option \<Rightarrow> bool \<Rightarrow> ranges
    \<Rightarrow> stored_message list \<Rightarrow> sync_store \<Rightarrow> storage_error + (sync_store \<times> (message_id list \<times> filing_effects))" where
  "incremental_unit lower box filing has_account known_set ms s =
     (let ((s, up), written) = upsert_batch s ms in
      case thread_each lower (mb_account box) written s of
        Inl e \<Rightarrow> Inl e
      | Inr (s, threads) \<Rightarrow>
          (let is_new = (\<lambda>m. case sm_uid m of Some u \<Rightarrow> \<not> uset_contains known_set u | None \<Rightarrow> False);
               arrivals = (if has_account then map cm_id (filter is_new written) else []);
               (s, effects) = file_new filing arrivals written threads s
           in Inr (s, (arrivals, effects))))"

function write_changed :: "'s sync_backend \<Rightarrow> (string \<Rightarrow> string) \<Rightarrow> mailbox_row \<Rightarrow> filing_pass option \<Rightarrow> bool \<Rightarrow> ranges
    \<Rightarrow> stored_message list \<Rightarrow> message_id list \<times> message_id list
    \<Rightarrow> ('s, message_id list \<times> message_id list) pass" where
  "write_changed B lower box filing has_account known_set rest found w =
     (if rest = [] then (w, Inr found)
      else
        (let n = min (unit_rows B (fst w)) (length rest) in
         case atomically (incremental_unit lower box filing has_account known_set (take n rest)) w of
           (w, Inl e) \<Rightarrow> (w, Inl e)
         | (w, Inr (newly, effects)) \<Rightarrow>
             write_changed B lower box filing has_account known_set (drop n rest)
               (fst found @ newly, snd found @ fe_filtered effects @ fe_held effects) (fst (yield_once B w))))"
  by pat_completeness auto
termination
proof (relation "measure (\<lambda>(B, lower, box, filing, has_account, known_set, rest, found, w). length rest)")
  fix B :: "'s sync_backend" and rest :: "stored_message list" and w :: "'s \<times> sync_store" and n
  assume "rest \<noteq> []" and "n = min (unit_rows B (fst w)) (length rest)"
  then have "0 < n" using unit_rows_bounds(1) [of B "fst w"] by simp
  with \<open>rest \<noteq> []\<close> show "((B, lower, box, filing, a, k, drop n rest, found', w'), B, lower, box, filing, a, k, rest, found, w)
      \<in> measure (\<lambda>(B, lower, box, filing, has_account, known_set, rest, found, w). length rest)"
    for lower :: "string \<Rightarrow> string" and box :: mailbox_row and filing :: "filing_pass option"
      and a :: bool and k :: ranges and found found' :: "message_id list \<times> message_id list" and w' :: "'s \<times> sync_store"
    by simp
qed simp

declare write_changed.simps [simp del]

definition incremental :: "'s sync_backend \<Rightarrow> (string \<Rightarrow> string) \<Rightarrow> mailbox_row \<Rightarrow> select_status \<Rightarrow> nat \<Rightarrow> nat option
    \<Rightarrow> filing_pass option \<Rightarrow> ('s, sync_outcome) pass" where
  "incremental B lower box sel since previous_uid_next filing =
     bindP (query (\<lambda>_ s. uids_in s (mb_id box) (sst_generation sel))) (\<lambda>known.
     let known_set = uset_from_iter known in
     bindP (ask (sb_fetch_for_filing B uset_all (Some since))) (\<lambda>reported.
     bindP (case unaccounted_arrivals reported sel previous_uid_next of
         None \<Rightarrow> returnP reported
       | Some lowest \<Rightarrow>
           bindP (ask (sb_fetch_for_filing B (uset_from_uid_onwards lowest) None)) (\<lambda>arrivals.
             returnP (reported @ arrivals))) (\<lambda>changed.
     let newly_arrived = length (filter (\<lambda>m. \<not> uset_contains known_set (fm_uid m)) changed) in
     bindP (if changed = [] then returnP ([], [])
            else
              bindP (query (\<lambda>_ s. mb_account box \<in> set (st_accounts s))) (\<lambda>has_account.
                write_changed B lower box filing has_account known_set
                  (map (into_message (mb_account box) (mb_id box)) changed) ([], []))) (\<lambda>(arrived, filed_away).
     let expected_exists = length known + newly_arrived in
     bindP (if known_set \<noteq> [] \<and> sst_exists sel \<noteq> expected_exists
            then reconcile_vanished B box (sst_generation sel) known (expected_exists - sst_exists sel)
            else returnP 0) (\<lambda>vanished.
       returnP (IncrementalOutcome (length changed) vanished arrived filed_away))))))"


subsection \<open>The flag sweep\<close>

record swept =
  sp_swept :: bool
  sp_corrected :: nat

definition not_swept :: swept where
  "not_swept = \<lparr>sp_swept = False, sp_corrected = 0\<rparr>"

function sweep_units :: "'s sync_backend \<Rightarrow> (message_id \<times> flag_set) list \<Rightarrow> nat \<Rightarrow> ('s, nat) pass" where
  "sweep_units B rest written w =
     (if rest = [] then (w, Inr written)
      else
        (let n = min (unit_rows B (fst w)) (length rest);
             (s, changed) = apply_server_flags (snd w) (take n rest)
         in sweep_units B (drop n rest) (written + length changed) (fst (yield_once B (fst w, s)))))"
  by pat_completeness auto
termination
proof (relation "measure (\<lambda>(B, rest, written, w). length rest)")
  fix B :: "'s sync_backend" and rest :: "(message_id \<times> flag_set) list" and w :: "'s \<times> sync_store" and n
  assume "rest \<noteq> []" and "n = min (unit_rows B (fst w)) (length rest)"
  then have "0 < n" using unit_rows_bounds(1) [of B "fst w"] by simp
  with \<open>rest \<noteq> []\<close> show "((B, drop n rest, c', w'), B, rest, c, w) \<in> measure (\<lambda>(B, rest, written, w). length rest)"
    for c c' :: nat and w' :: "'s \<times> sync_store" by simp
qed simp

declare sweep_units.simps [simp del]

definition sweep :: "'s sync_backend \<Rightarrow> mailbox_row \<Rightarrow> nat \<Rightarrow> ('s, swept) pass" where
  "sweep B box g =
     bindP (ask (sb_fetch_flags B)) (\<lambda>server.
       case server of
         None \<Rightarrow> returnP not_swept
       | Some listed \<Rightarrow>
           bindP (query (\<lambda>_ s. flags_in s (mb_id box) g)) (\<lambda>stored.
           bindP (sweep_units B (disagreements stored listed) 0) (\<lambda>written.
             returnP \<lparr>sp_swept = True, sp_corrected = written\<rparr>)))"

definition sweep_flags :: "'s sync_backend \<Rightarrow> mailbox_row \<Rightarrow> nat \<Rightarrow> flag_pass \<Rightarrow> ('s, swept) pass" where
  "sweep_flags B box g p = (case p of Trust \<Rightarrow> returnP not_swept | Sweep \<Rightarrow> sweep B box g)"


subsection \<open>The pass\<close>

definition still_short_of_exists :: "mailbox_id \<Rightarrow> sync_state \<Rightarrow> nat \<Rightarrow> sync_store \<Rightarrow> bool" where
  "still_short_of_exists box previous exists s =
     (case ss_generation previous of
        None \<Rightarrow> False
      | Some g \<Rightarrow>
          if exists \<le> sat_add32 (count_in s box g) (refused_rows_in s box) then False
          else \<not> unsettled_in s box)"

definition enumerate_the_shortfall :: "'s sync_backend \<Rightarrow> (string \<Rightarrow> string) \<Rightarrow> mailbox_row \<Rightarrow> ('s, sync_outcome) pass" where
  "enumerate_the_shortfall B lower box =
     bindP (enumerate_mailbox B lower box DEFAULT_BATCH_SIZE Missing None) (\<lambda>rep.
       returnP (FullOutcome ShortOfExists rep))"

definition observe_now :: "'s sync_backend \<Rightarrow> mailbox_row \<Rightarrow> select_status \<Rightarrow> ('s, unit) pass" where
  "observe_now B box sel =
     bindP (query (\<lambda>e _. sb_clock B e)) (\<lambda>now.
       sync_op (mb_id box) (\<lambda>x. sync_observe x (to_model_status sel) now))"

definition rebuild :: "'s sync_backend \<Rightarrow> (string \<Rightarrow> string) \<Rightarrow> mailbox_row \<Rightarrow> nat option \<Rightarrow> ('s, sync_outcome) pass" where
  "rebuild B lower box known_generation =
     bindP (ask (sb_select B)) (\<lambda>sel.
     let renumbered = (case known_generation of Some known \<Rightarrow> known \<noteq> sst_generation sel | None \<Rightarrow> False) in
     bindP (case known_generation of
         Some stale \<Rightarrow> if renumbered then wipe_mailbox (mb_id box) stale else returnP ()
       | None \<Rightarrow> returnP ()) (\<lambda>_.
     bindP (observe_now B box sel) (\<lambda>_.
     bindP (enumerate_mailbox B lower box DEFAULT_BATCH_SIZE (if renumbered then Missing else Everything) None) (\<lambda>rep.
       returnP (if renumbered then FullOutcome GenerationChanged rep else RebuiltOutcome rep)))))"

definition coverage_for :: "full_resync_reason \<Rightarrow> coverage" where
  "coverage_for reason =
     (case reason of
        GenerationChanged \<Rightarrow> Missing
      | NeverSynced \<Rightarrow> Missing
      | ShortOfExists \<Rightarrow> Missing
      | NoModSeq \<Rightarrow> Everything
      | ModSeqWentBackwards \<Rightarrow> Everything)"

definition full_pass :: "'s sync_backend \<Rightarrow> (string \<Rightarrow> string) \<Rightarrow> mailbox_row \<Rightarrow> filing_pass option \<Rightarrow> sync_state
    \<Rightarrow> select_status \<Rightarrow> full_resync_reason \<Rightarrow> ('s, sync_outcome) pass" where
  "full_pass B lower box filing previous sel reason =
     bindP (case (reason, ss_generation previous) of
         (GenerationChanged, Some g) \<Rightarrow> wipe_mailbox (mb_id box) g
       | _ \<Rightarrow> returnP ()) (\<lambda>_.
     let record_after = (reason = ModSeqWentBackwards) in
     bindP (if record_after then returnP () else observe_now B box sel) (\<lambda>_.
     bindP (enumerate_mailbox B lower box DEFAULT_BATCH_SIZE (coverage_for reason)
              (if reason = NoModSeq then filing else None)) (\<lambda>rep.
     bindP (if record_after then observe_now B box sel else returnP ()) (\<lambda>_.
       returnP (FullOutcome reason rep)))))"

definition record_pass :: "'s sync_backend \<Rightarrow> mailbox_row \<Rightarrow> select_status \<Rightarrow> swept \<Rightarrow> ('s, unit) pass" where
  "record_pass B box sel sw =
     bindP (observe_now B box sel) (\<lambda>_. sync_op (mb_id box) (\<lambda>x. record_flag_pass x (sp_swept sw)))"

definition add_corrected :: "nat \<Rightarrow> sync_outcome \<Rightarrow> sync_outcome" where
  "add_corrected n outcome =
     (case outcome of
        IncrementalOutcome changed vanished arrived away \<Rightarrow> IncrementalOutcome (changed + n) vanished arrived away
      | other \<Rightarrow> other)"

definition incremental_pass :: "'s sync_backend \<Rightarrow> (string \<Rightarrow> string) \<Rightarrow> mailbox_row \<Rightarrow> filing_pass option \<Rightarrow> sync_state
    \<Rightarrow> select_status \<Rightarrow> flag_pass \<Rightarrow> nat \<Rightarrow> ('s, sync_outcome) pass" where
  "incremental_pass B lower box filing previous sel fp since =
     or_rebuild
       (bindP (incremental B lower box sel since (ss_uid_next previous) filing) (\<lambda>outcome.
        bindP (sweep_flags B box (sst_generation sel) fp) (\<lambda>sw.
          returnP (add_corrected (sp_corrected sw) outcome, sw))))
       (rebuild B lower box (ss_generation previous))
       (\<lambda>(outcome, sw).
          bindP (record_pass B box sel sw) (\<lambda>_.
          bindP (query (\<lambda>_ s. still_short_of_exists (mb_id box) previous (sst_exists sel) s)) (\<lambda>short.
            if short then enumerate_the_shortfall B lower box else returnP outcome)))"

text \<open>More rows than the server counts, under a generation that held.\<close>

definition vanished_unseen :: "'s sync_backend \<Rightarrow> mailbox_row \<Rightarrow> sync_state \<Rightarrow> select_status \<Rightarrow> ('s, nat) pass" where
  "vanished_unseen B box previous sel =
     (case ss_generation previous of
        None \<Rightarrow> returnP 0
      | Some g \<Rightarrow>
          bindP (query (\<lambda>_ s. uids_in s (mb_id box) g)) (\<lambda>known.
          bindP (query (\<lambda>_ s. count_in s (mb_id box) g)) (\<lambda>held.
            if sst_exists sel < held then reconcile_vanished B box g known (length known - sst_exists sel)
            else returnP 0)))"

definition up_to_date_pass :: "'s sync_backend \<Rightarrow> (string \<Rightarrow> string) \<Rightarrow> mailbox_row \<Rightarrow> sync_state
    \<Rightarrow> select_status \<Rightarrow> flag_pass \<Rightarrow> ('s, sync_outcome) pass" where
  "up_to_date_pass B lower box previous sel fp =
     or_rebuild (sweep_flags B box (sst_generation sel) fp)
       (rebuild B lower box (ss_generation previous))
       (\<lambda>sw.
          bindP (record_pass B box sel sw) (\<lambda>_.
          bindP (vanished_unseen B box previous sel) (\<lambda>vanished.
            if 0 < vanished then returnP (IncrementalOutcome (sp_corrected sw) vanished [] [])
            else
              bindP (query (\<lambda>_ s. still_short_of_exists (mb_id box) previous (sst_exists sel) s)) (\<lambda>short.
                if short then enumerate_the_shortfall B lower box
                else if 0 < sp_corrected sw then returnP (IncrementalOutcome (sp_corrected sw) 0 [] [])
                else returnP UnchangedOutcome))))"

definition resync_with_policy :: "'s sync_backend \<Rightarrow> (string \<Rightarrow> string) \<Rightarrow> mailbox_row \<Rightarrow> filing_pass option
    \<Rightarrow> sweep_policy \<Rightarrow> ('s, sync_outcome) pass" where
  "resync_with_policy B lower box filing policy =
     bindP (atomically (\<lambda>s. case require_sync (mb_id box) s of Inl e \<Rightarrow> Inl e | Inr x \<Rightarrow> Inr (s, x))) (\<lambda>previous.
     or_rebuild (ask (sb_select B))
       (rebuild B lower box (ss_generation previous))
       (\<lambda>sel.
          let fp = sweep_decide policy (sst_exists sel) (ss_passes_since_flag_sweep previous) (sb_change_feed B) in
          case sync_plan previous (to_model_status sel) of
            Full reason \<Rightarrow> full_pass B lower box filing previous sel reason
          | Incremental since \<Rightarrow> incremental_pass B lower box filing previous sel fp since
          | UpToDate \<Rightarrow> up_to_date_pass B lower box previous sel fp))"

definition resync_mailbox :: "'s sync_backend \<Rightarrow> (string \<Rightarrow> string) \<Rightarrow> mailbox_row \<Rightarrow> ('s, sync_outcome) pass" where
  "resync_mailbox B lower box = resync_with_policy B lower box None sweep_default"

end
