(* ===== verification/Pass_Facts.thy ===== *)
theory Pass_Facts
  imports Row_Facts Resync
begin

section \<open>What a pass writes\<close>

text \<open>
  The relation \<open>written\<close> carried from one message to a unit, a batch, an enumeration.  A host
  outside Focus mode hands no filing pass in; that is the case here.
\<close>

subsection \<open>A unit\<close>

definition refused :: "sync_store \<Rightarrow> mailbox_id \<Rightarrow> fetched_message \<Rightarrow> bool" where
  "refused s box f \<longleftrightarrow> is_own_draft s box (fm_remote f) \<or> is_shadowed s box (fm_remote f)"

lemma own_draft_strip:
  "is_own_draft s box r \<longleftrightarrow>
     list_ex (\<lambda>d. sd_remote d = Some r
        \<and> list_ex (\<lambda>b. mb_id b = box \<and> mb_account b = sd_account d \<and> mb_role b = Drafts) (st_mailboxes s))
       (map (\<lambda>d. d\<lparr>sd_thread := None\<rparr>) (st_drafts s))"
  by (simp add: is_own_draft_def list_ex_iff)

lemma refused_frame: "same_frame box s s' \<Longrightarrow> refused s' = refused s"
  by (intro ext) (simp add: refused_def own_draft_strip is_shadowed_def same_frame_def)

lemma refused_written: "written rid box g F s s' \<Longrightarrow> refused s' = refused s"
  by (rule refused_frame, rule writtenD(2))

lemma kept_into_message [simp]: "kept_from_batch P (into_message a box f) \<longleftrightarrow> \<not> P box (fm_remote f)"
  by (simp add: kept_from_batch_def)

lemma upsert_batch_written:
  assumes "rows_ok rid box g s" "\<forall>f\<in>set fs. fetched_ok rid g f"
    and "upsert_batch s (map (into_message a box) fs) = ((s', up), ms)"
  shows "written rid box g {f \<in> set fs. \<not> refused s box f} s s'" "\<forall>m\<in>set ms. cm_id m \<in> cm_id ` set (rows s')"
    "map sm_uid ms = map (Some \<circ> fm_uid) (filter (\<lambda>f. \<not> refused s box f) fs)"
proof -
  let ?gs = "filter (\<lambda>f. \<not> refused s box f) fs"
  have "filter (kept_from_batch (is_shadowed s)) (filter (kept_from_batch (is_own_draft s)) (map (into_message a box) fs))
      = map (into_message a box) ?gs"
    by (simp add: filter_map comp_def refused_def conj_commute)
  with assms(3) obtain rep where "upsert_each (unacknowledged s) (s, rep) (map (into_message a box) ?gs) = ((s', up), ms)"
    by (auto simp: upsert_batch_def Let_def)
  from upsert_each_written [OF assms(1) _ this] assms(2)
  show "written rid box g {f \<in> set fs. \<not> refused s box f} s s'" "\<forall>m\<in>set ms. cm_id m \<in> cm_id ` set (rows s')"
    "map sm_uid ms = map (Some \<circ> fm_uid) ?gs" by auto
qed

lemma unit_written:
  assumes "rows_ok rid (mb_id box) g s" "\<forall>f\<in>set fs. fetched_ok rid g f" "0 < mb_account box"
  obtains s\<^sub>1 up ms s' ts where "upsert_batch s (map (into_message a (mb_id box)) fs) = ((s\<^sub>1, up), ms)"
    "thread_each lower (mb_account box) ms s\<^sub>1 = Inr (s', ts)"
    "written rid (mb_id box) g {f \<in> set fs. \<not> refused s (mb_id box) f} s s'"
    "map sm_uid ms = map (Some \<circ> fm_uid) (filter (\<lambda>f. \<not> refused s (mb_id box) f) fs)"
proof -
  obtain s1 up ms where up: "upsert_batch s (map (into_message a (mb_id box)) fs) = ((s1, up), ms)"
    by (cases "upsert_batch s (map (into_message a (mb_id box)) fs)") auto
  note w = upsert_batch_written [OF assms(1,2) up]
  obtain s' ts where th: "thread_each lower (mb_account box) ms s1 = Inr (s', ts)"
    by (rule thread_each_returns [OF assms(3) w(2)])
  have "written rid (mb_id box) g {} s1 s'"
    by (rule same_but_threads_written [OF writtenD(1) [OF w(1)] thread_each_effect [OF th]])
  from written_trans [OF w(1) this] have "written rid (mb_id box) g {f \<in> set fs. \<not> refused s (mb_id box) f} s s'" by simp
  with that up th w(3) show thesis by blast
qed

lemma write_unit_rows_written:
  assumes "rows_ok rid (mb_id box) g s" "\<forall>f\<in>set fs. fetched_ok rid g f" "0 < mb_account box"
  obtains s' up ms where "write_unit_rows lower box None (map (into_message a (mb_id box)) fs) s = Inr (s', (up, ms, no_effects))"
    "written rid (mb_id box) g {f \<in> set fs. \<not> refused s (mb_id box) f} s s'"
proof -
  obtain s1 up ms s' ts where u: "upsert_batch s (map (into_message a (mb_id box)) fs) = ((s1, up), ms)"
    "thread_each lower (mb_account box) ms s1 = Inr (s', ts)"
    "written rid (mb_id box) g {f \<in> set fs. \<not> refused s (mb_id box) f} s s'" by (rule unit_written [OF assms])
  from u(1,2) have "write_unit_rows lower box None (map (into_message a (mb_id box)) fs) s = Inr (s', (up, ms, no_effects))"
    by (simp add: write_unit_rows_def file_new_def)
  with that u(3) show thesis by blast
qed

lemma incremental_unit_written:
  assumes "rows_ok rid (mb_id box) g s" "\<forall>f\<in>set fs. fetched_ok rid g f" "0 < mb_account box"
  obtains s' arrivals where "incremental_unit lower box None has_account known_set (map (into_message a (mb_id box)) fs) s
      = Inr (s', (arrivals, no_effects))"
    "written rid (mb_id box) g {f \<in> set fs. \<not> refused s (mb_id box) f} s s'"
proof -
  obtain s1 up ms s' ts where u: "upsert_batch s (map (into_message a (mb_id box)) fs) = ((s1, up), ms)"
    "thread_each lower (mb_account box) ms s1 = Inr (s', ts)"
    "written rid (mb_id box) g {f \<in> set fs. \<not> refused s (mb_id box) f} s s'" by (rule unit_written [OF assms])
  from u(1,2) have "\<exists>arrivals. incremental_unit lower box None has_account known_set (map (into_message a (mb_id box)) fs) s
      = Inr (s', (arrivals, no_effects))" by (simp add: incremental_unit_def file_new_def)
  with that u(3) show thesis by blast
qed


subsection \<open>A batch\<close>

lemma parts_written:
  assumes "written rid box g {f \<in> set (take n fs). \<not> refused s box f} s t"
    and "written rid box g {f \<in> set (drop n fs). \<not> refused t box f} t u"
  shows "written rid box g {f \<in> set fs. \<not> refused s box f} s u"
proof -
  have "set fs = set (take n fs) \<union> set (drop n fs)" by (metis append_take_drop_id set_append)
  then have "{f \<in> set fs. \<not> refused s box f}
      = {f \<in> set (take n fs). \<not> refused s box f} \<union> {f \<in> set (drop n fs). \<not> refused t box f}"
    using refused_written [OF assms(1)] by auto
  with written_trans [OF assms] show ?thesis by simp
qed

lemma write_batch_written:
  assumes "rows_ok rid (mb_id box) g (snd w)" "\<forall>f\<in>set fs. fetched_ok rid g f" "0 < mb_account box"
  shows "\<exists>e s' r. write_batch B lower box None (map (into_message a (mb_id box)) fs) rep w = ((e, s'), Inr r)
    \<and> written rid (mb_id box) g {f \<in> set fs. \<not> refused (snd w) (mb_id box) f} (snd w) s'"
  using assms
proof (induction fs arbitrary: w rep rule: length_induct)
  case (1 fs)
  show ?case
  proof (cases "fs = []")
    case True
    with "1.prems" written_refl show ?thesis by (cases w) (auto simp: write_batch.simps)
  next
    case False
    let ?n = "min (unit_rows B (fst w)) (length fs)"
    have n: "0 < ?n" using False unit_rows_bounds(1) [of B "fst w"] by simp
    have ok: "\<forall>f\<in>set (take ?n fs). fetched_ok rid g f" "\<forall>f\<in>set (drop ?n fs). fetched_ok rid g f"
      using "1.prems"(2) in_set_takeD in_set_dropD by fast+
    obtain s1 up ms where unit: "write_unit_rows lower box None (map (into_message a (mb_id box)) (take ?n fs)) (snd w)
        = Inr (s1, (up, ms, no_effects))"
      and w1: "written rid (mb_id box) g {f \<in> set (take ?n fs). \<not> refused (snd w) (mb_id box) f} (snd w) s1"
      by (rule write_unit_rows_written [OF "1.prems"(1) ok(1) "1.prems"(3)])
    let ?w1 = "fst (yield_once B (fst w, s1))"
    have len: "length (drop ?n fs) < length fs" using n by simp
    have s1: "snd ?w1 = s1" by (simp add: yield_once_def)
    with writtenD(1) [OF w1] have ok1: "rows_ok rid (mb_id box) g (snd ?w1)" by simp
    from "1.IH" [rule_format, OF len ok1 bspec [OF ok(2)] "1.prems"(3)] obtain e s' r where rest: "write_batch B lower box None (map (into_message a (mb_id box)) (drop ?n fs))
        (add_unit rep up ms no_effects) ?w1 = ((e, s'), Inr r)"
      and w2: "written rid (mb_id box) g {f \<in> set (drop ?n fs). \<not> refused s1 (mb_id box) f} s1 s'"
      unfolding s1 by blast
    have "\<exists>r. write_batch B lower box None (map (into_message a (mb_id box)) fs) rep w = ((e, s'), Inr r)"
      using False unit rest by (subst write_batch.simps)
        (simp add: atomically_def take_map drop_map Let_def split: prod.split)
    with parts_written [OF w1 w2] show ?thesis by blast
  qed
qed

lemma write_changed_written:
  assumes "rows_ok rid (mb_id box) g (snd w)" "\<forall>f\<in>set fs. fetched_ok rid g f" "0 < mb_account box"
  shows "\<exists>e s' r. write_changed B lower box None has_account known_set (map (into_message a (mb_id box)) fs) found w
      = ((e, s'), Inr r)
    \<and> written rid (mb_id box) g {f \<in> set fs. \<not> refused (snd w) (mb_id box) f} (snd w) s'"
  using assms
proof (induction fs arbitrary: w found rule: length_induct)
  case (1 fs)
  show ?case
  proof (cases "fs = []")
    case True
    with "1.prems" written_refl show ?thesis by (cases w) (auto simp: write_changed.simps)
  next
    case False
    let ?n = "min (unit_rows B (fst w)) (length fs)"
    have n: "0 < ?n" using False unit_rows_bounds(1) [of B "fst w"] by simp
    have ok: "\<forall>f\<in>set (take ?n fs). fetched_ok rid g f" "\<forall>f\<in>set (drop ?n fs). fetched_ok rid g f"
      using "1.prems"(2) in_set_takeD in_set_dropD by fast+
    obtain s1 newly where unit: "incremental_unit lower box None has_account known_set
        (map (into_message a (mb_id box)) (take ?n fs)) (snd w) = Inr (s1, (newly, no_effects))"
      and w1: "written rid (mb_id box) g {f \<in> set (take ?n fs). \<not> refused (snd w) (mb_id box) f} (snd w) s1"
      by (rule incremental_unit_written [OF "1.prems"(1) ok(1) "1.prems"(3)])
    let ?w1 = "fst (yield_once B (fst w, s1))"
    let ?found = "(fst found @ newly, snd found @ fe_filtered no_effects @ fe_held no_effects)"
    have len: "length (drop ?n fs) < length fs" using n by simp
    have s1: "snd ?w1 = s1" by (simp add: yield_once_def)
    with writtenD(1) [OF w1] have ok1: "rows_ok rid (mb_id box) g (snd ?w1)" by simp
    from "1.IH" [rule_format, OF len ok1 bspec [OF ok(2)] "1.prems"(3)] obtain e s' r where rest: "write_changed B lower box None has_account known_set
        (map (into_message a (mb_id box)) (drop ?n fs)) ?found ?w1 = ((e, s'), Inr r)"
      and w2: "written rid (mb_id box) g {f \<in> set (drop ?n fs). \<not> refused s1 (mb_id box) f} s1 s'"
      unfolding s1 by blast
    have "write_changed B lower box None has_account known_set (map (into_message a (mb_id box)) fs) found w = ((e, s'), Inr r)"
      using False unit rest by (subst write_changed.simps)
        (simp add: atomically_def take_map drop_map Let_def split: prod.split)
    with parts_written [OF w1 w2] show ?thesis by blast
  qed
qed

text \<open>A message whose row is unchanged is not written, and its row agrees with it.\<close>

lemma fs_eq_same_keys: "fs_eq a b \<Longrightarrow> fs_keys a = fs_keys b"
proof -
  assume "fs_eq a b"
  then have "map flag_key a = map flag_key b"
    unfolding fs_eq_def by (induction rule: list_all2_induct) (auto simp: flag_eq_key)
  then show ?thesis by (metis fs_keys_def set_map)
qed

lemma unchanged_row_at:
  assumes "fetched_ok rid g f" "unchanged_row known box s (into_message a box f) = Some r"
  shows "row_at s box g (fm_uid f) = Some (core r)" "agrees f (core r)"
proof -
  from assms have find: "find (\<lambda>r. cm_mailbox r = box \<and> sm_validity r = Some g \<and> sm_uid r = Some (fm_uid f)) (st_messages s) = Some r"
    and same: "sm_mod_seq r = fm_mod_seq f" "fs_eq (sm_flags r) (fs_persistable (fs_persistable (fm_flags f)))"
    by (auto simp: unchanged_row_def fetched_ok_def split: if_splits option.splits)
  then show "row_at s box g (fm_uid f) = Some (core r)" by (simp add: row_at_def rows_def find_core)
  from same show "agrees f (core r)" by (auto simp: agrees_def fs_keys_persistable dest: fs_eq_same_keys)
qed

lemma written_more:
  assumes "written rid box g F s s'"
    and "\<And>f. f \<in> G \<Longrightarrow> \<exists>r. row_at s box g (fm_uid f) = Some r \<and> agrees f r"
  shows "written rid box g (F \<union> G) s s'"
proof -
  note F = writtenD [OF assms(1)]
  have "\<exists>f\<in>F \<union> G. fm_uid f = u \<and> (\<exists>r. row_at s' box g u = Some r
        \<and> (mirrors (unacknowledged s) f r \<or> row_at s box g u = Some r \<and> agrees f r)
        \<and> (\<forall>r\<^sub>0. row_at s box g u = Some r\<^sub>0 \<longrightarrow> cm_id r = cm_id r\<^sub>0))" if u: "u \<in> fm_uid ` (F \<union> G)" for u
  proof (cases "u \<in> fm_uid ` F")
    case True
    from F(4) [OF this] show ?thesis by blast
  next
    case False
    with u obtain f where f: "f \<in> G" "fm_uid f = u" by auto
    from assms(2) [OF f(1)] F(3) [OF False] f(2) show ?thesis using f(1) by auto
  qed
  moreover have "row_at s' box g u = row_at s box g u" if "u \<notin> fm_uid ` (F \<union> G)" for u
    using that F(3) [of u] by (simp add: image_Un)
  ultimately show ?thesis using F(1,2) unfolding written_def by presburger
qed

lemma filter_zip_map: "map snd (filter (\<lambda>(x, _). x = None) (zip (map h xs) (map k xs))) = map k (filter (\<lambda>x. h x = None) xs)"
  by (induction xs) auto

lemma commit_batch_written:
  assumes "rows_ok rid (mb_id box) g (snd w)" "\<forall>f\<in>set fs. fetched_ok rid g f" "0 < mb_account box"
  shows "\<exists>e s' r F. commit_batch B lower box known None (map (into_message a (mb_id box)) fs) w = ((e, s'), Inr r)
    \<and> {f \<in> set fs. \<not> refused (snd w) (mb_id box) f} \<subseteq> F \<and> F \<subseteq> set fs \<and> written rid (mb_id box) g F (snd w) s'"
proof -
  let ?skip = "\<lambda>f. unchanged_row known (mb_id box) (snd w) (into_message a (mb_id box) f)"
  let ?to = "filter (\<lambda>f. ?skip f = None) fs" and ?kept = "\<lambda>fs. {f \<in> set fs. \<not> refused (snd w) (mb_id box) f}"
  have to: "\<forall>f\<in>set ?to. fetched_ok rid g f" using assms(2) by simp
  from write_batch_written [OF assms(1) to assms(3), of B lower a no_report]
  obtain e s' rep changed where run: "write_batch B lower box None (map (into_message a (mb_id box)) ?to) no_report w = ((e, s'), Inr (rep, changed))"
    and w: "written rid (mb_id box) g (?kept ?to) (snd w) s'" by auto
  have "\<exists>r. commit_batch B lower box known None (map (into_message a (mb_id box)) fs) w = ((e, s'), Inr r)"
  proof (cases "list_all (\<lambda>f. ?skip f = None) fs")
    case True
    then have "?to = fs" by (simp add: list_all_iff)
    with True run show ?thesis by (simp add: commit_batch_def bindP_def query_def list.pred_map comp_def)
  next
    case False
    with run filter_zip_map [of ?skip fs "into_message a (mb_id box)"] show ?thesis
      by (simp add: commit_batch_def bindP_def query_def list.pred_map comp_def returnP_def)
  qed
  moreover have "written rid (mb_id box) g (?kept ?to \<union> {f \<in> set fs. ?skip f \<noteq> None}) (snd w) s'"
    using w by (rule written_more) (use assms(2) unchanged_row_at in fastforce)
  moreover have "?kept fs \<subseteq> ?kept ?to \<union> {f \<in> set fs. ?skip f \<noteq> None}" "?kept ?to \<union> {f \<in> set fs. ?skip f \<noteq> None} \<subseteq> set fs" by auto
  ultimately show ?thesis by blast
qed


subsection \<open>An enumeration\<close>

text \<open>
  What the answers of a backend are held to: a predicate on each answered fetch, whatever
  state the environment is in.  A backend is undisturbed when every call succeeds and nobody
  cancels the pass.
\<close>

definition answers :: "'s sync_backend \<Rightarrow> (ranges \<Rightarrow> nat option \<Rightarrow> fetched_message list \<Rightarrow> bool) \<Rightarrow> bool" where
  "answers B good \<longleftrightarrow>
     (\<forall>rs q e ms. snd (sb_fetch_headers B rs q e) = Inr ms \<longrightarrow> good rs q ms)
   \<and> (\<forall>rs q e ms. snd (sb_fetch_for_filing B rs q e) = Inr ms \<longrightarrow> good rs q ms)"

definition undisturbed :: "'s sync_backend \<Rightarrow> bool" where
  "undisturbed B \<longleftrightarrow>
     (\<forall>e. \<not> sb_cancelled B e \<and> snd (sb_existing_uids B e) \<noteq> Inl CancelledError
        \<and> (\<exists>sel. snd (sb_select B e) = Inr sel) \<and> (\<exists>l. snd (sb_fetch_flags B e) = Inr l)
        \<and> (\<forall>rs q. (\<exists>ms. snd (sb_fetch_headers B rs q e) = Inr ms) \<and> (\<exists>ms. snd (sb_fetch_for_filing B rs q e) = Inr ms)))"

text \<open>What an enumeration of \<open>batches\<close> did: the answers it read and the messages it wrote.\<close>

definition enumerated :: "(nat \<Rightarrow> remote_id) \<Rightarrow> mailbox_id \<Rightarrow> nat \<Rightarrow> (ranges \<Rightarrow> nat option \<Rightarrow> fetched_message list \<Rightarrow> bool)
    \<Rightarrow> ranges list \<Rightarrow> bool \<Rightarrow> sync_store \<Rightarrow> sync_store \<Rightarrow> bool" where
  "enumerated rid box g good batches whole s s' \<longleftrightarrow>
     (\<exists>F mss. written rid box g F s s'
        \<and> {f \<in> \<Union> (set ` set mss). \<not> refused s box f} \<subseteq> F \<and> F \<subseteq> \<Union> (set ` set mss)
        \<and> list_all2 (\<lambda>b. good b None) (take (length mss) batches) mss
        \<and> (whole \<longrightarrow> length mss = length batches))"

lemma enumerated_none: "rows_ok rid box g s \<Longrightarrow> \<not> whole \<or> batches = [] \<Longrightarrow> enumerated rid box g good batches whole s s"
  unfolding enumerated_def using written_refl by (intro exI [of _ "{}"] exI [of _ "[]"]) auto

lemma enumerated_step:
  assumes "written rid box g F s t" "{f \<in> set ms. \<not> refused s box f} \<subseteq> F" "F \<subseteq> set ms" "good b None ms"
    and "enumerated rid box g good bs whole t u"
  shows "enumerated rid box g good (b # bs) whole s u"
proof -
  from assms(5) obtain G mss where G: "written rid box g G t u" "{f \<in> \<Union> (set ` set mss). \<not> refused t box f} \<subseteq> G"
    "G \<subseteq> \<Union> (set ` set mss)" "list_all2 (\<lambda>b. good b None) (take (length mss) bs) mss" "whole \<longrightarrow> length mss = length bs"
    unfolding enumerated_def by blast
  have "refused t = refused s" by (rule refused_written [OF assms(1)])
  with G assms(2-4) show ?thesis
    unfolding enumerated_def by (intro exI [of _ "F \<union> G"] exI [of _ "ms # mss"] conjI written_trans [OF assms(1) G(1)]) auto
qed

lemma batch_answer_spec:
  assumes "batch_answer B b ahead w = (w', answer)" "answers B good" "\<And>ms. ahead = Some (Inr ms) \<Longrightarrow> good b None ms"
  shows "snd w' = snd w" "answer = Inr ms \<Longrightarrow> good b None ms"
    "undisturbed B \<Longrightarrow> \<forall>x. ahead \<noteq> Some (Inl x) \<Longrightarrow> \<exists>ms. answer = Inr ms"
proof -
  show "snd w' = snd w"
    using assms(1) by (auto simp: batch_answer_def throwP_def returnP_def ask_def split: option.splits sum.splits prod.splits)
  show "good b None ms" if "answer = Inr ms"
    using that assms unfolding answers_def batch_answer_def throwP_def returnP_def ask_def
    by (auto split: option.splits sum.splits prod.splits) (metis snd_conv)+
  show "\<exists>ms. answer = Inr ms" if "undisturbed B" "\<forall>x. ahead \<noteq> Some (Inl x)"
    using that assms(1) unfolding undisturbed_def batch_answer_def throwP_def returnP_def ask_def
    by (auto split: option.splits sum.splits prod.splits) (metis Inl_Inr_False snd_conv)+
qed

lemma read_ahead_spec:
  assumes "answers B good"
  obtains w' ahead where "read_ahead B bs w = (w', Inr ahead)" "snd w' = snd w"
    "\<And>ms. ahead = Some (Inr ms) \<Longrightarrow> bs \<noteq> [] \<and> good (hd bs) None ms"
    "undisturbed B \<Longrightarrow> \<forall>x. ahead \<noteq> Some (Inl x)"
proof -
  obtain w' r where r: "read_ahead B bs w = (w', r)" by (cases "read_ahead B bs w")
  then obtain ahead where a: "r = Inr ahead" "snd w' = snd w"
    by (auto simp: read_ahead_def split: list.splits if_splits prod.splits)
  moreover have "bs \<noteq> [] \<and> good (hd bs) None ms" if "ahead = Some (Inr ms)" for ms
    using that r a(1) assms unfolding answers_def
    by (auto simp: read_ahead_def split: list.splits if_splits prod.splits) (metis snd_conv)
  moreover have "ahead \<noteq> Some (Inl x)" if "undisturbed B" for x
    using that r a(1) unfolding undisturbed_def
    by (auto simp: read_ahead_def split: list.splits if_splits prod.splits) (metis Inl_Inr_False snd_conv)
  ultimately show thesis using that r by blast
qed

text \<open>One batch in hand: nothing to write, or written and the rest enumerated.\<close>

lemma batch_in_hand:
  assumes "rows_ok rid (mb_id box) g (snd w)" "\<forall>f\<in>set fs. fetched_ok rid g f" "0 < mb_account box"
  obtains w' rep' F where
    "(if fs = [] then go rep w
      else bindP (commit_batch B lower box known None (map (into_message (mb_account box) (mb_id box)) fs)) (\<lambda>(r, _).
             bindP (yield_once B) (\<lambda>_. go (add_batch cov rep r))) w) = go rep' w'"
    "written rid (mb_id box) g F (snd w) (snd w')" "{f \<in> set fs. \<not> refused (snd w) (mb_id box) f} \<subseteq> F" "F \<subseteq> set fs"
proof (cases "fs = []")
  case True
  with written_refl [OF assms(1)] show thesis by (intro that [of rep w "{}"]) auto
next
  case False
  from commit_batch_written [OF assms, of B lower known "mb_account box"]
  obtain e s r x F where "commit_batch B lower box known None (map (into_message (mb_account box) (mb_id box)) fs) w = ((e, s), Inr (r, x))"
    "{f \<in> set fs. \<not> refused (snd w) (mb_id box) f} \<subseteq> F" "F \<subseteq> set fs" "written rid (mb_id box) g F (snd w) s" by auto
  with False show thesis by (intro that [of "add_batch cov rep r" "(sb_yield B e, s)" F]) (auto simp: bindP_def yield_once_def)
qed

lemma enumerate_batches_written:
  assumes "rows_ok rid (mb_id box) g (snd w)" "0 < mb_account box"
    and "answers B good" "\<And>rs q ms f. good rs q ms \<Longrightarrow> f \<in> set ms \<Longrightarrow> fetched_ok rid g f"
    and "\<And>ms. ahead = Some (Inr ms) \<Longrightarrow> batches \<noteq> [] \<and> good (hd batches) None ms"
  shows "\<exists>e s' res. enumerate_batches B lower box cov None known batches ahead rep w = ((e, s'), res)
    \<and> enumerated rid (mb_id box) g good batches (\<exists>x. res = Inr x) (snd w) s'
    \<and> (undisturbed B \<longrightarrow> (\<forall>x. ahead \<noteq> Some (Inl x)) \<longrightarrow> (\<exists>x. res = Inr x))"
  using assms(1,5)
proof (induction batches arbitrary: ahead rep w)
  case Nil
  then show ?case by (cases w) (simp add: returnP_def enumerated_none)
next
  case (Cons b bs)
  note stopped = enumerated_none [OF Cons.prems(1), of False "b # bs" good]
  show ?case
  proof (cases "sb_cancelled B (fst w)")
    case True
    then have "\<not> undisturbed B" by (auto simp: undisturbed_def)
    with True stopped show ?thesis by (cases w) (simp add: bindP_def query_def throwP_def)
  next
    case not_cancelled: False
    obtain w1 answer where answer: "batch_answer B b ahead w = (w1, answer)" by (cases "batch_answer B b ahead w")
    note spec = batch_answer_spec [OF answer assms(3)]
    show ?thesis
    proof (cases answer)
      case (Inl x)
      with spec(3) Cons.prems(2) have "\<not> undisturbed B \<or> (\<exists>x. ahead = Some (Inl x))" by auto
      with stopped answer Inl spec(1) Cons.prems(2) not_cancelled show ?thesis
        by (cases w1) (auto simp: bindP_def query_def)
    next
      case (Inr fetched)
      with spec(2) Cons.prems(2) have good: "good b None fetched" by auto
      obtain w2 ahead' where ra: "read_ahead B bs w1 = (w2, Inr ahead')" and w2: "snd w2 = snd w1"
        and ah: "\<And>ms. ahead' = Some (Inr ms) \<Longrightarrow> bs \<noteq> [] \<and> good (hd bs) None ms"
        and un: "undisturbed B \<Longrightarrow> \<forall>x. ahead' \<noteq> Some (Inl x)" by (rule read_ahead_spec [OF assms(3), of bs w1]) blast
      have same: "snd w2 = snd w" using w2 spec(1) Cons.prems(2) by auto
      let ?fs = "rev (sort_key fm_uid fetched)"
      have head: "enumerate_batches B lower box cov None known (b # bs) ahead rep w
        = (if ?fs = [] then enumerate_batches B lower box cov None known bs ahead' rep w2
           else bindP (commit_batch B lower box known None (map (into_message (mb_account box) (mb_id box)) ?fs)) (\<lambda>(r, _).
             bindP (yield_once B) (\<lambda>_. enumerate_batches B lower box cov None known bs ahead' (add_batch cov rep r))) w2)"
        using answer Inr ra not_cancelled by (simp add: bindP_def query_def Let_def)
      have fs: "\<forall>f\<in>set ?fs. fetched_ok rid g f" using assms(4) good by auto
      from Cons.prems(1) same have ok2: "rows_ok rid (mb_id box) g (snd w2)" by simp
      obtain w3 rep' F where w3: "enumerate_batches B lower box cov None known (b # bs) ahead rep w
          = enumerate_batches B lower box cov None known bs ahead' rep' w3"
        "written rid (mb_id box) g F (snd w) (snd w3)" "{f \<in> set fetched. \<not> refused (snd w) (mb_id box) f} \<subseteq> F" "F \<subseteq> set fetched"
        unfolding head same [symmetric]
        by (rule batch_in_hand [OF ok2 fs assms(2), where go = "enumerate_batches B lower box cov None known bs ahead'"])
          (simp only: set_rev set_sort)
      from Cons.IH [OF writtenD(1) [OF w3(2)] ah] obtain e s' res
        where rest: "enumerate_batches B lower box cov None known bs ahead' rep' w3 = ((e, s'), res)"
          "enumerated rid (mb_id box) g good bs (\<exists>x. res = Inr x) (snd w3) s'"
          "undisturbed B \<longrightarrow> (\<forall>x. ahead' \<noteq> Some (Inl x)) \<longrightarrow> (\<exists>x. res = Inr x)" by blast
      with w3(1) un enumerated_step [OF w3(2-4) good rest(2)] show ?thesis by auto
    qed
  qed
qed

end
