(* ===== verification/Resync_Facts.thy ===== *)
theory Resync_Facts
  imports Pass_Facts "HOL-Library.Multiset"
begin

section \<open>A pass against a server that answers\<close>

text \<open>
  \<open>truthful B R\<close>: throughout the pass the server holds the mailbox \<open>R\<close> and every answer
  comes from it, in any order the server likes, though any call may fail, the pass may be
  cancelled, a backend that cannot list UIDs or flags says so, and a range that ends in
  \<open>*\<close> may be answered with the highest UID below it.  \<open>holds B R\<close>: and no call fails and
  every range is answered exactly.  What an enumeration does then.
\<close>

subsection \<open>The server\<close>

record server_mailbox =
  sv_generation :: nat
  sv_uid_next :: nat
  sv_highest_mod_seq :: "nat option"
  sv_messages :: "fetched_message list"

definition status_of :: "server_mailbox \<Rightarrow> select_status" where
  "status_of R = \<lparr>sst_generation = sv_generation R, sst_uid_next = sv_uid_next R,
     sst_exists = length (sv_messages R), sst_highest_mod_seq = sv_highest_mod_seq R\<rparr>"

definition changed_since :: "nat option \<Rightarrow> fetched_message \<Rightarrow> bool" where
  "changed_since q f \<longleftrightarrow>
     (case q of None \<Rightarrow> True | Some s \<Rightarrow> (case fm_mod_seq f of Some m \<Rightarrow> s < m | None \<Rightarrow> False))"

definition exactly :: "server_mailbox \<Rightarrow> ranges \<Rightarrow> nat option \<Rightarrow> fetched_message list \<Rightarrow> bool" where
  "exactly R rs q ms \<longleftrightarrow>
     mset ms = mset (filter (\<lambda>f. uset_contains rs (fm_uid f) \<and> changed_since q f) (sv_messages R))"

text \<open>
  A range that ends in \<open>*\<close> always names the highest UID there is, so a server may answer
  \<open>n:*\<close> with it even where it is below \<open>n\<close>.
\<close>

definition highest :: "server_mailbox \<Rightarrow> fetched_message \<Rightarrow> bool" where
  "highest R f \<longleftrightarrow> (\<forall>f'\<in>set (sv_messages R). fm_uid f' \<le> fm_uid f)"

definition reports :: "server_mailbox \<Rightarrow> ranges \<Rightarrow> nat option \<Rightarrow> fetched_message list \<Rightarrow> bool" where
  "reports R rs q ms \<longleftrightarrow> exactly R rs q ms
   \<or> uset_contains rs STAR
     \<and> mset ms = mset (filter (\<lambda>f. (uset_contains rs (fm_uid f) \<or> highest R f) \<and> changed_since q f) (sv_messages R))"

definition truthful :: "'s sync_backend \<Rightarrow> server_mailbox \<Rightarrow> bool" where
  "truthful B R \<longleftrightarrow>
     answers B (reports R)
   \<and> (\<forall>e sel. snd (sb_select B e) = Inr sel \<longrightarrow> sel = status_of R)
   \<and> (\<forall>e us. snd (sb_existing_uids B e) = Inr (Some us) \<longrightarrow> mset us = mset (map fm_uid (sv_messages R)))
   \<and> (\<forall>e l. snd (sb_fetch_flags B e) = Inr (Some l)
        \<longrightarrow> mset l = mset (map (\<lambda>f. (fm_uid f, fm_flags f)) (sv_messages R)))"

definition holds :: "'s sync_backend \<Rightarrow> server_mailbox \<Rightarrow> bool" where
  "holds B R \<longleftrightarrow> undisturbed B \<and> truthful B R \<and> answers B (exactly R)"

definition server_ok :: "(nat \<Rightarrow> remote_id) \<Rightarrow> server_mailbox \<Rightarrow> bool" where
  "server_ok rid R \<longleftrightarrow>
     distinct (map fm_uid (sv_messages R)) \<and> sv_uid_next R \<le> STAR
   \<and> (\<forall>f\<in>set (sv_messages R). fetched_ok rid (sv_generation R) f \<and> fm_uid f < sv_uid_next R)"

definition server_uids :: "server_mailbox \<Rightarrow> nat set" where
  "server_uids R = fm_uid ` set (sv_messages R)"

lemma exactly_set: "exactly R rs q ms \<Longrightarrow>
    set ms = {f \<in> set (sv_messages R). uset_contains rs (fm_uid f) \<and> changed_since q f}"
  unfolding exactly_def by (drule mset_eq_setD) simp

lemma exactly_reports: "exactly R rs q ms \<Longrightarrow> reports R rs q ms"
  by (simp add: reports_def)

lemma reports_set:
  assumes "reports R rs q ms"
  shows "{f \<in> set (sv_messages R). uset_contains rs (fm_uid f) \<and> changed_since q f} \<subseteq> set ms"
    "set ms \<subseteq> set (sv_messages R)"
proof -
  have "set ms = {f \<in> set (sv_messages R). uset_contains rs (fm_uid f) \<and> changed_since q f}
      \<or> set ms = {f \<in> set (sv_messages R). (uset_contains rs (fm_uid f) \<or> highest R f) \<and> changed_since q f}"
    using assms unfolding reports_def by (metis exactly_set mset_eq_setD set_filter)
  then show "{f \<in> set (sv_messages R). uset_contains rs (fm_uid f) \<and> changed_since q f} \<subseteq> set ms"
    "set ms \<subseteq> set (sv_messages R)" by auto
qed

lemma changed_since_None [simp]: "changed_since None f"
  by (simp add: changed_since_def)

lemma contains_from_iter:
  assumes "\<forall>u\<in>set us. u \<le> STAR"
  shows "uset_contains (uset_from_iter us) u \<longleftrightarrow> u \<in> set us \<and> 1 \<le> u"
proof -
  note spec = uset_from_iter_spec [OF assms]
  show ?thesis unfolding uset_contains_members [OF conjunct1 [OF spec]] conjunct2 [OF spec] by auto
qed

lemma contains_onwards:
  assumes "v \<le> STAR"
  shows "uset_contains (uset_from_uid_onwards v) u \<longleftrightarrow> v \<le> u \<and> 1 \<le> u \<and> u \<le> STAR"
proof -
  have "uset_wf uset_new" by (simp add: uset_new_def)
  note spec = uset_insert_range_spec [OF this assms order_refl]
  have "min v STAR = v" "max v STAR = STAR" using assms by simp_all
  then show ?thesis
    unfolding uset_from_uid_onwards_def uset_range_def uset_contains_members [OF conjunct1 [OF spec]] conjunct2 [OF spec]
    by (auto simp: uset_new_def)
qed

lemma contains_all: "uset_contains uset_all u \<longleftrightarrow> 1 \<le> u \<and> u \<le> STAR"
  using contains_onwards [of 1 u] by (auto simp: uset_all_def STAR_def u32_max_def)

lemma server_fetch:
  assumes "server_ok rid R" "f \<in> set (sv_messages R)"
  shows "fetched_ok rid (sv_generation R) f" "1 \<le> fm_uid f" "fm_uid f < sv_uid_next R" "fm_uid f \<le> STAR"
  using assms by (auto simp: server_ok_def fetched_ok_def)

lemma reported_ok: "server_ok rid R \<Longrightarrow> reports R rs q ms \<Longrightarrow> f \<in> set ms \<Longrightarrow> fetched_ok rid (sv_generation R) f"
  using reports_set(2) server_fetch(1) by blast

lemma set_chunks_of: "0 < n \<Longrightarrow> \<Union> (set ` set (chunks_of n xs)) = set xs"
proof (induction n xs rule: chunks_of.induct)
  case (1 n xs)
  show ?case
  proof (cases "xs = []")
    case False
    with 1 have "\<Union> (set ` set (chunks_of n xs)) = set (take n xs) \<union> set (drop n xs)"
      by (simp add: chunks_of.simps [of n xs])
    then show ?thesis by (metis append_take_drop_id set_append)
  qed (simp add: chunks_of.simps)
qed

text \<open>The answers to a list of batches are the server's messages those batches name.\<close>

lemma answered_batches:
  assumes "list_all2 (\<lambda>b. exactly R b None) batches mss"
  shows "\<Union> (set ` set mss) = {f \<in> set (sv_messages R). \<exists>b\<in>set batches. uset_contains b (fm_uid f)}"
  using assms by (induction batches mss rule: list_all2_induct) (auto dest!: exactly_set)

lemma reported_batches:
  assumes "list_all2 (\<lambda>b. reports R b None) batches mss"
  shows "{f \<in> set (sv_messages R). \<exists>b\<in>set batches. uset_contains b (fm_uid f)} \<subseteq> \<Union> (set ` set mss)"
    "\<Union> (set ` set mss) \<subseteq> set (sv_messages R)"
  using assms by (induction batches mss rule: list_all2_induct) (auto dest: reports_set(2) reports_set(1) [THEN subsetD])

lemma fetched_batches:
  assumes "server_ok rid R" "0 < n" "\<forall>u\<in>set us. u \<le> STAR"
    and "list_all2 (\<lambda>b. exactly R b None) (map uset_from_iter (chunks_of n us)) mss"
  shows "\<Union> (set ` set mss) = {f \<in> set (sv_messages R). fm_uid f \<in> set us}"
proof -
  have "(\<exists>b\<in>set (map uset_from_iter (chunks_of n us)). uset_contains b u) \<longleftrightarrow> u \<in> set us" if "1 \<le> u" for u
  proof -
    have "uset_contains (uset_from_iter c) u \<longleftrightarrow> u \<in> set c" if "c \<in> set (chunks_of n us)" for c
    proof -
      have "\<forall>u\<in>set c. u \<le> STAR" using that assms(3) set_chunks_of [OF assms(2), of us] by blast
      from contains_from_iter [OF this, of u] \<open>1 \<le> u\<close> show ?thesis by simp
    qed
    then have "(\<exists>b\<in>set (map uset_from_iter (chunks_of n us)). uset_contains b u) \<longleftrightarrow> (\<exists>c\<in>set (chunks_of n us). u \<in> set c)"
      by auto
    also have "\<dots> \<longleftrightarrow> u \<in> set us" using set_chunks_of [OF assms(2), of us] by blast
    finally show ?thesis .
  qed
  with answered_batches [OF assms(4)] server_fetch(2) [OF assms(1)] show ?thesis by auto
qed


subsection \<open>The synchronization state\<close>

definition sync_ready :: "mailbox_id \<Rightarrow> sync_state \<Rightarrow> sync_store \<Rightarrow> bool" where
  "sync_ready box x s \<longleftrightarrow> get_sync s box = Some x \<and> 0 < box \<and> 0 < ss_account_id x"

definition with_sync :: "sync_store \<Rightarrow> sync_store \<Rightarrow> sync_store" where
  "with_sync t s = s\<lparr>st_sync := st_sync t\<rparr>"

lemma with_sync_simps [simp]:
  "rows (with_sync t s) = rows s" "row_at (with_sync t s) = row_at s" "st_next (with_sync t s) = st_next s"
  "st_queue (with_sync t s) = st_queue s" "st_drafts (with_sync t s) = st_drafts s" "st_sync (with_sync t s) = st_sync t"
  "st_mailboxes (with_sync t s) = st_mailboxes s" "st_accounts (with_sync t s) = st_accounts s"
  "st_messages (with_sync t s) = st_messages s" "with_sync t (with_sync u s) = with_sync t s" "with_sync s s = s"
  by (simp_all add: with_sync_def rows_def row_at_def [abs_def])

lemma with_sync_readers [simp]:
  "refused (with_sync t s) = refused s" "unacknowledged (with_sync t s) = unacknowledged s"
  "uids_in (with_sync t s) = uids_in s" "count_in (with_sync t s) = count_in s" "rows_ok rid box g (with_sync t s) = rows_ok rid box g s"
  by (auto simp: refused_def [abs_def] is_own_draft_def is_shadowed_def unacknowledged_def [abs_def] uids_in_def [abs_def]
      count_in_def [abs_def] rows_ok_def)

text \<open>What was written between two stores, whatever became of the synchronization state.\<close>

definition written_only :: "(nat \<Rightarrow> remote_id) \<Rightarrow> mailbox_id \<Rightarrow> nat \<Rightarrow> fetched_message set \<Rightarrow> sync_store \<Rightarrow> sync_store \<Rightarrow> bool" where
  "written_only rid box g F s s' \<longleftrightarrow> written rid box g F s (with_sync s s')"

lemma written_with_sync:
  "written rid box g F (with_sync t s) (with_sync t s') \<longleftrightarrow> written rid box g F (with_sync u s) (with_sync u s')"
  by (simp add: written_def same_frame_def)

lemma written_only_trans:
  assumes "written_only rid box g F s t" "written_only rid box g G t u"
  shows "written_only rid box g (F \<union> G) s u"
proof -
  from assms(2) have "written rid box g G (with_sync s t) (with_sync s u)"
    using written_with_sync [of rid box g G t t u s] by (simp add: written_only_def)
  with assms(1) show ?thesis unfolding written_only_def by (rule written_trans)
qed

lemma written_is_only: "written rid box g F s s' \<Longrightarrow> written_only rid box g F s s'"
  unfolding written_only_def by (metis same_frame_def with_sync_def with_sync_simps(11) writtenD(2))

lemma sync_op_run:
  assumes "sync_ready box x s" "ss_mailbox_id (f x) = ss_mailbox_id x" "ss_account_id (f x) = ss_account_id x"
  obtains s' where "sync_op box f (e, s) = ((e, s'), Inr ())" "sync_ready box (f x) s'" "s' = with_sync s' s"
proof -
  have find: "find (\<lambda>y. ss_mailbox_id y = box) (st_sync s) = Some x" and id: "ss_mailbox_id x = box"
    using assms(1) by (auto simp: sync_ready_def get_sync_def find_Some_iff)
  let ?s = "s\<lparr>st_sync := map (\<lambda>y. if ss_mailbox_id y = box then f x else y) (st_sync s)\<rparr>"
  have "sync_op box f (e, s) = ((e, ?s), Inr ())"
    using assms id by (simp add: sync_op_def atomically_def mutate_sync_def require_sync_def save_sync_def
        sync_ready_def require_persisted_def)
  moreover have "find (\<lambda>y. ss_mailbox_id y = box) (map (\<lambda>y. if ss_mailbox_id y = box then f x else y) ys)
      = map_option (\<lambda>_. f x) (find (\<lambda>y. ss_mailbox_id y = box) ys)" for ys
    using assms(2) id by (induction ys) auto
  then have "sync_ready box (f x) ?s" using assms(1,3) find by (simp add: sync_ready_def get_sync_def)
  ultimately show thesis by (intro that [of ?s]) (simp_all add: with_sync_def)
qed

lemma sync_op_keeps [simp]:
  "ss_mailbox_id (sync_observe x st n) = ss_mailbox_id x" "ss_account_id (sync_observe x st n) = ss_account_id x"
  "ss_mailbox_id (complete_full_sync x n) = ss_mailbox_id x" "ss_account_id (complete_full_sync x n) = ss_account_id x"
  "ss_mailbox_id (record_flag_pass x b) = ss_mailbox_id x" "ss_account_id (record_flag_pass x b) = ss_account_id x"
  by (auto simp: sync_observe_def complete_full_sync_def record_flag_pass_def Let_def split: option.splits)

lemma sync_ready_with: "sync_ready box x (with_sync t s) \<longleftrightarrow> sync_ready box x t"
  by (simp add: sync_ready_def get_sync_def)

lemma written_sync_ready: "written rid box g F s s' \<Longrightarrow> sync_ready b x s' \<longleftrightarrow> sync_ready b x s"
  using writtenD(2) [of rid box g F s s'] by (simp add: same_frame_def sync_ready_def get_sync_def)


subsection \<open>The steps of a pass\<close>

lemma bindP_okI: "p w = (w', Inr x) \<Longrightarrow> f x w' = res \<Longrightarrow> bindP p f w = res"
  by (simp add: bindP_def)

lemma bindP_return [simp]: "bindP (returnP x) f w = f x w"
  by (simp add: bindP_def returnP_def)

lemma bindP_query [simp]: "bindP (query h) f w = f (h (fst w) (snd w)) w"
  by (simp add: bindP_def query_def)

lemma ask_select:
  assumes "holds B R"
  obtains e' where "ask (sb_select B) (e, s) = ((e', s), Inr (status_of R))"
proof -
  obtain e' r where "sb_select B e = (e', r)" by (cases "sb_select B e")
  moreover from this have "r = Inr (status_of R)" using assms unfolding holds_def undisturbed_def truthful_def by (metis snd_conv)
  ultimately show thesis by (intro that [of e']) (simp add: ask_def)
qed

lemma ask_existing:
  assumes "holds B R"
  obtains e' present where "existing_uids B (e, s) = ((e', s), Inr present)"
    "present = None \<or> (\<exists>us. present = Some us \<and> mset us = mset (map fm_uid (sv_messages R)))"
proof -
  obtain e' r where r: "sb_existing_uids B e = (e', r)" by (cases "sb_existing_uids B e")
  have nc: "r \<noteq> Inl CancelledError" using assms r unfolding holds_def undisturbed_def by (metis snd_conv)
  show thesis
  proof (cases r)
    case (Inl x)
    with r nc show thesis by (intro that [of e' None]) (auto simp: existing_uids_def split: backend_error.splits)
  next
    case (Inr present)
    then have "\<And>us. present = Some us \<Longrightarrow> mset us = mset (map fm_uid (sv_messages R))"
      using assms r unfolding holds_def truthful_def by (metis snd_conv)
    with r Inr show thesis by (intro that [of e' present]) (auto simp: existing_uids_def)
  qed
qed

lemma ask_filing:
  assumes "holds B R"
  obtains e' ms where "ask (sb_fetch_for_filing B rs q) (e, s) = ((e', s), Inr ms)" "exactly R rs q ms"
proof -
  obtain e' r where r: "sb_fetch_for_filing B rs q e = (e', r)" by (cases "sb_fetch_for_filing B rs q e")
  obtain ms where ms: "r = Inr ms" using assms r unfolding holds_def undisturbed_def by (metis snd_conv)
  have "exactly R rs q ms" using assms r ms unfolding holds_def answers_def by (metis snd_conv)
  with r ms show thesis by (intro that [of e' ms]) (simp_all add: ask_def)
qed

lemma ask_headers:
  assumes "holds B R"
  obtains e' ms where "ask (sb_fetch_headers B rs q) (e, s) = ((e', s), Inr ms)" "exactly R rs q ms"
proof -
  obtain e' r where r: "sb_fetch_headers B rs q e = (e', r)" by (cases "sb_fetch_headers B rs q e")
  obtain ms where ms: "r = Inr ms" using assms r unfolding holds_def undisturbed_def by (metis snd_conv)
  have "exactly R rs q ms" using assms r ms unfolding holds_def answers_def by (metis snd_conv)
  with r ms show thesis by (intro that [of e' ms]) (simp_all add: ask_def)
qed


subsection \<open>An enumeration\<close>

lemma to_fetch:
  fixes cov :: coverage and known :: "nat list"
  assumes "server_ok rid R" "present = None \<or> (\<exists>us. present = Some us \<and> mset us = mset (map fm_uid (sv_messages R)))"
  defines "us \<equiv> uids_to_fetch cov known (sv_uid_next R - 1) (believed (length (sv_messages R)) present)"
  shows "\<forall>u\<in>set us. u \<le> STAR"
    "{f \<in> set (sv_messages R). fm_uid f \<in> set us} = {f \<in> set (sv_messages R). cov = Everything \<or> fm_uid f \<notin> set known}"
proof -
  have next_le: "sv_uid_next R \<le> STAR" using assms(1) by (simp add: server_ok_def)
  then show "\<forall>u\<in>set us. u \<le> STAR" by (auto simp: us_def uids_to_fetch_def split: option.splits)
  have below: "1 \<le> fm_uid f \<and> fm_uid f \<le> sv_uid_next R - 1" if "f \<in> set (sv_messages R)" for f
    using server_fetch [OF assms(1) that] by auto
  show "{f \<in> set (sv_messages R). fm_uid f \<in> set us} = {f \<in> set (sv_messages R). cov = Everything \<or> fm_uid f \<notin> set known}"
  proof (cases "believed (length (sv_messages R)) present")
    case None
    then have "fm_uid f \<in> set us \<longleftrightarrow> cov = Everything \<or> fm_uid f \<notin> set known" if "f \<in> set (sv_messages R)" for f
      using below [OF that] by (simp add: us_def uids_to_fetch_def del: upt_Suc)
    then show ?thesis by blast
  next
    case (Some vs)
    then have "mset vs = mset (map fm_uid (sv_messages R))" using assms(2) by (auto simp: believed_def split: if_splits)
    then have "set vs = fm_uid ` set (sv_messages R)" by (metis set_map mset_eq_setD)
    with Some have "fm_uid f \<in> set us \<longleftrightarrow> cov = Everything \<or> fm_uid f \<notin> set known" if "f \<in> set (sv_messages R)" for f
      using below [OF that] that by (auto simp: us_def uids_to_fetch_def)
    then show ?thesis by blast
  qed
qed

lemma rethread_same:
  obtains s' where "rethread_pass lower box (e, s) = ((e, s'), Inr ())" "same_but_threads s s'"
  using conv_put_same [of s] same_but_threads_refl [of s]
  by (cases "rethread_orphans lower (mb_account box) (mb_id box) (conv_view s)") (auto simp: rethread_pass_def)

lemma written_same_but_threads:
  assumes "written rid box g F s s'" "same_but_threads s' t"
  shows "written rid box g F s t"
  using written_trans [OF assms(1) same_but_threads_written [OF writtenD(1) [OF assms(1)] assms(2)]] by simp

lemma written_only_run:
  assumes "s1 = with_sync s1 s" "written rid box g F s1 s3" "s4 = with_sync s4 s3" "same_but_threads s4 s5"
  shows "written_only rid box g F s s5"
proof -
  have "with_sync s s1 = s" using assms(1) by (metis with_sync_simps(10,11))
  with written_with_sync [of rid box g F s1 s1 s3 s] assms(2) written_is_only [OF assms(2)]
  have "written rid box g F s (with_sync s s3)" by (simp add: written_only_def)
  moreover have "same_but_threads (with_sync s s3) (with_sync s s5)"
    using assms(4) by (subst (asm) assms(3)) (simp add: same_but_threads_def)
  ultimately show ?thesis unfolding written_only_def by (rule written_same_but_threads)
qed

lemma enumerate_mailbox_fills:
  assumes B: "holds B R" and R: "server_ok rid R" and ok: "rows_ok rid (mb_id box) (sv_generation R) s"
    and acct: "0 < mb_account box" and ready: "sync_ready (mb_id box) x s"
  obtains e' s' rep F now where
    "enumerate_mailbox B lower box n cov None (e, s) = ((e', s'), Inr rep)"
    "written_only rid (mb_id box) (sv_generation R) F s s'"
    "{f \<in> set (sv_messages R). \<not> refused s (mb_id box) f
        \<and> (cov = Everything \<or> fm_uid f \<notin> set (uids_in s (mb_id box) (sv_generation R)))} \<subseteq> F"
    "F \<subseteq> {f \<in> set (sv_messages R). cov = Everything \<or> fm_uid f \<notin> set (uids_in s (mb_id box) (sv_generation R))}"
    "sync_ready (mb_id box) (complete_full_sync (sync_observe x (to_model_status (status_of R)) now) now) s'"
proof -
  let ?g = "sv_generation R" and ?box = "mb_id box" and ?st = "to_model_status (status_of R)"
  let ?known = "uids_in s ?box ?g"
  let ?wanted = "{f \<in> set (sv_messages R). cov = Everything \<or> fm_uid f \<notin> set ?known}"
  obtain e1 where sel: "ask (sb_select B) (e, s) = ((e1, s), Inr (status_of R))" by (rule ask_select [OF B])
  define now where "now = sb_clock B e1"
  obtain s1 where s1: "sync_op ?box (\<lambda>x. sync_observe x ?st now) (e1, s) = ((e1, s1), Inr ())"
    "sync_ready ?box (sync_observe x ?st now) s1" "s1 = with_sync s1 s"
    by (rule sync_op_run [OF ready, of "\<lambda>x. sync_observe x ?st now" e1]) simp_all
  note same1 = arg_cong [OF s1(3), of rows] arg_cong [OF s1(3), of uids_in] arg_cong [OF s1(3), of refused]
  from ok have ok1: "rows_ok rid ?box ?g s1" by (subst s1(3)) simp
  show thesis
  proof (cases "sv_uid_next R - 1 < 1")
    case True
    then have none: "sv_messages R = []" using server_fetch(2,3) [OF R] by (cases "sv_messages R") force+
    obtain s2 where s2: "sync_op ?box (\<lambda>x. complete_full_sync x now) (e1, s1) = ((e1, s2), Inr ())"
      "sync_ready ?box (complete_full_sync (sync_observe x ?st now) now) s2" "s2 = with_sync s2 s1"
      by (rule sync_op_run [OF s1(2), of "\<lambda>x. complete_full_sync x now" e1]) simp_all
    have "enumerate_mailbox B lower box n cov None (e, s) = ((e1, s2), Inr no_report)"
      using True sel s1(1) s2(1) by (simp add: enumerate_mailbox_def bindP_def query_def now_def Let_def status_of_def returnP_def)
    moreover have "with_sync s s2 = s" by (subst s2(3), subst s1(3)) simp
    ultimately show thesis using none s2(2) written_refl [OF ok] by (intro that [of e1 s2 no_report "{}" now]) (auto simp: written_only_def)
  next
    case False
    obtain e2 present where ex: "existing_uids B (e1, s1) = ((e2, s1), Inr present)"
      and pr: "present = None \<or> (\<exists>us. present = Some us \<and> mset us = mset (map fm_uid (sv_messages R)))" by (rule ask_existing [OF B])
    let ?us = "uids_to_fetch cov ?known (sv_uid_next R - 1) (believed (length (sv_messages R)) present)"
    let ?batches = "map uset_from_iter (chunks_of (max n 1) ?us)"
    obtain e3 s3 rep where run: "enumerate_batches B lower box cov None ?known ?batches None no_report (e2, s1) = ((e3, s3), Inr rep)"
      and en: "enumerated rid ?box ?g (exactly R) ?batches True s1 s3"
    proof -
      have "answers B (exactly R)" "undisturbed B" using B by (simp_all add: holds_def)
      then show thesis
        using that enumerate_batches_written [of rid box ?g "(e2, s1)" B "exactly R" None ?batches lower cov ?known no_report]
          ok1 acct reported_ok [OF R exactly_reports] by (auto; blast)
    qed
    then obtain F mss where F: "written rid ?box ?g F s1 s3" "{f \<in> \<Union> (set ` set mss). \<not> refused s1 ?box f} \<subseteq> F"
      "F \<subseteq> \<Union> (set ` set mss)" "list_all2 (\<lambda>b. exactly R b None) ?batches mss" unfolding enumerated_def by auto
    have mss: "\<Union> (set ` set mss) = ?wanted"
      using fetched_batches [OF R _ to_fetch(1) [OF R pr] F(4)] to_fetch(2) [OF R pr, of cov ?known] by simp
    obtain s4 where s4: "sync_op ?box (\<lambda>x. complete_full_sync x now) (e3, s3) = ((e3, s4), Inr ())"
      "sync_ready ?box (complete_full_sync (sync_observe x ?st now) now) s4" "s4 = with_sync s4 s3"
      by (rule sync_op_run [OF iffD2 [OF written_sync_ready [OF F(1)] s1(2)], of "\<lambda>x. complete_full_sync x now" e3]) simp_all
    define first where "first = (case get_sync s ?box of Some x \<Rightarrow> \<not> has_synced x | None \<Rightarrow> True)"
    obtain s5 where s5: "(if first then rethread_pass lower box else returnP ()) (e3, s4) = ((e3, s5), Inr ())"
      "same_but_threads s4 s5"
    proof (cases first)
      case True
      with that show thesis using rethread_same [of lower box e3 s4] by (metis (full_types))
    next
      case False
      with that [of s4] show thesis by (simp add: returnP_def)
    qed
    have "enumerate_mailbox B lower box n cov None (e, s) = ((e3, s5), Inr rep)"
      using False sel s1(1) ex run s4(1) s5(1) same1
      by (simp add: enumerate_mailbox_def bindP_def query_def now_def first_def Let_def status_of_def returnP_def)
    moreover have "written_only rid ?box ?g F s s5"
      by (rule written_only_run [OF s1(3) F(1) s4(3) s5(2)])
    moreover have "sync_ready ?box (complete_full_sync (sync_observe x ?st now) now) s5"
      using s4(2) s5(2) by (simp add: sync_ready_def get_sync_def same_but_threads_def)
    ultimately show thesis using F(2,3) mss same1 by (intro that [of e3 s5 rep F now]) auto
  qed
qed

end
