(* ===== verification/Vanish_Facts.thy ===== *)
theory Vanish_Facts
  imports Resync_Facts
begin

section \<open>What is deleted\<close>

text \<open>
  The UIDs a mailbox holds, what deleting some of them does to its rows, and the vanish check:
  the one place where a synchronization removes a message.
\<close>

subsection \<open>The UIDs held\<close>

definition held_uids :: "sync_store \<Rightarrow> mailbox_id \<Rightarrow> nat \<Rightarrow> nat set" where
  "held_uids s box g = {u. row_at s box g u \<noteq> None}"

lemma held_core [simp]: "held_under box g (core r) = held_under box g r"
  by (simp add: held_under_def)

lemma held_filter: "map (the \<circ> sm_uid) (filter (held_under box g) (st_messages s)) = map (the \<circ> sm_uid) (filter (held_under box g) (rows s))"
  by (simp add: rows_def filter_map comp_def)

lemma held_names:
  assumes "rows_ok rid box g s" "r \<in> set (rows s)"
  shows "held_under box g r \<longleftrightarrow> cm_mailbox r = box \<and> (\<exists>u. names rid g u r)"
  using row_ok_at(2) [OF assms] by (auto simp: held_under_def)

lemma uids_in_held:
  assumes "rows_ok rid box g s"
  shows "set (uids_in s box g) = held_uids s box g" "distinct (uids_in s box g)" "sorted (uids_in s box g)"
    "count_in s box g = length (uids_in s box g)"
proof -
  let ?held = "filter (held_under box g) (rows s)"
  have "set (uids_in s box g) = (the \<circ> sm_uid) ` set ?held" unfolding uids_in_def held_filter by simp
  then show "set (uids_in s box g) = held_uids s box g"
    using row_at_names [OF assms] held_names [OF assms] by (force simp: held_uids_def names_def image_iff)
  have "inj_on (the \<circ> sm_uid) (set ?held)"
  proof (rule inj_onI)
    fix r r' assume in_held: "r \<in> set ?held" "r' \<in> set ?held" and uid: "(the \<circ> sm_uid) r = (the \<circ> sm_uid) r'"
    then obtain u u' where "names rid g u r" "names rid g u' r'" "cm_mailbox r = box" "cm_mailbox r' = box"
      using held_names [OF assms] by auto
    moreover from this uid have "u' = u" by (simp add: names_def)
    ultimately show "r = r'" using in_held assms unfolding rows_ok_def by auto
  qed
  moreover have "distinct (rows s)" using assms by (simp add: rows_ok_def distinct_map)
  ultimately show "distinct (uids_in s box g)" unfolding uids_in_def held_filter by (simp add: distinct_map)
  show "sorted (uids_in s box g)" by (simp add: uids_in_def)
  show "count_in s box g = length (uids_in s box g)" by (simp add: count_in_def uids_in_def)
qed

lemma uids_in_unique:
  assumes "rows_ok rid box g s" "held_uids s box g = set us" "distinct us"
  shows "uids_in s box g = sort us"
  using uids_in_held [OF assms(1)] assms(2,3) by (intro sorted_distinct_set_unique) simp_all


subsection \<open>Deleting\<close>

lemma delete_chunk_rows: "rows (delete_chunk ids s) = filter (\<lambda>r. cm_id r \<notin> set ids) (rows s)"
  by (simp add: delete_chunk_def rows_def filter_map comp_def)

definition forgets :: "sync_store \<Rightarrow> sync_store \<Rightarrow> bool" where
  "forgets s s' \<longleftrightarrow>
     st_queue s' = st_queue s \<and> st_mailboxes s' = st_mailboxes s \<and> st_accounts s' = st_accounts s
   \<and> st_sync s' = st_sync s \<and> st_next s' = st_next s
   \<and> map (\<lambda>d. d\<lparr>sd_thread := None, sd_message := None\<rparr>) (st_drafts s')
     = map (\<lambda>d. d\<lparr>sd_thread := None, sd_message := None\<rparr>) (st_drafts s)"

lemma forgets_refl [simp]: "forgets s s"
  by (simp add: forgets_def)

lemma forgets_trans: "forgets s t \<Longrightarrow> forgets t u \<Longrightarrow> forgets s u"
  by (simp add: forgets_def)

lemma delete_chunk_forgets: "forgets s (delete_chunk ids s)"
  by (auto simp: forgets_def delete_chunk_def split: option.splits)

lemma delete_chunks:
  "foldl (\<lambda>(s, n) chunk. (delete_chunk chunk s, n + length (filter (\<lambda>m. cm_id m \<in> set chunk) (st_messages s)))) (s, n) cs = (s', n')
   \<Longrightarrow> rows s' = filter (\<lambda>r. cm_id r \<notin> \<Union> (set ` set cs)) (rows s) \<and> forgets s s'
     \<and> n' = n + length (filter (\<lambda>r. cm_id r \<in> \<Union> (set ` set cs)) (rows s))"
proof (induction cs arbitrary: s n)
  case (Cons c cs)
  let ?n = "n + length (filter (\<lambda>m. cm_id m \<in> set c) (st_messages s))"
  have len: "length (filter (\<lambda>m. cm_id m \<in> set c) (st_messages s)) = length (filter (\<lambda>r. cm_id r \<in> set c) (rows s))"
    by (simp add: rows_def filter_map comp_def)
  have "length (filter (\<lambda>r. cm_id r \<in> set c) rs) + length (filter (\<lambda>r. cm_id r \<in> X) (filter (\<lambda>r. cm_id r \<notin> set c) rs))
      = length (filter (\<lambda>r. cm_id r \<in> set c \<union> X) rs)" for X :: "message_id set" and rs :: "stored_message list"
    by (induction rs) auto
  note split = this
  from Cons.IH [of "delete_chunk c s" ?n] Cons.prems
  have "rows s' = filter (\<lambda>r. cm_id r \<notin> \<Union> (set ` set cs)) (rows (delete_chunk c s))" "forgets (delete_chunk c s) s'"
    "n' = ?n + length (filter (\<lambda>r. cm_id r \<in> \<Union> (set ` set cs)) (rows (delete_chunk c s)))" by auto
  with split [where X = "\<Union> (set ` set cs)" and rs = "rows s"] forgets_trans [OF delete_chunk_forgets] show ?case
    by (simp add: delete_chunk_rows len conj_commute)
qed simp

lemma ids_by_uid_set:
  "set (ids_by_uid s box g us) = cm_id ` {r \<in> set (rows s). cm_mailbox r = box \<and> sm_validity r = Some g \<and> (\<exists>u\<in>set us. sm_uid r = Some u)}"
proof -
  have chunks: "\<Union> (set ` set (chunks_of ID_LOOKUP_CHUNK us)) = set us" by (rule set_chunks_of) (simp add: ID_LOOKUP_CHUNK_def)
  have "set (ids_by_uid s box g us) = cm_id ` {m \<in> set (st_messages s). cm_mailbox m = box \<and> sm_validity m = Some g
      \<and> (\<exists>u\<in>\<Union> (set ` set (chunks_of ID_LOOKUP_CHUNK us)). sm_uid m = Some u)}"
  proof -
    have "(case sm_uid m of Some u \<Rightarrow> u \<in> set c | None \<Rightarrow> False) \<longleftrightarrow> (\<exists>u\<in>set c. sm_uid m = Some u)" for c and m :: stored_message
      by (auto split: option.splits)
    then show ?thesis unfolding ids_by_uid_def by auto
  qed
  also have "\<dots> = cm_id ` {r \<in> set (rows s). cm_mailbox r = box \<and> sm_validity r = Some g \<and> (\<exists>u\<in>set us. sm_uid r = Some u)}"
    unfolding chunks by (force simp: rows_def image_iff)
  finally show ?thesis .
qed

lemma delete_uids_rows:
  fixes box :: mailbox_id and g :: nat
  assumes "distinct (map cm_id (rows s))"
  defines "gone \<equiv> (\<lambda>us r. cm_mailbox r = box \<and> sm_validity r = Some g \<and> (\<exists>u\<in>set us. sm_uid r = Some u))"
  shows "rows (fst (delete_uids box g us s)) = filter (\<lambda>r. \<not> gone us r) (rows s)" "forgets s (fst (delete_uids box g us s))"
    "snd (delete_uids box g us s) = length (filter (gone us) (rows s))"
proof -
  obtain s' n where d: "delete_uids box g us s = (s', n)" by (cases "delete_uids box g us s")
  have chunks: "\<Union> (set ` set (chunks_of ID_LOOKUP_CHUNK ids)) = set ids" for ids :: "message_id list"
    by (rule set_chunks_of) (simp add: ID_LOOKUP_CHUNK_def)
  have member: "cm_id r \<in> set (ids_by_uid s box g us) \<longleftrightarrow> gone us r" if "r \<in> set (rows s)" for r
    using that assms(1) unfolding ids_by_uid_set gone_def by (auto simp: distinct_map inj_on_def)
  from delete_chunks [of s 0 "chunks_of ID_LOOKUP_CHUNK (ids_by_uid s box g us)" s' n] d
  have "rows s' = filter (\<lambda>r. cm_id r \<notin> set (ids_by_uid s box g us)) (rows s)" "forgets s s'"
    "n = length (filter (\<lambda>r. cm_id r \<in> set (ids_by_uid s box g us)) (rows s))"
    unfolding delete_uids_def delete_rows_def chunks add_0_left by blast+
  with d member show "rows (fst (delete_uids box g us s)) = filter (\<lambda>r. \<not> gone us r) (rows s)"
    "forgets s (fst (delete_uids box g us s))" "snd (delete_uids box g us s) = length (filter (gone us) (rows s))"
    by (simp_all cong: filter_cong)
qed

lemma forgets_readers:
  assumes "forgets s s'"
  shows "refused s' = refused s" "unacknowledged s' = unacknowledged s"
proof -
  have "is_own_draft s box r \<longleftrightarrow>
     list_ex (\<lambda>d. sd_remote d = Some r
        \<and> list_ex (\<lambda>b. mb_id b = box \<and> mb_account b = sd_account d \<and> mb_role b = Drafts) (st_mailboxes s))
       (map (\<lambda>d. d\<lparr>sd_thread := None, sd_message := None\<rparr>) (st_drafts s))" for s box r
    by (simp add: is_own_draft_def list_ex_iff)
  with assms show "refused s' = refused s" by (intro ext) (simp add: refused_def is_shadowed_def forgets_def)
  show "unacknowledged s' = unacknowledged s" using assms by (simp add: forgets_def unacknowledged_def [abs_def])
qed

lemma delete_uids_ok:
  fixes us :: "nat list" and h :: nat
  assumes ok: "rows_ok rid box g s"
  defines "s' \<equiv> fst (delete_uids box h us s)"
  shows "rows_ok rid box g s'" "row_at s' box g u = (if h = g \<and> u \<in> set us then None else row_at s box g u)"
    "filter (\<lambda>r. cm_mailbox r \<noteq> box) (rows s') = filter (\<lambda>r. cm_mailbox r \<noteq> box) (rows s)"
proof -
  have dist: "distinct (map cm_id (rows s))" using ok by (simp add: rows_ok_def)
  note d = delete_uids_rows [OF dist, where us = us and box = box and g = h, folded s'_def]
  have "distinct (map cm_id (filter P (rows s)))" for P using dist by (simp add: distinct_map_filter)
  then show ok': "rows_ok rid box g s'" using ok d(2) unfolding rows_ok_def d(1) by (auto simp: forgets_def)
  have "row_at s' box g u = Some r \<longleftrightarrow> (\<not> (h = g \<and> u \<in> set us) \<and> row_at s box g u = Some r)" for r
    unfolding row_at_names [OF ok] row_at_names [OF ok'] d(1) by (auto simp: names_def)
  then show "row_at s' box g u = (if h = g \<and> u \<in> set us then None else row_at s box g u)" by (intro same_some) auto
  show "filter (\<lambda>r. cm_mailbox r \<noteq> box) (rows s') = filter (\<lambda>r. cm_mailbox r \<noteq> box) (rows s)"
    unfolding d(1) filter_filter by (rule filter_cong) auto
qed

lemma delete_uids_count:
  assumes ok: "rows_ok rid box g s" and us: "distinct us" "set us \<subseteq> held_uids s box g"
  shows "snd (delete_uids box g us s) = length us"
proof -
  let ?gone = "\<lambda>r. cm_mailbox r = box \<and> sm_validity r = Some g \<and> (\<exists>u\<in>set us. sm_uid r = Some u)"
  have dist: "distinct (map cm_id (rows s))" using ok by (simp add: rows_ok_def)
  let ?at = "\<lambda>u. the (row_at s box g u)"
  have at: "row_at s box g u = Some r \<longleftrightarrow> r = ?at u" if "u \<in> set us" for u r using that us(2) by (auto simp: held_uids_def)
  have "set (filter ?gone (rows s)) = ?at ` set us"
  proof (rule set_eqI)
    fix r
    have "r \<in> set (rows s) \<and> ?gone r \<longleftrightarrow> (\<exists>u\<in>set us. row_at s box g u = Some r)"
      using row_at_names [OF ok] row_ok_at(2) [OF ok] by blast
    moreover have "(\<exists>u\<in>set us. row_at s box g u = Some r) \<longleftrightarrow> r \<in> ?at ` set us" using at by (auto simp: image_iff)
    ultimately show "r \<in> set (filter ?gone (rows s)) \<longleftrightarrow> r \<in> ?at ` set us" by simp
  qed
  moreover have "inj_on ?at (set us)"
  proof (rule inj_onI)
    fix u v assume "u \<in> set us" "v \<in> set us" "?at u = ?at v"
    then have "row_at s box g u = Some (?at u)" "row_at s box g v = Some (?at u)"
      using at [of u "?at u"] at [of v "?at u"] by blast+
    then show "u = v" by (simp add: row_at_names [OF ok] names_def)
  qed
  moreover have "distinct (filter ?gone (rows s))" using dist by (simp add: distinct_map)
  ultimately have "length (filter ?gone (rows s)) = card (set us)"
    using distinct_card [of "filter ?gone (rows s)"] card_image [of ?at "set us"] by simp
  with delete_uids_rows(3) [OF dist, of box g us] distinct_card [OF us(1)] show ?thesis by simp
qed


subsection \<open>The vanish check\<close>

text \<open>
  Whatever the server says: either nothing is deleted, or exactly \<open>expected\<close> rows are, all of
  them UIDs the listing or the fetches did not name.  Against a server that holds \<open>R\<close> those
  are the rows of messages \<open>R\<close> does not have.
\<close>

lemma present_in_answers:
  assumes "answers B good"
  obtains e' r where "present_in B cs (e, s) = ((e', s), r)"
    "\<And>us. r = Inr us \<Longrightarrow> \<exists>mss. list_all2 (\<lambda>c. good c None) cs mss \<and> us = concat (map (map fm_uid) mss)"
    "undisturbed B \<Longrightarrow> \<exists>us. r = Inr us"
proof -
  have "\<exists>e' r. present_in B cs (e, s) = ((e', s), r)
      \<and> (\<forall>us. r = Inr us \<longrightarrow> (\<exists>mss. list_all2 (\<lambda>c. good c None) cs mss \<and> us = concat (map (map fm_uid) mss)))
      \<and> (undisturbed B \<longrightarrow> (\<exists>us. r = Inr us))"
  proof (induction cs arbitrary: e)
    case Nil
    then show ?case by (simp add: returnP_def)
  next
    case (Cons c cs)
    obtain e1 a where a: "sb_fetch_headers B c None e = (e1, a)" by (cases "sb_fetch_headers B c None e")
    obtain e2 r where rest: "present_in B cs (e1, s) = ((e2, s), r)"
      "\<forall>us. r = Inr us \<longrightarrow> (\<exists>mss. list_all2 (\<lambda>c. good c None) cs mss \<and> us = concat (map (map fm_uid) mss))"
      "undisturbed B \<longrightarrow> (\<exists>us. r = Inr us)" using Cons.IH [of e1] by blast
    have ud: "\<not> sb_cancelled B e \<and> (\<exists>ms. a = Inr ms)" if "undisturbed B"
      using that a unfolding undisturbed_def by (metis snd_conv)
    have good: "good c None ms" if "a = Inr ms" for ms using assms a that unfolding answers_def by (metis snd_conv)
    show ?case
    proof (cases "sb_cancelled B e \<or> (\<exists>x. a = Inl x) \<or> (\<exists>x. r = Inl x)")
      case True
      with a rest ud show ?thesis by (cases a) (auto simp: bindP_def query_def throwP_def ask_def)
    next
      case False
      then obtain ms us where ok: "a = Inr ms" "r = Inr us" by (cases a; cases r) auto
      with rest(2) obtain mss where "list_all2 (\<lambda>c. good c None) cs mss" "us = concat (map (map fm_uid) mss)" by blast
      with good [OF ok(1)] have "list_all2 (\<lambda>c. good c None) (c # cs) (ms # mss)" "map fm_uid ms @ us = concat (map (map fm_uid) (ms # mss))"
        by simp_all
      with False a rest(1) ok show ?thesis by (auto simp: bindP_def query_def ask_def returnP_def)
    qed
  qed
  with that show thesis by blast
qed

lemma chunks_contain:
  assumes "\<forall>u\<in>set us. 1 \<le> u \<and> u \<le> STAR"
  obtains cs where "uset_chunks (uset_from_iter us) k = Some cs"
    "\<And>u. u \<in> set us \<Longrightarrow> \<exists>c\<in>set cs. uset_contains c u"
proof -
  let ?rs = "uset_from_iter us"
  have spec: "uset_wf ?rs" "members ?rs = set us" using uset_from_iter_spec [of us] assms by auto
  show thesis
  proof (cases "uset_is_open_ended ?rs")
    case True
    moreover from True have "?rs \<noteq> []" by (auto simp: uset_is_open_ended_def)
    ultimately show thesis using spec
      by (intro that [of "[?rs]"]) (simp add: uset_chunks_def, simp add: uset_contains_members [OF spec(1)])
  next
    case False
    from uset_chunks_spec [OF spec(1) False, of k] obtain cs where cs: "uset_chunks ?rs k = Some cs"
      "concat (map runs cs) = runs ?rs" "\<forall>c\<in>set cs. uset_wf c" by auto
    have "\<exists>c\<in>set cs. uset_contains c u" if "u \<in> set us" for u
    proof -
      from that spec(2) have "u \<in> set (concat (map runs cs))" by (simp add: cs(2) set_runs)
      then obtain c where "c \<in> set cs" "u \<in> members c" by (auto simp: set_runs)
      with cs(3) show ?thesis using uset_contains_members by blast
    qed
    with cs(1) show thesis by (rule that)
  qed
qed


lemma existing_truthful:
  assumes "truthful B R"
  obtains e' r where "existing_uids B (e, s) = ((e', s), r)"
    "\<And>us. r = Inr (Some us) \<Longrightarrow> mset us = mset (map fm_uid (sv_messages R))"
    "undisturbed B \<Longrightarrow> \<exists>present. r = Inr present"
proof -
  obtain e' a where a: "sb_existing_uids B e = (e', a)" by (cases "sb_existing_uids B e")
  have nc: "a \<noteq> Inl CancelledError" if "undisturbed B" using that a unfolding undisturbed_def by (metis snd_conv)
  have listed: "mset us = mset (map fm_uid (sv_messages R))" if "a = Inr (Some us)" for us
    using that assms a unfolding truthful_def by (metis snd_conv)
  obtain r where run: "existing_uids B (e, s) = ((e', s), r)"
    and r: "r = (case a of Inr us \<Rightarrow> Inr us | Inl CancelledError \<Rightarrow> Inl (BackendFailed CancelledError) | Inl _ \<Rightarrow> Inr None)"
    using a by (auto simp: existing_uids_def split: sum.splits backend_error.splits)
  have "mset us = mset (map fm_uid (sv_messages R))" if "r = Inr (Some us)" for us
    using that listed r by (auto split: sum.splits backend_error.splits)
  moreover have "\<exists>present. r = Inr present" if "undisturbed B"
    using nc [OF that] r by (auto split: sum.splits backend_error.splits)
  ultimately show thesis by (intro that [OF run])
qed

text \<open>The UIDs the check reads as present, among those it asked about.\<close>

lemma present_truthful:
  assumes B: "truthful B R" and R: "server_ok rid R" and known: "\<forall>u\<in>set known. 1 \<le> u \<and> u \<le> STAR"
  obtains e' r where
    "bindP (existing_uids B) (\<lambda>listing. case listing of
         Some uids \<Rightarrow> returnP uids
       | None \<Rightarrow> present_in B (case uset_chunks (uset_from_iter known) k of Some chunks \<Rightarrow> chunks | None \<Rightarrow> [])) (e, s) = ((e', s), r)"
    "\<And>us. r = Inr us \<Longrightarrow> filter (\<lambda>u. u \<notin> set us) known = filter (\<lambda>u. u \<notin> server_uids R) known"
    "undisturbed B \<Longrightarrow> \<exists>us. r = Inr us"
proof -
  obtain e1 a where a: "existing_uids B (e, s) = ((e1, s), a)"
    "\<And>us. a = Inr (Some us) \<Longrightarrow> mset us = mset (map fm_uid (sv_messages R))"
    "undisturbed B \<Longrightarrow> \<exists>present. a = Inr present" by (rule existing_truthful [OF B, of e s]) blast
  obtain cs where cs: "uset_chunks (uset_from_iter known) k = Some cs"
    "\<And>u. u \<in> set known \<Longrightarrow> \<exists>c\<in>set cs. uset_contains c u" by (rule chunks_contain [OF known, of k]) blast
  have "answers B (reports R)" using B by (simp add: truthful_def)
  then obtain e2 b where b: "present_in B cs (e1, s) = ((e2, s), b)"
    "\<And>us. b = Inr us \<Longrightarrow> \<exists>mss. list_all2 (\<lambda>c. reports R c None) cs mss \<and> us = concat (map (map fm_uid) mss)"
    "undisturbed B \<Longrightarrow> \<exists>us. b = Inr us" by (rule present_in_answers [of B "reports R" cs e1 s]) blast
  have fetched: "filter (\<lambda>u. u \<notin> set us) known = filter (\<lambda>u. u \<notin> server_uids R) known" if b_us: "b = Inr us" for us
  proof (rule filter_cong [OF refl])
    fix u assume u: "u \<in> set known"
    from b(2) [OF b_us] obtain mss where mss: "list_all2 (\<lambda>c. reports R c None) cs mss" "us = concat (map (map fm_uid) mss)" by blast
    then have us: "u \<in> set us \<longleftrightarrow> (\<exists>f\<in>\<Union> (set ` set mss). fm_uid f = u)" by force
    note rb = reported_batches [OF mss(1)]
    have "u \<in> set us" if "u \<in> server_uids R" using that rb(1) cs(2) [OF u] us by (fastforce simp: server_uids_def)
    moreover have "u \<in> server_uids R" if "u \<in> set us" using that rb(2) us by (auto simp: server_uids_def)
    ultimately show "(u \<notin> set us) = (u \<notin> server_uids R)" by blast
  qed
  have listed: "set us = server_uids R" if "a = Inr (Some us)" for us
    using mset_eq_setD [OF a(2) [OF that]] by (simp add: server_uids_def)
  show thesis
  proof (cases a)
    case (Inl x)
    with a that show thesis by (auto simp: bindP_def)
  next
    case (Inr present)
    with a b cs(1) listed fetched that show thesis by (cases present) (auto simp: bindP_def returnP_def)
  qed
qed

lemma reconcile_truthful:
  assumes B: "truthful B R" and R: "server_ok rid R" and known: "\<forall>u\<in>set known. 1 \<le> u \<and> u \<le> STAR"
  defines "gone \<equiv> filter (\<lambda>u. u \<notin> server_uids R) known"
  obtains e' s' r where "reconcile_vanished B box g known n (e, s) = ((e', s'), r)"
    "s' = s \<or> length gone = n \<and> s' = fst (delete_uids (mb_id box) g gone s)"
    "undisturbed B \<Longrightarrow> r = (if length gone = n then Inr (snd (delete_uids (mb_id box) g gone s)) else Inr 0)"
    "undisturbed B \<Longrightarrow> s' = (if length gone = n then fst (delete_uids (mb_id box) g gone s) else s)"
proof -
  obtain e1 a where a: "bindP (existing_uids B) (\<lambda>listing. case listing of
         Some uids \<Rightarrow> returnP uids
       | None \<Rightarrow> present_in B (case uset_chunks (uset_from_iter known) DEFAULT_BATCH_SIZE of Some chunks \<Rightarrow> chunks | None \<Rightarrow> [])) (e, s)
       = ((e1, s), a)"
    "\<And>us. a = Inr us \<Longrightarrow> filter (\<lambda>u. u \<notin> set us) known = gone"
    "undisturbed B \<Longrightarrow> \<exists>us. a = Inr us"
    unfolding gone_def by (rule present_truthful [OF B R known, of DEFAULT_BATCH_SIZE e s]) blast
  have assoc: "bindP p (\<lambda>x. bindP (q x) h) w = bindP (bindP p q) h w" for p :: "('a, 'x) pass" and q :: "'x \<Rightarrow> ('a, 'y) pass" and h :: "'y \<Rightarrow> ('a, nat) pass" and w
    by (simp add: bindP_def split: prod.split sum.split)
  show thesis
  proof (cases a)
    case (Inl x)
    with a(1) have "reconcile_vanished B box g known n (e, s) = ((e1, s), Inl x)"
      unfolding reconcile_vanished_def assoc by (simp add: bindP_def [of "bindP _ _"])
    with a(3) Inl that show thesis by blast
  next
    case (Inr us)
    let ?del = "delete_uids (mb_id box) g gone s"
    from a(1) Inr have "reconcile_vanished B box g known n (e, s)
        = (if length gone \<noteq> n then returnP 0 else atomically (\<lambda>s. Inr (delete_uids (mb_id box) g gone s))) (e1, s)"
      unfolding reconcile_vanished_def assoc using a(2) [OF Inr] by (simp add: bindP_def [of "bindP _ _"] Let_def)
    then have "reconcile_vanished B box g known n (e, s)
        = (if length gone = n then ((e1, fst ?del), Inr (snd ?del)) else ((e1, s), Inr 0))"
      by (simp add: returnP_def atomically_def split: prod.split)
    then show thesis by (intro that [of e1 "if length gone = n then fst ?del else s"]) simp_all
  qed
qed

end
