(* ===== verification/Safe_Pass.thy ===== *)
theory Safe_Pass
  imports Vanish_Facts
begin

section \<open>No pass loses a message\<close>

text \<open>
  Against a server that answers from \<open>R\<close> but may fail, refuse or be interrupted at any
  call, \<open>synced\<close> is what any part of a pass may do to the store: a row goes only when \<open>R\<close>
  has no message of its UID, and a row that is not as it was keeps its id and carries the flags
  the server lists with the changes still queued on top.  \<open>triple\<close> is a Hoare triple
  with that as its frame: every pass is put together from rules for its parts.
\<close>

subsection \<open>The relation\<close>

definition same_intent :: "mailbox_id \<Rightarrow> sync_store \<Rightarrow> sync_store \<Rightarrow> bool" where
  "same_intent box s s' \<longleftrightarrow>
     st_queue s' = st_queue s \<and> st_mailboxes s' = st_mailboxes s
   \<and> map (\<lambda>d. d\<lparr>sd_thread := None, sd_message := None\<rparr>) (st_drafts s')
     = map (\<lambda>d. d\<lparr>sd_thread := None, sd_message := None\<rparr>) (st_drafts s)
   \<and> filter (\<lambda>r. cm_mailbox r \<noteq> box) (rows s') = filter (\<lambda>r. cm_mailbox r \<noteq> box) (rows s)"

lemma same_intent_readers:
  assumes "same_intent box s s'"
  shows "refused s' = refused s" "unacknowledged s' = unacknowledged s"
proof -
  have "is_own_draft s box r \<longleftrightarrow>
     list_ex (\<lambda>d. sd_remote d = Some r
        \<and> list_ex (\<lambda>b. mb_id b = box \<and> mb_account b = sd_account d \<and> mb_role b = Drafts) (st_mailboxes s))
       (map (\<lambda>d. d\<lparr>sd_thread := None, sd_message := None\<rparr>) (st_drafts s))" for s box r
    by (simp add: is_own_draft_def list_ex_iff)
  with assms show "refused s' = refused s" by (intro ext) (simp add: refused_def is_shadowed_def same_intent_def)
  show "unacknowledged s' = unacknowledged s" using assms by (simp add: same_intent_def unacknowledged_def [abs_def])
qed

definition synced :: "(nat \<Rightarrow> remote_id) \<Rightarrow> mailbox_id \<Rightarrow> server_mailbox \<Rightarrow> sync_store \<Rightarrow> sync_store \<Rightarrow> bool" where
  "synced rid box R s s' \<longleftrightarrow>
     rows_ok rid box (sv_generation R) s' \<and> same_intent box s s'
   \<and> (\<forall>u r\<^sub>0. row_at s box (sv_generation R) u = Some r\<^sub>0 \<longrightarrow> row_at s' box (sv_generation R) u = None \<longrightarrow> u \<notin> server_uids R)
   \<and> (\<forall>u r. row_at s' box (sv_generation R) u = Some r \<longrightarrow>
        row_at s box (sv_generation R) u = Some r
      \<or> (\<exists>f\<in>set (sv_messages R). fm_uid f = u \<and> carries (unacknowledged s) f r
           \<and> (\<forall>r\<^sub>0. row_at s box (sv_generation R) u = Some r\<^sub>0 \<longrightarrow> cm_id r = cm_id r\<^sub>0)))"

definition store_ok :: "(nat \<Rightarrow> remote_id) \<Rightarrow> mailbox_id \<Rightarrow> server_mailbox \<Rightarrow> sync_store \<Rightarrow> bool" where
  "store_ok rid box R s \<longleftrightarrow>
     rows_ok rid box (sv_generation R) s \<and> (\<forall>u\<in>held_uids s box (sv_generation R). 1 \<le> u \<and> u \<le> STAR)"

lemma syncedD:
  assumes "synced rid box R s s'"
  shows "rows_ok rid box (sv_generation R) s'" "same_intent box s s'"
    "row_at s box (sv_generation R) u = Some r\<^sub>0 \<Longrightarrow> u \<in> server_uids R \<Longrightarrow> row_at s' box (sv_generation R) u \<noteq> None"
    "row_at s' box (sv_generation R) u = Some r \<Longrightarrow> row_at s box (sv_generation R) u = Some r
      \<or> (\<exists>f\<in>set (sv_messages R). fm_uid f = u \<and> carries (unacknowledged s) f r
           \<and> (\<forall>r\<^sub>0. row_at s box (sv_generation R) u = Some r\<^sub>0 \<longrightarrow> cm_id r = cm_id r\<^sub>0))"
  using assms unfolding synced_def by blast+

lemma same_intent_refl [simp]: "same_intent box s s"
  by (simp add: same_intent_def)

lemma same_intent_trans: "same_intent box s t \<Longrightarrow> same_intent box t u \<Longrightarrow> same_intent box s u"
  by (simp add: same_intent_def)

lemma synced_refl: "rows_ok rid box (sv_generation R) s \<Longrightarrow> synced rid box R s s"
  by (simp add: synced_def)

lemma synced_trans:
  assumes "synced rid box R s t" "synced rid box R t u"
  shows "synced rid box R s u"
proof -
  let ?g = "sv_generation R"
  note S = syncedD [OF assms(1)] and T = syncedD [OF assms(2)]
  have ch: "unacknowledged t = unacknowledged s" by (rule same_intent_readers(2) [OF S(2)])
  have "v \<notin> server_uids R" if "row_at s box ?g v = Some r0" "row_at u box ?g v = None" for v r0
    using S(3) [OF that(1)] T(3) [of v] that(2) by (cases "row_at t box ?g v") auto
  moreover have "row_at s box ?g v = Some r
      \<or> (\<exists>f\<in>set (sv_messages R). fm_uid f = v \<and> carries (unacknowledged s) f r
           \<and> (\<forall>r\<^sub>0. row_at s box ?g v = Some r\<^sub>0 \<longrightarrow> cm_id r = cm_id r\<^sub>0))" if r: "row_at u box ?g v = Some r" for v r
  proof (cases "row_at t box ?g v = Some r")
    case True
    then show ?thesis by (rule S(4))
  next
    case False
    with T(4) [OF r] obtain f where f: "f \<in> set (sv_messages R)" "fm_uid f = v" "carries (unacknowledged s) f r"
      and id: "\<forall>r\<^sub>0. row_at t box ?g v = Some r\<^sub>0 \<longrightarrow> cm_id r = cm_id r\<^sub>0" by (auto simp: ch)
    have "cm_id r = cm_id r0" if r0: "row_at s box ?g v = Some r0" for r0
    proof -
      from f(1,2) have "v \<in> server_uids R" by (auto simp: server_uids_def)
      with S(3) [OF r0] obtain r1 where r1: "row_at t box ?g v = Some r1" by auto
      from S(4) [OF r1] r0 id r1 show ?thesis by auto
    qed
    with f show ?thesis by blast
  qed
  ultimately show ?thesis using T(1) same_intent_trans [OF S(2) T(2)] unfolding synced_def by blast
qed

lemma synced_ok:
  assumes "server_ok rid R" "store_ok rid box R s" "synced rid box R s s'"
  shows "store_ok rid box R s'"
proof -
  have "1 \<le> u \<and> u \<le> STAR" if u: "row_at s' box (sv_generation R) u = Some r" for u r
    using syncedD(4) [OF assms(3) u] assms(2) server_fetch [OF assms(1)] by (auto simp: store_ok_def held_uids_def)
  with syncedD(1) [OF assms(3)] show ?thesis by (auto simp: store_ok_def held_uids_def)
qed

lemma frame_intent:
  assumes "same_frame box s s'"
  shows "same_intent box s s'"
proof -
  have "map (\<lambda>d. d\<lparr>sd_thread := None, sd_message := None\<rparr>) ds
      = map (\<lambda>d. d\<lparr>sd_message := None\<rparr>) (map (\<lambda>d. d\<lparr>sd_thread := None\<rparr>) ds)" for ds :: "sync_draft list" by simp
  with assms show ?thesis unfolding same_intent_def same_frame_def by presburger
qed

lemma written_synced:
  assumes "written rid box (sv_generation R) F s s'" "F \<subseteq> set (sv_messages R)"
  shows "synced rid box R s s'"
proof -
  let ?g = "sv_generation R"
  note w = writtenD [OF assms(1)]
  have id: "same_intent box s s'" by (rule frame_intent [OF w(2)])
  have "row_at s' box ?g u \<noteq> None" if "row_at s box ?g u = Some r0" for u r0
    using w(3,4) [of u] that by (cases "u \<in> fm_uid ` F") auto
  moreover have "row_at s box ?g u = Some r
      \<or> (\<exists>f\<in>set (sv_messages R). fm_uid f = u \<and> carries (unacknowledged s) f r
           \<and> (\<forall>r\<^sub>0. row_at s box ?g u = Some r\<^sub>0 \<longrightarrow> cm_id r = cm_id r\<^sub>0))" if r: "row_at s' box ?g u = Some r" for u r
  proof (cases "u \<in> fm_uid ` F")
    case True
    from w(4) [OF True] r assms(2) show ?thesis by (auto simp: mirrors_def)
  next
    case False
    with w(3) r show ?thesis by simp
  qed
  ultimately show ?thesis using w(1) id unfolding synced_def by blast
qed

lemma synced_same_rows:
  assumes "rows_ok rid box (sv_generation R) s'" "rows s' = rows s" "same_intent box s s'"
  shows "synced rid box R s s'"
  using assms row_at_rows [OF assms(2)] by (simp add: synced_def)

lemma forgets_intent:
  assumes "forgets s s'" "filter (\<lambda>r. cm_mailbox r \<noteq> box) (rows s') = filter (\<lambda>r. cm_mailbox r \<noteq> box) (rows s)"
  shows "same_intent box s s'"
  using assms by (simp add: forgets_def same_intent_def)

lemma delete_synced:
  assumes "rows_ok rid box (sv_generation R) s" "h \<noteq> sv_generation R \<or> set us \<inter> server_uids R = {}"
  shows "synced rid box R s (fst (delete_uids box h us s))"
proof -
  have dist: "distinct (map cm_id (rows s))" using assms(1) by (simp add: rows_ok_def)
  note d = delete_uids_ok [OF assms(1), where us = us and h = h]
  have "same_intent box s (fst (delete_uids box h us s))"
    by (rule forgets_intent [OF delete_uids_rows(2) [OF dist] d(3)])
  with d(1,2) assms(2) show ?thesis unfolding synced_def by (auto split: if_splits)
qed


subsection \<open>The flags a sweep writes\<close>

text \<open>Updates a sweep was computed from: rows of the mailbox, with the flags \<open>R\<close> lists.\<close>

definition listed_rows :: "mailbox_id \<Rightarrow> server_mailbox \<Rightarrow> (message_id \<times> flag_set) list \<Rightarrow> sync_store \<Rightarrow> bool" where
  "listed_rows box R us s \<longleftrightarrow>
     (\<forall>(i, fl)\<in>set us. \<exists>f\<in>set (sv_messages R). \<exists>r. row_at s box (sv_generation R) (fm_uid f) = Some r
        \<and> cm_id r = i \<and> fl = fm_flags f)"

lemma listed_rows_synced:
  assumes "synced rid box R s s'" "listed_rows box R us s"
  shows "listed_rows box R us s'"
proof -
  have "\<exists>r'. row_at s' box (sv_generation R) (fm_uid f) = Some r' \<and> cm_id r' = cm_id r"
    if "f \<in> set (sv_messages R)" "row_at s box (sv_generation R) (fm_uid f) = Some r" for f r
  proof -
    from that(1) have "fm_uid f \<in> server_uids R" by (simp add: server_uids_def)
    with syncedD(3) [OF assms(1) that(2)] obtain r' where r': "row_at s' box (sv_generation R) (fm_uid f) = Some r'" by auto
    with syncedD(4) [OF assms(1) r'] that(2) show ?thesis by auto
  qed
  with assms(2) show ?thesis unfolding listed_rows_def by fastforce
qed

lemma merged_server_keys:
  "fs_keys (fs_persistable (merged_server_flags ch i fl)) = fs_keys (merged_server_flags ch i fl)"
  by (simp add: merged_server_flags_def)

lemma apply_one_flags_synced:
  assumes ok: "rows_ok rid box (sv_generation R) s" and f: "f \<in> set (sv_messages R)" "row_at s box (sv_generation R) (fm_uid f) = Some r"
    and run: "apply_one_flags (unacknowledged s) (s, changed) (cm_id r, fm_flags f) = (s', changed')"
  shows "synced rid box R s s'"
    "\<exists>r'. row_at s' box (sv_generation R) (fm_uid f) = Some r' \<and> sm_mod_seq r' = sm_mod_seq r \<and> carries (unacknowledged s) f r'"
    "u \<noteq> fm_uid f \<Longrightarrow> row_at s' box (sv_generation R) u = row_at s box (sv_generation R) u"
proof -
  let ?g = "sv_generation R" and ?m = "merged_server_flags (unacknowledged s) (cm_id r) (fm_flags f)"
  from row_at_names [OF ok] f(2) have r: "r \<in> set (rows s)" "cm_mailbox r = box" "names rid ?g (fm_uid f) r" by auto
  have dist: "distinct (map cm_id (rows s))" using ok by (simp add: rows_ok_def)
  obtain x where x: "find (\<lambda>y. cm_id y = cm_id r) (st_messages s) = Some x" "core x = r"
  proof -
    have "find (\<lambda>y. cm_id y = cm_id r) (rows s) = Some r"
      using r(1) dist by (subst find_only) (auto simp: distinct_map inj_on_def)
    then have "map_option core (find (\<lambda>y. cm_id y = cm_id r) (st_messages s)) = Some r" by (simp add: rows_def find_core)
    with that show thesis by (cases "find (\<lambda>y. cm_id y = cm_id r) (st_messages s)") auto
  qed
  have flags: "sm_flags x = sm_flags r" using x(2) by auto
  have "synced rid box R s s'
    \<and> (\<exists>r'. row_at s' box ?g (fm_uid f) = Some r' \<and> sm_mod_seq r' = sm_mod_seq r \<and> carries (unacknowledged s) f r')
    \<and> (\<forall>u. u \<noteq> fm_uid f \<longrightarrow> row_at s' box ?g u = row_at s box ?g u)"
  proof (cases "fs_eq (fs_persistable (sm_flags x)) ?m")
    case True
    then have "s' = s" using run x(1) by (simp add: apply_one_flags_def)
    moreover have "carries (unacknowledged s) f r" using fs_eq_same_keys [OF True] flags by (simp add: carries_def)
    ultimately show ?thesis using f(2) synced_refl [OF ok] by auto
  next
    case False
    let ?n = "r\<lparr>sm_flags := fs_persistable ?m, cm_seen := fs_is_seen (fs_persistable ?m),
        cm_flagged := fs_is_flagged (fs_persistable ?m), sm_flags_dirty := False\<rparr>"
    have s': "s' = set_server_flags (cm_id r) ?m s" using run x(1) False by (simp add: apply_one_flags_def)
    have "core (y\<lparr>sm_flags := a, cm_seen := b, cm_flagged := c, sm_flags_dirty := d\<rparr>)
        = (core y)\<lparr>sm_flags := a, cm_seen := b, cm_flagged := c, sm_flags_dirty := d\<rparr>" for y :: stored_message and a b c d
      by (simp add: core_def)
    note core_up = this
    have "rows s' = map (\<lambda>y. if cm_id y = cm_id r
        then y\<lparr>sm_flags := fs_persistable ?m, cm_seen := fs_is_seen (fs_persistable ?m),
          cm_flagged := fs_is_flagged (fs_persistable ?m), sm_flags_dirty := False\<rparr> else y) (rows s)"
      by (simp add: s' set_server_flags_def Let_def rows_def core_up comp_def if_distrib cong: if_cong)
    also have "\<dots> = map (\<lambda>y. if cm_id y = cm_id r then ?n else y) (rows s)"
      using dist r(1) by (intro map_cong) (auto simp: distinct_map inj_on_def)
    finally have rows': "rows s' = map (\<lambda>y. if cm_id y = cm_id r then ?n else y) (rows s)" .
    have rest: "st_next s' = st_next s" "st_queue s' = st_queue s" "st_mailboxes s' = st_mailboxes s" "st_drafts s' = st_drafts s"
      by (simp_all add: s' set_server_flags_def Let_def)
    have n: "cm_id ?n = cm_id r" "cm_mailbox ?n = box" "names rid ?g (fm_uid f) ?n" using r by (simp_all add: names_def)
    note rep = row_replaced [OF ok r(1,2) disjI1 [OF f(2)] rows' rest(1,2) n]
    have car: "carries (unacknowledged s) f ?n" by (simp add: carries_def merged_server_keys)
    have "same_intent box s s'" using rest rep(4) by (simp add: same_intent_def)
    moreover have "row_at s box ?g u = Some y \<Longrightarrow> row_at s' box ?g u \<noteq> None" for u y
      using rep(2) rep(3) [of u] by (cases "u = fm_uid f") auto
    moreover have "row_at s' box ?g u = Some y \<Longrightarrow> row_at s box ?g u = Some y
        \<or> (u = fm_uid f \<and> y = ?n)" for u y using rep(2) rep(3) [of u] by (cases "u = fm_uid f") auto
    ultimately have "synced rid box R s s'" using rep(1) f car unfolding synced_def by (metis n(1) option.inject)
    with rep(2,3) car show ?thesis by auto
  qed
  then show "synced rid box R s s'"
    "\<exists>r'. row_at s' box ?g (fm_uid f) = Some r' \<and> sm_mod_seq r' = sm_mod_seq r \<and> carries (unacknowledged s) f r'"
    "u \<noteq> fm_uid f \<Longrightarrow> row_at s' box ?g u = row_at s box ?g u" by blast+
qed

end
