(* ===== verification/Pass_Logic.thy ===== *)
theory Pass_Logic
  imports Safe_Pass
begin

section \<open>Triples for passes\<close>

text \<open>
  \<open>triple rid box R P p Q\<close>: from a store in order where \<open>P\<close> holds, the pass \<open>p\<close> does to
  the store only what \<open>synced\<close> allows, whether it returns or fails, and where it returns its
  value and store satisfy \<open>Q\<close>.  One rule per constructor of a pass, one lemma per loop.
\<close>

definition triple :: "(nat \<Rightarrow> remote_id) \<Rightarrow> mailbox_id \<Rightarrow> server_mailbox \<Rightarrow> (sync_store \<Rightarrow> bool)
    \<Rightarrow> ('s, 'a) pass \<Rightarrow> ('a \<Rightarrow> sync_store \<Rightarrow> bool) \<Rightarrow> bool" where
  "triple rid box R P p Q \<longleftrightarrow>
     server_ok rid R \<longrightarrow>
     (\<forall>e s. store_ok rid box R s \<longrightarrow> P s \<longrightarrow>
        (\<exists>e' s' r. p (e, s) = ((e', s'), r) \<and> synced rid box R s s' \<and> (\<forall>x. r = Inr x \<longrightarrow> Q x s')))"

abbreviation anywhere :: "sync_store \<Rightarrow> bool" where
  "anywhere \<equiv> \<lambda>_. True"

abbreviation anything :: "'a \<Rightarrow> sync_store \<Rightarrow> bool" where
  "anything \<equiv> \<lambda>_ _. True"

lemma tripleI:
  assumes "\<And>e s. server_ok rid R \<Longrightarrow> store_ok rid box R s \<Longrightarrow> P s \<Longrightarrow>
      \<exists>e' s' r. p (e, s) = ((e', s'), r) \<and> synced rid box R s s' \<and> (\<forall>x. r = Inr x \<longrightarrow> Q x s')"
  shows "triple rid box R P p Q"
  using assms by (simp add: triple_def)

lemma store_ok_refl: "store_ok rid box R s \<Longrightarrow> synced rid box R s s"
  by (simp add: store_ok_def synced_refl)

lemma triple_weaken:
  assumes "triple rid box R P p Q" "\<And>s. P' s \<Longrightarrow> P s" "\<And>x s. Q x s \<Longrightarrow> Q' x s"
  shows "triple rid box R P' p Q'"
  using assms unfolding triple_def by meson

lemma triple_any: "triple rid box R anywhere p Q \<Longrightarrow> triple rid box R P p anything"
  by (rule triple_weaken) simp_all

lemma triple_return: "(\<And>s. P s \<Longrightarrow> Q x s) \<Longrightarrow> triple rid box R P (returnP x) Q"
  by (rule tripleI) (auto simp: returnP_def store_ok_refl)

lemma triple_throw: "triple rid box R P (throwP x) Q"
  by (rule tripleI) (auto simp: throwP_def store_ok_refl)

lemma triple_query: "(\<And>e s. store_ok rid box R s \<Longrightarrow> P s \<Longrightarrow> Q (h e s) s) \<Longrightarrow> triple rid box R P (query h) Q"
  by (rule tripleI) (auto simp: query_def store_ok_refl)

lemma triple_ask: "(\<And>e x s. snd (f e) = Inr x \<Longrightarrow> P s \<Longrightarrow> Q x s) \<Longrightarrow> triple rid box R P (ask f) Q"
proof (rule tripleI)
  fix e s assume post: "\<And>e x s. snd (f e) = Inr x \<Longrightarrow> P s \<Longrightarrow> Q x s" and "store_ok rid box R s" "P s"
  moreover obtain e' r where "f e = (e', r)" by (cases "f e")
  ultimately show "\<exists>e' s' r. ask f (e, s) = ((e', s'), r) \<and> synced rid box R s s' \<and> (\<forall>x. r = Inr x \<longrightarrow> Q x s')"
    using post [of e] by (cases r) (auto simp: ask_def store_ok_refl)
qed

lemma triple_bind:
  assumes "triple rid box R P p Q" "\<And>x. triple rid box R (Q x) (f x) T"
  shows "triple rid box R P (bindP p f) T"
proof (rule tripleI)
  fix e s assume R: "server_ok rid R" and s: "store_ok rid box R s" "P s"
  with assms(1) obtain e1 s1 r where p: "p (e, s) = ((e1, s1), r)" "synced rid box R s s1" "\<forall>x. r = Inr x \<longrightarrow> Q x s1"
    unfolding triple_def by blast
  show "\<exists>e' s' r. bindP p f (e, s) = ((e', s'), r) \<and> synced rid box R s s' \<and> (\<forall>x. r = Inr x \<longrightarrow> T x s')"
  proof (cases r)
    case (Inl x)
    with p show ?thesis by (auto simp: bindP_def)
  next
    case (Inr x)
    with p(3) have "Q x s1" by simp
    with assms(2) [of x] R synced_ok [OF R s(1) p(2)] obtain e2 s2 r2 where
      "f x (e1, s1) = ((e2, s2), r2)" "synced rid box R s1 s2" "\<forall>x. r2 = Inr x \<longrightarrow> T x s2" unfolding triple_def by blast
    with p(1) Inr synced_trans [OF p(2)] show ?thesis by (auto simp: bindP_def)
  qed
qed

lemma triple_or_rebuild:
  assumes "triple rid box R P p Q" "triple rid box R anywhere c T" "\<And>x. triple rid box R (Q x) (f x) T"
  shows "triple rid box R P (or_rebuild p c f) T"
proof (rule tripleI)
  fix e s assume R: "server_ok rid R" and s: "store_ok rid box R s" "P s"
  with assms(1) obtain e1 s1 r where p: "p (e, s) = ((e1, s1), r)" "synced rid box R s s1" "\<forall>x. r = Inr x \<longrightarrow> Q x s1"
    unfolding triple_def by blast
  note ok = synced_ok [OF R s(1) p(2)]
  from assms(2) R ok obtain e2 s2 r2 where c: "c (e1, s1) = ((e2, s2), r2)" "synced rid box R s1 s2" "\<forall>x. r2 = Inr x \<longrightarrow> T x s2"
    unfolding triple_def by blast
  show "\<exists>e' s' r. or_rebuild p c f (e, s) = ((e', s'), r) \<and> synced rid box R s s' \<and> (\<forall>x. r = Inr x \<longrightarrow> T x s')"
  proof (cases r)
    case (Inl x)
    with p c synced_trans [OF p(2) c(2)] show ?thesis by (cases x) (auto simp: or_rebuild_def)
  next
    case (Inr x)
    with p(3) have "Q x s1" by simp
    with assms(3) [of x] R ok obtain e2 s2 r2 where
      "f x (e1, s1) = ((e2, s2), r2)" "synced rid box R s1 s2" "\<forall>x. r2 = Inr x \<longrightarrow> T x s2" unfolding triple_def by blast
    with p(1) Inr synced_trans [OF p(2)] show ?thesis by (auto simp: or_rebuild_def)
  qed
qed

lemma triple_if: "triple rid box R P p Q \<Longrightarrow> triple rid box R P q Q \<Longrightarrow> triple rid box R P (if c then p else q) Q"
  by simp

lemma triple_sync_op: "triple rid box R P (sync_op b f) anything"
proof (rule tripleI)
  fix e s assume s: "store_ok rid box R s"
  obtain s' r where run: "sync_op b f (e, s) = ((e, s'), r)" "s' = with_sync s' s"
  proof (cases "mutate_sync b f s")
    case (Inl x)
    then have "sync_op b f (e, s) = ((e, s), Inl (StorageFailed x))" by (simp add: sync_op_def atomically_def)
    with that show thesis by simp
  next
    case (Inr s')
    then have "sync_op b f (e, s) = ((e, s'), Inr ())" by (simp add: sync_op_def atomically_def)
    moreover from Inr have "s' = with_sync s' s"
      by (auto simp: mutate_sync_def save_sync_def with_sync_def split: sum.splits)
    ultimately show thesis by (rule that)
  qed
  from s have "rows_ok rid box (sv_generation R) s" by (simp add: store_ok_def)
  moreover have "same_intent box s s'" by (subst run(2)) (simp add: same_intent_def)
  moreover have "rows s' = rows s" by (subst run(2)) simp
  moreover have "rows_ok rid box (sv_generation R) s' = rows_ok rid box (sv_generation R) s" by (subst run(2)) simp
  ultimately have "synced rid box R s s'" by (intro synced_same_rows) simp_all
  with run(1) show "\<exists>e' s' r. sync_op b f (e, s) = ((e', s'), r) \<and> synced rid box R s s' \<and> (\<forall>x. r = Inr x \<longrightarrow> True)" by blast
qed

lemma triple_yield: "triple rid box R P (yield_once B) anything"
  by (rule tripleI) (auto simp: yield_once_def store_ok_refl)


subsection \<open>The parts of a pass\<close>

lemma triple_select: "truthful B R \<Longrightarrow> triple rid box R P (ask (sb_select B)) (\<lambda>sel _. sel = status_of R)"
  by (rule triple_ask) (auto simp: truthful_def)

lemma triple_filing: "truthful B R \<Longrightarrow> triple rid box R P (ask (sb_fetch_for_filing B rs q)) (\<lambda>ms _. set ms \<subseteq> set (sv_messages R))"
proof (rule triple_ask)
  fix e ms assume "truthful B R" "snd (sb_fetch_for_filing B rs q e) = Inr ms"
  then have "reports R rs q ms" by (simp add: truthful_def answers_def)
  then show "set ms \<subseteq> set (sv_messages R)" by (rule reports_set(2))
qed

lemma triple_existing: "truthful B R \<Longrightarrow> triple rid box R P (existing_uids B) anything"
proof (rule tripleI)
  fix e s assume "truthful B R" "store_ok rid box R s"
  from existing_truthful [OF this(1), of e s] store_ok_refl [OF this(2)]
  show "\<exists>e' s' r. existing_uids B (e, s) = ((e', s'), r) \<and> synced rid box R s s' \<and> (\<forall>x. r = Inr x \<longrightarrow> True)" by metis
qed

lemma triple_known:
  "triple rid box R P (query (\<lambda>_ s. uids_in s box (sv_generation R))) (\<lambda>us _. \<forall>u\<in>set us. 1 \<le> u \<and> u \<le> STAR)"
  by (rule triple_query) (auto simp: store_ok_def uids_in_held)

lemma triple_rethread: "triple rid (mb_id box) R P (rethread_pass lower box) anything"
proof (rule tripleI)
  fix e s assume s: "store_ok rid (mb_id box) R s"
  obtain s' where run: "rethread_pass lower box (e, s) = ((e, s'), Inr ())" "same_but_threads s s'" by (rule rethread_same)
  from s have "rows_ok rid (mb_id box) (sv_generation R) s" by (simp add: store_ok_def)
  from same_but_threads_written [OF this run(2)] have "synced rid (mb_id box) R s s'" by (rule written_synced) simp
  with run(1) show "\<exists>e' s' r. rethread_pass lower box (e, s) = ((e', s'), r) \<and> synced rid (mb_id box) R s s' \<and> (\<forall>x. r = Inr x \<longrightarrow> True)"
    by blast
qed

lemma triple_batches:
  fixes B :: "'s sync_backend"
  assumes B: "truthful B R" and acct: "0 < mb_account box"
  shows "triple rid (mb_id box) R P (enumerate_batches B lower box cov None known batches None rep) anything"
proof (rule tripleI)
  fix e :: 's and s assume R: "server_ok rid R" and s: "store_ok rid (mb_id box) R s"
  from s have ok: "rows_ok rid (mb_id box) (sv_generation R) (snd (e, s))" by (simp add: store_ok_def)
  have "answers B (reports R)" using B by (simp add: truthful_def)
  then obtain e' s' r where run: "enumerate_batches B lower box cov None known batches None rep (e, s) = ((e', s'), r)"
    and en: "enumerated rid (mb_id box) (sv_generation R) (reports R) batches (\<exists>x. r = Inr x) s s'"
    using enumerate_batches_written [of rid box "sv_generation R" "(e, s)" B "reports R" None batches lower cov known rep]
      ok acct reported_ok [OF R] by (auto; blast)
  from en obtain F mss where F: "written rid (mb_id box) (sv_generation R) F s s'" "F \<subseteq> \<Union> (set ` set mss)"
    "list_all2 (\<lambda>b. reports R b None) (take (length mss) batches) mss" unfolding enumerated_def by blast
  from F(2) reported_batches(2) [OF F(3)] have "F \<subseteq> set (sv_messages R)" by blast
  with run written_synced [OF F(1)] show "\<exists>e' s' r. enumerate_batches B lower box cov None known batches None rep (e, s) = ((e', s'), r)
      \<and> synced rid (mb_id box) R s s' \<and> (\<forall>x. r = Inr x \<longrightarrow> True)" by blast
qed

lemma triple_changed:
  fixes B :: "'s sync_backend"
  assumes acct: "0 < mb_account box" and fs: "set fs \<subseteq> set (sv_messages R)"
  shows "triple rid (mb_id box) R P
    (write_changed B lower box None has_account known_set (map (into_message a (mb_id box)) fs) found) anything"
proof (rule tripleI)
  fix e :: 's and s assume R: "server_ok rid R" and s: "store_ok rid (mb_id box) R s"
  from s have ok: "rows_ok rid (mb_id box) (sv_generation R) (snd (e, s))" by (simp add: store_ok_def)
  have "\<forall>f\<in>set fs. fetched_ok rid (sv_generation R) f" using fs server_fetch(1) [OF R] by blast
  from write_changed_written [OF ok this acct, of B lower has_account known_set a found] obtain e' s' r where
    run: "write_changed B lower box None has_account known_set (map (into_message a (mb_id box)) fs) found (e, s) = ((e', s'), Inr r)"
    and w: "written rid (mb_id box) (sv_generation R) {f \<in> set fs. \<not> refused s (mb_id box) f} s s'" by auto
  from w have "synced rid (mb_id box) R s s'" by (rule written_synced) (use fs in auto)
  with run show "\<exists>e' s' r. write_changed B lower box None has_account known_set (map (into_message a (mb_id box)) fs) found (e, s)
      = ((e', s'), r) \<and> synced rid (mb_id box) R s s' \<and> (\<forall>x. r = Inr x \<longrightarrow> True)" by blast
qed

lemma triple_reconcile:
  fixes B :: "'s sync_backend"
  assumes "truthful B R" "\<forall>u\<in>set known. 1 \<le> u \<and> u \<le> STAR"
  shows "triple rid (mb_id box) R P (reconcile_vanished B box (sv_generation R) known n) anything"
proof (rule tripleI)
  fix e :: 's and s assume R: "server_ok rid R" and s: "store_ok rid (mb_id box) R s"
  obtain e' s' r where run: "reconcile_vanished B box (sv_generation R) known n (e, s) = ((e', s'), r)"
    and s': "s' = s \<or> s' = fst (delete_uids (mb_id box) (sv_generation R) (filter (\<lambda>u. u \<notin> server_uids R) known) s)"
    by (rule reconcile_truthful [OF assms(1) R assms(2), of box "sv_generation R" n e s]) blast
  have "synced rid (mb_id box) R s (fst (delete_uids (mb_id box) (sv_generation R) (filter (\<lambda>u. u \<notin> server_uids R) known) s))"
    using s by (intro delete_synced) (auto simp: store_ok_def)
  with s' store_ok_refl [OF s] have "synced rid (mb_id box) R s s'" by auto
  with run show "\<exists>e' s' r. reconcile_vanished B box (sv_generation R) known n (e, s) = ((e', s'), r)
      \<and> synced rid (mb_id box) R s s' \<and> (\<forall>x. r = Inr x \<longrightarrow> True)" by blast
qed

lemma triple_wipe: "h \<noteq> sv_generation R \<Longrightarrow> triple rid box R P (wipe_mailbox box h) anything"
proof (rule tripleI)
  fix e s assume h: "h \<noteq> sv_generation R" and s: "store_ok rid box R s"
  have "synced rid box R s (fst (delete_uids box h (uids_in s box h) s))"
    using s h by (intro delete_synced) (auto simp: store_ok_def)
  then show "\<exists>e' s' r. wipe_mailbox box h (e, s) = ((e', s'), r) \<and> synced rid box R s s' \<and> (\<forall>x. r = Inr x \<longrightarrow> True)"
    by (auto simp: wipe_mailbox_def atomically_def)
qed


subsection \<open>The sweep\<close>

text \<open>A sweep adds no row and removes none, and leaves the modification sequences.\<close>

definition reflagged :: "(nat \<Rightarrow> remote_id) \<Rightarrow> mailbox_id \<Rightarrow> server_mailbox \<Rightarrow> sync_store \<Rightarrow> sync_store \<Rightarrow> bool" where
  "reflagged rid box R s s' \<longleftrightarrow>
     synced rid box R s s' \<and> st_sync s' = st_sync s
   \<and> (\<forall>u. map_option sm_mod_seq (row_at s' box (sv_generation R) u) = map_option sm_mod_seq (row_at s box (sv_generation R) u))"

lemma reflagged_refl: "rows_ok rid box (sv_generation R) s \<Longrightarrow> reflagged rid box R s s"
  by (simp add: reflagged_def synced_refl)

lemma reflagged_trans: "reflagged rid box R s t \<Longrightarrow> reflagged rid box R t u \<Longrightarrow> reflagged rid box R s u"
  unfolding reflagged_def by (metis synced_trans)

lemma apply_flags_reflagged:
  assumes "rows_ok rid box (sv_generation R) s" "listed_rows box R us s" "unacknowledged s = ch"
    and "foldl (apply_one_flags ch) (s, c) us = (s', c')"
  shows "reflagged rid box R s s'"
  using assms
proof (induction us arbitrary: s c)
  case Nil
  then show ?case by (simp add: reflagged_refl)
next
  case (Cons x us)
  obtain i fl where x: "x = (i, fl)" by (cases x)
  from Cons.prems(2) x obtain f r where f: "f \<in> set (sv_messages R)" "row_at s box (sv_generation R) (fm_uid f) = Some r"
    "i = cm_id r" "fl = fm_flags f" by (auto simp: listed_rows_def)
  obtain s1 c1 where one: "apply_one_flags ch (s, c) (i, fl) = (s1, c1)" by (cases "apply_one_flags ch (s, c) (i, fl)")
  with f(3,4) Cons.prems(3) have "apply_one_flags (unacknowledged s) (s, c) (cm_id r, fm_flags f) = (s1, c1)" by simp
  note step = apply_one_flags_synced [OF Cons.prems(1) f(1,2) this]
  have "map_option sm_mod_seq (row_at s1 box (sv_generation R) u) = map_option sm_mod_seq (row_at s box (sv_generation R) u)" for u
    using step(2) step(3) [of u] f(2) by (cases "u = fm_uid f") auto
  moreover have "st_sync s1 = st_sync s"
    using one by (auto simp: apply_one_flags_def set_server_flags_def Let_def split: option.splits if_splits)
  ultimately have first: "reflagged rid box R s s1" using step(1) by (simp add: reflagged_def)
  have "listed_rows box R us s" using Cons.prems(2) by (simp add: listed_rows_def)
  then have "listed_rows box R us s1" by (rule listed_rows_synced [OF step(1)])
  from Cons.IH [OF syncedD(1) [OF step(1)] this] same_intent_readers(2) [OF syncedD(2) [OF step(1)]] Cons.prems(3,4) one x
  have "reflagged rid box R s1 s'" by simp
  with first show ?case by (rule reflagged_trans)
qed

lemma sweep_units_reflagged:
  fixes B :: "'s sync_backend"
  assumes "rows_ok rid box (sv_generation R) s" "listed_rows box R us s"
  shows "\<exists>e' s' k. sweep_units B us n (e, s) = ((e', s'), Inr k) \<and> reflagged rid box R s s'"
  using assms
proof (induction us arbitrary: s e n rule: length_induct)
  case (1 us)
  show ?case
  proof (cases "us = []")
    case True
    with "1.prems" show ?thesis by (simp add: sweep_units.simps reflagged_refl)
  next
    case False
    let ?n = "min (unit_rows B e) (length us)"
    obtain s1 c where unit: "apply_server_flags s (take ?n us) = (s1, c)" by (cases "apply_server_flags s (take ?n us)")
    have "listed_rows box R (take ?n us) s" "listed_rows box R (drop ?n us) s"
      using "1.prems"(2) in_set_takeD in_set_dropD unfolding listed_rows_def by fast+
    note parts = this
    have first: "reflagged rid box R s s1"
      by (rule apply_flags_reflagged [OF "1.prems"(1) parts(1) refl unit [unfolded apply_server_flags_def]])
    then have synced: "synced rid box R s s1" by (simp add: reflagged_def)
    have "length (drop ?n us) < length us" using False unit_rows_bounds(1) [of B e] by simp
    from "1.IH" [rule_format, OF this syncedD(1) [OF synced] listed_rows_synced [OF synced parts(2)], of "n + length c" "sb_yield B e"]
    obtain e' s' k where rest: "sweep_units B (drop ?n us) (n + length c) (sb_yield B e, s1) = ((e', s'), Inr k)"
      "reflagged rid box R s1 s'" by blast
    then have "sweep_units B us n (e, s) = ((e', s'), Inr k)"
      using False unit by (subst sweep_units.simps) (simp add: yield_once_def Let_def)
    with reflagged_trans [OF first rest(2)] show ?thesis by blast
  qed
qed

lemma disagreements_listed:
  assumes ok: "rows_ok rid box (sv_generation R) s"
    and listed: "set listed \<subseteq> (\<lambda>f. (fm_uid f, fm_flags f)) ` set (sv_messages R)"
  shows "listed_rows box R (disagreements (flags_in s box (sv_generation R)) listed) s"
proof -
  let ?g = "sv_generation R" and ?stored = "flags_in s box (sv_generation R)"
  have "mset (map (\<lambda>(_, u, _). u) ?stored) = mset (uids_in s box ?g)"
    by (simp add: flags_in_def uids_in_def image_mset.compositionality comp_def case_prod_unfold)
  with uids_in_held(2) [OF ok] have "distinct (map (\<lambda>(_, u, _). u) ?stored)" by (metis mset_eq_imp_distinct_iff)
  note mem = disagreements_mem [OF this]
  have "\<exists>r. row_at s box ?g u = Some r \<and> cm_id r = i" if "(i, u, held) \<in> set ?stored" for i u held
  proof -
    from that obtain m where m: "m \<in> set (st_messages s)" "held_under box ?g m" "i = cm_id m" "u = the (sm_uid m)"
      by (auto simp: flags_in_def)
    then have "core m \<in> set (rows s)" "held_under box ?g (core m)" by (simp_all add: rows_def)
    with held_names [OF ok, of "core m"] obtain v where "names rid ?g v (core m)" "cm_mailbox m = box" by auto
    with m \<open>core m \<in> set (rows s)\<close> have "row_at s box ?g u = Some (core m)" by (simp add: row_at_names [OF ok] names_def)
    with m(3) show ?thesis by simp
  qed
  with mem listed show ?thesis unfolding listed_rows_def by fastforce
qed

lemma triple_sweep:
  fixes B :: "'s sync_backend"
  assumes "truthful B R"
  shows "triple rid (mb_id box) R P (sweep B box (sv_generation R)) anything"
  unfolding sweep_def
proof (rule triple_bind [where Q = "\<lambda>server _. \<forall>l. server = Some l
      \<longrightarrow> set l \<subseteq> (\<lambda>f. (fm_uid f, fm_flags f)) ` set (sv_messages R)"], goal_cases)
  case 1
  show ?case
  proof (rule triple_ask, intro allI impI)
    fix e server and l :: "(nat \<times> flag_set) list" assume "snd (sb_fetch_flags B e) = Inr server" "server = Some l"
    with assms have "mset l = mset (map (\<lambda>f. (fm_uid f, fm_flags f)) (sv_messages R))" unfolding truthful_def by blast
    then have "set l = set (map (\<lambda>f. (fm_uid f, fm_flags f)) (sv_messages R))" by (rule mset_eq_setD)
    then show "set l \<subseteq> (\<lambda>f. (fm_uid f, fm_flags f)) ` set (sv_messages R)" by simp
  qed
next
  case (2 server)
  show ?case
  proof (cases server)
    case (Some l)
    show ?thesis unfolding Some option.case
    proof (rule triple_bind [where Q = "\<lambda>stored s. listed_rows (mb_id box) R (disagreements stored l) s"], goal_cases)
      case 1
      show ?case by (rule triple_query) (auto simp: store_ok_def intro: disagreements_listed)
    next
      case (2 stored)
      have "triple rid (mb_id box) R (listed_rows (mb_id box) R (disagreements stored l)) (sweep_units B (disagreements stored l) 0) anything"
      proof (rule tripleI)
        fix e :: 's and s assume "store_ok rid (mb_id box) R s" "listed_rows (mb_id box) R (disagreements stored l) s"
        with sweep_units_reflagged [of rid "mb_id box" R s "disagreements stored l" B 0 e]
        show "\<exists>e' s' r. sweep_units B (disagreements stored l) 0 (e, s) = ((e', s'), r) \<and> synced rid (mb_id box) R s s' \<and> (\<forall>x. r = Inr x \<longrightarrow> True)"
          by (auto simp: store_ok_def reflagged_def)
      qed
      then show ?case by (rule triple_bind) (rule triple_return, simp)
    qed
  qed (simp add: triple_return)
qed

end
