(* ===== verification/Resync_Safe.thy ===== *)
theory Resync_Safe
  imports Pass_Logic
begin

section \<open>Every pass is safe\<close>

text \<open>
  The triples of the passes of \<open>Initial_Sync\<close> and \<open>Resync\<close>, up to the whole of
  \<open>resync_with_policy\<close>: whatever the plan, wherever it fails.
\<close>

lemma status_of_simps [simp]:
  "sst_generation (status_of R) = sv_generation R" "sst_uid_next (status_of R) = sv_uid_next R"
  "sst_exists (status_of R) = length (sv_messages R)" "sst_highest_mod_seq (status_of R) = sv_highest_mod_seq R"
  by (simp_all add: status_of_def)

lemma model_status_generation [simp]: "ms_generation (to_model_status sel) = sst_generation sel"
  by (auto simp: to_model_status_def with_uid_next_def with_highest_mod_seq_def status_new_def Let_def split: option.splits)

lemma triple_query_any: "triple rid box R P (query h) anything"
  by (rule triple_query) simp

lemma triple_return_any: "triple rid box R P (returnP x) anything"
  by (rule triple_return) simp

lemma triple_bind_value:
  assumes "triple rid box R P p (\<lambda>x _. V x)" "\<And>x. V x \<Longrightarrow> triple rid box R anywhere (f x) anything"
  shows "triple rid box R P (bindP p f) anything"
  using assms(1)
proof (rule triple_bind)
  fix x show "triple rid box R (\<lambda>_. V x) (f x) anything"
    using assms(2) [of x] by (cases "V x") (simp_all add: triple_def)
qed

lemma triple_bind_any:
  "triple rid box R P p anything \<Longrightarrow> (\<And>x. triple rid box R anywhere (f x) anything) \<Longrightarrow> triple rid box R P (bindP p f) anything"
  by (rule triple_bind)

lemma triple_pair: "(\<And>a b. triple rid box R P (f a b) Q) \<Longrightarrow> triple rid box R P (case x of (a, b) \<Rightarrow> f a b) Q"
  by (cases x) simp

lemmas triple_any_rules = triple_pair triple_bind_any triple_if triple_query_any triple_return_any triple_sync_op triple_yield

lemma triple_observe: "triple rid box R P (observe_now B b sel) anything"
  unfolding observe_now_def by (intro triple_any_rules)

lemma triple_enumerate:
  fixes B :: "'s sync_backend"
  assumes B: "truthful B R" and acct: "0 < mb_account box"
  shows "triple rid (mb_id box) R P (enumerate_mailbox B lower box n cov None) anything"
  unfolding enumerate_mailbox_def Let_def
  by (rule triple_bind_value [OF triple_select [OF B]])
    (intro triple_any_rules triple_batches [OF B acct] triple_rethread triple_existing [OF B])

lemma triple_rebuild:
  fixes B :: "'s sync_backend"
  assumes B: "truthful B R" and acct: "0 < mb_account box"
  shows "triple rid (mb_id box) R P (rebuild B lower box g) anything"
  unfolding rebuild_def Let_def
proof (rule triple_bind_value [OF triple_select [OF B]])
  fix sel assume sel: "sel = status_of R"
  have "triple rid (mb_id box) R Q (case g of
      Some stale \<Rightarrow> if (case g of Some known \<Rightarrow> known \<noteq> sst_generation sel | None \<Rightarrow> False) then wipe_mailbox (mb_id box) stale else returnP ()
    | None \<Rightarrow> returnP ()) anything" for Q
    by (cases g) (auto simp: sel intro: triple_return triple_wipe)
  then show "triple rid (mb_id box) R anywhere (bindP (case g of
      Some stale \<Rightarrow> if (case g of Some known \<Rightarrow> known \<noteq> sst_generation sel | None \<Rightarrow> False) then wipe_mailbox (mb_id box) stale else returnP ()
    | None \<Rightarrow> returnP ()) (\<lambda>_. bindP (observe_now B box sel) (\<lambda>_.
      bindP (enumerate_mailbox B lower box DEFAULT_BATCH_SIZE
          (if case g of None \<Rightarrow> False | Some known \<Rightarrow> known \<noteq> sst_generation sel then Missing else Everything) None) (\<lambda>rep.
        returnP (if case g of None \<Rightarrow> False | Some known \<Rightarrow> known \<noteq> sst_generation sel
          then FullOutcome GenerationChanged rep else RebuiltOutcome rep))))) anything"
    by (intro triple_any_rules triple_observe triple_enumerate [OF B acct])
qed

lemma triple_full:
  fixes B :: "'s sync_backend"
  assumes B: "truthful B R" and acct: "0 < mb_account box"
    and reason: "reason = GenerationChanged \<Longrightarrow> generation_changed previous (sv_generation R)"
  shows "triple rid (mb_id box) R P (full_pass B lower box None previous sel reason) anything"
proof -
  have wipe: "triple rid (mb_id box) R Q (case (reason, ss_generation previous) of
      (GenerationChanged, Some g) \<Rightarrow> wipe_mailbox (mb_id box) g | _ \<Rightarrow> returnP ()) anything" for Q
    using reason by (auto simp: generation_changed_def intro: triple_return triple_wipe split: full_resync_reason.splits option.splits)
  have none: "(if c then None else None) = (None :: filing_pass option)" for c by simp
  show ?thesis
    unfolding full_pass_def Let_def none
    by (intro triple_any_rules triple_observe wipe triple_enumerate [OF B acct])
qed

lemma triple_record: "triple rid b R P (record_pass B box sel sw) anything"
  unfolding record_pass_def by (intro triple_any_rules triple_observe)

lemma triple_sweep_flags:
  "truthful B R \<Longrightarrow> triple rid (mb_id box) R P (sweep_flags B box (sv_generation R) fp) anything"
  by (cases fp) (simp_all add: sweep_flags_def triple_return triple_sweep)

lemma triple_shortfall:
  fixes B :: "'s sync_backend"
  assumes "truthful B R" "0 < mb_account box"
  shows "triple rid (mb_id box) R P (enumerate_the_shortfall B lower box) anything"
  unfolding enumerate_the_shortfall_def by (intro triple_any_rules triple_enumerate [OF assms])

lemma triple_incremental:
  fixes B :: "'s sync_backend"
  assumes B: "truthful B R" and acct: "0 < mb_account box"
  shows "triple rid (mb_id box) R P (incremental B lower box (status_of R) since prev None) anything"
  unfolding incremental_def Let_def status_of_simps
proof (rule triple_bind_value [OF triple_known], rule triple_bind_value [OF triple_filing [OF B]], rule triple_bind_value)
  fix known reported assume known: "\<forall>u\<in>set known. 1 \<le> u \<and> u \<le> STAR" and reported: "set reported \<subseteq> set (sv_messages R)"
  show "triple rid (mb_id box) R anywhere (case unaccounted_arrivals reported (status_of R) prev of
         None \<Rightarrow> returnP reported
       | Some lowest \<Rightarrow> bindP (ask (sb_fetch_for_filing B (uset_from_uid_onwards lowest) None)) (\<lambda>arrivals. returnP (reported @ arrivals)))
      (\<lambda>changed _. set changed \<subseteq> set (sv_messages R))"
    using reported by (auto split: option.split intro!: triple_return triple_bind [OF triple_filing [OF B]])
  fix changed assume changed: "set changed \<subseteq> set (sv_messages R)"
  show "triple rid (mb_id box) R anywhere
    (bindP (if changed = [] then returnP ([], [])
            else bindP (query (\<lambda>_ s. mb_account box \<in> set (st_accounts s))) (\<lambda>has_account.
                write_changed B lower box None has_account (uset_from_iter known)
                  (map (into_message (mb_account box) (mb_id box)) changed) ([], []))) (\<lambda>(arrived, filed_away).
     bindP (if uset_from_iter known \<noteq> [] \<and> length (sv_messages R)
              \<noteq> length known + length (filter (\<lambda>m. \<not> uset_contains (uset_from_iter known) (fm_uid m)) changed)
            then reconcile_vanished B box (sv_generation R) known
              (length known + length (filter (\<lambda>m. \<not> uset_contains (uset_from_iter known) (fm_uid m)) changed) - length (sv_messages R))
            else returnP 0) (\<lambda>vanished.
       returnP (IncrementalOutcome (length changed) vanished arrived filed_away)))) anything"
    by (intro triple_any_rules triple_changed [OF acct changed] triple_reconcile [OF B known])
qed

lemma triple_incremental_pass:
  fixes B :: "'s sync_backend"
  assumes B: "truthful B R" and acct: "0 < mb_account box"
  shows "triple rid (mb_id box) R P (incremental_pass B lower box None previous (status_of R) fp since) anything"
  unfolding incremental_pass_def status_of_simps
  by (rule triple_or_rebuild [where Q = anything]; intro triple_any_rules triple_incremental [OF B acct] triple_sweep_flags [OF B]
      triple_rebuild [OF B acct] triple_record triple_shortfall [OF B acct])

lemma triple_vanished_unseen:
  fixes B :: "'s sync_backend"
  assumes B: "truthful B R" and g: "\<not> generation_changed previous (sv_generation R)"
  shows "triple rid (mb_id box) R P (vanished_unseen B box previous sel) anything"
proof (cases "ss_generation previous")
  case (Some g)
  with assms(2) have g: "g = sv_generation R" by (simp add: generation_changed_def)
  show ?thesis unfolding vanished_unseen_def Some option.case g
    by (rule triple_bind_value [OF triple_known]) (intro triple_any_rules triple_reconcile [OF B], simp)
qed (simp add: vanished_unseen_def triple_return)

lemma triple_up_to_date:
  fixes B :: "'s sync_backend"
  assumes B: "truthful B R" and acct: "0 < mb_account box" and g: "\<not> generation_changed previous (sv_generation R)"
  shows "triple rid (mb_id box) R P (up_to_date_pass B lower box previous (status_of R) fp) anything"
  unfolding up_to_date_pass_def status_of_simps
  by (rule triple_or_rebuild [OF triple_sweep_flags [OF B] triple_rebuild [OF B acct]])
    (intro triple_any_rules triple_record triple_vanished_unseen [OF B g] triple_shortfall [OF B acct])

lemma plan_generation:
  "sync_plan x st = Full GenerationChanged \<longleftrightarrow> generation_changed x (ms_generation st)"
  by (auto simp: sync_plan_def split: option.splits)

lemma triple_resync:
  fixes B :: "'s sync_backend"
  assumes B: "truthful B R" and acct: "0 < mb_account box"
  shows "triple rid (mb_id box) R P (resync_with_policy B lower box None policy) anything"
  unfolding resync_with_policy_def
proof (rule triple_bind_any)
  show "triple rid (mb_id box) R P (atomically (\<lambda>s. case require_sync (mb_id box) s of Inl e \<Rightarrow> Inl e | Inr x \<Rightarrow> Inr (s, x))) anything"
    by (rule tripleI) (auto simp: atomically_def store_ok_refl split: sum.split)
  fix previous
  show "triple rid (mb_id box) R anywhere (or_rebuild (ask (sb_select B)) (rebuild B lower box (ss_generation previous))
      (\<lambda>sel. let fp = sweep_decide policy (sst_exists sel) (ss_passes_since_flag_sweep previous) (sb_change_feed B) in
          case sync_plan previous (to_model_status sel) of
            Full reason \<Rightarrow> full_pass B lower box None previous sel reason
          | Incremental since \<Rightarrow> incremental_pass B lower box None previous sel fp since
          | UpToDate \<Rightarrow> up_to_date_pass B lower box previous sel fp)) anything"
  proof (rule triple_or_rebuild [OF triple_select [OF B] triple_rebuild [OF B acct]])
    fix sel
    show "triple rid (mb_id box) R (\<lambda>_. sel = status_of R)
      (let fp = sweep_decide policy (sst_exists sel) (ss_passes_since_flag_sweep previous) (sb_change_feed B) in
          case sync_plan previous (to_model_status sel) of
            Full reason \<Rightarrow> full_pass B lower box None previous sel reason
          | Incremental since \<Rightarrow> incremental_pass B lower box None previous sel fp since
          | UpToDate \<Rightarrow> up_to_date_pass B lower box previous sel fp) anything"
    proof (cases "sel = status_of R")
      case True
      let ?plan = "sync_plan previous (to_model_status (status_of R))"
      have gen: "\<not> generation_changed previous (sv_generation R)" if "?plan = UpToDate"
        using that plan_generation [of previous "to_model_status (status_of R)"] by auto
      have full: "generation_changed previous (sv_generation R)" if "?plan = Full GenerationChanged"
        using that plan_generation [of previous "to_model_status (status_of R)"] by simp
      show ?thesis unfolding True Let_def
        by (cases ?plan) (simp_all add: full gen triple_full [OF B acct] triple_incremental_pass [OF B acct] triple_up_to_date [OF B acct])
    qed (simp add: triple_def)
  qed
qed

lemma resync_synced:
  fixes B :: "'s sync_backend"
  assumes "truthful B R" "server_ok rid R" "store_ok rid (mb_id box) R s" "0 < mb_account box"
    and "resync_with_policy B lower box None policy (e, s) = ((e', s'), res)"
  shows "synced rid (mb_id box) R s s'"
proof -
  have "\<exists>e2 s2 r2. resync_with_policy B lower box None policy (e, s) = ((e2, s2), r2) \<and> synced rid (mb_id box) R s s2"
    using triple_resync [OF assms(1,4), of rid anywhere lower policy] assms(2,3) unfolding triple_def by blast
  then show ?thesis using assms(5) by auto
qed

end
