(* ===== verification/Resync_Exact.thy ===== *)
theory Resync_Exact
  imports Resync_Safe
begin

section \<open>A pass nothing disturbs brings the mailbox in step\<close>

text \<open>
  \<open>in_step\<close>: a row for every message of the server and no other under its generation, each
  with the modification sequence and flags the server reports, the local changes still queued on
  top.  An incremental pass reaches it from a store that lacks only what the server's change
  feed names and what its UID counter gives away (\<open>accounted\<close>).
\<close>

subsection \<open>In step\<close>

definition current :: "mailbox_id \<Rightarrow> server_mailbox \<Rightarrow> sync_store \<Rightarrow> fetched_message \<Rightarrow> bool" where
  "current box R s f \<longleftrightarrow>
     (\<exists>r. row_at s box (sv_generation R) (fm_uid f) = Some r \<and> (mirrors (unacknowledged s) f r \<or> agrees f r))"

definition in_step :: "(nat \<Rightarrow> remote_id) \<Rightarrow> mailbox_id \<Rightarrow> server_mailbox \<Rightarrow> sync_store \<Rightarrow> bool" where
  "in_step rid box R s \<longleftrightarrow>
     rows_ok rid box (sv_generation R) s \<and> (\<forall>f\<in>set (sv_messages R). current box R s f)
   \<and> held_uids s box (sv_generation R) = server_uids R"

definition accounted :: "mailbox_id \<Rightarrow> server_mailbox \<Rightarrow> nat \<Rightarrow> nat option \<Rightarrow> sync_store \<Rightarrow> fetched_message \<Rightarrow> bool" where
  "accounted box R since prev s f \<longleftrightarrow>
     changed_since (Some since) f \<or> current box R s f
   \<or> (\<exists>p. prev = Some p \<and> p \<le> fm_uid f
        \<and> (\<forall>f'\<in>set (sv_messages R). changed_since (Some since) f' \<longrightarrow> fm_uid f' < fm_uid f))"

lemma server_uid_unique:
  "server_ok rid R \<Longrightarrow> f \<in> set (sv_messages R) \<Longrightarrow> f' \<in> set (sv_messages R) \<Longrightarrow> fm_uid f = fm_uid f' \<Longrightarrow> f = f'"
  by (auto simp: server_ok_def distinct_map inj_on_def)

lemma server_count: "server_ok rid R \<Longrightarrow> card (server_uids R) = length (sv_messages R)"
  unfolding server_ok_def server_uids_def by (metis distinct_card length_map set_map)

lemma finite_server_uids [simp]: "finite (server_uids R)"
  by (simp add: server_uids_def)

text \<open>
  A row shows the local changes queued for it when putting them on top of its flags changes
  nothing.  Such a row mirrors every message it agrees with.
\<close>

definition shows_changes :: "(message_id \<Rightarrow> (bool \<times> flag_set) list) \<Rightarrow> stored_message \<Rightarrow> bool" where
  "shows_changes changes r \<longleftrightarrow> fs_keys (fs_persistable (sm_flags r)) = fs_keys (merged_server_flags changes (cm_id r) (sm_flags r))"

lemma merged_keys_cong:
  assumes "fs_keys (fs_persistable fl) = fs_keys (fs_persistable fl')"
  shows "fs_keys (merged_server_flags ch i fl) = fs_keys (merged_server_flags ch i fl')"
proof -
  have "fs_keys fl - {flag_key Recent} = fs_keys fl' - {flag_key Recent}" using assms by (auto simp: fs_keys_persistable)
  then show ?thesis
    using keys_with_unacknowledged [of fl "{flag_key Recent}" fl' "ch i"] by (simp add: merged_server_flags_def fs_keys_persistable)
qed

lemma agrees_mirrors: "agrees f r \<Longrightarrow> shows_changes changes r \<Longrightarrow> mirrors changes f r"
  using merged_keys_cong [of "sm_flags r" "fm_flags f" changes "cm_id r"]
  by (auto simp: agrees_def shows_changes_def mirrors_def carries_def)

lemma current_intent:
  assumes "same_intent box s s'" "row_at s' box (sv_generation R) (fm_uid f) = row_at s box (sv_generation R) (fm_uid f)"
  shows "current box R s' f = current box R s f"
  using assms(2) by (simp add: current_def same_intent_readers(2) [OF assms(1)])

lemma current_written:
  assumes R: "server_ok rid R" and w: "written rid box (sv_generation R) F s s'" "F \<subseteq> set (sv_messages R)"
    and f: "f \<in> set (sv_messages R)" "f \<in> F \<or> current box R s f"
  shows "current box R s' f"
proof (cases "fm_uid f \<in> fm_uid ` F")
  case True
  from writtenD(4) [OF w(1) True] obtain f' r where f': "f' \<in> F" "fm_uid f' = fm_uid f"
    "row_at s' box (sv_generation R) (fm_uid f) = Some r" "mirrors (unacknowledged s) f' r \<or> agrees f' r" by blast
  from f'(1,2) w(2) f(1) have "f' = f" using server_uid_unique [OF R, of f' f] by auto
  with f' show ?thesis by (auto simp: current_def written_changes [OF w(1)])
next
  case False
  with f(2) have "current box R s f" by auto
  with current_intent [OF frame_intent [OF writtenD(2) [OF w(1)]] writtenD(3) [OF w(1) False]] show ?thesis by simp
qed

lemma held_written:
  assumes "written rid box g F s s'"
  shows "held_uids s' box g = held_uids s box g \<union> fm_uid ` F"
proof (rule set_eqI)
  fix u show "u \<in> held_uids s' box g \<longleftrightarrow> u \<in> held_uids s box g \<union> fm_uid ` F"
    using writtenD(3,4) [OF assms, of u] by (cases "u \<in> fm_uid ` F") (auto simp: held_uids_def)
qed


subsection \<open>What an incremental pull fetches\<close>

lemma fold_max_le: "(\<forall>u\<in>set us. u \<le> fold max us (a :: nat)) \<and> a \<le> fold max us a \<and> fold max us a \<in> insert a (set us)"
proof (induction us arbitrary: a)
  case (Cons u us)
  from Cons.IH [of "max u a"] show ?case by (auto simp: max_def split: if_splits)
qed simp

lemma exactly_distinct: "server_ok rid R \<Longrightarrow> exactly R rs q ms \<Longrightarrow> distinct (map fm_uid ms)"
proof -
  assume "server_ok rid R" and ms: "exactly R rs q ms"
  then have "distinct (map fm_uid (filter (\<lambda>f. uset_contains rs (fm_uid f) \<and> changed_since q f) (sv_messages R)))"
    by (auto simp: server_ok_def intro: distinct_map_filter)
  moreover have "mset (map fm_uid ms)
      = mset (map fm_uid (filter (\<lambda>f. uset_contains rs (fm_uid f) \<and> changed_since q f) (sv_messages R)))"
    using ms by (simp add: exactly_def)
  ultimately show ?thesis by (metis mset_eq_imp_distinct_iff)
qed

lemma pull_fetches:
  assumes B: "holds B R" and R: "server_ok rid R"
  obtains e' changed where
    "bindP (ask (sb_fetch_for_filing B uset_all (Some since))) (\<lambda>reported.
       case unaccounted_arrivals reported (status_of R) prev of
         None \<Rightarrow> returnP reported
       | Some lowest \<Rightarrow> bindP (ask (sb_fetch_for_filing B (uset_from_uid_onwards lowest) None)) (\<lambda>arrivals. returnP (reported @ arrivals)))
       (e, s) = ((e', s), Inr changed)"
    "set changed \<subseteq> set (sv_messages R)" "distinct (map fm_uid changed)"
    "\<And>f. f \<in> set (sv_messages R) \<Longrightarrow> accounted box R since prev t f \<Longrightarrow> f \<in> set changed \<or> current box R t f"
proof -
  obtain e1 rep where rep: "ask (sb_fetch_for_filing B uset_all (Some since)) (e, s) = ((e1, s), Inr rep)"
    "exactly R uset_all (Some since) rep" by (rule ask_filing [OF B])
  have rep_set: "set rep = {f \<in> set (sv_messages R). changed_since (Some since) f}"
    using exactly_set [OF rep(2)] server_fetch [OF R] by (auto simp: contains_all)
  let ?high = "fold max (map fm_uid rep) 0"
  note high = fold_max_le [of "map fm_uid rep" 0]
  have below: "?high < STAR" using high rep_set server_fetch [OF R] R by (fastforce simp: server_ok_def STAR_def u32_max_def)
  then have sat: "sat_add32 ?high (Suc 0) = Suc ?high" by (simp add: sat_add32_exact STAR_def)
  show thesis
  proof (cases "unaccounted_arrivals rep (status_of R) prev")
    case None
    have "f \<in> set rep \<or> current box R t f" if f: "f \<in> set (sv_messages R)" "accounted box R since prev t f" for f
    proof (rule ccontr)
      assume no: "\<not> ?thesis"
      with f rep_set obtain p where p: "prev = Some p" "p \<le> fm_uid f"
        "\<forall>f'\<in>set (sv_messages R). changed_since (Some since) f' \<longrightarrow> fm_uid f' < fm_uid f" by (auto simp: accounted_def)
      have "?high < fm_uid f" using high p(3) rep_set server_fetch(2) [OF R f(1)] by auto
      with p(2) None p(1) sat server_fetch(3) [OF R f(1)] show False by (simp add: unaccounted_arrivals_def Let_def split: if_splits)
    qed
    with None rep rep_set exactly_distinct [OF R rep(2)] show thesis by (intro that [of e1 rep]) (auto simp: bindP_def returnP_def)
  next
    case (Some low)
    obtain e2 arr where arr: "ask (sb_fetch_for_filing B (uset_from_uid_onwards low) None) (e1, s) = ((e2, s), Inr arr)"
      "exactly R (uset_from_uid_onwards low) None arr" by (rule ask_filing [OF B])
    from Some obtain p where p: "prev = Some p" "low = max p (?high + 1)" "low < sv_uid_next R"
      by (auto simp: unaccounted_arrivals_def sat Let_def split: option.splits if_splits)
    from p(3) R have "low \<le> STAR" by (simp add: server_ok_def)
    then have arr_set: "set arr = {f \<in> set (sv_messages R). low \<le> fm_uid f}"
      using exactly_set [OF arr(2)] server_fetch [OF R] by (auto simp: contains_onwards)
    have "f \<in> set (rep @ arr) \<or> current box R t f" if f: "f \<in> set (sv_messages R)" "accounted box R since prev t f" for f
    proof (rule ccontr)
      assume no: "\<not> ?thesis"
      with f rep_set p(1) have p': "p \<le> fm_uid f"
        "\<forall>f'\<in>set (sv_messages R). changed_since (Some since) f' \<longrightarrow> fm_uid f' < fm_uid f" by (auto simp: accounted_def)
      have "?high < fm_uid f" using high p'(2) rep_set server_fetch(2) [OF R f(1)] by auto
      with p'(1) p(2) arr_set f(1) no show False by auto
    qed
    moreover have "distinct (map fm_uid (rep @ arr))"
    proof -
      have "fm_uid f < low" if "f \<in> set rep" for f using high that p(2) by (auto simp: less_Suc_eq_le max_def)
      then show ?thesis using exactly_distinct [OF R rep(2)] exactly_distinct [OF R arr(2)] arr_set by fastforce
    qed
    ultimately show thesis using Some rep arr rep_set arr_set by (intro that [of e2 "rep @ arr"]) (auto simp: bindP_def returnP_def)
  qed
qed


subsection \<open>The incremental pull\<close>

text \<open>Writing what was fetched: every message of the server has its row.\<close>

lemma pull_written:
  fixes B :: "'s sync_backend"
  assumes R: "server_ok rid R" and ok: "rows_ok rid (mb_id box) (sv_generation R) s" and acct: "0 < mb_account box"
    and kept: "\<forall>f\<in>set (sv_messages R). \<not> refused s (mb_id box) f"
    and changed: "set changed \<subseteq> set (sv_messages R)"
    and all: "\<And>f. f \<in> set (sv_messages R) \<Longrightarrow> f \<in> set changed \<or> current (mb_id box) R s f"
  obtains e' s' x where
    "(if changed = [] then returnP ([], [])
      else bindP (query (\<lambda>_ s. mb_account box \<in> set (st_accounts s))) (\<lambda>has_account.
        write_changed B lower box None has_account known_set (map (into_message (mb_account box) (mb_id box)) changed) ([], []))) (e, s)
      = ((e', s'), Inr x)"
    "written rid (mb_id box) (sv_generation R) (set changed) s s'"
    "\<forall>f\<in>set (sv_messages R). current (mb_id box) R s' f"
proof -
  have keep: "{f \<in> set changed. \<not> refused s (mb_id box) f} = set changed" using kept changed by auto
  have cur: "\<forall>f\<in>set (sv_messages R). current (mb_id box) R s' f"
    if "written rid (mb_id box) (sv_generation R) (set changed) s s'" for s'
    using current_written [OF R that changed] all by blast
  show thesis
  proof (cases "changed = []")
    case True
    with written_refl [OF ok] cur [of s] show thesis by (intro that [of e s]) (simp_all add: returnP_def)
  next
    case False
    have "\<forall>f\<in>set changed. fetched_ok rid (sv_generation R) f" using changed server_fetch(1) [OF R] by blast
    with write_changed_written [of rid box "sv_generation R" "(e, s)" changed B lower "mb_account box \<in> set (st_accounts s)"
        known_set "mb_account box" "([], [])"] ok acct
    obtain e' s' x where "write_changed B lower box None (mb_account box \<in> set (st_accounts s)) known_set
        (map (into_message (mb_account box) (mb_id box)) changed) ([], []) (e, s) = ((e', s'), Inr x)"
      "written rid (mb_id box) (sv_generation R) {f \<in> set changed. \<not> refused s (mb_id box) f} s s'" by auto
    note this(1) this(2) [unfolded keep]
    with False cur show thesis by (intro that [of e' s' x]) simp_all
  qed
qed

lemma no_known: "\<forall>u\<in>set us. 1 \<le> u \<and> u \<le> STAR \<Longrightarrow> uset_from_iter us = [] \<longleftrightarrow> us = []"
proof
  assume us: "\<forall>u\<in>set us. 1 \<le> u \<and> u \<le> STAR" and "uset_from_iter us = []"
  then have "\<not> uset_contains (uset_from_iter us) u" for u by (simp add: uset_contains_def)
  with contains_from_iter [of us] us show "us = []" by (cases us) auto
qed (simp add: uset_from_iter_def normalize_def)

text \<open>The arithmetic of the vanish check is exact when the store holds all the server does.\<close>

lemma vanish_exact:
  fixes B :: "'s sync_backend"
  assumes B: "holds B R" and R: "server_ok rid R" and s: "store_ok rid (mb_id box) R s"
    and w: "written rid (mb_id box) (sv_generation R) (set changed) s s1" "set changed \<subseteq> set (sv_messages R)" "distinct (map fm_uid changed)"
    and cur: "\<forall>f\<in>set (sv_messages R). current (mb_id box) R s1 f"
  defines "known \<equiv> uids_in s (mb_id box) (sv_generation R)"
  defines "expected \<equiv> length known + length (filter (\<lambda>m. \<not> uset_contains (uset_from_iter known) (fm_uid m)) changed)"
  obtains e' s' k where
    "(if uset_from_iter known \<noteq> [] \<and> length (sv_messages R) \<noteq> expected
      then reconcile_vanished B box (sv_generation R) known (expected - length (sv_messages R)) else returnP 0) (e, s1) = ((e', s'), Inr k)"
    "in_step rid (mb_id box) R s'" "synced rid (mb_id box) R s1 s'" "st_sync s' = st_sync s1"
proof -
  let ?g = "sv_generation R" and ?box = "mb_id box" and ?gone = "filter (\<lambda>u. u \<notin> server_uids R) known"
  have ok: "rows_ok rid ?box ?g s" and ok1: "rows_ok rid ?box ?g s1" using s writtenD(1) [OF w(1)] by (simp_all add: store_ok_def)
  note k = uids_in_held [OF ok, folded known_def]
  have bound: "\<forall>u\<in>set known. 1 \<le> u \<and> u \<le> STAR" using s k(1) by (auto simp: store_ok_def)
  have star: "\<forall>u\<in>set known. u \<le> STAR" using bound by auto
  have new: "uset_contains (uset_from_iter known) (fm_uid f) \<longleftrightarrow> fm_uid f \<in> set known" if "f \<in> set changed" for f
    unfolding contains_from_iter [OF star] using w(2) that server_fetch(2) [OF R] by blast
  have held1: "held_uids s1 ?box ?g = set known \<union> fm_uid ` set changed" using held_written [OF w(1)] k(1) by simp
  have "length (filter (\<lambda>m. \<not> uset_contains (uset_from_iter known) (fm_uid m)) changed) = card (fm_uid ` set changed - set known)"
  proof -
    let ?new = "filter (\<lambda>m. fm_uid m \<notin> set known) changed"
    have "length ?new = card (set (map fm_uid ?new))" using distinct_map_filter [OF w(3)] by (metis distinct_card length_map)
    moreover have "set (map fm_uid ?new) = fm_uid ` set changed - set known" by auto
    ultimately show ?thesis using new by (simp cong: filter_cong)
  qed
  moreover have "card (set known \<union> (fm_uid ` set changed - set known)) = card (set known) + card (fm_uid ` set changed - set known)"
    by (rule card_Un_disjoint) auto
  ultimately have expected: "expected = card (held_uids s1 ?box ?g)"
    using distinct_card [OF k(2)] by (simp add: expected_def held1)
  have sub: "server_uids R \<subseteq> held_uids s1 ?box ?g" using cur by (force simp: server_uids_def current_def held_uids_def)
  have extra: "held_uids s1 ?box ?g - server_uids R = set ?gone" using held1 w(2) by (auto simp: server_uids_def)
  have fin: "finite (held_uids s1 ?box ?g)" by (simp add: held1)
  have gone: "expected - length (sv_messages R) = length ?gone"
    using card_Diff_subset [OF finite_server_uids sub] k(2) distinct_card [of ?gone]
    unfolding expected server_count [OF R, symmetric] extra by simp
  have le: "length (sv_messages R) \<le> expected" using card_mono [OF fin sub] by (simp add: expected server_count [OF R])
  show thesis
  proof (cases "uset_from_iter known \<noteq> [] \<and> length (sv_messages R) \<noteq> expected")
    case True
    have tr: "truthful B R" "undisturbed B" using B by (simp_all add: holds_def)
    let ?s' = "fst (delete_uids ?box ?g ?gone s1)"
    obtain e' where run: "reconcile_vanished B box ?g known (expected - length (sv_messages R)) (e, s1)
        = ((e', ?s'), Inr (snd (delete_uids ?box ?g ?gone s1)))"
      unfolding gone by (rule reconcile_truthful [OF tr(1) R bound, of box ?g "length ?gone" e s1]) (use tr(2) in auto)
    have dist1: "distinct (map cm_id (rows s1))" using ok1 by (simp add: rows_ok_def)
    note d = delete_uids_ok [OF ok1, where us = ?gone and h = ?g]
    have syn: "synced rid ?box R s1 ?s'" by (rule delete_synced [OF ok1]) auto
    have "held_uids ?s' ?box ?g = held_uids s1 ?box ?g - set ?gone" using d(2) by (auto simp: held_uids_def)
    then have "held_uids ?s' ?box ?g = server_uids R" using extra sub by blast
    moreover have "current ?box R ?s' f" if f: "f \<in> set (sv_messages R)" for f
    proof -
      have "fm_uid f \<in> server_uids R" using f by (simp add: server_uids_def)
      with d(2) [of "fm_uid f"] have "row_at ?s' ?box ?g (fm_uid f) = row_at s1 ?box ?g (fm_uid f)" by simp
      from current_intent [OF syncedD(2) [OF syn] this] cur f show ?thesis by simp
    qed
    moreover have "st_sync ?s' = st_sync s1" using delete_uids_rows(2) [OF dist1] by (simp add: forgets_def)
    ultimately show thesis using True run d(1) syn by (intro that [of e' ?s']) (simp_all add: in_step_def)
  next
    case False
    have "held_uids s1 ?box ?g = server_uids R"
    proof (cases "known = []")
      case True
      then show ?thesis using held1 sub w(2) by (auto simp: server_uids_def)
    next
      case known: False
      with False no_known [OF bound] have "length (sv_messages R) = expected" by simp
      with card_subset_eq [OF fin sub] show ?thesis by (simp add: expected server_count [OF R])
    qed
    with False ok1 cur synced_refl [OF ok1] show thesis by (intro that [of e s1 0]) (auto simp: in_step_def returnP_def)
  qed
qed


lemma incremental_in_step:
  fixes B :: "'s sync_backend"
  assumes B: "holds B R" and R: "server_ok rid R" and s: "store_ok rid (mb_id box) R s" and acct: "0 < mb_account box"
    and kept: "\<forall>f\<in>set (sv_messages R). \<not> refused s (mb_id box) f"
    and acc: "\<forall>f\<in>set (sv_messages R). accounted (mb_id box) R since prev s f"
  obtains e' s' n v arr away where
    "incremental B lower box (status_of R) since prev None (e, s) = ((e', s'), Inr (IncrementalOutcome n v arr away))"
    "in_step rid (mb_id box) R s'" "synced rid (mb_id box) R s s'" "st_sync s' = st_sync s"
proof -
  let ?g = "sv_generation R" and ?box = "mb_id box"
  let ?known = "uids_in s ?box ?g"
  obtain e1 changed where pull: "bindP (ask (sb_fetch_for_filing B uset_all (Some since))) (\<lambda>reported.
       case unaccounted_arrivals reported (status_of R) prev of
         None \<Rightarrow> returnP reported
       | Some lowest \<Rightarrow> bindP (ask (sb_fetch_for_filing B (uset_from_uid_onwards lowest) None)) (\<lambda>arrivals. returnP (reported @ arrivals)))
       (e, s) = ((e1, s), Inr changed)"
    and ch: "set changed \<subseteq> set (sv_messages R)" "distinct (map fm_uid changed)"
    "\<And>f. f \<in> set (sv_messages R) \<Longrightarrow> accounted ?box R since prev s f \<Longrightarrow> f \<in> set changed \<or> current ?box R s f"
    by (rule pull_fetches [OF B R, of since prev e s ?box s]) blast
  have ok: "rows_ok rid ?box ?g s" using s by (simp add: store_ok_def)
  obtain e2 s2 x where wr: "(if changed = [] then returnP ([], [])
      else bindP (query (\<lambda>_ s. mb_account box \<in> set (st_accounts s))) (\<lambda>has_account.
        write_changed B lower box None has_account (uset_from_iter ?known) (map (into_message (mb_account box) ?box) changed) ([], []))) (e1, s)
      = ((e2, s2), Inr x)"
    and w: "written rid ?box ?g (set changed) s s2" "\<forall>f\<in>set (sv_messages R). current ?box R s2 f"
    using pull_written [OF R ok acct kept ch(1), of B lower "uset_from_iter ?known" e1] ch(3) acc by blast
  obtain e3 s3 k where vanish: "(if uset_from_iter ?known \<noteq> [] \<and> length (sv_messages R)
        \<noteq> length ?known + length (filter (\<lambda>m. \<not> uset_contains (uset_from_iter ?known) (fm_uid m)) changed)
      then reconcile_vanished B box ?g ?known (length ?known + length (filter (\<lambda>m. \<not> uset_contains (uset_from_iter ?known) (fm_uid m)) changed)
        - length (sv_messages R)) else returnP 0) (e2, s2) = ((e3, s3), Inr k)"
    and s3: "in_step rid ?box R s3" "synced rid ?box R s2 s3" "st_sync s3 = st_sync s2"
    by (rule vanish_exact [OF B R s w(1) ch(1,2) w(2), of e2])
  obtain arrived away where x: "x = (arrived, away)" by (cases x)
  have assoc: "bindP p (\<lambda>r. bindP (q r) h) w = bindP (bindP p q) h w"
    for p :: "('s, 'x) pass" and q :: "'x \<Rightarrow> ('s, 'y) pass" and h :: "'y \<Rightarrow> ('s, sync_outcome) pass" and w
    by (simp add: bindP_def split: prod.split sum.split)
  have "incremental B lower box (status_of R) since prev None (e, s) = ((e3, s3), Inr (IncrementalOutcome (length changed) k arrived away))"
    unfolding incremental_def bindP_query status_of_simps snd_conv Let_def assoc
  proof (rule bindP_okI, rule pull, rule bindP_okI)
    show "(if changed = [] then returnP ([], []) else (\<lambda>w. write_changed B lower box None (mb_account box \<in> set (st_accounts (snd w)))
        (uset_from_iter ?known) (map (into_message (mb_account box) ?box) changed) ([], []) w)) (e1, s) = ((e2, s2), Inr x)"
      using wr by (auto split: if_splits)
    show "(case x of (arrived, away) \<Rightarrow> bindP (if uset_from_iter ?known \<noteq> [] \<and> length (sv_messages R)
          \<noteq> length ?known + length (filter (\<lambda>m. \<not> uset_contains (uset_from_iter ?known) (fm_uid m)) changed)
        then reconcile_vanished B box ?g ?known (length ?known + length (filter (\<lambda>m. \<not> uset_contains (uset_from_iter ?known) (fm_uid m)) changed)
          - length (sv_messages R)) else returnP 0)
        (\<lambda>vanished. returnP (IncrementalOutcome (length changed) vanished arrived away))) (e2, s2)
      = ((e3, s3), Inr (IncrementalOutcome (length changed) k arrived away))"
      unfolding x prod.case by (rule bindP_okI, rule vanish) (simp add: returnP_def)
  qed
  moreover have "synced rid ?box R s s3" by (rule synced_trans [OF written_synced [OF w(1) ch(1)] s3(2)])
  moreover have "st_sync s3 = st_sync s" using s3(3) writtenD(2) [OF w(1)] by (simp add: same_frame_def)
  ultimately show thesis using s3(1) by (intro that)
qed


subsection \<open>The sweep and the rest of the pass\<close>

lemma in_step_reflagged:
  assumes R: "server_ok rid R" and step: "in_step rid box R s" and re: "reflagged rid box R s s'"
  shows "in_step rid box R s'"
proof -
  let ?g = "sv_generation R"
  have syn: "synced rid box R s s'" using re by (simp add: reflagged_def)
  have ch: "unacknowledged s' = unacknowledged s" by (rule same_intent_readers(2) [OF syncedD(2) [OF syn]])
  have seq: "map_option sm_mod_seq (row_at s' box ?g u) = map_option sm_mod_seq (row_at s box ?g u)" for u
    using re by (simp add: reflagged_def)
  have "row_at s' box ?g u = None \<longleftrightarrow> row_at s box ?g u = None" for u using seq [of u] by (metis map_option_is_None)
  then have "held_uids s' box ?g = held_uids s box ?g" by (simp add: held_uids_def)
  moreover have "current box R s' f" if f: "f \<in> set (sv_messages R)" for f
  proof -
    from step f obtain r where r: "row_at s box ?g (fm_uid f) = Some r" "mirrors (unacknowledged s) f r \<or> agrees f r"
      by (auto simp: in_step_def current_def)
    with seq [of "fm_uid f"] obtain r' where r': "row_at s' box ?g (fm_uid f) = Some r'" "sm_mod_seq r' = sm_mod_seq r" by auto
    from syncedD(4) [OF syn r'(1)] show ?thesis
    proof (elim disjE bexE conjE)
      assume "row_at s box ?g (fm_uid f) = Some r'"
      with r r'(1) show ?thesis by (auto simp: current_def ch)
    next
      fix f' assume f': "f' \<in> set (sv_messages R)" "fm_uid f' = fm_uid f" "carries (unacknowledged s) f' r'"
      then have "f' = f" using server_uid_unique [OF R] f by blast
      with f'(3) r r' show ?thesis by (auto simp: current_def ch mirrors_def agrees_def)
    qed
  qed
  ultimately show ?thesis using step syncedD(1) [OF syn] by (simp add: in_step_def)
qed

lemma sweep_in_step:
  fixes B :: "'s sync_backend"
  assumes B: "holds B R" and R: "server_ok rid R" and ok: "rows_ok rid (mb_id box) (sv_generation R) s"
  obtains e' s' sw where "sweep_flags B box (sv_generation R) fp (e, s) = ((e', s'), Inr sw)"
    "reflagged rid (mb_id box) R s s'"
proof (cases fp)
  case Trust
  with that [of e s] reflagged_refl [OF ok] show thesis by (simp add: sweep_flags_def returnP_def)
next
  case Sweep
  obtain e1 a where a: "sb_fetch_flags B e = (e1, a)" by (cases "sb_fetch_flags B e")
  then obtain server where server: "a = Inr server" using B unfolding holds_def undisturbed_def by (metis snd_conv)
  show thesis
  proof (cases server)
    case None
    with that [of e1 s] reflagged_refl [OF ok] a server Sweep show thesis
      by (simp add: sweep_flags_def sweep_def ask_def bindP_def returnP_def)
  next
    case (Some l)
    with a server B have "mset l = mset (map (\<lambda>f. (fm_uid f, fm_flags f)) (sv_messages R))"
      unfolding holds_def truthful_def by (metis snd_conv)
    then have "set l = set (map (\<lambda>f. (fm_uid f, fm_flags f)) (sv_messages R))" by (rule mset_eq_setD)
    then have "set l \<subseteq> (\<lambda>f. (fm_uid f, fm_flags f)) ` set (sv_messages R)" by simp
    from sweep_units_reflagged [OF ok disagreements_listed [OF ok this], of B 0 e1]
    obtain e' s' k where "sweep_units B (disagreements (flags_in s (mb_id box) (sv_generation R)) l) 0 (e1, s) = ((e', s'), Inr k)"
      "reflagged rid (mb_id box) R s s'" by blast
    with a server Some Sweep that show thesis
      by (simp add: sweep_flags_def sweep_def ask_def bindP_def query_def returnP_def)
  qed
qed


lemma in_step_with_sync: "in_step rid box R (with_sync t s) = in_step rid box R s"
  by (simp add: in_step_def current_def held_uids_def)

lemma server_small: "server_ok rid R \<Longrightarrow> length (sv_messages R) \<le> u32_max"
proof -
  assume R: "server_ok rid R"
  have "server_uids R \<subseteq> {1..STAR}" using server_fetch [OF R] by (auto simp: server_uids_def Suc_le_eq)
  then have "card (server_uids R) \<le> card {1..STAR}" by (rule card_mono [rotated]) simp
  with server_count [OF R] show ?thesis by (simp add: STAR_def)
qed

lemma never_short:
  assumes R: "server_ok rid R" and ok: "rows_ok rid box (sv_generation R) s" and all: "server_uids R \<subseteq> held_uids s box (sv_generation R)"
    and gen: "\<not> generation_changed x (sv_generation R)"
  shows "\<not> still_short_of_exists box x (length (sv_messages R)) s"
proof (cases "ss_generation x")
  case (Some g)
  with gen have g: "g = sv_generation R" by (simp add: generation_changed_def)
  note k = uids_in_held [OF ok]
  have "length (sv_messages R) \<le> card (held_uids s box g)"
    using card_mono [OF _ all] k(1) server_count [OF R] unfolding g by (metis List.finite_set)
  also have "\<dots> = count_in s box g" using k distinct_card [OF k(2)] unfolding g by simp
  finally have "length (sv_messages R) \<le> sat_add32 (count_in s box g) (refused_rows_in s box)"
    using server_small [OF R] by (simp add: sat_add32_def)
  then show ?thesis by (simp add: still_short_of_exists_def Some)
qed (simp add: still_short_of_exists_def)

lemma record_runs:
  assumes "sync_ready (mb_id box) x s"
  obtains s' now where "record_pass B box sel sw (e, s) = ((e, s'), Inr ())" "s' = with_sync s' s"
    "sync_ready (mb_id box) (record_flag_pass (sync_observe x (to_model_status sel) now) (sp_swept sw)) s'"
proof -
  let ?now = "sb_clock B e"
  let ?x = "sync_observe x (to_model_status sel) ?now"
  obtain s1 where s1: "sync_op (mb_id box) (\<lambda>x. sync_observe x (to_model_status sel) ?now) (e, s) = ((e, s1), Inr ())"
    "sync_ready (mb_id box) ?x s1" "s1 = with_sync s1 s"
    by (rule sync_op_run [OF assms, of "\<lambda>x. sync_observe x (to_model_status sel) ?now" e]) simp_all
  obtain s2 where s2: "sync_op (mb_id box) (\<lambda>x. record_flag_pass x (sp_swept sw)) (e, s1) = ((e, s2), Inr ())"
    "sync_ready (mb_id box) (record_flag_pass ?x (sp_swept sw)) s2" "s2 = with_sync s2 s1"
    by (rule sync_op_run [OF s1(2), of "\<lambda>x. record_flag_pass x (sp_swept sw)" e]) simp_all
  have "record_pass B box sel sw (e, s) = ((e, s2), Inr ())"
    using s1(1) s2(1) by (simp add: record_pass_def observe_now_def bindP_def query_def)
  moreover have "s2 = with_sync s2 s" using s2(3) s1(3) by (metis with_sync_simps(10))
  ultimately show thesis using s2(2) by (rule that)
qed

text \<open>What a pass stores makes the next plan against the same answer \<open>UpToDate\<close>.\<close>

lemma observed_up_to_date:
  assumes "has_synced x" "\<not> generation_changed x (sv_generation R)" "sv_highest_mod_seq R = Some h"
  shows "sync_plan (record_flag_pass (sync_observe x (to_model_status (status_of R)) now) b) (to_model_status (status_of R)) = UpToDate"
    "ss_highest_mod_seq (record_flag_pass (sync_observe x (to_model_status (status_of R)) now) b) = Some h"
  using assms by (simp_all add: sync_plan_def record_flag_pass_def sync_observe_def generation_changed_def has_synced_def
      to_model_status_def status_new_def with_uid_next_def with_highest_mod_seq_def Let_def)

lemma incremental_pass_in_step:
  fixes B :: "'s sync_backend"
  assumes B: "holds B R" and R: "server_ok rid R" and s: "store_ok rid (mb_id box) R s" and acct: "0 < mb_account box"
    and ready: "sync_ready (mb_id box) x s" and gen: "\<not> generation_changed x (sv_generation R)"
    and kept: "\<forall>f\<in>set (sv_messages R). \<not> refused s (mb_id box) f"
    and acc: "\<forall>f\<in>set (sv_messages R). accounted (mb_id box) R since (ss_uid_next x) s f"
  obtains e' s' n v arr away now b where
    "incremental_pass B lower box None x (status_of R) fp since (e, s) = ((e', s'), Inr (IncrementalOutcome n v arr away))"
    "in_step rid (mb_id box) R s'"
    "sync_ready (mb_id box) (record_flag_pass (sync_observe x (to_model_status (status_of R)) now) b) s'"
proof -
  obtain e1 s1 n v arr away where inc: "incremental B lower box (status_of R) since (ss_uid_next x) None (e, s)
      = ((e1, s1), Inr (IncrementalOutcome n v arr away))"
    "in_step rid (mb_id box) R s1" "synced rid (mb_id box) R s s1" "st_sync s1 = st_sync s"
    by (rule incremental_in_step [OF B R s acct kept acc, of lower e])
  from inc(2) have ok1: "rows_ok rid (mb_id box) (sv_generation R) s1" by (simp add: in_step_def)
  obtain e2 s2 sw where sweep: "sweep_flags B box (sv_generation R) fp (e1, s1) = ((e2, s2), Inr sw)"
    "reflagged rid (mb_id box) R s1 s2" by (rule sweep_in_step [OF B R ok1, of fp e1])
  have step2: "in_step rid (mb_id box) R s2" by (rule in_step_reflagged [OF R inc(2) sweep(2)])
  have "sync_ready (mb_id box) x s2" using ready inc(4) sweep(2) by (simp add: sync_ready_def get_sync_def reflagged_def)
  then obtain s3 now where rec: "record_pass B box (status_of R) sw (e2, s2) = ((e2, s3), Inr ())" "s3 = with_sync s3 s2"
    "sync_ready (mb_id box) (record_flag_pass (sync_observe x (to_model_status (status_of R)) now) (sp_swept sw)) s3"
    by (rule record_runs [of box x s2 B "status_of R" sw e2])
  have step3: "in_step rid (mb_id box) R s3" using step2 by (subst rec(2)) (simp add: in_step_with_sync)
  then have "\<not> still_short_of_exists (mb_id box) x (length (sv_messages R)) s3"
    by (intro never_short [OF R _ _ gen]) (simp_all add: in_step_def)
  with inc(1) sweep(1) rec(1) have "incremental_pass B lower box None x (status_of R) fp since (e, s)
      = ((e2, s3), Inr (IncrementalOutcome (n + sp_corrected sw) v arr away))"
    by (simp add: incremental_pass_def or_rebuild_def bindP_def query_def returnP_def add_corrected_def)
  with step3 rec(3) that show thesis by blast
qed



subsection \<open>A full pass under the generation held\<close>

lemma written_from_with_sync:
  assumes "t = with_sync t s" "written_only rid box g F t s'"
  shows "written_only rid box g F s s'"
proof -
  have "written rid box g F (with_sync t t) (with_sync t s')" using assms(2) by (simp add: written_only_def)
  then have "written rid box g F (with_sync s t) (with_sync s s')" using written_with_sync by blast
  moreover have "with_sync s t = s" using assms(1) by (metis with_sync_simps(10,11))
  ultimately show ?thesis by (simp add: written_only_def)
qed

lemma full_pass_fills:
  fixes B :: "'s sync_backend"
  assumes B: "holds B R" and R: "server_ok rid R" and ok: "rows_ok rid (mb_id box) (sv_generation R) s"
    and acct: "0 < mb_account box" and ready: "sync_ready (mb_id box) x s"
    and reason: "reason \<noteq> GenerationChanged" "reason \<noteq> ModSeqWentBackwards"
  obtains e' s' rep F now now' where
    "full_pass B lower box None x (status_of R) reason (e, s) = ((e', s'), Inr (FullOutcome reason rep))"
    "written_only rid (mb_id box) (sv_generation R) F s s'"
    "{f \<in> set (sv_messages R). \<not> refused s (mb_id box) f
        \<and> (coverage_for reason = Everything \<or> fm_uid f \<notin> set (uids_in s (mb_id box) (sv_generation R)))} \<subseteq> F"
    "F \<subseteq> {f \<in> set (sv_messages R). coverage_for reason = Everything \<or> fm_uid f \<notin> set (uids_in s (mb_id box) (sv_generation R))}"
    "sync_ready (mb_id box) (complete_full_sync (sync_observe (sync_observe x (to_model_status (status_of R)) now')
       (to_model_status (status_of R)) now) now) s'"
proof -
  let ?g = "sv_generation R" and ?box = "mb_id box" and ?st = "to_model_status (status_of R)"
  define now' where "now' = sb_clock B e"
  obtain s1 where s1: "sync_op ?box (\<lambda>x. sync_observe x ?st now') (e, s) = ((e, s1), Inr ())"
    "sync_ready ?box (sync_observe x ?st now') s1" "s1 = with_sync s1 s"
    by (rule sync_op_run [OF ready, of "\<lambda>x. sync_observe x ?st now'" e]) simp_all
  have same: "uids_in s1 = uids_in s" "refused s1 = refused s" "rows_ok rid ?box ?g s1 = rows_ok rid ?box ?g s"
    by (subst s1(3), simp)+
  with ok have ok1: "rows_ok rid ?box ?g s1" by simp
  obtain e' s' rep F now where en: "enumerate_mailbox B lower box DEFAULT_BATCH_SIZE (coverage_for reason) None (e, s1) = ((e', s'), Inr rep)"
    "written_only rid ?box ?g F s1 s'"
    "{f \<in> set (sv_messages R). \<not> refused s1 ?box f \<and> (coverage_for reason = Everything \<or> fm_uid f \<notin> set (uids_in s1 ?box ?g))} \<subseteq> F"
    "F \<subseteq> {f \<in> set (sv_messages R). coverage_for reason = Everything \<or> fm_uid f \<notin> set (uids_in s1 ?box ?g)}"
    "sync_ready ?box (complete_full_sync (sync_observe (sync_observe x ?st now') ?st now) now) s'"
    by (rule enumerate_mailbox_fills [OF B R ok1 acct s1(2), of lower DEFAULT_BATCH_SIZE "coverage_for reason" e])
  have none: "(if c then None else None) = (None :: filing_pass option)" for c by simp
  have skip: "(case (reason, ss_generation x) of (GenerationChanged, Some g) \<Rightarrow> wipe_mailbox ?box g | _ \<Rightarrow> returnP ())
      = (returnP () :: ('s, unit) pass)"
    using reason(1) by (cases reason) simp_all
  have observe: "observe_now B box (status_of R) (e, s) = ((e, s1), Inr ())"
    using s1(1) by (simp add: observe_now_def now'_def)
  have "full_pass B lower box None x (status_of R) reason (e, s) = ((e', s'), Inr (FullOutcome reason rep))"
    unfolding full_pass_def skip none Let_def using observe en(1) reason(2) by (simp add: bindP_def returnP_def)
  then show thesis
    by (rule that [OF _ written_from_with_sync [OF s1(3) en(2)] en(3,4) [unfolded same] en(5)])
qed

lemma written_only_rows:
  assumes "written_only rid box g F s s'"
  shows "rows_ok rid box g s'" "u \<notin> fm_uid ` F \<Longrightarrow> row_at s' box g u = row_at s box g u"
    "held_uids s' box g = held_uids s box g \<union> fm_uid ` F" "unacknowledged s' = unacknowledged s"
proof -
  note w = assms [unfolded written_only_def]
  show "rows_ok rid box g s'" using writtenD(1) [OF w] by simp
  show "u \<notin> fm_uid ` F \<Longrightarrow> row_at s' box g u = row_at s box g u" using writtenD(3) [OF w] by simp
  show "held_uids s' box g = held_uids s box g \<union> fm_uid ` F" using held_written [OF w] by (simp add: held_uids_def)
  show "unacknowledged s' = unacknowledged s" using written_changes [OF w] by simp
qed

lemma current_written_only:
  assumes R: "server_ok rid R" and w: "written_only rid box (sv_generation R) F s s'" "F \<subseteq> set (sv_messages R)" and f: "f \<in> F"
  shows "current box R s' f"
proof -
  have "current box R (with_sync s s') f"
    by (rule current_written [OF R w(1) [unfolded written_only_def] w(2)]) (use f w(2) in auto)
  then show ?thesis by (simp add: current_def)
qed

lemma completed_plan:
  assumes "\<not> generation_changed x (sv_generation R)"
  shows "sync_plan (complete_full_sync (sync_observe (sync_observe x (to_model_status (status_of R)) now') (to_model_status (status_of R)) now) now)
      (to_model_status (status_of R)) = (if sv_highest_mod_seq R = None then Full NoModSeq else UpToDate)"
  using assms by (auto simp: sync_plan_def complete_full_sync_def sync_observe_def generation_changed_def has_synced_def
      to_model_status_def status_new_def with_uid_next_def with_highest_mod_seq_def Let_def split: option.splits)


subsection \<open>The local changes stay on top\<close>

text \<open>
  What a pass leaves of a message: the server's flags with the local changes still queued on
  top, or the row it found, which had the server's flags and did not show those changes.
\<close>

definition in_hand :: "mailbox_id \<Rightarrow> server_mailbox \<Rightarrow> sync_store \<Rightarrow> sync_store \<Rightarrow> fetched_message \<Rightarrow> bool" where
  "in_hand box R s s' f \<longleftrightarrow>
     (\<exists>r. row_at s' box (sv_generation R) (fm_uid f) = Some r
        \<and> (mirrors (unacknowledged s) f r
          \<or> row_at s box (sv_generation R) (fm_uid f) = Some r \<and> agrees f r \<and> \<not> shows_changes (unacknowledged s) r))"

lemma current_in_hand:
  assumes R: "server_ok rid R" and syn: "synced rid box R s s'" and f: "f \<in> set (sv_messages R)" "current box R s' f"
  shows "in_hand box R s s' f"
proof -
  let ?g = "sv_generation R"
  from f(2) obtain r where r: "row_at s' box ?g (fm_uid f) = Some r" "mirrors (unacknowledged s) f r \<or> agrees f r"
    unfolding current_def same_intent_readers(2) [OF syncedD(2) [OF syn]] by blast
  then have seq: "sm_mod_seq r = fm_mod_seq f" by (auto simp: mirrors_def agrees_def)
  from syncedD(4) [OF syn r(1)] show ?thesis
  proof (elim disjE bexE conjE)
    assume "row_at s box ?g (fm_uid f) = Some r"
    with r agrees_mirrors show ?thesis unfolding in_hand_def by blast
  next
    fix f' assume f': "f' \<in> set (sv_messages R)" "fm_uid f' = fm_uid f" "carries (unacknowledged s) f' r"
    then have "f' = f" using server_uid_unique [OF R] f(1) by blast
    with f'(3) r(1) seq show ?thesis by (auto simp: in_hand_def mirrors_def)
  qed
qed

subsection \<open>A pass that trusts the feed reads no flags\<close>

text \<open>
  When the plan is \<open>UpToDate\<close> and no sweep is due, a pass may delete rows of messages the
  server no longer has and fetch messages it has no row of; it leaves the row of every
  message it holds and the server has as it was.
\<close>

lemma vanish_check_runs:
  fixes B :: "'s sync_backend"
  assumes B: "holds B R" and R: "server_ok rid R" and s: "store_ok rid (mb_id box) R s"
    and gen: "\<not> generation_changed x (sv_generation R)"
  obtains e' s' k where "vanished_unseen B box x (status_of R) (e, s) = ((e', s'), Inr k)"
    "rows_ok rid (mb_id box) (sv_generation R) s'" "st_sync s' = st_sync s"
    "\<And>u. u \<in> server_uids R \<Longrightarrow> row_at s' (mb_id box) (sv_generation R) u = row_at s (mb_id box) (sv_generation R) u"
proof -
  let ?g = "sv_generation R" and ?box = "mb_id box"
  let ?known = "uids_in s ?box ?g"
  let ?gone = "filter (\<lambda>u. u \<notin> server_uids R) ?known"
  have ok: "rows_ok rid ?box ?g s" using s by (simp add: store_ok_def)
  have dist: "distinct (map cm_id (rows s))" using ok by (simp add: rows_ok_def)
  show thesis
  proof (cases "ss_generation x = None \<or> count_in s ?box ?g \<le> length (sv_messages R)")
    case True
    with gen ok show thesis
      by (intro that [of e s 0]) (auto simp: vanished_unseen_def returnP_def generation_changed_def split: option.splits)
  next
    case False
    with gen have g: "ss_generation x = Some ?g" by (auto simp: generation_changed_def split: option.splits)
    have bound: "\<forall>u\<in>set ?known. 1 \<le> u \<and> u \<le> STAR" using s uids_in_held(1) [OF ok] by (auto simp: store_ok_def)
    have tr: "truthful B R" "undisturbed B" using B by (simp_all add: holds_def)
    let ?n = "length ?known - length (sv_messages R)"
    obtain e' s' where run: "reconcile_vanished B box ?g ?known ?n (e, s) = ((e', s'),
        if length ?gone = ?n then Inr (snd (delete_uids ?box ?g ?gone s)) else Inr 0)"
      and s': "s' = s \<or> s' = fst (delete_uids ?box ?g ?gone s)"
      by (rule reconcile_truthful [OF tr(1) R bound, of box ?g ?n e s]) (use tr(2) in auto)
    note d = delete_uids_ok [OF ok, where us = ?gone and h = ?g]
    have "rows_ok rid ?box ?g s'" "st_sync s' = st_sync s" using s' ok d(1) delete_uids_rows(2) [OF dist] by (auto simp: forgets_def)
    moreover have "row_at s' ?box ?g u = row_at s ?box ?g u" if "u \<in> server_uids R" for u using s' that d(2) [of u] by auto
    ultimately show thesis using False g run
      by (intro that [of e' s' "if length ?gone = ?n then snd (delete_uids ?box ?g ?gone s) else 0"])
        (simp_all add: vanished_unseen_def split: if_splits)
  qed
qed

lemma trusting_pass:
  fixes B :: "'s sync_backend"
  assumes B: "holds B R" "sb_change_feed B = Reliable" and R: "server_ok rid R" and s: "store_ok rid (mb_id box) R s"
    and acct: "0 < mb_account box" and ready: "sync_ready (mb_id box) x s"
    and plan: "sync_plan x (to_model_status (status_of R)) = UpToDate"
  shows "\<exists>e' s' res. resync_with_policy B lower box None policy (e, s) = ((e', s'), Inr res)
    \<and> (\<forall>u\<in>server_uids R \<inter> held_uids s (mb_id box) (sv_generation R).
         row_at s' (mb_id box) (sv_generation R) u = row_at s (mb_id box) (sv_generation R) u)"
proof -
  let ?g = "sv_generation R" and ?box = "mb_id box"
  have gen: "\<not> generation_changed x ?g" using plan plan_generation [of x "to_model_status (status_of R)"] by auto
  obtain e1 where sel: "ask (sb_select B) (e, s) = ((e1, s), Inr (status_of R))" by (rule ask_select [OF B(1)])
  obtain s1 now where rec: "record_pass B box (status_of R) not_swept (e1, s) = ((e1, s1), Inr ())" "s1 = with_sync s1 s"
    "sync_ready ?box (record_flag_pass (sync_observe x (to_model_status (status_of R)) now) (sp_swept not_swept)) s1"
    by (rule record_runs [OF ready, of B "status_of R" not_swept e1])
  have at1: "row_at s1 = row_at s" "rows_ok rid ?box ?g s1 = rows_ok rid ?box ?g s" by (subst rec(2), simp)+
  then have ok1: "store_ok rid ?box R s1" using s by (simp add: store_ok_def held_uids_def)
  obtain e2 s2 k where van: "vanished_unseen B box x (status_of R) (e1, s1) = ((e2, s2), Inr k)"
    "rows_ok rid ?box ?g s2" "st_sync s2 = st_sync s1"
    "\<And>u. u \<in> server_uids R \<Longrightarrow> row_at s2 ?box ?g u = row_at s1 ?box ?g u"
    by (rule vanish_check_runs [OF B(1) R ok1 gen, of e1]) blast
  obtain x2 where ready2: "sync_ready ?box x2 s2" using rec(3) van(3) by (auto simp: sync_ready_def get_sync_def)
  obtain e3 s3 rep F now3 where en: "enumerate_mailbox B lower box DEFAULT_BATCH_SIZE Missing None (e2, s2) = ((e3, s3), Inr rep)"
    "written_only rid ?box ?g F s2 s3"
    "F \<subseteq> {f \<in> set (sv_messages R). Missing = Everything \<or> fm_uid f \<notin> set (uids_in s2 ?box ?g)}"
    by (rule enumerate_mailbox_fills [OF B(1) R van(2) acct ready2, of lower DEFAULT_BATCH_SIZE Missing e2]) blast
  have kept: "row_at s3 ?box ?g u = row_at s2 ?box ?g u" if "u \<in> held_uids s2 ?box ?g" for u
    using that en(3) uids_in_held(1) [OF van(2)] by (intro written_only_rows(2) [OF en(2)]) auto
  let ?short = "still_short_of_exists ?box x (length (sv_messages R)) s2"
  obtain s' where s': "s' = s2 \<or> s' = s3"
    and run: "\<exists>e' res. resync_with_policy B lower box None policy (e, s) = ((e', s'), Inr res)"
  proof -
    have get: "get_sync s ?box = Some x" using ready by (simp add: sync_ready_def)
    have "\<exists>e' res s'. (s' = s2 \<or> s' = s3) \<and> up_to_date_pass B lower box x (status_of R) Trust (e1, s) = ((e', s'), Inr res)"
      using rec(1) van(1) en(1)
      by (auto simp: up_to_date_pass_def or_rebuild_def sweep_flags_def returnP_def bindP_def query_def enumerate_the_shortfall_def not_swept_def)
    moreover have "resync_with_policy B lower box None policy (e, s) = up_to_date_pass B lower box x (status_of R) Trust (e1, s)"
      using sel get plan B(2) by (simp add: resync_with_policy_def bindP_def atomically_def require_sync_def or_rebuild_def Let_def sweep_decide_def)
    ultimately show thesis using that by metis
  qed
  have "row_at s' ?box ?g u = row_at s ?box ?g u" if u: "u \<in> server_uids R" "u \<in> held_uids s ?box ?g" for u
  proof -
    have same: "row_at s2 ?box ?g u = row_at s ?box ?g u" using van(4) [OF u(1)] at1(1) by simp
    with u(2) have "u \<in> held_uids s2 ?box ?g" by (simp add: held_uids_def)
    with kept same s' show ?thesis by auto
  qed
  with run show ?thesis by blast
qed

end
