(* ===== verification/Resync_Props.thy ===== *)
theory Resync_Props
  imports Resync_Exact
begin

section \<open>What a synchronization promises\<close>

text \<open>
  The properties of a pass, a server to apply them to (\<open>plain_server\<close>), and the three
  places where a pass that is cut short, or a server without modification sequences, leaves the
  mailbox wrong.
\<close>

subsection \<open>A server that answers\<close>

definition answered :: "server_mailbox \<Rightarrow> ranges \<Rightarrow> nat option \<Rightarrow> fetched_message list" where
  "answered R rs q = filter (\<lambda>f. uset_contains rs (fm_uid f) \<and> changed_since q f) (sv_messages R)"

definition plain_server :: "server_mailbox \<Rightarrow> unit sync_backend" where
  "plain_server R =
     \<lparr>sb_select = \<lambda>e. (e, Inr (status_of R)), sb_fetch_headers = \<lambda>rs q e. (e, Inr (answered R rs q)),
      sb_fetch_for_filing = \<lambda>rs q e. (e, Inr (answered R rs q)),
      sb_existing_uids = \<lambda>e. (e, Inr (Some (map fm_uid (sv_messages R)))),
      sb_fetch_flags = \<lambda>e. (e, Inr (Some (map (\<lambda>f. (fm_uid f, fm_flags f)) (sv_messages R)))),
      sb_change_feed = Unreliable, sb_cancelled = \<lambda>_. False, sb_clock = \<lambda>_. 0, sb_unit_quotient = \<lambda>_. None, sb_yield = id\<rparr>"

lemma plain_server_holds: "holds (plain_server R) R"
  by (simp add: holds_def truthful_def undisturbed_def answers_def plain_server_def reports_def exactly_def answered_def)

lemma holds_truthful: "holds B R \<Longrightarrow> truthful B R"
  by (simp add: holds_def)

lemma plain_server_truthful: "truthful (plain_server R) R"
  using plain_server_holds by (simp add: holds_def)

definition sample_message :: "nat \<Rightarrow> nat \<Rightarrow> flag_set \<Rightarrow> fetched_message" where
  "sample_message u q fl = \<lparr>fm_remote = replicate u CHR ''u'', fm_uid = u, fm_validity = 7, fm_mod_seq = Some q, fm_flags = fl,
     fm_internal_date = 0, fm_size = 10, fm_envelope = None, fm_attachments = False\<rparr>"

definition sample_server :: server_mailbox where
  "sample_server = \<lparr>sv_generation = 7, sv_uid_next = 4, sv_highest_mod_seq = Some 9,
     sv_messages = [sample_message 1 5 [Seen], sample_message 3 9 []]\<rparr>"

definition sample_row :: "message_id \<Rightarrow> nat \<Rightarrow> nat \<Rightarrow> flag_set \<Rightarrow> stored_message" where
  "sample_row i u q fl = (into_message 1 1 (sample_message u q fl))\<lparr>cm_id := i\<rparr>"

definition sample_store :: sync_store where
  "sample_store = \<lparr>st_messages = [sample_row 10 1 5 [Seen], sample_row 11 2 4 []], st_next = 12, st_queue = [], st_drafts = [],
     st_mailboxes = [], st_accounts = [1], st_threads = [], st_links = [], st_next_thread = 1, st_now = 0,
     st_sync = [\<lparr>ss_mailbox_id = 1, ss_account_id = 1, ss_generation = Some 7, ss_uid_next = Some 3, ss_highest_mod_seq = Some 6,
       ss_last_full_sync_at = Some 0, ss_last_seen_at = Some 0, ss_passes_since_flag_sweep = 0\<rparr>]\<rparr>"

definition sample_box :: mailbox_row where
  "sample_box = \<lparr>mb_id = 1, mb_account = 1, mb_role = Inbox\<rparr>"

abbreviation sample_rid :: "nat \<Rightarrow> remote_id" where
  "sample_rid u \<equiv> replicate u CHR ''u''"

lemma sample_server_ok: "server_ok sample_rid sample_server"
  by (auto simp: server_ok_def fetched_ok_def sample_server_def sample_message_def STAR_def u32_max_def)

lemma inj_sample_rid: "inj sample_rid"
  by (auto simp: inj_def)

lemma sample_rows: "rows sample_store = [sample_row 10 1 5 [Seen], sample_row 11 2 4 []]"
  by (simp add: rows_def sample_store_def sample_row_def core_def into_message_def)

lemma sample_names: "names sample_rid 7 u (sample_row i v q fl) \<longleftrightarrow> u = v"
  by (auto simp: names_def sample_row_def sample_message_def)

lemma sample_rows_ok: "rows_ok sample_rid 1 7 sample_store"
proof -
  have "cm_id (sample_row i u q fl) = i" "cm_mailbox (sample_row i u q fl) = 1" for i u q fl by (simp_all add: sample_row_def)
  then show ?thesis
    by (auto simp: rows_ok_def sample_rows inj_sample_rid row_ok_def sample_names) (auto simp: sample_store_def)
qed

lemma sample_store_ok: "store_ok sample_rid 1 sample_server sample_store"
proof -
  have g: "sv_generation sample_server = 7" by (simp add: sample_server_def)
  have "held_uids sample_store 1 7 \<subseteq> {1, 2}"
    using row_at_names [OF sample_rows_ok] by (auto simp: held_uids_def sample_rows sample_names)
  then have "\<forall>u\<in>held_uids sample_store 1 7. 1 \<le> u \<and> u \<le> STAR" by (auto simp: STAR_def u32_max_def)
  then show ?thesis using sample_rows_ok by (simp add: store_ok_def g)
qed


definition with_state :: "sync_state \<Rightarrow> sync_store \<Rightarrow> sync_store" where
  "with_state x s = s\<lparr>st_sync := [x]\<rparr>"

definition sample_state :: "int option \<Rightarrow> nat option \<Rightarrow> sync_state" where
  "sample_state full_at q = \<lparr>ss_mailbox_id = 1, ss_account_id = 1, ss_generation = Some 7, ss_uid_next = Some 3, ss_highest_mod_seq = q,
     ss_last_full_sync_at = full_at, ss_last_seen_at = Some 0, ss_passes_since_flag_sweep = 0\<rparr>"

lemma with_state_reads:
  "row_at (with_state x s) = row_at s" "uids_in (with_state x s) = uids_in s" "rows (with_state x s) = rows s"
proof -
  have "with_state x s = with_sync (with_state x s) s" by (simp add: with_state_def with_sync_def)
  then show "row_at (with_state x s) = row_at s" "uids_in (with_state x s) = uids_in s" "rows (with_state x s) = rows s"
    by (metis with_sync_simps(1,2) with_sync_readers(3))+
qed

lemma with_state_ok: "store_ok rid box R s \<Longrightarrow> store_ok rid box R (with_state x s)"
proof -
  assume "store_ok rid box R s"
  moreover have "with_state x s = with_sync (with_state x s) s" by (simp add: with_state_def with_sync_def)
  then have "rows_ok rid box (sv_generation R) (with_state x s) = rows_ok rid box (sv_generation R) s"
    by (metis with_sync_readers(5))
  ultimately show ?thesis by (simp add: store_ok_def held_uids_def with_state_reads)
qed


subsection \<open>Properties\<close>







text \<open>
  C33: On a server without modification sequences every pass after the first re-reads the
  mailbox and never asks what is gone: whatever the server has expunged stays in the store,
  after this pass and, since the next plan is the same, after every other.
\<close>

theorem resync_without_modseq_never_removes:
  fixes B :: "'s sync_backend"
  assumes "holds B R" "server_ok rid R" "store_ok rid (mb_id box) R s" "0 < mb_account box" "0 < mb_id box"
    and "get_sync s (mb_id box) = Some x" "0 < ss_account_id x"
    and "sync_plan x (to_model_status (status_of R)) = Full NoModSeq" "sv_highest_mod_seq R = None"
  shows "\<exists>e' s' rep x'. resync_with_policy B lower box None policy (e, s) = ((e', s'), Inr (FullOutcome NoModSeq rep))
    \<and> set (uids_in s (mb_id box) (sv_generation R)) \<subseteq> set (uids_in s' (mb_id box) (sv_generation R))
    \<and> (\<forall>u. u \<notin> server_uids R \<longrightarrow> row_at s' (mb_id box) (sv_generation R) u = row_at s (mb_id box) (sv_generation R) u)
    \<and> get_sync s' (mb_id box) = Some x' \<and> sync_plan x' (to_model_status (status_of R)) = Full NoModSeq"
proof -
  let ?g = "sv_generation R" and ?box = "mb_id box"
  have ready: "sync_ready ?box x s" using assms(5-7) by (simp add: sync_ready_def)
  have ok: "rows_ok rid ?box ?g s" using assms(3) by (simp add: store_ok_def)
  have gen: "\<not> generation_changed x ?g"
    using assms(8) plan_generation [of x "to_model_status (status_of R)"] by auto
  obtain e1 where sel: "ask (sb_select B) (e, s) = ((e1, s), Inr (status_of R))" by (rule ask_select [OF assms(1)])
  obtain e' s' rep F now now' where pass: "full_pass B lower box None x (status_of R) NoModSeq (e1, s) = ((e', s'), Inr (FullOutcome NoModSeq rep))"
    and w: "written_only rid ?box ?g F s s'"
    and F2: "F \<subseteq> {f \<in> set (sv_messages R). coverage_for NoModSeq = Everything \<or> fm_uid f \<notin> set (uids_in s ?box ?g)}"
    and ready': "sync_ready ?box (complete_full_sync (sync_observe (sync_observe x (to_model_status (status_of R)) now')
       (to_model_status (status_of R)) now) now) s'"
    by (rule full_pass_fills [OF assms(1,2) ok assms(4) ready, of NoModSeq lower e1]) auto
  note rows = written_only_rows [OF w] and held = uids_in_held(1)
  have "resync_with_policy B lower box None policy (e, s) = ((e', s'), Inr (FullOutcome NoModSeq rep))"
    using sel pass assms(6,8) by (simp add: resync_with_policy_def bindP_def atomically_def require_sync_def or_rebuild_def Let_def)
  moreover have "set (uids_in s ?box ?g) \<subseteq> set (uids_in s' ?box ?g)"
    unfolding held [OF rows(1)] rows(3) using held [OF ok] by auto
  moreover have "row_at s' ?box ?g u = row_at s ?box ?g u" if "u \<notin> server_uids R" for u
    using that F2 by (intro rows(2)) (auto simp: server_uids_def)
  ultimately show ?thesis using ready' completed_plan [OF gen] assms(9) by (simp add: sync_ready_def)
qed

theorem resync_without_modseq_never_removes_witness:
  "\<exists>e' s'. fst (resync_with_policy (plain_server (sample_server\<lparr>sv_highest_mod_seq := None\<rparr>)) id sample_box None sweep_default
       ((), with_state (sample_state (Some 0) None) sample_store)) = (e', s')
     \<and> 2 \<notin> server_uids sample_server \<and> 2 \<in> set (uids_in s' 1 7)"
proof -
  let ?R = "sample_server\<lparr>sv_highest_mod_seq := None\<rparr>"
  let ?x = "sample_state (Some 0) None" and ?s = "with_state (sample_state (Some 0) None) sample_store"
  have R: "server_ok sample_rid ?R" using sample_server_ok by (simp add: server_ok_def)
  have box: "mb_id sample_box = 1" "0 < mb_account sample_box" by (simp_all add: sample_box_def)
  have g: "sv_generation sample_server = 7" by (simp add: sample_server_def)
  have x: "get_sync ?s 1 = Some ?x" "0 < ss_account_id ?x" by (simp_all add: with_state_def sample_state_def get_sync_def)
  have plan: "sync_plan ?x (to_model_status (status_of ?R)) = Full NoModSeq"
    by (simp add: sample_state_def sample_server_def sync_plan_def generation_changed_def has_synced_def to_model_status_def
        status_new_def with_uid_next_def with_highest_mod_seq_def Let_def status_of_def)
  have ok: "store_ok sample_rid 1 ?R ?s" using with_state_ok [OF sample_store_ok, of ?x] by (simp add: store_ok_def)
  have uids: "set (uids_in sample_store 1 7) = {1, 2}"
    by (simp add: uids_in_def sample_store_def held_under_def sample_row_def sample_message_def into_message_def)
  from resync_without_modseq_never_removes [OF plain_server_holds R, of sample_box ?s ?x id sweep_default "()",
      unfolded box, OF ok box(2) _ x plan]
  show ?thesis using uids by (auto simp: g with_state_reads) (auto simp: sample_server_def sample_message_def server_uids_def with_state_reads)
qed



end
