(* ===== verification/Spec2Isabelle.thy ===== *)
theory Spec2Isabelle
  imports Connect_Props Watch_Reports Uid_Chunks Sync_State Drain_Outcomes Op_Queue_Props
    Send_Findings Draft_Upload Cross_Undo_Props Search_Edit_Props Search_Match Search_Types Conversation_Rows
    Resync_Props
begin

section \<open>Postio: the synchronisation core, conversations and the search language\<close>

text \<open>
  Postio is a local-first mail client: every action is written to the local store at once
  and queued; an engine per account replays the queue against the server, submits what the
  user sends, keeps the connection, watches the mailboxes and fetches what changed.  This
  library models that engine's decisions, the code under \<open>crates/postio-sync\<close> and the
  parts of \<open>postio-model\<close>, \<open>postio-storage\<close>, \<open>postio-session\<close>, \<open>postio-smtp\<close> and
  \<open>postio-account\<close> it is made of, the threading of
  conversations, and the query language of \<open>crates/postio-search\<close>, as
  executable functions over explicit states, and proves what makes them correct.

  \<^bold>\<open>How the parts interact.\<close>  An action enqueues an \<open>Operation\<close> in the transaction of
  its local write (\<open>Op_Queue.enqueue\<close>, \<open>enqueue_set\<close>, \<open>enqueue_many\<close>).  A pass
  (\<open>Drain.drain\<close>) takes the due rows in queue order (\<open>pending\<close>), folds them
  (\<open>Coalesce.coalesce\<close>), looks each step up, asks the backend and settles the rows;
  what cannot be sent yet is put back at a time \<open>Retry\<close> computes.  A step that sends a
  draft runs \<open>Send.worker_step\<close> over the draft rows and submits over \<open>Smtp_Session\<close>;
  one that saves a draft runs \<open>Draft_Upload.upload_draft\<close>; one that moves a message to
  another account runs the two halves of \<open>Cross_Account\<close>.  The connection is a
  \<open>Connect.supervisor\<close>; while it is up a \<open>Watch.watcher\<close> decides which mailbox is
  idled on or polled, and a mailbox that reports a change is synced by
  \<open>Resync.resync_with_policy\<close>: the plan of \<open>Sync_State.sync_plan\<close> says whether it is
  enumerated (\<open>Initial_Sync.enumerate_mailbox\<close>), brought up to date from what changed, or left
  alone, with the messages to fetch named by a \<open>Uid_Set\<close>, the rows written by
  \<open>Mail_Rows.upsert_batch\<close> and filed into conversations by \<open>Threading\<close>.  The
  search bar parses its text with \<open>Search_Query.parse\<close>, every control rewrites that
  text with \<open>Search_Edit.apply_edit\<close>, and a digest rule is asked of a message as it is
  filed by \<open>Search_Match.matches\<close>.

  \<^bold>\<open>The theories.\<close>
  \<^item> \<open>Prelude\<close>: byte strings, \<open>str::trim\<close>, decimal rendering, saturating and checked
    integers, \<open>BTreeSet\<close> as the list its iterator yields (\<open>bt_insert\<close>,
    \<open>bt_collect\<close>), \<open>HashMap\<close> as an association list (\<open>al_put\<close>, \<open>al_modify\<close>);
    the locale \<open>key_set\<close> (a set known by the keys of its elements) and the locale
    \<open>machine\<close> (a transition function, its runs, and invariants by induction on a run).
  \<^item> \<open>Rust_Str\<close>: what the code uses of \<open>str\<close>: characters as their UTF-8 bytes,
    prefixes, splitting, ASCII case.
  \<^item> \<open>Rust_Time\<close>: \<open>Duration\<close> and \<open>chrono\<close> instants in nanoseconds with the panics
    of their arithmetic as \<open>None\<close>; the locale \<open>backoff_schedule\<close>, the contract the
    queue's retries and the reconnects share.
  \<^item> \<open>Flags\<close>, \<open>Operations\<close>: \<open>postio-model/src/flag.rs\<close>, \<open>operation.rs\<close>, and
    \<open>serve\<close>, the abstract specification of what an operation does to the server's copy
    of one target.
  \<^item> \<open>Coalesce\<close>, \<open>Coalesce_Exact\<close>: \<open>postio-sync/src/coalesce.rs\<close>, and that the
    steps it plans leave the server where the rows would have.
  \<^item> \<open>Retry\<close>: \<open>postio-sync/src/retry.rs\<close>, \<open>order.rs\<close>.
  \<^item> \<open>Backend\<close>: \<open>postio-account/src/backend/capability.rs\<close>, \<open>error.rs\<close>.
  \<^item> \<open>Op_Queue\<close>, \<open>Op_Queue_Props\<close>: \<open>postio-storage/src/repository/operations.rs\<close>,
    every statement over the two tables it touches; the locale \<open>row_writer\<close> (a write that
    changes one row and keeps the invariant), interpreted by the four writes a pass makes.
  \<^item> \<open>Drain\<close>, \<open>Drain_Props\<close>, \<open>Drain_Passes\<close>, \<open>Drain_Outcomes\<close>:
    \<open>postio-sync/src/drain.rs\<close>; \<open>drain_env\<close> is what a pass calls elsewhere.
  \<^item> \<open>Smtp\<close>, \<open>Smtp_Session\<close>, \<open>Smtp_Props\<close>: \<open>postio-smtp/src/session.rs\<close>,
    \<open>error.rs\<close>, \<open>reply.rs\<close>, \<open>bcc.rs\<close>, \<open>settings.rs\<close>: a session is the
    script of what its connection will answer and the log of what crossed it; the coroutines of the \<open>io-smtp\<close> crate, which turn replies into
    verdicts, are the parameter \<open>smtp_lib\<close>.
  \<^item> \<open>Drafts\<close>: the draft rows and the list rows beside them,
    \<open>postio-storage/src/repository/drafts.rs\<close>, \<open>postio-model/src/draft.rs\<close>.
  \<^item> \<open>Send\<close>, \<open>Send_Once\<close>, \<open>Send_Props\<close>, \<open>Send_Findings\<close>:
    \<open>postio-sync/src/send.rs\<close>, cut at its awaits so that the user's operations can run
    in between; \<open>send_lib\<close> holds the building of the message and the tables a send only
    reports to.
  \<^item> \<open>Draft_Upload\<close>: \<open>postio-sync/src/drafts.rs\<close> over the state of a backend; \<open>draft_backend\<close>
    and \<open>draft_lib\<close> are what it calls.
  \<^item> \<open>Cross_Account\<close>, \<open>Cross_Steps\<close>, \<open>Cross_Props\<close>, \<open>Cross_Undo\<close>,
    \<open>Cross_Undo_Props\<close>: the saga that moves a message between accounts,
    \<open>postio-sync/src/cross_account.rs\<close>, \<open>postio-storage/src/repository/cross_account.rs\<close>
    and its local halves in \<open>postio-session/src/actions.rs\<close>; \<open>saga_backend\<close> is the
    mail backend over the mailboxes it holds.
  \<^item> \<open>Connect\<close>, \<open>Connect_Props\<close>: \<open>postio-sync/src/connect.rs\<close>; the relation
    \<open>moves\<close> is its abstract state machine, \<open>sup_step_refines\<close> the simulation.
  \<^item> \<open>Watch\<close>, \<open>Watch_Props\<close>, \<open>Watch_Reports\<close>: \<open>postio-sync/src/watch.rs\<close>.
  \<^item> \<open>Uid_Set\<close>, \<open>Uid_Chunks\<close>: \<open>postio-account/src/backend/uid_set.rs\<close>.
  \<^item> \<open>Sync_State\<close>: \<open>postio-model/src/sync.rs\<close>, \<open>sweep.rs\<close>, and the comparison of
    \<open>postio-sync/src/flag_sweep.rs\<close>.
  \<^item> \<open>Mail_Rows\<close>: the statements of \<open>postio-storage/src/repository/messages.rs\<close> and
    \<open>sync_state.rs\<close> a synchronization runs, over one store (\<open>sync_store\<close>);
    \<open>Initial_Sync\<close>: \<open>postio-sync/src/initial.rs\<close>; \<open>Resync\<close>:
    \<open>resync.rs\<close> and the loop of \<open>flag_sweep.rs\<close>.  A pass is a function of an environment
    any call may change and of the store; \<open>sync_backend\<close> is the trait \<open>MailBackend\<close>.
  \<^item> \<open>Row_Facts\<close>, \<open>Pass_Facts\<close>: what writing fetched messages does to the rows of a
    mailbox (\<open>written\<close>), from one message to an enumeration; \<open>Resync_Facts\<close>,
    \<open>Vanish_Facts\<close>: a server that answers from one mailbox (\<open>truthful\<close>, \<open>holds\<close>), what
    an enumeration fills and a vanish check deletes; \<open>Safe_Pass\<close>, \<open>Pass_Logic\<close>,
    \<open>Resync_Safe\<close>: Hoare triples for passes, whatever fails in them; \<open>Resync_Exact\<close>,
    \<open>Resync_Props\<close>: the passes nothing disturbs, and the properties.
  \<^item> \<open>Subject\<close>, \<open>Threading\<close>: \<open>postio-model/src/subject.rs\<close>, \<open>threading.rs\<close>,
    \<open>postio-storage/src/repository/threading.rs\<close> and the statements of \<open>threads.rs\<close> it
    runs; the locale \<open>eager_index\<close> of \<open>Threading_Rule\<close> is the contract between the rule
    and an index loaded before it, interpreted by the one the repository loads.
  \<^item> \<open>Threading_Effects\<close>, \<open>Threading_Inv\<close>, \<open>Threading_Props\<close>: what filing writes,
    and the invariant against the reference relation \<open>related\<close>; \<open>Conversations\<close>,
    \<open>Conversation_Rows\<close>: runs of filings, and the rows the list reads.
  \<^item> \<open>Search_Date\<close>, \<open>Search_Query\<close>: \<open>postio-search/src/date.rs\<close> (the dates a query
    may hold), \<open>size.rs\<close>, \<open>query.rs\<close> and \<open>parser.rs\<close>, byte for byte; \<open>search_lib\<close>
    holds the calendar of chrono and the Unicode tables.
  \<^item> \<open>Search_Words\<close>, \<open>Search_Numbers\<close>, \<open>Search_Spell\<close>: what the grammar reads of
    a query given as words, how it reads back each kind of value, and when a clause can be
    spelled at all (\<open>spellable\<close>).
  \<^item> \<open>Search_Types\<close>: the tokens a parse can yield.
  \<^item> \<open>Search_Edit\<close>, \<open>Search_Props\<close>, \<open>Search_Edit_Props\<close>:
    \<open>postio-search/src/edit.rs\<close>.
  \<^item> \<open>Search_Match\<close>: \<open>postio-search/src/matcher.rs\<close>, against what its words say.

  \<^bold>\<open>What is shown.\<close>  Folding is exact for the operations the callers queue (a
  refinement of \<open>serve\<close>), accounts for every row, keeps the order and never touches an
  event.  A pass settles every row it took, once, and no other; its report counts each; a row
  is not retried beyond the policy; a step looks for the message where the server still has
  it; an answer that says the ids are stale is never retried.  The flag the message list
  reads is right after any sequence of queue operations, a bulk enqueue writes exactly the
  rows it names.  A send whose submission may have arrived is not submitted again, whatever
  the user and the queue do in between; a session says truthfully whether the payload may
  have been taken, and no \<open>Bcc\<close> header leaves; uploading a draft never leaves the server
  without a copy; a move between accounts never removes the source before the target's copy
  is confirmed.  The supervisor resets its backoff only after a stable connection, on the
  user's request or when the network returns, and a blocked link stays blocked; a mailbox
  never has two commands outstanding and every mailbox is polled in turn; a sync never takes
  an incremental plan from state of another generation; a UID set is canonical and its
  chunks partition it.  A synchronization that fails anywhere has lost no message the server
  has and no local change still queued; an incremental pass that completes leaves exactly
  the server's messages, with its flags and the queued changes on top, and a resumed first
  sync every message.  A conversation is never split along a chain of message ids, in
  whatever order its messages come, and never joined without one or a reply's subject; the
  counts of every thread are those of its messages.  A query's tokens are well formed and are slices of its text; what the
  printer writes is read back; an edit asks for what it was told to, a toggle turns a filter
  on and off, a removal removes one token and nothing else; the matcher holds the messages
  whose columns say the values in their order.  A few properties prove a fault instead: a
  fold that names the wrong mailbox, an undo that overtakes the archive it undoes, a cancel
  that leaves the send behind, a cancelled send that is submitted all the same, an undo that
  keeps only a copy marked deleted, a re-read cut short that is recorded as done, an expunge
  never seen on a server without modification sequences.

  \<^bold>\<open>Conventions and bounds.\<close>  Row ids and mailbox ids are \<open>int\<close> (an \<open>i64\<close>
  column), \<open>u32\<close> and \<open>u64\<close> values are \<open>nat\<close> with the saturation or the checked
  failure written out where the code relies on it; a string is its UTF-8 bytes.  A panic is
  \<open>None\<close>, an error is \<open>Inl\<close>.  \<open>async\<close> calls are functions of the state: each
  model step is one \<open>await\<close>ed operation, and interleavings are sequences of such steps.
  Loops are structural recursions or carry a termination proof; \<open>chunk_while\<close> of
  \<open>UidSet::chunks\<close> is partial and proved to return.  The exchange of an SMTP command
  loops as long as a third-party coroutine asks for input or output: each turn takes the next
  result of the connection's script, and a script that has run out is a closed connection, so
  the length of what is left of it is the measure.

  \<^bold>\<open>What is not modelled.\<close>  The backend, the SQL engine, chrono and the \<open>io-smtp\<close>
  coroutines are not in this repository or are pure I/O: they are parameters
  (\<open>drain_env\<close>, the \<open>chrono\<close> record, \<open>smtp_lib\<close>, \<open>saga_backend\<close>, \<open>sync_backend\<close>, the
  answers passed to \<open>sup_poll\<close>).  Error texts are parameters.  Failures of the
  database engine are left out.  Of a send, the building of the MIME message, the fetching of
  carried parts (\<open>carry.rs\<close>), the blob store, contacts, labels and reminders are
  parameters or left out.  Of the search language, the forward dates of a snooze
  (\<open>parse_when\<close>), natural-language queries, suggestions, facets and highlighting are
  not modelled.  Of a synchronization, contacts, correspondents, progress and the retry of a
  busy write unit are left out, and the filing pass of a host in Focus mode is a parameter.
  Backfill, discovery, the decisions of Focus, the protocol adapters, the application state
  and the frontends are not modelled: the frontends and bindings are most of the repository's
  lines and hold no state the engine relies on, and what decodes the wire and the MIME
  structure is third-party code.
\<close>

end
